(* ===== verification/Prelude.thy ===== *)
theory Prelude
  imports
    Main
    "HOL-Library.Word"
    "HOL-Library.AList"
    "HOL-Library.Multiset"
    "HOL-Library.Char_ord"
    "HOL-Library.List_Lexorder"
    "HOL-Library.Product_Lexorder"
begin

text \<open>
  Shared vocabulary of the development: Go's instants, durations and machine bounds,
  Go maps as association lists, \<^verbatim>\<open>sort.Slice\<close> as an insertion sort over the comparator of
  the source, and the decimal rendering of \<^verbatim>\<open>strconv\<close>. The lemmas here are the ones that
  more than one component uses.
\<close>

section \<open>Collections of rewrite rules\<close>

named_theorems gmap_simps \<open>lookups in Go maps after an update, a deletion or a mapping\<close>
named_theorems inv_intros \<open>preservation of the store invariants\<close>

section \<open>Instants and durations\<close>

text \<open>
  \<^verbatim>\<open>time.Time\<close> is the number of nanoseconds since the zero instant (January 1, year 1,
  UTC): \<^verbatim>\<open>IsZero\<close> is equality with 0 and \<^verbatim>\<open>Truncate\<close> rounds to multiples counted from that
  instant. Locations do not change an instant and the clocks of the program strip the
  monotonic reading (\<^verbatim>\<open>UTC()\<close>), so equality is equality of instants.
  \<^verbatim>\<open>time.Duration\<close> is a signed 64-bit count of nanoseconds.
\<close>

type_synonym gotime = int
type_synonym duration = int

definition max_duration :: duration where
  "max_duration = 2 ^ 63 - 1"

definition min_duration :: duration where
  "min_duration = - (2 ^ 63)"

definition is_duration :: "duration \<Rightarrow> bool" where
  "is_duration d \<longleftrightarrow> min_duration \<le> d \<and> d \<le> max_duration"

abbreviation (input) Nanosecond :: duration where "Nanosecond \<equiv> 1"
abbreviation (input) Millisecond :: duration where "Millisecond \<equiv> 1000000"
abbreviation (input) Second :: duration where "Second \<equiv> 1000000000"
abbreviation (input) Minute :: duration where "Minute \<equiv> 60000000000"
abbreviation (input) Hour :: duration where "Hour \<equiv> 3600000000000"

definition IsZero :: "gotime \<Rightarrow> bool" where
  "IsZero t \<longleftrightarrow> t = 0"

text \<open>\<^verbatim>\<open>Time.Sub\<close> saturates at the bounds of a duration.\<close>

definition time_sub :: "gotime \<Rightarrow> gotime \<Rightarrow> duration" where
  "time_sub t u = max min_duration (min max_duration (t - u))"

text \<open>\<^verbatim>\<open>Time.Truncate\<close>: unchanged for a non-positive unit.\<close>

definition time_truncate :: "gotime \<Rightarrow> duration \<Rightarrow> gotime" where
  "time_truncate t d = (if d \<le> 0 then t else t - t mod d)"

text \<open>Signed 64-bit wrap-around, for the arithmetic of the source that no guard protects.\<close>

definition wrap64 :: "int \<Rightarrow> int" where
  "wrap64 n = (n + 2 ^ 63) mod 2 ^ 64 - 2 ^ 63"

text \<open>The Unix epoch, and \<^verbatim>\<open>UnixNano\<close>, an \<^verbatim>\<open>int64\<close>.\<close>

definition unix_epoch :: gotime where
  "unix_epoch = 62135596800 * Second"

definition UnixNano :: "gotime \<Rightarrow> int" where
  "UnixNano t = wrap64 (t - unix_epoch)"

lemma wrap64_id: "is_duration n \<Longrightarrow> wrap64 n = n"
  by (simp add: wrap64_def is_duration_def min_duration_def max_duration_def)

lemma wrap64_range: "is_duration (wrap64 n)"
proof -
  have "0 \<le> (n + 2 ^ 63) mod 2 ^ 64" "(n + 2 ^ 63) mod 2 ^ 64 < (2 ^ 64 :: int)"
    by simp_all
  then show ?thesis
    by (simp add: wrap64_def is_duration_def min_duration_def max_duration_def)
qed

lemma time_sub_exact: "is_duration (t - u) \<Longrightarrow> time_sub t u = t - u"
  by (simp add: time_sub_def is_duration_def)

lemma time_truncate_le: "time_truncate t d \<le> t"
  by (simp add: time_truncate_def)

lemma time_truncate_gt: "0 < d \<Longrightarrow> t < time_truncate t d + d"
  by (simp add: time_truncate_def)

lemma time_truncate_dvd: "0 < d \<Longrightarrow> d dvd time_truncate t d"
  by (simp add: time_truncate_def minus_mod_eq_mult_div)

lemma time_truncate_mono:
  assumes "0 < d" "t \<le> u"
  shows "time_truncate t d \<le> time_truncate u d"
  using assms by (simp add: time_truncate_def minus_mod_eq_mult_div zdiv_mono1)

text \<open>The offset of an instant inside its window determines the window.\<close>

lemma time_truncate_unique:
  assumes "0 < d" "d dvd w" "w \<le> t" "t < w + d"
  shows "time_truncate t d = w"
proof -
  from assms(2) obtain k where k: "w = d * k" by (auto simp: dvd_def)
  have "t mod d = t - w"
  proof -
    have "(t - w) mod d = t - w" using assms by (simp add: k)
    moreover have "(t - w) mod d = t mod d" by (simp add: k mod_diff_right_eq [symmetric])
    ultimately show ?thesis by simp
  qed
  with assms(1) show ?thesis by (simp add: time_truncate_def)
qed

section \<open>Go maps\<close>

text \<open>
  A Go map is an association list with distinct keys; the order of the list is one of the
  iteration orders Go may choose, so a statement about every such list covers them all.
\<close>

type_synonym ('k, 'v) gmap = "('k \<times> 'v) list"

abbreviation gget :: "('k, 'v) gmap \<Rightarrow> 'k \<Rightarrow> 'v option" where
  "gget m k \<equiv> map_of m k"

abbreviation gput :: "'k \<Rightarrow> 'v \<Rightarrow> ('k, 'v) gmap \<Rightarrow> ('k, 'v) gmap" where
  "gput k v m \<equiv> AList.update k v m"

abbreviation gdel :: "'k \<Rightarrow> ('k, 'v) gmap \<Rightarrow> ('k, 'v) gmap" where
  "gdel k m \<equiv> AList.delete k m"

abbreviation gkeys :: "('k, 'v) gmap \<Rightarrow> 'k list" where
  "gkeys m \<equiv> map fst m"

abbreviation gvals :: "('k, 'v) gmap \<Rightarrow> 'v list" where
  "gvals m \<equiv> map snd m"

text \<open>A range loop that rewrites every value in place.\<close>

definition gmap_vals :: "('v \<Rightarrow> 'v) \<Rightarrow> ('k, 'v) gmap \<Rightarrow> ('k, 'v) gmap" where
  "gmap_vals f m = map (\<lambda>(k, v). (k, f v)) m"

declare map_of_eq_Some_iff [simp del] Some_eq_map_of_iff [simp del]

lemma gget_gput [gmap_simps]: "gget (gput k v m) k' = (if k' = k then Some v else gget m k')"
  by (simp add: update_conv')

lemma gget_gdel [gmap_simps]: "gget (gdel k m) k' = (if k' = k then None else gget m k')"
  by (simp add: delete_conv')

lemma gget_gmap_vals [gmap_simps]: "gget (gmap_vals f m) k = map_option f (gget m k)"
  by (simp add: gmap_vals_def map_of_map)

lemma gkeys_gmap_vals [simp]: "gkeys (gmap_vals f m) = gkeys m"
  by (induction m) (auto simp: gmap_vals_def)

lemma gvals_gmap_vals: "gvals (gmap_vals f m) = map f (gvals m)"
  by (induction m) (auto simp: gmap_vals_def)

lemma gmap_vals_Nil [simp]: "gmap_vals f [] = []"
  by (simp add: gmap_vals_def)

lemma gmap_vals_Cons [simp]: "gmap_vals f ((k, v) # m) = (k, f v) # gmap_vals f m"
  by (simp add: gmap_vals_def)

lemma gget_Some_iff: "distinct (gkeys m) \<Longrightarrow> gget m k = Some v \<longleftrightarrow> (k, v) \<in> set m"
  by (rule map_of_eq_Some_iff)

lemma distinct_gput [inv_intros]: "distinct (gkeys m) \<Longrightarrow> distinct (gkeys (gput k v m))"
  by (rule distinct_update)

lemma distinct_gdel [inv_intros]: "distinct (gkeys m) \<Longrightarrow> distinct (gkeys (gdel k m))"
  by (rule distinct_delete)

lemma gvals_gput_fresh: "gget m k = None \<Longrightarrow> gput k v m = m @ [(k, v)]"
  by (simp add: map_of_eq_None_iff update_nonempty split: if_splits)
     (induction m, auto)

lemma gput_same_length: "gget m k \<noteq> None \<Longrightarrow> length (gput k v m) = length m"
  by (induction m) auto

section \<open>sort.Slice\<close>

text \<open>
  \<^verbatim>\<open>sort.Slice\<close> returns some permutation that is sorted by the comparator. The model is an
  insertion sort with that comparator; \<open>sort_slice_unique\<close> shows that nothing depends
  on the choice when the comparator separates the elements.
\<close>

fun insert_slice :: "('a \<Rightarrow> 'a \<Rightarrow> bool) \<Rightarrow> 'a \<Rightarrow> 'a list \<Rightarrow> 'a list" where
  "insert_slice lt x [] = [x]"
| "insert_slice lt x (y # ys) = (if lt y x then y # insert_slice lt x ys else x # y # ys)"

definition sort_slice :: "('a \<Rightarrow> 'a \<Rightarrow> bool) \<Rightarrow> 'a list \<Rightarrow> 'a list" where
  "sort_slice lt xs = foldr (insert_slice lt) xs []"

text \<open>
  A comparator that orders by a key. Every \<^verbatim>\<open>sort.Slice\<close> of the program is an instance.
\<close>

locale slice_order =
  fixes lt :: "'a \<Rightarrow> 'a \<Rightarrow> bool"
    and key :: "'a \<Rightarrow> 'k::linorder"
  assumes lt_iff: "lt x y \<longleftrightarrow> key x < key y"
begin

lemma insert_slice_eq: "insert_slice lt x xs = insort_key key x xs"
  by (induction xs) (auto simp: lt_iff not_less)

lemma sort_slice_eq: "sort_slice lt xs = sort_key key xs"
  by (simp add: sort_slice_def sort_key_def insert_slice_eq [abs_def])

lemma mset_sort_slice: "mset (sort_slice lt xs) = mset xs"
  by (simp add: sort_slice_eq)

lemma set_sort_slice: "set (sort_slice lt xs) = set xs"
  by (simp add: sort_slice_eq)

lemma length_sort_slice: "length (sort_slice lt xs) = length xs"
  by (simp add: sort_slice_eq)

lemma distinct_sort_slice: "distinct (sort_slice lt xs) = distinct xs"
  by (simp add: sort_slice_eq)

lemma sorted_sort_slice: "sorted (map key (sort_slice lt xs))"
  by (simp add: sort_slice_eq)

lemma sort_slice_unique:
  assumes "mset ys = mset xs" "inj_on key (set xs)" "sorted (map key ys)"
  shows "sort_slice lt xs = ys"
  using assms by (simp add: sort_slice_eq sort_key_inj_key_eq)

lemma sort_slice_perm:
  assumes "mset ys = mset xs" "inj_on key (set xs)"
  shows "sort_slice lt ys = sort_slice lt xs"
  using assms sorted_sort_slice [of ys] by (intro sort_slice_unique [symmetric]) (auto simp: mset_sort_slice)

text \<open>Everything kept by a prefix of the sorted slice is at least as early as what is cut.\<close>

lemma take_sort_slice_first:
  assumes "x \<in> set (take n (sort_slice lt xs))" "y \<in> set (drop n (sort_slice lt xs))"
  shows "\<not> lt y x"
proof -
  let ?s = "sort_slice lt xs"
  have "sorted (map key (take n ?s @ drop n ?s))"
    using sorted_sort_slice [of xs] by simp
  then have "\<forall>a \<in> set (take n ?s). \<forall>b \<in> set (drop n ?s). key a \<le> key b"
    by (simp only: map_append sorted_append) auto
  with assms show ?thesis by (auto simp: lt_iff not_less)
qed

end

section \<open>Decimal numbers\<close>

text \<open>\<^verbatim>\<open>strconv.FormatUint(n, 10)\<close> and \<^verbatim>\<open>strconv.Itoa\<close>.\<close>

definition digit_char :: "nat \<Rightarrow> char" where
  "digit_char d = char_of (48 + d)"

fun nat_to_dec :: "nat \<Rightarrow> string" where
  "nat_to_dec n = (if n < 10 then [digit_char n] else nat_to_dec (n div 10) @ [digit_char (n mod 10)])"

declare nat_to_dec.simps [simp del]

definition Itoa :: "int \<Rightarrow> string" where
  "Itoa n = (if n < 0 then CHR ''-'' # nat_to_dec (nat (- n)) else nat_to_dec (nat n))"

definition dec_to_nat :: "string \<Rightarrow> nat" where
  "dec_to_nat s = foldl (\<lambda>a c. 10 * a + (of_char c - 48)) 0 s"

lemma of_char_digit_char: "d < 10 \<Longrightarrow> of_char (digit_char d) = 48 + d"
  by (simp add: digit_char_def)

lemma dec_to_nat_snoc: "dec_to_nat (s @ [c]) = 10 * dec_to_nat s + (of_char c - 48)"
  by (simp add: dec_to_nat_def)

lemma dec_to_nat_to_dec: "dec_to_nat (nat_to_dec n) = n"
proof (induction n rule: nat_to_dec.induct)
  case (1 n)
  show ?case
  proof (cases "n < 10")
    case True
    then show ?thesis
      by (subst nat_to_dec.simps) (simp add: dec_to_nat_def of_char_digit_char)
  next
    case False
    with 1 show ?thesis
      by (subst nat_to_dec.simps) (simp add: dec_to_nat_snoc of_char_digit_char)
  qed
qed

lemma nat_to_dec_inject [simp]: "nat_to_dec m = nat_to_dec n \<longleftrightarrow> m = n"
  by (metis dec_to_nat_to_dec)

lemma Itoa_no_colon: "CHR '':'' \<notin> set (Itoa n)"
proof -
  have "\<forall>c\<in>set (nat_to_dec k). c \<noteq> CHR '':''" for k
  proof (induction k rule: nat_to_dec.induct)
    case (1 k)
    have "digit_char (k mod 10) \<noteq> CHR '':''"
    proof
      assume "digit_char (k mod 10) = CHR '':''"
      then have "of_char (digit_char (k mod 10)) = (of_char CHR '':'' :: nat)" by simp
      then show False by (simp add: of_char_digit_char)
    qed
    with 1 show ?case by (subst nat_to_dec.simps) auto
  qed
  then show ?thesis by (auto simp: Itoa_def)
qed

lemma Itoa_inject: "Itoa m = Itoa n \<longleftrightarrow> m = n"
proof (rule iffI)
  have digit: "hd (nat_to_dec k) \<noteq> CHR ''-'' \<and> nat_to_dec k \<noteq> []" for k
  proof (induction k rule: nat_to_dec.induct)
    case (1 k)
    have "digit_char k \<noteq> CHR ''-''" if "k < 10"
    proof
      assume "digit_char k = CHR ''-''"
      then have "of_char (digit_char k) = (of_char CHR ''-'' :: nat)" by simp
      then show False using that by (simp add: of_char_digit_char)
    qed
    with 1 show ?case by (subst (1 2) nat_to_dec.simps) auto
  qed
  assume eq: "Itoa m = Itoa n"
  have "hd (Itoa k) = CHR ''-'' \<longleftrightarrow> k < 0" for k using digit [of "nat k"] by (simp add: Itoa_def)
  then have "m < 0 \<longleftrightarrow> n < 0" using eq by metis
  with eq show "m = n" by (cases "m < 0") (simp_all add: Itoa_def)
qed simp

end
