(* ===== verification/Go_Errors.thy ===== *)
theory Go_Errors
  imports Prelude
begin

text \<open>
  Errors as values. The sentinels are those of \<^verbatim>\<open>driver/errors.go\<close>, \<^verbatim>\<open>admission.go\<close>,
  \<^verbatim>\<open>admin/admin.go\<close> and \<^verbatim>\<open>driver/firestore/executor.go\<close>; the structured errors are the error types of the program
  (\<^verbatim>\<open>core/retry.go\<close>, \<^verbatim>\<open>admission.go\<close>, \<^verbatim>\<open>worker.go\<close>). \<open>WrapError\<close> is the value
  \<^verbatim>\<open>fmt.Errorf\<close> builds for a format with \<^verbatim>\<open>%w\<close>: the rendered message and the wrapped
  error. \<open>error_chain\<close> lists an error tree in the order in which \<^verbatim>\<open>errors.Is\<close> and
  \<^verbatim>\<open>errors.As\<close> visit it.
\<close>

section \<open>Error values\<close>

datatype sentinel =
    ErrUnsupported | ErrNotFound | ErrConflict | ErrStaleClaim | ErrInvalidCursor
  | ErrAdmissionRejected
  | ErrUnauthenticated | ErrForbidden | ErrReadOnly | ErrConfirmationRequired
  | errJobGone
  | Canceled | DeadlineExceeded

datatype goerr =
    Sentinel sentinel
  | Errorf string
  | WrapError string goerr
  | JoinError "goerr list"
  | DiscardError "goerr option"
  | RetryError "goerr option" gotime duration
  | PanicError string string
  | QueueFullError string int int int

type_synonym 'a res = "goerr + 'a"

definition sentinel_text :: "sentinel \<Rightarrow> string" where
  "sentinel_text s = (case s of
      ErrUnsupported \<Rightarrow> ''goncordia: operation unsupported''
    | ErrNotFound \<Rightarrow> ''goncordia: not found''
    | ErrConflict \<Rightarrow> ''goncordia: conflict''
    | ErrStaleClaim \<Rightarrow> ''goncordia: stale claim''
    | ErrInvalidCursor \<Rightarrow> ''goncordia: invalid cursor''
    | ErrAdmissionRejected \<Rightarrow> ''goncordia: enqueue admission rejected''
    | ErrUnauthenticated \<Rightarrow> ''admin: unauthenticated''
    | ErrForbidden \<Rightarrow> ''admin: forbidden''
    | ErrReadOnly \<Rightarrow> ''admin: read-only mode''
    | ErrConfirmationRequired \<Rightarrow> ''admin: explicit confirmation required''
    | errJobGone \<Rightarrow> ''job no longer available''
    | Canceled \<Rightarrow> ''context canceled''
    | DeadlineExceeded \<Rightarrow> ''context deadline exceeded'')"

text \<open>
  \<^verbatim>\<open>%q\<close> on a string: quotes, backslashes and the control characters are escaped. Bytes from
  128 on are passed through (\<^verbatim>\<open>strconv.Quote\<close> keeps printable runes).
\<close>

definition hex_digit :: "nat \<Rightarrow> char" where
  "hex_digit n = (if n < 10 then char_of (48 + n) else char_of (87 + n))"

definition quote_char :: "char \<Rightarrow> string" where
  "quote_char c = (let n = (of_char c :: nat) in
     if n = 34 then [char_of (92::nat), char_of (34::nat)]
     else if n = 92 then [char_of (92::nat), char_of (92::nat)]
     else if n = 7 then [char_of (92::nat), CHR ''a'']
     else if n = 8 then [char_of (92::nat), CHR ''b'']
     else if n = 9 then [char_of (92::nat), CHR ''t'']
     else if n = 10 then [char_of (92::nat), CHR ''n'']
     else if n = 11 then [char_of (92::nat), CHR ''v'']
     else if n = 12 then [char_of (92::nat), CHR ''f'']
     else if n = 13 then [char_of (92::nat), CHR ''r'']
     else if n < 32 \<or> n = 127 then [char_of (92::nat), CHR ''x'', hex_digit (n div 16), hex_digit (n mod 16)]
     else [c])"

definition go_quote :: "string \<Rightarrow> string" where
  "go_quote s = [char_of (34::nat)] @ concat (map quote_char s) @ [char_of (34::nat)]"

fun intercalate :: "'a list \<Rightarrow> 'a list list \<Rightarrow> 'a list" where
  "intercalate sep [] = []"
| "intercalate sep [x] = x"
| "intercalate sep (x # y # ys) = x @ sep @ intercalate sep (y # ys)"

text \<open>The \<^verbatim>\<open>Error()\<close> methods.\<close>

fun error_text :: "goerr \<Rightarrow> string" where
  "error_text (Sentinel s) = sentinel_text s"
| "error_text (Errorf m) = m"
| "error_text (WrapError m e) = m"
| "error_text (JoinError es) = intercalate [char_of (10::nat)] (map error_text es)"
| "error_text (DiscardError None) = ''discard job''"
| "error_text (DiscardError (Some e)) = error_text e"
| "error_text (RetryError None at aft) = ''retry job''"
| "error_text (RetryError (Some e) at aft) = error_text e"
| "error_text (PanicError v stack) = ''panic: '' @ v"
| "error_text (QueueFullError q active incoming limit) =
     sentinel_text ErrAdmissionRejected @ '': queue '' @ go_quote q @ '' has '' @ Itoa active @
     '' active jobs; adding '' @ Itoa incoming @ '' exceeds limit '' @ Itoa limit"

section \<open>errors.Is and errors.As\<close>

text \<open>The \<^verbatim>\<open>Unwrap\<close> methods followed depth first, as the \<^verbatim>\<open>errors\<close> package does.\<close>

fun error_chain :: "goerr \<Rightarrow> goerr list" where
  "error_chain (Sentinel s) = [Sentinel s]"
| "error_chain (Errorf m) = [Errorf m]"
| "error_chain (WrapError m e) = WrapError m e # error_chain e"
| "error_chain (JoinError es) = JoinError es # concat (map error_chain es)"
| "error_chain (DiscardError None) = [DiscardError None]"
| "error_chain (DiscardError (Some e)) = DiscardError (Some e) # error_chain e"
| "error_chain (RetryError None at aft) = [RetryError None at aft]"
| "error_chain (RetryError (Some e) at aft) = RetryError (Some e) at aft # error_chain e"
| "error_chain (PanicError v stack) = [PanicError v stack]"
| "error_chain (QueueFullError q a i l) = [QueueFullError q a i l, Sentinel ErrAdmissionRejected]"

definition errors_is :: "goerr \<Rightarrow> sentinel \<Rightarrow> bool" where
  "errors_is e s \<longleftrightarrow> Sentinel s \<in> set (error_chain e)"

fun is_discard :: "goerr \<Rightarrow> bool" where
  "is_discard (DiscardError _) = True"
| "is_discard _ = False"

fun is_retry :: "goerr \<Rightarrow> bool" where
  "is_retry (RetryError _ _ _) = True"
| "is_retry _ = False"

fun is_panic :: "goerr \<Rightarrow> bool" where
  "is_panic (PanicError _ _) = True"
| "is_panic _ = False"

definition Discard :: "goerr \<Rightarrow> goerr" where
  "Discard e = DiscardError (Some e)"

definition RetryAt :: "gotime \<Rightarrow> goerr \<Rightarrow> goerr" where
  "RetryAt at e = RetryError (Some e) at 0"

definition RetryAfter :: "duration \<Rightarrow> goerr \<Rightarrow> goerr" where
  "RetryAfter d e = RetryError (Some e) 0 d"

definition AsDiscard :: "goerr \<Rightarrow> goerr option" where
  "AsDiscard e = find is_discard (error_chain e)"

definition AsRetry :: "goerr \<Rightarrow> goerr option" where
  "AsRetry e = find is_retry (error_chain e)"

text \<open>\<^verbatim>\<open>panicTrace\<close>: the stack of the first panic in the tree, unless it is empty.\<close>

definition panicTrace :: "goerr \<Rightarrow> string option" where
  "panicTrace e = (case find is_panic (error_chain e) of
      Some (PanicError v stack) \<Rightarrow> if stack = [] then None else Some stack
    | _ \<Rightarrow> None)"

text \<open>\<^verbatim>\<open>errors.Join\<close> on a list of non-nil errors.\<close>

definition errors_Join :: "goerr list \<Rightarrow> goerr option" where
  "errors_Join es = (if es = [] then None else Some (JoinError es))"

text \<open>\<^verbatim>\<open>fmt.Errorf("%w: ...", sentinel, ...)\<close>.\<close>

definition wrap_sentinel :: "sentinel \<Rightarrow> string \<Rightarrow> goerr" where
  "wrap_sentinel s msg = WrapError (sentinel_text s @ '': '' @ msg) (Sentinel s)"

text \<open>\<^verbatim>\<open>fmt.Errorf("prefix: %w", err)\<close>.\<close>

definition wrap_prefix :: "string \<Rightarrow> goerr \<Rightarrow> goerr" where
  "wrap_prefix p e = WrapError (p @ '': '' @ error_text e) e"

section \<open>Facts about error trees\<close>

lemma error_chain_hd: "error_chain e = e # tl (error_chain e)"
  by (cases e rule: error_chain.cases) auto

lemma errors_is_simps [simp]:
  "errors_is (Sentinel s) s' \<longleftrightarrow> s' = s"
  "errors_is (Errorf m) s' \<longleftrightarrow> False"
  "errors_is (WrapError m e) s' \<longleftrightarrow> errors_is e s'"
  "errors_is (JoinError es) s' \<longleftrightarrow> (\<exists>e\<in>set es. errors_is e s')"
  "errors_is (DiscardError None) s' \<longleftrightarrow> False"
  "errors_is (DiscardError (Some e)) s' \<longleftrightarrow> errors_is e s'"
  "errors_is (QueueFullError q a i l) s' \<longleftrightarrow> s' = ErrAdmissionRejected"
  by (auto simp: errors_is_def)

lemma errors_is_wrap [simp]:
  "errors_is (wrap_sentinel s msg) s' \<longleftrightarrow> s' = s"
  "errors_is (wrap_prefix p e) s' \<longleftrightarrow> errors_is e s'"
  by (simp_all add: wrap_sentinel_def wrap_prefix_def)

lemma AsDiscard_WrapError [simp]: "AsDiscard (WrapError m e) = AsDiscard e"
  by (simp add: AsDiscard_def)

lemma AsDiscard_Discard [simp]: "AsDiscard (Discard e) = Some (Discard e)"
  by (simp add: AsDiscard_def Discard_def)

lemma AsDiscard_Some_iff: "AsDiscard e \<noteq> None \<longleftrightarrow> (\<exists>d\<in>set (error_chain e). is_discard d)"
  by (auto simp: AsDiscard_def find_None_iff)

lemma AsRetry_None_iff: "AsRetry e = None \<longleftrightarrow> (\<forall>d\<in>set (error_chain e). \<not> is_retry d)"
  by (auto simp: AsRetry_def find_None_iff)

lemma AsRetry_is_retry:
  assumes "AsRetry e = Some d"
  shows "is_retry d \<and> d \<in> set (error_chain e)"
  using assms by (auto simp: AsRetry_def find_Some_iff)

lemma AsRetry_RetryAt [simp]:
  "AsRetry (RetryAt at e) = Some (RetryAt at e)"
  "AsRetry (RetryAfter d e) = Some (RetryAfter d e)"
  by (simp_all add: AsRetry_def RetryAt_def RetryAfter_def)

end
