(* ===== verification/Clock.thy ===== *)
theory Clock
  imports Go_Errors
begin

text \<open>
  The manually driven clock of \<^verbatim>\<open>clock/clock.go\<close>, with which every component can be run
  deterministically, and deadlines on top of it. A timer is a pointer: the model numbers the timers
  in the order of their creation, keeps their contents in a heap, and \<^verbatim>\<open>Manual.timers\<close> is the list of
  the numbers in some iteration order. A channel of capacity one is the list of what it holds. The
  mutex makes every method one step.
\<close>

section \<open>Timers and tickers\<close>

record manualTimer =
  mt_ch :: "gotime list"
  mt_next :: gotime
  mt_interval :: duration
  mt_stopped :: bool

record Manual =
  mn_now :: gotime
  mn_timers :: "nat list"
  mn_heap :: "(nat, manualTimer) gmap"
  mn_fresh :: nat

definition NewManual :: "gotime \<Rightarrow> Manual" where
  "NewManual t = \<lparr>mn_now = (if IsZero t then unix_epoch + 1704067200 * Second else t), mn_timers = [], mn_heap = [], mn_fresh = 0\<rparr>"

definition Manual_Since :: "gotime \<Rightarrow> Manual \<Rightarrow> duration" where
  "Manual_Since t m = time_sub (mn_now m) t"

definition add_timer :: "manualTimer \<Rightarrow> bool \<Rightarrow> Manual \<Rightarrow> Manual \<times> nat" where
  "add_timer x running m =
     (m\<lparr>mn_heap := gput (mn_fresh m) x (mn_heap m), mn_fresh := Suc (mn_fresh m),
        mn_timers := (if running then mn_timers m @ [mn_fresh m] else mn_timers m)\<rparr>, mn_fresh m)"

definition NewTimer :: "duration \<Rightarrow> Manual \<Rightarrow> Manual \<times> nat" where
  "NewTimer d m =
     (let timer = \<lparr>mt_ch = [], mt_next = mn_now m + d, mt_interval = 0, mt_stopped = False\<rparr>
      in if d \<le> 0 then add_timer (timer\<lparr>mt_stopped := True, mt_ch := [mn_now m]\<rparr>) False m
         else add_timer timer True m)"

text \<open>\<open>None\<close> is a panic.\<close>

definition NewTicker :: "duration \<Rightarrow> Manual \<Rightarrow> (Manual \<times> nat) option" where
  "NewTicker d m =
     (if d \<le> 0 then None
      else Some (add_timer \<lparr>mt_ch = [], mt_next = mn_now m + d, mt_interval = d, mt_stopped = False\<rparr> True m))"

text \<open>
  What \<^verbatim>\<open>Set\<close> does to a timer that is due: the deadline is sent unless the channel is full, a timer is
  stopped, and a ticker moves past the new time in one multiplication.
\<close>

definition timer_due :: "gotime \<Rightarrow> manualTimer \<Rightarrow> bool" where
  "timer_due t x \<longleftrightarrow> \<not> (mt_stopped x \<or> t < mt_next x)"

definition fire :: "gotime \<Rightarrow> manualTimer \<Rightarrow> manualTimer" where
  "fire t x =
     (let x1 = x\<lparr>mt_ch := (if mt_ch x = [] then [mt_next x] else mt_ch x)\<rparr>
      in if mt_interval x = 0 then x1\<lparr>mt_stopped := True\<rparr>
         else let steps = wrap64 (time_sub t (mt_next x) div mt_interval x + 1)
              in x1\<lparr>mt_next := mt_next x + wrap64 (steps * mt_interval x)\<rparr>)"

definition set_timer :: "gotime \<Rightarrow> nat \<Rightarrow> Manual \<Rightarrow> Manual" where
  "set_timer t k m =
     (case gget (mn_heap m) k of
        None \<Rightarrow> m
      | Some x \<Rightarrow>
          if \<not> timer_due t x then m
          else let m1 = m\<lparr>mn_heap := gput k (fire t x) (mn_heap m)\<rparr>
               in if mt_interval x = 0 then m1\<lparr>mn_timers := removeAll k (mn_timers m1)\<rparr> else m1)"

definition Manual_Set :: "gotime \<Rightarrow> Manual \<Rightarrow> Manual" where
  "Manual_Set t m =
     (let forward = (\<not> t < mn_now m); m1 = m\<lparr>mn_now := t\<rparr>
      in if \<not> forward then m1 else fold (set_timer t) (mn_timers m1) m1)"

definition Manual_Advance :: "duration \<Rightarrow> Manual \<Rightarrow> Manual option" where
  "Manual_Advance d m = (if d < 0 then None else Some (Manual_Set (mn_now m + d) m))"

definition ActiveTimers :: "Manual \<Rightarrow> nat" where
  "ActiveTimers m = length (mn_timers m)"

definition timer_Stop :: "nat \<Rightarrow> Manual \<Rightarrow> Manual" where
  "timer_Stop k m =
     (case gget (mn_heap m) k of
        None \<Rightarrow> m
      | Some x \<Rightarrow>
          if mt_stopped x then m
          else m\<lparr>mn_heap := gput k (x\<lparr>mt_stopped := True\<rparr>) (mn_heap m), mn_timers := removeAll k (mn_timers m)\<rparr>)"

text \<open>A receive on the channel of a timer, \<open>None\<close> while it blocks.\<close>

definition timer_recv :: "nat \<Rightarrow> Manual \<Rightarrow> (Manual \<times> gotime) option" where
  "timer_recv k m =
     (case gget (mn_heap m) k of
        Some x \<Rightarrow> (case mt_ch x of [] \<Rightarrow> None | v # vs \<Rightarrow> Some (m\<lparr>mn_heap := gput k (x\<lparr>mt_ch := vs\<rparr>) (mn_heap m)\<rparr>, v))
      | None \<Rightarrow> None)"

section \<open>Deadlines\<close>

text \<open>The context of \<^verbatim>\<open>WithTimeout\<close>: it is done when it has an error. \<^verbatim>\<open>once\<close> keeps the first error.\<close>

record timeoutContext =
  tc_deadline :: gotime
  tc_err :: "goerr option"
  tc_timer :: nat

definition WithTimeout :: "duration \<Rightarrow> Manual \<Rightarrow> Manual \<times> timeoutContext" where
  "WithTimeout d m = (let (m', k) = NewTimer d m in (m', \<lparr>tc_deadline = mn_now m + d, tc_err = None, tc_timer = k\<rparr>))"

definition ctx_Deadline :: "gotime option \<Rightarrow> timeoutContext \<Rightarrow> gotime" where
  "ctx_Deadline parent c = (case parent of Some d \<Rightarrow> if d < tc_deadline c then d else tc_deadline c | None \<Rightarrow> tc_deadline c)"

definition ctx_finish :: "goerr \<Rightarrow> timeoutContext \<Rightarrow> timeoutContext" where
  "ctx_finish e c = (case tc_err c of None \<Rightarrow> c\<lparr>tc_err := Some e\<rparr> | Some _ \<Rightarrow> c)"

definition ctx_cancel :: "timeoutContext \<Rightarrow> Manual \<Rightarrow> timeoutContext \<times> Manual" where
  "ctx_cancel c m = (ctx_finish (Sentinel Canceled) c, timer_Stop (tc_timer c) m)"

text \<open>
  The goroutine of the context: it waits for the parent, the timer or the context itself, finishes
  the context and stops the timer. When several are ready one of them is taken; \<open>timer_first\<close> is
  that choice. \<open>None\<close> while nothing is ready.
\<close>

definition ctx_wake :: "bool \<Rightarrow> goerr option \<Rightarrow> timeoutContext \<Rightarrow> Manual \<Rightarrow> (timeoutContext \<times> Manual) option" where
  "ctx_wake timer_first parent c m =
     (if tc_err c \<noteq> None then Some (c, timer_Stop (tc_timer c) m)
      else case (parent, timer_recv (tc_timer c) m) of
        (None, None) \<Rightarrow> None
      | (Some e, None) \<Rightarrow> Some (ctx_finish e c, timer_Stop (tc_timer c) m)
      | (None, Some (m', v)) \<Rightarrow> Some (ctx_finish (Sentinel DeadlineExceeded) c, timer_Stop (tc_timer c) m')
      | (Some e, Some (m', v)) \<Rightarrow>
          if timer_first then Some (ctx_finish (Sentinel DeadlineExceeded) c, timer_Stop (tc_timer c) m')
          else Some (ctx_finish e c, timer_Stop (tc_timer c) m))"

section \<open>Invariant\<close>

text \<open>Timers that are listed run, run into the future, and their channel holds at most one value.\<close>

definition timer_ok :: "gotime \<Rightarrow> manualTimer \<Rightarrow> bool" where
  "timer_ok now x \<longleftrightarrow> \<not> mt_stopped x \<and> 0 \<le> mt_interval x \<and> now < mt_next x"

definition clock_ok :: "Manual \<Rightarrow> bool" where
  "clock_ok m \<longleftrightarrow> distinct (gkeys (mn_heap m)) \<and> distinct (mn_timers m) \<and> (\<forall>k\<in>set (gkeys (mn_heap m)). k < mn_fresh m) \<and>
     (\<forall>k\<in>set (mn_timers m). \<exists>x. gget (mn_heap m) k = Some x \<and> timer_ok (mn_now m) x) \<and>
     (\<forall>x\<in>set (gvals (mn_heap m)). length (mt_ch x) \<le> 1)"

text \<open>The arithmetic of \<^verbatim>\<open>Set\<close> is exact while the jump and an interval fit into a duration.\<close>

definition in_range :: "gotime \<Rightarrow> Manual \<Rightarrow> bool" where
  "in_range t m \<longleftrightarrow> (\<forall>x\<in>set (gvals (mn_heap m)). mt_interval x \<le> max_duration \<and> t - mn_now m + mt_interval x \<le> max_duration)"

text \<open>What \<^verbatim>\<open>Set\<close> leaves of a heap, in closed form.\<close>

definition settled :: "gotime \<Rightarrow> manualTimer \<Rightarrow> manualTimer" where
  "settled t x = (if timer_due t x then fire t x else x)"

lemma set_timer_heap:
  "mn_now (set_timer t k m) = mn_now m" "mn_fresh (set_timer t k m) = mn_fresh m"
  "gget (mn_heap (set_timer t k m)) k' = (if k' = k then map_option (settled t) (gget (mn_heap m) k) else gget (mn_heap m) k')"
  "gkeys (mn_heap (set_timer t k m)) = gkeys (mn_heap m)"
proof -
  show "mn_now (set_timer t k m) = mn_now m" "mn_fresh (set_timer t k m) = mn_fresh m"
    by (simp_all add: set_timer_def Let_def split: option.split)
  show "gget (mn_heap (set_timer t k m)) k' = (if k' = k then map_option (settled t) (gget (mn_heap m) k) else gget (mn_heap m) k')"
    by (auto simp: set_timer_def Let_def settled_def gmap_simps split: option.split)
  have keys: "gget (mn_heap m) k = Some x \<Longrightarrow> gkeys (gput k y (mn_heap m)) = gkeys (mn_heap m)" for x y
    using map_of_SomeD [of "mn_heap m" k x] by (force simp: update_keys)
  show "gkeys (mn_heap (set_timer t k m)) = gkeys (mn_heap m)"
    by (auto simp: set_timer_def Let_def keys split: option.split)
qed

definition expires :: "gotime \<Rightarrow> Manual \<Rightarrow> nat \<Rightarrow> bool" where
  "expires t m k \<longleftrightarrow> (case gget (mn_heap m) k of None \<Rightarrow> False | Some x \<Rightarrow> timer_due t x \<and> mt_interval x = 0)"

lemma set_timer_timers: "mn_timers (set_timer t k m) = filter (\<lambda>j. \<not> (j = k \<and> expires t m j)) (mn_timers m)"
  by (auto simp: set_timer_def Let_def expires_def removeAll_filter_not_eq intro!: filter_cong split: option.split)

lemma expires_other: "k' \<noteq> k \<Longrightarrow> expires t (set_timer t k m) k' = expires t m k'"
  by (simp add: expires_def set_timer_heap)

lemma set_timers:
  assumes "distinct ks"
  shows "mn_now (fold (set_timer t) ks m) = mn_now m" "mn_fresh (fold (set_timer t) ks m) = mn_fresh m"
    "gkeys (mn_heap (fold (set_timer t) ks m)) = gkeys (mn_heap m)"
    "gget (mn_heap (fold (set_timer t) ks m)) j = (if j \<in> set ks then map_option (settled t) (gget (mn_heap m) j) else gget (mn_heap m) j)"
    "mn_timers (fold (set_timer t) ks m) = filter (\<lambda>j. \<not> (j \<in> set ks \<and> expires t m j)) (mn_timers m)"
proof -
  show "mn_now (fold (set_timer t) ks m) = mn_now m" "mn_fresh (fold (set_timer t) ks m) = mn_fresh m"
    "gkeys (mn_heap (fold (set_timer t) ks m)) = gkeys (mn_heap m)"
    by (induction ks arbitrary: m) (simp_all add: set_timer_heap)
  show "gget (mn_heap (fold (set_timer t) ks m)) j = (if j \<in> set ks then map_option (settled t) (gget (mn_heap m) j) else gget (mn_heap m) j)"
    using assms by (induction ks arbitrary: m) (auto simp: set_timer_heap)
  show "mn_timers (fold (set_timer t) ks m) = filter (\<lambda>j. \<not> (j \<in> set ks \<and> expires t m j)) (mn_timers m)"
    using assms
  proof (induction ks arbitrary: m)
    case (Cons k ks)
    then have "mn_timers (fold (set_timer t) (k # ks) m) =
        filter (\<lambda>j. \<not> (j \<in> set ks \<and> expires t (set_timer t k m) j)) (filter (\<lambda>j. \<not> (j = k \<and> expires t m j)) (mn_timers m))"
      by (simp add: set_timer_timers)
    also have "\<dots> = filter (\<lambda>j. \<not> (j \<in> set (k # ks) \<and> expires t m j)) (mn_timers m)"
    proof -
      have "expires t (set_timer t k m) j = expires t m j" if "j \<in> set ks" for j
        using that Cons.prems by (intro expires_other) auto
      then show ?thesis by (auto intro!: filter_cong)
    qed
    finally show ?case .
  qed simp
qed

lemma Set_forward:
  assumes "clock_ok m" "mn_now m \<le> t"
  shows "mn_now (Manual_Set t m) = t" "mn_fresh (Manual_Set t m) = mn_fresh m" "gkeys (mn_heap (Manual_Set t m)) = gkeys (mn_heap m)"
    "gget (mn_heap (Manual_Set t m)) j = (if j \<in> set (mn_timers m) then map_option (settled t) (gget (mn_heap m) j) else gget (mn_heap m) j)"
    "mn_timers (Manual_Set t m) = filter (\<lambda>j. \<not> expires t m j) (mn_timers m)"
proof -
  have d: "distinct (mn_timers m)" using assms(1) by (simp add: clock_ok_def)
  have f: "Manual_Set t m = fold (set_timer t) (mn_timers m) (m\<lparr>mn_now := t\<rparr>)" using assms(2) by (simp add: Manual_Set_def)
  show "mn_now (Manual_Set t m) = t" "mn_fresh (Manual_Set t m) = mn_fresh m" "gkeys (mn_heap (Manual_Set t m)) = gkeys (mn_heap m)"
    "gget (mn_heap (Manual_Set t m)) j = (if j \<in> set (mn_timers m) then map_option (settled t) (gget (mn_heap m) j) else gget (mn_heap m) j)"
    by (simp_all add: f set_timers [OF d])
  show "mn_timers (Manual_Set t m) = filter (\<lambda>j. \<not> expires t m j) (mn_timers m)"
    by (auto simp: f set_timers [OF d] expires_def intro!: filter_cong)
qed

section \<open>The grid of a ticker\<close>

text \<open>The first instant after \<open>t\<close> that is a whole number of intervals after \<open>n\<close>.\<close>

definition grid_next :: "gotime \<Rightarrow> duration \<Rightarrow> gotime \<Rightarrow> gotime" where
  "grid_next n i t = n + ((t - n) div i + 1) * i"

lemma grid_next_bounds:
  assumes "0 < i"
  shows "t < grid_next n i t" "grid_next n i t - i \<le> t" "i dvd grid_next n i t - n"
proof -
  have "grid_next n i t = t - (t - n) mod i + i"
    using minus_mod_eq_div_mult [of "t - n" i] by (simp add: grid_next_def distrib_right)
  with pos_mod_bound [OF assms, of "t - n"] pos_mod_sign [OF assms, of "t - n"]
  show "t < grid_next n i t" "grid_next n i t - i \<le> t" by simp_all
  show "i dvd grid_next n i t - n" by (simp add: grid_next_def)
qed

lemma grid_next_unique:
  assumes "0 < i" "t < u" "u - i \<le> t" "i dvd u - n"
  shows "u = grid_next n i t"
proof -
  have "i dvd u - grid_next n i t" using assms(4) grid_next_bounds(3) [OF assms(1)] by (metis diff_diff_eq2 diff_add_cancel dvd_diff)
  moreover have "\<bar>u - grid_next n i t\<bar> < i" using grid_next_bounds(1,2) [OF assms(1), where n = n and t = t] assms(2,3) by linarith
  ultimately show ?thesis using dvd_imp_le_int [of "u - grid_next n i t" i] by fastforce
qed

lemma grid_next_again:
  assumes "0 < i" "t \<le> u"
  shows "grid_next n i u = (if grid_next n i t \<le> u then grid_next (grid_next n i t) i u else grid_next n i t)"
proof (cases "grid_next n i t \<le> u")
  case True
  let ?g = "grid_next n i t"
  have "i dvd (grid_next ?g i u - ?g) + (?g - n)" using grid_next_bounds(3) [OF assms(1)] by (intro dvd_add)
  then have "grid_next ?g i u = grid_next n i u"
    by (intro grid_next_unique) (use grid_next_bounds(1,2) [OF assms(1)] assms(1) in simp_all)
  with True show ?thesis by simp
next
  case False
  have "grid_next n i t = grid_next n i u"
    by (rule grid_next_unique) (use False assms grid_next_bounds [OF assms(1), where n = n and t = t] in simp_all)
  with False show ?thesis by simp
qed

lemma is_duration_sum: "0 \<le> a \<Longrightarrow> a \<le> d \<Longrightarrow> 0 \<le> i \<Longrightarrow> d + i \<le> max_duration \<Longrightarrow> is_duration (a + i)"
  by (simp add: is_duration_def min_duration_def)

lemma fire_ticker:
  assumes "0 < mt_interval x" "mt_next x \<le> t" "t - mt_next x + mt_interval x \<le> max_duration"
  shows "fire t x = x\<lparr>mt_ch := (if mt_ch x = [] then [mt_next x] else mt_ch x), mt_next := grid_next (mt_next x) (mt_interval x) t\<rparr>"
proof -
  let ?i = "mt_interval x" and ?q = "(t - mt_next x) div mt_interval x"
  have q: "0 \<le> ?q" using assms(1,2) by (simp add: pos_imp_zdiv_nonneg_iff)
  have m: "?q * ?i \<le> t - mt_next x"
    using minus_mod_eq_div_mult [of "t - mt_next x" ?i] pos_mod_sign [OF assms(1), of "t - mt_next x"] by linarith
  have "?q \<le> t - mt_next x" using q m assms(1) mult_left_mono [of 1 ?i ?q] by simp
  have "time_sub t (mt_next x) = t - mt_next x"
    using assms by (intro time_sub_exact) (simp add: is_duration_def min_duration_def)
  moreover have "wrap64 (?q + 1) = ?q + 1"
    using q \<open>?q \<le> t - mt_next x\<close> assms(1,3) by (intro wrap64_id) (simp add: is_duration_def min_duration_def)
  moreover have "is_duration ((?q + 1) * ?i)"
    unfolding distrib_right mult_1 by (rule is_duration_sum [OF mult_nonneg_nonneg [OF q] m]) (use assms(1,3) in simp_all)
  ultimately show ?thesis using assms(1) by (simp add: fire_def Let_def grid_next_def wrap64_id)
qed

lemma fire_timer: "mt_interval x = 0 \<Longrightarrow> fire t x = x\<lparr>mt_ch := (if mt_ch x = [] then [mt_next x] else mt_ch x), mt_stopped := True\<rparr>"
  by (simp add: fire_def)

text \<open>Everything about one running timer and a jump that its arithmetic can express.\<close>

lemma settled_timer:
  assumes "timer_ok now x" "mt_interval x \<le> max_duration" "t - now + mt_interval x \<le> max_duration"
  shows "mt_interval (settled t x) = mt_interval x"
    "mt_stopped (settled t x) \<longleftrightarrow> timer_due t x \<and> mt_interval x = 0"
    "\<not> (timer_due t x \<and> mt_interval x = 0) \<Longrightarrow> t < mt_next (settled t x)"
    "mt_next x \<le> mt_next (settled t x)" "length (mt_ch x) \<le> 1 \<Longrightarrow> length (mt_ch (settled t x)) \<le> 1"
proof -
  have running: "\<not> mt_stopped x" "0 \<le> mt_interval x" using assms(1) by (simp_all add: timer_ok_def)
  consider "\<not> timer_due t x" | "timer_due t x" "mt_interval x = 0" | "timer_due t x" "0 < mt_interval x" using running(2) by linarith
  then have "mt_interval (settled t x) = mt_interval x \<and> (mt_stopped (settled t x) \<longleftrightarrow> timer_due t x \<and> mt_interval x = 0) \<and>
    (\<not> (timer_due t x \<and> mt_interval x = 0) \<longrightarrow> t < mt_next (settled t x)) \<and> mt_next x \<le> mt_next (settled t x) \<and>
    (length (mt_ch x) \<le> 1 \<longrightarrow> length (mt_ch (settled t x)) \<le> 1)"
  proof cases
    case 1
    with running show ?thesis by (simp add: settled_def timer_due_def)
  next
    case 2
    then show ?thesis by (simp add: settled_def fire_timer)
  next
    case 3
    then have le: "mt_next x \<le> t" by (simp add: timer_due_def)
    moreover have "t - mt_next x + mt_interval x \<le> max_duration" using assms(1,3) by (simp add: timer_ok_def)
    ultimately show ?thesis
      using 3 running grid_next_bounds(1) [OF 3(2), of t "mt_next x"] by (simp add: settled_def fire_ticker)
  qed
  then show "mt_interval (settled t x) = mt_interval x" "mt_stopped (settled t x) \<longleftrightarrow> timer_due t x \<and> mt_interval x = 0"
    "\<not> (timer_due t x \<and> mt_interval x = 0) \<Longrightarrow> t < mt_next (settled t x)"
    "mt_next x \<le> mt_next (settled t x)" "length (mt_ch x) \<le> 1 \<Longrightarrow> length (mt_ch (settled t x)) \<le> 1"
    by blast+
qed

lemma settled_again:
  assumes "timer_ok now x" "mt_interval x \<le> max_duration" "u - now + mt_interval x \<le> max_duration" "t \<le> u"
  shows "settled u (settled t x) = settled u x"
proof -
  have running: "\<not> mt_stopped x" "0 \<le> mt_interval x" "now < mt_next x" using assms(1) by (simp_all add: timer_ok_def)
  consider "\<not> timer_due t x" | "timer_due t x" "mt_interval x = 0" | "timer_due t x" "0 < mt_interval x" using running(2) by linarith
  then show ?thesis
  proof cases
    case 1
    then show ?thesis by (simp add: settled_def)
  next
    case 2
    with assms(4) have "timer_due u x" by (simp add: timer_due_def)
    with 2 show ?thesis by (simp add: settled_def fire_timer timer_due_def)
  next
    case 3
    let ?n = "mt_next x" and ?i = "mt_interval x"
    have le: "?n \<le> t" "?n \<le> u" using 3(1) assms(4) by (simp_all add: timer_due_def)
    have r: "t - ?n + ?i \<le> max_duration" "u - ?n + ?i \<le> max_duration" using assms(3,4) running(3) by simp_all
    let ?y = "x\<lparr>mt_ch := (if mt_ch x = [] then [mt_next x] else mt_ch x), mt_next := grid_next ?n ?i t\<rparr>"
    have y: "settled t x = ?y" using 3 le r by (simp add: settled_def fire_ticker)
    have "settled u ?y = ?y\<lparr>mt_next := grid_next ?n ?i u\<rparr>"
    proof (cases "grid_next ?n ?i t \<le> u")
      case True
      have "u - grid_next ?n ?i t + ?i \<le> max_duration" using r(2) le(1) grid_next_bounds(1) [OF 3(2), of t ?n] by simp
      with True 3(2) running(1) grid_next_again [OF 3(2) assms(4), of ?n] show ?thesis
        by (auto simp: settled_def timer_due_def fire_ticker)
    next
      case False
      with grid_next_again [OF 3(2) assms(4), of ?n] show ?thesis by (simp add: settled_def timer_due_def)
    qed
    moreover have "settled u x = ?y\<lparr>mt_next := grid_next ?n ?i u\<rparr>" using 3(2) le r running(1) by (simp add: settled_def timer_due_def fire_ticker)
    ultimately show ?thesis by (simp add: y)
  qed
qed

section \<open>The clock as a whole\<close>

lemma gmap_ext:
  assumes "distinct (gkeys a)" "gkeys b = gkeys a" "\<And>k. gget b k = gget a k"
  shows "b = a"
  using assms
proof (induction a arbitrary: b)
  case (Cons p a)
  obtain k v where p: "p = (k, v)" by fastforce
  from Cons.prems(2) p obtain v' b' where b: "b = (k, v') # b'" and keys: "gkeys b' = gkeys a" by (cases b) auto
  have "v' = v" using Cons.prems(3) [of k] by (simp add: b p)
  moreover have "gget b' j = gget a j" for j
  proof (cases "j = k")
    case True
    with Cons.prems(1) p keys show ?thesis by (metis distinct.simps(2) list.simps(9) fst_conv list.set_map map_of_eq_None_iff)
  next
    case False
    with Cons.prems(3) [of j] show ?thesis by (simp add: b p)
  qed
  ultimately show ?case using Cons.IH [OF _ keys] Cons.prems(1) by (simp add: b p)
qed simp

lemma clock_okD:
  assumes "clock_ok m" "k \<in> set (mn_timers m)"
  obtains x where "gget (mn_heap m) k = Some x" "timer_ok (mn_now m) x"
  using assms by (auto simp: clock_ok_def)

lemma in_rangeD:
  assumes "in_range t m" "gget (mn_heap m) k = Some x"
  shows "mt_interval x \<le> max_duration" "t - mn_now m + mt_interval x \<le> max_duration"
  using assms map_of_SomeD by (fastforce simp: in_range_def)+

lemma heap_vals: "distinct (gkeys h) \<Longrightarrow> (\<forall>x\<in>set (gvals h). P x) \<longleftrightarrow> (\<forall>k x. gget h k = Some x \<longrightarrow> P x)"
  by (force simp: gget_Some_iff)

lemma Set_ok:
  assumes "clock_ok m" "in_range t m"
  shows "clock_ok (Manual_Set t m)"
proof (cases "t < mn_now m")
  case True
  with assms(1) show ?thesis by (fastforce simp: Manual_Set_def clock_ok_def timer_ok_def)
next
  case False
  then have le: "mn_now m \<le> t" by simp
  note new = Set_forward [OF assms(1) le]
  have one: "\<exists>x. gget (mn_heap (Manual_Set t m)) k = Some x \<and> timer_ok t x" if k: "k \<in> set (mn_timers (Manual_Set t m))" for k
  proof -
    from k have "k \<in> set (mn_timers m)" "\<not> expires t m k" by (simp_all add: new)
    from clock_okD [OF assms(1) this(1)] obtain x where x: "gget (mn_heap m) k = Some x" "timer_ok (mn_now m) x" by blast
    note s = settled_timer [OF x(2) in_rangeD [OF assms(2) x(1)]]
    have "\<not> (timer_due t x \<and> mt_interval x = 0)" using \<open>\<not> expires t m k\<close> x(1) by (simp add: expires_def)
    then have "timer_ok t (settled t x)" using s x(2) by (simp add: timer_ok_def)
    with \<open>k \<in> set (mn_timers m)\<close> x(1) show ?thesis by (simp add: new)
  qed
  have d: "distinct (gkeys (mn_heap m))" using assms(1) by (simp add: clock_ok_def)
  have "length (mt_ch y) \<le> 1" if y: "gget (mn_heap (Manual_Set t m)) k = Some y" for k y
  proof -
    have old: "length (mt_ch x) \<le> 1" if "gget (mn_heap m) k = Some x" for x
      using assms(1) that map_of_SomeD by (fastforce simp: clock_ok_def)
    show ?thesis
    proof (cases "k \<in> set (mn_timers m)")
      case True
      with clock_okD [OF assms(1)] obtain x where x: "gget (mn_heap m) k = Some x" "timer_ok (mn_now m) x" by blast
      with True y settled_timer(5) [OF x(2) in_rangeD [OF assms(2) x(1)]] old show ?thesis by (auto simp: new)
    next
      case False
      with y old show ?thesis by (simp add: new)
    qed
  qed
  then have "\<forall>x\<in>set (gvals (mn_heap (Manual_Set t m))). length (mt_ch x) \<le> 1" using d new(3) by (simp add: heap_vals del: set_map)
  with one assms(1) show ?thesis unfolding clock_ok_def by (simp add: new)
qed

lemma Set_again:
  assumes "clock_ok m" "in_range u m" "mn_now m \<le> t" "t \<le> u"
  shows "Manual_Set u (Manual_Set t m) = Manual_Set u m"
proof -
  have "in_range t m" using assms(2,4) by (force simp: in_range_def)
  then have ok: "clock_ok (Manual_Set t m)" by (rule Set_ok [OF assms(1)])
  note n1 = Set_forward [OF assms(1,3)] and n2 = Set_forward [OF assms(1) order_trans [OF assms(3,4)]]
  have le: "mn_now (Manual_Set t m) \<le> u" using assms(4) by (simp add: n1)
  note n12 = Set_forward [OF ok le]
  have heap: "mn_heap (Manual_Set u (Manual_Set t m)) = mn_heap (Manual_Set u m)"
  proof (rule gmap_ext)
    fix k
    show "gget (mn_heap (Manual_Set u (Manual_Set t m))) k = gget (mn_heap (Manual_Set u m)) k"
    proof (cases "k \<in> set (mn_timers m)")
      case True
      with clock_okD [OF assms(1)] obtain x where x: "gget (mn_heap m) k = Some x" "timer_ok (mn_now m) x" by blast
      note again = settled_again [OF x(2) in_rangeD [OF assms(2) x(1)] assms(4)]
      show ?thesis
      proof (cases "expires t m k")
        case True
        then have "settled u (settled t x) = settled t x"
          using x by (simp add: settled_def fire_timer timer_due_def expires_def)
        with again True x(1) \<open>k \<in> set (mn_timers m)\<close> show ?thesis by (simp add: n12 n1 n2)
      next
        case False
        with again x(1) True show ?thesis by (simp add: n12 n1 n2)
      qed
    qed (simp add: n12 n1 n2)
  qed (use assms(1) in \<open>simp_all add: n12 n1 n2 clock_ok_def\<close>)
  have "expires t m k \<or> expires u (Manual_Set t m) k \<longleftrightarrow> expires u m k" if "k \<in> set (mn_timers m)" for k
  proof -
    from clock_okD [OF assms(1) that] obtain x where x: "gget (mn_heap m) k = Some x" "timer_ok (mn_now m) x" by blast
    note s = settled_timer [OF x(2) in_rangeD [OF \<open>in_range t m\<close> x(1)]]
    have "\<not> timer_due t x \<Longrightarrow> settled t x = x" by (simp add: settled_def)
    then show ?thesis using x s(1,2) that assms(4) by (auto simp: expires_def n1 timer_due_def timer_ok_def)
  qed
  then have "mn_timers (Manual_Set u (Manual_Set t m)) = mn_timers (Manual_Set u m)"
    by (auto simp: n12 n1 n2 intro!: filter_cong)
  with heap show ?thesis by (intro Manual.equality) (simp_all add: n12 n1 n2)
qed

section \<open>Uses of a clock\<close>

datatype clock_op = OpSet gotime | OpTimer duration | OpTicker duration | OpStop nat | OpRecv nat

text \<open>\<open>None\<close> when the call panics or blocks.\<close>

fun clock_step :: "clock_op \<Rightarrow> Manual \<Rightarrow> Manual option" where
  "clock_step (OpSet t) m = Some (Manual_Set t m)"
| "clock_step (OpTimer d) m = Some (fst (NewTimer d m))"
| "clock_step (OpTicker d) m = map_option fst (NewTicker d m)"
| "clock_step (OpStop k) m = Some (timer_Stop k m)"
| "clock_step (OpRecv k) m = map_option fst (timer_recv k m)"

fun clock_run :: "clock_op list \<Rightarrow> Manual \<Rightarrow> Manual option" where
  "clock_run [] m = Some m"
| "clock_run (op # ops) m = Option.bind (clock_step op m) (clock_run ops)"

text \<open>What a fresh timer needs of the heap: pointers are not reused and listed once.\<close>

definition heap_ok :: "Manual \<Rightarrow> bool" where
  "heap_ok m \<longleftrightarrow> distinct (mn_timers m) \<and> (\<forall>k. gget (mn_heap m) k \<noteq> None \<longrightarrow> k < mn_fresh m) \<and> (\<forall>k\<in>set (mn_timers m). k < mn_fresh m)"

text \<open>A timer that runs, or one that has fired, with the instant of its deadline.\<close>

definition pending :: "nat \<Rightarrow> gotime \<Rightarrow> Manual \<Rightarrow> bool" where
  "pending k e m \<longleftrightarrow> k \<in> set (mn_timers m) \<and>
     gget (mn_heap m) k = Some \<lparr>mt_ch = [], mt_next = e, mt_interval = 0, mt_stopped = False\<rparr> \<and> mn_now m < e"

definition fired :: "nat \<Rightarrow> gotime \<Rightarrow> Manual \<Rightarrow> bool" where
  "fired k v m \<longleftrightarrow> k \<notin> set (mn_timers m) \<and> (\<exists>e. gget (mn_heap m) k = Some \<lparr>mt_ch = [v], mt_next = e, mt_interval = 0, mt_stopped = True\<rparr>)"

lemma Set_timer:
  assumes "heap_ok m"
  shows "heap_ok (Manual_Set t m)"
    "pending k e m \<Longrightarrow> t < e \<Longrightarrow> pending k e (Manual_Set t m)"
    "pending k e m \<Longrightarrow> e \<le> t \<Longrightarrow> fired k e (Manual_Set t m)"
    "fired k v m \<Longrightarrow> fired k v (Manual_Set t m)"
proof -
  have d: "distinct (mn_timers m)" using assms by (simp add: heap_ok_def)
  have f: "Manual_Set t m = (if t < mn_now m then m\<lparr>mn_now := t\<rparr> else fold (set_timer t) (mn_timers m) (m\<lparr>mn_now := t\<rparr>))"
    by (simp add: Manual_Set_def)
  show "heap_ok (Manual_Set t m)" using assms unfolding heap_ok_def by (auto simp: f set_timers [OF d] split: if_splits)
  show "pending k e m \<Longrightarrow> t < e \<Longrightarrow> pending k e (Manual_Set t m)"
    by (simp add: pending_def f set_timers [OF d] settled_def timer_due_def expires_def)
  show "pending k e m \<Longrightarrow> e \<le> t \<Longrightarrow> fired k e (Manual_Set t m)"
    by (auto simp: pending_def fired_def f set_timers [OF d] settled_def timer_due_def expires_def fire_timer)
  show "fired k v m \<Longrightarrow> fired k v (Manual_Set t m)"
    by (simp add: fired_def f set_timers [OF d])
qed

lemma add_timer_timer:
  assumes "heap_ok m" "k < mn_fresh m"
  shows "heap_ok (fst (add_timer x run m))" "pending k e (fst (add_timer x run m)) = pending k e m"
    "fired k v (fst (add_timer x run m)) = fired k v m" "mn_fresh (fst (add_timer x run m)) = Suc (mn_fresh m)"
  using assms by (auto simp: add_timer_def heap_ok_def pending_def fired_def gmap_simps less_Suc_eq split: if_splits)

definition reached :: "gotime \<Rightarrow> clock_op list \<Rightarrow> bool" where
  "reached e ops \<longleftrightarrow> (\<exists>t. OpSet t \<in> set ops \<and> e \<le> t)"

lemma reached_simps [simp]: "\<not> reached e []" "reached e (op # ops) \<longleftrightarrow> (\<exists>t. op = OpSet t \<and> e \<le> t) \<or> reached e ops"
  by (auto simp: reached_def)

lemma step_timer:
  assumes "clock_step op m = Some m'" "heap_ok m" "k < mn_fresh m" "op \<noteq> OpStop k" "op \<noteq> OpRecv k"
  shows "heap_ok m' \<and> k < mn_fresh m' \<and> (fired k v m \<longrightarrow> fired k v m') \<and>
    (pending k e m \<longrightarrow> (reached e [op] \<longrightarrow> fired k e m') \<and> (\<not> reached e [op] \<longrightarrow> pending k e m'))"
proof (cases op)
  case (OpSet t)
  moreover have "mn_fresh (Manual_Set t m) = mn_fresh m"
    using assms(2) by (simp add: Manual_Set_def heap_ok_def set_timers Let_def)
  ultimately show ?thesis using assms Set_timer [OF assms(2), where t = t] by (auto simp: reached_def)
next
  case (OpTimer d)
  with assms show ?thesis by (auto simp: NewTimer_def Let_def add_timer_timer reached_def)
next
  case (OpTicker d)
  with assms(1) obtain x where "m' = fst (add_timer x True m)" by (auto simp: NewTicker_def split: if_splits) (metis fst_conv)
  with assms OpTicker show ?thesis by (simp add: add_timer_timer reached_def)
next
  case (OpStop j)
  with assms show ?thesis
    by (auto simp: timer_Stop_def reached_def distinct_removeAll heap_ok_def pending_def fired_def gmap_simps split: option.splits if_splits)
next
  case (OpRecv j)
  with assms show ?thesis
    by (auto simp: timer_recv_def reached_def heap_ok_def pending_def fired_def gmap_simps split: option.splits if_splits list.splits)
qed

lemma run_timer:
  assumes "clock_run ops m = Some m'" "heap_ok m" "k < mn_fresh m" "OpStop k \<notin> set ops" "OpRecv k \<notin> set ops"
  shows "(fired k v m \<longrightarrow> fired k v m') \<and> (pending k e m \<longrightarrow> (reached e ops \<longrightarrow> fired k e m') \<and> (\<not> reached e ops \<longrightarrow> pending k e m'))"
  using assms
proof (induction ops arbitrary: m v)
  case (Cons op ops)
  from Cons.prems(1) obtain m1 where m1: "clock_step op m = Some m1" "clock_run ops m1 = Some m'"
    by (auto split: bind_splits)
  have "op \<noteq> OpStop k" "op \<noteq> OpRecv k" using Cons.prems(4,5) by auto
  note s = step_timer [OF m1(1) Cons.prems(2,3) this]
  have ih: "(fired k v m1 \<longrightarrow> fired k v m') \<and>
    (pending k e m1 \<longrightarrow> (reached e ops \<longrightarrow> fired k e m') \<and> (\<not> reached e ops \<longrightarrow> pending k e m'))" for v
    using Cons.IH [OF m1(2)] s Cons.prems(4,5) by simp
  show ?case using s [of v e] ih [of v] ih [of e] by (cases "\<exists>t. op = OpSet t \<and> e \<le> t") (simp, fastforce)
qed simp

lemma NewTimer_state:
  assumes "heap_ok m" "NewTimer d m = (m', k)"
  shows "heap_ok m'" "k < mn_fresh m'" "mn_now m' = mn_now m"
    "if d \<le> 0 then fired k (mn_now m) m' else pending k (mn_now m + d) m'"
  using assms by (auto simp: NewTimer_def add_timer_def Let_def heap_ok_def pending_def fired_def gmap_simps less_Suc_eq split: if_splits)

lemma recv_timer: "pending k e m \<Longrightarrow> timer_recv k m = None" "fired k v m \<Longrightarrow> \<exists>m'. timer_recv k m = Some (m', v)"
  by (auto simp: pending_def fired_def timer_recv_def)

lemma clock_ok_heap: "clock_ok m \<Longrightarrow> heap_ok m"
proof -
  assume ok: "clock_ok m"
  have key: "k < mn_fresh m" if "gget (mn_heap m) k = Some x" for k x
    using ok map_of_SomeD [OF that] by (force simp: clock_ok_def)
  have "k < mn_fresh m" if "k \<in> set (mn_timers m)" for k using clock_okD [OF ok that] key by metis
  with key ok show ?thesis by (auto simp: heap_ok_def clock_ok_def)
qed

section \<open>Properties\<close>

text \<open>
  Claim C31: a deadline on the manual clock expires exactly when the clock has reached it. After any
  uses of the clock that leave the timer of the context alone, a context whose parent is not done is
  finished with \<^verbatim>\<open>DeadlineExceeded\<close> if the clock has shown its deadline or a later instant at some
  point since its creation, and otherwise still waits.
\<close>

theorem timeout_expires_at_deadline:
  assumes "clock_ok m" "WithTimeout d m = (m1, c)" "clock_run ops m1 = Some m2"
    and "OpStop (tc_timer c) \<notin> set ops" "OpRecv (tc_timer c) \<notin> set ops"
  shows "map_option (tc_err \<circ> fst) (ctx_wake timer_first None c m2) =
    (if tc_deadline c \<le> mn_now m \<or> reached (tc_deadline c) ops then Some (Some (Sentinel DeadlineExceeded)) else None)"
proof -
  obtain k where k: "NewTimer d m = (m1, k)" and c: "c = \<lparr>tc_deadline = mn_now m + d, tc_err = None, tc_timer = k\<rparr>"
    using assms(2) by (auto simp: WithTimeout_def split: prod.splits)
  note new = NewTimer_state [OF clock_ok_heap [OF assms(1)] k]
  have ops: "OpStop k \<notin> set ops" "OpRecv k \<notin> set ops" using assms(4,5) by (simp_all add: c)
  note run = run_timer [OF assms(3) new(1,2) ops]
  show ?thesis
  proof (cases "d \<le> 0")
    case True
    with new(4) run [of "mn_now m"] have "fired k (mn_now m) m2" by simp
    from recv_timer(2) [OF this] True show ?thesis by (auto simp: ctx_wake_def c ctx_finish_def)
  next
    case False
    with new(4) have p: "pending k (mn_now m + d) m1" by simp
    show ?thesis
    proof (cases "reached (mn_now m + d) ops")
      case True
      with p run have "fired k (mn_now m + d) m2" by blast
      from recv_timer(2) [OF this] True show ?thesis by (auto simp: ctx_wake_def c ctx_finish_def)
    next
      case no: False
      with p run have "pending k (mn_now m + d) m2" by blast
      from recv_timer(1) [OF this] no False show ?thesis by (auto simp: ctx_wake_def c)
    qed
  qed
qed

theorem timeout_expires_at_deadline_witness:
  "let (m1, c) = WithTimeout 5 (NewManual 100)
   in (case clock_run [OpTicker 2, OpSet 104, OpRecv 1, OpSet 90, OpSet 106] m1 of
        Some m2 \<Rightarrow> map_option (tc_err \<circ> fst) (ctx_wake True None c m2) = Some (Some (Sentinel DeadlineExceeded))
      | None \<Rightarrow> False)"
proof -
  let ?ops = "[OpTicker 2, OpSet 104, OpRecv 1, OpSet 90, OpSet 106]"
  let ?c = "\<lparr>tc_deadline = 105, tc_err = None, tc_timer = 0\<rparr>" and ?m1 = "fst (WithTimeout 5 (NewManual 100))"
  have c: "WithTimeout 5 (NewManual 100) = (?m1, ?c)" by code_simp
  have "clock_run ?ops ?m1 \<noteq> None" by code_simp
  then obtain m2 where m2: "clock_run ?ops ?m1 = Some m2" by blast
  have ok: "clock_ok (NewManual 100)" by (simp add: clock_ok_def NewManual_def)
  have "reached 105 ?ops" by (auto simp: reached_def)
  with timeout_expires_at_deadline [OF ok c m2, of True]
  have "map_option (tc_err \<circ> fst) (ctx_wake True None ?c m2) = Some (Some (Sentinel DeadlineExceeded))" by simp
  with m2 show ?thesis by (subst c) (simp del: clock_run.simps)
qed

text \<open>
  The manual clock can be advanced in any number of steps. While the times stay within the
  range of a duration, two advances leave the clock, its timers, its tickers and what their channels
  hold as one advance by the sum does; in particular a ticker that skipped ticks stays on the grid of
  its interval.
\<close>

theorem clock_advance_composes:
  assumes "clock_ok m" "0 \<le> d1" "0 \<le> d2" "in_range (mn_now m + (d1 + d2)) m"
  shows "Option.bind (Manual_Advance d1 m) (Manual_Advance d2) = Manual_Advance (d1 + d2) m \<and>
    clock_ok (Manual_Set (mn_now m + (d1 + d2)) m)"
proof -
  have le: "mn_now m \<le> mn_now m + d1" "mn_now m + d1 \<le> mn_now m + (d1 + d2)" using assms(2,3) by simp_all
  from Set_again [OF assms(1,4) le] assms(2,3) Set_forward(1) [OF assms(1) le(1)] Set_ok [OF assms(1,4)] show ?thesis
    by (simp add: Manual_Advance_def algebra_simps)
qed

theorem clock_advance_composes_witness:
  "case NewTicker 10 (NewManual 100) of
     Some (m, k) \<Rightarrow> Option.bind (Manual_Advance 35 m) (Manual_Advance 7) = Manual_Advance 42 m \<and>
       map_option (\<lambda>m'. gget (mn_heap m') k) (Manual_Advance 42 m) = Some (Some \<lparr>mt_ch = [110], mt_next = 150, mt_interval = 10, mt_stopped = False\<rparr>)
   | None \<Rightarrow> False"
proof -
  let ?m = "fst (the (NewTicker 10 (NewManual 100)))"
  have m: "NewTicker 10 (NewManual 100) = Some (?m, 0)" by code_simp
  have ok: "clock_ok ?m" "in_range (mn_now ?m + (35 + 7)) ?m"
    by (simp_all add: NewTicker_def NewManual_def add_timer_def IsZero_def clock_ok_def timer_ok_def in_range_def max_duration_def)
  have "map_option (\<lambda>m'. gget (mn_heap m') 0) (Manual_Advance 42 ?m) = Some (Some \<lparr>mt_ch = [110], mt_next = 150, mt_interval = 10, mt_stopped = False\<rparr>)"
    by code_simp
  with clock_advance_composes [OF ok(1) _ _ ok(2)] show ?thesis by (subst m) simp
qed

end
