(* ===== verification/Float64.thy ===== *)
theory Float64
  imports Complex_Main "HOL-Library.Log_Nat" Prelude
begin

text \<open>
  The \<^verbatim>\<open>float64\<close> arithmetic of the source: exact rational arithmetic followed by rounding to
  53 significant bits, ties to even, with the fixed spacing of the subnormal range. Values of
  the program stay far below the overflow threshold, so infinities do not arise; a product and
  a sum are rounded separately (no fused multiply-add).
\<close>

section \<open>Rounding to an integer\<close>

definition rne :: "rat \<Rightarrow> int" where
  "rne x = (let f = \<lfloor>x\<rfloor>; r = x - of_int f in
     if r < 1 / 2 then f else if r > 1 / 2 then f + 1 else if even f then f else f + 1)"

lemma rne_of_int [simp]: "rne (of_int n) = n"
  by (simp add: rne_def Let_def)

lemma rne_near: "\<bar>of_int (rne x) - x\<bar> \<le> 1 / 2"
proof -
  have "of_int \<lfloor>x\<rfloor> \<le> x" "x < of_int \<lfloor>x\<rfloor> + 1" by linarith+
  then show ?thesis by (auto simp: rne_def Let_def abs_if) linarith
qed

lemma rne_ge:
  assumes "of_int m \<le> x" shows "m \<le> rne x"
proof -
  have "m \<le> \<lfloor>x\<rfloor>" using assms by (simp add: le_floor_iff)
  then show ?thesis by (auto simp: rne_def Let_def)
qed

lemma rne_le:
  assumes "x \<le> of_int m" shows "rne x \<le> m"
proof (cases "x = of_int m")
  case False
  with assms have "\<lfloor>x\<rfloor> < m" by (simp add: floor_less_iff)
  then show ?thesis by (auto simp: rne_def Let_def)
qed simp

lemma rne_mono:
  assumes "x \<le> y" shows "rne x \<le> rne y"
proof (cases "\<lfloor>x\<rfloor> = \<lfloor>y\<rfloor>")
  case True
  with assms show ?thesis by (auto simp: rne_def Let_def)
next
  case False
  with assms have less: "\<lfloor>x\<rfloor> + 1 \<le> \<lfloor>y\<rfloor>" using floor_mono [OF assms] by linarith
  have "x \<le> of_int (\<lfloor>x\<rfloor> + 1)" by simp linarith
  then have "rne x \<le> \<lfloor>x\<rfloor> + 1" by (rule rne_le)
  moreover have "\<lfloor>y\<rfloor> \<le> rne y" by (rule rne_ge) simp
  ultimately show ?thesis using less by simp
qed

section \<open>Binary exponents\<close>

definition expo :: "rat \<Rightarrow> int" where
  "expo x = (let (n, d) = quotient_of x; k = bitlen n - bitlen d
             in if 2 powi k \<le> x then k else k - 1)"

lemma bitlen_powi:
  assumes "0 < n"
  shows "2 powi (bitlen n - 1) \<le> (of_int n :: rat)" "of_int n < (2 powi bitlen n :: rat)"
proof -
  have b: "1 \<le> bitlen n" using assms by (auto simp: bitlen_alt_def)
  have "(of_int (2 ^ nat (bitlen n - 1)) :: rat) \<le> of_int n" "(of_int n :: rat) < of_int (2 ^ nat (bitlen n))"
    using bitlen_bounds [OF assms] by (simp_all only: of_int_le_iff of_int_less_iff)
  with b show "2 powi (bitlen n - 1) \<le> (of_int n :: rat)" "of_int n < (2 powi bitlen n :: rat)"
    by (simp_all add: power_int_def)
qed

lemma expo_bounds:
  assumes "0 < x"
  shows "2 powi expo x \<le> x" "x < 2 powi (expo x + 1)"
proof -
  obtain n d where q: "quotient_of x = (n, d)" by fastforce
  have x: "x = of_int n / of_int d" using quotient_of_div [OF q] .
  have d: "0 < d" using quotient_of_denom_pos [OF q] .
  have n: "0 < n" using assms d unfolding x by (simp add: zero_less_divide_iff)
  let ?k = "bitlen n - bitlen d"
  note bn = bitlen_powi [OF n] and bd = bitlen_powi [OF d]
  have dpos: "(0 :: rat) < of_int d" using d by simp
  have "x < 2 powi bitlen n / 2 powi (bitlen d - 1)"
    unfolding x using bn(2) bd(1) dpos by (intro frac_less) (use n in simp_all)
  also have "\<dots> = (2 :: rat) powi (?k + 1)" by (simp flip: power_int_diff add: algebra_simps)
  finally have up: "x < 2 powi (?k + 1)" .
  have "(2 :: rat) powi (?k - 1) = 2 powi (bitlen n - 1) / 2 powi bitlen d"
    by (simp flip: power_int_diff add: algebra_simps)
  also have "\<dots> \<le> x" unfolding x using bn(1) bd(2) dpos n by (intro frac_le) simp_all
  finally have low: "2 powi (?k - 1) \<le> x" .
  show "2 powi expo x \<le> x" "x < 2 powi (expo x + 1)"
    using up low by (auto simp: expo_def q Let_def)
qed

lemma powi_less_iff: "(2 :: rat) powi a < 2 powi b \<longleftrightarrow> a < b"
  by (meson power_int_strict_increasing power_int_le_imp_le_exp linorder_not_less one_less_numeral_iff
      semiring_norm(76) power_int_increasing rel_simps(28) less_imp_le)

lemma powi_le_iff: "(2 :: rat) powi a \<le> 2 powi b \<longleftrightarrow> a \<le> b"
  using powi_less_iff [of b a] by (simp add: not_less [symmetric])

lemma le_expo:
  assumes "0 < x" "2 powi k \<le> x" shows "k \<le> expo x"
proof -
  have "(2 :: rat) powi k < 2 powi (expo x + 1)" using assms expo_bounds(2) [of x] by linarith
  then show ?thesis by (simp add: powi_less_iff)
qed

lemma expo_le:
  assumes "0 < x" "x \<le> 2 powi k" shows "expo x \<le> k"
proof -
  have "(2 :: rat) powi expo x \<le> 2 powi k" using assms expo_bounds(1) [of x] by linarith
  then show ?thesis by (simp add: powi_le_iff)
qed

lemma expo_mono: "0 < x \<Longrightarrow> x \<le> y \<Longrightarrow> expo x \<le> expo y"
  by (meson expo_bounds(1) le_expo less_le_trans order_trans)

lemma powi_multiple: "b \<le> a \<Longrightarrow> (2 :: rat) powi a / 2 powi b = of_int (2 ^ nat (a - b))"
proof -
  assume "b \<le> a"
  have "(2 :: rat) powi a / 2 powi b = 2 powi (a - b)" by (simp add: power_int_diff)
  also have "\<dots> = 2 ^ nat (a - b)" using \<open>b \<le> a\<close> by (simp add: power_int_def)
  finally show ?thesis by simp
qed

section \<open>Rounding to a float64\<close>

definition quantum :: "rat \<Rightarrow> int" where
  "quantum x = max (expo x - 52) (-1074)"

definition fl_pos :: "rat \<Rightarrow> rat" where
  "fl_pos x = (let q = 2 powi quantum x in of_int (rne (x / q)) * q)"

definition fl :: "rat \<Rightarrow> rat" where
  "fl x = (if x = 0 then 0 else if 0 < x then fl_pos x else - fl_pos (- x))"

lemma fl_pos_ge:
  assumes "k \<ge> quantum x" "of_int m * 2 powi k \<le> x"
  shows "of_int m * 2 powi k \<le> fl_pos x"
proof -
  let ?q = "(2 :: rat) powi quantum x"
  have q: "0 < ?q" by simp
  have m: "of_int m * 2 powi k / ?q = of_int (m * 2 ^ nat (k - quantum x))"
    using powi_multiple [OF assms(1)] by (simp only: times_divide_eq_right [symmetric] of_int_mult)
  have "of_int (m * 2 ^ nat (k - quantum x)) \<le> x / ?q"
    using divide_right_mono [OF assms(2), of ?q] q by (simp only: m)
  then have "m * 2 ^ nat (k - quantum x) \<le> rne (x / ?q)" by (rule rne_ge)
  then have "of_int m * 2 powi k / ?q \<le> of_int (rne (x / ?q))" unfolding m by (simp only: of_int_le_iff)
  then show ?thesis using q by (simp add: fl_pos_def Let_def pos_divide_le_eq)
qed

lemma fl_pos_le:
  assumes "k \<ge> quantum x" "x \<le> of_int m * 2 powi k"
  shows "fl_pos x \<le> of_int m * 2 powi k"
proof -
  let ?q = "(2 :: rat) powi quantum x"
  have q: "0 < ?q" by simp
  have m: "of_int m * 2 powi k / ?q = of_int (m * 2 ^ nat (k - quantum x))"
    using powi_multiple [OF assms(1)] by (simp only: times_divide_eq_right [symmetric] of_int_mult)
  have "x / ?q \<le> of_int (m * 2 ^ nat (k - quantum x))"
    using divide_right_mono [OF assms(2), of ?q] q by (simp only: m)
  then have "rne (x / ?q) \<le> m * 2 ^ nat (k - quantum x)" by (rule rne_le)
  then have "of_int (rne (x / ?q)) \<le> of_int m * 2 powi k / ?q" unfolding m by (simp only: of_int_le_iff)
  then show ?thesis using q by (simp add: fl_pos_def Let_def pos_le_divide_eq)
qed

lemma fl_pos_nonneg: "0 < x \<Longrightarrow> 0 \<le> fl_pos x"
  using fl_pos_ge [of x "quantum x" 0] by simp

lemma fl_pos_near: "\<bar>fl_pos x - x\<bar> \<le> 2 powi quantum x / 2"
proof -
  let ?q = "(2 :: rat) powi quantum x"
  have q: "0 < ?q" by simp
  have "fl_pos x - x = (of_int (rne (x / ?q)) - x / ?q) * ?q"
    by (simp add: fl_pos_def Let_def left_diff_distrib)
  then have "\<bar>fl_pos x - x\<bar> = \<bar>of_int (rne (x / ?q)) - x / ?q\<bar> * ?q"
    by (simp add: abs_mult)
  also have "\<dots> \<le> 1 / 2 * ?q" using rne_near q by (intro mult_right_mono) simp_all
  finally show ?thesis by simp
qed

lemma fl_pos_mono:
  assumes "0 < x" "x \<le> y"
  shows "fl_pos x \<le> fl_pos y"
proof (cases "quantum x = quantum y")
  case True
  with assms(2) show ?thesis
    by (auto simp: fl_pos_def Let_def intro!: mult_right_mono rne_mono divide_right_mono)
next
  case False
  note e = expo_mono [OF assms]
  with False have "quantum x < quantum y" by (auto simp: quantum_def)
  then have qy: "quantum y = expo y - 52" and exy: "expo x + 1 \<le> expo y"
    by (auto simp: quantum_def)
  have y: "0 < y" using assms by simp
  have "x \<le> 2 powi (expo x + 1)" using expo_bounds(2) [OF assms(1)] by simp
  also have "\<dots> \<le> 2 powi expo y" using exy by (simp add: powi_le_iff)
  finally have "fl_pos x \<le> of_int 1 * 2 powi expo y"
    using qy \<open>quantum x < quantum y\<close> by (intro fl_pos_le) simp_all
  also have "\<dots> \<le> fl_pos y" using qy expo_bounds(1) [OF y] by (intro fl_pos_ge) simp_all
  finally show ?thesis .
qed

lemma fl_mono:
  assumes "x \<le> y" shows "fl x \<le> fl y"
proof -
  consider "0 < x" | "x = 0" | "x < 0" "y < 0" | "x < 0" "0 \<le> y" by linarith
  then show ?thesis
  proof cases
    case 1 with assms show ?thesis by (simp add: fl_def fl_pos_mono)
  next
    case 2 with assms show ?thesis by (simp add: fl_def fl_pos_nonneg)
  next
    case 3 with assms show ?thesis by (simp add: fl_def fl_pos_mono)
  next
    case 4
    have "0 \<le> fl_pos (- x)" using 4(1) by (simp add: fl_pos_nonneg)
    moreover have "0 \<le> fl y" using 4(2) by (simp add: fl_def fl_pos_nonneg)
    ultimately show ?thesis using 4(1) by (simp add: fl_def)
  qed
qed

lemma fl_0 [simp]: "fl 0 = 0"
  by (simp add: fl_def)

lemma fl_nonneg: "0 \<le> x \<Longrightarrow> 0 \<le> fl x"
  using fl_mono [of 0 x] by simp

text \<open>A multiple of a power of two no finer than its own spacing is a float64.\<close>

lemma fl_exact:
  assumes "0 < z" "quantum z \<le> k" "z = of_int n * 2 powi k"
  shows "fl_pos z = z"
  using fl_pos_ge [OF assms(2), of n] fl_pos_le [OF assms(2), of n] assms(3) by simp

lemma fl_pos_idem:
  assumes "0 < x" "0 < fl_pos x"
  shows "fl_pos (fl_pos x) = fl_pos x"
proof (cases "quantum (fl_pos x) \<le> quantum x")
  case True
  then show ?thesis
    by (rule fl_exact [OF assms(2), of _ "rne (x / 2 powi quantum x)"]) (simp add: fl_pos_def Let_def)
next
  case False
  let ?z = "fl_pos x"
  have qz: "quantum ?z = expo ?z - 52" and ez: "expo x < expo ?z" "quantum x < expo ?z - 52"
    using False by (auto simp: quantum_def)
  let ?m = "max (expo x + 1) (quantum x)"
  have "x \<le> 2 powi (expo x + 1)" using expo_bounds(2) [OF assms(1)] by simp
  also have "\<dots> \<le> 2 powi ?m" by (simp add: powi_le_iff)
  finally have "?z \<le> 2 powi ?m" using fl_pos_le [of x ?m 1] by simp
  then have "expo ?z \<le> ?m" using expo_le [OF assms(2)] by blast
  with ez have e: "?m = expo ?z" by linarith
  have "?z = 2 powi expo ?z"
    using expo_bounds(1) [OF assms(2)] \<open>?z \<le> 2 powi ?m\<close> unfolding e by linarith
  then show ?thesis using qz by (intro fl_exact [OF assms(2), of "expo ?z" 1]) simp_all
qed

lemma fl_idem [simp]: "fl (fl x) = fl x"
proof -
  have *: "fl_pos (fl_pos z) = fl_pos z \<or> fl_pos z = 0" if "0 < z" for z
    using fl_pos_idem [OF that] fl_pos_nonneg [OF that] by fastforce
  show ?thesis using *[of x] *[of "- x"] fl_pos_nonneg [of x] fl_pos_nonneg [of "- x"]
    by (auto simp: fl_def)
qed

lemma fl_of_int:
  assumes "\<bar>n\<bar> \<le> 2 ^ 53"
  shows "fl (of_int n) = of_int n"
proof -
  have *: "fl_pos (of_int m) = of_int m" if "0 < m" "m \<le> 2 ^ 53" for m :: int
  proof (cases "m = 2 ^ 53")
    case True
    have "expo (of_int m) \<le> 53"
      using that by (intro expo_le) (simp_all add: True power_int_def)
    then show ?thesis using that
      by (intro fl_exact [of _ 53 1]) (simp_all add: quantum_def True power_int_def)
  next
    case False
    have "(2 :: rat) powi expo (of_int m) \<le> of_int m" using that by (intro expo_bounds) simp
    also have "\<dots> < of_int (2 ^ 53)" using that False unfolding of_int_less_iff by linarith
    also have "\<dots> = 2 powi 53" by (simp add: power_int_def)
    finally have "expo (of_int m) \<le> 52" unfolding powi_less_iff by simp
    then show ?thesis using that by (intro fl_exact [of _ 0 m]) (simp_all add: quantum_def)
  qed
  show ?thesis using *[of n] *[of "- n"] assms by (auto simp: fl_def)
qed

text \<open>A float64 below a rounded value is at most the value itself.\<close>

lemma fl_less_le:
  assumes "fl y < fl x" shows "fl y \<le> x"
proof (rule ccontr)
  assume "\<not> fl y \<le> x"
  then have "fl x \<le> fl (fl y)" by (intro fl_mono) simp
  with assms show False by simp
qed

section \<open>Conversions\<close>

text \<open>
  \<^verbatim>\<open>float64(n)\<close> and the conversion of a float64 back to an integer, which drops the fraction
  (the source only converts values in the range of an \<^verbatim>\<open>int64\<close>, apart from the case noted at
  \<open>rateInterval\<close>).
\<close>

definition float64 :: "int \<Rightarrow> rat" where
  "float64 n = fl (of_int n)"

definition trunc :: "rat \<Rightarrow> int" where
  "trunc x = (if 0 \<le> x then \<lfloor>x\<rfloor> else \<lceil>x\<rceil>)"

lemma float64_mono: "m \<le> n \<Longrightarrow> float64 m \<le> float64 n"
  by (simp add: float64_def fl_mono)

lemma fl_float64 [simp]: "fl (float64 n) = float64 n"
  by (simp add: float64_def)

text \<open>Dividing two moderate integers in float64 and truncating is integer division.\<close>

lemma quantum_small:
  assumes "0 < p" "p < 2 ^ 53" "0 < l" "l < 2 ^ 64"
  shows "quantum (of_int p / of_int l) \<le> 0" "2 powi quantum (of_int p / of_int l) / 2 < 1 / (of_int l :: rat)"
proof -
  let ?x = "of_int p / of_int l :: rat"
  have x: "0 < ?x" using assms by simp
  have l: "(1 :: rat) \<le> of_int l" "(of_int l :: rat) < 2 ^ 64" "(0 :: rat) < of_int l"
    and p: "(of_int p :: rat) < 2 ^ 53" "(0 :: rat) < of_int p"
    using assms of_int_less_iff [of l "2 ^ 64", where ?'a = rat] of_int_less_iff [of p "2 ^ 53", where ?'a = rat]
    by simp_all
  have "?x \<le> of_int p" using l(1) p(2) by (simp add: divide_le_eq_1 mult_le_cancel_left1 pos_divide_le_eq)
  then have "(2 :: rat) powi expo ?x < 2 powi 53"
    using expo_bounds(1) [OF x] p(1) by (simp add: power_int_def)
  then have "expo ?x < 53" by (simp only: powi_less_iff)
  then show "quantum ?x \<le> 0" by (simp add: quantum_def)
  show "2 powi quantum ?x / 2 < 1 / (of_int l :: rat)"
  proof (cases "quantum ?x = expo ?x - 52")
    case True
    have "(2 :: rat) powi quantum ?x / 2 = 2 powi expo ?x / 2 ^ 53"
      unfolding True by (simp add: power_int_diff)
    also have "\<dots> \<le> ?x / 2 ^ 53" using expo_bounds(1) [OF x] by (intro divide_right_mono) simp_all
    also have "\<dots> = of_int p / 2 ^ 53 / of_int l" by (simp only: divide_divide_eq_left mult.commute)
    also have "\<dots> < 1 / of_int l" using p(1) l(3) by (intro divide_strict_right_mono) simp_all
    finally show ?thesis .
  next
    case False
    then have "quantum ?x = - 1074" by (auto simp: quantum_def)
    then have "(2 :: rat) powi quantum ?x \<le> 2 powi (- 64)" unfolding powi_le_iff by simp
    also have "\<dots> = 1 / 2 ^ 64" by (simp add: power_int_def power_one_over)
    also have "\<dots> < 1 / of_int l" using l by (intro divide_strict_left_mono) simp_all
    finally have "(2 :: rat) powi quantum ?x < 1 / of_int l" .
    moreover have "(0 :: rat) < 2 powi quantum ?x" by simp
    ultimately show ?thesis by linarith
  qed
qed

lemma trunc_fl_divide:
  assumes "0 < l" "l < 2 ^ 64" "0 \<le> p" "p < 2 ^ 53"
  shows "trunc (fl (of_int p / of_int l)) = p div l"
proof (cases "p = 0")
  case False
  let ?x = "of_int p / of_int l :: rat"
  let ?m = "p div l"
  have p: "0 < p" using False assms(3) by simp
  have x: "0 < ?x" using p assms(1) by simp
  note q = quantum_small [OF p assms(4,1,2)]
  have l: "(0 :: rat) < of_int l" using assms(1) by simp
  have "of_int (?m * l) \<le> (of_int p :: rat)" "(of_int (p + 1) :: rat) \<le> of_int ((?m + 1) * l)"
    using pos_mod_bound [OF assms(1), of p] pos_mod_sign [OF assms(1), of p] div_mult_mod_eq [of p l]
    unfolding of_int_le_iff by (auto simp only: algebra_simps)
  then have lo: "of_int ?m \<le> ?x" and hi: "?x + 1 / of_int l \<le> of_int (?m + 1)"
    using l by (simp_all add: pos_le_divide_eq add_divide_distrib [symmetric] pos_divide_le_eq)
  have "of_int ?m \<le> fl_pos ?x" using fl_pos_ge [of ?x 0 ?m] q(1) lo by simp
  moreover have "fl_pos ?x < of_int ?m + 1"
    using fl_pos_near [of ?x] q(2) hi by (simp add: abs_if split: if_splits)
  ultimately have "\<lfloor>fl ?x\<rfloor> = ?m" using x by (simp add: fl_def floor_eq_iff)
  then show ?thesis using fl_nonneg [of ?x] x by (simp add: trunc_def)
qed (simp add: trunc_def)

end
