(* ===== verification/Retry.thy ===== *)
theory Retry
  imports Float64 Go_Errors
begin

text \<open>
  Retry policies (\<^verbatim>\<open>core/retry.go\<close>): exponential backoff with a cap and optional jitter, a
  fixed delay, and none. The random source of the jitter is an argument: the value it returns.
\<close>

section \<open>Policies\<close>

record ExponentialRetry =
  er_Base :: duration
  er_Max :: duration
  er_Jitter :: rat

definition DefaultRetryPolicy :: ExponentialRetry where
  "DefaultRetryPolicy = \<lparr>er_Base = Second, er_Max = 24 * Hour, er_Jitter = 0\<rparr>"

text \<open>The doubling loop: \<open>n\<close> counts from 1 and the cap is checked before each doubling.\<close>

function backoff_loop :: "int \<Rightarrow> int \<Rightarrow> duration \<Rightarrow> duration \<Rightarrow> duration" where
  "backoff_loop n attempt mx delay =
     (if n < attempt \<and> delay < mx then
        (if delay > mx div 2 then mx else backoff_loop (n + 1) attempt mx (delay * 2))
      else delay)"
  by pat_completeness auto
termination by (relation "measure (\<lambda>(n, attempt, _, _). nat (attempt - n))") auto

declare backoff_loop.simps [simp del]

definition clamp01 :: "rat \<Rightarrow> rat" where
  "clamp01 x = (let y = (if x < 0 then 0 else x) in if y > 1 then 1 else y)"

definition effective_base :: "ExponentialRetry \<Rightarrow> duration" where
  "effective_base r = (if er_Base r \<le> 0 then Second else er_Base r)"

definition effective_max :: "ExponentialRetry \<Rightarrow> duration" where
  "effective_max r = (if er_Max r \<le> 0 then 24 * Hour else er_Max r)"

definition backoff_delay :: "ExponentialRetry \<Rightarrow> int \<Rightarrow> duration" where
  "backoff_delay r attempt =
     (let mx = effective_max r;
          delay = backoff_loop 1 attempt mx (effective_base r)
      in if delay > mx then mx else delay)"

definition jitter_delay :: "rat \<Rightarrow> rat \<Rightarrow> duration \<Rightarrow> duration \<Rightarrow> duration" where
  "jitter_delay jitter random mx delay =
     (let value = clamp01 random;
          factor = fl (fl (1 - jitter) + fl (fl (2 * jitter) * value));
          jittered = fl (float64 delay * factor)
      in if jittered \<ge> float64 mx then mx else trunc jittered)"

definition NextRetryAt :: "ExponentialRetry \<Rightarrow> int \<Rightarrow> rat \<Rightarrow> gotime \<Rightarrow> gotime" where
  "NextRetryAt r attempt random now =
     (let mx = effective_max r;
          delay = backoff_delay r attempt;
          jitter = clamp01 (er_Jitter r)
      in now + (if jitter > 0 then jitter_delay jitter random mx delay else delay))"

definition FixedRetry_NextRetryAt :: "duration \<Rightarrow> gotime \<Rightarrow> gotime" where
  "FixedRetry_NextRetryAt delay now = now + delay"

definition NoRetry_NextRetryAt :: gotime where
  "NoRetry_NextRetryAt = 0"

section \<open>The doubling loop\<close>

lemma backoff_loop_eq:
  assumes "0 < delay" "0 < mx"
  shows "min mx (backoff_loop n attempt mx delay) = min mx (delay * 2 ^ nat (attempt - n))"
  using assms
proof (induction n attempt mx delay rule: backoff_loop.induct)
  case (1 n attempt mx delay)
  show ?case
  proof (cases "n < attempt \<and> delay < mx")
    case False
    then consider "nat (attempt - n) = 0" | "mx \<le> delay" by fastforce
    then show ?thesis
    proof cases
      case 2
      have "delay * 1 \<le> delay * 2 ^ nat (attempt - n)" using 1(2) by (intro mult_left_mono) simp_all
      with 2 show ?thesis by (subst backoff_loop.simps) simp
    qed (use False in \<open>subst backoff_loop.simps, simp\<close>)
  next
    case True
    then have split: "nat (attempt - n) = Suc (nat (attempt - (n + 1)))" by linarith
    show ?thesis
    proof (cases "delay > mx div 2")
      case big: True
      have "mx \<le> delay * 2" using big by linarith
      also have "\<dots> * 1 \<le> delay * 2 * 2 ^ nat (attempt - (n + 1))"
        using 1(2) by (intro mult_left_mono) simp_all
      finally have "mx \<le> delay * 2 ^ nat (attempt - n)" by (simp add: split)
      with True big show ?thesis by (subst backoff_loop.simps) simp
    next
      case False
      with True 1 have "min mx (backoff_loop (n + 1) attempt mx (delay * 2)) =
          min mx (delay * 2 * 2 ^ nat (attempt - (n + 1)))" by simp
      with True False show ?thesis by (subst backoff_loop.simps) (simp add: split)
    qed
  qed
qed

lemma effective_pos: "0 < effective_base r" "0 < effective_max r"
  by (simp_all add: effective_base_def effective_max_def)

lemma backoff_delay_eq:
  "backoff_delay r attempt = min (effective_max r) (effective_base r * 2 ^ nat (attempt - 1))"
  using backoff_loop_eq [OF effective_pos(1) [of r] effective_pos(2) [of r], of 1 attempt]
  by (auto simp: backoff_delay_def Let_def min_def split: if_splits)

lemma backoff_delay_bounds: "0 < backoff_delay r attempt" "backoff_delay r attempt \<le> effective_max r"
  using effective_pos [of r] by (simp_all add: backoff_delay_eq)

section \<open>Jitter\<close>

lemma clamp01_range: "0 \<le> clamp01 x" "clamp01 x \<le> 1"
  by (simp_all add: clamp01_def Let_def)

lemma jitter_factor_ge:
  assumes "0 \<le> j" "j \<le> 1"
  shows "fl (1 - j) \<le> fl (fl (1 - j) + fl (fl (2 * j) * clamp01 v))"
proof -
  have "0 \<le> fl (2 * j) * clamp01 v" using assms fl_nonneg [of "2 * j"] clamp01_range [of v] by simp
  then have "0 \<le> fl (fl (2 * j) * clamp01 v)" by (rule fl_nonneg)
  then have "fl (fl (1 - j)) \<le> fl (fl (1 - j) + fl (fl (2 * j) * clamp01 v))" by (intro fl_mono) simp
  then show ?thesis by simp
qed

lemma jitter_delay_bounds:
  assumes "0 \<le> j" "j \<le> 1" "0 < delay" "delay \<le> mx"
  shows "jitter_delay j v mx delay \<le> mx"
    and "min mx (trunc (fl (float64 delay * fl (1 - j)))) \<le> jitter_delay j v mx delay"
    and "0 \<le> jitter_delay j v mx delay"
proof -
  define factor where "factor = fl (fl (1 - j) + fl (fl (2 * j) * clamp01 v))"
  have f: "fl (1 - j) \<le> factor" unfolding factor_def using assms by (intro jitter_factor_ge)
  have low0: "0 \<le> fl (1 - j)" using assms by (intro fl_nonneg) simp
  have d: "0 \<le> float64 delay" unfolding float64_def using assms by (intro fl_nonneg) simp
  let ?y = "fl (float64 delay * factor)"
  let ?l = "fl (float64 delay * fl (1 - j))"
  have ly: "?l \<le> ?y" using f d by (intro fl_mono mult_left_mono) simp_all
  have l0: "0 \<le> ?l" using d low0 by (intro fl_nonneg) simp
  have eq: "jitter_delay j v mx delay = (if ?y \<ge> float64 mx then mx else trunc ?y)"
    by (simp add: jitter_delay_def Let_def factor_def)
  show "jitter_delay j v mx delay \<le> mx"
  proof (cases "?y \<ge> float64 mx")
    case False
    then have "?y \<le> of_int mx" unfolding float64_def by (intro fl_less_le) simp
    with False l0 ly show ?thesis by (simp add: eq trunc_def floor_le_iff)
  qed (simp add: eq)
  show "min mx (trunc ?l) \<le> jitter_delay j v mx delay"
    using ly l0 by (auto simp: eq trunc_def min_le_iff_disj intro!: floor_mono)
  show "0 \<le> jitter_delay j v mx delay" using assms ly l0 by (auto simp: eq trunc_def)
qed

section \<open>Properties\<close>

text \<open>
  Without jitter the delay before attempt \<open>n + 1\<close> is the base doubled \<open>n - 1\<close> times,
  cut at the cap, with the documented defaults (one second, 24 hours) for non-positive settings.
\<close>

theorem exponential_backoff_delay:
  assumes "er_Jitter r \<le> 0"
  shows "NextRetryAt r attempt random now =
    now + min (if er_Max r \<le> 0 then 24 * Hour else er_Max r)
              ((if er_Base r \<le> 0 then Second else er_Base r) * 2 ^ nat (attempt - 1))"
  using assms backoff_delay_eq [of r attempt]
  by (simp add: NextRetryAt_def Let_def clamp01_def effective_base_def effective_max_def)

theorem exponential_backoff_delay_witness:
  "er_Jitter DefaultRetryPolicy \<le> 0 \<and> NextRetryAt DefaultRetryPolicy 4 0 1000 = 1000 + 8 * Second \<and>
   NextRetryAt DefaultRetryPolicy 40 0 1000 = 1000 + 24 * Hour"
  using exponential_backoff_delay [of DefaultRetryPolicy 4 0 1000]
    exponential_backoff_delay [of DefaultRetryPolicy 40 0 1000]
  by (simp add: DefaultRetryPolicy_def)

text \<open>
  For every attempt, jitter setting and random value the retry lies between now and
  now plus the cap, and is never earlier than the undisturbed delay scaled by one minus the
  jitter (in float64), also when the cap is so large that its float64 image exceeds it.
\<close>

theorem retry_time_bounds:
  "now \<le> NextRetryAt r attempt random now \<and>
   NextRetryAt r attempt random now \<le> now + effective_max r \<and>
   (er_Jitter r \<le> 0 \<or>
    now + min (effective_max r)
      (trunc (fl (float64 (backoff_delay r attempt) * fl (1 - clamp01 (er_Jitter r)))))
     \<le> NextRetryAt r attempt random now)"
proof (cases "0 < clamp01 (er_Jitter r)")
  case True
  then show ?thesis
    using jitter_delay_bounds [OF clamp01_range [of "er_Jitter r"] backoff_delay_bounds [of r attempt], of random]
    by (simp add: NextRetryAt_def Let_def)
next
  case False
  then have "er_Jitter r \<le> 0" by (auto simp: clamp01_def Let_def split: if_splits)
  with False backoff_delay_bounds [of r attempt] show ?thesis by (simp add: NextRetryAt_def Let_def)
qed

end
