(* ===== verification/Driver_Types.thy ===== *)
theory Driver_Types
  imports Go_Errors
begin

text \<open>
  The data model of package \<^verbatim>\<open>driver\<close> (\<^verbatim>\<open>driver/driver.go\<close>): job and queue rows, the
  parameters and results of the executor operations, the lifecycle states and the
  capability flags. Pointer fields are options, \<^verbatim>\<open>[]byte\<close> and \<^verbatim>\<open>string\<close> are byte strings,
  \<^verbatim>\<open>int\<close> fields are unbounded integers (they count attempts, priorities and limits).
\<close>

section \<open>Lifecycle states\<close>

text \<open>
  \<^verbatim>\<open>JobState\<close> is a string type with seven named values; \<open>JobStateOther\<close> carries any other
  text (the empty one means "no filter" in a listing).
\<close>

datatype JobState =
    JobStateAvailable | JobStateRunning | JobStateCompleted | JobStateRetryable
  | JobStateDiscarded | JobStateCancelled | JobStateScheduled
  | JobStateOther string

definition job_state_text :: "JobState \<Rightarrow> string" where
  "job_state_text s = (case s of
      JobStateAvailable \<Rightarrow> ''available'' | JobStateRunning \<Rightarrow> ''running''
    | JobStateCompleted \<Rightarrow> ''completed'' | JobStateRetryable \<Rightarrow> ''retryable''
    | JobStateDiscarded \<Rightarrow> ''discarded'' | JobStateCancelled \<Rightarrow> ''cancelled''
    | JobStateScheduled \<Rightarrow> ''scheduled'' | JobStateOther t \<Rightarrow> t)"

definition job_state_of_text :: "string \<Rightarrow> JobState" where
  "job_state_of_text t =
     (if t = ''available'' then JobStateAvailable
      else if t = ''running'' then JobStateRunning
      else if t = ''completed'' then JobStateCompleted
      else if t = ''retryable'' then JobStateRetryable
      else if t = ''discarded'' then JobStateDiscarded
      else if t = ''cancelled'' then JobStateCancelled
      else if t = ''scheduled'' then JobStateScheduled
      else JobStateOther t)"

abbreviation NoState :: JobState where "NoState \<equiv> JobStateOther []"

definition terminal :: "JobState \<Rightarrow> bool" where
  "terminal s \<longleftrightarrow> s = JobStateCompleted \<or> s = JobStateDiscarded \<or> s = JobStateCancelled"

section \<open>Rows\<close>

record AttemptError =
  ae_At :: gotime
  ae_Attempt :: int
  ae_Error :: string
  ae_Trace :: string

record JobRow =
  ID :: string
  Queue :: string
  Kind :: string
  Args :: string
  State :: JobState
  Priority :: int
  RunAt :: gotime
  CreatedAt :: gotime
  AttemptedAt :: "gotime option"
  StartedAt :: "gotime option"
  LeaseExpiresAt :: "gotime option"
  FinalizedAt :: "gotime option"
  AttemptNum :: int
  MaxRetry :: int
  Timeout :: duration
  Tags :: "string list"
  Errors :: "AttemptError list"
  UniqueKey :: string
  WorkerID :: string
  PipelineID :: string

record QueueRow =
  qr_Name :: string
  qr_Paused :: bool
  qr_CreatedAt :: gotime
  qr_UpdatedAt :: gotime

section \<open>Parameters and results\<close>

record JobInsertParams =
  ip_Queue :: string
  ip_Kind :: string
  ip_Args :: string
  ip_Priority :: int
  ip_RunAt :: gotime
  ip_UniqueKey :: string
  ip_MaxRetry :: int
  ip_Timeout :: duration
  ip_Tags :: "string list"
  ip_PipelineID :: string

record JobInsertResult =
  ir_Job :: "JobRow option"
  ir_UniqueSkip :: bool

record FetchParams =
  fp_Queue :: string
  fp_Limit :: int
  fp_WorkerID :: string
  fp_LeaseDuration :: duration

record JobRescueParams =
  rp_Queue :: string
  rp_At :: gotime
  rp_Before :: gotime

record JobHeartbeatParams =
  hp_ID :: string
  hp_WorkerID :: string
  hp_Attempt :: int
  hp_At :: gotime
  hp_LeaseExpiresAt :: gotime

record JobMarkStartedParams =
  ms_ID :: string
  ms_WorkerID :: string
  ms_Attempt :: int
  ms_At :: gotime

record JobSetStateParams =
  sp_ID :: string
  sp_State :: JobState
  sp_Err :: "string option"
  sp_Trace :: "string option"
  sp_Attempt :: int
  sp_RetryAt :: gotime
  sp_ExpectedWorkerID :: string
  sp_ExpectedAttempt :: int
  sp_Yield :: bool

record RescheduleParams =
  rs_ID :: string
  rs_RunAt :: gotime

record QueueListParams =
  ql_Limit :: int
  ql_Cursor :: string

record JobListParams =
  jl_Queue :: string
  jl_State :: JobState
  jl_Kind :: string
  jl_Limit :: int
  jl_Cursor :: string

record QueueStats =
  qs_Queue :: string
  qs_States :: "(JobState, int) gmap"
  qs_Total :: int

record LeaderElectParams =
  le_Name :: string
  le_WorkerID :: string
  le_TTL :: duration

record LeaderResignParams =
  lr_Name :: string
  lr_WorkerID :: string

record ScheduleCursorCreateParams =
  cc_ID :: string
  cc_InitialAt :: gotime

record ScheduleCursorResult =
  cr_At :: gotime
  cr_Created :: bool

record ScheduleCursorAdvanceParams =
  ca_ID :: string
  ca_Expected :: gotime
  ca_Next :: gotime

record Capabilities =
  NativeTx :: bool
  ListenNotify :: bool
  ChangeStreams :: bool
  SkipLocked :: bool
  UniqueJobs :: bool
  AdvisoryLocks :: bool
  LinearizableLeases :: bool
  LinearizableCAS :: bool
  LifecycleTimestamps :: bool
  BoundedFetch :: bool
  StrictFetchOrdering :: bool

section \<open>Operations of the package\<close>

definition permanentUniqueKeyPrefix :: string where
  "permanentUniqueKeyPrefix = ''uf2_''"

text \<open>\<^verbatim>\<open>strings.HasPrefix\<close>.\<close>

definition HasPrefix :: "string \<Rightarrow> string \<Rightarrow> bool" where
  "HasPrefix s p \<longleftrightarrow> take (length p) s = p"

definition IsPermanentUniqueKey :: "string \<Rightarrow> bool" where
  "IsPermanentUniqueKey key \<longleftrightarrow> HasPrefix key permanentUniqueKeyPrefix"

definition MatchesClaim :: "JobSetStateParams \<Rightarrow> string \<Rightarrow> int \<Rightarrow> bool" where
  "MatchesClaim p workerID attempt \<longleftrightarrow>
     (sp_ExpectedWorkerID p = [] \<or> sp_ExpectedWorkerID p = workerID) \<and>
     (sp_ExpectedAttempt p \<le> 0 \<or> sp_ExpectedAttempt p = attempt)"

definition count_state :: "JobState \<Rightarrow> QueueStats \<Rightarrow> QueueStats" where
  "count_state s st = st\<lparr>
     qs_States := gput s (case gget (qs_States st) s of None \<Rightarrow> 1 | Some n \<Rightarrow> n + 1) (qs_States st),
     qs_Total := qs_Total st + 1\<rparr>"

definition empty_stats :: "string \<Rightarrow> QueueStats" where
  "empty_stats queue = \<lparr>qs_Queue = queue, qs_States = [], qs_Total = 0\<rparr>"

definition CountQueueStats :: "string \<Rightarrow> JobRow list \<Rightarrow> QueueStats" where
  "CountQueueStats queue rows = foldl (\<lambda>st row. count_state (State row) st) (empty_stats queue) rows"

text \<open>A lookup in the state counts; a missing key reads as zero, as in Go.\<close>

definition state_count :: "QueueStats \<Rightarrow> JobState \<Rightarrow> int" where
  "state_count st s = (case gget (qs_States st) s of None \<Rightarrow> 0 | Some n \<Rightarrow> n)"

section \<open>Facts\<close>

lemma terminal_simps [simp]:
  "terminal JobStateCompleted" "terminal JobStateDiscarded" "terminal JobStateCancelled"
  "\<not> terminal JobStateAvailable" "\<not> terminal JobStateRunning" "\<not> terminal JobStateRetryable"
  "\<not> terminal JobStateScheduled" "\<not> terminal (JobStateOther t)"
  by (auto simp: terminal_def)

lemma HasPrefix_append [simp]: "HasPrefix (p @ s) p"
  by (simp add: HasPrefix_def)

lemma state_count_count_state:
  "state_count (count_state s st) s' = (if s' = s then state_count st s + 1 else state_count st s')"
  by (simp add: state_count_def count_state_def gmap_simps split: option.splits)

lemma qs_Total_count_state [simp]: "qs_Total (count_state s st) = qs_Total st + 1"
  by (simp add: count_state_def)

lemma qs_Queue_count_state [simp]: "qs_Queue (count_state s st) = qs_Queue st"
  by (simp add: count_state_def)

lemma count_fold:
  "state_count (foldl (\<lambda>st row. count_state (State row) st) st0 rows) s =
     state_count st0 s + int (length (filter (\<lambda>r. State r = s) rows)) \<and>
   qs_Total (foldl (\<lambda>st row. count_state (State row) st) st0 rows) = qs_Total st0 + int (length rows) \<and>
   qs_Queue (foldl (\<lambda>st row. count_state (State row) st) st0 rows) = qs_Queue st0"
  by (induction rows arbitrary: st0) (auto simp: state_count_count_state)

lemma state_count_empty [simp]: "state_count (empty_stats q) s = 0"
  by (simp add: state_count_def empty_stats_def)

lemma CountQueueStats_counts:
  "state_count (CountQueueStats q rows) s = int (length (filter (\<lambda>r. State r = s) rows))"
  "qs_Total (CountQueueStats q rows) = int (length rows)"
  "qs_Queue (CountQueueStats q rows) = q"
  using count_fold [of "empty_stats q" rows s]
  by (simp_all add: CountQueueStats_def empty_stats_def state_count_def)

end
