(* ===== verification/Memory_Driver.thy ===== *)
theory Memory_Driver
  imports Driver_Types
begin

text \<open>
  The in-memory driver (\<^verbatim>\<open>driver/memory/memory.go\<close>). The record \<open>mem\<close> is the struct
  \<^verbatim>\<open>Driver\<close>; every executor method is one function on it, since each method holds the
  driver's mutex from its first to its last statement. A reading of the injected clock is an
  argument: \<open>now\<close> for the methods that read it once, a function \<open>clk\<close> from the
  number of the reading to its value for those that may read it several times.
  The administrative listings are in theory \<open>Pagination\<close>.
\<close>

section \<open>State\<close>

record memoryLeader =
  ml_workerID :: string
  ml_expiresAt :: gotime

text \<open>A notification channel of capacity 16; a notification is the name of its queue.\<close>

record channel =
  ch_buf :: "string list"
  ch_closed :: bool

text \<open>
  \<open>chans\<close> is the heap of channels (a channel is its index). \<open>panicked\<close> records a send on a
  closed channel, which panics in Go.
\<close>

record mem =
  jobs :: "(string, JobRow) gmap"
  queues :: "(string, QueueRow) gmap"
  seq :: "64 word"
  notify :: "(string, nat list) gmap"
  leaders :: "(string, memoryLeader) gmap"
  cursors :: "(string, gotime) gmap"
  chans :: "channel list"
  panicked :: bool

definition mem_New :: mem where
  "mem_New = \<lparr>jobs = [], queues = [], seq = 0, notify = [], leaders = [], cursors = [],
              chans = [], panicked = False\<rparr>"

definition mem_Capabilities :: Capabilities where
  "mem_Capabilities = \<lparr>NativeTx = False, ListenNotify = True, ChangeStreams = False,
     SkipLocked = True, UniqueJobs = True, AdvisoryLocks = False, LinearizableLeases = True,
     LinearizableCAS = True, LifecycleTimestamps = True, BoundedFetch = True,
     StrictFetchOrdering = True\<rparr>"

text \<open>\<^verbatim>\<open>Begin\<close>: the driver has no transactions.\<close>

definition mem_Begin :: "mem \<Rightarrow> goerr" where
  "mem_Begin d = wrap_sentinel ErrUnsupported ''memory transactions''"

section \<open>Helpers\<close>

definition ensureQueue :: "string \<Rightarrow> gotime \<Rightarrow> mem \<Rightarrow> mem" where
  "ensureQueue name now d =
     (case gget (queues d) name of
        Some _ \<Rightarrow> d
      | None \<Rightarrow> d\<lparr>queues := gput name
          \<lparr>qr_Name = name, qr_Paused = False, qr_CreatedAt = now, qr_UpdatedAt = now\<rparr> (queues d)\<rparr>)"

definition chan_cap :: nat where
  "chan_cap = 16"

text \<open>A send in a \<^verbatim>\<open>select\<close> with a default: dropped when the buffer is full.\<close>

definition try_send :: "nat \<Rightarrow> string \<Rightarrow> mem \<Rightarrow> mem" where
  "try_send c queue d =
     (if c < length (chans d) then
        (let ch = chans d ! c in
         if ch_closed ch then d\<lparr>panicked := True\<rparr>
         else if length (ch_buf ch) < chan_cap
              then d\<lparr>chans := (chans d)[c := ch\<lparr>ch_buf := ch_buf ch @ [queue]\<rparr>]\<rparr>
              else d)
      else d)"

definition broadcastNotify :: "string \<Rightarrow> mem \<Rightarrow> mem" where
  "broadcastNotify queue d =
     fold (\<lambda>c. try_send c queue) (case gget (notify d) queue of None \<Rightarrow> [] | Some cs \<Rightarrow> cs) d"

text \<open>A row that reserves its unique key.\<close>

definition blocks_key :: "string \<Rightarrow> JobRow \<Rightarrow> bool" where
  "blocks_key uniqueKey j \<longleftrightarrow> UniqueKey j = uniqueKey \<and>
     (IsPermanentUniqueKey uniqueKey \<or>
      State j \<noteq> JobStateCompleted \<and> State j \<noteq> JobStateDiscarded \<and> State j \<noteq> JobStateCancelled)"

definition findUniqueJob :: "string \<Rightarrow> mem \<Rightarrow> JobRow option" where
  "findUniqueJob uniqueKey d = find (blocks_key uniqueKey) (gvals (jobs d))"

section \<open>Insertion\<close>

definition mem_id :: "64 word \<Rightarrow> string" where
  "mem_id n = ''mem_'' @ nat_to_dec (unat n)"

definition new_row :: "string \<Rightarrow> gotime \<Rightarrow> JobInsertParams \<Rightarrow> JobRow" where
  "new_row jid now p =
     (let runAt = (if IsZero (ip_RunAt p) then now else ip_RunAt p);
          state = (if now < runAt then JobStateScheduled else JobStateAvailable)
      in \<lparr>ID = jid, Queue = ip_Queue p, Kind = ip_Kind p, Args = ip_Args p, State = state,
          Priority = ip_Priority p, RunAt = runAt, CreatedAt = now, AttemptedAt = None,
          StartedAt = None, LeaseExpiresAt = None, FinalizedAt = None, AttemptNum = 0,
          MaxRetry = ip_MaxRetry p, Timeout = ip_Timeout p, Tags = ip_Tags p, Errors = [],
          UniqueKey = ip_UniqueKey p, WorkerID = [], PipelineID = ip_PipelineID p\<rparr>)"

text \<open>One round of the loop of \<^verbatim>\<open>JobInsertMany\<close>.\<close>

definition insert_one :: "gotime \<Rightarrow> JobInsertParams \<Rightarrow> mem \<Rightarrow> mem \<times> JobInsertResult" where
  "insert_one now p d =
     (case (if ip_UniqueKey p \<noteq> [] then findUniqueJob (ip_UniqueKey p) d else None) of
        Some dup \<Rightarrow> (d, \<lparr>ir_Job = Some dup, ir_UniqueSkip = True\<rparr>)
      | None \<Rightarrow>
          let d1 = d\<lparr>seq := seq d + 1\<rparr>;
              jid = mem_id (seq d1);
              row = new_row jid now p;
              d2 = d1\<lparr>jobs := gput jid row (jobs d1)\<rparr>;
              d3 = ensureQueue (ip_Queue p) now d2;
              d4 = broadcastNotify (ip_Queue p) d3
          in (d4, \<lparr>ir_Job = Some row, ir_UniqueSkip = False\<rparr>))"

fun JobInsertMany_loop ::
  "(nat \<Rightarrow> gotime) \<Rightarrow> nat \<Rightarrow> JobInsertParams list \<Rightarrow> mem \<Rightarrow> mem \<times> JobInsertResult list" where
  "JobInsertMany_loop clk i [] d = (d, [])"
| "JobInsertMany_loop clk i (p # ps) d =
     (let (d', r) = insert_one (clk i) p d;
          (d'', rs) = JobInsertMany_loop clk (Suc i) ps d'
      in (d'', r # rs))"

definition JobInsertMany ::
  "(nat \<Rightarrow> gotime) \<Rightarrow> JobInsertParams list \<Rightarrow> mem \<Rightarrow> mem \<times> JobInsertResult list res" where
  "JobInsertMany clk params d = (let (d', rs) = JobInsertMany_loop clk 0 params d in (d', Inr rs))"

section \<open>Lookup\<close>

definition not_found_job :: "string \<Rightarrow> goerr" where
  "not_found_job jid = wrap_sentinel ErrNotFound (''job '' @ go_quote jid)"

definition JobGetByID :: "string \<Rightarrow> mem \<Rightarrow> JobRow res" where
  "JobGetByID jid d = (case gget (jobs d) jid of None \<Rightarrow> Inl (not_found_job jid) | Some row \<Rightarrow> Inr row)"

definition mem_QueueStats :: "string \<Rightarrow> mem \<Rightarrow> QueueStats" where
  "mem_QueueStats queue d =
     foldl (\<lambda>st row. if Queue row = queue then count_state (State row) st else st)
       (empty_stats queue) (gvals (jobs d))"

definition AllJobs :: "mem \<Rightarrow> JobRow list" where
  "AllJobs d = gvals (jobs d)"

section \<open>Claiming\<close>

text \<open>Scheduled jobs whose time has come are promoted while the candidates are collected.\<close>

definition promote :: "gotime \<Rightarrow> string \<Rightarrow> JobRow \<Rightarrow> JobRow" where
  "promote now queue j =
     (if Queue j = queue \<and> State j = JobStateScheduled \<and> \<not> now < RunAt j
      then j\<lparr>State := JobStateAvailable\<rparr> else j)"

definition claimable :: "gotime \<Rightarrow> string \<Rightarrow> JobRow \<Rightarrow> bool" where
  "claimable now queue j \<longleftrightarrow> Queue j = queue \<and> State j = JobStateAvailable \<and> \<not> now < RunAt j"

definition fetch_less :: "JobRow \<Rightarrow> JobRow \<Rightarrow> bool" where
  "fetch_less a b =
     (if Priority a \<noteq> Priority b then Priority a > Priority b
      else if RunAt a \<noteq> RunAt b then RunAt a < RunAt b
      else if CreatedAt a \<noteq> CreatedAt b then CreatedAt a < CreatedAt b
      else ID a < ID b)"

definition claim :: "gotime \<Rightarrow> FetchParams \<Rightarrow> JobRow \<Rightarrow> JobRow" where
  "claim now p j = j\<lparr>
     State := JobStateRunning,
     AttemptedAt := Some now,
     StartedAt := None,
     LeaseExpiresAt := (if fp_LeaseDuration p > 0 then Some (now + fp_LeaseDuration p) else None),
     AttemptNum := AttemptNum j + 1,
     WorkerID := fp_WorkerID p\<rparr>"

definition fetch_limit :: "int \<Rightarrow> nat \<Rightarrow> nat" where
  "fetch_limit limit n = (if limit \<le> 0 \<or> limit > int n then n else nat limit)"

definition fetch_candidates :: "gotime \<Rightarrow> string \<Rightarrow> mem \<Rightarrow> JobRow list" where
  "fetch_candidates now queue d =
     sort_slice fetch_less (filter (claimable now queue) (map (promote now queue) (gvals (jobs d))))"

definition put_rows :: "JobRow list \<Rightarrow> (string, JobRow) gmap \<Rightarrow> (string, JobRow) gmap" where
  "put_rows rows m = fold (\<lambda>r. gput (ID r) r) rows m"

definition JobFetchBatch :: "gotime \<Rightarrow> FetchParams \<Rightarrow> mem \<Rightarrow> mem \<times> JobRow list" where
  "JobFetchBatch now p d =
     (case gget (queues d) (fp_Queue p) of
        None \<Rightarrow> (d, [])
      | Some q \<Rightarrow>
          if qr_Paused q then (d, [])
          else
            let candidates = fetch_candidates now (fp_Queue p) d;
                limit = fetch_limit (fp_Limit p) (length candidates);
                rows = map (claim now p) (take limit candidates)
            in (d\<lparr>jobs := put_rows rows (gmap_vals (promote now (fp_Queue p)) (jobs d))\<rparr>, rows))"

section \<open>Operations on a claim\<close>

definition claim_matches :: "string \<Rightarrow> int \<Rightarrow> JobRow \<Rightarrow> bool" where
  "claim_matches workerID attempt row \<longleftrightarrow>
     State row = JobStateRunning \<and> WorkerID row = workerID \<and> AttemptNum row = attempt"

definition JobMarkStarted :: "JobMarkStartedParams \<Rightarrow> mem \<Rightarrow> mem \<times> bool" where
  "JobMarkStarted p d =
     (case gget (jobs d) (ms_ID p) of
        None \<Rightarrow> (d, False)
      | Some row \<Rightarrow>
          if \<not> claim_matches (ms_WorkerID p) (ms_Attempt p) row then (d, False)
          else (d\<lparr>jobs := gput (ms_ID p) (row\<lparr>StartedAt := Some (ms_At p)\<rparr>) (jobs d)\<rparr>, True))"

definition stuck :: "JobRescueParams \<Rightarrow> JobRow \<Rightarrow> bool" where
  "stuck p row \<longleftrightarrow> Queue row = rp_Queue p \<and> State row = JobStateRunning \<and>
     ((case LeaseExpiresAt row of None \<Rightarrow> False | Some e \<Rightarrow> \<not> IsZero (rp_At p) \<and> \<not> rp_At p < e) \<or>
      (LeaseExpiresAt row = None \<and>
       (case AttemptedAt row of None \<Rightarrow> False | Some a \<Rightarrow> \<not> rp_Before p < a)))"

definition rescue :: "JobRow \<Rightarrow> JobRow" where
  "rescue row = row\<lparr>State := JobStateAvailable, AttemptedAt := None, LeaseExpiresAt := None,
     WorkerID := []\<rparr>"

definition JobRescueStuck :: "JobRescueParams \<Rightarrow> mem \<Rightarrow> mem \<times> int" where
  "JobRescueStuck p d =
     (d\<lparr>jobs := gmap_vals (\<lambda>row. if stuck p row then rescue row else row) (jobs d)\<rparr>,
      int (length (filter (stuck p) (gvals (jobs d)))))"

definition JobHeartbeat :: "JobHeartbeatParams \<Rightarrow> mem \<Rightarrow> mem \<times> bool" where
  "JobHeartbeat p d =
     (case gget (jobs d) (hp_ID p) of
        None \<Rightarrow> (d, False)
      | Some row \<Rightarrow>
          if \<not> claim_matches (hp_WorkerID p) (hp_Attempt p) row then (d, False)
          else
            let expiresAt = (if IsZero (hp_LeaseExpiresAt p) then hp_At p else hp_LeaseExpiresAt p)
            in (d\<lparr>jobs := gput (hp_ID p) (row\<lparr>LeaseExpiresAt := Some expiresAt\<rparr>) (jobs d)\<rparr>, True))"

definition set_state_row :: "(nat \<Rightarrow> gotime) \<Rightarrow> JobSetStateParams \<Rightarrow> JobRow \<Rightarrow> JobRow" where
  "set_state_row clk p row =
     (if sp_Yield p then
        row\<lparr>State := JobStateAvailable, AttemptNum := AttemptNum row - 1, AttemptedAt := None,
            LeaseExpiresAt := None, WorkerID := []\<rparr>
      else
        let r1 = row\<lparr>State := sp_State p, WorkerID := [], LeaseExpiresAt := None\<rparr>;
            r2 = (case sp_Err p of
                    None \<Rightarrow> r1
                  | Some e \<Rightarrow> r1\<lparr>Errors := Errors r1 @
                      [\<lparr>ae_At = clk 0, ae_Attempt = AttemptNum r1, ae_Error = e,
                        ae_Trace = (case sp_Trace p of None \<Rightarrow> [] | Some t \<Rightarrow> t)\<rparr>]\<rparr>);
            r3 = (if sp_State p = JobStateRetryable \<and> \<not> IsZero (sp_RetryAt p)
                  then r2\<lparr>RunAt := sp_RetryAt p, State := JobStateAvailable\<rparr> else r2)
        in if sp_State p = JobStateCompleted \<or> sp_State p = JobStateDiscarded \<or>
              sp_State p = JobStateCancelled
           then r3\<lparr>FinalizedAt := Some (clk 1)\<rparr> else r3)"

definition stale_claim :: "string \<Rightarrow> goerr" where
  "stale_claim jid = wrap_sentinel ErrStaleClaim (''job '' @ go_quote jid)"

definition JobSetStateIfRunning ::
  "(nat \<Rightarrow> gotime) \<Rightarrow> JobSetStateParams \<Rightarrow> mem \<Rightarrow> mem \<times> goerr option" where
  "JobSetStateIfRunning clk p d =
     (case gget (jobs d) (sp_ID p) of
        None \<Rightarrow> (d, Some (stale_claim (sp_ID p)))
      | Some row \<Rightarrow>
          if State row \<noteq> JobStateRunning \<or> \<not> MatchesClaim p (WorkerID row) (AttemptNum row)
          then (d, Some (stale_claim (sp_ID p)))
          else (d\<lparr>jobs := gput (sp_ID p) (set_state_row clk p row) (jobs d)\<rparr>, None))"

section \<open>Administration of jobs and queues\<close>

definition JobCancel :: "gotime \<Rightarrow> string \<Rightarrow> mem \<Rightarrow> mem \<times> goerr option" where
  "JobCancel now jid d =
     (case gget (jobs d) jid of
        None \<Rightarrow> (d, Some (not_found_job jid))
      | Some row \<Rightarrow>
          if State row \<noteq> JobStateAvailable \<and> State row \<noteq> JobStateScheduled
          then (d, Some (wrap_sentinel ErrConflict
                 (''job '' @ go_quote jid @ '' is in state '' @ job_state_text (State row) @
                  '', can only cancel available/scheduled'')))
          else (d\<lparr>jobs := gput jid (row\<lparr>State := JobStateCancelled, FinalizedAt := Some now\<rparr>) (jobs d)\<rparr>,
                None))"

definition JobDelete :: "string \<Rightarrow> mem \<Rightarrow> mem \<times> goerr option" where
  "JobDelete jid d =
     (case gget (jobs d) jid of
        None \<Rightarrow> (d, Some (not_found_job jid))
      | Some _ \<Rightarrow> (d\<lparr>jobs := gdel jid (jobs d)\<rparr>, None))"

definition JobReschedule :: "RescheduleParams \<Rightarrow> mem \<Rightarrow> mem \<times> goerr option" where
  "JobReschedule p d =
     (case gget (jobs d) (rs_ID p) of
        None \<Rightarrow> (d, Some (not_found_job (rs_ID p)))
      | Some row \<Rightarrow>
          (d\<lparr>jobs := gput (rs_ID p) (row\<lparr>RunAt := rs_RunAt p, State := JobStateScheduled\<rparr>) (jobs d)\<rparr>,
           None))"

definition QueueGet :: "string \<Rightarrow> mem \<Rightarrow> QueueRow res" where
  "QueueGet name d =
     (case gget (queues d) name of
        None \<Rightarrow> Inl (wrap_sentinel ErrNotFound (''queue '' @ go_quote name))
      | Some q \<Rightarrow> Inr q)"

definition set_paused :: "bool \<Rightarrow> string \<Rightarrow> mem \<Rightarrow> mem" where
  "set_paused b name d =
     (case gget (queues d) name of
        None \<Rightarrow> d
      | Some q \<Rightarrow> d\<lparr>queues := gput name (q\<lparr>qr_Paused := b\<rparr>) (queues d)\<rparr>)"

definition QueuePause :: "gotime \<Rightarrow> string \<Rightarrow> mem \<Rightarrow> mem" where
  "QueuePause now name d = set_paused True name (ensureQueue name now d)"

definition QueueResume :: "gotime \<Rightarrow> string \<Rightarrow> mem \<Rightarrow> mem" where
  "QueueResume now name d = set_paused False name (ensureQueue name now d)"

section \<open>Leases and schedule cursors\<close>

definition LeaderAttemptElect :: "gotime \<Rightarrow> LeaderElectParams \<Rightarrow> mem \<Rightarrow> mem \<times> bool" where
  "LeaderAttemptElect now p d =
     (let blocked = (case gget (leaders d) (le_Name p) of
                       None \<Rightarrow> False
                     | Some current \<Rightarrow> now < ml_expiresAt current \<and> ml_workerID current \<noteq> le_WorkerID p)
      in if blocked then (d, False)
         else (d\<lparr>leaders := gput (le_Name p)
                 \<lparr>ml_workerID = le_WorkerID p, ml_expiresAt = now + le_TTL p\<rparr> (leaders d)\<rparr>, True))"

definition LeaderResign :: "LeaderResignParams \<Rightarrow> mem \<Rightarrow> mem" where
  "LeaderResign p d =
     (case gget (leaders d) (lr_Name p) of
        None \<Rightarrow> d
      | Some current \<Rightarrow>
          if ml_workerID current = lr_WorkerID p then d\<lparr>leaders := gdel (lr_Name p) (leaders d)\<rparr> else d)"

definition ScheduleCursorGetOrCreate ::
  "ScheduleCursorCreateParams \<Rightarrow> mem \<Rightarrow> mem \<times> ScheduleCursorResult" where
  "ScheduleCursorGetOrCreate p d =
     (case gget (cursors d) (cc_ID p) of
        Some at \<Rightarrow> (d, \<lparr>cr_At = at, cr_Created = False\<rparr>)
      | None \<Rightarrow> (d\<lparr>cursors := gput (cc_ID p) (cc_InitialAt p) (cursors d)\<rparr>,
                 \<lparr>cr_At = cc_InitialAt p, cr_Created = True\<rparr>))"

definition ScheduleCursorAdvance :: "ScheduleCursorAdvanceParams \<Rightarrow> mem \<Rightarrow> mem \<times> bool" where
  "ScheduleCursorAdvance p d =
     (case gget (cursors d) (ca_ID p) of
        None \<Rightarrow> (d, False)
      | Some current \<Rightarrow>
          if current \<noteq> ca_Expected p then (d, False)
          else (d\<lparr>cursors := gput (ca_ID p) (ca_Next p) (cursors d)\<rparr>, True))"

section \<open>Listener\<close>

record listener =
  subs :: "(string, nat) gmap"

definition Listener :: listener where
  "Listener = \<lparr>subs = []\<rparr>"

definition Listen :: "string \<Rightarrow> listener \<Rightarrow> mem \<Rightarrow> listener \<times> mem \<times> nat" where
  "Listen queue l d =
     (let ch = length (chans d);
          cs = (case gget (notify d) queue of None \<Rightarrow> [] | Some cs \<Rightarrow> cs)
      in (l\<lparr>subs := gput queue ch (subs l)\<rparr>,
          d\<lparr>chans := chans d @ [\<lparr>ch_buf = [], ch_closed = False\<rparr>],
            notify := gput queue (cs @ [ch]) (notify d)\<rparr>,
          ch))"

text \<open>\<^verbatim>\<open>remove\<close>: the channel leaves the broadcast list before it is closed.\<close>

definition listener_remove :: "string \<Rightarrow> listener \<Rightarrow> mem \<Rightarrow> listener \<times> mem" where
  "listener_remove queue l d =
     (case gget (subs l) queue of
        None \<Rightarrow> (l, d)
      | Some owned \<Rightarrow>
          let cs = remove1 owned (case gget (notify d) queue of None \<Rightarrow> [] | Some cs \<Rightarrow> cs);
              notify' = (if cs = [] then gdel queue (notify d) else gput queue cs (notify d));
              chans' = (if owned < length (chans d)
                        then (chans d)[owned := (chans d ! owned)\<lparr>ch_closed := True\<rparr>] else chans d)
          in (l\<lparr>subs := gdel queue (subs l)\<rparr>, d\<lparr>notify := notify', chans := chans'\<rparr>))"

definition Unlisten :: "string \<Rightarrow> listener \<Rightarrow> mem \<Rightarrow> listener \<times> mem" where
  "Unlisten queue l d = listener_remove queue l d"

definition listener_Close :: "listener \<Rightarrow> mem \<Rightarrow> listener \<times> mem" where
  "listener_Close l d = fold (\<lambda>queue (l', d'). listener_remove queue l' d') (gkeys (subs l)) (l, d)"

end
