(* ===== verification/Memory_Invariant.thy ===== *)
theory Memory_Invariant
  imports Memory_Driver
begin

text \<open>
  The store of the in-memory driver as a transition system. \<open>mem_inv\<close> is the well-formedness
  invariant of the tables, \<open>notify_inv\<close> that of the notification channels and the listeners
  that own them. Every executor method and every listener method keeps them; \<open>mem_step\<close>
  collects the methods as one relation and \<open>mem_reachable\<close> the states a driver can get into.
\<close>

section \<open>The invariant\<close>

definition valid_id :: "nat \<Rightarrow> string \<Rightarrow> bool" where
  "valid_id n k \<longleftrightarrow> (\<exists>i. 0 < i \<and> i \<le> n \<and> k = ''mem_'' @ nat_to_dec i)"

definition row_ok :: "JobRow \<Rightarrow> bool" where
  "row_ok r \<longleftrightarrow> 0 \<le> AttemptNum r \<and>
     (State r = JobStateRunning \<longrightarrow> 1 \<le> AttemptNum r \<and> AttemptedAt r \<noteq> None)"

definition mem_inv :: "mem \<Rightarrow> bool" where
  "mem_inv d \<longleftrightarrow>
     distinct (gkeys (jobs d)) \<and> distinct (gkeys (queues d)) \<and>
     (\<forall>k r. gget (jobs d) k = Some r \<longrightarrow>
        ID r = k \<and> valid_id (unat (seq d)) k \<and> row_ok r \<and> gget (queues d) (Queue r) \<noteq> None) \<and>
     (\<forall>n q. gget (queues d) n = Some q \<longrightarrow> qr_Name q = n)"

definition nset :: "mem \<Rightarrow> string \<Rightarrow> nat set" where
  "nset d q = (case gget (notify d) q of None \<Rightarrow> {} | Some cs \<Rightarrow> set cs)"

definition notify_inv :: "mem \<Rightarrow> listener list \<Rightarrow> bool" where
  "notify_inv d ls \<longleftrightarrow>
     \<not> panicked d \<and>
     (\<forall>q cs. gget (notify d) q = Some cs \<longrightarrow> distinct cs) \<and>
     (\<forall>q c. c \<in> nset d q \<longrightarrow> c < length (chans d) \<and> \<not> ch_closed (chans d ! c)) \<and>
     (\<forall>q q' c. c \<in> nset d q \<longrightarrow> c \<in> nset d q' \<longrightarrow> q = q') \<and>
     (\<forall>i q c. i < length ls \<longrightarrow> gget (subs (ls ! i)) q = Some c \<longrightarrow> c \<in> nset d q) \<and>
     (\<forall>i j q q' c. i < length ls \<longrightarrow> j < length ls \<longrightarrow> gget (subs (ls ! i)) q = Some c \<longrightarrow>
        gget (subs (ls ! j)) q' = Some c \<longrightarrow> i = j)"

lemma mem_invD:
  assumes "mem_inv d" "gget (jobs d) k = Some r"
  shows "ID r = k" "valid_id (unat (seq d)) k" "row_ok r" "gget (queues d) (Queue r) \<noteq> None"
  using assms unfolding mem_inv_def by blast+

lemma mem_inv_distinct:
  assumes "mem_inv d"
  shows "distinct (gkeys (jobs d))" "distinct (gkeys (queues d))"
  using assms by (simp_all add: mem_inv_def)

lemma mem_invI:
  assumes "distinct (gkeys (jobs d))" "distinct (gkeys (queues d))"
    and "\<And>k r. gget (jobs d) k = Some r \<Longrightarrow> ID r = k"
    and "\<And>k r. gget (jobs d) k = Some r \<Longrightarrow> valid_id (unat (seq d)) k"
    and "\<And>k r. gget (jobs d) k = Some r \<Longrightarrow> row_ok r"
    and "\<And>k r. gget (jobs d) k = Some r \<Longrightarrow> gget (queues d) (Queue r) \<noteq> None"
    and "\<And>n q. gget (queues d) n = Some q \<Longrightarrow> qr_Name q = n"
  shows "mem_inv d"
  unfolding mem_inv_def using assms by blast

lemma mem_inv_New: "mem_inv mem_New"
  by (simp add: mem_inv_def mem_New_def)

lemma notify_inv_New: "notify_inv mem_New []"
  by (simp add: notify_inv_def mem_New_def nset_def)

lemma valid_id_mono: "valid_id n k \<Longrightarrow> n \<le> m \<Longrightarrow> valid_id m k"
  unfolding valid_id_def using le_trans by blast

lemma valid_id_fresh: "\<not> valid_id n (''mem_'' @ nat_to_dec (Suc n))"
  by (auto simp: valid_id_def)

section \<open>Frames\<close>

text \<open>Which tables each helper leaves alone.\<close>

lemma ensureQueue_frame [simp]:
  "jobs (ensureQueue n t d) = jobs d" "seq (ensureQueue n t d) = seq d"
  "notify (ensureQueue n t d) = notify d" "chans (ensureQueue n t d) = chans d"
  "leaders (ensureQueue n t d) = leaders d" "cursors (ensureQueue n t d) = cursors d"
  "panicked (ensureQueue n t d) = panicked d"
  by (simp_all add: ensureQueue_def split: option.splits)

lemma ensureQueue_get:
  "gget (queues (ensureQueue n t d)) m =
     (if m = n \<and> gget (queues d) n = None
      then Some \<lparr>qr_Name = n, qr_Paused = False, qr_CreatedAt = t, qr_UpdatedAt = t\<rparr>
      else gget (queues d) m)"
  by (auto simp: ensureQueue_def gmap_simps split: option.splits)

lemma ensureQueue_distinct:
  "distinct (gkeys (queues d)) \<Longrightarrow> distinct (gkeys (queues (ensureQueue n t d)))"
  by (auto simp: ensureQueue_def inv_intros split: option.splits)

lemma try_send_frame [simp]:
  "jobs (try_send c q d) = jobs d" "queues (try_send c q d) = queues d"
  "seq (try_send c q d) = seq d" "notify (try_send c q d) = notify d"
  "leaders (try_send c q d) = leaders d" "cursors (try_send c q d) = cursors d"
  "length (chans (try_send c q d)) = length (chans d)"
  by (simp_all add: try_send_def Let_def)

lemma fold_try_send_frame:
  "jobs (fold (\<lambda>c. try_send c q) cs d) = jobs d" "queues (fold (\<lambda>c. try_send c q) cs d) = queues d"
  "seq (fold (\<lambda>c. try_send c q) cs d) = seq d" "notify (fold (\<lambda>c. try_send c q) cs d) = notify d"
  "leaders (fold (\<lambda>c. try_send c q) cs d) = leaders d"
  "cursors (fold (\<lambda>c. try_send c q) cs d) = cursors d"
  "length (chans (fold (\<lambda>c. try_send c q) cs d)) = length (chans d)"
  by (induction cs arbitrary: d) simp_all

lemma broadcastNotify_frame [simp]:
  "jobs (broadcastNotify q d) = jobs d" "queues (broadcastNotify q d) = queues d"
  "seq (broadcastNotify q d) = seq d" "notify (broadcastNotify q d) = notify d"
  "leaders (broadcastNotify q d) = leaders d" "cursors (broadcastNotify q d) = cursors d"
  "length (chans (broadcastNotify q d)) = length (chans d)"
  by (simp_all add: broadcastNotify_def fold_try_send_frame split: option.splits)

lemma try_send_closed:
  "i < length (chans d) \<Longrightarrow> ch_closed (chans (try_send c q d) ! i) = ch_closed (chans d ! i)"
  by (auto simp: try_send_def Let_def nth_list_update)

lemma fold_try_send_closed:
  "i < length (chans d) \<Longrightarrow>
   ch_closed (chans (fold (\<lambda>c. try_send c q) cs d) ! i) = ch_closed (chans d ! i)"
  by (induction cs arbitrary: d) (simp_all add: try_send_closed)

lemma try_send_open:
  "(c < length (chans d) \<Longrightarrow> \<not> ch_closed (chans d ! c)) \<Longrightarrow> panicked (try_send c q d) = panicked d"
  by (auto simp: try_send_def Let_def)

lemma fold_try_send_open:
  "(\<And>c. c \<in> set cs \<Longrightarrow> c < length (chans d) \<Longrightarrow> \<not> ch_closed (chans d ! c)) \<Longrightarrow>
   panicked (fold (\<lambda>c. try_send c q) cs d) = panicked d"
proof (induction cs arbitrary: d)
  case Nil
  then show ?case by simp
next
  case (Cons c cs)
  have "panicked (fold (\<lambda>c. try_send c q) cs (try_send c q d)) = panicked (try_send c q d)"
    by (rule Cons.IH) (use Cons.prems in \<open>simp add: try_send_closed\<close>)
  with Cons.prems show ?case by (simp add: try_send_open)
qed

section \<open>Operations that rewrite one row\<close>

text \<open>
  Most executor methods replace one stored row by a row with the same identity and queue;
  the invariant then only asks for the new row to be well formed.
\<close>

lemma mem_inv_put_row:
  assumes inv: "mem_inv d" and old: "gget (jobs d) k = Some row"
    and "ID row' = ID row" "Queue row' = Queue row" "row_ok row'"
  shows "mem_inv (d\<lparr>jobs := gput k row' (jobs d)\<rparr>)"
proof -
  note inv_row = mem_invD [OF inv]
  show ?thesis
    using assms inv_row mem_inv_distinct [OF inv] inv
    by (intro mem_invI) (auto simp: gmap_simps inv_intros mem_inv_def split: if_splits)
qed

lemma mem_inv_map_rows:
  assumes inv: "mem_inv d"
    and "\<And>r. ID (f r) = ID r" "\<And>r. Queue (f r) = Queue r" "\<And>r. row_ok r \<Longrightarrow> row_ok (f r)"
  shows "mem_inv (d\<lparr>jobs := gmap_vals f (jobs d)\<rparr>)"
proof -
  note inv_row = mem_invD [OF inv]
  show ?thesis
    using assms inv_row mem_inv_distinct [OF inv] inv
    by (intro mem_invI) (auto simp: gmap_simps mem_inv_def)
qed

lemma mem_inv_frame:
  assumes "mem_inv d" "jobs d' = jobs d" "queues d' = queues d" "seq d' = seq d"
  shows "mem_inv d'"
  using assms by (simp add: mem_inv_def)

lemma row_ok_running:
  "row_ok r \<Longrightarrow> State r = JobStateRunning \<Longrightarrow> 1 \<le> AttemptNum r"
  by (simp add: row_ok_def)

lemma row_ok_set_state:
  assumes "row_ok row" "State row = JobStateRunning"
  shows "row_ok (set_state_row clk p row)"
  using assms
  by (auto simp: row_ok_def set_state_row_def Let_def split: option.splits)

lemma set_state_row_same [simp]:
  "ID (set_state_row clk p row) = ID row" "Queue (set_state_row clk p row) = Queue row"
  "UniqueKey (set_state_row clk p row) = UniqueKey row"
  "CreatedAt (set_state_row clk p row) = CreatedAt row"
  by (auto simp: set_state_row_def Let_def split: option.splits)

lemma row_ok_simps [simp]:
  "row_ok (r\<lparr>StartedAt := x\<rparr>) = row_ok r" "row_ok (r\<lparr>LeaseExpiresAt := y\<rparr>) = row_ok r"
  by (simp_all add: row_ok_def)

lemma mem_inv_JobMarkStarted: "mem_inv d \<Longrightarrow> mem_inv (fst (JobMarkStarted p d))"
  by (auto simp: JobMarkStarted_def split: option.splits
      intro!: mem_inv_put_row dest: mem_invD(3))

lemma mem_inv_JobHeartbeat: "mem_inv d \<Longrightarrow> mem_inv (fst (JobHeartbeat p d))"
  by (auto simp: JobHeartbeat_def Let_def split: option.splits
      intro!: mem_inv_put_row dest: mem_invD(3))

lemma mem_inv_JobSetState: "mem_inv d \<Longrightarrow> mem_inv (fst (JobSetStateIfRunning clk p d))"
  by (auto simp: JobSetStateIfRunning_def split: option.splits
      intro!: mem_inv_put_row row_ok_set_state dest: mem_invD(3))

lemma mem_inv_JobCancel: "mem_inv d \<Longrightarrow> mem_inv (fst (JobCancel now k d))"
  by (auto simp: JobCancel_def row_ok_def split: option.splits
      intro!: mem_inv_put_row dest: mem_invD(3))

lemma mem_inv_JobReschedule: "mem_inv d \<Longrightarrow> mem_inv (fst (JobReschedule p d))"
  by (auto simp: JobReschedule_def row_ok_def split: option.splits
      intro!: mem_inv_put_row dest: mem_invD(3))

lemma mem_inv_JobDelete:
  assumes "mem_inv d"
  shows "mem_inv (fst (JobDelete k d))"
  using assms mem_inv_distinct [OF assms] mem_invD [OF assms]
  by (auto simp: JobDelete_def mem_inv_def gmap_simps inv_intros split: option.splits if_splits)

lemma rescue_same [simp]:
  "ID (rescue r) = ID r" "Queue (rescue r) = Queue r" "UniqueKey (rescue r) = UniqueKey r"
  "AttemptNum (rescue r) = AttemptNum r" "State (rescue r) = JobStateAvailable"
  by (simp_all add: rescue_def)

lemma mem_inv_JobRescueStuck: "mem_inv d \<Longrightarrow> mem_inv (fst (JobRescueStuck p d))"
  by (simp add: JobRescueStuck_def)
     (rule mem_inv_map_rows, auto simp: row_ok_def)

section \<open>Queues, leases, cursors\<close>

lemma mem_inv_ensureQueue:
  assumes "mem_inv d"
  shows "mem_inv (ensureQueue n t d)"
  using assms mem_inv_distinct [OF assms]
  by (intro mem_invI) (auto simp: ensureQueue_get mem_inv_def intro: ensureQueue_distinct split: if_splits)

lemma mem_inv_set_paused:
  assumes "mem_inv d"
  shows "mem_inv (set_paused b n d)"
  using assms mem_inv_distinct [OF assms]
  by (auto simp: set_paused_def mem_inv_def gmap_simps inv_intros split: option.splits)

lemma mem_inv_QueuePause: "mem_inv d \<Longrightarrow> mem_inv (QueuePause now n d)"
  by (simp add: QueuePause_def mem_inv_ensureQueue mem_inv_set_paused)

lemma mem_inv_QueueResume: "mem_inv d \<Longrightarrow> mem_inv (QueueResume now n d)"
  by (simp add: QueueResume_def mem_inv_ensureQueue mem_inv_set_paused)

lemma mem_inv_Leader:
  "mem_inv d \<Longrightarrow> mem_inv (fst (LeaderAttemptElect now p d))"
  "mem_inv d \<Longrightarrow> mem_inv (LeaderResign q d)"
  by (auto simp: LeaderAttemptElect_def LeaderResign_def Let_def split: option.splits
      elim: mem_inv_frame)

lemma mem_inv_Cursor:
  "mem_inv d \<Longrightarrow> mem_inv (fst (ScheduleCursorGetOrCreate p d))"
  "mem_inv d \<Longrightarrow> mem_inv (fst (ScheduleCursorAdvance q d))"
  by (auto simp: ScheduleCursorGetOrCreate_def ScheduleCursorAdvance_def split: option.splits
      elim: mem_inv_frame)

lemma mem_inv_Listener:
  "mem_inv d \<Longrightarrow> mem_inv (fst (snd (Listen q l d)))"
  "mem_inv d \<Longrightarrow> mem_inv (snd (listener_remove q l d))"
  by (auto simp: Listen_def listener_remove_def Let_def split: option.splits elim: mem_inv_frame)

section \<open>Claiming\<close>

text \<open>
  The comparator of \<^verbatim>\<open>JobFetchBatch\<close> is the lexicographic order priority descending, then
  run time, creation time and identifier ascending.
\<close>

abbreviation fetch_key :: "JobRow \<Rightarrow> int \<times> gotime \<times> gotime \<times> string" where
  "fetch_key r \<equiv> (- Priority r, RunAt r, CreatedAt r, ID r)"

interpretation fetch_order: slice_order fetch_less fetch_key
  by unfold_locales (auto simp: fetch_less_def less_prod_def)

lemma promote_same [simp]:
  "ID (promote t q j) = ID j" "Queue (promote t q j) = Queue j"
  "UniqueKey (promote t q j) = UniqueKey j" "AttemptNum (promote t q j) = AttemptNum j"
  "RunAt (promote t q j) = RunAt j" "Priority (promote t q j) = Priority j"
  "CreatedAt (promote t q j) = CreatedAt j" "WorkerID (promote t q j) = WorkerID j"
  "State (promote t q j) = JobStateRunning \<longleftrightarrow> State j = JobStateRunning"
  "terminal (State (promote t q j)) = terminal (State j)"
  by (auto simp: promote_def)

lemma claim_same [simp]:
  "ID (claim t p j) = ID j" "Queue (claim t p j) = Queue j" "UniqueKey (claim t p j) = UniqueKey j"
  "State (claim t p j) = JobStateRunning" "AttemptNum (claim t p j) = AttemptNum j + 1"
  "WorkerID (claim t p j) = fp_WorkerID p" "AttemptedAt (claim t p j) = Some t"
  by (simp_all add: claim_def)

lemma row_ok_promote: "row_ok j \<Longrightarrow> row_ok (promote t q j)"
  by (auto simp: row_ok_def promote_def)

lemma row_ok_claim: "row_ok j \<Longrightarrow> row_ok (claim t p j)"
  by (auto simp: row_ok_def)

lemma gget_put_rows:
  assumes "distinct (map ID rows)"
  shows "gget (put_rows rows m) k =
     (case find (\<lambda>r. ID r = k) rows of Some r \<Rightarrow> Some r | None \<Rightarrow> gget m k)"
  using assms
proof (induction rows arbitrary: m)
  case Nil
  then show ?case by (simp add: put_rows_def)
next
  case (Cons r rows)
  have "put_rows (r # rows) m = put_rows rows (gput (ID r) r m)"
    by (simp add: put_rows_def)
  moreover have "ID r = k \<Longrightarrow> find (\<lambda>x. ID x = k) rows = None"
    using Cons.prems by (auto simp: find_None_iff image_iff)
  ultimately show ?case
    using Cons by (auto simp: gmap_simps split: option.splits)
qed

lemma distinct_put_rows: "distinct (gkeys m) \<Longrightarrow> distinct (gkeys (put_rows rows m))"
  by (induction rows arbitrary: m) (auto simp: put_rows_def inv_intros)

text \<open>The rows of a well-formed store have distinct identifiers, hence so do the candidates.\<close>

lemma distinct_ids:
  assumes "mem_inv d"
  shows "distinct (map ID (gvals (jobs d)))"
proof -
  have "map ID (gvals (jobs d)) = gkeys (jobs d)"
  proof (rule nth_equalityI)
    fix i assume i: "i < length (map ID (gvals (jobs d)))"
    then have "jobs d ! i \<in> set (jobs d)" by simp
    then have "gget (jobs d) (fst (jobs d ! i)) = Some (snd (jobs d ! i))"
      using mem_inv_distinct(1) [OF assms] by (simp add: gget_Some_iff)
    from mem_invD(1) [OF assms this] show "map ID (gvals (jobs d)) ! i = gkeys (jobs d) ! i"
      using i by simp
  qed simp
  with mem_inv_distinct(1) [OF assms] show ?thesis by (simp only:)
qed

lemma gvals_iff:
  assumes "mem_inv d"
  shows "r \<in> set (gvals (jobs d)) \<longleftrightarrow> gget (jobs d) (ID r) = Some r"
proof
  assume "r \<in> set (gvals (jobs d))"
  then obtain k where "(k, r) \<in> set (jobs d)" by auto
  then have g: "gget (jobs d) k = Some r"
    using mem_inv_distinct(1) [OF assms] by (simp add: gget_Some_iff)
  with mem_invD(1) [OF assms g] show "gget (jobs d) (ID r) = Some r" by simp
qed (force dest: map_of_SomeD)

lemma set_fetch_candidates:
  "set (fetch_candidates t q d) = {j \<in> promote t q ` set (gvals (jobs d)). claimable t q j}"
  by (auto simp: fetch_candidates_def fetch_order.set_sort_slice)

lemma distinct_fetch_candidates:
  assumes "mem_inv d"
  shows "distinct (map ID (fetch_candidates t q d))"
proof -
  let ?xs = "map (promote t q) (gvals (jobs d))"
  have "map ID ?xs = map ID (gvals (jobs d))" by simp
  with distinct_ids [OF assms] have "distinct (map ID ?xs)" by (metis)
  then have "distinct (map ID (filter (claimable t q) ?xs))" by (rule distinct_map_filter)
  then have d: "distinct (filter (claimable t q) ?xs)" and i: "inj_on ID (set (filter (claimable t q) ?xs))"
    by (simp_all only: distinct_map)
  show ?thesis
    unfolding distinct_map fetch_candidates_def fetch_order.distinct_sort_slice fetch_order.set_sort_slice
    using d i by blast
qed

text \<open>What a claim does to each stored row.\<close>

definition fetched_rows :: "gotime \<Rightarrow> FetchParams \<Rightarrow> mem \<Rightarrow> JobRow list" where
  "fetched_rows t p d = (let c = fetch_candidates t (fp_Queue p) d in
     take (fetch_limit (fp_Limit p) (length c)) c)"

definition queue_open :: "string \<Rightarrow> mem \<Rightarrow> bool" where
  "queue_open n d \<longleftrightarrow> (case gget (queues d) n of None \<Rightarrow> False | Some q \<Rightarrow> \<not> qr_Paused q)"

lemma JobFetchBatch_eq:
  "JobFetchBatch t p d =
     (if queue_open (fp_Queue p) d
      then (d\<lparr>jobs := put_rows (map (claim t p) (fetched_rows t p d))
                 (gmap_vals (promote t (fp_Queue p)) (jobs d))\<rparr>,
            map (claim t p) (fetched_rows t p d))
      else (d, []))"
  by (simp add: JobFetchBatch_def queue_open_def fetched_rows_def Let_def split: option.splits)

lemma distinct_fetched_rows: "mem_inv d \<Longrightarrow> distinct (map ID (fetched_rows t p d))"
  by (simp add: fetched_rows_def Let_def take_map [symmetric] distinct_fetch_candidates)

lemma fetched_rows_subset: "set (fetched_rows t p d) \<subseteq> set (fetch_candidates t (fp_Queue p) d)"
  by (auto simp: fetched_rows_def Let_def dest: in_set_takeD)

lemma fetched_rows_stored:
  assumes "mem_inv d" "j \<in> set (fetched_rows t p d)"
  shows "\<exists>r. gget (jobs d) (ID j) = Some r \<and> j = promote t (fp_Queue p) r \<and> claimable t (fp_Queue p) j"
proof -
  from assms(2) fetched_rows_subset have "j \<in> set (fetch_candidates t (fp_Queue p) d)" by blast
  then obtain r where "r \<in> set (gvals (jobs d))" "j = promote t (fp_Queue p) r"
    "claimable t (fp_Queue p) j"
    unfolding set_fetch_candidates by blast
  with gvals_iff [OF assms(1), of r] show ?thesis by auto
qed

lemma find_claimed:
  assumes inv: "mem_inv d" and r: "gget (jobs d) k = Some r"
  shows "find (\<lambda>x. ID x = k) (map (claim t p) (fetched_rows t p d)) =
     (if promote t (fp_Queue p) r \<in> set (fetched_rows t p d)
      then Some (claim t p (promote t (fp_Queue p) r)) else None)"
proof -
  let ?F = "fetched_rows t p d" and ?r = "promote t (fp_Queue p) r"
  have k: "ID ?r = k" using mem_invD(1) [OF inv r] by simp
  have only: "j = ?r" if "j \<in> set ?F" "ID j = k" for j
    using fetched_rows_stored [OF inv that(1)] that(2) r by auto
  show ?thesis
  proof (cases "?r \<in> set ?F")
    case True
    then have "claim t p ?r \<in> set (map (claim t p) ?F)" by simp
    moreover have "ID (claim t p ?r) = k" using k by simp
    ultimately have "find (\<lambda>x. ID x = k) (map (claim t p) ?F) \<noteq> None"
      unfolding find_None_iff by blast
    then obtain x where x: "find (\<lambda>x. ID x = k) (map (claim t p) ?F) = Some x" by blast
    then obtain m where "m < length ?F" "x = claim t p (?F ! m)" "ID (?F ! m) = k"
      by (auto simp: find_Some_iff)
    then have "x = claim t p ?r" using only by (metis nth_mem)
    with True x show ?thesis by simp
  next
    case False
    then show ?thesis using only by (auto simp: find_None_iff)
  qed
qed

lemma fetch_gget:
  assumes inv: "mem_inv d" and q: "queue_open (fp_Queue p) d"
  shows "gget (jobs (fst (JobFetchBatch t p d))) k =
     map_option (\<lambda>r. let r1 = promote t (fp_Queue p) r in
        if r1 \<in> set (fetched_rows t p d) then claim t p r1 else r1) (gget (jobs d) k)"
proof -
  let ?rows = "map (claim t p) (fetched_rows t p d)"
  have dist: "distinct (map ID ?rows)"
    using distinct_fetched_rows [OF inv, of t p] by (simp add: comp_def)
  show ?thesis
  proof (cases "gget (jobs d) k")
    case None
    have "find (\<lambda>x. ID x = k) ?rows = None"
      using fetched_rows_stored [OF inv] None by (fastforce simp: find_None_iff)
    with None q show ?thesis
      by (simp add: JobFetchBatch_eq gget_put_rows [OF dist] gmap_simps)
  next
    case (Some r)
    with q show ?thesis
      by (simp add: JobFetchBatch_eq gget_put_rows [OF dist] gmap_simps find_claimed [OF inv Some] Let_def)
  qed
qed

lemma fetch_frame [simp]:
  "queues (fst (JobFetchBatch t p d)) = queues d" "seq (fst (JobFetchBatch t p d)) = seq d"
  "notify (fst (JobFetchBatch t p d)) = notify d" "chans (fst (JobFetchBatch t p d)) = chans d"
  "leaders (fst (JobFetchBatch t p d)) = leaders d" "cursors (fst (JobFetchBatch t p d)) = cursors d"
  "panicked (fst (JobFetchBatch t p d)) = panicked d"
  by (simp_all add: JobFetchBatch_eq)

lemma mem_inv_JobFetchBatch:
  assumes inv: "mem_inv d"
  shows "mem_inv (fst (JobFetchBatch t p d))"
proof (cases "queue_open (fp_Queue p) d")
  case True
  have dist: "distinct (gkeys (jobs (fst (JobFetchBatch t p d))))"
    using True mem_inv_distinct(1) [OF inv] by (simp add: JobFetchBatch_eq distinct_put_rows)
  show ?thesis
    using dist mem_inv_distinct(2) [OF inv] mem_invD [OF inv] inv
    by (intro mem_invI)
       (auto simp: fetch_gget [OF inv True] Let_def row_ok_promote row_ok_claim mem_inv_def)
next
  case False
  with inv show ?thesis by (simp add: JobFetchBatch_eq)
qed

section \<open>Insertion\<close>

lemma seq_Suc: "unat (seq d) + 1 < 2 ^ 64 \<Longrightarrow> unat (seq d + 1) = Suc (unat (seq d))"
  by (simp add: unat_word_ariths)

lemma new_row_simps [simp]:
  "ID (new_row k t p) = k" "Queue (new_row k t p) = ip_Queue p" "Kind (new_row k t p) = ip_Kind p"
  "Args (new_row k t p) = ip_Args p" "UniqueKey (new_row k t p) = ip_UniqueKey p"
  "AttemptNum (new_row k t p) = 0" "CreatedAt (new_row k t p) = t"
  "Priority (new_row k t p) = ip_Priority p" "MaxRetry (new_row k t p) = ip_MaxRetry p"
  "Timeout (new_row k t p) = ip_Timeout p" "Tags (new_row k t p) = ip_Tags p"
  "PipelineID (new_row k t p) = ip_PipelineID p" "FinalizedAt (new_row k t p) = None"
  "State (new_row k t p) \<noteq> JobStateRunning" "\<not> terminal (State (new_row k t p))"
  by (simp_all add: new_row_def Let_def)

lemma row_ok_new_row: "row_ok (new_row k t p)"
  by (simp add: row_ok_def)

text \<open>The two outcomes of one insertion.\<close>

definition inserts :: "JobInsertParams \<Rightarrow> mem \<Rightarrow> bool" where
  "inserts p d \<longleftrightarrow> ip_UniqueKey p = [] \<or> findUniqueJob (ip_UniqueKey p) d = None"

lemma insert_one_skip:
  assumes "\<not> inserts p d"
  shows "fst (insert_one t p d) = d" "ir_UniqueSkip (snd (insert_one t p d))"
    "ir_Job (snd (insert_one t p d)) = findUniqueJob (ip_UniqueKey p) d"
  using assms by (auto simp: insert_one_def inserts_def)

lemma insert_one_new:
  assumes "inserts p d"
  shows "fst (insert_one t p d) = broadcastNotify (ip_Queue p) (ensureQueue (ip_Queue p) t
      (d\<lparr>seq := seq d + 1,
         jobs := gput (mem_id (seq d + 1)) (new_row (mem_id (seq d + 1)) t p) (jobs d)\<rparr>))"
    and "snd (insert_one t p d) =
      \<lparr>ir_Job = Some (new_row (mem_id (seq d + 1)) t p), ir_UniqueSkip = False\<rparr>"
  using assms by (auto simp: insert_one_def inserts_def Let_def)

lemma mem_id_Suc:
  assumes "unat (seq d) + 1 < 2 ^ 64"
  shows "mem_id (seq d + 1) = ''mem_'' @ nat_to_dec (Suc (unat (seq d)))"
  by (simp add: mem_id_def seq_Suc [OF assms])

lemma fresh_id:
  assumes "mem_inv d" "unat (seq d) + 1 < 2 ^ 64"
  shows "gget (jobs d) (mem_id (seq d + 1)) = None"
  using mem_invD(2) [OF assms(1)] valid_id_fresh [of "unat (seq d)"]
  by (metis mem_id_Suc [OF assms(2)] not_None_eq)

lemma mem_inv_put_new:
  assumes inv: "mem_inv d" and room: "unat (seq d) + 1 < 2 ^ 64" and q: "gget (queues d) (ip_Queue p) \<noteq> None"
  shows "mem_inv (d\<lparr>seq := seq d + 1,
    jobs := gput (mem_id (seq d + 1)) (new_row (mem_id (seq d + 1)) t p) (jobs d)\<rparr>)"
proof -
  have new: "valid_id (unat (seq d + 1)) (mem_id (seq d + 1))"
    unfolding mem_id_Suc [OF room] seq_Suc [OF room] valid_id_def by blast
  have old: "valid_id (unat (seq d + 1)) k" if "gget (jobs d) k = Some r" for k r
    using mem_invD(2) [OF inv that] by (rule valid_id_mono) (simp add: seq_Suc [OF room])
  show ?thesis
    using new old q inv mem_invD [OF inv] mem_inv_distinct [OF inv]
    by (intro mem_invI)
       (auto simp: gmap_simps inv_intros row_ok_new_row mem_inv_def split: if_splits)
qed

lemma mem_inv_insert_one:
  assumes inv: "mem_inv d" and room: "unat (seq d) + 1 < 2 ^ 64"
  shows "mem_inv (fst (insert_one t p d))"
proof (cases "inserts p d")
  case True
  let ?e = "ensureQueue (ip_Queue p) t d"
  have "mem_inv ?e" by (rule mem_inv_ensureQueue [OF inv])
  moreover have "gget (queues ?e) (ip_Queue p) \<noteq> None" by (auto simp: ensureQueue_get)
  ultimately have "mem_inv (?e\<lparr>seq := seq ?e + 1,
    jobs := gput (mem_id (seq ?e + 1)) (new_row (mem_id (seq ?e + 1)) t p) (jobs ?e)\<rparr>)"
    using room by (intro mem_inv_put_new) simp_all
  then show ?thesis
    unfolding insert_one_new(1) [OF True]
    by (rule mem_inv_frame) (simp_all add: ensureQueue_def split: option.splits)
next
  case False
  with inv show ?thesis by (simp add: insert_one_skip)
qed

lemma seq_insert_one:
  "seq (fst (insert_one t p d)) = (if inserts p d then seq d + 1 else seq d)"
  by (simp add: insert_one_skip insert_one_new)

lemma seq_insert_one_le:
  "unat (seq d) + 1 < 2 ^ 64 \<Longrightarrow> unat (seq (fst (insert_one t p d))) \<le> unat (seq d) + 1"
  by (simp add: seq_insert_one seq_Suc)

lemma mem_inv_insert_loop:
  "mem_inv d \<Longrightarrow> unat (seq d) + length ps < 2 ^ 64 \<Longrightarrow>
   mem_inv (fst (JobInsertMany_loop clk i ps d))"
proof (induction ps arbitrary: i d)
  case Nil
  then show ?case by simp
next
  case (Cons p ps)
  let ?d = "fst (insert_one (clk i) p d)"
  have room: "unat (seq d) + 1 < 2 ^ 64" using Cons.prems(2) by simp
  have "mem_inv (fst (JobInsertMany_loop clk (Suc i) ps ?d))"
    using Cons.prems seq_insert_one_le [OF room, of "clk i" p]
    by (intro Cons.IH mem_inv_insert_one) simp_all
  then show ?case by (simp add: split_beta Let_def)
qed

lemma mem_inv_JobInsertMany:
  "mem_inv d \<Longrightarrow> unat (seq d) + length ps < 2 ^ 64 \<Longrightarrow> mem_inv (fst (JobInsertMany clk ps d))"
  by (simp add: JobInsertMany_def split_beta Let_def mem_inv_insert_loop)

section \<open>Channels and listeners\<close>

lemma notify_invD:
  assumes "notify_inv d ls"
  shows "\<not> panicked d"
    and "gget (notify d) q = Some cs \<Longrightarrow> distinct cs"
    and "c \<in> nset d q \<Longrightarrow> c < length (chans d)"
    and "c \<in> nset d q \<Longrightarrow> \<not> ch_closed (chans d ! c)"
    and "c \<in> nset d q \<Longrightarrow> c \<in> nset d q' \<Longrightarrow> q = q'"
    and "i < length ls \<Longrightarrow> gget (subs (ls ! i)) q = Some c \<Longrightarrow> c \<in> nset d q"
    and "i < length ls \<Longrightarrow> j < length ls \<Longrightarrow> gget (subs (ls ! i)) q = Some c \<Longrightarrow>
      gget (subs (ls ! j)) q' = Some c \<Longrightarrow> i = j"
  using assms unfolding notify_inv_def by blast+

lemma notify_invI:
  assumes "\<not> panicked d"
    and "\<And>q cs. gget (notify d) q = Some cs \<Longrightarrow> distinct cs"
    and "\<And>q c. c \<in> nset d q \<Longrightarrow> c < length (chans d) \<and> \<not> ch_closed (chans d ! c)"
    and "\<And>q q' c. c \<in> nset d q \<Longrightarrow> c \<in> nset d q' \<Longrightarrow> q = q'"
    and "\<And>i q c. i < length ls \<Longrightarrow> gget (subs (ls ! i)) q = Some c \<Longrightarrow> c \<in> nset d q"
    and "\<And>i j q q' c. i < length ls \<Longrightarrow> j < length ls \<Longrightarrow> gget (subs (ls ! i)) q = Some c \<Longrightarrow>
      gget (subs (ls ! j)) q' = Some c \<Longrightarrow> i = j"
  shows "notify_inv d ls"
  unfolding notify_inv_def using assms by blast

lemma notify_inv_frame:
  assumes inv: "notify_inv d ls" and frame: "panicked d' = panicked d" "notify d' = notify d"
    "length (chans d') = length (chans d)"
    "\<And>i. i < length (chans d) \<Longrightarrow> ch_closed (chans d' ! i) = ch_closed (chans d ! i)"
  shows "notify_inv d' ls"
proof -
  have ns: "nset d' q = nset d q" for q using frame(2) by (simp add: nset_def)
  note D = notify_invD [OF inv]
  show ?thesis
  proof (rule notify_invI, unfold ns frame(1,2,3))
    show "c < length (chans d) \<and> \<not> ch_closed (chans d' ! c)" if "c \<in> nset d q" for q c
      using D(3,4) [OF that] frame(4) by blast
  qed (fact D)+
qed

lemma notify_inv_broadcast:
  assumes "notify_inv d ls"
  shows "notify_inv (broadcastNotify q d) ls"
proof (rule notify_inv_frame [OF assms])
  show "panicked (broadcastNotify q d) = panicked d"
  proof (cases "gget (notify d) q")
    case None
    then show ?thesis by (simp add: broadcastNotify_def)
  next
    case (Some cs)
    have "panicked (fold (\<lambda>c. try_send c q) cs d) = panicked d"
      by (rule fold_try_send_open) (use Some notify_invD(4) [OF assms, of _ q] in \<open>auto simp: nset_def\<close>)
    with Some show ?thesis by (simp add: broadcastNotify_def)
  qed
  show "ch_closed (chans (broadcastNotify q d) ! i) = ch_closed (chans d ! i)"
    if "i < length (chans d)" for i
    using that by (simp add: broadcastNotify_def fold_try_send_closed split: option.splits)
qed simp_all

lemma notify_inv_insert_one:
  assumes "notify_inv d ls"
  shows "notify_inv (fst (insert_one t p d)) ls"
proof (cases "inserts p d")
  case True
  let ?d = "ensureQueue (ip_Queue p) t (d\<lparr>seq := seq d + 1,
    jobs := gput (mem_id (seq d + 1)) (new_row (mem_id (seq d + 1)) t p) (jobs d)\<rparr>)"
  have "notify_inv ?d ls" by (rule notify_inv_frame [OF assms]) simp_all
  then show ?thesis unfolding insert_one_new(1) [OF True] by (rule notify_inv_broadcast)
next
  case False
  with assms show ?thesis by (simp add: insert_one_skip)
qed

lemma notify_inv_JobInsertMany:
  assumes "notify_inv d ls"
  shows "notify_inv (fst (JobInsertMany clk ps d)) ls"
proof -
  have "notify_inv (fst (JobInsertMany_loop clk i ps d)) ls" if "notify_inv d ls" for i d
    using that
    by (induction ps arbitrary: i d) (simp_all add: split_beta Let_def notify_inv_insert_one)
  with assms show ?thesis by (simp add: JobInsertMany_def split_beta Let_def)
qed


lemma notify_inv_Listen:
  assumes inv: "notify_inv d ls" and i: "i < length ls" and eq: "Listen q (ls ! i) d = (l', d', n)"
  shows "notify_inv d' (ls[i := l'])"
proof -
  note D = notify_invD [OF inv]
  have n: "n = length (chans d)" and l': "subs l' = gput q n (subs (ls ! i))"
    and ch: "chans d' = chans d @ [\<lparr>ch_buf = [], ch_closed = False\<rparr>]" and pa: "panicked d' = panicked d"
    and nt: "notify d' = gput q ((case gget (notify d) q of None \<Rightarrow> [] | Some cs \<Rightarrow> cs) @ [n]) (notify d)"
    using eq by (auto simp: Listen_def Let_def)
  have ns: "nset d' q' = (if q' = q then insert n (nset d q) else nset d q')" for q'
    by (auto simp: nset_def nt gmap_simps split: option.splits)
  have fresh: "n \<notin> nset d q'" for q' using D(3) [of n q'] n by auto
  have sub: "gget (subs (ls[i := l'] ! j)) q' =
      (if j = i \<and> q' = q then Some n else gget (subs (ls ! j)) q')" if "j < length ls" for j q'
    using that i by (auto simp: nth_list_update l' gmap_simps)
  show ?thesis
  proof (rule notify_invI)
    show "\<not> panicked d'" using D(1) pa by simp
    show "distinct cs" if "gget (notify d') q' = Some cs" for q' cs
      using that D(2) [of q'] fresh [of q] by (auto simp: nt gmap_simps nset_def split: if_splits option.splits)
    show "c < length (chans d') \<and> \<not> ch_closed (chans d' ! c)" if "c \<in> nset d' q'" for q' c
      using that D(3,4) [of c q'] by (auto simp: ns ch nth_append n split: if_splits)
    show "q1 = q2" if "c \<in> nset d' q1" "c \<in> nset d' q2" for q1 q2 c
      using that D(5) [of c q1 q2] fresh by (auto simp: ns split: if_splits)
    show "c \<in> nset d' q'" if "j < length (ls[i := l'])" "gget (subs (ls[i := l'] ! j)) q' = Some c" for j q' c
      using that D(6) [of j q' c] by (auto simp: sub ns split: if_splits)
    show "j = k" if "j < length (ls[i := l'])" "k < length (ls[i := l'])"
      "gget (subs (ls[i := l'] ! j)) q1 = Some c" "gget (subs (ls[i := l'] ! k)) q2 = Some c" for j k q1 q2 c
      using that D(7) [of j k q1 c q2] D(6) fresh by (auto simp: sub split: if_splits)
  qed
qed

lemma notify_inv_remove:
  assumes inv: "notify_inv d ls" and i: "i < length ls" and eq: "listener_remove q (ls ! i) d = (l', d')"
  shows "notify_inv d' (ls[i := l'])"
proof (cases "gget (subs (ls ! i)) q")
  case None
  with eq have "l' = ls ! i" "d' = d" by (auto simp: listener_remove_def)
  with inv i show ?thesis by simp
next
  case (Some c0)
  note D = notify_invD [OF inv]
  have own: "c0 \<in> nset d q" by (rule D(6) [OF i Some])
  then obtain cs0 where cs0: "gget (notify d) q = Some cs0" "c0 \<in> set cs0"
    by (auto simp: nset_def split: option.splits)
  have c0: "c0 < length (chans d)" by (rule D(3) [OF own])
  have l': "subs l' = gdel q (subs (ls ! i))" and pa: "panicked d' = panicked d"
    and ch: "chans d' = (chans d)[c0 := (chans d ! c0)\<lparr>ch_closed := True\<rparr>]"
    and nt: "gget (notify d') q' = (if q' = q then (if remove1 c0 cs0 = [] then None else Some (remove1 c0 cs0))
        else gget (notify d) q')" for q'
    using eq Some cs0 c0 by (auto simp: listener_remove_def Let_def gmap_simps)
  have ns: "nset d' q' = (if q' = q then nset d q - {c0} else nset d q')" for q'
    using set_remove1_eq [OF D(2) [OF cs0(1)], of c0] cs0
    by (cases "remove1 c0 cs0 = []") (auto simp: nset_def nt)
  have sub: "gget (subs (ls[i := l'] ! j)) q' =
      (if j = i \<and> q' = q then None else gget (subs (ls ! j)) q')" if "j < length ls" for j q'
    using that i by (auto simp: nth_list_update l' gmap_simps)
  show ?thesis
  proof (rule notify_invI)
    show "\<not> panicked d'" using D(1) pa by simp
    show "distinct cs" if "gget (notify d') q' = Some cs" for q' cs
      using that D(2) [OF cs0(1)] D(2) [of q' cs] by (auto simp: nt split: if_splits)
    show "c < length (chans d') \<and> \<not> ch_closed (chans d' ! c)" if "c \<in> nset d' q'" for q' c
      using that D(3,4) [of c q'] D(5) [OF own, of q'] by (cases "c = c0") (auto simp: ns ch split: if_splits)
    show "q1 = q2" if "c \<in> nset d' q1" "c \<in> nset d' q2" for q1 q2 c
      using that D(5) [of c q1 q2] by (auto simp: ns split: if_splits)
    show "c \<in> nset d' q'" if "j < length (ls[i := l'])" "gget (subs (ls[i := l'] ! j)) q' = Some c" for j q' c
    proof -
      have j: "j < length ls" and g: "gget (subs (ls ! j)) q' = Some c" and ne: "\<not> (j = i \<and> q' = q)"
        using that by (auto simp: sub split: if_splits)
      have "c \<noteq> c0" if "q' = q" using D(7) [OF j i g] Some ne that by auto
      with D(6) [OF j g] show ?thesis by (auto simp: ns)
    qed
    show "j = k" if "j < length (ls[i := l'])" "k < length (ls[i := l'])"
      "gget (subs (ls[i := l'] ! j)) q1 = Some c" "gget (subs (ls[i := l'] ! k)) q2 = Some c" for j k q1 q2 c
      using that D(7) [of j k q1 c q2] by (auto simp: sub split: if_splits)
  qed
qed


section \<open>The store as a transition system\<close>

text \<open>
  One rule per method. The insertion rule keeps the 64-bit sequence counter away from its
  wrap-around. \<open>recv\<close> is a subscriber taking a notification out of its channel,
  \<open>subscribe\<close> the creation of a listener object.
\<close>

type_synonym mem_sys = "mem \<times> listener list"

inductive mem_step :: "mem_sys \<Rightarrow> mem_sys \<Rightarrow> bool" where
  insert: "unat (seq d) + length ps < 2 ^ 64 \<Longrightarrow> mem_step (d, ls) (fst (JobInsertMany clk ps d), ls)"
| fetch: "mem_step (d, ls) (fst (JobFetchBatch t p d), ls)"
| mark: "mem_step (d, ls) (fst (JobMarkStarted mp d), ls)"
| rescue: "mem_step (d, ls) (fst (JobRescueStuck rp d), ls)"
| heartbeat: "mem_step (d, ls) (fst (JobHeartbeat hp d), ls)"
| set_state: "mem_step (d, ls) (fst (JobSetStateIfRunning clk sp d), ls)"
| cancel: "mem_step (d, ls) (fst (JobCancel t k d), ls)"
| delete: "mem_step (d, ls) (fst (JobDelete k d), ls)"
| reschedule: "mem_step (d, ls) (fst (JobReschedule rsp d), ls)"
| pause: "mem_step (d, ls) (QueuePause t n d, ls)"
| resume: "mem_step (d, ls) (QueueResume t n d, ls)"
| elect: "mem_step (d, ls) (fst (LeaderAttemptElect t lp d), ls)"
| resign: "mem_step (d, ls) (LeaderResign lrp d, ls)"
| cursor_get: "mem_step (d, ls) (fst (ScheduleCursorGetOrCreate cp d), ls)"
| cursor_advance: "mem_step (d, ls) (fst (ScheduleCursorAdvance ap d), ls)"
| subscribe: "mem_step (d, ls) (d, ls @ [Listener])"
| listen: "i < length ls \<Longrightarrow> Listen q (ls ! i) d = (l', d', c) \<Longrightarrow> mem_step (d, ls) (d', ls[i := l'])"
| unlisten: "i < length ls \<Longrightarrow> Unlisten q (ls ! i) d = (l', d') \<Longrightarrow> mem_step (d, ls) (d', ls[i := l'])"
| recv: "c < length (chans d) \<Longrightarrow>
    mem_step (d, ls) (d\<lparr>chans := (chans d)[c := (chans d ! c)\<lparr>ch_buf := tl (ch_buf (chans d ! c))\<rparr>]\<rparr>, ls)"

inductive_cases mem_stepE: "mem_step s s'"

inductive mem_reachable :: "mem_sys \<Rightarrow> bool" where
  start: "mem_reachable (mem_New, [])"
| step: "mem_reachable s \<Longrightarrow> mem_step s s' \<Longrightarrow> mem_reachable s'"

text \<open>\<^verbatim>\<open>Close\<close> of a listener is a sequence of removals, each an \<open>unlisten\<close> step.\<close>

lemmas mem_inv_ops =
  mem_inv_JobInsertMany mem_inv_JobFetchBatch mem_inv_JobMarkStarted mem_inv_JobRescueStuck
  mem_inv_JobHeartbeat mem_inv_JobSetState mem_inv_JobCancel mem_inv_JobDelete mem_inv_JobReschedule
  mem_inv_QueuePause mem_inv_QueueResume mem_inv_Leader mem_inv_Cursor

lemma mem_step_mem_inv:
  assumes "mem_step s s'" "mem_inv (fst s)"
  shows "mem_inv (fst s')"
  using assms
proof cases
  case (listen i ls q d l' d' c)
  with assms(2) mem_inv_Listener(1) [of d q "ls ! i"] show ?thesis by simp
next
  case (unlisten i ls q d l' d')
  with assms(2) mem_inv_Listener(2) [of d q "ls ! i"] show ?thesis by (simp add: Unlisten_def)
next
  case (recv c d ls)
  with assms(2) show ?thesis by (auto elim: mem_inv_frame)
qed (simp_all add: mem_inv_ops)

lemma tables_frame [simp]:
  "notify (fst (JobMarkStarted mp d)) = notify d" "chans (fst (JobMarkStarted mp d)) = chans d"
  "panicked (fst (JobMarkStarted mp d)) = panicked d"
  "notify (fst (JobRescueStuck rp d)) = notify d" "chans (fst (JobRescueStuck rp d)) = chans d"
  "panicked (fst (JobRescueStuck rp d)) = panicked d"
  "notify (fst (JobHeartbeat hp d)) = notify d" "chans (fst (JobHeartbeat hp d)) = chans d"
  "panicked (fst (JobHeartbeat hp d)) = panicked d"
  "notify (fst (JobSetStateIfRunning clk sp d)) = notify d"
  "chans (fst (JobSetStateIfRunning clk sp d)) = chans d"
  "panicked (fst (JobSetStateIfRunning clk sp d)) = panicked d"
  "notify (fst (JobCancel t k d)) = notify d" "chans (fst (JobCancel t k d)) = chans d"
  "panicked (fst (JobCancel t k d)) = panicked d"
  "notify (fst (JobDelete k d)) = notify d" "chans (fst (JobDelete k d)) = chans d"
  "panicked (fst (JobDelete k d)) = panicked d"
  "notify (fst (JobReschedule rsp d)) = notify d" "chans (fst (JobReschedule rsp d)) = chans d"
  "panicked (fst (JobReschedule rsp d)) = panicked d"
  "notify (QueuePause t n d) = notify d" "chans (QueuePause t n d) = chans d"
  "panicked (QueuePause t n d) = panicked d"
  "notify (QueueResume t n d) = notify d" "chans (QueueResume t n d) = chans d"
  "panicked (QueueResume t n d) = panicked d"
  "notify (fst (LeaderAttemptElect t lp d)) = notify d" "chans (fst (LeaderAttemptElect t lp d)) = chans d"
  "panicked (fst (LeaderAttemptElect t lp d)) = panicked d"
  "notify (LeaderResign lrp d) = notify d" "chans (LeaderResign lrp d) = chans d"
  "panicked (LeaderResign lrp d) = panicked d"
  "notify (fst (ScheduleCursorGetOrCreate cp d)) = notify d"
  "chans (fst (ScheduleCursorGetOrCreate cp d)) = chans d"
  "panicked (fst (ScheduleCursorGetOrCreate cp d)) = panicked d"
  "notify (fst (ScheduleCursorAdvance ap d)) = notify d"
  "chans (fst (ScheduleCursorAdvance ap d)) = chans d"
  "panicked (fst (ScheduleCursorAdvance ap d)) = panicked d"
  by (simp_all add: JobMarkStarted_def JobRescueStuck_def JobHeartbeat_def JobSetStateIfRunning_def
      JobCancel_def JobDelete_def JobReschedule_def QueuePause_def QueueResume_def set_paused_def
      LeaderAttemptElect_def LeaderResign_def ScheduleCursorGetOrCreate_def ScheduleCursorAdvance_def
      Let_def split: option.splits)

lemma mem_step_notify_inv:
  assumes "mem_step s s'" "notify_inv (fst s) (snd s)"
  shows "notify_inv (fst s') (snd s')"
  using assms
proof cases
  case (insert d ps ls clk)
  with assms(2) show ?thesis by (simp add: notify_inv_JobInsertMany)
next
  case (subscribe d ls)
  then have inv: "notify_inv d ls" using assms(2) by simp
  show ?thesis
    unfolding subscribe fst_conv snd_conv
    by (rule notify_invI)
       (use notify_invD [OF inv] in \<open>auto simp: nth_append Listener_def less_Suc_eq split: if_splits\<close>)
next
  case (listen i ls q d l' d' c)
  with assms(2) show ?thesis by (auto intro: notify_inv_Listen)
next
  case (unlisten i ls q d l' d')
  with assms(2) show ?thesis by (auto simp: Unlisten_def intro: notify_inv_remove)
next
  case (recv c d ls)
  then have inv: "notify_inv d ls" using assms(2) by simp
  show ?thesis
    unfolding recv fst_conv snd_conv
    by (rule notify_inv_frame [OF inv]) (use recv(3) in \<open>simp_all add: nth_list_update\<close>)
qed (use assms(2) in \<open>auto elim!: notify_inv_frame\<close>)

lemma mem_reachable_inv:
  assumes "mem_reachable s"
  shows "mem_inv (fst s) \<and> notify_inv (fst s) (snd s)"
  using assms
proof induction
  case start
  show ?case by (simp add: mem_inv_New notify_inv_New)
next
  case (step s s')
  then show ?case by (simp add: mem_step_mem_inv mem_step_notify_inv)
qed

end
