(* ===== verification/Memory_Properties.thy ===== *)
theory Memory_Properties
  imports Memory_Invariant
begin

text \<open>
  What the in-memory driver promises to its clients: claims in priority order and never
  twice, fencing of abandoned claims, stability of terminal rows, unique keys, leases and
  compare-and-swap cursors.
\<close>

section \<open>Claiming\<close>

text \<open>A job that a fetch at time \<open>t\<close> may claim, in terms of the stored row.\<close>

definition due :: "gotime \<Rightarrow> string \<Rightarrow> JobRow \<Rightarrow> bool" where
  "due t q r \<longleftrightarrow> Queue r = q \<and> (State r = JobStateAvailable \<or> State r = JobStateScheduled) \<and> RunAt r \<le> t"

lemma claimable_promote: "claimable t q (promote t q r) \<longleftrightarrow> due t q r"
  by (auto simp: claimable_def promote_def due_def)

lemma length_fetch_candidates:
  "length (fetch_candidates t q d) = length (filter (due t q) (gvals (jobs d)))"
  by (simp add: fetch_candidates_def fetch_order.length_sort_slice filter_map comp_def
      claimable_promote del: map_map)

lemma length_fetched_rows:
  "length (fetched_rows t p d) =
     fetch_limit (fp_Limit p) (length (filter (due t (fp_Queue p)) (gvals (jobs d))))"
  by (auto simp: fetched_rows_def Let_def length_fetch_candidates fetch_limit_def min_def nat_le_iff)

lemma fetched_stored:
  assumes inv: "mem_inv d" and qo: "queue_open (fp_Queue p) d"
    and row: "row \<in> set (snd (JobFetchBatch t p d))"
  shows "gget (jobs (fst (JobFetchBatch t p d))) (ID row) = Some row"
    and "\<exists>r. gget (jobs d) (ID row) = Some r \<and> due t (fp_Queue p) r \<and>
           row = claim t p (promote t (fp_Queue p) r)"
proof -
  from row qo obtain j where j: "j \<in> set (fetched_rows t p d)" "row = claim t p j"
    by (auto simp: JobFetchBatch_eq)
  from fetched_rows_stored [OF inv j(1)] obtain r where
    r: "gget (jobs d) (ID j) = Some r" "j = promote t (fp_Queue p) r" "claimable t (fp_Queue p) j" by blast
  then have "due t (fp_Queue p) r" by (simp add: claimable_promote)
  with r j show "\<exists>r. gget (jobs d) (ID row) = Some r \<and> due t (fp_Queue p) r \<and>
           row = claim t p (promote t (fp_Queue p) r)" by auto
  show "gget (jobs (fst (JobFetchBatch t p d))) (ID row) = Some row"
    using r j by (auto simp: fetch_gget [OF inv qo] Let_def)
qed

lemma fetched_id_iff:
  assumes inv: "mem_inv d" and qo: "queue_open (fp_Queue p) d" and r: "gget (jobs d) k = Some r"
  shows "k \<in> ID ` set (snd (JobFetchBatch t p d)) \<longleftrightarrow> promote t (fp_Queue p) r \<in> set (fetched_rows t p d)"
proof -
  have "ID ` set (snd (JobFetchBatch t p d)) = ID ` set (fetched_rows t p d)"
    using qo by (simp add: JobFetchBatch_eq image_comp comp_def)
  moreover have "j = promote t (fp_Queue p) r" if "j \<in> set (fetched_rows t p d)" "ID j = k" for j
    using fetched_rows_stored [OF inv that(1)] that(2) r by auto
  moreover have "ID (promote t (fp_Queue p) r) = k" using mem_invD(1) [OF inv r] by simp
  ultimately show ?thesis by (metis imageE imageI)
qed

lemma due_not_fetched:
  assumes inv: "mem_inv d" and qo: "queue_open (fp_Queue p) d"
    and r: "gget (jobs d) k = Some r" "due t (fp_Queue p) r"
    and not: "k \<notin> ID ` set (snd (JobFetchBatch t p d))"
    and row: "row \<in> set (snd (JobFetchBatch t p d))"
  shows "\<exists>r0. gget (jobs d) (ID row) = Some r0 \<and> \<not> fetch_less r r0"
proof -
  let ?q = "fp_Queue p" and ?c = "fetch_candidates t (fp_Queue p) d"
  let ?n = "fetch_limit (fp_Limit p) (length ?c)"
  have k: "ID r = k" using mem_invD(1) [OF inv r(1)] .
  have "r \<in> set (gvals (jobs d))" unfolding gvals_iff [OF inv] using r(1) k by simp
  then have "promote t ?q r \<in> set ?c"
    using r(2) unfolding set_fetch_candidates by (auto simp: claimable_promote simp del: set_map)
  moreover have "promote t ?q r \<notin> set (take ?n ?c)"
    using not fetched_id_iff [OF inv qo r(1), of t] by (simp add: fetched_rows_def Let_def)
  ultimately have cut: "promote t ?q r \<in> set (drop ?n ?c)"
    by (metis Un_iff append_take_drop_id set_append)
  from row qo obtain j where j: "j \<in> set (take ?n ?c)" "row = claim t p j"
    by (auto simp: JobFetchBatch_eq fetched_rows_def Let_def)
  then have "j \<in> set (fetched_rows t p d)" by (simp add: fetched_rows_def Let_def)
  from fetched_rows_stored [OF inv this] obtain r0 where
    r0: "gget (jobs d) (ID j) = Some r0" "j = promote t ?q r0" by blast
  have "\<not> fetch_less (promote t ?q r) j"
    using fetch_order.take_sort_slice_first [OF j(1) [unfolded fetch_candidates_def]]
      cut [unfolded fetch_candidates_def] by blast
  then have "\<not> fetch_less r r0" using r0(2) by (simp add: fetch_order.lt_iff)
  with r0 j(2) show ?thesis by auto
qed


lemma sorted_fetched_rows: "sorted (map fetch_key (fetched_rows t p d))"
proof -
  let ?c = "fetch_candidates t (fp_Queue p) d"
  have "sorted (map fetch_key ?c)"
    unfolding fetch_candidates_def by (rule fetch_order.sorted_sort_slice)
  then show ?thesis
    unfolding fetched_rows_def Let_def take_map [symmetric] by (rule sorted_wrt_take)
qed

lemma sorted_snd_fetch: "sorted (map fetch_key (snd (JobFetchBatch t p d)))"
proof -
  have "fetch_key (claim t p j) = fetch_key j" for j by (simp add: claim_def)
  then have "map fetch_key (map (claim t p) js) = map fetch_key js" for js by (simp add: comp_def)
  with sorted_fetched_rows [of t p d] show ?thesis
    by (simp add: JobFetchBatch_eq del: map_map)
qed

text \<open>
  Claim C3: a fetch from an open queue returns the due jobs in priority order (priority
  descending, run time, creation time, identifier), as many as the limit allows (all for a
  non-positive limit); each returned row is a due stored row turned into a running claim of
  the caller and is what the store now holds; every other row is only promoted; and no due
  job left behind precedes a claimed one.
\<close>

theorem fetch_claims_in_order:
  assumes "mem_inv d" "queue_open (fp_Queue p) d" "JobFetchBatch t p d = (d', rows)"
  shows "length rows = fetch_limit (fp_Limit p) (length (filter (due t (fp_Queue p)) (AllJobs d))) \<and>
    distinct (map ID rows) \<and> sorted (map fetch_key rows) \<and>
    (\<forall>row\<in>set rows. gget (jobs d') (ID row) = Some row \<and>
       (\<exists>r. gget (jobs d) (ID row) = Some r \<and> due t (fp_Queue p) r \<and>
            row = claim t p (promote t (fp_Queue p) r))) \<and>
    (\<forall>k r. gget (jobs d) k = Some r \<longrightarrow> k \<notin> ID ` set rows \<longrightarrow>
       gget (jobs d') k = Some (promote t (fp_Queue p) r) \<and>
       (due t (fp_Queue p) r \<longrightarrow>
         (\<forall>row\<in>set rows. \<exists>r0. gget (jobs d) (ID row) = Some r0 \<and> \<not> fetch_less r r0)))"
proof (intro conjI ballI allI impI)
  note inv = assms(1) and qo = assms(2)
  have d': "d' = fst (JobFetchBatch t p d)" and rows: "rows = snd (JobFetchBatch t p d)"
    using assms(3) by simp_all
  have map: "rows = map (claim t p) (fetched_rows t p d)"
    using assms(3) qo by (simp add: JobFetchBatch_eq)
  show "length rows = fetch_limit (fp_Limit p) (length (filter (due t (fp_Queue p)) (AllJobs d)))"
    unfolding map AllJobs_def by (simp only: length_map length_fetched_rows)
  show "distinct (map ID rows)"
    using distinct_fetched_rows [OF inv, of t p] by (simp add: map comp_def)
  show "sorted (map fetch_key rows)" unfolding rows by (rule sorted_snd_fetch)
  show "gget (jobs d') (ID row) = Some row"
    and "\<exists>r. gget (jobs d) (ID row) = Some r \<and> due t (fp_Queue p) r \<and>
            row = claim t p (promote t (fp_Queue p) r)" if "row \<in> set rows" for row
    using fetched_stored [OF inv qo that [unfolded rows]] by (simp_all add: d')
  show "gget (jobs d') k = Some (promote t (fp_Queue p) r)"
    if "gget (jobs d) k = Some r" "k \<notin> ID ` set rows" for k r
    using that fetched_id_iff [OF inv qo that(1), of t] by (simp add: d' rows fetch_gget [OF inv qo] Let_def)
  show "\<exists>r0. gget (jobs d) (ID row) = Some r0 \<and> \<not> fetch_less r r0"
    if "gget (jobs d) k = Some r" "k \<notin> ID ` set rows" "due t (fp_Queue p) r" "row \<in> set rows" for k r row
    using due_not_fetched [OF inv qo that(1,3)] that(2,4) by (simp add: rows)
qed

text \<open>
  A job claimed by one fetch is not returned by the next one, whatever worker,
  queue, limit and time the next one uses.
\<close>

theorem fetch_never_claims_twice:
  assumes "mem_inv d" "JobFetchBatch t p d = (d', rows)" "JobFetchBatch t' p' d' = (d'', rows')"
  shows "ID ` set rows \<inter> ID ` set rows' = {}"
proof (cases "queue_open (fp_Queue p) d \<and> queue_open (fp_Queue p') d'")
  case True
  note inv = assms(1)
  have inv': "mem_inv d'" using mem_inv_JobFetchBatch [OF inv, of t p] assms(2) by simp
  show ?thesis
  proof (rule ccontr)
    assume "ID ` set rows \<inter> ID ` set rows' \<noteq> {}"
    then obtain a b where ab: "a \<in> set rows" "b \<in> set rows'" "ID a = ID b" by auto
    have a: "gget (jobs d') (ID a) = Some a" "State a = JobStateRunning"
      using fetched_stored [OF inv, of p a t] True ab(1) assms(2) by auto
    obtain r where r: "gget (jobs d') (ID b) = Some r" "due t' (fp_Queue p') r"
      using fetched_stored(2) [OF inv', of p' b t'] True ab(2) assms(3) by auto
    show False using a r ab(3) by (simp add: due_def)
  qed
next
  case False
  with assms show ?thesis by (auto simp: JobFetchBatch_eq split: if_splits)
qed


section \<open>Fencing\<close>

text \<open>
  \<open>fenced_off k n\<close>: the claim with attempt number \<open>n\<close> on job \<open>k\<close> has ended without
  being yielded. The job is gone, or it is not running and its attempt counter is at least
  \<open>n\<close>, or it is running with a later attempt.
\<close>

definition fenced_off :: "string \<Rightarrow> int \<Rightarrow> mem \<Rightarrow> bool" where
  "fenced_off k n d \<longleftrightarrow>
     (case gget (jobs d) k of
        None \<Rightarrow> valid_id (unat (seq d)) k
      | Some r \<Rightarrow> n \<le> AttemptNum r \<and> (State r = JobStateRunning \<longrightarrow> n < AttemptNum r))"

lemma fenced_off_put:
  assumes "fenced_off k n d" "gget (jobs d) k' = Some row"
    and "n \<le> AttemptNum row \<and> (State row = JobStateRunning \<longrightarrow> n < AttemptNum row) \<Longrightarrow>
         n \<le> AttemptNum row' \<and> (State row' = JobStateRunning \<longrightarrow> n < AttemptNum row')"
  shows "fenced_off k n (d\<lparr>jobs := gput k' row' (jobs d)\<rparr>)"
  using assms by (auto simp: fenced_off_def gmap_simps split: option.splits)

lemma fenced_off_map:
  assumes "fenced_off k n d"
    and "\<And>r. n \<le> AttemptNum r \<and> (State r = JobStateRunning \<longrightarrow> n < AttemptNum r) \<Longrightarrow>
         n \<le> AttemptNum (f r) \<and> (State (f r) = JobStateRunning \<longrightarrow> n < AttemptNum (f r))"
  shows "fenced_off k n (d\<lparr>jobs := gmap_vals f (jobs d)\<rparr>)"
  using assms by (auto simp: fenced_off_def gmap_simps split: option.splits)

lemma fenced_off_frame:
  "fenced_off k n d \<Longrightarrow> jobs d' = jobs d \<Longrightarrow> seq d' = seq d \<Longrightarrow> fenced_off k n d'"
  by (simp add: fenced_off_def split: option.splits)

lemma fenced_off_insert_one:
  assumes "fenced_off k n d" "mem_inv d" "unat (seq d) + 1 < 2 ^ 64"
  shows "fenced_off k n (fst (insert_one t p d))"
proof (cases "inserts p d")
  case True
  have "k \<noteq> mem_id (seq d + 1)"
    using assms(1) fresh_id [OF assms(2,3)] valid_id_fresh [of "unat (seq d)"] mem_id_Suc [OF assms(3)]
    by (auto simp: fenced_off_def split: option.splits)
  moreover have "valid_id (unat (seq d + 1)) k" if "valid_id (unat (seq d)) k"
    using that by (rule valid_id_mono) (simp add: seq_Suc [OF assms(3)])
  ultimately show ?thesis
    using assms(1) by (auto simp: insert_one_new [OF True] fenced_off_def gmap_simps split: option.splits)
next
  case False
  with assms(1) show ?thesis by (simp add: insert_one_skip)
qed

lemma fenced_off_insert:
  assumes "fenced_off k n d" "mem_inv d" "unat (seq d) + length ps < 2 ^ 64"
  shows "fenced_off k n (fst (JobInsertMany clk ps d))"
proof -
  have "fenced_off k n (fst (JobInsertMany_loop clk i ps d))"
    if "fenced_off k n d" "mem_inv d" "unat (seq d) + length ps < 2 ^ 64" for i d
    using that
  proof (induction ps arbitrary: i d)
    case (Cons p ps)
    let ?d = "fst (insert_one (clk i) p d)"
    have room: "unat (seq d) + 1 < 2 ^ 64" using Cons.prems(3) by simp
    have "fenced_off k n (fst (JobInsertMany_loop clk (Suc i) ps ?d))"
      using Cons.prems seq_insert_one_le [OF room, of "clk i" p]
      by (intro Cons.IH fenced_off_insert_one mem_inv_insert_one) simp_all
    then show ?case by (simp add: split_beta Let_def)
  qed simp
  with assms show ?thesis by (simp add: JobInsertMany_def split_beta Let_def)
qed

lemma fenced_off_fetch:
  assumes "fenced_off k n d" "mem_inv d"
  shows "fenced_off k n (fst (JobFetchBatch t p d))"
proof (cases "queue_open (fp_Queue p) d")
  case True
  from assms(1) show ?thesis
    by (auto simp: fenced_off_def fetch_gget [OF assms(2) True] Let_def split: option.splits)
next
  case False
  with assms(1) show ?thesis by (simp add: JobFetchBatch_eq)
qed

lemma fenced_off_set_state:
  assumes "fenced_off k n d"
  shows "fenced_off k n (fst (JobSetStateIfRunning clk p d))"
proof -
  have "n \<le> AttemptNum (set_state_row clk p row) \<and>
      (State (set_state_row clk p row) = JobStateRunning \<longrightarrow> n < AttemptNum (set_state_row clk p row))"
    if "State row = JobStateRunning" "n < AttemptNum row" for row
    using that by (auto simp: set_state_row_def Let_def split: option.splits)
  with assms show ?thesis
    by (auto simp: JobSetStateIfRunning_def split: option.splits intro!: fenced_off_put)
qed

lemma jobs_frame [simp]:
  "jobs (QueuePause t m d) = jobs d" "seq (QueuePause t m d) = seq d"
  "jobs (QueueResume t m d) = jobs d" "seq (QueueResume t m d) = seq d"
  "jobs (fst (LeaderAttemptElect t lp d)) = jobs d" "seq (fst (LeaderAttemptElect t lp d)) = seq d"
  "jobs (LeaderResign lrp d) = jobs d" "seq (LeaderResign lrp d) = seq d"
  "jobs (fst (ScheduleCursorGetOrCreate cp d)) = jobs d" "seq (fst (ScheduleCursorGetOrCreate cp d)) = seq d"
  "jobs (fst (ScheduleCursorAdvance ap d)) = jobs d" "seq (fst (ScheduleCursorAdvance ap d)) = seq d"
  by (simp_all add: QueuePause_def QueueResume_def set_paused_def LeaderAttemptElect_def LeaderResign_def
      ScheduleCursorGetOrCreate_def ScheduleCursorAdvance_def Let_def split: option.splits)

lemma listener_jobs:
  "Listen q l d = (l', d', c) \<Longrightarrow> jobs d' = jobs d \<and> seq d' = seq d"
  "Unlisten q l d = (l', d') \<Longrightarrow> jobs d' = jobs d \<and> seq d' = seq d"
  by (auto simp: Listen_def Unlisten_def listener_remove_def Let_def split: option.splits)

lemma fenced_off_step:
  assumes "mem_step s s'" "mem_inv (fst s)" "fenced_off k n (fst s)"
  shows "fenced_off k n (fst s')"
  using assms
proof cases
  case (insert d ps ls clk)
  with assms show ?thesis by (simp add: fenced_off_insert)
next
  case (fetch d ls t p)
  with assms show ?thesis by (simp add: fenced_off_fetch)
next
  case (mark d ls mp)
  with assms show ?thesis
    by (auto simp: JobMarkStarted_def split: option.splits intro!: fenced_off_put)
next
  case (rescue d ls rp)
  with assms show ?thesis by (auto simp: JobRescueStuck_def intro!: fenced_off_map split: if_splits)
next
  case (heartbeat d ls hp)
  with assms show ?thesis
    by (auto simp: JobHeartbeat_def Let_def split: option.splits intro!: fenced_off_put)
next
  case (set_state d ls clk sp)
  with assms show ?thesis by (simp add: fenced_off_set_state)
next
  case (cancel d ls t k')
  with assms show ?thesis
    by (auto simp: JobCancel_def split: option.splits intro!: fenced_off_put)
next
  case (delete d ls k')
  with assms show ?thesis
    by (auto simp: JobDelete_def fenced_off_def gmap_simps split: option.splits dest: mem_invD(2))
next
  case (reschedule d ls rsp)
  with assms show ?thesis
    by (auto simp: JobReschedule_def split: option.splits intro!: fenced_off_put)
next
  case (listen i ls q d l' d' c)
  with assms(3) show ?thesis by (auto elim!: fenced_off_frame dest: listener_jobs)
next
  case (unlisten i ls q d l' d')
  with assms(3) show ?thesis by (auto elim!: fenced_off_frame dest: listener_jobs)
qed (use assms(3) in \<open>auto elim!: fenced_off_frame\<close>)


text \<open>Reachability from a given state, for statements about everything that can happen later.\<close>

inductive mem_steps :: "mem_sys \<Rightarrow> mem_sys \<Rightarrow> bool" where
  idle: "mem_steps s s"
| snoc: "mem_steps s s' \<Longrightarrow> mem_step s' s'' \<Longrightarrow> mem_steps s s''"

lemma mem_steps_inv: "mem_steps s s' \<Longrightarrow> mem_inv (fst s) \<Longrightarrow> mem_inv (fst s')"
  by (induction rule: mem_steps.induct) (simp_all add: mem_step_mem_inv)

lemma fenced_off_steps:
  "mem_steps s s' \<Longrightarrow> mem_inv (fst s) \<Longrightarrow> fenced_off k n (fst s) \<Longrightarrow> fenced_off k n (fst s')"
  by (induction rule: mem_steps.induct) (auto intro: fenced_off_step mem_steps_inv)

lemma fenced_off_rescued:
  assumes "gget (jobs d) k = Some row" "stuck rp row" "n = AttemptNum row"
  shows "fenced_off k n (fst (JobRescueStuck rp d))"
  using assms by (simp add: fenced_off_def JobRescueStuck_def gmap_simps)

text \<open>
  Claim C1: once a running claim has been rescued, no operation made with its worker and
  attempt number ever succeeds again, whatever the store did in between (other claims,
  yields, retries, administration): the state change is refused with the stale-claim error,
  the heartbeat and the start marker report that the claim is lost, and none of them changes
  the store.
\<close>

theorem rescued_claim_is_fenced:
  assumes "mem_inv d" "gget (jobs d) k = Some row" "stuck rp row" "AttemptNum row = n" "0 < n"
    and "mem_steps (fst (JobRescueStuck rp d), ls) (d', ls')"
    and "sp_ID sp = k" "sp_ExpectedAttempt sp = n"
    and "hp_ID hp = k" "hp_Attempt hp = n" "ms_ID mp = k" "ms_Attempt mp = n"
  shows "(\<exists>e. JobSetStateIfRunning clk sp d' = (d', Some e) \<and> errors_is e ErrStaleClaim) \<and>
    JobHeartbeat hp d' = (d', False) \<and> JobMarkStarted mp d' = (d', False)"
proof -
  have "fenced_off k n (fst (d', ls'))"
    using assms(1-6) by (intro fenced_off_steps [OF assms(6)])
      (simp_all add: mem_inv_JobRescueStuck fenced_off_rescued)
  then show ?thesis
    using assms(5,7-) by (auto simp: fenced_off_def JobSetStateIfRunning_def JobHeartbeat_def
        JobMarkStarted_def claim_matches_def MatchesClaim_def stale_claim_def split: option.splits)
qed

section \<open>Terminal rows\<close>

lemma stuck_running: "stuck p r \<Longrightarrow> State r = JobStateRunning"
  by (simp add: stuck_def)

lemma insert_one_keeps:
  assumes "gget (jobs d) k = Some r" "mem_inv d" "unat (seq d) + 1 < 2 ^ 64"
  shows "gget (jobs (fst (insert_one t p d))) k = Some r"
proof (cases "inserts p d")
  case True
  have "k \<noteq> mem_id (seq d + 1)" using assms fresh_id by fastforce
  with assms(1) show ?thesis by (simp add: insert_one_new [OF True] gmap_simps)
next
  case False
  with assms(1) show ?thesis by (simp add: insert_one_skip)
qed

lemma JobInsertMany_keeps:
  assumes "gget (jobs d) k = Some r" "mem_inv d" "unat (seq d) + length ps < 2 ^ 64"
  shows "gget (jobs (fst (JobInsertMany clk ps d))) k = Some r"
proof -
  have "gget (jobs (fst (JobInsertMany_loop clk i ps d))) k = Some r"
    if "gget (jobs d) k = Some r" "mem_inv d" "unat (seq d) + length ps < 2 ^ 64" for i d
    using that
  proof (induction ps arbitrary: i d)
    case (Cons p ps)
    let ?d = "fst (insert_one (clk i) p d)"
    have room: "unat (seq d) + 1 < 2 ^ 64" using Cons.prems(3) by simp
    have "gget (jobs (fst (JobInsertMany_loop clk (Suc i) ps ?d))) k = Some r"
      using Cons.prems seq_insert_one_le [OF room, of "clk i" p]
      by (intro Cons.IH insert_one_keeps mem_inv_insert_one) simp_all
    then show ?case by (simp add: split_beta Let_def)
  qed simp
  with assms show ?thesis by (simp add: JobInsertMany_def split_beta Let_def)
qed

text \<open>
  A completed, discarded or cancelled row is only ever touched by an explicit
  deletion or reschedule of that job; every other operation leaves the row exactly as it is.
\<close>

theorem terminal_row_is_final:
  assumes "mem_step s s'" "mem_inv (fst s)" "gget (jobs (fst s)) k = Some r" "terminal (State r)"
  shows "gget (jobs (fst s')) k = Some r \<or> fst s' = fst (JobDelete k (fst s)) \<or>
    (\<exists>p. rs_ID p = k \<and> fst s' = fst (JobReschedule p (fst s)))"
  using assms(1)
proof cases
  case (insert d ps ls clk)
  with assms show ?thesis by (simp add: JobInsertMany_keeps)
next
  case (fetch d ls t p)
  have "promote t (fp_Queue p) r = r" using assms(4) by (auto simp: promote_def)
  moreover have "r \<notin> set (fetched_rows t p d)" if "mem_inv d"
    using fetched_rows_stored [OF that, of r t p] assms(4) by (auto simp: claimable_def)
  ultimately show ?thesis
    using fetch assms(2,3) fetch_gget [of d p t k]
    by (cases "queue_open (fp_Queue p) d") (auto simp: JobFetchBatch_eq [of t p d] Let_def)
next
  case (mark d ls mp)
  with assms show ?thesis
    by (auto simp: JobMarkStarted_def claim_matches_def gmap_simps split: option.splits)
next
  case (rescue d ls rp)
  with assms show ?thesis by (auto simp: JobRescueStuck_def gmap_simps dest: stuck_running)
next
  case (heartbeat d ls hp)
  with assms show ?thesis
    by (auto simp: JobHeartbeat_def claim_matches_def Let_def gmap_simps split: option.splits)
next
  case (set_state d ls clk sp)
  with assms show ?thesis by (auto simp: JobSetStateIfRunning_def gmap_simps split: option.splits)
next
  case (cancel d ls t k')
  with assms show ?thesis by (auto simp: JobCancel_def gmap_simps split: option.splits)
next
  case (delete d ls k')
  with assms show ?thesis by (auto simp: JobDelete_def gmap_simps split: option.splits)
next
  case (reschedule d ls rsp)
  with assms show ?thesis
    by (cases "rs_ID rsp = k") (force simp: JobReschedule_def gmap_simps split: option.splits)+
next
  case (listen i ls q d l' d' c)
  with assms(3) show ?thesis by (auto dest: listener_jobs)
next
  case (unlisten i ls q d l' d')
  with assms(3) show ?thesis by (auto dest: listener_jobs)
qed (use assms(3) in simp_all)


section \<open>Unique keys\<close>

definition reserves :: "JobRow \<Rightarrow> bool" where
  "reserves r \<longleftrightarrow> UniqueKey r \<noteq> [] \<and> blocks_key (UniqueKey r) r"

definition unique_inv :: "mem \<Rightarrow> bool" where
  "unique_inv d \<longleftrightarrow>
     (\<forall>k1 k2 r1 r2. gget (jobs d) k1 = Some r1 \<longrightarrow> gget (jobs d) k2 = Some r2 \<longrightarrow>
        reserves r1 \<longrightarrow> reserves r2 \<longrightarrow> UniqueKey r1 = UniqueKey r2 \<longrightarrow> k1 = k2)"

lemma reserves_iff: "reserves r \<longleftrightarrow> UniqueKey r \<noteq> [] \<and> (IsPermanentUniqueKey (UniqueKey r) \<or> \<not> terminal (State r))"
  by (auto simp: reserves_def blocks_key_def terminal_def)

text \<open>An operation that gives no row a reservation it did not have keeps the invariant.\<close>

lemma unique_inv_shrink:
  assumes "unique_inv d"
    and "\<And>k r'. gget (jobs d') k = Some r' \<Longrightarrow> reserves r' \<Longrightarrow>
           \<exists>r. gget (jobs d) k = Some r \<and> reserves r \<and> UniqueKey r = UniqueKey r'"
  shows "unique_inv d'"
  unfolding unique_inv_def
proof (intro allI impI)
  fix k1 k2 r1 r2
  assume *: "gget (jobs d') k1 = Some r1" "gget (jobs d') k2 = Some r2" "reserves r1" "reserves r2"
    "UniqueKey r1 = UniqueKey r2"
  from assms(2) [OF *(1,3)] assms(2) [OF *(2,4)] obtain s1 s2 where
    "gget (jobs d) k1 = Some s1" "reserves s1" "UniqueKey s1 = UniqueKey r1"
    "gget (jobs d) k2 = Some s2" "reserves s2" "UniqueKey s2 = UniqueKey r2" by blast
  with assms(1) *(5) show "k1 = k2" unfolding unique_inv_def by metis
qed

lemma unique_inv_frame: "unique_inv d \<Longrightarrow> jobs d' = jobs d \<Longrightarrow> unique_inv d'"
  by (simp add: unique_inv_def)

lemma unique_inv_put:
  assumes "unique_inv d" "gget (jobs d) k = Some r" "reserves r' \<longrightarrow> reserves r" "UniqueKey r' = UniqueKey r"
  shows "unique_inv (d\<lparr>jobs := gput k r' (jobs d)\<rparr>)"
  by (rule unique_inv_shrink [OF assms(1)]) (use assms in \<open>auto simp: gmap_simps split: if_splits\<close>)

lemma findUniqueJob_None:
  assumes "findUniqueJob u d = None" "mem_inv d" "gget (jobs d) k = Some r" "UniqueKey r = u"
  shows "\<not> reserves r"
proof -
  have "r \<in> set (gvals (jobs d))"
    unfolding gvals_iff [OF assms(2)] using assms(3) mem_invD(1) [OF assms(2,3)] by simp
  with assms(1,4) show ?thesis
    by (auto simp: findUniqueJob_def find_None_iff reserves_def)
qed

lemma unique_inv_insert_one:
  assumes "unique_inv d" "mem_inv d" "unat (seq d) + 1 < 2 ^ 64"
  shows "unique_inv (fst (insert_one t p d))"
proof (cases "inserts p d")
  case True
  let ?k = "mem_id (seq d + 1)"
  have get: "gget (jobs (fst (insert_one t p d))) k = (if k = ?k then Some (new_row ?k t p) else gget (jobs d) k)" for k
    by (simp add: insert_one_new [OF True] gmap_simps)
  have new: "\<not> reserves r"
    if "gget (jobs d) k = Some r" "UniqueKey r = ip_UniqueKey p" for k r
  proof (cases "ip_UniqueKey p = []")
    case False
    with True have "findUniqueJob (ip_UniqueKey p) d = None" by (simp add: inserts_def)
    from findUniqueJob_None [OF this assms(2) that] show ?thesis .
  qed (use that in \<open>simp add: reserves_def\<close>)
  show ?thesis
    unfolding unique_inv_def get
    using assms(1) new by (auto simp: unique_inv_def split: if_splits)
next
  case False
  with assms(1) show ?thesis by (simp add: insert_one_skip)
qed

lemma unique_inv_insert:
  assumes "unique_inv d" "mem_inv d" "unat (seq d) + length ps < 2 ^ 64"
  shows "unique_inv (fst (JobInsertMany clk ps d))"
proof -
  have "unique_inv (fst (JobInsertMany_loop clk i ps d))"
    if "unique_inv d" "mem_inv d" "unat (seq d) + length ps < 2 ^ 64" for i d
    using that
  proof (induction ps arbitrary: i d)
    case (Cons p ps)
    let ?d = "fst (insert_one (clk i) p d)"
    have room: "unat (seq d) + 1 < 2 ^ 64" using Cons.prems(3) by simp
    have "unique_inv (fst (JobInsertMany_loop clk (Suc i) ps ?d))"
      using Cons.prems seq_insert_one_le [OF room, of "clk i" p]
      by (intro Cons.IH unique_inv_insert_one mem_inv_insert_one) simp_all
    then show ?case by (simp add: split_beta Let_def)
  qed simp
  with assms show ?thesis by (simp add: JobInsertMany_def split_beta Let_def)
qed

lemma unique_inv_fetch:
  assumes "unique_inv d" "mem_inv d"
  shows "unique_inv (fst (JobFetchBatch t p d))"
proof (cases "queue_open (fp_Queue p) d")
  case True
  show ?thesis
  proof (rule unique_inv_shrink [OF assms(1)])
    fix k r' assume r': "gget (jobs (fst (JobFetchBatch t p d))) k = Some r'" "reserves r'"
    then obtain r where r: "gget (jobs d) k = Some r"
      "r' = (if promote t (fp_Queue p) r \<in> set (fetched_rows t p d)
             then claim t p (promote t (fp_Queue p) r) else promote t (fp_Queue p) r)"
      by (auto simp: fetch_gget [OF assms(2) True] Let_def)
    have "\<not> terminal (State r)" if "promote t (fp_Queue p) r \<in> set (fetched_rows t p d)"
    proof -
      have "State (promote t (fp_Queue p) r) = JobStateAvailable"
        using fetched_rows_stored [OF assms(2) that] by (auto simp: claimable_def)
      then show ?thesis using promote_same(10) [of t "fp_Queue p" r] by simp
    qed
    with r r'(2) show "\<exists>r. gget (jobs d) k = Some r \<and> reserves r \<and> UniqueKey r = UniqueKey r'"
      by (auto simp: reserves_iff split: if_splits)
  qed
next
  case False
  with assms(1) show ?thesis by (simp add: JobFetchBatch_eq)
qed

text \<open>
  Claim C2: at most one stored job reserves a given unique key (a non-terminal job, or any
  job for a permanent key). Every operation keeps this except the reschedule of a terminal
  job whose key is not permanent.
\<close>

theorem unique_key_reserved_once:
  assumes "mem_step s s'" "mem_inv (fst s)" "unique_inv (fst s)"
  shows "unique_inv (fst s') \<or>
    (\<exists>p r. fst s' = fst (JobReschedule p (fst s)) \<and> gget (jobs (fst s)) (rs_ID p) = Some r \<and>
       terminal (State r) \<and> \<not> IsPermanentUniqueKey (UniqueKey r))"
  using assms(1)
proof cases
  case (insert d ps ls clk)
  with assms show ?thesis by (simp add: unique_inv_insert)
next
  case (fetch d ls t p)
  with assms show ?thesis by (simp add: unique_inv_fetch)
next
  case (mark d ls mp)
  with assms show ?thesis
    by (auto simp: JobMarkStarted_def reserves_iff split: option.splits intro!: unique_inv_put)
next
  case (rescue d ls rp)
  have "unique_inv (fst (JobRescueStuck rp d))"
    by (rule unique_inv_shrink [of d])
       (use rescue assms(3) in \<open>auto simp: JobRescueStuck_def gmap_simps reserves_iff dest: stuck_running
          split: if_splits\<close>)
  with rescue show ?thesis by simp
next
  case (heartbeat d ls hp)
  with assms show ?thesis
    by (auto simp: JobHeartbeat_def Let_def reserves_iff split: option.splits intro!: unique_inv_put)
next
  case (set_state d ls clk sp)
  with assms show ?thesis
    by (auto simp: JobSetStateIfRunning_def reserves_iff split: option.splits intro!: unique_inv_put)
next
  case (cancel d ls t k')
  with assms show ?thesis
    by (auto simp: JobCancel_def reserves_iff split: option.splits intro!: unique_inv_put)
next
  case (delete d ls k')
  have "unique_inv (fst (JobDelete k' d))"
    by (rule unique_inv_shrink [of d])
       (use delete assms(3) in \<open>auto simp: JobDelete_def gmap_simps split: option.splits if_splits\<close>)
  with delete show ?thesis by simp
next
  case (reschedule d ls rsp)
  show ?thesis
  proof (cases "\<exists>r. gget (jobs d) (rs_ID rsp) = Some r \<and> terminal (State r) \<and>
      \<not> IsPermanentUniqueKey (UniqueKey r)")
    case True
    with reschedule show ?thesis by auto
  next
    case False
    with reschedule assms(3) have "unique_inv (fst (JobReschedule rsp d))"
      by (auto simp: JobReschedule_def reserves_iff split: option.splits intro!: unique_inv_put)
    with reschedule show ?thesis by simp
  qed
next
  case (listen i ls q d l' d' c)
  with assms(3) show ?thesis by (auto elim!: unique_inv_frame dest: listener_jobs)
next
  case (unlisten i ls q d l' d')
  with assms(3) show ?thesis by (auto elim!: unique_inv_frame dest: listener_jobs)
qed (use assms(3) in \<open>auto elim!: unique_inv_frame\<close>)

section \<open>A concrete store\<close>

text \<open>Two jobs of one queue, the second more urgent; the statements above are applied to it.\<close>

definition sample_job :: "int \<Rightarrow> string \<Rightarrow> JobInsertParams" where
  "sample_job prio key = \<lparr>ip_Queue = ''q'', ip_Kind = ''k'', ip_Args = ''{}'', ip_Priority = prio,
     ip_RunAt = 0, ip_UniqueKey = key, ip_MaxRetry = 3, ip_Timeout = 0, ip_Tags = [], ip_PipelineID = []\<rparr>"

definition sample_fetch :: FetchParams where
  "sample_fetch = \<lparr>fp_Queue = ''q'', fp_Limit = 1, fp_WorkerID = ''w'', fp_LeaseDuration = 50\<rparr>"

definition sample_mem :: mem where
  "sample_mem = fst (JobInsertMany (\<lambda>_. 1000) [sample_job 0 ''u'', sample_job 5 []] mem_New)"

definition sample_running :: mem where
  "sample_running = fst (JobFetchBatch 2000 sample_fetch sample_mem)"

definition sample_done :: JobSetStateParams where
  "sample_done = \<lparr>sp_ID = ''mem_2'', sp_State = JobStateCompleted, sp_Err = None, sp_Trace = None,
     sp_Attempt = 1, sp_RetryAt = 0, sp_ExpectedWorkerID = ''w'', sp_ExpectedAttempt = 1, sp_Yield = False\<rparr>"

definition sample_rescue :: JobRescueParams where
  "sample_rescue = \<lparr>rp_Queue = ''q'', rp_At = 3000, rp_Before = 0\<rparr>"

definition sample_beat :: JobHeartbeatParams where
  "sample_beat = \<lparr>hp_ID = ''mem_2'', hp_WorkerID = ''w'', hp_Attempt = 1, hp_At = 3000, hp_LeaseExpiresAt = 0\<rparr>"

definition sample_start :: JobMarkStartedParams where
  "sample_start = \<lparr>ms_ID = ''mem_2'', ms_WorkerID = ''w'', ms_Attempt = 1, ms_At = 3000\<rparr>"

lemma sample_mem_inv: "mem_inv sample_mem" "mem_inv sample_running"
  unfolding sample_mem_def sample_running_def
  by (intro mem_inv_JobFetchBatch mem_inv_JobInsertMany mem_inv_New; simp add: mem_New_def)+

lemma sample_open: "queue_open ''q'' sample_mem"
  by code_simp

theorem fetch_claims_in_order_witness:
  "map ID (snd (JobFetchBatch 2000 sample_fetch sample_mem)) = [''mem_2''] \<and>
   distinct (map ID (snd (JobFetchBatch 2000 sample_fetch sample_mem)))"
proof -
  obtain d' rows where *: "JobFetchBatch 2000 sample_fetch sample_mem = (d', rows)" by fastforce
  have "queue_open (fp_Queue sample_fetch) sample_mem" using sample_open by (simp add: sample_fetch_def)
  from fetch_claims_in_order [OF sample_mem_inv(1) this *] have "distinct (map ID rows)" by blast
  moreover have "map ID (snd (JobFetchBatch 2000 sample_fetch sample_mem)) = [''mem_2'']" by code_simp
  ultimately show ?thesis using * by simp
qed

theorem fetch_never_claims_twice_witness:
  "map ID (snd (JobFetchBatch 2000 sample_fetch sample_running)) = [''mem_1''] \<and>
   ID ` set (snd (JobFetchBatch 2000 sample_fetch sample_mem)) \<inter>
   ID ` set (snd (JobFetchBatch 2000 sample_fetch sample_running)) = {}"
proof -
  obtain rows d'' rows' where *: "JobFetchBatch 2000 sample_fetch sample_mem = (sample_running, rows)"
      "JobFetchBatch 2000 sample_fetch sample_running = (d'', rows')"
    by (metis sample_running_def prod.collapse)
  have "map ID (snd (JobFetchBatch 2000 sample_fetch sample_running)) = [''mem_1'']" by code_simp
  with fetch_never_claims_twice [OF sample_mem_inv(1) *] * show ?thesis by simp
qed

theorem rescued_claim_is_fenced_witness:
  "\<exists>e. JobSetStateIfRunning (\<lambda>_. 4000) sample_done (fst (JobRescueStuck sample_rescue sample_running)) =
     (fst (JobRescueStuck sample_rescue sample_running), Some e) \<and> errors_is e ErrStaleClaim"
proof -
  have row: "gget (jobs sample_running) ''mem_2'' = Some (the (gget (jobs sample_running) ''mem_2''))"
    by code_simp
  have "stuck sample_rescue (the (gget (jobs sample_running) ''mem_2''))" by code_simp
  moreover have "AttemptNum (the (gget (jobs sample_running) ''mem_2'')) = 1" by code_simp
  ultimately show ?thesis
    using rescued_claim_is_fenced [OF sample_mem_inv(2) row, of sample_rescue 1 "[]"
        "fst (JobRescueStuck sample_rescue sample_running)" "[]" sample_done sample_beat sample_start
        "\<lambda>_. 4000"]
    by (simp add: mem_steps.idle sample_done_def sample_beat_def sample_start_def)
qed

theorem terminal_row_is_final_witness:
  "\<exists>r. gget (jobs (fst (JobSetStateIfRunning (\<lambda>_. 3000) sample_done sample_running))) ''mem_2'' = Some r \<and>
     State r = JobStateCompleted \<and>
     gget (jobs (fst (JobFetchBatch 4000 sample_fetch
       (fst (JobSetStateIfRunning (\<lambda>_. 3000) sample_done sample_running))))) ''mem_2'' = Some r"
proof -
  let ?d = "fst (JobSetStateIfRunning (\<lambda>_. 3000) sample_done sample_running)"
  let ?d' = "fst (JobFetchBatch 4000 sample_fetch ?d)"
  have row: "gget (jobs ?d) ''mem_2'' = Some (the (gget (jobs ?d) ''mem_2''))" by code_simp
  have st: "State (the (gget (jobs ?d) ''mem_2'')) = JobStateCompleted" by code_simp
  have inv: "mem_inv (fst (?d, [] :: listener list))"
    using sample_mem_inv(2) by (simp add: mem_inv_JobSetState)
  have "gget (jobs ?d') ''mem_2'' \<noteq> None" by code_simp
  then have "?d' \<noteq> fst (JobDelete ''mem_2'' ?d)"
    using row by (auto simp: JobDelete_def gmap_simps split: option.splits)
  moreover have "State (the (gget (jobs ?d') ''mem_2'')) \<noteq> JobStateScheduled" by code_simp
  then have "?d' \<noteq> fst (JobReschedule p ?d)" if "rs_ID p = ''mem_2''" for p
    using that row by (auto simp: JobReschedule_def gmap_simps split: option.splits)
  moreover have "mem_step (?d, []) (?d', [])" by (rule mem_step.fetch)
  ultimately show ?thesis
    using terminal_row_is_final [of "(?d, [])" "(?d', [])" "''mem_2''" "the (gget (jobs ?d) ''mem_2'')"]
      inv row st by auto
qed

theorem unique_key_reserved_once_witness:
  "unique_inv sample_mem \<and> (let d = fst (JobInsertMany (\<lambda>_. 1000) [sample_job 0 ''u''] sample_mem) in
     unique_inv d \<and> length (jobs d) = 2)"
proof -
  let ?d = "fst (JobInsertMany (\<lambda>_. 1000) [sample_job 0 ''u''] sample_mem)"
  have u: "unique_inv mem_New" by (simp add: unique_inv_def mem_New_def)
  have s: "unique_inv sample_mem" unfolding sample_mem_def
    by (rule unique_inv_insert [OF u mem_inv_New]) (simp add: mem_New_def)
  have step: "mem_step (sample_mem, []) (?d, [])"
  proof (rule mem_step.insert)
    have "unat (seq sample_mem) = 2" by code_simp
    then show "unat (seq sample_mem) + length [sample_job 0 ''u''] < 2 ^ 64" by simp
  qed
  have same: "jobs ?d = jobs sample_mem" by code_simp
  have "unique_inv ?d \<or> (\<exists>p r. ?d = fst (JobReschedule p sample_mem) \<and>
       gget (jobs sample_mem) (rs_ID p) = Some r \<and> terminal (State r))"
    using unique_key_reserved_once [OF step] sample_mem_inv(1) s by auto
  then have "unique_inv ?d"
  proof (elim disjE)
    assume "\<exists>p r. ?d = fst (JobReschedule p sample_mem) \<and>
       gget (jobs sample_mem) (rs_ID p) = Some r \<and> terminal (State r)"
    then obtain p r where p: "jobs ?d = jobs (fst (JobReschedule p sample_mem))"
        "gget (jobs sample_mem) (rs_ID p) = Some r" "terminal (State r)" by auto
    from p(1,2) have "gget (jobs ?d) (rs_ID p) = Some (r\<lparr>RunAt := rs_RunAt p, State := JobStateScheduled\<rparr>)"
      by (simp add: JobReschedule_def gmap_simps)
    with p(2,3) same show ?thesis by (cases r) auto
  qed
  moreover have "length (jobs ?d) = 2" by code_simp
  ultimately show ?thesis using s by (simp add: Let_def)
qed

section \<open>Reachable stores\<close>

text \<open>
  Claim C33: in every store that the executor and listener methods can produce, rows are filed
  under their own ID, IDs are distinct and were issued by the counter, attempt numbers are
  never negative, a running row has an attempt and a claim time, every row's queue exists, and
  no method ever sends on a closed channel (which would panic).
\<close>

theorem reachable_store_is_well_formed:
  assumes "mem_reachable (d, ls)"
  shows "distinct (gkeys (jobs d)) \<and> \<not> panicked d \<and>
    (\<forall>k r. gget (jobs d) k = Some r \<longrightarrow>
       ID r = k \<and> (\<exists>i. 0 < i \<and> i \<le> unat (seq d) \<and> k = ''mem_'' @ nat_to_dec i) \<and>
       0 \<le> AttemptNum r \<and> (State r = JobStateRunning \<longrightarrow> 1 \<le> AttemptNum r \<and> AttemptedAt r \<noteq> None) \<and>
       gget (queues d) (Queue r) \<noteq> None) \<and>
    (\<forall>q cs c. gget (notify d) q = Some cs \<longrightarrow> c \<in> set cs \<longrightarrow>
       c < length (chans d) \<and> \<not> ch_closed (chans d ! c))"
proof -
  from mem_reachable_inv [OF assms] have "mem_inv d" "notify_inv d ls" by simp_all
  then show ?thesis
    by (auto simp: mem_inv_def notify_inv_def row_ok_def valid_id_def nset_def split: option.splits)
qed

theorem reachable_store_is_well_formed_witness:
  "\<not> panicked sample_mem \<and> distinct (gkeys (jobs sample_mem)) \<and> length (jobs sample_mem) = 2"
proof -
  have "mem_reachable (sample_mem, [])"
    unfolding sample_mem_def
    by (rule mem_reachable.step [OF mem_reachable.start], rule mem_step.insert) (simp add: mem_New_def)
  from reachable_store_is_well_formed [OF this] have "\<not> panicked sample_mem \<and> distinct (gkeys (jobs sample_mem))"
    by blast
  moreover have "length (jobs sample_mem) = 2" by code_simp
  ultimately show ?thesis by blast
qed

text \<open>
  The exception in the uniqueness of keys is real. Completing a job, enqueueing
  another under its (non-permanent) key and rescheduling the first leaves two pending jobs
  that reserve one key.
\<close>

theorem reschedule_revives_reserved_key:
  "\<exists>d ls a b. mem_reachable (d, ls) \<and> a \<noteq> b \<and>
     (\<exists>ra rb. gget (jobs d) a = Some ra \<and> gget (jobs d) b = Some rb \<and>
        UniqueKey ra = ''u'' \<and> UniqueKey rb = ''u'' \<and> \<not> terminal (State ra) \<and> \<not> terminal (State rb))"
proof -
  let ?d1 = "fst (JobInsertMany (\<lambda>_. 1000) [sample_job 0 ''u''] mem_New)"
  let ?d2 = "fst (JobFetchBatch 2000 sample_fetch ?d1)"
  let ?d3 = "fst (JobSetStateIfRunning (\<lambda>_. 3000) (sample_done\<lparr>sp_ID := ''mem_1''\<rparr>) ?d2)"
  let ?d4 = "fst (JobInsertMany (\<lambda>_. 4000) [sample_job 0 ''u''] ?d3)"
  let ?d5 = "fst (JobReschedule \<lparr>rs_ID = ''mem_1'', rs_RunAt = 5000\<rparr> ?d4)"
  have n: "unat (seq ?d3) = 1" by code_simp
  have "mem_reachable (?d1, [])"
    by (rule mem_reachable.step [OF mem_reachable.start], rule mem_step.insert) (simp add: mem_New_def)
  then have "mem_reachable (?d3, [])"
    by (intro mem_reachable.step [OF mem_reachable.step [OF _ mem_step.fetch] mem_step.set_state])
  then have "mem_reachable (?d5, [])"
    using n by (intro mem_reachable.step [OF mem_reachable.step [OF _ mem_step.insert] mem_step.reschedule]) simp_all
  moreover have "map_option (\<lambda>r. (UniqueKey r, State r)) (gget (jobs ?d5) ''mem_1'') = Some (''u'', JobStateScheduled)"
    by code_simp
  moreover have "map_option (\<lambda>r. (UniqueKey r, State r)) (gget (jobs ?d5) ''mem_2'') = Some (''u'', JobStateAvailable)"
    by code_simp
  ultimately show ?thesis
    by (intro exI [of _ ?d5] exI [of _ "[]"] exI [of _ "''mem_1''"] exI [of _ "''mem_2''"]) auto
qed

end
