(* ===== verification/Store_Interfaces.thy ===== *)
theory Store_Interfaces
  imports Memory_Properties
begin

text \<open>
  The two coordination interfaces of \<^verbatim>\<open>driver.Executor\<close> on which the rate limiter and the cron
  scheduler rely: expiring leases (\<^verbatim>\<open>LeaderAttemptElect\<close>, \<^verbatim>\<open>LeaderResign\<close>) and cursors advanced
  by compare-and-swap (\<^verbatim>\<open>ScheduleCursorGetOrCreate\<close>, \<^verbatim>\<open>ScheduleCursorAdvance\<close>). Each is a
  locale over one lease name or cursor ID; what clients need is proved once inside it, and both
  are interpreted on the in-memory driver.
\<close>

section \<open>Leases\<close>

text \<open>
  What participants do to one lease. \<open>Elsewhere\<close> is any store operation that leaves the lease
  alone. The ghost state maps a worker to the instant up to which its last successful election
  lets it act as leader.
\<close>

datatype 's lease_event = TryElect gotime string duration | Resigned string | Elsewhere "'s \<Rightarrow> 's"

fun lease_step :: "(gotime \<Rightarrow> string \<Rightarrow> duration \<Rightarrow> 's \<Rightarrow> 's \<times> bool) \<Rightarrow> (string \<Rightarrow> 's \<Rightarrow> 's) \<Rightarrow>
    's lease_event \<Rightarrow> 's \<times> (string \<Rightarrow> gotime option) \<Rightarrow> 's \<times> (string \<Rightarrow> gotime option)" where
  "lease_step elect resign (TryElect t w ttl) (s, b) =
     (let (s', ok) = elect t w ttl s in (s', if ok then b(w := Some (t + ttl)) else b))"
| "lease_step elect resign (Resigned w) (s, b) = (resign w s, b(w := None))"
| "lease_step elect resign (Elsewhere f) (s, b) = (f s, b)"

definition lease_run :: "(gotime \<Rightarrow> string \<Rightarrow> duration \<Rightarrow> 's \<Rightarrow> 's \<times> bool) \<Rightarrow> (string \<Rightarrow> 's \<Rightarrow> 's) \<Rightarrow>
    's lease_event list \<Rightarrow> 's \<Rightarrow> 's \<times> (string \<Rightarrow> gotime option)" where
  "lease_run elect resign evs s = fold (lease_step elect resign) evs (s, \<lambda>_. None)"

fun event_time :: "'s lease_event \<Rightarrow> gotime list" where
  "event_time (TryElect t w ttl) = [t]"
| "event_time (Resigned w) = []"
| "event_time (Elsewhere f) = []"

text \<open>
  What exclusion needs: a successful election takes a lease that is free, expired or already its
  own, and an unsuccessful one leaves it; a resignation gives up at most the own lease. A service
  that fails now and then promises no more.
\<close>

locale lease_service =
  fixes elect :: "gotime \<Rightarrow> string \<Rightarrow> duration \<Rightarrow> 's \<Rightarrow> 's \<times> bool"
    and resign :: "string \<Rightarrow> 's \<Rightarrow> 's"
    and lease :: "'s \<Rightarrow> (string \<times> gotime) option"
  assumes elect_won: "elect now w ttl s = (s', True) \<Longrightarrow>
      lease s' = Some (w, now + ttl) \<and> (\<forall>w' e. lease s = Some (w', e) \<longrightarrow> e \<le> now \<or> w' = w)"
    and elect_lost: "elect now w ttl s = (s', False) \<Longrightarrow> lease s' = lease s"
    and resigns: "lease (resign w s) = lease s \<or> lease (resign w s) = None \<and> (\<exists>e. lease s = Some (w, e))"
begin

text \<open>A worker whose belief has not run out is the stored holder.\<close>

definition believed :: "gotime \<Rightarrow> 's \<times> (string \<Rightarrow> gotime option) \<Rightarrow> bool" where
  "believed now sb \<longleftrightarrow> (\<forall>w e. snd sb w = Some e \<longrightarrow> now < e \<longrightarrow> lease (fst sb) = Some (w, e))"

lemma believed_later: "believed now sb \<Longrightarrow> now \<le> now' \<Longrightarrow> believed now' sb"
  by (auto simp: believed_def)

lemma believed_elect:
  assumes "believed t (s, b)"
  shows "believed t (lease_step elect resign (TryElect t w ttl) (s, b))"
proof -
  obtain s' ok where e: "elect t w ttl s = (s', ok)" by fastforce
  show ?thesis
  proof (cases ok)
    case True
    with elect_won [of t w ttl s s'] e have won: "lease s' = Some (w, t + ttl)"
      "\<forall>w' e. lease s = Some (w', e) \<longrightarrow> e \<le> t \<or> w' = w" by simp_all
    then show ?thesis using True e assms by (fastforce simp: believed_def)
  next
    case False
    with elect_lost [of t w ttl s s'] e assms show ?thesis by (simp add: believed_def)
  qed
qed

lemma believed_step:
  assumes "believed now (s, b)" "\<And>t. t \<in> set (event_time ev) \<Longrightarrow> t = now"
    and "\<And>f. ev = Elsewhere f \<Longrightarrow> lease (f s) = lease s"
  shows "believed now (lease_step elect resign ev (s, b))"
proof (cases ev)
  case (TryElect t w ttl)
  with assms believed_elect show ?thesis by simp
next
  case (Resigned w)
  with resigns [of w s] assms(1) show ?thesis by (auto simp: believed_def)
next
  case (Elsewhere f)
  with assms show ?thesis by (auto simp: believed_def)
qed

lemma believed_run:
  assumes "sorted (concat (map event_time evs) @ [now])"
    and "\<And>f s. Elsewhere f \<in> set evs \<Longrightarrow> lease (f s) = lease s"
    and "believed t0 (s, b)" "\<And>t. t \<in> set (concat (map event_time evs) @ [now]) \<Longrightarrow> t0 \<le> t"
  shows "believed now (fold (lease_step elect resign) evs (s, b))"
  using assms
proof (induction evs arbitrary: s b t0)
  case Nil
  then show ?case using believed_later by simp
next
  case (Cons ev evs)
  obtain s' b' where step: "lease_step elect resign ev (s, b) = (s', b')" by fastforce
  define t1 where "t1 = (case event_time ev of [] \<Rightarrow> t0 | t # _ \<Rightarrow> t)"
  have t01: "t0 \<le> t1" using Cons.prems(4) by (cases ev) (auto simp: t1_def)
  have later: "t1 \<le> t" if "t \<in> set (concat (map event_time evs) @ [now])" for t
    using that Cons.prems(1,4) by (cases ev) (auto simp: t1_def)
  have "believed t1 (s', b')"
    using believed_step [OF believed_later [OF Cons.prems(3) t01], of ev] step Cons.prems(2)
    by (cases ev) (auto simp: t1_def)
  then have "believed now (fold (lease_step elect resign) evs (s', b'))"
    using Cons.prems(1,2) later by (intro Cons.IH [of t1]) (auto simp: sorted_append)
  with step show ?case by simp
qed

text \<open>Two workers never believe at the same instant that they hold the lease.\<close>

lemma run_exclusive:
  assumes "sorted (concat (map event_time evs) @ [now])"
    and "\<And>f s. Elsewhere f \<in> set evs \<Longrightarrow> lease (f s) = lease s"
    and "snd (lease_run elect resign evs s) w = Some e" "now < e"
    and "snd (lease_run elect resign evs s) w' = Some e'" "now < e'"
  shows "w = w'"
proof -
  define t0 where "t0 = Min (set (concat (map event_time evs) @ [now]))"
  have "believed now (lease_run elect resign evs s)"
    unfolding lease_run_def
    by (rule believed_run [of evs now t0]) (use assms(1,2) in \<open>simp_all add: believed_def t0_def\<close>)
  then have "lease (fst (lease_run elect resign evs s)) = Some (w, e)"
      "lease (fst (lease_run elect resign evs s)) = Some (w', e')"
    using assms(3-) unfolding believed_def by blast+
  then show ?thesis by simp
qed

end

text \<open>A store that does not fail: an election is refused only while another worker holds the lease.\<close>

locale lease_store =
  fixes elect :: "gotime \<Rightarrow> string \<Rightarrow> duration \<Rightarrow> 's \<Rightarrow> 's \<times> bool"
    and resign :: "string \<Rightarrow> 's \<Rightarrow> 's"
    and lease :: "'s \<Rightarrow> (string \<times> gotime) option"
  assumes elect_refused:
      "lease s = Some (w', e) \<Longrightarrow> now < e \<Longrightarrow> w' \<noteq> w \<Longrightarrow> elect now w ttl s = (s, False)"
    and elect_granted:
      "(\<And>w' e. lease s = Some (w', e) \<Longrightarrow> e \<le> now \<or> w' = w) \<Longrightarrow>
        snd (elect now w ttl s) \<and> lease (fst (elect now w ttl s)) = Some (w, now + ttl)"
    and resign_own: "lease s = Some (w, e) \<Longrightarrow> lease (resign w s) = None"
    and resign_other: "(\<And>e. lease s \<noteq> Some (w, e)) \<Longrightarrow> lease (resign w s) = lease s"
begin

text \<open>A lease that ran out never blocks anyone.\<close>

lemma expired_is_free:
  assumes "lease s = Some (w', e)" "e \<le> now"
  shows "snd (elect now w ttl s)"
  using elect_granted [of s now w ttl] assms by auto

end

sublocale lease_store \<subseteq> lease_service elect resign lease
proof unfold_locales
  fix now w ttl s s'
  have allowed: "e \<le> now \<or> w' = w" if "elect now w ttl s = (s', True)" "lease s = Some (w', e)" for w' e
    using elect_refused [OF that(2), of now w ttl] that(1) by force
  show "lease s' = Some (w, now + ttl) \<and> (\<forall>w' e. lease s = Some (w', e) \<longrightarrow> e \<le> now \<or> w' = w)"
    if won: "elect now w ttl s = (s', True)"
    using elect_granted [of s now w ttl] allowed [OF won] won by force
  show "lease s' = lease s" if lost: "elect now w ttl s = (s', False)"
  proof -
    obtain w' e where "lease s = Some (w', e)" "\<not> (e \<le> now \<or> w' = w)" using elect_granted [of s now w ttl] lost by force
    then show ?thesis using elect_refused [of s w' e now w ttl] lost by simp
  qed
next
  fix w s
  show "lease (resign w s) = lease s \<or> lease (resign w s) = None \<and> (\<exists>e. lease s = Some (w, e))"
    using resign_own resign_other by blast
qed

section \<open>Cursors\<close>

text \<open>A sequence of compare-and-swap attempts and those that won.\<close>

fun cas_run :: "(gotime \<Rightarrow> gotime \<Rightarrow> 's \<Rightarrow> 's \<times> bool) \<Rightarrow> (gotime \<times> gotime) list \<Rightarrow> 's \<Rightarrow>
    's \<times> (gotime \<times> gotime) list" where
  "cas_run advance [] s = (s, [])"
| "cas_run advance ((e, n) # as) s =
     (let (s', ok) = advance e n s; (s'', ws) = cas_run advance as s'
      in (s'', if ok then (e, n) # ws else ws))"

text \<open>A chain of cursor moves: each starts where the previous one ended.\<close>

fun cas_chain :: "gotime \<Rightarrow> (gotime \<times> gotime) list \<Rightarrow> gotime \<Rightarrow> bool" where
  "cas_chain c [] c' \<longleftrightarrow> c = c'"
| "cas_chain c ((e, n) # ws) c' \<longleftrightarrow> e = c \<and> cas_chain n ws c'"

lemma cas_chain_le:
  assumes "cas_chain c ws c'" "\<forall>(e, n)\<in>set ws. e < n"
  shows "c \<le> c' \<and> (\<forall>(e, n)\<in>set ws. c \<le> e \<and> n \<le> c')"
  using assms by (induction c ws c' rule: cas_chain.induct) fastforce+

lemma cas_chain_distinct:
  assumes "cas_chain c ws c'" "\<forall>(e, n)\<in>set ws. e < n"
  shows "sorted_wrt (<) (map fst ws)"
  using assms
proof (induction c ws c' rule: cas_chain.induct)
  case (2 c e n ws c')
  with cas_chain_le [of n ws c'] show ?case by fastforce
qed simp

locale cursor_store =
  fixes get_or_create :: "gotime \<Rightarrow> 's \<Rightarrow> 's \<times> ScheduleCursorResult"
    and advance :: "gotime \<Rightarrow> gotime \<Rightarrow> 's \<Rightarrow> 's \<times> bool"
    and cursor :: "'s \<Rightarrow> gotime option"
  assumes get_existing:
      "cursor s = Some at \<Longrightarrow> get_or_create i s = (s, \<lparr>cr_At = at, cr_Created = False\<rparr>)"
    and get_fresh: "cursor s = None \<Longrightarrow>
        snd (get_or_create i s) = \<lparr>cr_At = i, cr_Created = True\<rparr> \<and> cursor (fst (get_or_create i s)) = Some i"
    and advance_hit: "cursor s = Some e \<Longrightarrow> snd (advance e n s) \<and> cursor (fst (advance e n s)) = Some n"
    and advance_miss: "cursor s \<noteq> Some e \<Longrightarrow> advance e n s = (s, False)"
begin

lemma get_reads:
  "cursor (fst (get_or_create i s)) = Some (cr_At (snd (get_or_create i s)))"
  by (cases "cursor s") (simp_all add: get_existing get_fresh)

lemma cas_run_chain:
  assumes "cursor s = Some c" "cas_run advance as s = (s', ws)"
  shows "\<exists>c'. cursor s' = Some c' \<and> cas_chain c ws c' \<and> set ws \<subseteq> set as"
  using assms
proof (induction as arbitrary: s c ws)
  case (Cons a as)
  obtain e n where a: "a = (e, n)" by fastforce
  obtain s1 ok where adv: "advance e n s = (s1, ok)" by fastforce
  obtain ws1 where rest: "cas_run advance as s1 = (s', ws1)"
    using Cons.prems(2) by (simp add: a adv split_beta Let_def) (metis prod.collapse)
  have ws: "ws = (if ok then (e, n) # ws1 else ws1)" using Cons.prems(2) by (simp add: a adv rest)
  show ?case
  proof (cases "c = e")
    case True
    with Cons.prems(1) advance_hit [of s e n] adv have "ok" "cursor s1 = Some n" by simp_all
    with Cons.IH [OF \<open>cursor s1 = Some n\<close> rest] True show ?thesis
      by (auto simp: a ws)
  next
    case False
    with Cons.prems(1) advance_miss [of s e n] adv have "\<not> ok" "s1 = s" by simp_all
    with Cons.IH [OF _ rest] Cons.prems(1) show ?thesis by (auto simp: a ws)
  qed
qed simp

text \<open>When moves go forward, no instant is won twice.\<close>

lemma cas_winners_distinct:
  assumes "cursor s = Some c" "cas_run advance as s = (s', ws)" "\<forall>(e, n)\<in>set as. e < n"
  shows "sorted_wrt (<) (map fst ws)"
proof -
  obtain c' where "cas_chain c ws c'" "set ws \<subseteq> set as" using cas_run_chain [OF assms(1,2)] by blast
  with assms(3) show ?thesis by (blast intro: cas_chain_distinct)
qed

end

section \<open>The in-memory driver provides both\<close>

definition mem_elect :: "string \<Rightarrow> gotime \<Rightarrow> string \<Rightarrow> duration \<Rightarrow> mem \<Rightarrow> mem \<times> bool" where
  "mem_elect name now w ttl d = LeaderAttemptElect now \<lparr>le_Name = name, le_WorkerID = w, le_TTL = ttl\<rparr> d"

definition mem_resign :: "string \<Rightarrow> string \<Rightarrow> mem \<Rightarrow> mem" where
  "mem_resign name w d = LeaderResign \<lparr>lr_Name = name, lr_WorkerID = w\<rparr> d"

definition mem_lease :: "string \<Rightarrow> mem \<Rightarrow> (string \<times> gotime) option" where
  "mem_lease name d = map_option (\<lambda>l. (ml_workerID l, ml_expiresAt l)) (gget (leaders d) name)"

interpretation mem_leases: lease_store "mem_elect name" "mem_resign name" "mem_lease name" for name
  by unfold_locales
     (auto simp: mem_elect_def mem_resign_def mem_lease_def LeaderAttemptElect_def LeaderResign_def
        gmap_simps Let_def split: option.splits)

definition mem_cursor_get :: "string \<Rightarrow> gotime \<Rightarrow> mem \<Rightarrow> mem \<times> ScheduleCursorResult" where
  "mem_cursor_get key i d = ScheduleCursorGetOrCreate \<lparr>cc_ID = key, cc_InitialAt = i\<rparr> d"

definition mem_cursor_advance :: "string \<Rightarrow> gotime \<Rightarrow> gotime \<Rightarrow> mem \<Rightarrow> mem \<times> bool" where
  "mem_cursor_advance key e n d = ScheduleCursorAdvance \<lparr>ca_ID = key, ca_Expected = e, ca_Next = n\<rparr> d"

definition mem_cursor :: "string \<Rightarrow> mem \<Rightarrow> gotime option" where
  "mem_cursor key d = gget (cursors d) key"

interpretation mem_cursors: cursor_store "mem_cursor_get key" "mem_cursor_advance key" "mem_cursor key" for key
  by unfold_locales
     (auto simp: mem_cursor_get_def mem_cursor_advance_def mem_cursor_def ScheduleCursorGetOrCreate_def
        ScheduleCursorAdvance_def gmap_simps split: option.splits)

text \<open>No job or queue operation touches leases or cursors; another name's election is elsewhere.\<close>

lemma insert_one_coordination:
  "leaders (fst (insert_one t p d)) = leaders d" "cursors (fst (insert_one t p d)) = cursors d"
proof -
  have send: "leaders (try_send c q x) = leaders x \<and> cursors (try_send c q x) = cursors x" for c q x
    by (simp add: try_send_def Let_def)
  have "leaders (fold (\<lambda>c. try_send c q) cs x) = leaders x \<and> cursors (fold (\<lambda>c. try_send c q) cs x) = cursors x"
    for cs q x by (induction cs arbitrary: x) (simp_all add: send)
  then show "leaders (fst (insert_one t p d)) = leaders d" "cursors (fst (insert_one t p d)) = cursors d"
    by (simp_all add: insert_one_def broadcastNotify_def ensureQueue_def Let_def split: option.splits)
qed

lemma insert_many_coordination:
  "leaders (fst (JobInsertMany clk ps d)) = leaders d \<and> cursors (fst (JobInsertMany clk ps d)) = cursors d"
proof -
  have "leaders (fst (JobInsertMany_loop clk i ps d)) = leaders d \<and>
        cursors (fst (JobInsertMany_loop clk i ps d)) = cursors d" for i
    by (induction ps arbitrary: d i) (simp_all add: split_beta Let_def insert_one_coordination)
  then show ?thesis by (simp add: JobInsertMany_def split_beta Let_def)
qed

lemma job_ops_coordination:
  "mem_lease n (fst (JobInsertMany clk ps d)) = mem_lease n d"
  "mem_lease n (fst (JobFetchBatch t p d)) = mem_lease n d"
  "mem_lease n (fst (JobSetStateIfRunning clk sp d)) = mem_lease n d"
  "mem_lease n (fst (JobRescueStuck rp d)) = mem_lease n d"
  "mem_lease n (fst (ScheduleCursorAdvance ap d)) = mem_lease n d"
  "n' \<noteq> n \<Longrightarrow> mem_lease n (fst (mem_elect n' t w ttl d)) = mem_lease n d"
  "n' \<noteq> n \<Longrightarrow> mem_lease n (mem_resign n' w d) = mem_lease n d"
  by (auto simp: mem_lease_def insert_many_coordination JobFetchBatch_def JobSetStateIfRunning_def
      JobRescueStuck_def ScheduleCursorAdvance_def mem_elect_def LeaderAttemptElect_def mem_resign_def
      LeaderResign_def gmap_simps Let_def split: option.splits)

section \<open>Properties\<close>

text \<open>
  Claim C6: leader election is exclusive. Over any history of elections, renewals and
  resignations of one lease, interleaved with operations that leave that lease alone, with
  clock readings that do not go back, two different workers are never both inside the term of
  their last successful election.
\<close>

theorem lease_mutual_exclusion:
  assumes "sorted (concat (map event_time evs) @ [now])"
    and "\<forall>f s. Elsewhere f \<in> set evs \<longrightarrow> mem_lease name (f s) = mem_lease name s"
    and "snd (lease_run (mem_elect name) (mem_resign name) evs d) w = Some e" "now < e"
    and "snd (lease_run (mem_elect name) (mem_resign name) evs d) w' = Some e'" "now < e'"
  shows "w = w'"
  using mem_leases.run_exclusive [where name = name, OF assms(1) _ assms(3-6)] assms(2) by blast

theorem lease_mutual_exclusion_witness:
  "let evs = [TryElect 10 ''a'' 5, Elsewhere (LeaderResign \<lparr>lr_Name = ''other'', lr_WorkerID = ''a''\<rparr>),
              TryElect 12 ''b'' 5, TryElect 16 ''b'' 5];
       b = snd (lease_run (mem_elect ''n'') (mem_resign ''n'') evs mem_New)
   in b ''a'' = Some 15 \<and> b ''b'' = Some 21 \<and> (\<forall>w e. b w = Some e \<longrightarrow> 17 < e \<longrightarrow> w = ''b'')"
proof -
  let ?o = "LeaderResign \<lparr>lr_Name = ''other'', lr_WorkerID = ''a''\<rparr>"
  let ?evs = "[TryElect 10 ''a'' 5, Elsewhere ?o, TryElect 12 ''b'' 5, TryElect 16 ''b'' 5]"
  let ?b = "snd (lease_run (mem_elect ''n'') (mem_resign ''n'') ?evs mem_New)"
  have o: "\<forall>f s. Elsewhere f \<in> set ?evs \<longrightarrow> mem_lease ''n'' (f s) = mem_lease ''n'' s"
    using job_ops_coordination(7) [of "''other''" "''n''" "''a''"] by (auto simp: mem_resign_def)
  have a: "?b ''a'' = Some 15" by code_simp
  have b: "?b ''b'' = Some 21" by code_simp
  have "w = ''b''" if "?b w = Some e" "17 < e" for w e
    using lease_mutual_exclusion [of ?evs 17 "''n''" mem_New w e "''b''" 21] o that b by simp
  with a b show ?thesis by (simp only: Let_def) blast
qed

text \<open>
  Compare-and-swap on a schedule cursor has one winner per position. Of any sequence
  of attempts to move one cursor forward, the successful ones form a chain from its first to
  its last position, so no position is left twice.
\<close>

theorem cursor_advance_single_winner:
  assumes "mem_cursor key d = Some c" "cas_run (mem_cursor_advance key) as d = (d', ws)"
    and "\<forall>(e, n)\<in>set as. e < n"
  shows "distinct (map fst ws) \<and> set ws \<subseteq> set as \<and>
    (\<exists>c'. mem_cursor key d' = Some c' \<and> cas_chain c ws c')"
  using mem_cursors.cas_run_chain [OF assms(1,2)] mem_cursors.cas_winners_distinct [OF assms]
    strict_sorted_iff by blast

theorem cursor_advance_single_winner_witness:
  "distinct (map fst (snd (cas_run (mem_cursor_advance ''c'') [(5, 8), (5, 9), (8, 9)]
     (fst (mem_cursor_get ''c'' 5 mem_New))))) \<and>
   snd (cas_run (mem_cursor_advance ''c'') [(5, 8), (5, 9), (8, 9)]
     (fst (mem_cursor_get ''c'' 5 mem_New))) = [(5, 8), (8, 9)]"
proof -
  let ?d = "fst (mem_cursor_get ''c'' 5 mem_New)"
  have "mem_cursor ''c'' ?d = Some 5" by code_simp
  moreover obtain d' ws where r: "cas_run (mem_cursor_advance ''c'') [(5, 8), (5, 9), (8, 9)] ?d = (d', ws)"
    by fastforce
  moreover have "snd (cas_run (mem_cursor_advance ''c'') [(5, 8), (5, 9), (8, 9)] ?d) = [(5, 8), (8, 9)]"
    by code_simp
  ultimately show ?thesis
    using cursor_advance_single_winner [of "''c''" ?d 5 "[(5, 8), (5, 9), (8, 9)]" d' ws] by simp
qed

end
