(* ===== verification/Rate_Limit.thy ===== *)
theory Rate_Limit
  imports Store_Interfaces Float64
begin

text \<open>
  The distributed rate limiter (\<^verbatim>\<open>driver/rate_limit.go\<close>): GCRA and fixed windows, both kept in
  one cursor advanced by compare-and-swap. \<open>env i\<close> is what other participants do to the store
  before the \<open>i\<close>-th store call of this participant and \<open>ctx i\<close> the error of the context after
  round \<open>i\<close>; the loops retry while they lose the race, so they are partial functions.
\<close>

section \<open>Parameters and stores\<close>

datatype RateLimitMode = RateLimitModeGCRA | RateLimitModeFixedWindow | RateLimitModeOther nat

record RateLimitAcquireParams =
  ra_Key :: string
  ra_Now :: gotime
  ra_Limit :: int
  ra_Period :: duration
  ra_Burst :: int
  ra_Mode :: RateLimitMode

record RateLimitAcquireResult =
  rr_Acquired :: bool
  rr_RetryAt :: gotime

definition acquired :: RateLimitAcquireResult where
  "acquired = \<lparr>rr_Acquired = True, rr_RetryAt = 0\<rparr>"

definition refused :: "gotime \<Rightarrow> RateLimitAcquireResult" where
  "refused t = \<lparr>rr_Acquired = False, rr_RetryAt = t\<rparr>"

text \<open>
  The interface \<^verbatim>\<open>rateLimitCursorStore\<close>, with the optional \<^verbatim>\<open>RateLimitAcquirer\<close> a driver may
  also implement.
\<close>

record 's cursor_ops =
  co_get :: "ScheduleCursorCreateParams \<Rightarrow> 's \<Rightarrow> 's \<times> ScheduleCursorResult res"
  co_advance :: "ScheduleCursorAdvanceParams \<Rightarrow> 's \<Rightarrow> 's \<times> bool res"
  co_native :: "(RateLimitAcquireParams \<Rightarrow> 's \<Rightarrow> 's \<times> RateLimitAcquireResult res) option"

section \<open>Intervals\<close>

text \<open>
  Conversion of a float64 to \<^verbatim>\<open>int64\<close>; out of range it is the value amd64 produces, reached
  only for a period within 512 nanoseconds of the largest duration and a limit of one.
\<close>

definition to_int64 :: "rat \<Rightarrow> int" where
  "to_int64 x = (if is_duration (trunc x) then trunc x else min_duration)"

definition rateInterval :: "duration \<Rightarrow> int \<Rightarrow> duration" where
  "rateInterval period limit =
     (let interval = to_int64 (fl (float64 period / float64 limit))
      in if interval < Nanosecond then Nanosecond else interval)"

definition multiplyDuration :: "duration \<Rightarrow> int \<Rightarrow> duration" where
  "multiplyDuration d multiplier =
     (if multiplier \<le> 0 then 0
      else if d > max_duration div multiplier then max_duration
      else d * multiplier)"

definition countUnit :: duration where
  "countUnit = Millisecond"

section \<open>Decisions\<close>

text \<open>
  What a round does after it has read the cursor: refuse, or try to move the cursor to a new
  position.
\<close>

datatype rate_decision = Refuse gotime | TryMove gotime | Granted

definition gcra_decide :: "duration \<Rightarrow> duration \<Rightarrow> gotime \<Rightarrow> ScheduleCursorResult \<Rightarrow> rate_decision" where
  "gcra_decide interval tolerance now cursor =
     (let retryAt = cr_At cursor + (- tolerance)
      in if now < retryAt then Refuse retryAt
         else let base = (if cr_At cursor < now then now else cr_At cursor)
              in TryMove (base + interval))"

definition fixed_decide :: "int \<Rightarrow> duration \<Rightarrow> gotime \<Rightarrow> ScheduleCursorResult \<Rightarrow> rate_decision" where
  "fixed_decide limit period now cursor =
     (let window = time_truncate now period;
          initial = window + countUnit
      in if cr_Created cursor then Granted
         else let cursorWindow = time_truncate (cr_At cursor) period;
                  count = time_sub (cr_At cursor) cursorWindow div countUnit
              in if cursorWindow \<noteq> window then TryMove initial
                 else if count \<ge> limit then Refuse (window + period)
                 else TryMove (cr_At cursor + countUnit))"

text \<open>
  The retry loop. A lost race in the fixed-window branch that starts a new window continues at
  once (\<^verbatim>\<open>continue\<close>), the others look at the context first: \<open>checks\<close> says which.
\<close>

partial_function (option) rate_loop ::
  "'s cursor_ops \<Rightarrow> (nat \<Rightarrow> 's \<Rightarrow> 's) \<Rightarrow> (nat \<Rightarrow> goerr option) \<Rightarrow> string \<Rightarrow> gotime \<Rightarrow>
   (ScheduleCursorResult \<Rightarrow> rate_decision) \<Rightarrow> (ScheduleCursorResult \<Rightarrow> bool) \<Rightarrow> nat \<Rightarrow> 's \<Rightarrow>
   ('s \<times> RateLimitAcquireResult res) option" where
  "rate_loop ops env ctx key initial decide checks i s =
     (case co_get ops \<lparr>cc_ID = key, cc_InitialAt = initial\<rparr> (env (2 * i) s) of
        (s1, got) \<Rightarrow>
          (case got of
             Inl e \<Rightarrow> Some (s1, Inl e)
           | Inr cursor \<Rightarrow>
               (case decide cursor of
                  Refuse t \<Rightarrow> Some (s1, Inr (refused t))
                | Granted \<Rightarrow> Some (s1, Inr acquired)
                | TryMove nxt \<Rightarrow>
                    (case co_advance ops \<lparr>ca_ID = key, ca_Expected = cr_At cursor, ca_Next = nxt\<rparr>
                            (env (2 * i + 1) s1) of
                       (s2, adv) \<Rightarrow>
                         (case adv of
                            Inl e \<Rightarrow> Some (s2, Inl e)
                          | Inr advanced \<Rightarrow>
                              if advanced then Some (s2, Inr acquired)
                              else if checks cursor then
                                (case ctx i of
                                   Some e \<Rightarrow> Some (s2, Inl e)
                                 | None \<Rightarrow> rate_loop ops env ctx key initial decide checks (Suc i) s2)
                              else rate_loop ops env ctx key initial decide checks (Suc i) s2)))))"

declare rate_loop.simps [code]

definition same_window :: "duration \<Rightarrow> gotime \<Rightarrow> ScheduleCursorResult \<Rightarrow> bool" where
  "same_window period now cursor \<longleftrightarrow> time_truncate (cr_At cursor) period = time_truncate now period"

definition acquireFixedWindow ::
  "'s cursor_ops \<Rightarrow> (nat \<Rightarrow> 's \<Rightarrow> 's) \<Rightarrow> (nat \<Rightarrow> goerr option) \<Rightarrow> RateLimitAcquireParams \<Rightarrow> 's \<Rightarrow>
   ('s \<times> RateLimitAcquireResult res) option" where
  "acquireFixedWindow ops env ctx p s =
     (if ra_Limit p \<ge> ra_Period p div countUnit
      then Some (s, Inl (Errorf ''fixed-window limit must be smaller than period milliseconds''))
      else rate_loop ops env ctx (ra_Key p) (time_truncate (ra_Now p) (ra_Period p) + countUnit)
             (fixed_decide (ra_Limit p) (ra_Period p) (ra_Now p))
             (same_window (ra_Period p) (ra_Now p)) 0 s)"

definition effective_burst :: "RateLimitAcquireParams \<Rightarrow> int" where
  "effective_burst p = (if ra_Burst p \<le> 0 then 1 else ra_Burst p)"

definition AcquireRateLimit ::
  "'s cursor_ops \<Rightarrow> (nat \<Rightarrow> 's \<Rightarrow> 's) \<Rightarrow> (nat \<Rightarrow> goerr option) \<Rightarrow> RateLimitAcquireParams \<Rightarrow> 's \<Rightarrow>
   ('s \<times> RateLimitAcquireResult res) option" where
  "AcquireRateLimit ops env ctx p s =
     (case co_native ops of
        Some native \<Rightarrow> Some (native p s)
      | None \<Rightarrow>
          if ra_Key p = [] \<or> ra_Limit p \<le> 0 \<or> ra_Period p \<le> 0
          then Some (s, Inl (Errorf ''invalid rate-limit parameters''))
          else
            let burst = effective_burst p
            in if burst > ra_Limit p
               then Some (s, Inl (Errorf (''rate-limit burst '' @ Itoa burst @ '' exceeds limit '' @ Itoa (ra_Limit p))))
               else if ra_Mode p = RateLimitModeFixedWindow
               then acquireFixedWindow ops env ctx (p\<lparr>ra_Burst := burst\<rparr>) s
               else (case ra_Mode p of
                  RateLimitModeOther m \<Rightarrow>
                    Some (s, Inl (Errorf (''unknown rate-limit mode '' @ nat_to_dec m)))
                | _ \<Rightarrow>
                    (let interval = rateInterval (ra_Period p) (ra_Limit p);
                         tolerance = multiplyDuration interval (burst - 1)
                     in rate_loop ops env ctx (ra_Key p) (ra_Now p)
                          (gcra_decide interval tolerance (ra_Now p)) (\<lambda>_. True) 0 s)))"

text \<open>The operations of the in-memory driver, which never fail, as such a store.\<close>

definition cursor_ops_of :: "(string \<Rightarrow> gotime \<Rightarrow> 's \<Rightarrow> 's \<times> ScheduleCursorResult) \<Rightarrow>
    (string \<Rightarrow> gotime \<Rightarrow> gotime \<Rightarrow> 's \<Rightarrow> 's \<times> bool) \<Rightarrow> 's cursor_ops" where
  "cursor_ops_of get adv =
     \<lparr>co_get = (\<lambda>p s. let (s', r) = get (cc_ID p) (cc_InitialAt p) s in (s', Inr r)),
      co_advance = (\<lambda>p s. let (s', b) = adv (ca_ID p) (ca_Expected p) (ca_Next p) s in (s', Inr b)),
      co_native = None\<rparr>"

definition mem_ops :: "mem cursor_ops" where
  "mem_ops = cursor_ops_of mem_cursor_get mem_cursor_advance"

section \<open>Interval arithmetic\<close>

lemma rateInterval_pos: "1 \<le> rateInterval period limit"
  by (simp add: rateInterval_def Let_def)

lemma float64_exact: "\<bar>n\<bar> \<le> 2 ^ 53 \<Longrightarrow> float64 n = of_int n"
  by (simp add: float64_def fl_of_int)

lemma rateInterval_exact:
  assumes "0 < period" "period < 2 ^ 53" "0 < limit" "limit \<le> 2 ^ 53"
  shows "rateInterval period limit = max 1 (period div limit)"
proof -
  have "trunc (fl (float64 period / float64 limit)) = period div limit"
    using assms by (simp add: float64_exact trunc_fl_divide)
  moreover have "0 \<le> period div limit" "period div limit \<le> period"
    using assms zdiv_mono2 [of period 1 limit] by (simp_all add: pos_imp_zdiv_nonneg_iff)
  then have "is_duration (period div limit)"
    using assms(2) by (simp add: is_duration_def min_duration_def max_duration_def)
  ultimately show ?thesis by (simp add: rateInterval_def to_int64_def Let_def max_def)
qed

lemma multiplyDuration_bounds:
  assumes "0 \<le> d" "0 \<le> m"
  shows "0 \<le> multiplyDuration d m" "multiplyDuration d m \<le> d * m"
    and "d \<le> max_duration \<Longrightarrow> multiplyDuration d m = min max_duration (d * m)"
proof -
  have big: "max_duration \<le> d * m" if "max_duration div m < d" "0 < m"
  proof -
    have "max_duration < (max_duration div m + 1) * m"
      using that(2) div_mult_mod_eq [of max_duration m] pos_mod_bound [OF that(2), of max_duration]
      by (simp only: distrib_right)
    also have "\<dots> \<le> d * m" using that by (intro mult_right_mono) simp_all
    finally show ?thesis by simp
  qed
  have small: "d * m \<le> max_duration" if "\<not> max_duration div m < d" "0 < m"
  proof -
    have "d * m \<le> (max_duration div m) * m" using that by (intro mult_right_mono) simp_all
    also have "\<dots> \<le> max_duration"
      using div_mult_mod_eq [of max_duration m] pos_mod_sign [OF that(2), of max_duration] by linarith
    finally show ?thesis .
  qed
  have m: "0 \<le> max_duration" by (simp add: max_duration_def)
  show "0 \<le> multiplyDuration d m" "multiplyDuration d m \<le> d * m"
    and "d \<le> max_duration \<Longrightarrow> multiplyDuration d m = min max_duration (d * m)"
    using assms big small m by (auto simp: multiplyDuration_def min_def)
qed

section \<open>One participant\<close>

text \<open>The answer to a decision that meets no competition, and the cursor it leaves.\<close>

definition answer :: "rate_decision \<Rightarrow> RateLimitAcquireResult" where
  "answer x = (case x of Refuse t \<Rightarrow> refused t | TryMove n \<Rightarrow> acquired | Granted \<Rightarrow> acquired)"

definition moved :: "rate_decision \<Rightarrow> gotime \<Rightarrow> gotime" where
  "moved x c = (case x of Refuse t \<Rightarrow> c | TryMove n \<Rightarrow> n | Granted \<Rightarrow> c)"

text \<open>Cursors of many keys, as a store offers them.\<close>

locale keyed_cursors =
  fixes get :: "string \<Rightarrow> gotime \<Rightarrow> 's \<Rightarrow> 's \<times> ScheduleCursorResult"
    and adv :: "string \<Rightarrow> gotime \<Rightarrow> gotime \<Rightarrow> 's \<Rightarrow> 's \<times> bool"
    and cursor_at :: "string \<Rightarrow> 's \<Rightarrow> gotime option"
  assumes keyed: "cursor_store (get key) (adv key) (cursor_at key)"

sublocale keyed_cursors \<subseteq> cs: cursor_store "get key" "adv key" "cursor_at key" for key
  by (rule keyed)

context keyed_cursors
begin

text \<open>Alone on the store, a participant is done after one round.\<close>

lemma rate_loop_once:
  assumes g: "get key initial s = (s1, r)"
  shows "rate_loop (cursor_ops_of get adv) (\<lambda>_. id) ctx key initial decide checks 0 s =
    Some (case decide r of
        Refuse t \<Rightarrow> (s1, Inr (refused t))
      | Granted \<Rightarrow> (s1, Inr acquired)
      | TryMove nxt \<Rightarrow> (fst (adv key (cr_At r) nxt s1), Inr acquired))"
proof -
  have "cursor_at key s1 = Some (cr_At r)" using cs.get_reads [of key initial s] g by simp
  then have "snd (adv key (cr_At r) nxt s1)" for nxt using cs.advance_hit by blast
  then show ?thesis
    by (subst rate_loop.simps) (simp add: cursor_ops_of_def g split_beta split: rate_decision.splits)
qed

lemma rate_loop_result:
  assumes "r = (case cursor_at key s of None \<Rightarrow> \<lparr>cr_At = initial, cr_Created = True\<rparr>
                | Some c \<Rightarrow> \<lparr>cr_At = c, cr_Created = False\<rparr>)"
  shows "\<exists>s'. rate_loop (cursor_ops_of get adv) (\<lambda>_. id) ctx key initial decide checks 0 s =
      Some (s', Inr (answer (decide r))) \<and> cursor_at key s' = Some (moved (decide r) (cr_At r))"
proof -
  obtain s1 where g: "get key initial s = (s1, r)" and c: "cursor_at key s1 = Some (cr_At r)"
  proof (cases "cursor_at key s")
    case None
    then show thesis using that cs.get_fresh [OF None, of initial] assms
      by (metis prod.collapse option.simps(4) ScheduleCursorResult.select_convs(1))
  next
    case (Some c)
    then show thesis using that cs.get_existing [OF Some, of initial] assms by simp
  qed
  show ?thesis
    using rate_loop_once [OF g, of ctx decide checks] cs.advance_hit [OF c] c
    by (auto simp: answer_def moved_def split: rate_decision.splits)
qed

end

interpretation mem_keyed: keyed_cursors mem_cursor_get mem_cursor_advance mem_cursor
  by (rule keyed_cursors.intro) (rule mem_cursors.cursor_store_axioms)

text \<open>Parameters that pass the checks of \<^verbatim>\<open>AcquireRateLimit\<close>.\<close>

definition rate_params_ok :: "RateLimitAcquireParams \<Rightarrow> bool" where
  "rate_params_ok p \<longleftrightarrow> ra_Key p \<noteq> [] \<and> 0 < ra_Limit p \<and> 0 < ra_Period p \<and>
     effective_burst p \<le> ra_Limit p"

lemma AcquireRateLimit_gcra:
  assumes "rate_params_ok p" "ra_Mode p = RateLimitModeGCRA"
  shows "AcquireRateLimit mem_ops env ctx p d =
    rate_loop mem_ops env ctx (ra_Key p) (ra_Now p)
      (gcra_decide (rateInterval (ra_Period p) (ra_Limit p))
        (multiplyDuration (rateInterval (ra_Period p) (ra_Limit p)) (effective_burst p - 1)) (ra_Now p))
      (\<lambda>_. True) 0 d"
  using assms by (simp add: AcquireRateLimit_def rate_params_ok_def mem_ops_def cursor_ops_of_def Let_def)

lemma AcquireRateLimit_fixed:
  assumes "rate_params_ok p" "ra_Mode p = RateLimitModeFixedWindow" "ra_Limit p < ra_Period p div countUnit"
  shows "AcquireRateLimit mem_ops env ctx p d =
    rate_loop mem_ops env ctx (ra_Key p) (time_truncate (ra_Now p) (ra_Period p) + countUnit)
      (fixed_decide (ra_Limit p) (ra_Period p) (ra_Now p)) (same_window (ra_Period p) (ra_Now p)) 0 d"
  using assms
  by (simp add: AcquireRateLimit_def acquireFixedWindow_def rate_params_ok_def mem_ops_def cursor_ops_of_def Let_def)

section \<open>GCRA\<close>

text \<open>
  Claim C32: a GCRA request alone on the in-memory store always returns. With \<open>c\<close> the stored
  arrival time (now for a new key), it is refused exactly when now lies more than the tolerance
  before \<open>c\<close>, with the earliest instant that would be granted and the cursor kept; otherwise it
  is granted and the cursor moves one interval past the later of \<open>c\<close> and now.
\<close>

theorem gcra_acquire:
  assumes "rate_params_ok p" "ra_Mode p = RateLimitModeGCRA"
    and "c = (case mem_cursor (ra_Key p) d of None \<Rightarrow> ra_Now p | Some c \<Rightarrow> c)"
    and "interval = rateInterval (ra_Period p) (ra_Limit p)"
    and "tolerance = multiplyDuration interval (effective_burst p - 1)"
  shows "\<exists>d'. AcquireRateLimit mem_ops (\<lambda>_. id) ctx p d =
      Some (d', Inr (if ra_Now p < c - tolerance then refused (c - tolerance) else acquired)) \<and>
    mem_cursor (ra_Key p) d' = Some (if ra_Now p < c - tolerance then c else max c (ra_Now p) + interval)"
proof -
  define r where "r = (case mem_cursor (ra_Key p) d of None \<Rightarrow> \<lparr>cr_At = ra_Now p, cr_Created = True\<rparr>
      | Some c \<Rightarrow> \<lparr>cr_At = c, cr_Created = False\<rparr>)"
  have c: "cr_At r = c" using assms(3) by (simp add: r_def split: option.splits)
  have d: "gcra_decide interval tolerance (ra_Now p) r =
      (if ra_Now p < c - tolerance then Refuse (c - tolerance) else TryMove (max c (ra_Now p) + interval))"
    by (simp add: gcra_decide_def Let_def max_def c)
  obtain d' where d': "AcquireRateLimit mem_ops (\<lambda>_. id) ctx p d =
        Some (d', Inr (answer (gcra_decide interval tolerance (ra_Now p) r)))"
      "mem_cursor (ra_Key p) d' = Some (moved (gcra_decide interval tolerance (ra_Now p) r) c)"
    using mem_keyed.rate_loop_result [OF r_def] AcquireRateLimit_gcra [OF assms(1,2)]
    unfolding mem_ops_def assms(4,5) c by metis
  show ?thesis using d' unfolding d by (auto simp: answer_def moved_def)
qed


text \<open>Six permits a second with bursts of two: the third request of an instant waits.\<close>

definition sample_gcra :: RateLimitAcquireParams where
  "sample_gcra = \<lparr>ra_Key = ''k'', ra_Now = 5000, ra_Limit = 10, ra_Period = 1000, ra_Burst = 2,
     ra_Mode = RateLimitModeGCRA\<rparr>"

lemma sample_gcra_facts:
  "rate_params_ok sample_gcra" "ra_Mode sample_gcra = RateLimitModeGCRA"
  "rateInterval (ra_Period sample_gcra) (ra_Limit sample_gcra) = 100"
  "effective_burst sample_gcra = 2" "multiplyDuration 100 1 = 100"
  using rateInterval_exact [of 1000 10]
  by (simp_all add: sample_gcra_def rate_params_ok_def effective_burst_def multiplyDuration_def max_duration_def)

theorem gcra_acquire_witness:
  "\<exists>d'. AcquireRateLimit mem_ops (\<lambda>_. id) (\<lambda>_. None) sample_gcra mem_New = Some (d', Inr acquired) \<and>
     mem_cursor ''k'' d' = Some 5100"
proof -
  have "mem_cursor (ra_Key sample_gcra) mem_New = None" by (simp add: mem_cursor_def mem_New_def)
  then show ?thesis
    using gcra_acquire [OF sample_gcra_facts(1,2) HOL.refl HOL.refl HOL.refl, where d = mem_New and ctx = "\<lambda>_. None"]
    by (simp add: sample_gcra_facts) (simp add: sample_gcra_def)
qed

subsection \<open>Many participants\<close>

text \<open>
  Participants of one limiter run the loop of \<open>rate_loop\<close> concurrently; a step is one store call
  of one of them, or anything that leaves the limiter's cursor alone. \<open>RTry now e n\<close> has read
  the cursor \<open>e\<close> and is about to move it to \<open>n\<close>. The list \<open>grants\<close> holds the instants \<open>ra_Now\<close> of the
  requests that were granted.
\<close>

datatype rate_pc = RIdle | RWant gotime | RTry gotime gotime gotime

type_synonym rate_sys = "mem \<times> (nat \<Rightarrow> rate_pc) \<times> gotime list"

inductive gcra_step :: "string \<Rightarrow> duration \<Rightarrow> duration \<Rightarrow> rate_sys \<Rightarrow> rate_sys \<Rightarrow> bool"
  for key interval tolerance where
  request: "pcs k = RIdle \<Longrightarrow> gcra_step key interval tolerance (d, pcs, grants) (d, pcs(k := RWant now), grants)"
| read_refuse: "pcs k = RWant now \<Longrightarrow> mem_cursor_get key now d = (d', r) \<Longrightarrow>
    gcra_decide interval tolerance now r = Refuse t \<Longrightarrow>
    gcra_step key interval tolerance (d, pcs, grants) (d', pcs(k := RIdle), grants)"
| read_try: "pcs k = RWant now \<Longrightarrow> mem_cursor_get key now d = (d', r) \<Longrightarrow>
    gcra_decide interval tolerance now r = TryMove nxt \<Longrightarrow>
    gcra_step key interval tolerance (d, pcs, grants) (d', pcs(k := RTry now (cr_At r) nxt), grants)"
| cas_win: "pcs k = RTry now e nxt \<Longrightarrow> mem_cursor_advance key e nxt d = (d', True) \<Longrightarrow>
    gcra_step key interval tolerance (d, pcs, grants) (d', pcs(k := RIdle), grants @ [now])"
| cas_lose: "pcs k = RTry now e nxt \<Longrightarrow> mem_cursor_advance key e nxt d = (d', False) \<Longrightarrow>
    gcra_step key interval tolerance (d, pcs, grants) (d', pcs(k := RWant now), grants)"
| elsewhere: "mem_cursor key d' = mem_cursor key d \<Longrightarrow>
    gcra_step key interval tolerance (d, pcs, grants) (d', pcs, grants)"

inductive gcra_reachable :: "string \<Rightarrow> duration \<Rightarrow> duration \<Rightarrow> rate_sys \<Rightarrow> bool"
  for key interval tolerance where
  start: "gcra_reachable key interval tolerance (d, \<lambda>_. RIdle, [])"
| step: "gcra_reachable key interval tolerance s \<Longrightarrow> gcra_step key interval tolerance s s' \<Longrightarrow>
    gcra_reachable key interval tolerance s'"

definition permits_since :: "gotime \<Rightarrow> gotime list \<Rightarrow> int" where
  "permits_since a grants = int (length (filter (\<lambda>t. a \<le> t) grants))"

definition permits_between :: "gotime \<Rightarrow> gotime \<Rightarrow> gotime list \<Rightarrow> int" where
  "permits_between a b grants = int (length (filter (\<lambda>t. a \<le> t \<and> t \<le> b) grants))"

text \<open>
  The cursor has moved at least one interval for every permit granted at or after \<open>a\<close>, counted
  from \<open>a\<close>; pending moves were computed from the value they expect.
\<close>

definition gcra_inv :: "string \<Rightarrow> duration \<Rightarrow> duration \<Rightarrow> int \<Rightarrow> rate_sys \<Rightarrow> bool" where
  "gcra_inv key interval tolerance burst s \<longleftrightarrow> (case s of (d, pcs, grants) \<Rightarrow>
     (\<forall>a. 0 < permits_since a grants \<longrightarrow>
        (\<exists>c. mem_cursor key d = Some c \<and> a + permits_since a grants * interval \<le> c)) \<and>
     (\<forall>a b. a \<le> b \<longrightarrow> (permits_between a b grants - burst) * interval \<le> b - a) \<and>
     (\<forall>k now e nxt. pcs k = RTry now e nxt \<longrightarrow> e - tolerance \<le> now \<and> nxt = max e now + interval))"

lemma permits_snoc:
  "permits_since a (grants @ [t]) = permits_since a grants + (if a \<le> t then 1 else 0)"
  "permits_between a b (grants @ [t]) = permits_between a b grants + (if a \<le> t \<and> t \<le> b then 1 else 0)"
  by (simp_all add: permits_since_def permits_between_def)

lemma permits_between_le: "permits_between a b grants \<le> permits_since a grants" "0 \<le> permits_between a b grants"
  by (induction grants) (auto simp: permits_since_def permits_between_def)

lemma gcra_inv_frame:
  assumes "gcra_inv key interval tolerance burst (d, pcs, grants)"
    and "mem_cursor key d \<noteq> None \<Longrightarrow> mem_cursor key d' = mem_cursor key d"
    and "\<And>k now e nxt. pcs' k = RTry now e nxt \<Longrightarrow>
      pcs k = RTry now e nxt \<or> e - tolerance \<le> now \<and> nxt = max e now + interval"
  shows "gcra_inv key interval tolerance burst (d', pcs', grants)"
proof -
  have kept: "mem_cursor key d' = Some c" if "mem_cursor key d = Some c" for c using that assms(2) by simp
  show ?thesis using assms(1,3) kept unfolding gcra_inv_def prod.case by blast
qed

lemma gcra_inv_win:
  assumes inv: "gcra_inv key interval tolerance burst (d, pcs, grants)" and I: "1 \<le> interval"
    and tol: "tolerance \<le> interval * (burst - 1)" and B: "1 \<le> burst"
    and pc: "pcs k = RTry now e nxt" and cas: "mem_cursor_advance key e nxt d = (d', True)"
  shows "gcra_inv key interval tolerance burst (d', pcs(k := RIdle), grants @ [now])"
proof -
  have cd: "mem_cursor key d = Some e"
    using cas mem_cursors.advance_miss [of key d e nxt] by fastforce
  have cd': "mem_cursor key d' = Some nxt" using mem_cursors.advance_hit [OF cd, of nxt] cas by simp
  have e: "e - tolerance \<le> now" "nxt = max e now + interval" using inv pc by (auto simp: gcra_inv_def)
  have since: "a + permits_since a grants * interval \<le> e" if "0 < permits_since a grants" for a
    using inv that cd unfolding gcra_inv_def by force
  have "a + permits_since a (grants @ [now]) * interval \<le> nxt" if "0 < permits_since a (grants @ [now])" for a
  proof (cases "0 < permits_since a grants")
    case True
    with since [OF True] e(2) I show ?thesis by (auto simp: permits_snoc distrib_right)
  next
    case False
    then have "permits_since a grants = 0" by (simp add: permits_since_def)
    with that e(2) show ?thesis by (auto simp: permits_snoc split: if_splits)
  qed
  moreover have "(permits_between a b (grants @ [now]) - burst) * interval \<le> b - a" if "a \<le> b" for a b
  proof (cases "a \<le> now \<and> now \<le> b")
    case True
    define n where "n = permits_between a b grants"
    have "(n + 1 - burst) * interval \<le> now - a"
    proof (cases "n = 0")
      case True
      have "(1 - burst) * interval \<le> 0" using B I by (simp add: mult_le_0_iff)
      with True \<open>a \<le> now \<and> now \<le> b\<close> show ?thesis by simp
    next
      case False
      then have "0 < permits_since a grants" using permits_between_le [of a b grants] by (simp add: n_def)
      moreover have "n * interval \<le> permits_since a grants * interval"
        unfolding n_def using I by (intro mult_right_mono permits_between_le) simp
      ultimately have "a + n * interval \<le> e" using since [of a] by linarith
      with e(1) tol have "a + n * interval - interval * (burst - 1) \<le> now" by linarith
      then show ?thesis by (simp add: algebra_simps)
    qed
    with True show ?thesis by (simp add: permits_snoc n_def)
  next
    case False
    with inv that show ?thesis by (auto simp: gcra_inv_def permits_snoc)
  qed
  moreover have "e' - tolerance \<le> now' \<and> nxt' = max e' now' + interval"
    if "(pcs(k := RIdle)) k' = RTry now' e' nxt'" for k' now' e' nxt'
    using inv that by (auto simp: gcra_inv_def split: if_splits)
  ultimately show ?thesis using cd' by (simp add: gcra_inv_def)
qed

lemma gcra_inv_reachable:
  assumes "gcra_reachable key interval tolerance s" "1 \<le> interval" "1 \<le> burst"
    and "tolerance \<le> interval * (burst - 1)"
  shows "gcra_inv key interval tolerance burst s"
  using assms(1)
proof induction
  case (start d)
  have "(0 - burst) * interval \<le> b - a" if "a \<le> b" for a b
  proof -
    have "0 \<le> burst * interval" using assms(2,3) by (intro mult_nonneg_nonneg) simp_all
    with that show ?thesis by simp
  qed
  then show ?case by (simp add: gcra_inv_def permits_since_def permits_between_def)
next
  case (step s s')
  note get = mem_cursors.get_existing [of key]
  from step(2,3) show ?case
  proof (cases rule: gcra_step.cases)
    case (request pcs k d grants now)
    then show ?thesis using step(3) by (auto elim!: gcra_inv_frame split: if_splits)
  next
    case (read_refuse pcs k now d d' r t grants)
    have "mem_cursor key d' = mem_cursor key d" if "mem_cursor key d \<noteq> None"
      using that read_refuse(4) get by fastforce
    then show ?thesis using step(3) read_refuse(1,2) by (auto elim!: gcra_inv_frame split: if_splits)
  next
    case (read_try pcs k now d d' r nxt grants)
    have "mem_cursor key d' = mem_cursor key d" if "mem_cursor key d \<noteq> None"
      using that read_try(4) get by fastforce
    moreover have "cr_At r - tolerance \<le> now \<and> nxt = max (cr_At r) now + interval"
      using read_try(5) by (auto simp: gcra_decide_def Let_def max_def split: if_splits)
    ultimately show ?thesis using step(3) read_try(1,2) by (auto elim!: gcra_inv_frame split: if_splits)
  next
    case (cas_win pcs k now e nxt d d' grants)
    then show ?thesis using gcra_inv_win assms(2-4) step(3) by simp
  next
    case (cas_lose pcs k now e nxt d d' grants)
    have "mem_cursor key d' = mem_cursor key d"
      using cas_lose(4) mem_cursors.advance_hit [of key d e nxt] mem_cursors.advance_miss [of key d e nxt]
      by fastforce
    then show ?thesis using step(3) cas_lose(1,2) by (auto elim!: gcra_inv_frame split: if_splits)
  next
    case (elsewhere d' d pcs grants)
    then show ?thesis using step(3) by (auto elim!: gcra_inv_frame)
  qed
qed

text \<open>
  Claim C5: however participants interleave their store calls, and whatever clock readings they
  bring, the permits granted for instants of a span \<open>[a, b]\<close> number at most the burst plus the
  length of the span divided by the interval.
\<close>

theorem gcra_rate_bound:
  assumes "rate_params_ok p" "interval = rateInterval (ra_Period p) (ra_Limit p)"
    and "tolerance = multiplyDuration interval (effective_burst p - 1)"
    and "gcra_reachable (ra_Key p) interval tolerance (d, pcs, grants)" "a \<le> b"
  shows "int (length (filter (\<lambda>t. a \<le> t \<and> t \<le> b) grants)) \<le> effective_burst p + (b - a) div interval"
proof -
  have I: "1 \<le> interval" using assms(2) rateInterval_pos by simp
  have B: "1 \<le> effective_burst p" by (simp add: effective_burst_def)
  have "tolerance \<le> interval * (effective_burst p - 1)"
    using multiplyDuration_bounds(2) [of interval "effective_burst p - 1"] I B assms(3) by simp
  from gcra_inv_reachable [OF assms(4) I B this] assms(5)
  have "(permits_between a b grants - effective_burst p) * interval \<le> b - a" by (simp add: gcra_inv_def)
  then have "permits_between a b grants - effective_burst p \<le> (b - a) div interval"
    using zdiv_mono1 [of _ "b - a" interval] I by fastforce
  then show ?thesis by (simp add: permits_between_def)
qed

theorem gcra_rate_bound_witness:
  "\<exists>d pcs. gcra_reachable ''k'' 100 100 (d, pcs, [5000, 5000]) \<and>
     int (length (filter (\<lambda>t. 5000 \<le> t \<and> t \<le> 5000) [5000, 5000 :: gotime])) \<le> 2"
proof -
  let ?d1 = "fst (mem_cursor_get ''k'' 5000 mem_New)"
  let ?d2 = "fst (mem_cursor_advance ''k'' 5000 5100 ?d1)"
  let ?d3 = "fst (mem_cursor_advance ''k'' 5100 5200 ?d2)"
  have c: "mem_cursor ''k'' mem_New = None" by (simp add: mem_cursor_def mem_New_def)
  have g1: "mem_cursor_get ''k'' 5000 mem_New = (?d1, \<lparr>cr_At = 5000, cr_Created = True\<rparr>)"
    and c1: "mem_cursor ''k'' ?d1 = Some 5000"
    using mem_cursors.get_fresh [OF c, of 5000] by (metis prod.collapse, simp)
  have a1: "mem_cursor_advance ''k'' 5000 5100 ?d1 = (?d2, True)" and c2: "mem_cursor ''k'' ?d2 = Some 5100"
    using mem_cursors.advance_hit [OF c1, of 5100] by (metis prod.collapse, simp)
  have a2: "mem_cursor_advance ''k'' 5100 5200 ?d2 = (?d3, True)"
    using mem_cursors.advance_hit [OF c2, of 5200] by (metis prod.collapse)
  have g2: "mem_cursor_get ''k'' 5000 ?d2 = (?d2, \<lparr>cr_At = 5100, cr_Created = False\<rparr>)"
    using mem_cursors.get_existing [OF c2, of 5000] .
  let ?i = "\<lambda>_::nat. RIdle"
  have s1: "gcra_reachable ''k'' 100 100 (?d1, ?i(0 := RTry 5000 5000 5100), [])"
    using gcra_step.read_try [of "?i(0 := RWant 5000)" 0 5000 "''k''" mem_New ?d1, OF _ g1, of 100 100 5100 "[]"]
      gcra_reachable.start [of "''k''" 100 100 mem_New] gcra_step.request [of ?i 0 "''k''" 100 100 mem_New "[]" 5000]
    by (simp add: gcra_decide_def Let_def) (meson gcra_reachable.step)
  have s2: "gcra_reachable ''k'' 100 100 (?d2, ?i(0 := RIdle), [5000])"
    using gcra_step.cas_win [OF _ a1, of "?i(0 := RTry 5000 5000 5100)" 0 5000 100 100 "[]"] s1
    by (simp add: gcra_decide_def Let_def) (meson gcra_reachable.step)
  have s3: "gcra_reachable ''k'' 100 100 (?d2, ?i(0 := RTry 5000 5100 5200), [5000])"
    using gcra_step.read_try [of "?i(0 := RWant 5000)" 0 5000 "''k''" ?d2 ?d2, OF _ g2, of 100 100 5200 "[5000]"]
      s2 [unfolded fun_upd_idem [of ?i 0 RIdle, OF HOL.refl]] gcra_step.request [of ?i 0 "''k''" 100 100 ?d2 "[5000]" 5000]
    by (simp add: gcra_decide_def Let_def) (meson gcra_reachable.step)
  have s4: "gcra_reachable ''k'' 100 100 (?d3, ?i(0 := RIdle), [5000, 5000])"
    using gcra_step.cas_win [OF _ a2, of "?i(0 := RTry 5000 5100 5200)" 0 5000 100 100 "[5000]"] s3
    by simp (meson gcra_reachable.step)
  have "int (length (filter (\<lambda>t. 5000 \<le> t \<and> t \<le> 5000) [5000, 5000 :: gotime])) \<le>
      effective_burst sample_gcra + (5000 - 5000) div 100"
    by (rule gcra_rate_bound [OF sample_gcra_facts(1) _ _ _ order_refl, where pcs = "?i(0 := RIdle)" and d = ?d3])
       (use s4 in \<open>simp_all add: sample_gcra_facts, simp add: sample_gcra_def\<close>)
  with s4 show ?thesis by (auto simp: sample_gcra_facts)
qed

section \<open>Fixed windows\<close>

text \<open>
  The specification: a counter for the current window. The cursor stores it as the window's
  start plus one millisecond per permit.
\<close>

fun window_step :: "int \<Rightarrow> duration \<Rightarrow> gotime \<Rightarrow> (gotime \<times> int) option \<Rightarrow> (gotime \<times> int) option \<times> bool" where
  "window_step limit period now None = (Some (time_truncate now period, 1), True)"
| "window_step limit period now (Some (w, n)) =
     (if w \<noteq> time_truncate now period then (Some (time_truncate now period, 1), True)
      else if n \<ge> limit then (Some (w, n), False)
      else (Some (w, n + 1), True))"

fun window_rep :: "string \<Rightarrow> int \<Rightarrow> duration \<Rightarrow> (gotime \<times> int) option \<Rightarrow> mem \<Rightarrow> bool" where
  "window_rep key limit period None d \<longleftrightarrow> mem_cursor key d = None"
| "window_rep key limit period (Some (w, n)) d \<longleftrightarrow>
     mem_cursor key d = Some (w + n * countUnit) \<and> period dvd w \<and> 1 \<le> n \<and> n \<le> limit"

definition fixed_params_ok :: "RateLimitAcquireParams \<Rightarrow> bool" where
  "fixed_params_ok p \<longleftrightarrow> rate_params_ok p \<and> ra_Mode p = RateLimitModeFixedWindow \<and>
     ra_Limit p < ra_Period p div countUnit \<and> ra_Period p \<le> max_duration"

text \<open>The limit keeps the count inside the window.\<close>

lemma window_decode:
  assumes "fixed_params_ok p" "ra_Period p dvd w" "1 \<le> n" "n \<le> ra_Limit p"
  shows "time_truncate (w + n * countUnit) (ra_Period p) = w"
    and "time_sub (w + n * countUnit) w div countUnit = n"
proof -
  have "n + 1 \<le> ra_Period p div countUnit" using assms by (simp add: fixed_params_ok_def)
  then have "(n + 1) * countUnit \<le> ra_Period p div countUnit * countUnit"
    by (intro mult_right_mono) (simp_all add: countUnit_def)
  also have "\<dots> \<le> ra_Period p" by (simp add: countUnit_def)
  finally have lt: "n * countUnit < ra_Period p" by (simp add: countUnit_def)
  moreover have "0 \<le> n * countUnit" using assms(3) by (simp add: countUnit_def)
  moreover have P: "0 < ra_Period p" "ra_Period p \<le> max_duration"
    using assms(1) by (simp_all add: fixed_params_ok_def rate_params_ok_def)
  ultimately show "time_truncate (w + n * countUnit) (ra_Period p) = w"
    using assms(2) by (intro time_truncate_unique) simp_all
  have "is_duration (w + n * countUnit - w)"
    using lt P \<open>0 \<le> n * countUnit\<close> by (simp add: is_duration_def min_duration_def max_duration_def)
  then show "time_sub (w + n * countUnit) w div countUnit = n"
    by (simp add: time_sub_exact countUnit_def)
qed

lemma window_rep_step:
  assumes "fixed_params_ok p" "window_rep (ra_Key p) (ra_Limit p) (ra_Period p) st d"
  shows "\<exists>d'. AcquireRateLimit mem_ops (\<lambda>_. id) ctx p d =
      Some (d', Inr (if snd (window_step (ra_Limit p) (ra_Period p) (ra_Now p) st) then acquired
                     else refused (time_truncate (ra_Now p) (ra_Period p) + ra_Period p))) \<and>
    window_rep (ra_Key p) (ra_Limit p) (ra_Period p)
      (fst (window_step (ra_Limit p) (ra_Period p) (ra_Now p) st)) d'"
proof -
  let ?w = "time_truncate (ra_Now p) (ra_Period p)"
  let ?D = "fixed_decide (ra_Limit p) (ra_Period p) (ra_Now p)"
  have ok: "rate_params_ok p" "ra_Mode p = RateLimitModeFixedWindow" "ra_Limit p < ra_Period p div countUnit"
    "0 < ra_Period p" "1 \<le> ra_Limit p"
    using assms(1) by (simp_all add: fixed_params_ok_def rate_params_ok_def)
  define r where "r = (case mem_cursor (ra_Key p) d of None \<Rightarrow> \<lparr>cr_At = ?w + countUnit, cr_Created = True\<rparr>
      | Some c \<Rightarrow> \<lparr>cr_At = c, cr_Created = False\<rparr>)"
  obtain d' where d': "AcquireRateLimit mem_ops (\<lambda>_. id) ctx p d = Some (d', Inr (answer (?D r)))"
      "mem_cursor (ra_Key p) d' = Some (moved (?D r) (cr_At r))"
    using mem_keyed.rate_loop_result [OF r_def] AcquireRateLimit_fixed [OF ok(1-3)]
    unfolding mem_ops_def by metis
  have dvd: "ra_Period p dvd ?w" using time_truncate_dvd [OF ok(4)] .
  show ?thesis
  proof (cases st)
    case None
    with assms(2) have "?D r = Granted" "cr_At r = ?w + 1 * countUnit"
      by (simp_all add: r_def fixed_decide_def Let_def)
    with d' dvd None ok(5) show ?thesis by (auto simp: answer_def moved_def)
  next
    case (Some wn)
    obtain w n where wn: "wn = (w, n)" by fastforce
    with assms(2) Some have r: "r = \<lparr>cr_At = w + n * countUnit, cr_Created = False\<rparr>"
      and rep: "ra_Period p dvd w" "1 \<le> n" "n \<le> ra_Limit p" by (simp_all add: r_def)
    note dec = window_decode [OF assms(1) rep]
    have D: "?D r = (if w \<noteq> ?w then TryMove (?w + 1 * countUnit) else if n \<ge> ra_Limit p then Refuse (?w + ra_Period p)
        else TryMove (w + (n + 1) * countUnit))"
    proof (cases "w = ?w")
      case True
      show ?thesis unfolding fixed_decide_def Let_def r ScheduleCursorResult.select_convs dec using True
        by (simp add: distrib_right)
    next
      case False
      then show ?thesis by (simp add: fixed_decide_def Let_def r dec)
    qed
    show ?thesis using d' dvd rep ok(5) unfolding D Some wn
      by (auto simp: answer_def moved_def r)
  qed
qed

text \<open>
  Claim C7: the fixed-window limiter refines the window counter. From a store that represents a
  counter, a request answers what the counter answers, a refusal names the end of the window,
  and the new store represents the new counter; the count never spills into the next window.
\<close>

theorem fixed_window_refines_counter:
  assumes "fixed_params_ok p" "window_rep (ra_Key p) (ra_Limit p) (ra_Period p) st d"
    and "window_step (ra_Limit p) (ra_Period p) (ra_Now p) st = (st', granted)"
  shows "\<exists>d'. AcquireRateLimit mem_ops (\<lambda>_. id) ctx p d =
      Some (d', Inr (if granted then acquired
                     else refused (time_truncate (ra_Now p) (ra_Period p) + ra_Period p))) \<and>
    window_rep (ra_Key p) (ra_Limit p) (ra_Period p) st' d'"
  using window_rep_step [OF assms(1,2), of ctx] assms(3) by simp

text \<open>A sequence of requests, one after the other, and the instants that were granted.\<close>

fun rate_run :: "RateLimitAcquireParams \<Rightarrow> gotime list \<Rightarrow> mem \<Rightarrow> mem \<times> gotime list" where
  "rate_run p [] d = (d, [])"
| "rate_run p (now # ns) d =
     (case AcquireRateLimit mem_ops (\<lambda>_. id) (\<lambda>_. None) (p\<lparr>ra_Now := now\<rparr>) d of
        Some (d', Inr r) \<Rightarrow>
          (let (d'', ts) = rate_run p ns d' in (d'', if rr_Acquired r then now # ts else ts))
      | Some (d', Inl e) \<Rightarrow> rate_run p ns d'
      | None \<Rightarrow> (d, []))"

fun window_run :: "int \<Rightarrow> duration \<Rightarrow> gotime list \<Rightarrow> (gotime \<times> int) option \<Rightarrow> gotime list" where
  "window_run limit period [] st = []"
| "window_run limit period (now # ns) st =
     (let (st', granted) = window_step limit period now st;
          ts = window_run limit period ns st'
      in if granted then now # ts else ts)"

lemma rate_run_eq:
  assumes "fixed_params_ok p" "window_rep (ra_Key p) (ra_Limit p) (ra_Period p) st d"
  shows "snd (rate_run p ns d) = window_run (ra_Limit p) (ra_Period p) ns st"
  using assms(2)
proof (induction ns arbitrary: d st)
  case (Cons now ns)
  let ?q = "p\<lparr>ra_Now := now\<rparr>"
  obtain st' granted where st: "window_step (ra_Limit p) (ra_Period p) now st = (st', granted)" by fastforce
  have "fixed_params_ok ?q" using assms(1)
    by (simp add: fixed_params_ok_def rate_params_ok_def effective_burst_def split: if_splits)
  from window_rep_step [OF this, of st d "\<lambda>_. None"] Cons.prems st
  obtain d' where d': "AcquireRateLimit mem_ops (\<lambda>_. id) (\<lambda>_. None) ?q d =
      Some (d', Inr (if granted then acquired else refused (time_truncate now (ra_Period p) + ra_Period p)))"
    "window_rep (ra_Key p) (ra_Limit p) (ra_Period p) st' d'" by auto
  from Cons.IH [OF d'(2)] show ?case
    by (simp add: d'(1) st split_beta acquired_def refused_def)
qed simp

definition in_window :: "duration \<Rightarrow> gotime \<Rightarrow> gotime list \<Rightarrow> nat" where
  "in_window period w ts = length (filter (\<lambda>t. time_truncate t period = w) ts)"

lemma window_run_later:
  assumes "0 < period" "\<forall>t\<in>set ns. w < time_truncate t period"
  shows "in_window period w (window_run limit period ns st) = 0"
  using assms(2) by (induction ns arbitrary: st) (auto simp: in_window_def split_beta Let_def)

lemma window_run_count:
  assumes "0 < period" "1 \<le> limit" "sorted ns" "\<forall>t\<in>set ns. w0 \<le> time_truncate t period" "1 \<le> n" "n \<le> limit"
  shows "in_window period w (window_run limit period ns (Some (w0, n))) =
    (if w = w0 then min (nat (limit - n)) (in_window period w ns) else min (nat limit) (in_window period w ns))"
  using assms(3-)
proof (induction ns arbitrary: w0 n)
  case (Cons now ns)
  let ?w = "time_truncate now period"
  have later: "\<forall>t\<in>set ns. ?w \<le> time_truncate t period"
    using Cons.prems(1) assms(1) by (auto intro: time_truncate_mono)
  have w0: "w0 \<le> ?w" "\<forall>t\<in>set ns. w0 \<le> time_truncate t period" using Cons.prems(2) by auto
  have sorted: "sorted ns" using Cons.prems(1) by simp
  consider "w0 \<noteq> ?w" | "w0 = ?w" "n \<ge> limit" | "w0 = ?w" "n < limit" by linarith
  then show ?case
  proof cases
    case 1
    have none: "in_window period w0 (now # ns) = 0" if "w = w0"
      using later w0(1) 1 by (auto simp: in_window_def filter_empty_conv)
    show ?thesis
      using Cons.IH [OF sorted later, of 1] 1 assms(2) none
      by (auto simp: in_window_def nat_diff_distrib' min_def split: if_splits)
  next
    case 2
    then show ?thesis using Cons.IH [OF sorted w0(2) Cons.prems(3,4)] Cons.prems(4)
      by (auto simp: in_window_def)
  next
    case 3
    then show ?thesis using Cons.IH [OF sorted w0(2), of "n + 1"] Cons.prems(3)
      by (auto simp: in_window_def min_def split: if_splits)
  qed
qed (simp add: in_window_def)

text \<open>
  When requests come in the order of their instants, the fixed-window limiter grants
  in every window exactly as many permits as were requested, up to the limit.
\<close>

theorem fixed_window_grants_exactly_limit:
  assumes "fixed_params_ok p" "mem_cursor (ra_Key p) d = None" "sorted ns"
  shows "in_window (ra_Period p) w (snd (rate_run p ns d)) =
    min (nat (ra_Limit p)) (in_window (ra_Period p) w ns)"
proof -
  have ok: "0 < ra_Period p" "1 \<le> ra_Limit p" using assms(1) by (simp_all add: fixed_params_ok_def rate_params_ok_def)
  have run: "snd (rate_run p ns d) = window_run (ra_Limit p) (ra_Period p) ns None"
    using rate_run_eq [OF assms(1), of None] assms(2) by simp
  show ?thesis
  proof (cases ns)
    case (Cons now ts)
    have "\<forall>t\<in>set ts. time_truncate now (ra_Period p) \<le> time_truncate t (ra_Period p)"
      using assms(3) ok(1) Cons by (auto intro: time_truncate_mono)
    from window_run_count [OF ok _ this, of 1 w] ok(2) assms(3) Cons show ?thesis
      unfolding run by (auto simp: in_window_def min_def split: if_splits)
  qed (simp add: in_window_def)
qed

text \<open>Two permits per ten milliseconds.\<close>

definition sample_fixed :: RateLimitAcquireParams where
  "sample_fixed = \<lparr>ra_Key = ''k'', ra_Now = 0, ra_Limit = 2, ra_Period = 10 * Millisecond, ra_Burst = 1,
     ra_Mode = RateLimitModeFixedWindow\<rparr>"

lemma sample_fixed_ok: "fixed_params_ok sample_fixed"
  by (simp add: fixed_params_ok_def rate_params_ok_def effective_burst_def sample_fixed_def countUnit_def
      max_duration_def)

lemma sample_fixed_run:
  "snd (rate_run sample_fixed ns mem_New) = window_run 2 (10 * Millisecond) ns None"
  using rate_run_eq [OF sample_fixed_ok, of None mem_New ns]
  by (simp add: sample_fixed_def mem_cursor_def mem_New_def)

theorem fixed_window_refines_counter_witness:
  "\<exists>d'. AcquireRateLimit mem_ops (\<lambda>_. id) (\<lambda>_. None) sample_fixed mem_New = Some (d', Inr acquired) \<and>
     window_rep ''k'' 2 (10 * Millisecond) (Some (0, 1)) d'"
  using fixed_window_refines_counter [OF sample_fixed_ok, of None mem_New "Some (0, 1)" True "\<lambda>_. None"]
  by (simp add: sample_fixed_def mem_cursor_def mem_New_def time_truncate_def)

theorem fixed_window_grants_exactly_limit_witness:
  "sorted [1, 2, 3, 10 * Millisecond + 1] \<and>
   in_window (10 * Millisecond) 0 (snd (rate_run sample_fixed [1, 2, 3, 10 * Millisecond + 1] mem_New)) = 2"
  using fixed_window_grants_exactly_limit [OF sample_fixed_ok, of mem_New "[1, 2, 3, 10 * Millisecond + 1]" 0]
  by (simp add: sample_fixed_def mem_cursor_def mem_New_def time_truncate_def in_window_def)

text \<open>
  The order is needed. When a participant whose clock lags asks in between, the
  counter falls back to the earlier window, and the later window then grants more than the
  limit: with a limit of two, four requests of one window are granted.
\<close>

theorem fixed_window_lagging_clock_exceeds_limit:
  "\<exists>ns. fixed_params_ok sample_fixed \<and> ra_Limit sample_fixed = 2 \<and>
     in_window (ra_Period sample_fixed) (10 * Millisecond) (snd (rate_run sample_fixed ns mem_New)) = 4"
proof (intro exI conjI)
  let ?ns = "[10 * Millisecond, 10 * Millisecond, 9 * Millisecond, 10 * Millisecond, 10 * Millisecond]"
  have p: "ra_Period sample_fixed = 10 * Millisecond" by (simp add: sample_fixed_def)
  show "in_window (ra_Period sample_fixed) (10 * Millisecond) (snd (rate_run sample_fixed ?ns mem_New)) = 4"
    unfolding sample_fixed_run p by (simp add: in_window_def time_truncate_def)
qed (simp_all add: sample_fixed_ok, simp add: sample_fixed_def)

end
