(* ===== verification/Sha256.thy ===== *)
theory Sha256
  imports Go_Errors
begin

text \<open>
  \<^verbatim>\<open>crypto/sha256.Sum256\<close> on byte strings, after FIPS 180-4, with 32-bit words. Unique job keys
  are hexadecimal digests of it.
\<close>

unbundle bit_operations_syntax

type_synonym w32 = "32 word"

definition rotr :: "nat \<Rightarrow> w32 \<Rightarrow> w32" where
  "rotr n x = or (drop_bit n x) (push_bit (32 - n) x)"

definition sha_ch :: "w32 \<Rightarrow> w32 \<Rightarrow> w32 \<Rightarrow> w32" where
  "sha_ch x y z = xor (and x y) (and (not x) z)"

definition sha_maj :: "w32 \<Rightarrow> w32 \<Rightarrow> w32 \<Rightarrow> w32" where
  "sha_maj x y z = xor (xor (and x y) (and x z)) (and y z)"

definition sha_Sigma0 :: "w32 \<Rightarrow> w32" where
  "sha_Sigma0 x = xor (xor (rotr 2 x) (rotr 13 x)) (rotr 22 x)"

definition sha_Sigma1 :: "w32 \<Rightarrow> w32" where
  "sha_Sigma1 x = xor (xor (rotr 6 x) (rotr 11 x)) (rotr 25 x)"

definition sha_sigma0 :: "w32 \<Rightarrow> w32" where
  "sha_sigma0 x = xor (xor (rotr 7 x) (rotr 18 x)) (drop_bit 3 x)"

definition sha_sigma1 :: "w32 \<Rightarrow> w32" where
  "sha_sigma1 x = xor (xor (rotr 17 x) (rotr 19 x)) (drop_bit 10 x)"

text \<open>
  The constants are the first 32 bits of the fractional parts of the cube roots of the first 64
  primes, and of the square roots of the first eight. \<open>iroot k x acc b\<close> extends \<open>acc\<close> to the integer
  \<open>k\<close>-th root of \<open>x\<close> bit by bit, from bit \<open>b - 1\<close> down.
\<close>

fun iroot :: "nat \<Rightarrow> int \<Rightarrow> int \<Rightarrow> nat \<Rightarrow> int" where
  "iroot k x acc 0 = acc"
| "iroot k x acc (Suc b) = iroot k x (if (acc + 2 ^ b) ^ k \<le> x then acc + 2 ^ b else acc) b"

definition sha_primes :: "int list" where
  "sha_primes = [
    2, 3, 5, 7, 11, 13, 17, 19, 23, 29, 31, 37, 41, 43, 47, 53,
    59, 61, 67, 71, 73, 79, 83, 89, 97, 101, 103, 107, 109, 113, 127, 131,
    137, 139, 149, 151, 157, 163, 167, 173, 179, 181, 191, 193, 197, 199, 211, 223,
    227, 229, 233, 239, 241, 251, 257, 263, 269, 271, 277, 281, 283, 293, 307, 311]"

definition sha_K :: "w32 list" where
  "sha_K = map (\<lambda>p. word_of_int (iroot 3 (p * 2 ^ 96) 0 36)) sha_primes"

definition sha_init :: "w32 list" where
  "sha_init = map (\<lambda>p. word_of_int (iroot 2 (p * 2 ^ 64) 0 36)) (take 8 sha_primes)"

text \<open>Padding: a one bit, zeros, and the length in bits as eight bytes, to a multiple of 64 bytes.\<close>

definition be_bytes :: "nat \<Rightarrow> nat \<Rightarrow> nat list" where
  "be_bytes k n = map (\<lambda>i. n div 256 ^ i mod 256) (rev [0..<k])"

definition sha_pad :: "nat list \<Rightarrow> nat list" where
  "sha_pad m = m @ [128] @ replicate ((119 - length m mod 64) mod 64) 0 @ be_bytes 8 (8 * length m)"

fun be_words :: "nat list \<Rightarrow> w32 list" where
  "be_words (a # b # c # d # r) = word_of_nat (((a * 256 + b) * 256 + c) * 256 + d) # be_words r"
| "be_words _ = []"

text \<open>The message schedule, extended one word at a time; the words are kept newest first.\<close>

fun sha_schedule :: "nat \<Rightarrow> w32 list \<Rightarrow> w32 list" where
  "sha_schedule 0 ws = rev ws"
| "sha_schedule (Suc n) ws =
     sha_schedule n ((sha_sigma1 (ws ! 1) + ws ! 6 + sha_sigma0 (ws ! 14) + ws ! 15) # ws)"

definition sha_round :: "w32 \<times> w32 \<Rightarrow> w32 list \<Rightarrow> w32 list" where
  "sha_round kw st = (case st of
      [a, b, c, d, e, f, g, h] \<Rightarrow>
        (let t1 = h + sha_Sigma1 e + sha_ch e f g + fst kw + snd kw;
             t2 = sha_Sigma0 a + sha_maj a b c
         in [t1 + t2, a, b, c, d + t1, e, f, g])
    | _ \<Rightarrow> st)"

definition sha_block :: "w32 list \<Rightarrow> w32 list \<Rightarrow> w32 list" where
  "sha_block st ws = map2 (+) st (fold sha_round (zip sha_K (sha_schedule 48 (rev ws))) st)"

function sha_blocks :: "w32 list \<Rightarrow> w32 list \<Rightarrow> w32 list" where
  "sha_blocks st ws = (if length ws < 16 then st else sha_blocks (sha_block st (take 16 ws)) (drop 16 ws))"
  by pat_completeness auto
termination by (relation "measure (\<lambda>(_, ws). length ws)") auto

declare sha_blocks.simps [simp del]

text \<open>The digest as 32 bytes.\<close>

definition Sum256 :: "string \<Rightarrow> nat list" where
  "Sum256 s = concat (map (\<lambda>w. be_bytes 4 (unat w))
     (sha_blocks sha_init (be_words (sha_pad (map of_char s)))))"

text \<open>\<^verbatim>\<open>%x\<close> on a byte slice.\<close>

definition hex_bytes :: "nat list \<Rightarrow> string" where
  "hex_bytes bs = concat (map (\<lambda>b. [hex_digit (b div 16), hex_digit (b mod 16)]) bs)"

section \<open>Facts\<close>

lemma length_sha_round: "length (sha_round kw st) = length st"
  by (auto simp: sha_round_def Let_def split: list.splits)

lemma length_sha_rounds: "length (fold sha_round kws st) = length st"
  by (induction kws arbitrary: st) (simp_all add: length_sha_round)

lemma length_sha_blocks: "length (sha_blocks st ws) = length st"
proof (induction st ws rule: sha_blocks.induct)
  case (1 st ws)
  then show ?case
    by (subst sha_blocks.simps) (simp add: sha_block_def length_sha_rounds)
qed

lemma length_sha_init: "length sha_init = 8"
  by (simp add: sha_init_def sha_primes_def)

lemma length_Sum256: "length (Sum256 s) = 32"
  by (simp add: Sum256_def length_concat comp_def be_bytes_def sum_list_triv length_sha_blocks length_sha_init)

lemma length_hex_bytes: "length (hex_bytes bs) = 2 * length bs"
  by (induction bs) (simp_all add: hex_bytes_def)

lemma of_char_hex_digit: "d < 16 \<Longrightarrow> of_char (hex_digit d) = (if d < 10 then 48 + d else 87 + d)"
  by (simp add: hex_digit_def)

lemma hex_bytes_inject:
  assumes "list_all (\<lambda>b. b < 256) xs" "list_all (\<lambda>b. b < 256) ys" "hex_bytes xs = hex_bytes ys"
  shows "xs = ys"
  using assms
proof (induction xs arbitrary: ys)
  case Nil
  then show ?case by (cases ys) (simp_all add: hex_bytes_def)
next
  case (Cons x xs)
  then obtain y ys' where ys: "ys = y # ys'" by (cases ys) (simp_all add: hex_bytes_def)
  have inj: "a = b" if "hex_digit a = hex_digit b" "a < 16" "b < 16" for a b
    using arg_cong [OF that(1), of "of_char :: char \<Rightarrow> nat"] that(2,3) by (simp add: of_char_hex_digit split: if_splits)
  have "x div 16 = y div 16" "x mod 16 = y mod 16" "hex_bytes xs = hex_bytes ys'"
    using Cons.prems ys inj [of "x div 16" "y div 16"] inj [of "x mod 16" "y mod 16"]
    by (simp_all add: hex_bytes_def less_mult_imp_div_less)
  then show ?case using Cons ys by (metis div_mod_decomp list_all_iff list.set_intros(2))
qed

lemma Sum256_bytes: "list_all (\<lambda>b. b < 256) (Sum256 s)"
  by (auto simp: Sum256_def be_bytes_def list_all_iff)

end
