(* ===== verification/Json.thy ===== *)
theory Json
  imports Go_Errors
begin

text \<open>
  What the program uses of \<^verbatim>\<open>encoding/json\<close> and \<^verbatim>\<open>encoding/base64\<close>, on byte strings: validation
  of a JSON text, the members of an object with their raw values (as \<^verbatim>\<open>json.RawMessage\<close> keeps
  them), string and integer literals, compaction, and the unpadded URL alphabet. Strings are
  taken to be valid UTF-8; bytes from 128 on pass through unchanged. Field names are matched
  without regard to ASCII case. The texts of the library's own error messages are not modelled.
\<close>

section \<open>Characters\<close>

abbreviation byte :: "char \<Rightarrow> nat" where "byte c \<equiv> of_char c"

definition is_ws :: "char \<Rightarrow> bool" where
  "is_ws c \<longleftrightarrow> c = CHR 0x20 \<or> c = CHR 0x09 \<or> c = CHR 0x0A \<or> c = CHR 0x0D"

definition skip_ws :: "string \<Rightarrow> string" where
  "skip_ws s = dropWhile is_ws s"

definition is_digit :: "char \<Rightarrow> bool" where
  "is_digit c \<longleftrightarrow> 48 \<le> byte c \<and> byte c \<le> 57"

definition hex_val :: "char \<Rightarrow> nat option" where
  "hex_val c = (let n = byte c in
     if 48 \<le> n \<and> n \<le> 57 then Some (n - 48)
     else if 97 \<le> n \<and> n \<le> 102 then Some (n - 87)
     else if 65 \<le> n \<and> n \<le> 70 then Some (n - 55) else None)"

definition hex4 :: "string \<Rightarrow> nat option" where
  "hex4 s = (case s of
      a # b # c # d # r \<Rightarrow>
        (case (hex_val a, hex_val b, hex_val c, hex_val d) of
           (Some w, Some x, Some y, Some z) \<Rightarrow> Some (((w * 16 + x) * 16 + y) * 16 + z)
         | _ \<Rightarrow> None)
    | _ \<Rightarrow> None)"

definition utf8 :: "nat \<Rightarrow> string" where
  "utf8 n =
     (if n < 128 then [char_of n]
      else if n < 2048 then [char_of (192 + n div 64), char_of (128 + n mod 64)]
      else if n < 65536 then [char_of (224 + n div 4096), char_of (128 + n div 64 mod 64), char_of (128 + n mod 64)]
      else [char_of (240 + n div 262144), char_of (128 + n div 4096 mod 64),
            char_of (128 + n div 64 mod 64), char_of (128 + n mod 64)])"

section \<open>Strings\<close>

definition simple_escape :: "char \<Rightarrow> char option" where
  "simple_escape e =
     (if e = CHR 0x22 then Some (CHR 0x22) else if e = CHR 0x5C then Some (CHR 0x5C)
      else if e = CHR ''/'' then Some (CHR ''/'') else if e = CHR ''b'' then Some (CHR 0x08)
      else if e = CHR ''f'' then Some (CHR 0x0C) else if e = CHR ''n'' then Some (CHR 0x0A)
      else if e = CHR ''r'' then Some (CHR 0x0D) else if e = CHR ''t'' then Some (CHR 0x09)
      else None)"

text \<open>The low half of a surrogate pair that follows, if there is one.\<close>

definition low_surrogate :: "string \<Rightarrow> nat option" where
  "low_surrogate s = (case s of
      c # u # r \<Rightarrow>
        if c = CHR 0x5C \<and> u = CHR ''u'' then
          (case hex4 r of Some l \<Rightarrow> if 56320 \<le> l \<and> l < 57344 then Some l else None | None \<Rightarrow> None)
        else None
    | _ \<Rightarrow> None)"

text \<open>
  A string literal after its opening quote: the decoded string and what follows the closing
  quote. Unpaired surrogates become U+FFFD.
\<close>

fun read_str :: "string \<Rightarrow> (string \<times> string) option" where
  "read_str [] = None"
| "read_str (c # cs) =
     (if c = CHR 0x22 then Some ([], cs)
      else if c = CHR 0x5C then
        (case cs of
           [] \<Rightarrow> None
         | e # r \<Rightarrow>
             (case simple_escape e of
                Some x \<Rightarrow> map_option (apfst (Cons x)) (read_str r)
              | None \<Rightarrow>
                  if e = CHR ''u'' then
                    (case hex4 r of
                       None \<Rightarrow> None
                     | Some h \<Rightarrow>
                         if 55296 \<le> h \<and> h < 56320 then
                           (case low_surrogate (drop 4 r) of
                              Some l \<Rightarrow> map_option (apfst ((@) (utf8 (65536 + (h - 55296) * 1024 + (l - 56320)))))
                                          (read_str (drop 10 r))
                            | None \<Rightarrow> map_option (apfst ((@) (utf8 65533))) (read_str (drop 4 r)))
                         else if 56320 \<le> h \<and> h < 57344 then
                           map_option (apfst ((@) (utf8 65533))) (read_str (drop 4 r))
                         else map_option (apfst ((@) (utf8 h))) (read_str (drop 4 r)))
                  else None))
      else if byte c < 32 then None
      else map_option (apfst (Cons c)) (read_str cs))"

text \<open>The string encoder of \<^verbatim>\<open>json.Marshal\<close>, with its HTML escapes.\<close>

definition quote_byte :: "char \<Rightarrow> string" where
  "quote_byte c =
     (if c = CHR 0x22 then [CHR 0x5C, CHR 0x22] else if c = CHR 0x5C then [CHR 0x5C, CHR 0x5C]
      else if c = CHR 0x08 then [CHR 0x5C, CHR ''b''] else if c = CHR 0x0C then [CHR 0x5C, CHR ''f'']
      else if c = CHR 0x0A then [CHR 0x5C, CHR ''n''] else if c = CHR 0x0D then [CHR 0x5C, CHR ''r'']
      else if c = CHR 0x09 then [CHR 0x5C, CHR ''t'']
      else if byte c < 32 \<or> c = CHR ''<'' \<or> c = CHR ''>'' \<or> c = CHR ''&'' then
        [CHR 0x5C, CHR ''u'', CHR ''0'', CHR ''0'', hex_digit (byte c div 16), hex_digit (byte c mod 16)]
      else [c])"

definition json_quote :: "string \<Rightarrow> string" where
  "json_quote s = [CHR 0x22] @ concat (map quote_byte s) @ [CHR 0x22]"

section \<open>Values\<close>

definition num_char :: "char \<Rightarrow> bool" where
  "num_char c \<longleftrightarrow> is_digit c \<or> c \<in> set ''+-.eE''"

definition drop_sign :: "string \<Rightarrow> string" where
  "drop_sign s = (case s of c # r \<Rightarrow> if c = CHR ''-'' then r else s | [] \<Rightarrow> [])"

definition valid_exponent :: "string \<Rightarrow> bool" where
  "valid_exponent s = (case s of
      [] \<Rightarrow> True
    | e # r \<Rightarrow> (e = CHR ''e'' \<or> e = CHR ''E'') \<and>
        (let d = (case r of c # t \<Rightarrow> if c = CHR ''+'' \<or> c = CHR ''-'' then t else r | [] \<Rightarrow> [])
         in d \<noteq> [] \<and> list_all is_digit d))"

definition valid_number :: "string \<Rightarrow> bool" where
  "valid_number s =
     (let t = drop_sign s; ip = takeWhile is_digit t; r = dropWhile is_digit t
      in ip \<noteq> [] \<and> (hd ip = CHR ''0'' \<longrightarrow> tl ip = []) \<and>
         (case r of
            c # f \<Rightarrow> if c = CHR ''.''
                     then takeWhile is_digit f \<noteq> [] \<and> valid_exponent (dropWhile is_digit f)
                     else valid_exponent r
          | [] \<Rightarrow> True))"

text \<open>
  Scanning one value: what follows it, or \<open>None\<close> for a syntax error. An object also gives its
  members with the raw text of their values. The fuel bounds the nesting of calls; twice the
  length of the text is enough, since a nested call is made only after a character was consumed.
\<close>

fun scan_value :: "nat \<Rightarrow> string \<Rightarrow> string option"
  and scan_elems :: "nat \<Rightarrow> string \<Rightarrow> string option"
  and scan_members :: "nat \<Rightarrow> string \<Rightarrow> ((string \<times> string) list \<times> string) option" where
  "scan_value 0 s = None"
| "scan_value (Suc n) s = (case s of
      [] \<Rightarrow> None
    | c # cs \<Rightarrow>
        if c = CHR ''{'' then
          (case skip_ws cs of
             [] \<Rightarrow> None
           | d # r \<Rightarrow> if d = CHR ''}'' then Some r else map_option snd (scan_members n (d # r)))
        else if c = CHR ''['' then
          (case skip_ws cs of
             [] \<Rightarrow> None
           | d # r \<Rightarrow> if d = CHR '']'' then Some r else scan_elems n (d # r))
        else if c = CHR 0x22 then map_option snd (read_str cs)
        else if c = CHR ''-'' \<or> is_digit c then
          (if valid_number (takeWhile num_char s) then Some (dropWhile num_char s) else None)
        else if take 4 s = ''true'' then Some (drop 4 s)
        else if take 5 s = ''false'' then Some (drop 5 s)
        else if take 4 s = ''null'' then Some (drop 4 s)
        else None)"
| "scan_elems 0 s = None"
| "scan_elems (Suc n) s =
     (case scan_value n s of
        None \<Rightarrow> None
      | Some r \<Rightarrow>
          (case skip_ws r of
             [] \<Rightarrow> None
           | c # cs \<Rightarrow> if c = CHR '','' then scan_elems n (skip_ws cs)
                        else if c = CHR '']'' then Some cs else None))"
| "scan_members 0 s = None"
| "scan_members (Suc n) s = (case s of
      [] \<Rightarrow> None
    | q # qs \<Rightarrow>
        if q \<noteq> CHR 0x22 then None
        else
          (case read_str qs of
             None \<Rightarrow> None
           | Some (k, r) \<Rightarrow>
               (case skip_ws r of
                  [] \<Rightarrow> None
                | c # cs \<Rightarrow>
                    if c \<noteq> CHR '':'' then None
                    else
                      (case scan_value n (skip_ws cs) of
                         None \<Rightarrow> None
                       | Some r' \<Rightarrow>
                           (let m = (k, take (length (skip_ws cs) - length r') (skip_ws cs)) in
                            case skip_ws r' of
                              [] \<Rightarrow> None
                            | d # ds \<Rightarrow>
                                if d = CHR '','' then map_option (apfst (Cons m)) (scan_members n (skip_ws ds))
                                else if d = CHR ''}'' then Some ([m], ds) else None)))))"

definition scan_fuel :: "string \<Rightarrow> nat" where
  "scan_fuel s = 2 * length s + 2"

definition json_valid :: "string \<Rightarrow> bool" where
  "json_valid s =
     (case scan_value (scan_fuel s) (skip_ws s) of None \<Rightarrow> False | Some r \<Rightarrow> skip_ws r = [])"

section \<open>Unmarshal into a struct\<close>

definition json_error :: goerr where
  "json_error = Errorf ''json: cannot unmarshal''"

text \<open>
  The members a struct decoder sees: a JSON \<^verbatim>\<open>null\<close> leaves the struct alone, any other
  non-object is a type error.
\<close>

definition object_members :: "string \<Rightarrow> (string \<times> string) list res" where
  "object_members s =
     (if \<not> json_valid s then Inl json_error
      else case skip_ws s of
          [] \<Rightarrow> Inl json_error
        | c # cs \<Rightarrow>
            if take 4 (c # cs) = ''null'' then Inr []
            else if c \<noteq> CHR ''{'' then Inl json_error
            else (case skip_ws cs of
                [] \<Rightarrow> Inl json_error
              | d # r \<Rightarrow> if d = CHR ''}'' then Inr []
                         else (case scan_members (scan_fuel s) (d # r) of
                                 None \<Rightarrow> Inl json_error | Some (ms, _) \<Rightarrow> Inr ms)))"

definition fold_char :: "char \<Rightarrow> char" where
  "fold_char c = (if 65 \<le> byte c \<and> byte c \<le> 90 then char_of (byte c + 32) else c)"

definition same_field :: "string \<Rightarrow> string \<Rightarrow> bool" where
  "same_field a b \<longleftrightarrow> map fold_char a = map fold_char b"

text \<open>The values given to a field, in order; later ones overwrite earlier ones.\<close>

definition field_values :: "string \<Rightarrow> (string \<times> string) list \<Rightarrow> string list" where
  "field_values name ms = map snd (filter (\<lambda>(k, _). same_field k name) ms)"

definition parse_int64 :: "string \<Rightarrow> int option" where
  "parse_int64 s =
     (let d = drop_sign s; n = int (dec_to_nat d); v = (if d = s then n else - n)
      in if d \<noteq> [] \<and> list_all is_digit d \<and> is_duration v then Some v else None)"

text \<open>One assignment to an integer, string or raw field; \<^verbatim>\<open>null\<close> leaves the first two alone.\<close>

definition assign_int :: "string \<Rightarrow> int res \<Rightarrow> int res" where
  "assign_int raw cur = (case cur of Inl e \<Rightarrow> Inl e | Inr v \<Rightarrow>
     if raw = ''null'' then Inr v
     else (case parse_int64 raw of Some n \<Rightarrow> Inr n | None \<Rightarrow> Inl json_error))"

definition assign_int_ptr :: "string \<Rightarrow> int option res \<Rightarrow> int option res" where
  "assign_int_ptr raw cur = (case cur of Inl e \<Rightarrow> Inl e | Inr v \<Rightarrow>
     if raw = ''null'' then Inr None
     else (case parse_int64 raw of Some n \<Rightarrow> Inr (Some n) | None \<Rightarrow> Inl json_error))"

definition assign_string :: "string \<Rightarrow> string res \<Rightarrow> string res" where
  "assign_string raw cur = (case cur of Inl e \<Rightarrow> Inl e | Inr v \<Rightarrow>
     if raw = ''null'' then Inr v
     else (case raw of
         [] \<Rightarrow> Inl json_error
       | q # qs \<Rightarrow> if q = CHR 0x22
                   then (case read_str qs of Some (v', _) \<Rightarrow> Inr v' | None \<Rightarrow> Inl json_error)
                   else Inl json_error))"

definition int_field :: "string \<Rightarrow> (string \<times> string) list \<Rightarrow> int res" where
  "int_field name ms = fold assign_int (field_values name ms) (Inr 0)"

definition int_ptr_field :: "string \<Rightarrow> (string \<times> string) list \<Rightarrow> int option res" where
  "int_ptr_field name ms = fold assign_int_ptr (field_values name ms) (Inr None)"

definition string_field :: "string \<Rightarrow> (string \<times> string) list \<Rightarrow> string res" where
  "string_field name ms = fold assign_string (field_values name ms) (Inr [])"

definition raw_field :: "string \<Rightarrow> (string \<times> string) list \<Rightarrow> string" where
  "raw_field name ms = (case field_values name ms of [] \<Rightarrow> [] | vs \<Rightarrow> last vs)"

text \<open>
  \<^verbatim>\<open>compact\<close> with HTML escapes, applied to a \<^verbatim>\<open>json.RawMessage\<close> when it is marshalled; the first
  argument says whether the position is inside a string literal.
\<close>

fun compact :: "bool \<Rightarrow> string \<Rightarrow> string" where
  "compact b [] = []"
| "compact False (c # cs) =
     (if is_ws c then compact False cs
      else if c = CHR 0x22 then c # compact True cs else c # compact False cs)"
| "compact True (c # cs) =
     (if c = CHR 0x5C then (case cs of [] \<Rightarrow> [c] | e # r \<Rightarrow> c # e # compact True r)
      else if c = CHR 0x22 then c # compact False cs
      else if c = CHR ''<'' \<or> c = CHR ''>'' \<or> c = CHR ''&'' then quote_byte c @ compact True cs
      else c # compact True cs)"

definition marshal_raw :: "string \<Rightarrow> string res" where
  "marshal_raw s = (if json_valid s then Inr (compact False s) else Inl json_error)"

section \<open>Strings read back\<close>

lemma byte_less: "byte c < 256"
  using of_char_of [of "byte c"] by (metis char_of_char mod_less_divisor of_char_of zero_less_numeral)

lemma hex_val_digit: "d < 16 \<Longrightarrow> hex_val (hex_digit d) = Some d"
  by (auto simp: hex_val_def hex_digit_def Let_def)

lemma read_str_quote_byte:
  "read_str (quote_byte c @ t) = map_option (apfst (Cons c)) (read_str t)"
proof -
  have hex: "hex4 (CHR ''0'' # CHR ''0'' # hex_digit (byte c div 16) # hex_digit (byte c mod 16) # t) = Some (byte c)"
    if "byte c < 128"
  proof -
    have "hex_val (CHR ''0'') = Some 0" by (simp add: hex_val_def)
    moreover have "hex_val (hex_digit (byte c div 16)) = Some (byte c div 16)"
      "hex_val (hex_digit (byte c mod 16)) = Some (byte c mod 16)"
      using that by (simp_all add: hex_val_digit)
    ultimately show ?thesis by (simp add: hex4_def)
  qed
  have esc: "read_str ([CHR 0x5C, CHR ''u'', CHR ''0'', CHR ''0'', hex_digit (byte c div 16), hex_digit (byte c mod 16)] @ t) =
      map_option (apfst (Cons c)) (read_str t)" if "byte c < 128"
    using hex [OF that] that
    by (simp add: simple_escape_def utf8_def) (simp add: apfst_def map_prod_def)
  have small: "byte c < 128" if "byte c < 32 \<or> c = CHR ''<'' \<or> c = CHR ''>'' \<or> c = CHR ''&''"
    using that by auto
  show ?thesis
  proof (cases "byte c < 32 \<or> c = CHR ''<'' \<or> c = CHR ''>'' \<or> c = CHR ''&''")
    case True
    then show ?thesis using esc [OF small [OF True]] by (auto simp: quote_byte_def simple_escape_def)
  next
    case False
    then show ?thesis by (auto simp: quote_byte_def simple_escape_def)
  qed
qed

lemma read_str_quote:
  "read_str (concat (map quote_byte s) @ CHR 0x22 # t) = Some (s, t)"
  by (induction s) (simp_all add: read_str_quote_byte)

section \<open>Scanning with more text behind\<close>

lemma hex4_append: "hex4 s = Some h \<Longrightarrow> hex4 (s @ t) = Some h"
  by (auto simp: hex4_def split: list.splits option.splits)

lemma hex4_length: "hex4 s = Some h \<Longrightarrow> 4 \<le> length s"
  by (auto simp: hex4_def split: list.splits option.splits)

lemma low_surrogate_append:
  assumes "read_str s \<noteq> None"
  shows "low_surrogate (s @ t) = low_surrogate s"
proof -
  consider "s = []" | c where "s = [c]" | c u r where "s = c # u # r" by (metis list.exhaust)
  then show ?thesis
  proof cases
    case (3 c u r)
    show ?thesis
    proof (cases "c = CHR 0x5C \<and> u = CHR ''u''")
      case True
      with 3 assms have "hex4 r \<noteq> None" by (auto simp: simple_escape_def split: option.splits)
      then show ?thesis using hex4_append 3 by (fastforce simp: low_surrogate_def split: option.splits)
    qed (use 3 in \<open>auto simp: low_surrogate_def\<close>)
  qed (use assms in \<open>auto simp: low_surrogate_def split: list.splits if_splits\<close>)
qed

lemma low_surrogate_length: "low_surrogate s = Some l \<Longrightarrow> 6 \<le> length s"
  by (auto simp: low_surrogate_def dest: hex4_length split: list.splits option.splits if_splits)

lemma read_str_escape:
  "read_str (CHR 0x5C # e # s) =
     (case simple_escape e of
        Some x \<Rightarrow> map_option (apfst (Cons x)) (read_str s)
      | None \<Rightarrow>
          if e = CHR ''u'' then
            (case hex4 s of
               None \<Rightarrow> None
             | Some h \<Rightarrow>
                 if 55296 \<le> h \<and> h < 56320 then
                   (case low_surrogate (drop 4 s) of
                      Some l \<Rightarrow> map_option (apfst ((@) (utf8 (65536 + (h - 55296) * 1024 + (l - 56320)))))
                                  (read_str (drop 10 s))
                    | None \<Rightarrow> map_option (apfst ((@) (utf8 65533))) (read_str (drop 4 s)))
                 else if 56320 \<le> h \<and> h < 57344 then
                   map_option (apfst ((@) (utf8 65533))) (read_str (drop 4 s))
                 else map_option (apfst ((@) (utf8 h))) (read_str (drop 4 s)))
          else None)"
  by simp

lemma low_surrogate_more: "low_surrogate s = Some l \<Longrightarrow> low_surrogate (s @ t) = Some l"
  using hex4_append by (fastforce simp: low_surrogate_def split: list.splits option.splits if_splits)

declare read_str.simps(2) [simp del]

text \<open>One step of the reader keeps what follows: \<open>g\<close> is what the step prepends.\<close>

lemma read_step_append:
  assumes "\<And>v r. read_str s = Some (v, r) \<Longrightarrow> read_str (s @ t) = Some (v, r @ t)"
    and "map_option (apfst g) (read_str s) = Some (v, r)"
  shows "map_option (apfst g) (read_str (s @ t)) = Some (v, r @ t)"
  using assms by (cases "read_str s") (auto simp: apfst_def map_prod_def)

lemma read_escape_append:
  assumes IH: "\<And>s' v r. length s' \<le> length s \<Longrightarrow> read_str s' = Some (v, r) \<Longrightarrow> read_str (s' @ t) = Some (v, r @ t)"
    and "read_str (CHR 0x5C # e # s) = Some (v, r)"
  shows "read_str (CHR 0x5C # e # s @ t) = Some (v, r @ t)"
proof (cases "simple_escape e")
  case (Some x)
  with assms(2) read_step_append [OF IH [OF order_refl], of "Cons x" v r] show ?thesis
    by (simp add: read_str_escape del: map_option_eq_Some)
next
  case None
  with assms(2) obtain h where h: "e = CHR ''u''" "hex4 s = Some h"
    by (auto simp: read_str_escape split: if_splits option.splits)
  note h' = hex4_append [OF h(2), of t] and len = hex4_length [OF h(2)]
  have IH4: "read_str (drop 4 s) = Some (v, r) \<Longrightarrow> read_str (drop 4 s @ t) = Some (v, r @ t)"
    and IH10: "read_str (drop 10 s) = Some (v, r) \<Longrightarrow> read_str (drop 10 s @ t) = Some (v, r @ t)" for v r
    using IH [of "drop 4 s" v r] IH [of "drop 10 s" v r] by simp_all
  show ?thesis
  proof (cases "55296 \<le> h \<and> h < 56320")
    case True
    show ?thesis
    proof (cases "low_surrogate (drop 4 s)")
      case low: (Some l)
      have "10 \<le> length s" using low_surrogate_length [OF low] by simp
      then show ?thesis
        using assms(2) read_step_append [OF IH10, of _ v r] low_surrogate_more [OF low, of t] None h h' len True low
        by (simp add: read_str_escape del: map_option_eq_Some)
    next
      case low: None
      with assms(2) None h True have "read_str (drop 4 s) \<noteq> None" by (auto simp: read_str_escape)
      from low_surrogate_append [OF this, of t] show ?thesis
        using assms(2) read_step_append [OF IH4, of _ v r] None h h' len True low
        by (simp add: read_str_escape del: map_option_eq_Some)
    qed
  next
    case False
    then show ?thesis
      using assms(2) read_step_append [OF IH4, of _ v r] None h h' len
      by (auto simp: read_str_escape simp del: map_option_eq_Some split: if_splits)
  qed
qed

lemma read_str_append: "read_str s = Some (v, r) \<Longrightarrow> read_str (s @ t) = Some (v, r @ t)"
proof (induction "length s" arbitrary: s v r rule: less_induct)
  case less
  show ?case
  proof (cases s)
    case (Cons c cs)
    show ?thesis
    proof (cases "c = CHR 0x5C")
      case True
      with Cons less.prems obtain e s' where cs: "cs = e # s'" by (cases cs) (auto simp: read_str.simps(2))
      then show ?thesis using Cons True less by (simp add: read_escape_append)
    next
      case False
      with Cons less show ?thesis
        using read_step_append [of cs t "Cons c" v r]
        by (auto simp: read_str.simps(2) simp del: map_option_eq_Some split: if_splits)
    qed
  qed (use less.prems in simp)
qed

lemma skip_ws_append: "skip_ws s \<noteq> [] \<Longrightarrow> skip_ws (s @ t) = skip_ws s @ t"
  by (induction s) (auto simp: skip_ws_def)

lemma skip_ws_length: "length (skip_ws s) \<le> length s"
  by (simp add: skip_ws_def length_dropWhile_le)

definition ends_number :: "string \<Rightarrow> string \<Rightarrow> bool" where
  "ends_number r t \<longleftrightarrow> r \<noteq> [] \<or> t = [] \<or> \<not> num_char (hd t)"

lemma takeWhile_ends:
  assumes "ends_number (dropWhile num_char s) t"
  shows "takeWhile num_char (s @ t) = takeWhile num_char s"
    and "dropWhile num_char (s @ t) = dropWhile num_char s @ t"
proof -
  have "takeWhile num_char (s @ t) = takeWhile num_char s \<and> dropWhile num_char (s @ t) = dropWhile num_char s @ t"
  proof (cases "dropWhile num_char s = []")
    case True
    then have all: "\<forall>c\<in>set s. num_char c" by (simp add: dropWhile_eq_Nil_conv)
    then have tw: "takeWhile num_char s = s" by (simp add: takeWhile_eq_all_conv)
    have "takeWhile num_char t = [] \<and> dropWhile num_char t = t"
      using assms True by (cases t) (auto simp: ends_number_def)
    then show ?thesis using all True by (simp add: tw)
  next
    case False
    then obtain c where "c \<in> set s" "\<not> num_char c" by (auto simp: dropWhile_eq_Nil_conv)
    then show ?thesis by simp
  qed
  then show "takeWhile num_char (s @ t) = takeWhile num_char s"
    and "dropWhile num_char (s @ t) = dropWhile num_char s @ t" by simp_all
qed

lemma take_append_prefix: "take n s = p \<Longrightarrow> length p = n \<Longrightarrow> take n (s @ t) = p \<and> drop n (s @ t) = drop n s @ t"
  by auto

lemma scan_append:
  "scan_value n s = Some r \<Longrightarrow> ends_number r t \<Longrightarrow> scan_value n (s @ t) = Some (r @ t)"
  "scan_elems n s = Some r \<Longrightarrow> scan_elems n (s @ t) = Some (r @ t)"
  "scan_members n s = Some (ms, r) \<Longrightarrow> scan_members n (s @ t) = Some (ms, r @ t)"
proof (induction n s and n s and n s arbitrary: r and r and ms r
    rule: scan_value_scan_elems_scan_members.induct)
  case (2 n s)
  from "2.prems"(1) obtain c cs where s: "s = c # cs" by (cases s) auto
  show ?case
  proof (cases "c = CHR ''{'' \<or> c = CHR ''[''")
    case True
    with "2.prems"(1) s obtain d r0 where d: "skip_ws cs = d # r0" by (auto split: list.splits if_splits)
    then have d': "skip_ws (cs @ t) = d # r0 @ t" using skip_ws_append [of cs t] by simp
    from True show ?thesis using "2.prems"(1) "2.IH"(1) [OF s _ d] "2.IH"(2) [OF s _ _ d] d d' s
      by (auto split: if_splits)
  next
    case False
    show ?thesis
    proof (cases "c = CHR 0x22")
      case True
      with "2.prems"(1) s obtain v where "read_str cs = Some (v, r)" by (auto split: if_splits)
      from read_str_append [OF this, of t] True s show ?thesis by simp
    next
      case nq: False
      show ?thesis
      proof (cases "c = CHR ''-'' \<or> is_digit c")
        case True
        with "2.prems" False nq s have v: "valid_number (takeWhile num_char s)" "r = dropWhile num_char s"
          by (auto split: if_splits)
        have "scan_value (Suc n) ((c # cs) @ t) = Some (dropWhile num_char ((c # cs) @ t))"
          using True False nq v takeWhile_ends(1) [of s t] "2.prems"(2) s by auto
        with takeWhile_ends(2) [of s t] v "2.prems"(2) s show ?thesis by simp
      next
        case nd: False
        have "take 4 s = ''true'' \<and> r = drop 4 s \<or> take 5 s = ''false'' \<and> r = drop 5 s \<or>
            take 4 s = ''null'' \<and> r = drop 4 s"
          using "2.prems"(1) False nq nd s by (auto split: if_splits)
        then have "s = ''true'' @ r \<or> s = ''false'' @ r \<or> s = ''null'' @ r"
          by (metis append_take_drop_id)
        then show ?thesis by (auto simp: is_digit_def)
      qed
    qed
  qed
next
  case (4 n s)
  from "4.prems" obtain r0 where r0: "scan_value n s = Some r0" by (auto split: option.splits)
  from "4.prems" r0 obtain c cs where c: "skip_ws r0 = c # cs" by (auto split: list.splits)
  then have "r0 \<noteq> []" by (auto simp: skip_ws_def)
  then have v: "scan_value n (s @ t) = Some (r0 @ t)" using "4.IH"(1) [OF r0] by (simp add: ends_number_def)
  have c': "skip_ws (r0 @ t) = c # cs @ t" using skip_ws_append [of r0 t] c by simp
  show ?case
  proof (cases "c = CHR '',''")
    case True
    with "4.prems" r0 c have e: "scan_elems n (skip_ws cs) = Some r" by simp
    then have "skip_ws cs \<noteq> []" by (cases n; cases "n - 1") auto
    with skip_ws_append [of cs t] "4.IH"(2) [OF r0 c True e] True v c' show ?thesis by simp
  next
    case False
    with "4.prems" r0 c v c' show ?thesis by (auto split: if_splits)
  qed
next
  case (6 n s)
  from "6.prems" obtain qs where s: "s = CHR 0x22 # qs" by (cases s) (auto split: if_splits)
  from "6.prems" s obtain k r0 where k: "read_str qs = Some (k, r0)" by (auto split: option.splits)
  from "6.prems" s k obtain cs where c: "skip_ws r0 = CHR '':'' # cs" by (auto split: list.splits if_splits)
  from "6.prems" s k c obtain r1 where r1: "scan_value n (skip_ws cs) = Some r1" by (auto split: option.splits)
  from "6.prems" s k c r1 obtain d ds where d: "skip_ws r1 = d # ds"
    by (auto simp: Let_def split: list.splits)
  then have "r1 \<noteq> []" by (auto simp: skip_ws_def)
  have "skip_ws cs \<noteq> []" using r1 by (cases n) auto
  then have cs': "skip_ws (cs @ t) = skip_ws cs @ t" by (rule skip_ws_append)
  have v: "scan_value n (skip_ws cs @ t) = Some (r1 @ t)"
    using "6.IH"(1) [OF s _ k _ c _ r1] \<open>r1 \<noteq> []\<close> by (simp add: ends_number_def)
  have d': "skip_ws (r1 @ t) = d # ds @ t" using skip_ws_append [of r1 t] d by simp
  have c': "skip_ws (r0 @ t) = CHR '':'' # cs @ t" using skip_ws_append [of r0 t] c by simp
  show ?case
  proof (cases "d = CHR '',''")
    case True
    with "6.prems" s k c r1 d obtain ms' where e: "scan_members n (skip_ws ds) = Some (ms', r)"
      and ms: "ms = (k, take (length (skip_ws cs) - length r1) (skip_ws cs)) # ms'" by (auto simp: Let_def)
    have "skip_ws ds \<noteq> []" using e by (cases n) auto
    then have "skip_ws (ds @ t) = skip_ws ds @ t" by (rule skip_ws_append)
    moreover have "scan_members n (skip_ws ds @ t) = Some (ms', r @ t)"
      using "6.IH"(2) [OF s _ k _ c _ r1 _ d True e] by simp
    ultimately show ?thesis using True s read_str_append [OF k, of t] c' cs' v d' ms by (simp add: Let_def)
  next
    case False
    with "6.prems" s k c r1 d read_str_append [OF k, of t] c' cs' v d' show ?thesis
      by (auto simp: Let_def split: if_splits)
  qed
qed simp_all

section \<open>Fuel\<close>

declare scan_value.simps(2) [simp del] scan_elems.simps(2) [simp del] scan_members.simps(2) [simp del]

lemma scan_more_fuel:
  "scan_value n s = Some r \<Longrightarrow> scan_value (Suc n) s = Some r"
  "scan_elems n s = Some r \<Longrightarrow> scan_elems (Suc n) s = Some r"
  "scan_members n s = Some mr \<Longrightarrow> scan_members (Suc n) s = Some mr"
proof (induction n s and n s and n s arbitrary: r and r and mr
    rule: scan_value_scan_elems_scan_members.induct)
  case (2 n s)
  from "2.prems" obtain c cs where s: "s = c # cs" by (cases s) (auto simp: scan_value.simps(2))
  show ?case
  proof (cases "c = CHR ''{'' \<or> c = CHR ''[''")
    case True
    with "2.prems" s obtain d r0 where d: "skip_ws cs = d # r0"
      by (auto simp: scan_value.simps(2) split: list.splits if_splits)
    from True show ?thesis using "2.prems" "2.IH"(1) [OF s _ d] "2.IH"(2) [OF s _ _ d] d s
      by (auto simp: scan_value.simps(2) split: if_splits)
  next
    case False
    then show ?thesis using "2.prems" s by (simp add: scan_value.simps(2))
  qed
next
  case (4 n s)
  from "4.prems" obtain r0 where r0: "scan_value n s = Some r0" by (auto simp: scan_elems.simps(2) split: option.splits)
  from "4.prems" r0 obtain c cs where c: "skip_ws r0 = c # cs"
    by (auto simp: scan_elems.simps(2) split: list.splits)
  from "4.prems" r0 c "4.IH"(1) [OF r0] "4.IH"(2) [OF r0 c] show ?case
    by (simp add: scan_elems.simps(2) split: if_splits)
next
  case (6 n s)
  from "6.prems" obtain qs where s: "s = CHR 0x22 # qs" by (cases s) (auto simp: scan_members.simps(2) split: if_splits)
  from "6.prems" s obtain k r0 where k: "read_str qs = Some (k, r0)"
    by (auto simp: scan_members.simps(2) split: option.splits)
  from "6.prems" s k obtain cs where c: "skip_ws r0 = CHR '':'' # cs"
    by (auto simp: scan_members.simps(2) split: list.splits if_splits)
  from "6.prems" s k c obtain r1 where r1: "scan_value n (skip_ws cs) = Some r1"
    by (auto simp: scan_members.simps(2) split: option.splits)
  from "6.prems" s k c r1 obtain d ds where d: "skip_ws r1 = d # ds"
    by (auto simp: scan_members.simps(2) Let_def split: list.splits)
  from "6.prems" s k c r1 d "6.IH"(1) [OF s _ k _ c _ r1] "6.IH"(2) [OF s _ k _ c _ r1 _ d] show ?case
    by (auto simp: scan_members.simps(2) Let_def split: if_splits)
qed simp_all

lemma scan_value_fuel:
  assumes "scan_value n s = Some r" "n \<le> m"
  shows "scan_value m s = Some r"
  using assms(2) by (induction rule: dec_induct) (use assms(1) scan_more_fuel(1) in auto)

lemma scan_members_fuel:
  assumes "scan_members n s = Some mr" "n \<le> m"
  shows "scan_members m s = Some mr"
  using assms(2) by (induction rule: dec_induct) (use assms(1) scan_more_fuel(3) in auto)

section \<open>Integers read back\<close>

lemma is_digit_digit_char: "d < 10 \<Longrightarrow> is_digit (digit_char d)"
  by (simp add: is_digit_def of_char_digit_char)

lemma nat_to_dec_digits: "list_all is_digit (nat_to_dec n)"
proof (induction n rule: nat_to_dec.induct)
  case (1 n)
  then show ?case by (subst nat_to_dec.simps) (simp add: is_digit_digit_char)
qed

lemma nat_to_dec_nonempty: "nat_to_dec n \<noteq> []"
  by (subst nat_to_dec.simps) simp

lemma nat_to_dec_hd: "n \<noteq> 0 \<Longrightarrow> hd (nat_to_dec n) \<noteq> CHR ''0''"
proof (induction n rule: nat_to_dec.induct)
  case (1 n)
  have "digit_char n \<noteq> CHR ''0''" if "n < 10" "n \<noteq> 0"
    using of_char_digit_char [OF that(1)] that(2) by auto
  then show ?case using 1 nat_to_dec_nonempty [of "n div 10"]
    by (subst nat_to_dec.simps) (auto simp: hd_append)
qed

lemma sign_not_digit [simp]: "\<not> is_digit (CHR ''-'')"
  by (simp add: is_digit_def)

lemma drop_sign_dec: "drop_sign (nat_to_dec n) = nat_to_dec n"
  using nat_to_dec_digits [of n]
  by (auto simp: drop_sign_def split: list.splits)

lemma parse_int64_Itoa: "is_duration n \<Longrightarrow> parse_int64 (Itoa n) = Some n"
  using nat_to_dec_digits nat_to_dec_nonempty
  by (auto simp: parse_int64_def Itoa_def drop_sign_dec Let_def dec_to_nat_to_dec)
     (simp_all add: drop_sign_def dec_to_nat_to_dec)

lemma valid_number_dec:
  assumes "drop_sign s = nat_to_dec n"
  shows "valid_number s"
proof -
  have tw: "takeWhile is_digit (nat_to_dec n) = nat_to_dec n" "dropWhile is_digit (nat_to_dec n) = []"
    using nat_to_dec_digits [of n] by (simp_all add: list_all_iff)
  have "hd (nat_to_dec n) = CHR ''0'' \<longrightarrow> tl (nat_to_dec n) = []"
    using nat_to_dec_hd [of n] by (cases "n = 0") (auto simp: nat_to_dec.simps)
  then show ?thesis by (simp add: valid_number_def assms nat_to_dec_nonempty Let_def tw)
qed

lemma valid_number_Itoa: "valid_number (Itoa n)"
proof (cases "n < 0")
  case True
  then show ?thesis by (intro valid_number_dec [of _ "nat (- n)"]) (simp add: Itoa_def drop_sign_def)
next
  case False
  then show ?thesis by (intro valid_number_dec [of _ "nat n"]) (simp add: Itoa_def drop_sign_dec)
qed

lemma num_char_Itoa: "c \<in> set (Itoa n) \<Longrightarrow> num_char c"
  using nat_to_dec_digits by (fastforce simp: Itoa_def num_char_def list_all_iff split: if_splits)

lemma scan_value_Itoa:
  assumes "t \<noteq> []" "\<not> num_char (hd t)"
  shows "scan_value (Suc n) (Itoa i @ t) = Some t"
proof -
  have "takeWhile num_char (Itoa i) = Itoa i" "dropWhile num_char (Itoa i) = []"
    using num_char_Itoa [of _ i] by (simp_all)
  with takeWhile_ends [of "Itoa i" t] assms have tw: "takeWhile num_char (Itoa i @ t) = Itoa i" "dropWhile num_char (Itoa i @ t) = t"
    by (simp_all add: ends_number_def)
  obtain c cs where c: "Itoa i = c # cs" "c = CHR ''-'' \<or> is_digit c"
    using nat_to_dec_nonempty nat_to_dec_digits by (auto simp: Itoa_def neq_Nil_conv list_all_iff) (metis list.set_intros(1) list.exhaust)
  then show ?thesis using tw valid_number_Itoa [of i] by (auto simp: is_digit_def scan_value.simps(2))
qed

section \<open>Objects read back\<close>

lemma skip_ws_id: "s \<noteq> [] \<Longrightarrow> \<not> is_ws (hd s) \<Longrightarrow> skip_ws s = s"
  by (cases s) (simp_all add: skip_ws_def)

lemma ws_not_structural [simp]:
  "\<not> is_ws (CHR '','')" "\<not> is_ws (CHR ''}'')" "\<not> is_ws (CHR '':'')" "\<not> is_ws (CHR 0x22)" "\<not> is_ws (CHR ''{'')"
  "\<not> num_char (CHR '','')" "\<not> num_char (CHR ''}'')"
  by (simp_all add: is_ws_def num_char_def is_digit_def)

lemma scan_value_quote: "scan_value (Suc n) (json_quote s @ t) = Some t"
  by (simp add: scan_value.simps(2) json_quote_def read_str_quote)

text \<open>A text that starts like a value, as every scanned value does.\<close>

definition starts_value :: "string \<Rightarrow> bool" where
  "starts_value v \<longleftrightarrow> v \<noteq> [] \<and> \<not> is_ws (hd v)"

lemma starts_value_Itoa: "starts_value (Itoa i)"
proof -
  have "\<not> is_ws (hd (nat_to_dec n))" for n
    using nat_to_dec_digits [of n] nat_to_dec_nonempty [of n]
    by (cases "nat_to_dec n") (auto simp: is_ws_def is_digit_def)
  then show ?thesis using nat_to_dec_nonempty by (auto simp: starts_value_def Itoa_def is_ws_def)
qed

lemma starts_value_quote: "starts_value (json_quote s)"
  by (simp add: starts_value_def json_quote_def)

lemma scan_member:
  assumes "starts_value v" "d = CHR '','' \<or> d = CHR ''}''" "scan_value n (v @ d # t) = Some (d # t)"
  shows "scan_members (Suc n) (json_quote k @ CHR '':'' # v @ d # t) =
    (if d = CHR '','' then map_option (apfst (Cons (k, v))) (scan_members n (skip_ws t)) else Some ([(k, v)], t))"
proof -
  have ws: "skip_ws (v @ d # t) = v @ d # t" using assms(1) by (intro skip_ws_id) (simp_all add: starts_value_def)
  have d: "skip_ws (d # t) = d # t" using assms(2) by (intro skip_ws_id) auto
  have rd: "read_str (concat (map quote_byte k) @ CHR 0x22 # CHR '':'' # v @ d # t) = Some (k, CHR '':'' # v @ d # t)"
    using read_str_quote [of k "CHR '':'' # v @ d # t"] by simp
  have col: "skip_ws (CHR '':'' # v @ d # t) = CHR '':'' # v @ d # t" by (intro skip_ws_id) simp_all
  show ?thesis using assms(2,3) by (auto simp: scan_members.simps(2) json_quote_def rd col ws d Let_def)
qed

lemma object_members_eq:
  assumes "scan_members n (CHR 0x22 # r) = Some (ms, [])" "s = CHR ''{'' # CHR 0x22 # r" "n \<le> 2 * length s + 1"
  shows "object_members s = Inr ms"
proof -
  have f: "scan_fuel s = Suc (2 * length s + 1)" by (simp add: scan_fuel_def)
  have ws: "skip_ws (CHR 0x22 # r) = CHR 0x22 # r" "skip_ws s = s" "skip_ws [] = []"
    using assms(2) by (simp_all add: skip_ws_id) (simp add: skip_ws_def)
  have m: "scan_members (2 * length s + 1) (CHR 0x22 # r) = Some (ms, [])"
    using scan_members_fuel [OF assms(1,3)] .
  then have "scan_value (scan_fuel s) s = Some []"
    unfolding f by (simp add: scan_value.simps(2) assms(2) ws(1))
  moreover have "scan_members (scan_fuel s) (CHR 0x22 # r) = Some (ms, [])"
    unfolding f using m by (rule scan_more_fuel)
  ultimately show ?thesis
    using assms(2) ws by (simp add: object_members_def json_valid_def)
qed

text \<open>
  A JSON text as \<^verbatim>\<open>json.Marshal\<close> produces it: one value, no white space around its tokens, HTML
  characters escaped.
\<close>

definition canonical_json :: "string \<Rightarrow> bool" where
  "canonical_json s \<longleftrightarrow> scan_value (scan_fuel s) s = Some [] \<and> compact False s = s"

lemma canonical_starts: "canonical_json s \<Longrightarrow> starts_value s"
  by (cases s) (auto simp: canonical_json_def starts_value_def scan_fuel_def scan_value.simps(2)
      is_ws_def is_digit_def split: if_splits)

lemma canonical_valid: "canonical_json s \<Longrightarrow> json_valid s"
  using canonical_starts [of s] skip_ws_id [of s]
  by (simp add: canonical_json_def json_valid_def starts_value_def skip_ws_def)

lemma marshal_raw_canonical: "canonical_json s \<Longrightarrow> marshal_raw s = Inr s"
  by (simp add: marshal_raw_def canonical_valid) (simp add: canonical_json_def)

lemma scan_canonical:
  assumes "canonical_json s" "scan_fuel s \<le> n" "\<not> num_char (hd t)"
  shows "scan_value n (s @ t) = Some t"
  using scan_append(1) [OF scan_value_fuel [of "scan_fuel s" s "[]" n], of t] assms
  by (simp add: canonical_json_def ends_number_def)

text \<open>A struct as \<^verbatim>\<open>json.Marshal\<close> writes it: its fields in order, with the texts of their values.\<close>

definition json_object :: "(string \<times> string) list \<Rightarrow> string" where
  "json_object ms = CHR ''{'' # intercalate [CHR '',''] (map (\<lambda>(k, v). json_quote k @ CHR '':'' # v) ms) @ [CHR ''}'']"

definition scannable :: "string \<Rightarrow> bool" where
  "scannable v \<longleftrightarrow> starts_value v \<and>
     (\<forall>n t. scan_fuel v \<le> n \<longrightarrow> t \<noteq> [] \<longrightarrow> \<not> num_char (hd t) \<longrightarrow> scan_value n (v @ t) = Some t)"

lemma scannable_Itoa: "scannable (Itoa i)"
proof -
  have "scan_value n (Itoa i @ t) = Some t" if "scan_fuel (Itoa i) \<le> n" "t \<noteq> []" "\<not> num_char (hd t)" for n t
    using scan_value_Itoa [OF that(2,3), of "n - 1"] that(1) by (simp add: scan_fuel_def)
  then show ?thesis by (simp add: scannable_def starts_value_Itoa)
qed

lemma scannable_quote: "scannable (json_quote s)"
proof -
  have "scan_value n (json_quote s @ t) = Some t" if "scan_fuel (json_quote s) \<le> n" for n t
    using scan_value_quote [of "n - 1" s t] that by (simp add: scan_fuel_def)
  then show ?thesis by (simp add: scannable_def starts_value_quote)
qed

lemma scannable_canonical: "canonical_json s \<Longrightarrow> scannable s"
  by (simp add: scannable_def canonical_starts scan_canonical)

lemma scan_members_intercalate:
  assumes "ms \<noteq> []" "\<forall>(k, v)\<in>set ms. scannable v \<and> scan_fuel v + length ms \<le> n"
  shows "scan_members n (intercalate [CHR '',''] (map (\<lambda>(k, v). json_quote k @ CHR '':'' # v) ms) @ CHR ''}'' # t) =
    Some (ms, t)"
  using assms
proof (induction ms arbitrary: n)
  case (Cons m ms)
  obtain k v where m: "m = (k, v)" by fastforce
  have v: "scannable v" "scan_fuel v \<le> n - 1" and n: "n = Suc (n - 1)" using Cons.prems(2) m by auto
  have sv: "starts_value v" using v(1) by (simp add: scannable_def)
  have scan: "scan_value (n - 1) (v @ d # u) = Some (d # u)" if "d = CHR '','' \<or> d = CHR ''}''" for d u
    using v that by (auto simp: scannable_def)
  show ?case
  proof (cases ms)
    case Nil
    then show ?thesis using scan_member [OF sv _ scan, of "CHR ''}''" k t] n m by simp
  next
    case (Cons m' ms')
    let ?rest = "intercalate [CHR '',''] (map (\<lambda>(k, v). json_quote k @ CHR '':'' # v) ms) @ CHR ''}'' # t"
    have "skip_ws ?rest = ?rest"
      using Cons by (intro skip_ws_id; cases m'; cases ms') (simp_all add: json_quote_def)
    moreover have "scan_members (n - 1) ?rest = Some (ms, t)"
      using Cons Cons.prems(2) n by (intro Cons.IH) (auto split: prod.splits)
    ultimately show ?thesis
      using scan_member [OF sv _ scan, of "CHR '',''" k ?rest] n m Cons by simp
  qed
qed simp

lemma intercalate_length:
  "(k, v) \<in> set ms \<Longrightarrow>
    length v + 2 * length ms \<le> length (intercalate [CHR '',''] (map (\<lambda>(k, v). json_quote k @ CHR '':'' # v) ms))"
proof (induction ms)
  case (Cons m ms)
  have all: "2 * length ms \<le> length (intercalate [CHR '',''] (map (\<lambda>(k, v). json_quote k @ CHR '':'' # v) ms))" for ms
    by (induction ms rule: induct_list012) (auto simp: json_quote_def split: prod.splits)
  show ?case using Cons all [of ms] by (cases ms) (auto simp: json_quote_def split: prod.splits)
qed simp

lemma object_members_json_object:
  assumes "ms \<noteq> []" "\<forall>(k, v)\<in>set ms. scannable v"
  shows "object_members (json_object ms) = Inr ms"
proof -
  let ?b = "intercalate [CHR '',''] (map (\<lambda>(k, v). json_quote k @ CHR '':'' # v) ms)"
  obtain r where r: "?b @ [CHR ''}''] = CHR 0x22 # r"
    using assms(1) by (cases ms; cases "tl ms") (auto simp: json_quote_def split: prod.splits)
  have "scan_fuel v + length ms \<le> 2 * length (json_object ms) + 1" if "(k, v) \<in> set ms" for k v
    using intercalate_length [OF that] by (simp add: scan_fuel_def json_object_def)
  then have "scan_members (2 * length (json_object ms) + 1) (?b @ [CHR ''}'']) = Some (ms, [])"
    using assms by (intro scan_members_intercalate) auto
  then show ?thesis
    using r by (intro object_members_eq [of "2 * length (json_object ms) + 1" r ms]) (simp_all add: json_object_def)
qed

section \<open>Base64\<close>

text \<open>\<^verbatim>\<open>base64.RawURLEncoding\<close>.\<close>

definition b64_char :: "nat \<Rightarrow> char" where
  "b64_char n = (if n < 26 then char_of (65 + n) else if n < 52 then char_of (71 + n)
     else if n < 62 then char_of (n - 4) else if n = 62 then CHR ''-'' else CHR ''_'')"

definition b64_val :: "char \<Rightarrow> nat option" where
  "b64_val c = (let n = byte c in
     if 65 \<le> n \<and> n \<le> 90 then Some (n - 65) else if 97 \<le> n \<and> n \<le> 122 then Some (n - 71)
     else if 48 \<le> n \<and> n \<le> 57 then Some (n + 4) else if c = CHR ''-'' then Some 62
     else if c = CHR ''_'' then Some 63 else None)"

fun b64_encode :: "string \<Rightarrow> string" where
  "b64_encode [] = []"
| "b64_encode [a] = [b64_char (byte a div 4), b64_char (byte a mod 4 * 16)]"
| "b64_encode [a, b] = [b64_char (byte a div 4), b64_char (byte a mod 4 * 16 + byte b div 16),
     b64_char (byte b mod 16 * 4)]"
| "b64_encode (a # b # c # r) =
     b64_char (byte a div 4) # b64_char (byte a mod 4 * 16 + byte b div 16) #
     b64_char (byte b mod 16 * 4 + byte c div 64) # b64_char (byte c mod 64) # b64_encode r"

fun b64_bytes :: "nat list \<Rightarrow> string option" where
  "b64_bytes [] = Some []"
| "b64_bytes [x] = None"
| "b64_bytes [x, y] = Some [char_of (x * 4 + y div 16)]"
| "b64_bytes [x, y, z] = Some [char_of (x * 4 + y div 16), char_of (y mod 16 * 16 + z div 4)]"
| "b64_bytes (x # y # z # w # r) = map_option
     (\<lambda>t. char_of (x * 4 + y div 16) # char_of (y mod 16 * 16 + z div 4) # char_of (z mod 4 * 64 + w) # t)
     (b64_bytes r)"

text \<open>The decoder skips line breaks and refuses any other foreign byte.\<close>

definition b64_decode :: "string \<Rightarrow> string option" where
  "b64_decode s =
     (let vs = map b64_val (filter (\<lambda>c. c \<noteq> CHR 0x0A \<and> c \<noteq> CHR 0x0D) s)
      in if None \<in> set vs then None else b64_bytes (map the vs))"

lemma b64_val_char: "n < 64 \<Longrightarrow> b64_val (b64_char n) = Some n"
  by (auto simp: b64_val_def b64_char_def Let_def)

fun b64_sextets :: "string \<Rightarrow> nat list" where
  "b64_sextets [] = []"
| "b64_sextets [a] = [byte a div 4, byte a mod 4 * 16]"
| "b64_sextets [a, b] = [byte a div 4, byte a mod 4 * 16 + byte b div 16, byte b mod 16 * 4]"
| "b64_sextets (a # b # c # r) = byte a div 4 # (byte a mod 4 * 16 + byte b div 16) #
     (byte b mod 16 * 4 + byte c div 64) # byte c mod 64 # b64_sextets r"

lemma b64_encode_sextets: "b64_encode s = map b64_char (b64_sextets s)"
  by (induction s rule: b64_encode.induct) simp_all

lemma sextet_bounds: "byte a div 4 < 64" "byte a mod 4 * 16 + byte b div 16 < 64" "byte b mod 16 * 4 + byte c div 64 < 64"
  "byte a mod 4 * 16 < 64" "byte b mod 16 * 4 < 64" "byte c mod 64 < 64"
proof -
  have "byte b div 16 < 16" "byte c div 64 < 4" "byte a div 4 < 64"
    using byte_less [of a] byte_less [of b] byte_less [of c] by (simp_all add: less_mult_imp_div_less)
  moreover have "byte a mod 4 < 4" "byte b mod 16 < 16" "byte c mod 64 < 64" by simp_all
  ultimately show "byte a div 4 < 64" "byte a mod 4 * 16 + byte b div 16 < 64" "byte b mod 16 * 4 + byte c div 64 < 64"
    "byte a mod 4 * 16 < 64" "byte b mod 16 * 4 < 64" "byte c mod 64 < 64" by linarith+
qed

lemma sextets_small: "\<forall>n\<in>set (b64_sextets s). n < 64"
  by (induction s rule: b64_sextets.induct) (simp_all add: sextet_bounds del: add_mult_distrib)

lemma sextets_glue:
  "byte a div 4 * 4 + (byte a mod 4 * 16 + byte b div 16) div 16 = byte a"
  "(byte a mod 4 * 16 + byte b div 16) mod 16 * 16 + (byte b mod 16 * 4 + byte c div 64) div 4 = byte b"
  "(byte b mod 16 * 4 + byte c div 64) mod 4 * 64 + byte c mod 64 = byte c"
proof -
  have b: "byte b div 16 < 16" "byte c div 64 < 4"
    using byte_less [of b] byte_less [of c] by (simp_all add: less_mult_imp_div_less)
  show "byte a div 4 * 4 + (byte a mod 4 * 16 + byte b div 16) div 16 = byte a"
    using b(1) by simp
  show "(byte a mod 4 * 16 + byte b div 16) mod 16 * 16 + (byte b mod 16 * 4 + byte c div 64) div 4 = byte b"
    using b by (simp add: mod_mult_self3)
  show "(byte b mod 16 * 4 + byte c div 64) mod 4 * 64 + byte c mod 64 = byte c"
    using b(2) by simp
qed

lemma b64_bytes_sextets: "b64_bytes (b64_sextets s) = Some s"
proof (induction s rule: b64_sextets.induct)
  case (2 a)
  then show ?case by simp
next
  case (3 a b)
  show ?case using sextets_glue(1) [of a b] sextets_glue(2) [of a b "CHR 0x00"] by simp
next
  case (4 a b c r)
  then show ?case unfolding b64_sextets.simps b64_bytes.simps sextets_glue by simp
qed simp

lemma b64_roundtrip: "b64_decode (b64_encode s) = Some s"
proof -
  have ok: "b64_char n \<noteq> CHR 0x0A \<and> b64_char n \<noteq> CHR 0x0D" if "n < 64" for n
    using b64_val_char [OF that] by (auto simp: b64_val_def)
  have "filter (\<lambda>c. c \<noteq> CHR 0x0A \<and> c \<noteq> CHR 0x0D) (b64_encode s) = b64_encode s"
    using ok sextets_small [of s] by (auto simp: b64_encode_sextets)
  moreover have "map b64_val (b64_encode s) = map Some (b64_sextets s)"
    using b64_val_char sextets_small [of s] by (simp add: b64_encode_sextets)
  ultimately show ?thesis by (simp add: b64_decode_def Let_def b64_bytes_sextets comp_def)
qed

end
