(* ===== verification/Registry.thy ===== *)
theory Registry
  imports Json Driver_Types
begin

text \<open>
  Job payloads and the worker registry (\<^verbatim>\<open>core/job.go\<close>, \<^verbatim>\<open>core/registry.go\<close>): the versioned
  payload envelope, and the dispatch of a raw job through decoding, upcasting and unmarshalling
  to its handler. User code (the unmarshalling of an argument type, its handler, its upcasters)
  is a parameter: fields of the registered entry. A handler returns an error or panics.
\<close>

section \<open>Data\<close>

record UniqueOpts =
  uo_ByArgs :: bool
  uo_Key :: string
  uo_ByQueue :: bool
  uo_ByPeriod :: duration
  uo_Forever :: bool

record InsertOpts =
  io_Queue :: string
  io_Priority :: int
  io_RunAt :: gotime
  io_UniqueOpts :: "UniqueOpts option"
  io_MaxRetry :: "int option"
  io_Timeout :: "duration option"
  io_Tags :: "string list"
  io_PipelineID :: string
  io_PayloadVersion :: int

record WorkerOpts =
  wo_MaxRetry :: int
  wo_Timeout :: duration
  wo_Concurrency :: int
  wo_PayloadVersion :: int
  wo_Upcasters :: "(int, string \<Rightarrow> string res) gmap"

record RawJob =
  rj_ID :: string
  rj_Queue :: string
  rj_Kind :: string
  rj_Args :: string
  rj_AttemptNum :: int
  rj_MaxRetry :: int
  rj_CreatedAt :: gotime
  rj_RunAt :: gotime
  rj_WorkerID :: string
  rj_Tags :: "string list"
  rj_PipelineID :: string
  rj_PayloadVersion :: int

text \<open>\<^verbatim>\<open>Job[T]\<close>: the raw job's metadata with typed arguments.\<close>

record 'a Job =
  jb_ID :: string
  jb_Queue :: string
  jb_Args :: 'a
  jb_AttemptNum :: int
  jb_MaxRetry :: int
  jb_CreatedAt :: gotime
  jb_RunAt :: gotime
  jb_WorkerID :: string
  jb_Tags :: "string list"
  jb_PipelineID :: string
  jb_PayloadVersion :: int

text \<open>How a handler ends: it returns (nil or an error) or panics with a value.\<close>

datatype handler_result = Returned "goerr option" | Panicked string

record 'a workerEntry =
  we_opts :: WorkerOpts
  we_unmarshal :: "string \<Rightarrow> 'a res"
  we_handler :: "'a Job \<Rightarrow> handler_result"

type_synonym 'a Registry = "(string, 'a workerEntry) gmap"

section \<open>The payload envelope\<close>

definition version_key :: string where
  "version_key = ''_goncordia_payload_version''"

definition EncodePayload :: "string \<Rightarrow> int \<Rightarrow> string res" where
  "EncodePayload payload version =
     (if version \<le> 0 then Inl (Errorf ''payload version must be positive'')
      else if version = 1 then Inr payload
      else (case marshal_raw payload of
              Inl e \<Rightarrow> Inl e
            | Inr raw \<Rightarrow> Inr (json_object [(version_key, Itoa version), (''payload'', raw)])))"

definition DecodePayload :: "string \<Rightarrow> (int \<times> string) res" where
  "DecodePayload payload =
     (case object_members payload of
        Inl e \<Rightarrow> Inl e
      | Inr ms \<Rightarrow>
          (case int_ptr_field version_key ms of
             Inl e \<Rightarrow> Inl e
           | Inr None \<Rightarrow> Inr (1, payload)
           | Inr (Some version) \<Rightarrow>
               if version \<le> 0 \<or> raw_field ''payload'' ms = []
               then Inl (Errorf ''invalid versioned payload envelope'')
               else Inr (version, raw_field ''payload'' ms)))"

section \<open>The registry\<close>

definition NewRegistry :: "'a Registry" where
  "NewRegistry = []"

definition RegisterWorker :: "string \<Rightarrow> 'a workerEntry \<Rightarrow> 'a Registry \<Rightarrow> 'a Registry" where
  "RegisterWorker kind entry r = gput kind entry r"

text \<open>The loop that brings a payload to the worker's version.\<close>

function upcast_loop :: "string \<Rightarrow> (int, string \<Rightarrow> string res) gmap \<Rightarrow> int \<Rightarrow> int \<Rightarrow> string \<Rightarrow> string res" where
  "upcast_loop kind ups version current payload =
     (if version < current then
        (case gget ups version of
           None \<Rightarrow> Inl (Discard (Errorf (''missing payload upcaster for kind '' @ go_quote kind @
                      '' from version '' @ Itoa version)))
         | Some upcast \<Rightarrow>
             (case upcast payload of
                Inl e \<Rightarrow> Inl (Discard (wrap_prefix (''upcast job payload for kind '' @ go_quote kind @
                           '' from version '' @ Itoa version) e))
              | Inr payload' \<Rightarrow> upcast_loop kind ups (version + 1) current payload'))
      else Inr payload)"
  by pat_completeness auto
termination by (relation "measure (\<lambda>(_, _, v, c, _). nat (c - v))") auto

declare upcast_loop.simps [simp del]

definition current_version :: "WorkerOpts \<Rightarrow> int" where
  "current_version opts = (if wo_PayloadVersion opts \<le> 0 then 1 else wo_PayloadVersion opts)"

definition typed_job :: "RawJob \<Rightarrow> int \<Rightarrow> 'a \<Rightarrow> 'a Job" where
  "typed_job raw version args =
     \<lparr>jb_ID = rj_ID raw, jb_Queue = rj_Queue raw, jb_Args = args, jb_AttemptNum = rj_AttemptNum raw,
      jb_MaxRetry = rj_MaxRetry raw, jb_CreatedAt = rj_CreatedAt raw, jb_RunAt = rj_RunAt raw,
      jb_WorkerID = rj_WorkerID raw, jb_Tags = rj_Tags raw, jb_PipelineID = rj_PipelineID raw,
      jb_PayloadVersion = version\<rparr>"

text \<open>
  The closure that \<^verbatim>\<open>RegisterWorker\<close> stores, as a function of the entry and the raw job. It also
  records the version on the raw job once decoding has got that far.
\<close>

definition entry_process :: "string \<Rightarrow> 'a workerEntry \<Rightarrow> RawJob \<Rightarrow> RawJob \<times> handler_result" where
  "entry_process kind entry raw =
     (case DecodePayload (rj_Args raw) of
        Inl e \<Rightarrow> (raw, Returned (Some (Discard (wrap_prefix (''decode job payload for kind '' @ go_quote kind) e))))
      | Inr (version, payload) \<Rightarrow>
          let current = current_version (we_opts entry)
          in if version > current
             then (raw, Returned (Some (Discard (Errorf (''job payload for kind '' @ go_quote kind @
                     '' has version '' @ Itoa version @ '', worker supports '' @ Itoa current)))))
             else (case upcast_loop kind (wo_Upcasters (we_opts entry)) version current payload of
                 Inl e \<Rightarrow> (raw, Returned (Some e))
               | Inr payload' \<Rightarrow>
                   let raw' = raw\<lparr>rj_PayloadVersion := current\<rparr>
                   in (case we_unmarshal entry payload' of
                       Inl e \<Rightarrow> (raw', Returned (Some (Discard
                                  (wrap_prefix (''unmarshal job args for kind '' @ go_quote kind) e))))
                     | Inr args \<Rightarrow> (raw', we_handler entry (typed_job raw' current args)))))"

definition Registry_Process :: "'a Registry \<Rightarrow> RawJob \<Rightarrow> RawJob \<times> handler_result" where
  "Registry_Process r raw =
     (case gget r (rj_Kind raw) of
        None \<Rightarrow> (raw, Returned (Some (Errorf (''no worker registered for job kind '' @ go_quote (rj_Kind raw)))))
      | Some entry \<Rightarrow> entry_process (rj_Kind raw) entry raw)"

definition Registry_Opts :: "'a Registry \<Rightarrow> string \<Rightarrow> WorkerOpts option" where
  "Registry_Opts r kind = map_option we_opts (gget r kind)"

definition Registry_Kinds :: "'a Registry \<Rightarrow> string list" where
  "Registry_Kinds r = gkeys r"

section \<open>The envelope read back\<close>

lemma version_fields [simp]:
  "same_field version_key version_key" "\<not> same_field ''payload'' version_key"
  "same_field ''payload'' ''payload''" "\<not> same_field version_key ''payload''"
  by (simp_all add: same_field_def version_key_def fold_char_def)

lemma Itoa_not_null: "Itoa n \<noteq> ''null''"
proof
  assume "Itoa n = ''null''"
  then have "num_char (CHR ''n'')" using num_char_Itoa [of "CHR ''n''" n] by simp
  then show False by (simp add: num_char_def is_digit_def)
qed

lemma DecodePayload_EncodePayload:
  assumes "canonical_json payload" "1 < version" "is_duration version"
  shows "\<exists>text. EncodePayload payload version = Inr text \<and> DecodePayload text = Inr (version, payload)"
proof -
  let ?ms = "[(version_key, Itoa version), (''payload'', payload)]"
  have m: "object_members (json_object ?ms) = Inr ?ms"
    using assms(1) by (intro object_members_json_object) (simp_all add: scannable_Itoa scannable_canonical)
  have "payload \<noteq> []" using canonical_starts [OF assms(1)] by (simp add: starts_value_def)
  moreover have "int_ptr_field version_key ?ms = Inr (Some version)"
    by (simp add: int_ptr_field_def field_values_def assign_int_ptr_def Itoa_not_null parse_int64_Itoa assms(3))
  moreover have "raw_field ''payload'' ?ms = payload" by (simp add: raw_field_def field_values_def)
  ultimately show ?thesis
    using assms(2) m by (simp add: EncodePayload_def marshal_raw_canonical [OF assms(1)] DecodePayload_def)
qed

text \<open>
  Claim C34: payloads survive the envelope. A payload as \<^verbatim>\<open>json.Marshal\<close> produces it comes back
  unchanged with its version, for every version above one; for version one the stored text is the
  payload itself, and it is read as version one when it is an object without a version field.
\<close>

theorem payload_round_trip:
  assumes "canonical_json payload" "is_duration version" "0 < version"
    and "version = 1 \<Longrightarrow> object_members payload = Inr ms \<and> field_values version_key ms = []"
  shows "\<exists>text. EncodePayload payload version = Inr text \<and> DecodePayload text = Inr (version, payload)"
proof (cases "version = 1")
  case True
  with assms(4) show ?thesis by (simp add: EncodePayload_def DecodePayload_def int_ptr_field_def)
next
  case False
  with assms DecodePayload_EncodePayload show ?thesis by simp
qed

theorem payload_round_trip_witness:
  "\<exists>text. EncodePayload ''[1,2]'' 3 = Inr text \<and> DecodePayload text = Inr (3, ''[1,2]'')"
proof -
  have "canonical_json ''[1,2]''" by code_simp
  then show ?thesis
    using payload_round_trip [of "''[1,2]''" 3] by (simp add: is_duration_def min_duration_def max_duration_def)
qed

text \<open>
  A version-one payload that is not a JSON object does not survive: the array \<^verbatim>\<open>[1,2]\<close>
  is stored unchanged and then refused, so that the job is discarded.
\<close>

theorem legacy_non_object_payload_is_refused:
  "EncodePayload ''[1,2]'' 1 = Inr ''[1,2]'' \<and> (\<exists>e. DecodePayload ''[1,2]'' = Inl e)"
proof -
  have "object_members ''[1,2]'' = Inl json_error" by code_simp
  then show ?thesis by (simp add: EncodePayload_def DecodePayload_def)
qed

section \<open>Dispatch\<close>

text \<open>The chain of upcasters that a payload goes through: \<open>n\<close> steps from a version.\<close>

fun upcast_chain :: "(int, string \<Rightarrow> string res) gmap \<Rightarrow> int \<Rightarrow> nat \<Rightarrow> string \<Rightarrow> string option" where
  "upcast_chain ups version 0 payload = Some payload"
| "upcast_chain ups version (Suc n) payload =
     (case gget ups version of
        Some f \<Rightarrow> (case f payload of Inr payload' \<Rightarrow> upcast_chain ups (version + 1) n payload' | Inl _ \<Rightarrow> None)
      | None \<Rightarrow> None)"

lemma upcast_loop_chain:
  assumes "n = nat (current - version)"
  shows "case upcast_chain ups version n payload of
      Some p \<Rightarrow> upcast_loop kind ups version current payload = Inr p
    | None \<Rightarrow> (\<exists>e. upcast_loop kind ups version current payload = Inl (Discard e))"
  using assms
proof (induction n arbitrary: version payload)
  case (Suc n)
  then have lt: "version < current" "n = nat (current - (version + 1))" by simp_all
  show ?case
  proof (cases "gget ups version")
    case None
    with lt(1) show ?thesis by (auto simp: upcast_loop.simps [of kind ups version])
  next
    case (Some f)
    show ?thesis
    proof (cases "f payload")
      case (Inl e)
      with Some lt(1) show ?thesis by (auto simp: upcast_loop.simps [of kind ups version])
    next
      case (Inr p)
      with Some lt(1) Suc.IH [OF lt(2), of p] show ?thesis
        by (simp add: upcast_loop.simps [of kind ups version] split: option.splits)
    qed
  qed
qed (simp add: upcast_loop.simps)

text \<open>
  The dispatch of a job whose kind is registered. When its payload decodes to a version
  the worker supports and the upcasters from there to the worker's version all succeed and their
  result unmarshals, the handler is called once with exactly those arguments and the job's
  metadata, and its result is returned; in every other case the handler is not called and the
  result is a discard.
\<close>

theorem dispatch_of_registered_kind:
  assumes "gget reg (rj_Kind raw) = Some entry" "current = current_version (we_opts entry)"
  shows "case DecodePayload (rj_Args raw) of
      Inl e \<Rightarrow> (\<exists>d. snd (Registry_Process reg raw) = Returned (Some (Discard d)))
    | Inr (version, payload) \<Rightarrow>
        (case (if version \<le> current
               then upcast_chain (wo_Upcasters (we_opts entry)) version (nat (current - version)) payload
               else None) of
           None \<Rightarrow> (\<exists>d. snd (Registry_Process reg raw) = Returned (Some (Discard d)))
         | Some payload' \<Rightarrow>
             (case we_unmarshal entry payload' of
                Inl e \<Rightarrow> (\<exists>d. snd (Registry_Process reg raw) = Returned (Some (Discard d)))
              | Inr args \<Rightarrow> snd (Registry_Process reg raw) = we_handler entry (typed_job raw current args)))"
proof (cases "DecodePayload (rj_Args raw)")
  case (Inl e)
  with assms(1) show ?thesis by (auto simp: Registry_Process_def entry_process_def)
next
  case (Inr vp)
  obtain version payload where vp: "vp = (version, payload)" by fastforce
  have typed: "typed_job (raw\<lparr>rj_PayloadVersion := current\<rparr>) current args = typed_job raw current args"
    for args :: 'a by (simp add: typed_job_def)
  show ?thesis
    using upcast_loop_chain [OF HOL.refl, where current = current and version = version and payload = payload and kind = "rj_Kind raw"
        and ups = "wo_Upcasters (we_opts entry)"]
      assms Inr vp typed
    by (auto simp: Registry_Process_def entry_process_def Let_def not_le split: option.splits sum.splits)
qed

text \<open>A worker at version 2 with one upcaster receives a version-one job.\<close>

definition sample_entry :: "string workerEntry" where
  "sample_entry = \<lparr>we_opts = \<lparr>wo_MaxRetry = 3, wo_Timeout = 0, wo_Concurrency = 0, wo_PayloadVersion = 2,
       wo_Upcasters = [(1, \<lambda>p. Inr ''[2]'')]\<rparr>,
     we_unmarshal = Inr, we_handler = (\<lambda>job. Returned (Some (Errorf (jb_Args job))))\<rparr>"

definition sample_raw :: RawJob where
  "sample_raw = \<lparr>rj_ID = ''j'', rj_Queue = ''q'', rj_Kind = ''k'', rj_Args = ''{}'', rj_AttemptNum = 1, rj_MaxRetry = 3,
     rj_CreatedAt = 0, rj_RunAt = 0, rj_WorkerID = ''w'', rj_Tags = [], rj_PipelineID = [], rj_PayloadVersion = 0\<rparr>"

theorem dispatch_of_registered_kind_witness:
  "snd (Registry_Process [(''k'', sample_entry)] sample_raw) = Returned (Some (Errorf ''[2]''))"
proof -
  have "object_members ''{}'' = Inr []" by code_simp
  then have d: "DecodePayload (rj_Args sample_raw) = Inr (1, ''{}'')"
    by (simp add: DecodePayload_def sample_raw_def int_ptr_field_def field_values_def)
  have g: "gget [(''k'', sample_entry)] (rj_Kind sample_raw) = Some sample_entry" by (simp add: sample_raw_def)
  have c: "2 = current_version (we_opts sample_entry)" by (simp add: sample_entry_def current_version_def)
  have u: "upcast_chain (wo_Upcasters (we_opts sample_entry)) 1 (nat (2 - 1)) ''{}'' = Some ''[2]''" by code_simp
  have m: "we_unmarshal sample_entry ''[2]'' = Inr ''[2]''" by (simp add: sample_entry_def)
  have h: "we_handler sample_entry (typed_job sample_raw 2 ''[2]'') = Returned (Some (Errorf ''[2]''))"
    by (simp add: sample_entry_def typed_job_def)
  have le: "(1 :: int) \<le> 2" by simp
  from dispatch_of_registered_kind [OF g c] show ?thesis
    unfolding d sum.case prod.case if_P [OF le] u option.case m h .
qed

end
