(* ===== verification/Pagination.thy ===== *)
theory Pagination
  imports Json Memory_Properties
begin

text \<open>
  Opaque cursors (\<^verbatim>\<open>driver/pagination.go\<close>) and the administrative listings of the in-memory
  driver (\<^verbatim>\<open>JobList\<close>, \<^verbatim>\<open>QueueList\<close>) that use them.
\<close>

section \<open>Cursors\<close>

definition EncodeJobCursor :: "JobRow \<Rightarrow> string" where
  "EncodeJobCursor row = b64_encode (json_object
     [(''v'', Itoa 1), (''created_at'', Itoa (UnixNano (CreatedAt row))), (''id'', json_quote (ID row))])"

definition bad_cursor_encoding :: goerr where
  "bad_cursor_encoding = wrap_sentinel ErrInvalidCursor ''malformed encoding''"

definition bad_cursor_payload :: goerr where
  "bad_cursor_payload = wrap_sentinel ErrInvalidCursor ''unsupported or malformed payload''"

definition DecodeJobCursor :: "string \<Rightarrow> (gotime \<times> string) res" where
  "DecodeJobCursor cursor =
     (case b64_decode cursor of
        None \<Rightarrow> Inl bad_cursor_encoding
      | Some payload \<Rightarrow>
          (case object_members payload of
             Inl e \<Rightarrow> Inl bad_cursor_payload
           | Inr ms \<Rightarrow>
               (case (int_field ''v'' ms, int_field ''created_at'' ms, string_field ''id'' ms) of
                  (Inr version, Inr created, Inr jid) \<Rightarrow>
                    if version \<noteq> 1 \<or> created = 0 \<or> jid = [] then Inl bad_cursor_payload
                    else Inr (unix_epoch + created, jid)
                | _ \<Rightarrow> Inl bad_cursor_payload)))"

definition JobFollowsCursor :: "JobRow \<Rightarrow> gotime \<Rightarrow> string \<Rightarrow> bool" where
  "JobFollowsCursor row createdAt jid \<longleftrightarrow>
     CreatedAt row < createdAt \<or> CreatedAt row = createdAt \<and> ID row < jid"

definition EncodeQueueCursor :: "QueueRow \<Rightarrow> string" where
  "EncodeQueueCursor row = b64_encode (json_object [(''v'', Itoa 1), (''name'', json_quote (qr_Name row))])"

definition DecodeQueueCursor :: "string \<Rightarrow> string res" where
  "DecodeQueueCursor cursor =
     (case b64_decode cursor of
        None \<Rightarrow> Inl bad_cursor_encoding
      | Some payload \<Rightarrow>
          (case object_members payload of
             Inl e \<Rightarrow> Inl bad_cursor_payload
           | Inr ms \<Rightarrow>
               (case (int_field ''v'' ms, string_field ''name'' ms) of
                  (Inr version, Inr name) \<Rightarrow>
                    if version \<noteq> 1 \<or> name = [] then Inl bad_cursor_payload else Inr name
                | _ \<Rightarrow> Inl bad_cursor_payload)))"

section \<open>Listings\<close>

definition page_limit :: "int \<Rightarrow> nat" where
  "page_limit limit = (if limit \<le> 0 \<or> limit > 1000 then 100 else nat limit)"

definition list_matches :: "JobListParams \<Rightarrow> JobRow \<Rightarrow> bool" where
  "list_matches p row \<longleftrightarrow>
     (jl_Queue p = [] \<or> Queue row = jl_Queue p) \<and>
     (jl_State p = NoState \<or> State row = jl_State p) \<and>
     (jl_Kind p = [] \<or> Kind row = jl_Kind p)"

definition list_less :: "JobRow \<Rightarrow> JobRow \<Rightarrow> bool" where
  "list_less a b = (if CreatedAt a \<noteq> CreatedAt b then CreatedAt a > CreatedAt b else ID a > ID b)"

definition JobList :: "JobListParams \<Rightarrow> mem \<Rightarrow> JobRow list res" where
  "JobList p d =
     (case (if jl_Cursor p \<noteq> [] then DecodeJobCursor (jl_Cursor p) else Inr (0, [])) of
        Inl e \<Rightarrow> Inl e
      | Inr (cursorAt, cursorID) \<Rightarrow>
          let rows = filter (\<lambda>row. list_matches p row \<and>
                       (jl_Cursor p = [] \<or> JobFollowsCursor row cursorAt cursorID)) (gvals (jobs d))
          in Inr (take (page_limit (jl_Limit p)) (sort_slice list_less rows)))"

definition QueueList :: "QueueListParams \<Rightarrow> mem \<Rightarrow> QueueRow list res" where
  "QueueList p d =
     (case (if ql_Cursor p \<noteq> [] then DecodeQueueCursor (ql_Cursor p) else Inr []) of
        Inl e \<Rightarrow> Inl e
      | Inr cursor \<Rightarrow>
          let rows = filter (\<lambda>q. \<not> qr_Name q \<le> cursor) (gvals (queues d))
          in Inr (take (page_limit (ql_Limit p)) (sort_slice (\<lambda>a b. qr_Name a < qr_Name b) rows)))"

section \<open>Cursors read back\<close>

lemma fold_distinct_fields [simp]:
  "same_field ''v'' ''v''" "same_field ''created_at'' ''created_at''" "same_field ''id'' ''id''"
  "same_field ''name'' ''name''"
  "\<not> same_field ''created_at'' ''v''" "\<not> same_field ''id'' ''v''" "\<not> same_field ''v'' ''created_at''"
  "\<not> same_field ''id'' ''created_at''" "\<not> same_field ''v'' ''id''" "\<not> same_field ''created_at'' ''id''"
  "\<not> same_field ''name'' ''v''" "\<not> same_field ''v'' ''name''"
  by (simp_all add: same_field_def fold_char_def)

lemma assign_int_Itoa: "is_duration n \<Longrightarrow> assign_int (Itoa n) (Inr v) = Inr n"
proof -
  assume n: "is_duration n"
  have "Itoa n \<noteq> ''null''"
  proof
    assume "Itoa n = ''null''"
    then have "num_char (CHR ''n'')" using num_char_Itoa [of "CHR ''n''" n] by simp
    then show False by (simp add: num_char_def is_digit_def)
  qed
  then show ?thesis by (simp add: assign_int_def parse_int64_Itoa [OF n])
qed

lemma assign_string_quote: "assign_string (json_quote s) (Inr v) = Inr s"
  using read_str_quote [of s "[]"] by (simp add: assign_string_def json_quote_def)

lemma is_duration_1: "is_duration 1"
  by (simp add: is_duration_def min_duration_def max_duration_def)

lemma DecodeJobCursor_Encode:
  assumes "UnixNano (CreatedAt row) \<noteq> 0" "ID row \<noteq> []"
  shows "DecodeJobCursor (EncodeJobCursor row) = Inr (unix_epoch + UnixNano (CreatedAt row), ID row)"
proof -
  let ?ms = "[(''v'', Itoa 1), (''created_at'', Itoa (UnixNano (CreatedAt row))), (''id'', json_quote (ID row))]"
  have m: "object_members (json_object ?ms) = Inr ?ms"
    by (rule object_members_json_object) (simp_all add: scannable_Itoa scannable_quote)
  have d: "is_duration (UnixNano (CreatedAt row))" by (simp add: UnixNano_def wrap64_range)
  have "int_field ''v'' ?ms = Inr 1" "int_field ''created_at'' ?ms = Inr (UnixNano (CreatedAt row))"
    "string_field ''id'' ?ms = Inr (ID row)"
    by (simp_all add: int_field_def string_field_def field_values_def assign_int_Itoa is_duration_1 d assign_string_quote)
  with assms show ?thesis by (simp add: DecodeJobCursor_def EncodeJobCursor_def b64_roundtrip m)
qed

lemma DecodeQueueCursor_Encode:
  assumes "qr_Name row \<noteq> []"
  shows "DecodeQueueCursor (EncodeQueueCursor row) = Inr (qr_Name row)"
proof -
  let ?ms = "[(''v'', Itoa 1), (''name'', json_quote (qr_Name row))]"
  have m: "object_members (json_object ?ms) = Inr ?ms"
    by (rule object_members_json_object) (simp_all add: scannable_Itoa scannable_quote)
  have "int_field ''v'' ?ms = Inr 1" "string_field ''name'' ?ms = Inr (qr_Name row)"
    by (simp_all add: int_field_def string_field_def field_values_def assign_int_Itoa is_duration_1 assign_string_quote)
  with assms show ?thesis by (simp add: DecodeQueueCursor_def EncodeQueueCursor_def b64_roundtrip m)
qed

text \<open>Instants that a cursor can carry: within the range of \<^verbatim>\<open>UnixNano\<close> and not the epoch itself.\<close>

definition cursor_time :: "gotime \<Rightarrow> bool" where
  "cursor_time t \<longleftrightarrow> is_duration (t - unix_epoch) \<and> t \<noteq> unix_epoch"

lemma UnixNano_exact: "cursor_time t \<Longrightarrow> UnixNano t = t - unix_epoch \<and> UnixNano t \<noteq> 0"
  by (simp add: cursor_time_def UnixNano_def wrap64_id)

text \<open>
  A cursor decodes to the position it was made from, for every row with a non-empty ID
  created at an instant a 64-bit Unix time can carry, the epoch excepted; queue cursors likewise
  for non-empty names.
\<close>

theorem cursor_round_trip:
  assumes "cursor_time (CreatedAt row)" "ID row \<noteq> []" "qr_Name q \<noteq> []"
  shows "DecodeJobCursor (EncodeJobCursor row) = Inr (CreatedAt row, ID row) \<and>
    DecodeQueueCursor (EncodeQueueCursor q) = Inr (qr_Name q)"
  using DecodeJobCursor_Encode [of row] DecodeQueueCursor_Encode [OF assms(3)] UnixNano_exact [OF assms(1)] assms(2)
  by simp


section \<open>Order of the listings\<close>

lemma b64_encode_Nil: "b64_encode s = [] \<longleftrightarrow> s = []"
  by (cases s rule: b64_encode.cases) simp_all

text \<open>The reverse of an order, for keys compared in descending order.\<close>

datatype 'a desc = Desc (undesc: 'a)

instantiation desc :: (linorder) linorder
begin

definition less_eq_desc :: "'a desc \<Rightarrow> 'a desc \<Rightarrow> bool" where
  "less_eq_desc a b \<longleftrightarrow> undesc b \<le> undesc a"

definition less_desc :: "'a desc \<Rightarrow> 'a desc \<Rightarrow> bool" where
  "less_desc a b \<longleftrightarrow> undesc b < undesc a"

instance
  by standard (auto simp: less_eq_desc_def less_desc_def desc.expand)

end

definition list_key :: "JobRow \<Rightarrow> int desc \<times> string desc" where
  "list_key r = (Desc (CreatedAt r), Desc (ID r))"

interpretation list_order: slice_order list_less list_key
  by unfold_locales (auto simp: list_less_def list_key_def less_desc_def less_eq_desc_def)

interpretation queue_order: slice_order "\<lambda>a b. qr_Name a < qr_Name b" qr_Name
  by unfold_locales simp

text \<open>In a strictly sorted list, what comes after a position is what is greater.\<close>

lemma drop_Suc_filter:
  assumes "sorted_wrt (\<lambda>x y. key x < (key y :: 'k :: linorder)) xs" "i < length xs"
  shows "drop (Suc i) xs = filter (\<lambda>y. key (xs ! i) < key y) xs"
  using assms
proof (induction xs arbitrary: i)
  case (Cons x xs)
  show ?case
  proof (cases i)
    case 0
    with Cons.prems(1) show ?thesis by (simp add: filter_id_conv)
  next
    case (Suc j)
    with Cons.prems have "key x < key (xs ! j)" by simp
    with Suc Cons show ?thesis by (simp add: not_less_iff_gr_or_eq)
  qed
qed simp

context slice_order
begin

text \<open>Paging by key: the elements beyond the \<open>i\<close>-th of the sorted slice, from the unsorted one.\<close>

lemma sort_slice_after:
  assumes "inj_on key (set xs)" "distinct xs" "i < length xs"
  shows "sort_slice lt (filter (\<lambda>y. lt (sort_slice lt xs ! i) y) xs) = drop (Suc i) (sort_slice lt xs)"
proof -
  let ?s = "sort_slice lt xs"
  have "sorted_wrt (<) (map key ?s)"
    using sorted_sort_slice [of xs] assms(1,2)
    by (simp add: strict_sorted_iff distinct_map distinct_sort_slice set_sort_slice)
  then have "sorted_wrt (\<lambda>x y. key x < key y) ?s" by (simp add: sorted_wrt_map)
  then have "drop (Suc i) ?s = filter (\<lambda>y. key (?s ! i) < key y) ?s"
    using assms(3) by (intro drop_Suc_filter) (simp_all add: length_sort_slice)
  also have "\<dots> = sort_slice lt (filter (\<lambda>y. lt (?s ! i) y) xs)"
    by (simp add: sort_slice_eq lt_iff filter_sort)
  finally show ?thesis by simp
qed

end

text \<open>All matching jobs, newest first.\<close>

definition listed :: "JobListParams \<Rightarrow> mem \<Rightarrow> JobRow list" where
  "listed p d = sort_slice list_less (filter (list_matches p) (gvals (jobs d)))"

lemma list_rows_distinct:
  assumes "mem_inv d"
  shows "distinct (filter P (gvals (jobs d)))" "inj_on list_key (set (filter P (gvals (jobs d))))"
    "inj_on ID (set (gvals (jobs d)))"
proof -
  note dist = mem_inv_distinct(1) [OF assms]
  have ids: "map ID (gvals (jobs d)) = gkeys (jobs d)"
  proof -
    have "ID v = k" if "(k, v) \<in> set (jobs d)" for k v
      using mem_invD(1) [OF assms] gget_Some_iff [OF dist] that by blast
    then show ?thesis by auto
  qed
  have "distinct (map ID (gvals (jobs d)))" unfolding ids by (rule dist)
  then show inj: "inj_on ID (set (gvals (jobs d)))" and "distinct (filter P (gvals (jobs d)))"
    using distinct_map [of ID "gvals (jobs d)"] by auto
  show "inj_on list_key (set (filter P (gvals (jobs d))))"
    using inj by (auto simp: inj_on_def list_key_def)
qed

lemma job_pages:
  assumes "mem_inv d" "\<forall>r\<in>set (AllJobs d). cursor_time (CreatedAt r)" "jl_Cursor p = []"
    and "i < length (listed p d)"
  shows "JobList p d = Inr (take (page_limit (jl_Limit p)) (listed p d)) \<and>
    JobList (p\<lparr>jl_Cursor := EncodeJobCursor (listed p d ! i)\<rparr>) d =
      Inr (take (page_limit (jl_Limit p)) (drop (Suc i) (listed p d))) \<and>
    sorted_wrt (\<lambda>a b. list_less a b) (listed p d) \<and>
    set (listed p d) = {r \<in> set (AllJobs d). list_matches p r}"
proof (intro conjI)
  let ?rows = "filter (list_matches p) (gvals (jobs d))"
  let ?r = "listed p d ! i"
  note dist = list_rows_distinct(1,2) [OF assms(1), of "list_matches p"]
  show "JobList p d = Inr (take (page_limit (jl_Limit p)) (listed p d))"
    using assms(3) by (simp add: JobList_def listed_def Let_def)
  have set: "set (listed p d) = set ?rows" by (simp add: listed_def list_order.set_sort_slice)
  then show "set (listed p d) = {r \<in> set (AllJobs d). list_matches p r}" by (auto simp: AllJobs_def)
  have "?r \<in> set ?rows" using nth_mem [OF assms(4)] set by simp
  then have mem: "?r \<in> set (gvals (jobs d))" by simp
  then have t: "cursor_time (CreatedAt ?r)" using assms(2) unfolding AllJobs_def by blast
  obtain k where "(k, ?r) \<in> set (jobs d)" using mem by auto
  then have "gget (jobs d) k = Some ?r" using gget_Some_iff mem_inv_distinct(1) [OF assms(1)] by fast
  then have idne: "ID ?r \<noteq> []" using mem_invD(1,2) [OF assms(1)] by (auto simp: valid_id_def)
  have dec: "DecodeJobCursor (EncodeJobCursor ?r) = Inr (CreatedAt ?r, ID ?r)"
    using DecodeJobCursor_Encode [of ?r] UnixNano_exact [OF t] idne by simp
  have ne: "EncodeJobCursor ?r \<noteq> []"
    unfolding EncodeJobCursor_def b64_encode_Nil by (simp add: json_object_def)
  have match: "list_matches (p\<lparr>jl_Cursor := c\<rparr>) r = list_matches p r" for c r by (simp add: list_matches_def)
  have follows: "JobFollowsCursor r (CreatedAt ?r) (ID ?r) = list_less ?r r" for r
    by (auto simp: JobFollowsCursor_def list_less_def)
  have rows: "filter (\<lambda>row. list_matches p row \<and> list_less ?r row) (gvals (jobs d)) =
      filter (\<lambda>y. list_less ?r y) ?rows" by (simp add: conj_commute)
  have "i < length ?rows" using assms(4) by (simp add: listed_def list_order.length_sort_slice)
  then have after: "sort_slice list_less (filter (\<lambda>y. list_less ?r y) ?rows) = drop (Suc i) (listed p d)"
    unfolding listed_def by (rule list_order.sort_slice_after [OF dist(2,1)])
  show "JobList (p\<lparr>jl_Cursor := EncodeJobCursor ?r\<rparr>) d =
      Inr (take (page_limit (jl_Limit p)) (drop (Suc i) (listed p d)))"
    using ne by (simp add: JobList_def dec match Let_def follows rows after del: filter_filter)
  have "sorted_wrt (<) (map list_key (listed p d))"
    using list_order.sorted_sort_slice [of ?rows] dist
    by (simp add: listed_def strict_sorted_iff distinct_map list_order.distinct_sort_slice list_order.set_sort_slice)
  then show "sorted_wrt (\<lambda>a b. list_less a b) (listed p d)"
    by (simp add: sorted_wrt_map list_order.lt_iff [symmetric])
qed

text \<open>
  Claim C8: paging through jobs is complete and without repetition. The first page is the
  beginning of the list of matching jobs, newest first; the page asked for with the cursor of the
  job at any position of that list continues right after that position. So the pages of an
  unchanged store, joined, are the whole list.
\<close>

theorem job_pages_partition:
  assumes "mem_inv d" "\<forall>r\<in>set (AllJobs d). cursor_time (CreatedAt r)" "jl_Cursor p = []"
    and "i < length (listed p d)"
  shows "JobList p d = Inr (take (page_limit (jl_Limit p)) (listed p d)) \<and>
    JobList (p\<lparr>jl_Cursor := EncodeJobCursor (listed p d ! i)\<rparr>) d =
      Inr (take (page_limit (jl_Limit p)) (drop (Suc i) (listed p d))) \<and>
    sorted_wrt (\<lambda>a b. list_less a b) (listed p d) \<and>
    set (listed p d) = {r \<in> set (AllJobs d). list_matches p r}"
  by (rule job_pages [OF assms])

text \<open>Witnesses: a store with two jobs created one nanosecond apart, after the epoch.\<close>

definition sample_row :: JobRow where
  "sample_row = new_row ''mem_1'' (unix_epoch + 5) (sample_job 0 [])"

definition sample_queue :: QueueRow where
  "sample_queue = \<lparr>qr_Name = ''q'', qr_Paused = False, qr_CreatedAt = 0, qr_UpdatedAt = 0\<rparr>"

lemma cursor_time_sample: "0 < n \<Longrightarrow> n < 1000 \<Longrightarrow> cursor_time (unix_epoch + n)"
  by (simp add: cursor_time_def is_duration_def min_duration_def max_duration_def)

theorem cursor_round_trip_witness:
  "DecodeJobCursor (EncodeJobCursor sample_row) = Inr (unix_epoch + 5, ''mem_1'') \<and>
   DecodeQueueCursor (EncodeQueueCursor sample_queue) = Inr ''q''"
  using cursor_round_trip [of sample_row sample_queue] cursor_time_sample [of 5]
  by (simp add: sample_row_def new_row_def Let_def sample_queue_def)

definition sample_list :: JobListParams where
  "sample_list = \<lparr>jl_Queue = ''q'', jl_State = NoState, jl_Kind = [], jl_Limit = 1, jl_Cursor = []\<rparr>"

definition sample_store :: mem where
  "sample_store = fst (JobInsertMany (\<lambda>i. unix_epoch + 5 + int i) [sample_job 0 [], sample_job 0 []] mem_New)"

theorem job_pages_partition_witness:
  "map ID (listed sample_list sample_store) = [''mem_2'', ''mem_1''] \<and>
   JobList (sample_list\<lparr>jl_Cursor := EncodeJobCursor (listed sample_list sample_store ! 0)\<rparr>) sample_store =
     Inr (take 1 (drop 1 (listed sample_list sample_store)))"
proof -
  have inv: "mem_inv sample_store" unfolding sample_store_def
    by (rule mem_inv_JobInsertMany [OF mem_inv_New]) (simp add: mem_New_def)
  have "map CreatedAt (AllJobs sample_store) = [unix_epoch + 5, unix_epoch + 6]" by code_simp
  then have "\<forall>t\<in>set (map CreatedAt (AllJobs sample_store)). cursor_time t"
    using cursor_time_sample [of 5] cursor_time_sample [of 6] by simp
  then have t: "\<forall>r\<in>set (AllJobs sample_store). cursor_time (CreatedAt r)" by simp
  have ids: "map ID (listed sample_list sample_store) = [''mem_2'', ''mem_1'']" by code_simp
  then have "length (map ID (listed sample_list sample_store)) = 2" by (simp only:) simp
  then have len: "0 < length (listed sample_list sample_store)" unfolding length_map by linarith
  have c: "jl_Cursor sample_list = []" and l: "page_limit (jl_Limit sample_list) = 1"
    by (simp_all add: sample_list_def page_limit_def)
  from job_pages_partition [OF inv t c len] ids show ?thesis unfolding l One_nat_def by blast
qed

end
