(* ===== verification/Worker_Config.thy ===== *)
theory Worker_Config
  imports Rate_Limit Sha256 Registry Pagination
begin

text \<open>
  The configuration of a worker pool (\<^verbatim>\<open>worker.go\<close>): validation, defaults, rate-limit rules in
  normal form, the weighted schedule, and the replacement of a queue's policy at run time. The
  function-valued settings (retry policy, clock, middleware, observer, error handler) and the
  random worker ID are not part of the record; the generated ID is an argument.
\<close>

section \<open>Settings\<close>

datatype RateLimitScope = RateLimitScopeLocal | RateLimitScopeGlobal | RateLimitScopeOther nat

datatype RateLimitKey =
    RateLimitKeyQueue | RateLimitKeyKind | RateLimitKeyPipeline | RateLimitKeyTag | RateLimitKeyOther nat

record QueueRateLimit =
  rl_Limit :: int
  rl_Period :: duration
  rl_Burst :: int
  rl_Scope :: RateLimitScope
  rl_Key :: RateLimitKey
  rl_TagPrefix :: string
  rl_Mode :: RateLimitMode

record KeyConcurrencyLimit =
  kc_Key :: RateLimitKey
  kc_TagPrefix :: string
  kc_Limit :: int

record QueuePolicy =
  po_Weight :: int
  po_Concurrency :: int
  po_KeyConcurrency :: "KeyConcurrencyLimit list"
  po_RateLimits :: "QueueRateLimit list"
  po_RateLimit :: int
  po_RatePeriod :: duration

record WorkerConfig =
  wc_Queues :: "string list"
  wc_QueuePolicies :: "(string, QueuePolicy) gmap"
  wc_DistributedPipelines :: bool
  wc_PipelineLeaseDuration :: duration
  wc_PipelinePollInterval :: duration
  wc_RateLimitPollInterval :: duration
  wc_Concurrency :: int
  wc_MaxPending :: int
  wc_WorkerID :: string
  wc_PollInterval :: duration
  wc_ShutdownTimeout :: duration
  wc_StuckJobTimeout :: duration
  wc_RescueInterval :: duration
  wc_HeartbeatInterval :: duration
  wc_RequireLifecyclePersistence :: bool
  wc_RequireStrictOrdering :: bool

record normalizedRateLimit =
  nr_key :: string
  nr_limit :: int
  nr_burst :: int
  nr_period :: duration
  nr_interval :: duration
  nr_tolerance :: duration
  nr_scope :: RateLimitScope
  nr_keyBy :: RateLimitKey
  nr_tagPrefix :: string
  nr_mode :: RateLimitMode

text \<open>The zero value a missing map entry yields.\<close>

definition zero_policy :: QueuePolicy where
  "zero_policy = \<lparr>po_Weight = 0, po_Concurrency = 0, po_KeyConcurrency = [], po_RateLimits = [],
     po_RateLimit = 0, po_RatePeriod = 0\<rparr>"

definition policy_of :: "(string, QueuePolicy) gmap \<Rightarrow> string \<Rightarrow> QueuePolicy" where
  "policy_of ps queue = (case gget ps queue of None \<Rightarrow> zero_policy | Some p \<Rightarrow> p)"

text \<open>The numbers of the enumeration constants, as \<^verbatim>\<open>int(...)\<close> renders them.\<close>

fun scope_num :: "RateLimitScope \<Rightarrow> int" where
  "scope_num RateLimitScopeLocal = 0"
| "scope_num RateLimitScopeGlobal = 1"
| "scope_num (RateLimitScopeOther n) = int n"

fun key_num :: "RateLimitKey \<Rightarrow> int" where
  "key_num RateLimitKeyQueue = 0"
| "key_num RateLimitKeyKind = 1"
| "key_num RateLimitKeyPipeline = 2"
| "key_num RateLimitKeyTag = 3"
| "key_num (RateLimitKeyOther n) = int n"

fun mode_num :: "RateLimitMode \<Rightarrow> int" where
  "mode_num RateLimitModeGCRA = 0"
| "mode_num RateLimitModeFixedWindow = 1"
| "mode_num (RateLimitModeOther n) = int n"

definition known_key :: "RateLimitKey \<Rightarrow> bool" where
  "known_key k \<longleftrightarrow> (case k of RateLimitKeyOther n \<Rightarrow> False | _ \<Rightarrow> True)"

section \<open>Validation\<close>

definition default_queue :: "string \<Rightarrow> string" where
  "default_queue q = (if q = [] then ''default'' else q)"

definition configured_queues :: "WorkerConfig \<Rightarrow> string list" where
  "configured_queues cfg =
     (if wc_Queues cfg = [] then [''default''] else map default_queue (wc_Queues cfg))"

definition when_problem :: "bool \<Rightarrow> string \<Rightarrow> string list" where
  "when_problem b msg = (if b then [msg] else [])"

definition effective_period :: "duration \<Rightarrow> duration" where
  "effective_period d = (if d \<le> 0 then Second else d)"

definition rate_problems :: "string \<Rightarrow> Capabilities \<Rightarrow> string \<Rightarrow> QueueRateLimit \<Rightarrow> string list" where
  "rate_problems name caps prefix rule =
     when_problem (rl_Limit rule < 0) (prefix @ '' Limit must not be negative'') @
     when_problem (rl_Limit rule > 0 \<and> rl_Burst rule > rl_Limit rule) (prefix @ '' Burst must not exceed Limit'') @
     when_problem (rl_Scope rule \<noteq> RateLimitScopeLocal \<and> rl_Scope rule \<noteq> RateLimitScopeGlobal)
       (prefix @ '' has an unknown Scope'') @
     when_problem (\<not> known_key (rl_Key rule)) (prefix @ '' has an unknown Key'') @
     when_problem (rl_Mode rule \<noteq> RateLimitModeGCRA \<and> rl_Mode rule \<noteq> RateLimitModeFixedWindow)
       (prefix @ '' has an unknown Mode'') @
     when_problem (rl_Mode rule = RateLimitModeFixedWindow \<and> rl_Limit rule > 0 \<and>
         rl_Limit rule \<ge> effective_period (rl_Period rule) div Millisecond)
       (prefix @ '' fixed-window Limit must be smaller than Period milliseconds'') @
     when_problem (rl_Scope rule = RateLimitScopeGlobal \<and> rl_Limit rule > 0 \<and> \<not> LinearizableCAS caps)
       (prefix @ '' requires linearizable CAS, unsupported by driver '' @ go_quote name)"

definition key_problems :: "string \<Rightarrow> KeyConcurrencyLimit \<Rightarrow> string list" where
  "key_problems prefix rule =
     when_problem (kc_Limit rule \<le> 0) (prefix @ '' Limit must be positive'') @
     when_problem (kc_Key rule = RateLimitKeyQueue \<or> \<not> known_key (kc_Key rule))
       (prefix @ '' Key must be kind, pipeline, or tag'')"

definition indexed :: "'a list \<Rightarrow> (nat \<times> 'a) list" where
  "indexed xs = zip [0..<length xs] xs"

definition policy_problems :: "string \<Rightarrow> Capabilities \<Rightarrow> string list \<Rightarrow> string \<Rightarrow> QueuePolicy \<Rightarrow> string list" where
  "policy_problems name caps configured queue policy =
     when_problem (queue \<notin> set configured) (''QueuePolicies['' @ go_quote queue @ ''] is not listed in Queues'') @
     when_problem (po_Weight policy < 0 \<or> po_Concurrency policy < 0 \<or> po_RateLimit policy < 0)
       (''QueuePolicies['' @ go_quote queue @ ''] contains a negative limit'') @
     concat (map (\<lambda>(i, rule). rate_problems name caps
         (''QueuePolicies['' @ go_quote queue @ ''].RateLimits['' @ nat_to_dec i @ '']'') rule)
       (indexed (po_RateLimits policy))) @
     concat (map (\<lambda>(i, rule). key_problems
         (''QueuePolicies['' @ go_quote queue @ ''].KeyConcurrency['' @ nat_to_dec i @ '']'') rule)
       (indexed (po_KeyConcurrency policy)))"

definition config_problems :: "string \<Rightarrow> Capabilities \<Rightarrow> WorkerConfig \<Rightarrow> string list" where
  "config_problems name caps cfg =
     when_problem (wc_Concurrency cfg < 0) ''Concurrency must not be negative'' @
     when_problem (wc_MaxPending cfg < 0) ''MaxPending must not be negative'' @
     when_problem (wc_Concurrency cfg > 0 \<and> wc_MaxPending cfg > 0 \<and> wc_MaxPending cfg < wc_Concurrency cfg)
       ''MaxPending must be at least Concurrency'' @
     concat (map (\<lambda>(queue, policy). policy_problems name caps (configured_queues cfg) queue policy)
       (wc_QueuePolicies cfg)) @
     when_problem (wc_DistributedPipelines cfg \<and> \<not> LinearizableLeases caps)
       (''DistributedPipelines requires linearizable leases, unsupported by driver '' @ go_quote name) @
     when_problem (wc_RequireLifecyclePersistence cfg \<and> \<not> LifecycleTimestamps caps)
       (''RequireLifecyclePersistence is unsupported by driver '' @ go_quote name) @
     when_problem (wc_RequireStrictOrdering cfg \<and> \<not> StrictFetchOrdering caps)
       (''RequireStrictOrdering is unsupported by driver '' @ go_quote name)"

definition ValidateWorkerConfig :: "string \<Rightarrow> Capabilities \<Rightarrow> WorkerConfig \<Rightarrow> goerr option" where
  "ValidateWorkerConfig name caps cfg =
     (let problems = config_problems name caps cfg
      in if problems = [] then None
         else Some (Errorf (''invalid worker config: '' @ intercalate ''; '' problems)))"

section \<open>Rate-limit rules in normal form\<close>

definition legacy_rule :: "QueuePolicy \<Rightarrow> QueueRateLimit list" where
  "legacy_rule policy =
     (if po_RateLimit policy > 0
      then [\<lparr>rl_Limit = po_RateLimit policy, rl_Period = po_RatePeriod policy, rl_Burst = po_RateLimit policy,
             rl_Scope = RateLimitScopeLocal, rl_Key = RateLimitKeyQueue, rl_TagPrefix = [],
             rl_Mode = RateLimitModeGCRA\<rparr>]
      else [])"

definition clamp_rule :: "QueueRateLimit \<Rightarrow> QueueRateLimit" where
  "clamp_rule r =
     (let burst = (if rl_Burst r \<le> 0 then 1 else rl_Burst r)
      in r\<lparr>rl_Period := effective_period (rl_Period r),
           rl_Burst := (if burst > rl_Limit r then rl_Limit r else burst),
           rl_Scope := (if rl_Scope r \<noteq> RateLimitScopeGlobal then RateLimitScopeLocal else rl_Scope r)\<rparr>)"

definition rule_signature :: "QueueRateLimit \<Rightarrow> string" where
  "rule_signature r = Itoa (rl_Limit r) @ '':'' @ Itoa (rl_Period r) @ '':'' @ Itoa (rl_Burst r) @ '':'' @
     Itoa (scope_num (rl_Scope r)) @ '':'' @ Itoa (key_num (rl_Key r)) @ '':'' @ rl_TagPrefix r @ '':'' @
     Itoa (mode_num (rl_Mode r))"

definition short_digest :: "string \<Rightarrow> string" where
  "short_digest s = hex_bytes (take 16 (Sum256 s))"

definition normal_rule :: "string \<Rightarrow> QueueRateLimit \<Rightarrow> normalizedRateLimit" where
  "normal_rule queue r =
     (let interval = rateInterval (rl_Period r) (rl_Limit r)
      in \<lparr>nr_key = ''goncordia:rate:'' @ short_digest (queue @ [CHR 0x00] @ rule_signature r),
          nr_limit = rl_Limit r, nr_burst = rl_Burst r, nr_period = rl_Period r, nr_interval = interval,
          nr_tolerance = wrap64 (interval * (rl_Burst r - 1)), nr_scope = rl_Scope r, nr_keyBy = rl_Key r,
          nr_tagPrefix = rl_TagPrefix r, nr_mode = rl_Mode r\<rparr>)"

text \<open>The loop skips disabled rules and rules whose signature was seen before.\<close>

fun normal_rules :: "string \<Rightarrow> string list \<Rightarrow> QueueRateLimit list \<Rightarrow> normalizedRateLimit list" where
  "normal_rules queue seen [] = []"
| "normal_rules queue seen (r # rs) =
     (if rl_Limit r \<le> 0 then normal_rules queue seen rs
      else let c = clamp_rule r; sig = rule_signature c
           in if sig \<in> set seen then normal_rules queue seen rs
              else normal_rule queue c # normal_rules queue (sig # seen) rs)"

definition normalizeRateLimits :: "string \<Rightarrow> QueuePolicy \<Rightarrow> normalizedRateLimit list" where
  "normalizeRateLimits queue policy = normal_rules queue [] (po_RateLimits policy @ legacy_rule policy)"

section \<open>The pool\<close>

text \<open>The state that configuration determines; \<open>wp_changes\<close> counts closings of \<^verbatim>\<open>policyChanged\<close>.\<close>

record worker_pool =
  wp_config :: WorkerConfig
  wp_configErr :: "goerr option"
  wp_schedule :: "string list"
  wp_rateLimits :: "(string, normalizedRateLimit list) gmap"
  wp_changes :: nat

definition cloneQueuePolicies :: "(string, QueuePolicy) gmap \<Rightarrow> (string, QueuePolicy) gmap" where
  "cloneQueuePolicies ps = map (\<lambda>(q, p). (q, p)) ps"

definition positive_or :: "int \<Rightarrow> int \<Rightarrow> int" where
  "positive_or d x = (if x \<le> 0 then d else x)"

fun dedup_queues :: "string list \<Rightarrow> string list \<Rightarrow> string list" where
  "dedup_queues seen [] = []"
| "dedup_queues seen (q # qs) =
     (let queue = default_queue q
      in if queue \<in> set seen then dedup_queues seen qs else queue # dedup_queues (queue # seen) qs)"

definition normal_heartbeat :: "duration \<Rightarrow> duration \<Rightarrow> duration" where
  "normal_heartbeat stuckTimeout hb =
     (let h1 = (if hb = 0 \<and> stuckTimeout > 0 then stuckTimeout div 3 else hb)
      in if stuckTimeout > 0 \<and> h1 \<ge> stuckTimeout then stuckTimeout div 3 else h1)"

definition normal_config :: "string \<Rightarrow> WorkerConfig \<Rightarrow> WorkerConfig" where
  "normal_config newID cfg =
     (let conc = (if wc_Concurrency cfg \<le> 0 then 10 else wc_Concurrency cfg);
          pend = (if wc_MaxPending cfg \<le> 0 then conc * 4 else wc_MaxPending cfg);
          stuckTimeout = (if wc_StuckJobTimeout cfg = 0 then Hour else wc_StuckJobTimeout cfg)
      in cfg\<lparr>wc_QueuePolicies := cloneQueuePolicies (wc_QueuePolicies cfg),
             wc_Concurrency := conc,
             wc_MaxPending := (if pend < conc then conc else pend),
             wc_WorkerID := (if wc_WorkerID cfg = [] then newID else wc_WorkerID cfg),
             wc_PollInterval := positive_or Second (wc_PollInterval cfg),
             wc_ShutdownTimeout := positive_or (30 * Second) (wc_ShutdownTimeout cfg),
             wc_PipelineLeaseDuration := positive_or (30 * Second) (wc_PipelineLeaseDuration cfg),
             wc_PipelinePollInterval := positive_or (250 * Millisecond) (wc_PipelinePollInterval cfg),
             wc_RateLimitPollInterval := positive_or Second (wc_RateLimitPollInterval cfg),
             wc_StuckJobTimeout := stuckTimeout,
             wc_RescueInterval := positive_or Minute (wc_RescueInterval cfg),
             wc_HeartbeatInterval := normal_heartbeat stuckTimeout (wc_HeartbeatInterval cfg),
             wc_Queues := (if wc_Queues cfg = [] then [''default''] else dedup_queues [] (wc_Queues cfg))\<rparr>)"

definition queue_weight :: "WorkerConfig \<Rightarrow> string \<Rightarrow> nat" where
  "queue_weight cfg queue =
     (let w = po_Weight (policy_of (wc_QueuePolicies cfg) queue) in if w \<le> 0 then 1 else nat w)"

definition build_schedule :: "WorkerConfig \<Rightarrow> string list" where
  "build_schedule cfg = concat (map (\<lambda>q. replicate (queue_weight cfg q) q) (wc_Queues cfg))"

definition newWorkerPool :: "string \<Rightarrow> Capabilities \<Rightarrow> string \<Rightarrow> WorkerConfig \<Rightarrow> worker_pool" where
  "newWorkerPool name caps newID cfg =
     (let c = normal_config newID cfg
      in \<lparr>wp_config = c, wp_configErr = ValidateWorkerConfig name caps cfg, wp_schedule = build_schedule c,
          wp_rateLimits = map (\<lambda>q. (q, normalizeRateLimits q (policy_of (wc_QueuePolicies c) q))) (wc_Queues c),
          wp_changes = 0\<rparr>)"

definition NewWorkerPoolChecked :: "string \<Rightarrow> Capabilities \<Rightarrow> string \<Rightarrow> WorkerConfig \<Rightarrow> worker_pool res" where
  "NewWorkerPoolChecked name caps newID cfg =
     (let pool = newWorkerPool name caps newID cfg
      in case wp_configErr pool of Some e \<Rightarrow> Inl e | None \<Rightarrow> Inr pool)"

definition UpdateQueuePolicy ::
  "string \<Rightarrow> Capabilities \<Rightarrow> string \<Rightarrow> QueuePolicy \<Rightarrow> worker_pool \<Rightarrow> worker_pool \<times> goerr option" where
  "UpdateQueuePolicy name caps q policy pool =
     (let queue = default_queue q
      in if queue \<notin> set (wc_Queues (wp_config pool))
         then (pool, Some (Errorf (''queue '' @ go_quote queue @ '' is not configured'')))
         else
           let next = gput queue policy (cloneQueuePolicies (wc_QueuePolicies (wp_config pool)));
               candidate = (wp_config pool)\<lparr>wc_QueuePolicies := next\<rparr>
           in (case ValidateWorkerConfig name caps candidate of
                 Some e \<Rightarrow> (pool, Some e)
               | None \<Rightarrow>
                   (pool\<lparr>wp_config := candidate,
                         wp_rateLimits := gput queue (normalizeRateLimits queue policy) (wp_rateLimits pool),
                         wp_schedule := build_schedule candidate,
                         wp_changes := Suc (wp_changes pool)\<rparr>, None)))"

definition queuePolicy :: "worker_pool \<Rightarrow> string \<Rightarrow> QueuePolicy" where
  "queuePolicy pool queue = policy_of (wc_QueuePolicies (wp_config pool)) queue"

definition queueRateLimits :: "worker_pool \<Rightarrow> string \<Rightarrow> normalizedRateLimit list" where
  "queueRateLimits pool queue = (case gget (wp_rateLimits pool) queue of None \<Rightarrow> [] | Some rs \<Rightarrow> rs)"

section \<open>Rule keys\<close>

definition rateLimitKeyValue :: "RateLimitKey \<Rightarrow> string \<Rightarrow> JobRow \<Rightarrow> string" where
  "rateLimitKeyValue keyBy tagPrefix row =
     (case keyBy of
        RateLimitKeyKind \<Rightarrow> Kind row
      | RateLimitKeyPipeline \<Rightarrow> PipelineID row
      | RateLimitKeyTag \<Rightarrow>
          (let matches = sort (filter (\<lambda>tag. HasPrefix tag tagPrefix) (Tags row))
           in if matches \<noteq> [] then hd matches else ''<missing>'')
      | _ \<Rightarrow> Queue row)"

definition rateRuleKey :: "normalizedRateLimit \<Rightarrow> JobRow \<Rightarrow> string" where
  "rateRuleKey rule row =
     (if nr_keyBy rule = RateLimitKeyQueue then nr_key rule
      else nr_key rule @ '':'' @
        short_digest (nr_key rule @ [CHR 0x00] @ rateLimitKeyValue (nr_keyBy rule) (nr_tagPrefix rule) row))"

section \<open>Defaults\<close>

lemma dedup_queues_set: "set (dedup_queues seen qs) = default_queue ` set qs - set seen"
  by (induction qs arbitrary: seen) (auto simp: Let_def)

lemma dedup_queues_distinct: "distinct (dedup_queues seen qs)"
  by (induction qs arbitrary: seen) (auto simp: Let_def dedup_queues_set)

lemma normal_queues:
  "wc_Queues (normal_config newID cfg) \<noteq> []" "distinct (wc_Queues (normal_config newID cfg))"
  "set (wc_Queues (normal_config newID cfg)) = set (configured_queues cfg)"
proof -
  show set: "set (wc_Queues (normal_config newID cfg)) = set (configured_queues cfg)"
    by (simp add: normal_config_def Let_def dedup_queues_set configured_queues_def)
  have "set (configured_queues cfg) \<noteq> {}" by (simp add: configured_queues_def)
  with set show "wc_Queues (normal_config newID cfg) \<noteq> []" by auto
  show "distinct (wc_Queues (normal_config newID cfg))"
    by (simp add: normal_config_def Let_def dedup_queues_distinct)
qed

lemma configured_nonempty: "[] \<notin> set (configured_queues cfg)"
  by (auto simp: configured_queues_def default_queue_def)

text \<open>
  Whatever the configuration, the pool that is built has at least one execution slot
  and no fewer pending slots than execution slots, positive intervals, a heartbeat shorter than
  the claim lease when leases are on, a worker ID, and a non-empty list of distinct, named queues.
\<close>

theorem normal_config_is_usable:
  assumes "newID \<noteq> []"
  shows "let c = normal_config newID cfg in
    1 \<le> wc_Concurrency c \<and> wc_Concurrency c \<le> wc_MaxPending c \<and>
    0 < wc_PollInterval c \<and> 0 < wc_ShutdownTimeout c \<and> 0 < wc_PipelineLeaseDuration c \<and>
    0 < wc_PipelinePollInterval c \<and> 0 < wc_RateLimitPollInterval c \<and> 0 < wc_RescueInterval c \<and>
    wc_StuckJobTimeout c \<noteq> 0 \<and> (wc_StuckJobTimeout c \<le> 0 \<or> wc_HeartbeatInterval c < wc_StuckJobTimeout c) \<and>
    wc_WorkerID c \<noteq> [] \<and> wc_Queues c \<noteq> [] \<and> distinct (wc_Queues c) \<and> [] \<notin> set (wc_Queues c)"
proof -
  have hb: "t \<le> 0 \<or> normal_heartbeat t h < t" for t h by (auto simp: normal_heartbeat_def Let_def)
  have "1 \<le> wc_Concurrency (normal_config newID cfg) \<and> wc_Concurrency (normal_config newID cfg) \<le> wc_MaxPending (normal_config newID cfg)"
    by (simp add: normal_config_def Let_def)
  moreover have "wc_StuckJobTimeout (normal_config newID cfg) \<noteq> 0 \<and>
      (wc_StuckJobTimeout (normal_config newID cfg) \<le> 0 \<or>
       wc_HeartbeatInterval (normal_config newID cfg) < wc_StuckJobTimeout (normal_config newID cfg))"
    using hb by (simp add: normal_config_def Let_def)
  ultimately show ?thesis
    using assms normal_queues [of newID cfg] configured_nonempty [of cfg]
    by (simp add: Let_def) (simp add: normal_config_def positive_or_def Let_def)
qed

section \<open>The weighted schedule\<close>

lemma count_list_replicate: "count_list (replicate n x) y = (if x = y then n else 0)"
  by (induction n) auto

lemma count_list_concat: "count_list (concat xss) y = sum_list (map (\<lambda>xs. count_list xs y) xss)"
  by (induction xss) auto

lemma count_build_schedule:
  assumes "distinct (wc_Queues cfg)"
  shows "count_list (build_schedule cfg) q = (if q \<in> set (wc_Queues cfg) then queue_weight cfg q else 0)"
proof -
  have "sum_list (map (\<lambda>x. if x = q then f x else 0) qs) = (if q \<in> set qs then f q else 0)"
    if "distinct qs" for qs and f :: "string \<Rightarrow> nat"
    using that by (induction qs) auto
  from this [OF assms, of "queue_weight cfg"] show ?thesis
    by (simp add: build_schedule_def count_list_concat count_list_replicate comp_def)
qed

text \<open>The pool state that construction and updates keep.\<close>

definition pool_ok :: "worker_pool \<Rightarrow> bool" where
  "pool_ok pool \<longleftrightarrow> distinct (wc_Queues (wp_config pool)) \<and> wc_Queues (wp_config pool) \<noteq> [] \<and>
     [] \<notin> set (wc_Queues (wp_config pool)) \<and> wp_schedule pool = build_schedule (wp_config pool) \<and>
     (\<forall>q \<in> set (wc_Queues (wp_config pool)).
        queueRateLimits pool q = normalizeRateLimits q (queuePolicy pool q))"

lemma gget_map_pair: "gget (map (\<lambda>q. (q, f q)) qs) q = (if q \<in> set qs then Some (f q) else None)"
  by (induction qs) auto

lemma pool_ok_new: "pool_ok (newWorkerPool name caps newID cfg)"
  using normal_queues [of newID cfg] configured_nonempty [of cfg]
  by (simp add: pool_ok_def newWorkerPool_def Let_def queueRateLimits_def queuePolicy_def gget_map_pair)

lemma policy_of_gput: "policy_of (gput q p (cloneQueuePolicies ps)) q' = (if q' = q then p else policy_of ps q')"
  by (simp add: policy_of_def cloneQueuePolicies_def gmap_simps)

text \<open>
  Replacing a policy is all or nothing. An update that is refused leaves the pool as it
  was; one that is accepted changes the policy and the rate rules of that queue only and rebuilds
  the schedule, in which every configured queue has as many slots as its weight (at least one).
\<close>

theorem policy_update_is_atomic:
  assumes "pool_ok pool" "UpdateQueuePolicy name caps q policy pool = (pool', e)"
  shows "(e \<noteq> None \<and> pool' = pool) \<or>
    (e = None \<and> pool_ok pool' \<and> wc_Queues (wp_config pool') = wc_Queues (wp_config pool) \<and>
     queuePolicy pool' (default_queue q) = policy \<and>
     queueRateLimits pool' (default_queue q) = normalizeRateLimits (default_queue q) policy \<and>
     (\<forall>q'. q' = default_queue q \<or> queuePolicy pool' q' = queuePolicy pool q' \<and>
        queueRateLimits pool' q' = queueRateLimits pool q') \<and>
     (\<forall>q'. count_list (wp_schedule pool') q' =
        (if q' \<in> set (wc_Queues (wp_config pool')) then queue_weight (wp_config pool') q' else 0)))"
proof (cases "e")
  case (Some err)
  with assms(2) show ?thesis
    by (auto simp: UpdateQueuePolicy_def Let_def split: if_splits option.splits)
next
  case None
  let ?q = "default_queue q"
  let ?cand = "(wp_config pool)\<lparr>wc_QueuePolicies := gput ?q policy (cloneQueuePolicies (wc_QueuePolicies (wp_config pool)))\<rparr>"
  have p': "pool' = pool\<lparr>wp_config := ?cand,
      wp_rateLimits := gput ?q (normalizeRateLimits ?q policy) (wp_rateLimits pool),
      wp_schedule := build_schedule ?cand, wp_changes := Suc (wp_changes pool)\<rparr>"
    using assms(2) None by (auto simp: UpdateQueuePolicy_def Let_def split: if_splits option.splits)
  have pol: "queuePolicy pool' q' = (if q' = ?q then policy else queuePolicy pool q')" for q'
    by (simp add: p' queuePolicy_def policy_of_gput)
  have rates: "queueRateLimits pool' q' = (if q' = ?q then normalizeRateLimits ?q policy else queueRateLimits pool q')" for q'
    by (simp add: p' queueRateLimits_def gmap_simps)
  have qs: "wc_Queues (wp_config pool') = wc_Queues (wp_config pool)" "wp_schedule pool' = build_schedule (wp_config pool')"
    by (simp_all add: p')
  have ok: "pool_ok pool'" using assms(1) pol rates qs by (auto simp: pool_ok_def)
  then have "count_list (wp_schedule pool') q' =
      (if q' \<in> set (wc_Queues (wp_config pool')) then queue_weight (wp_config pool') q' else 0)" for q'
    unfolding qs(2) by (intro count_build_schedule) (simp add: pool_ok_def)
  with None ok pol rates qs(1) show ?thesis by auto
qed

section \<open>Validated rules are accepted by the limiter\<close>

lemma when_problem_Nil [simp]: "when_problem b m = [] \<longleftrightarrow> \<not> b"
  by (simp add: when_problem_def)

lemma indexed_snd: "snd ` set (indexed xs) = set xs"
proof -
  have "map snd (indexed xs) = xs" by (simp add: indexed_def)
  then show ?thesis by (metis set_map)
qed

lemma valid_rule:
  assumes "ValidateWorkerConfig name caps cfg = None" "gget (wc_QueuePolicies cfg) q = Some policy"
    and "r \<in> set (po_RateLimits policy)"
  shows "rate_problems name caps prefix r = []"
proof -
  have "policy_problems name caps (configured_queues cfg) q policy = []"
    using assms(1) map_of_SomeD [OF assms(2)]
    by (auto simp: ValidateWorkerConfig_def config_problems_def Let_def split: if_splits)
  moreover obtain i where "(i, r) \<in> set (indexed (po_RateLimits policy))"
    using assms(3) indexed_snd [of "po_RateLimits policy"] by force
  ultimately have "\<exists>prefix. rate_problems name caps prefix r = []" by (auto simp: policy_problems_def)
  then show ?thesis by (auto simp: rate_problems_def)
qed

lemma normal_rules_from:
  "n \<in> set (normal_rules queue seen rs) \<Longrightarrow>
    \<exists>r \<in> set rs. 0 < rl_Limit r \<and> n = normal_rule queue (clamp_rule r)"
  by (induction rs arbitrary: seen) (auto simp: Let_def split: if_splits)

definition acquire_params :: "normalizedRateLimit \<Rightarrow> JobRow \<Rightarrow> gotime \<Rightarrow> RateLimitAcquireParams" where
  "acquire_params rule row now =
     \<lparr>ra_Key = rateRuleKey rule row, ra_Now = now, ra_Limit = nr_limit rule, ra_Period = nr_period rule,
      ra_Burst = nr_burst rule, ra_Mode = nr_mode rule\<rparr>"

text \<open>
  Claim C35: a configuration that passes validation only produces rules the limiter accepts. For
  every rule of every configured queue and every job, the parameters a worker passes satisfy the
  limiter's own checks: a key, a positive limit and period, a burst within the limit, a known mode,
  and for fixed windows a limit below the period in milliseconds.
\<close>

theorem validated_rules_are_accepted:
  assumes "ValidateWorkerConfig name caps cfg = None" "gget (wc_QueuePolicies cfg) q = Some policy"
    and "rule \<in> set (normalizeRateLimits q policy)"
  shows "rate_params_ok (acquire_params rule row now) \<and>
    (nr_mode rule = RateLimitModeGCRA \<or>
     nr_mode rule = RateLimitModeFixedWindow \<and> nr_limit rule < nr_period rule div countUnit) \<and>
    1 \<le> nr_burst rule \<and> nr_burst rule \<le> nr_limit rule"
proof -
  obtain r where r: "r \<in> set (po_RateLimits policy @ legacy_rule policy)" "0 < rl_Limit r"
      "rule = normal_rule q (clamp_rule r)"
    using normal_rules_from [OF assms(3) [unfolded normalizeRateLimits_def]] by blast
  have "rl_Mode r = RateLimitModeGCRA \<or>
      rl_Mode r = RateLimitModeFixedWindow \<and> rl_Limit r < effective_period (rl_Period r) div Millisecond"
  proof (cases "r \<in> set (po_RateLimits policy)")
    case True
    from valid_rule [OF assms(1,2) True, of "[]"] r(2) show ?thesis by (auto simp: rate_problems_def)
  next
    case False
    with r(1) show ?thesis by (auto simp: legacy_rule_def split: if_splits)
  qed
  moreover have "rateRuleKey rule row \<noteq> []" by (simp add: rateRuleKey_def r(3) normal_rule_def Let_def)
  moreover have "0 < effective_period (rl_Period r)" by (simp add: effective_period_def)
  ultimately show ?thesis
    using r(2) by (auto simp: r(3) normal_rule_def clamp_rule_def rate_params_ok_def acquire_params_def
        effective_burst_def countUnit_def Let_def)
qed

section \<open>A configuration\<close>

definition sample_rule :: QueueRateLimit where
  "sample_rule = \<lparr>rl_Limit = 10, rl_Period = 0, rl_Burst = 2, rl_Scope = RateLimitScopeGlobal, rl_Key = RateLimitKeyKind,
     rl_TagPrefix = [], rl_Mode = RateLimitModeFixedWindow\<rparr>"

definition sample_policy :: QueuePolicy where
  "sample_policy = zero_policy\<lparr>po_Weight := 3, po_RateLimits := [sample_rule, sample_rule]\<rparr>"

definition sample_worker :: WorkerConfig where
  "sample_worker = \<lparr>wc_Queues = [''mail'', [], ''mail''], wc_QueuePolicies = [(''mail'', sample_policy)],
     wc_DistributedPipelines = True, wc_PipelineLeaseDuration = 0, wc_PipelinePollInterval = 0,
     wc_RateLimitPollInterval = 0, wc_Concurrency = 0, wc_MaxPending = 0, wc_WorkerID = [], wc_PollInterval = 0,
     wc_ShutdownTimeout = 0, wc_StuckJobTimeout = 0, wc_RescueInterval = 0, wc_HeartbeatInterval = 0,
     wc_RequireLifecyclePersistence = True, wc_RequireStrictOrdering = True\<rparr>"

lemma sample_worker_valid: "ValidateWorkerConfig ''memory'' mem_Capabilities sample_worker = None"
  by code_simp

theorem normal_config_is_usable_witness:
  "wc_Queues (normal_config ''w'' sample_worker) = [''mail'', ''default''] \<and>
   1 \<le> wc_Concurrency (normal_config ''w'' sample_worker) \<and>
   distinct (wc_Queues (normal_config ''w'' sample_worker))"
proof -
  have "wc_Queues (normal_config ''w'' sample_worker) = [''mail'', ''default'']" by code_simp
  with normal_config_is_usable [of "''w''" sample_worker] show ?thesis by (simp add: Let_def)
qed

theorem policy_update_is_atomic_witness:
  "let pool = newWorkerPool ''memory'' mem_Capabilities ''w'' sample_worker;
       (pool', e) = UpdateQueuePolicy ''memory'' mem_Capabilities [] (zero_policy\<lparr>po_Weight := 2\<rparr>) pool
   in e = None \<and> pool_ok pool' \<and> wp_schedule pool' = [''mail'', ''mail'', ''mail'', ''default'', ''default'']"
proof -
  let ?pool = "newWorkerPool ''memory'' mem_Capabilities ''w'' sample_worker"
  obtain pool' e where u: "UpdateQueuePolicy ''memory'' mem_Capabilities [] (zero_policy\<lparr>po_Weight := 2\<rparr>) ?pool = (pool', e)"
    by fastforce
  have c: "wp_config ?pool = normal_config ''w'' sample_worker" by (simp add: newWorkerPool_def Let_def)
  have "snd (UpdateQueuePolicy ''memory'' mem_Capabilities [] (zero_policy\<lparr>po_Weight := 2\<rparr>) ?pool) = None"
  proof -
    have "ValidateWorkerConfig ''memory'' mem_Capabilities ((normal_config ''w'' sample_worker)
        \<lparr>wc_QueuePolicies := gput ''default'' (zero_policy\<lparr>po_Weight := 2\<rparr>)
          (cloneQueuePolicies (wc_QueuePolicies (normal_config ''w'' sample_worker)))\<rparr>) = None" by code_simp
    moreover have "''default'' \<in> set (wc_Queues (normal_config ''w'' sample_worker))" by code_simp
    ultimately show ?thesis by (simp add: UpdateQueuePolicy_def c default_queue_def Let_def)
  qed
  with u have e: "e = None" by simp
  from policy_update_is_atomic [OF pool_ok_new u] e have ok: "pool_ok pool'" by blast
  have cfg: "wp_config pool' = (normal_config ''w'' sample_worker)\<lparr>wc_QueuePolicies := gput ''default''
      (zero_policy\<lparr>po_Weight := 2\<rparr>) (cloneQueuePolicies (wc_QueuePolicies (normal_config ''w'' sample_worker)))\<rparr>"
    using u e c by (auto simp: UpdateQueuePolicy_def default_queue_def Let_def split: if_splits option.splits)
  have "build_schedule ((normal_config ''w'' sample_worker)\<lparr>wc_QueuePolicies := gput ''default''
      (zero_policy\<lparr>po_Weight := 2\<rparr>) (cloneQueuePolicies (wc_QueuePolicies (normal_config ''w'' sample_worker)))\<rparr>) =
    [''mail'', ''mail'', ''mail'', ''default'', ''default'']" by code_simp
  then have "wp_schedule pool' = [''mail'', ''mail'', ''mail'', ''default'', ''default'']"
    using ok unfolding pool_ok_def cfg by simp
  with u e ok show ?thesis by (simp only: Let_def prod.case)
qed

theorem validated_rules_are_accepted_witness:
  "\<exists>rule. normalizeRateLimits ''mail'' sample_policy = [rule] \<and> nr_burst rule = 2 \<and>
     rate_params_ok (acquire_params rule sample_row 0)"
proof -
  obtain rule where rule: "normalizeRateLimits ''mail'' sample_policy = [rule]" "nr_burst rule = 2"
    by (simp add: normalizeRateLimits_def sample_policy_def zero_policy_def legacy_rule_def sample_rule_def
        Let_def normal_rule_def clamp_rule_def)
  have "gget (wc_QueuePolicies sample_worker) ''mail'' = Some sample_policy" by (simp add: sample_worker_def)
  from validated_rules_are_accepted [OF sample_worker_valid this, of rule sample_row 0] rule show ?thesis by simp
qed

end
