(* ===== verification/Worker_Rate.thy ===== *)
theory Worker_Rate
  imports Worker_Config
begin

text \<open>
  Rate permits of one worker pool (\<^verbatim>\<open>worker.go\<close>): the per-process limiter states, their
  reservation and rollback (\<^verbatim>\<open>localRateDelay\<close>, \<^verbatim>\<open>reserveLocalRateLimits\<close>), the shared limits
  (\<^verbatim>\<open>tryGlobalRateLimits\<close>) and the loop that combines them (\<^verbatim>\<open>waitForRatePermit\<close>). Limiter states
  are never removed from their maps, so a pointer to one is its queue and key.
\<close>

section \<open>State\<close>

record localRateState =
  ls_tat :: gotime
  ls_windowStart :: gotime
  ls_count :: int

record queueRuntimeState =
  qt_active :: int
  qt_rates :: "(string, localRateState) gmap"

type_synonym runtime = "(string, queueRuntimeState) gmap"

definition fresh_rate :: localRateState where
  "fresh_rate = \<lparr>ls_tat = 0, ls_windowStart = 0, ls_count = 0\<rparr>"

definition fresh_queue :: queueRuntimeState where
  "fresh_queue = \<lparr>qt_active = 0, qt_rates = []\<rparr>"

definition queue_state :: "runtime \<Rightarrow> string \<Rightarrow> queueRuntimeState" where
  "queue_state rt queue = (case gget rt queue of None \<Rightarrow> fresh_queue | Some st \<Rightarrow> st)"

definition rate_state :: "(string, localRateState) gmap \<Rightarrow> string \<Rightarrow> localRateState" where
  "rate_state rates key = (case gget rates key of None \<Rightarrow> fresh_rate | Some st \<Rightarrow> st)"

text \<open>What the program can observe of one limiter: a missing one reads as a fresh one.\<close>

definition limiter :: "runtime \<Rightarrow> string \<Rightarrow> string \<Rightarrow> localRateState" where
  "limiter rt queue key = rate_state (qt_rates (queue_state rt queue)) key"

section \<open>Waiting time\<close>

definition rule_delay :: "normalizedRateLimit \<Rightarrow> gotime \<Rightarrow> localRateState \<Rightarrow> duration \<Rightarrow> duration" where
  "rule_delay rule now st delay =
     (if nr_mode rule = RateLimitModeFixedWindow then
        (let window = time_truncate now (nr_period rule)
         in if ls_windowStart st = window \<and> ls_count st \<ge> nr_limit rule
            then (let candidate = time_sub (window + nr_period rule) now
                  in if candidate > delay then candidate else delay)
            else delay)
      else
        (let retryAt = ls_tat st + (- nr_tolerance rule)
         in if retryAt > now \<and> time_sub retryAt now > delay then time_sub retryAt now else delay))"

fun delay_loop :: "normalizedRateLimit list \<Rightarrow> JobRow \<Rightarrow> gotime \<Rightarrow> (string, localRateState) gmap \<Rightarrow> duration \<Rightarrow>
    (string, localRateState) gmap \<times> duration" where
  "delay_loop [] row now rates delay = (rates, delay)"
| "delay_loop (rule # rules) row now rates delay =
     (if nr_scope rule \<noteq> RateLimitScopeLocal then delay_loop rules row now rates delay
      else let key = rateRuleKey rule row; st = rate_state rates key
           in delay_loop rules row now (gput key st rates) (rule_delay rule now st delay))"

definition localRateDelay :: "normalizedRateLimit list \<Rightarrow> JobRow \<Rightarrow> gotime \<Rightarrow> runtime \<Rightarrow> runtime \<times> duration" where
  "localRateDelay rules row now rt =
     (let st = queue_state rt (Queue row);
          (rates, delay) = delay_loop rules row now (qt_rates st) 0
      in (gput (Queue row) (st\<lparr>qt_rates := rates\<rparr>) rt, delay))"

section \<open>Reservation and rollback\<close>

record localRateReservation =
  lv_state :: string
  lv_previous :: gotime
  lv_reserved :: gotime
  lv_previousWindow :: gotime
  lv_previousCount :: int
  lv_fixedWindow :: bool

text \<open>One rule: the new state with its reservation, or nothing when the rule has no capacity.\<close>

definition reserve_rule :: "normalizedRateLimit \<Rightarrow> string \<Rightarrow> gotime \<Rightarrow> localRateState \<Rightarrow>
    (localRateState \<times> localRateReservation) option" where
  "reserve_rule rule key now st =
     (if nr_mode rule = RateLimitModeFixedWindow then
        (let window = time_truncate now (nr_period rule);
             reservation = \<lparr>lv_state = key, lv_previous = 0, lv_reserved = 0,
               lv_previousWindow = ls_windowStart st, lv_previousCount = ls_count st, lv_fixedWindow = True\<rparr>
         in if ls_windowStart st \<noteq> window
            then Some (st\<lparr>ls_windowStart := window, ls_count := 1\<rparr>, reservation)
            else if ls_count st \<ge> nr_limit rule then None
            else Some (st\<lparr>ls_count := ls_count st + 1\<rparr>, reservation))
      else if ls_tat st + (- nr_tolerance rule) > now then None
      else
        (let base = (if ls_tat st < now then now else ls_tat st);
             reserved = base + nr_interval rule
         in Some (st\<lparr>ls_tat := reserved\<rparr>,
               \<lparr>lv_state = key, lv_previous = ls_tat st, lv_reserved = reserved,
                lv_previousWindow = 0, lv_previousCount = 0, lv_fixedWindow = False\<rparr>)))"

definition rollback_one :: "localRateReservation \<Rightarrow> localRateState \<Rightarrow> localRateState" where
  "rollback_one r st =
     (if lv_fixedWindow r
      then st\<lparr>ls_windowStart := lv_previousWindow r, ls_count := lv_previousCount r\<rparr>
      else if ls_tat st = lv_reserved r then st\<lparr>ls_tat := lv_previous r\<rparr> else st)"

text \<open>\<^verbatim>\<open>rollbackLocked\<close> goes through the reservations from the last to the first.\<close>

definition rollbackLocked :: "localRateReservation list \<Rightarrow> (string, localRateState) gmap \<Rightarrow> (string, localRateState) gmap" where
  "rollbackLocked reservations rates =
     fold (\<lambda>r rates. gput (lv_state r) (rollback_one r (rate_state rates (lv_state r))) rates)
       (rev reservations) rates"

fun reserve_loop :: "normalizedRateLimit list \<Rightarrow> JobRow \<Rightarrow> gotime \<Rightarrow> localRateReservation list \<Rightarrow>
    (string, localRateState) gmap \<Rightarrow> (string, localRateState) gmap \<times> localRateReservation list option" where
  "reserve_loop [] row now reservations rates = (rates, Some reservations)"
| "reserve_loop (rule # rules) row now reservations rates =
     (if nr_scope rule \<noteq> RateLimitScopeLocal then reserve_loop rules row now reservations rates
      else let key = rateRuleKey rule row; st = rate_state rates key
           in case reserve_rule rule key now st of
                None \<Rightarrow> (rollbackLocked reservations (gput key st rates), None)
              | Some (st', r) \<Rightarrow> reserve_loop rules row now (reservations @ [r]) (gput key st' rates))"

definition reserveLocalRateLimits :: "normalizedRateLimit list \<Rightarrow> JobRow \<Rightarrow> gotime \<Rightarrow> runtime \<Rightarrow>
    runtime \<times> localRateReservation list option" where
  "reserveLocalRateLimits rules row now rt =
     (let st = queue_state rt (Queue row);
          (rates, result) = reserve_loop rules row now [] (qt_rates st)
      in (gput (Queue row) (st\<lparr>qt_rates := rates\<rparr>) rt, result))"

text \<open>The function a successful reservation returns, called at most once.\<close>

definition rollbackLocal :: "string \<Rightarrow> localRateReservation list \<Rightarrow> runtime \<Rightarrow> runtime" where
  "rollbackLocal queue reservations rt =
     (let st = queue_state rt queue
      in gput queue (st\<lparr>qt_rates := rollbackLocked reservations (qt_rates st)\<rparr>) rt)"

section \<open>Shared limits\<close>

text \<open>
  \<open>gl_clock i\<close>, \<open>gl_env i\<close> and \<open>gl_ctx i\<close> are the clock reading, the interference and the context
  of the request for the \<open>i\<close>-th rule.
\<close>

record 's global_env =
  gl_clock :: "nat \<Rightarrow> gotime"
  gl_env :: "nat \<Rightarrow> nat \<Rightarrow> 's \<Rightarrow> 's"
  gl_ctx :: "nat \<Rightarrow> nat \<Rightarrow> goerr option"

fun tryGlobalRateLimits :: "'s cursor_ops \<Rightarrow> 's global_env \<Rightarrow> nat \<Rightarrow> normalizedRateLimit list \<Rightarrow> JobRow \<Rightarrow> 's \<Rightarrow>
    ('s \<times> bool \<times> gotime \<times> goerr option) option" where
  "tryGlobalRateLimits ops ge i [] row s = Some (s, True, 0, None)"
| "tryGlobalRateLimits ops ge i (rule # rules) row s =
     (if nr_scope rule \<noteq> RateLimitScopeGlobal then tryGlobalRateLimits ops ge (Suc i) rules row s
      else case AcquireRateLimit ops (gl_env ge i) (gl_ctx ge i) (acquire_params rule row (gl_clock ge i)) s of
             None \<Rightarrow> None
           | Some (s', Inl e) \<Rightarrow> Some (s', False, 0, Some e)
           | Some (s', Inr result) \<Rightarrow>
               if \<not> rr_Acquired result then Some (s', False, rr_RetryAt result, None)
               else tryGlobalRateLimits ops ge (Suc i) rules row s')"

section \<open>The permit loop\<close>

text \<open>
  What surrounds round \<open>i\<close> of the loop. Other goroutines may act on the limiter states before
  each of the three critical sections (\<open>pe_others i j\<close>) and a policy update may change the rules
  between the three reads (\<open>pe_rules i j\<close>); \<open>pe_now i j\<close> are the readings of the clock, and
  \<open>pe_wait i\<close> tells whether the wait ended with the timer or a policy change (\<open>True\<close>) or with the
  claim or the pool (\<open>False\<close>).
\<close>

record 's permit_env =
  pe_now :: "nat \<Rightarrow> nat \<Rightarrow> gotime"
  pe_rules :: "nat \<Rightarrow> nat \<Rightarrow> normalizedRateLimit list"
  pe_others :: "nat \<Rightarrow> nat \<Rightarrow> runtime \<Rightarrow> runtime"
  pe_global :: "nat \<Rightarrow> 's global_env"
  pe_wait :: "nat \<Rightarrow> bool"

datatype permit_round =
    Permit
  | Again
  | WaitFor RateLimitScope duration gotime "goerr option"

definition rate_round :: "'s cursor_ops \<Rightarrow> duration \<Rightarrow> 's permit_env \<Rightarrow> nat \<Rightarrow> JobRow \<Rightarrow> runtime \<times> 's \<Rightarrow>
    ((runtime \<times> 's) \<times> permit_round) option" where
  "rate_round ops poll pe i row = (\<lambda>(rt, s).
     let now = pe_now pe i 0;
         (rt1, delay) = localRateDelay (pe_rules pe i 0) row now (pe_others pe i 0 rt)
     in if delay > 0 then Some ((rt1, s), WaitFor RateLimitScopeLocal delay (now + delay) None)
        else case reserveLocalRateLimits (pe_rules pe i 1) row now (pe_others pe i 1 rt1) of
            (rt2, None) \<Rightarrow> Some ((rt2, s), Again)
          | (rt2, Some reservations) \<Rightarrow>
              (case tryGlobalRateLimits ops (pe_global pe i) 0 (pe_rules pe i 2) row s of
                 None \<Rightarrow> None
               | Some (s', got, retryAt, err) \<Rightarrow>
                   if got \<and> err = None then Some ((rt2, s'), Permit)
                   else
                     let rt3 = rollbackLocal (Queue row) reservations (pe_others pe i 2 rt2);
                         delay = (if err \<noteq> None then poll
                                  else if retryAt > pe_now pe i 1 then time_sub retryAt (pe_now pe i 2)
                                  else poll)
                     in Some ((rt3, s'), WaitFor RateLimitScopeGlobal delay (pe_now pe i 3 + delay) err)))"

partial_function (option) permit_loop :: "'s cursor_ops \<Rightarrow> duration \<Rightarrow> 's permit_env \<Rightarrow> nat \<Rightarrow> JobRow \<Rightarrow> runtime \<times> 's \<Rightarrow>
    ((runtime \<times> 's) \<times> bool) option" where
  "permit_loop ops poll pe i row rs =
     (case rate_round ops poll pe i row rs of
        None \<Rightarrow> None
      | Some (rs', outcome) \<Rightarrow>
          (case outcome of
             Permit \<Rightarrow> Some (rs', True)
           | Again \<Rightarrow> permit_loop ops poll pe (Suc i) row rs'
           | WaitFor scope delay retryAt err \<Rightarrow>
               if pe_wait pe i then permit_loop ops poll pe (Suc i) row rs' else Some (rs', False)))"

declare permit_loop.simps [code]

text \<open>\<open>rules0\<close> are the rules at the call: without any there is nothing to wait for.\<close>

definition waitForRatePermit :: "'s cursor_ops \<Rightarrow> duration \<Rightarrow> normalizedRateLimit list \<Rightarrow> 's permit_env \<Rightarrow> JobRow \<Rightarrow>
    runtime \<times> 's \<Rightarrow> ((runtime \<times> 's) \<times> bool) option" where
  "waitForRatePermit ops poll rules0 pe row rs =
     (if rules0 = [] then Some (rs, True) else permit_loop ops poll pe 0 row rs)"

section \<open>Reservations are transactional\<close>

lemma rate_state_gput [simp]: "rate_state (gput k st rates) k' = (if k' = k then st else rate_state rates k')"
  by (simp add: rate_state_def gmap_simps)

lemma queue_state_gput [simp]: "queue_state (gput q st rt) q' = (if q' = q then st else queue_state rt q')"
  by (simp add: queue_state_def gmap_simps)

lemma rollback_reserve:
  "reserve_rule rule key now st = Some (st', r) \<Longrightarrow> rollback_one r st' = st \<and> lv_state r = key"
  by (auto simp: reserve_rule_def rollback_one_def Let_def split: if_splits)

lemma rollback_snoc:
  "rollbackLocked (rs @ [r]) rates =
     rollbackLocked rs (gput (lv_state r) (rollback_one r (rate_state rates (lv_state r))) rates)"
  by (simp add: rollbackLocked_def)

text \<open>The limiters only see each other's states, never the order of the map.\<close>

lemma rollback_cong:
  "rate_state rates = rate_state rates' \<Longrightarrow>
   rate_state (rollbackLocked rs rates) = rate_state (rollbackLocked rs rates')"
proof (induction rs arbitrary: rates rates' rule: rev_induct)
  case Nil
  then show ?case by (simp add: rollbackLocked_def)
next
  case (snoc r rs)
  then have "rate_state (gput (lv_state r) (rollback_one r (rate_state rates (lv_state r))) rates) =
      rate_state (gput (lv_state r) (rollback_one r (rate_state rates' (lv_state r))) rates')"
    by (simp add: fun_eq_iff)
  from snoc.IH [OF this] show ?case by (simp only: rollback_snoc)
qed

lemma reserve_loop_undo:
  assumes "reserve_loop rules row now rs rates = (rates', result)"
    and "rate_state (rollbackLocked rs rates) = before"
  shows "case result of None \<Rightarrow> rate_state rates' = before
    | Some rs' \<Rightarrow> rate_state (rollbackLocked rs' rates') = before"
  using assms
proof (induction rules row now rs rates arbitrary: rates' result rule: reserve_loop.induct)
  case (1 row now rs rates)
  then show ?case by auto
next
  case (2 rule rules row now rs rates)
  show ?case
  proof (cases "nr_scope rule = RateLimitScopeLocal")
    case False
    with 2 show ?thesis by simp
  next
    case True
    let ?key = "rateRuleKey rule row" and ?st = "rate_state rates (rateRuleKey rule row)"
    show ?thesis
    proof (cases "reserve_rule rule ?key now ?st")
      case None
      have "rate_state (gput ?key ?st rates) = rate_state rates" by (simp add: fun_eq_iff)
      from rollback_cong [OF this, of rs] 2(3,4) True None show ?thesis by (auto simp: Let_def)
    next
      case (Some res)
      then obtain st' r where r: "reserve_rule rule ?key now ?st = Some (st', r)" by (cases res) auto
      have "rate_state (gput (lv_state r) (rollback_one r (rate_state (gput ?key st' rates) (lv_state r)))
          (gput ?key st' rates)) = rate_state rates"
        using rollback_reserve [OF r] by (simp add: fun_eq_iff)
      from rollback_cong [OF this, of rs] have "rate_state (rollbackLocked (rs @ [r]) (gput ?key st' rates)) = before"
        using 2(4) by (simp only: rollback_snoc)
      with 2(2) [OF _ HOL.refl HOL.refl r HOL.refl] 2(3) True r show ?thesis by (simp add: Let_def)
    qed
  qed
qed

text \<open>
  Reserving the local limits of a job is all or nothing. A refusal leaves every limiter
  of every queue as it was, whatever rules had already been charged; and rolling a granted
  reservation back at once restores every limiter.
\<close>

theorem local_reservation_is_transactional:
  "case reserveLocalRateLimits rules row now rt of
     (rt', None) \<Rightarrow> limiter rt' = limiter rt
   | (rt', Some reservations) \<Rightarrow> limiter (rollbackLocal (Queue row) reservations rt') = limiter rt"
proof -
  obtain rates result where l: "reserve_loop rules row now [] (qt_rates (queue_state rt (Queue row))) = (rates, result)"
    by (metis prod.exhaust)
  from reserve_loop_undo [OF l HOL.refl] show ?thesis
    by (auto simp: reserveLocalRateLimits_def rollbackLocal_def l limiter_def fun_eq_iff rollbackLocked_def split: option.splits)
qed

section \<open>A local permit takes at most one wait\<close>

text \<open>How long one rule makes a job wait.\<close>

definition need :: "normalizedRateLimit \<Rightarrow> gotime \<Rightarrow> localRateState \<Rightarrow> duration" where
  "need rule now st = rule_delay rule now st 0"

definition has_capacity :: "normalizedRateLimit \<Rightarrow> gotime \<Rightarrow> localRateState \<Rightarrow> bool" where
  "has_capacity rule now st \<longleftrightarrow>
     (if nr_mode rule = RateLimitModeFixedWindow
      then ls_windowStart st \<noteq> time_truncate now (nr_period rule) \<or> ls_count st < nr_limit rule
      else ls_tat st - nr_tolerance rule \<le> now)"

text \<open>The limiter is within reach: its window is not ahead of the clock, its debt is a duration.\<close>

definition in_reach :: "normalizedRateLimit \<Rightarrow> gotime \<Rightarrow> localRateState \<Rightarrow> bool" where
  "in_reach rule now st \<longleftrightarrow> 0 < nr_period rule \<and> nr_period rule \<le> max_duration \<and>
     ls_windowStart st \<le> now \<and> ls_tat st - nr_tolerance rule - now \<le> max_duration"

lemma reserve_rule_capacity: "reserve_rule rule key now st \<noteq> None \<longleftrightarrow> has_capacity rule now st"
  by (auto simp: reserve_rule_def has_capacity_def Let_def)

lemma rule_delay_max: "0 \<le> delay \<Longrightarrow> rule_delay rule now st delay = max delay (need rule now st)"
  by (auto simp: rule_delay_def need_def Let_def max_def)

lemma need_nonneg: "0 \<le> need rule now st"
  by (auto simp: rule_delay_def need_def Let_def)

lemma need_pos:
  assumes "in_reach rule now st" "\<not> has_capacity rule now st"
  shows "need rule now st =
    (if nr_mode rule = RateLimitModeFixedWindow then time_truncate now (nr_period rule) + nr_period rule - now
     else ls_tat st - nr_tolerance rule - now)" "0 < need rule now st"
proof -
  have t: "now < time_truncate now (nr_period rule) + nr_period rule" "time_truncate now (nr_period rule) \<le> now"
    using assms(1) time_truncate_gt time_truncate_le by (auto simp: in_reach_def)
  have "time_sub (time_truncate now (nr_period rule) + nr_period rule) now =
      time_truncate now (nr_period rule) + nr_period rule - now"
    using assms(1) t by (intro time_sub_exact) (auto simp: is_duration_def in_reach_def min_duration_def)
  moreover have "time_sub (ls_tat st - nr_tolerance rule) now = ls_tat st - nr_tolerance rule - now"
    if "now < ls_tat st - nr_tolerance rule"
    using assms(1) that by (intro time_sub_exact) (auto simp: is_duration_def in_reach_def min_duration_def)
  ultimately show "need rule now st =
    (if nr_mode rule = RateLimitModeFixedWindow then time_truncate now (nr_period rule) + nr_period rule - now
     else ls_tat st - nr_tolerance rule - now)" "0 < need rule now st"
    using assms t by (auto simp: has_capacity_def need_def rule_delay_def Let_def split: if_splits)
qed

lemma capacity_after_need:
  assumes "in_reach rule now st" "now + need rule now st \<le> now'"
  shows "has_capacity rule now' st"
proof (cases "has_capacity rule now st")
  case True
  have le: "now \<le> now'" using assms(2) need_nonneg [of rule now st] by simp
  have "ls_windowStart st \<noteq> time_truncate now' (nr_period rule)"
    if "ls_windowStart st \<noteq> time_truncate now (nr_period rule)"
  proof
    assume w: "ls_windowStart st = time_truncate now' (nr_period rule)"
    have "nr_period rule dvd ls_windowStart st" "now < ls_windowStart st + nr_period rule"
      using assms(1) time_truncate_dvd [of "nr_period rule" now'] time_truncate_gt [of "nr_period rule" now'] le
      by (auto simp: w in_reach_def)
    with assms(1) have "time_truncate now (nr_period rule) = ls_windowStart st"
      by (intro time_truncate_unique) (auto simp: in_reach_def)
    with that show False by simp
  qed
  with True le show ?thesis by (auto simp: has_capacity_def split: if_splits)
next
  case False
  note n = need_pos [OF assms(1) False]
  show ?thesis
  proof (cases "nr_mode rule = RateLimitModeFixedWindow")
    case True
    with n assms(2) have "time_truncate now (nr_period rule) + nr_period rule \<le> now'" by simp
    moreover have "now' < time_truncate now' (nr_period rule) + nr_period rule"
      using assms(1) by (intro time_truncate_gt) (simp add: in_reach_def)
    ultimately show ?thesis using False True by (auto simp: has_capacity_def)
  next
    case False
    with n assms(2) show ?thesis by (simp add: has_capacity_def)
  qed
qed

lemma delay_loop_facts:
  assumes "delay_loop rules row now rates d = (rates', delay)" "0 \<le> d"
  shows "rate_state rates' = rate_state rates \<and> d \<le> delay \<and>
    (\<forall>rule\<in>set rules. nr_scope rule = RateLimitScopeLocal \<longrightarrow>
       need rule now (rate_state rates (rateRuleKey rule row)) \<le> delay) \<and>
    (delay = d \<or> (\<exists>rule\<in>set rules. nr_scope rule = RateLimitScopeLocal \<and>
       need rule now (rate_state rates (rateRuleKey rule row)) = delay))"
  using assms
proof (induction rules row now rates d arbitrary: rates' delay rule: delay_loop.induct)
  case (1 row now rates d)
  then show ?case by auto
next
  case (2 rule rules row now rates d)
  show ?case
  proof (cases "nr_scope rule = RateLimitScopeLocal")
    case False
    with 2 show ?thesis by auto
  next
    case True
    let ?st = "rate_state rates (rateRuleKey rule row)"
    have same: "rate_state (gput (rateRuleKey rule row) ?st rates) = rate_state rates" by (simp add: fun_eq_iff)
    have d: "rule_delay rule now ?st d = max d (need rule now ?st)" using 2(4) by (rule rule_delay_max)
    have "0 \<le> rule_delay rule now ?st d" using 2(4) d by simp
    with 2(2) [OF _ HOL.refl HOL.refl, of rates' delay] 2(3) True
    show ?thesis by (auto simp: Let_def same d split: if_splits)
  qed
qed

lemma reserve_loop_succeeds:
  assumes "distinct (map (\<lambda>rule. rateRuleKey rule row) rules)"
    and "\<forall>rule\<in>set rules. nr_scope rule = RateLimitScopeLocal \<and>
      has_capacity rule now (rate_state rates (rateRuleKey rule row))"
  shows "\<exists>rates' rs'. reserve_loop rules row now rs rates = (rates', Some rs') \<and>
    (\<forall>rule\<in>set rules. map_option fst (reserve_rule rule (rateRuleKey rule row) now
       (rate_state rates (rateRuleKey rule row))) = Some (rate_state rates' (rateRuleKey rule row))) \<and>
    (\<forall>k. k \<notin> (\<lambda>rule. rateRuleKey rule row) ` set rules \<longrightarrow> rate_state rates' k = rate_state rates k)"
  using assms
proof (induction rules arbitrary: rs rates)
  case Nil
  then show ?case by simp
next
  case (Cons rule rules)
  let ?key = "rateRuleKey rule row"
  have "has_capacity rule now (rate_state rates ?key)" using Cons(3) by simp
  then obtain st' r where r: "reserve_rule rule ?key now (rate_state rates ?key) = Some (st', r)"
    unfolding reserve_rule_capacity [of rule ?key, symmetric] by auto
  have other: "rate_state (gput ?key st' rates) (rateRuleKey x row) = rate_state rates (rateRuleKey x row)"
    if "x \<in> set rules" for x
    using Cons(2) that by (auto simp: image_iff)
  have "distinct (map (\<lambda>rule. rateRuleKey rule row) rules)" using Cons(2) by simp
  from Cons.IH [OF this, of "gput ?key st' rates" "rs @ [r]"] Cons(3) other
  obtain rates' rs' where
    l: "reserve_loop rules row now (rs @ [r]) (gput ?key st' rates) = (rates', Some rs')"
    and ch: "\<forall>x\<in>set rules. map_option fst (reserve_rule x (rateRuleKey x row) now
       (rate_state (gput ?key st' rates) (rateRuleKey x row))) = Some (rate_state rates' (rateRuleKey x row))"
    and un: "\<forall>k. k \<notin> (\<lambda>x. rateRuleKey x row) ` set rules \<longrightarrow> rate_state rates' k = rate_state (gput ?key st' rates) k"
    by auto
  have "?key \<notin> (\<lambda>x. rateRuleKey x row) ` set rules" using Cons(2) by auto
  with un have "rate_state rates' ?key = st'" by simp
  with l ch un r Cons(3) other show ?case by (auto simp: Let_def)
qed

lemma tryGlobal_local_rules:
  "\<forall>rule\<in>set rules. nr_scope rule = RateLimitScopeLocal \<Longrightarrow>
   tryGlobalRateLimits ops ge i rules row s = Some (s, True, 0, None)"
  by (induction rules arbitrary: i) auto

lemma limiter_after_delay: "limiter (fst (localRateDelay rules row now rt)) = limiter rt"
proof -
  obtain rates delay where l: "delay_loop rules row now (qt_rates (queue_state rt (Queue row))) 0 = (rates, delay)"
    by (metis prod.exhaust)
  from delay_loop_facts [OF l] have "rate_state rates = rate_state (qt_rates (queue_state rt (Queue row)))" by simp
  then show ?thesis by (auto simp: localRateDelay_def l limiter_def fun_eq_iff)
qed

lemma capacity_after_delay:
  assumes "\<forall>rule\<in>set rules. nr_scope rule = RateLimitScopeLocal \<and>
      in_reach rule now (limiter rt (Queue row) (rateRuleKey rule row))"
    and "now + snd (localRateDelay rules row now rt) \<le> now'"
  shows "\<forall>rule\<in>set rules. has_capacity rule now' (limiter rt (Queue row) (rateRuleKey rule row))"
proof -
  obtain rates delay where l: "delay_loop rules row now (qt_rates (queue_state rt (Queue row))) 0 = (rates, delay)"
    by (metis prod.exhaust)
  have d: "snd (localRateDelay rules row now rt) = delay" by (simp add: localRateDelay_def l)
  from delay_loop_facts [OF l] have "\<forall>rule\<in>set rules. nr_scope rule = RateLimitScopeLocal \<longrightarrow>
      need rule now (limiter rt (Queue row) (rateRuleKey rule row)) \<le> delay" by (simp add: limiter_def)
  with assms d show ?thesis by (intro ballI capacity_after_need) auto
qed

lemma delay_nonneg: "0 \<le> snd (localRateDelay rules row now rt)"
proof -
  obtain rates delay where l: "delay_loop rules row now (qt_rates (queue_state rt (Queue row))) 0 = (rates, delay)"
    by (metis prod.exhaust)
  with delay_loop_facts [OF l] show ?thesis by (simp add: localRateDelay_def l)
qed

text \<open>The states a granted reservation leaves behind, rule by rule.\<close>

definition charged :: "normalizedRateLimit list \<Rightarrow> JobRow \<Rightarrow> gotime \<Rightarrow> runtime \<Rightarrow> runtime \<Rightarrow> bool" where
  "charged rules row now rt rt' \<longleftrightarrow> (\<forall>rule\<in>set rules.
     map_option fst (reserve_rule rule (rateRuleKey rule row) now (limiter rt (Queue row) (rateRuleKey rule row))) =
     Some (limiter rt' (Queue row) (rateRuleKey rule row)))"

lemma reserve_with_capacity:
  assumes "distinct (map (\<lambda>rule. rateRuleKey rule row) rules)"
    and "\<forall>rule\<in>set rules. nr_scope rule = RateLimitScopeLocal \<and>
      has_capacity rule now (limiter rt (Queue row) (rateRuleKey rule row))"
  shows "\<exists>rt' rs. reserveLocalRateLimits rules row now rt = (rt', Some rs) \<and> charged rules row now rt rt'"
  using reserve_loop_succeeds [OF assms(1), of now "qt_rates (queue_state rt (Queue row))" "[]"] assms(2)
  by (auto simp: limiter_def reserveLocalRateLimits_def charged_def)

lemma round_with_capacity:
  assumes "distinct (map (\<lambda>rule. rateRuleKey rule row) rules)"
    and local: "\<forall>rule\<in>set rules. nr_scope rule = RateLimitScopeLocal"
    and env: "pe_rules pe = (\<lambda>_ _. rules)" "pe_others pe = (\<lambda>_ _. id)"
    and zero: "snd (localRateDelay rules row (pe_now pe i 0) rt) = 0"
    and cap: "\<forall>rule\<in>set rules. has_capacity rule (pe_now pe i 0) (limiter rt (Queue row) (rateRuleKey rule row))"
  shows "\<exists>rt'. rate_round ops poll pe i row (rt, s) = Some ((rt', s), Permit) \<and> charged rules row (pe_now pe i 0) rt rt'"
proof -
  obtain rt1 where d: "localRateDelay rules row (pe_now pe i 0) rt = (rt1, 0)" using zero by (metis prod.collapse)
  have lim: "limiter rt1 = limiter rt" using limiter_after_delay [of rules row "pe_now pe i 0" rt] d by simp
  from reserve_with_capacity [OF assms(1), of "pe_now pe i 0" rt1] local cap lim
  obtain rt2 rs where "reserveLocalRateLimits rules row (pe_now pe i 0) rt1 = (rt2, Some rs)"
    "charged rules row (pe_now pe i 0) rt1 rt2" by auto
  with d lim env show ?thesis
    by (auto simp: rate_round_def charged_def tryGlobal_local_rules [OF local])
qed

lemma zero_delay_capacity:
  assumes "\<forall>rule\<in>set rules. nr_scope rule = RateLimitScopeLocal \<and>
      in_reach rule now (limiter rt (Queue row) (rateRuleKey rule row))"
    and "\<forall>rule\<in>set rules. has_capacity rule now (limiter rt (Queue row) (rateRuleKey rule row))"
  shows "snd (localRateDelay rules row now rt) = 0"
proof -
  obtain rates delay where l: "delay_loop rules row now (qt_rates (queue_state rt (Queue row))) 0 = (rates, delay)"
    by (metis prod.exhaust)
  have "need rule now st = 0" if "has_capacity rule now st" for rule st
    using that by (auto simp: need_def rule_delay_def has_capacity_def Let_def split: if_splits)
  with assms delay_loop_facts [OF l] have "delay = 0" by (auto simp: limiter_def)
  then show ?thesis by (simp add: localRateDelay_def l)
qed

text \<open>
  With local rules only and no competing job, a job gets its permit after at most one
  wait. Either the first round grants it, or the job waits for the announced delay and the next
  round, at any later instant, grants it; and the permit is charged to every rule.
\<close>

theorem local_permit_takes_one_wait:
  assumes rules: "rules \<noteq> []" "distinct (map (\<lambda>rule. rateRuleKey rule row) rules)"
    and local: "\<forall>rule\<in>set rules. nr_scope rule = RateLimitScopeLocal \<and>
      in_reach rule (pe_now pe 0 0) (limiter rt (Queue row) (rateRuleKey rule row))"
    and env: "pe_rules pe = (\<lambda>_ _. rules)" "pe_others pe = (\<lambda>_ _. id)" "pe_wait pe 0"
    and later: "pe_now pe 0 0 + snd (localRateDelay rules row (pe_now pe 0 0) rt) \<le> pe_now pe 1 0"
  shows "\<exists>rt'. waitForRatePermit ops poll rules pe row (rt, s) = Some ((rt', s), True) \<and>
    charged rules row (if snd (localRateDelay rules row (pe_now pe 0 0) rt) = 0 then pe_now pe 0 0 else pe_now pe 1 0) rt rt'"
proof -
  let ?delay = "snd (localRateDelay rules row (pe_now pe 0 0) rt)"
  let ?rt1 = "fst (localRateDelay rules row (pe_now pe 0 0) rt)"
  have all: "\<forall>rule\<in>set rules. nr_scope rule = RateLimitScopeLocal" using local by blast
  have cap: "\<forall>rule\<in>set rules. has_capacity rule t (limiter rt (Queue row) (rateRuleKey rule row))"
    if "pe_now pe 0 0 + ?delay \<le> t" for t
    using capacity_after_delay [OF local that] .
  show ?thesis
  proof (cases "?delay = 0")
    case True
    from round_with_capacity [OF rules(2) all env(1,2) True cap, of ops poll s] True
    obtain rt' where "rate_round ops poll pe 0 row (rt, s) = Some ((rt', s), Permit)"
      "charged rules row (pe_now pe 0 0) rt rt'" by auto
    with True rules(1) show ?thesis
      by (subst waitForRatePermit_def, subst permit_loop.simps) auto
  next
    case False
    have d: "localRateDelay rules row (pe_now pe 0 0) rt = (?rt1, ?delay)" "0 < ?delay"
      using delay_nonneg [of rules row "pe_now pe 0 0" rt] False by simp_all
    then have r0: "rate_round ops poll pe 0 row (rt, s) =
        Some ((?rt1, s), WaitFor RateLimitScopeLocal ?delay (pe_now pe 0 0 + ?delay) None)"
      by (simp add: rate_round_def env Let_def case_prod_beta)
    have lim: "limiter ?rt1 = limiter rt" by (rule limiter_after_delay)
    have cap1: "\<forall>rule\<in>set rules. has_capacity rule (pe_now pe 1 0) (limiter ?rt1 (Queue row) (rateRuleKey rule row))"
      using cap [OF later] by (simp add: lim)
    have "\<forall>rule\<in>set rules. nr_scope rule = RateLimitScopeLocal \<and>
        in_reach rule (pe_now pe 1 0) (limiter ?rt1 (Queue row) (rateRuleKey rule row))"
      using local later d(2) by (auto simp: lim in_reach_def)
    from zero_delay_capacity [OF this cap1] round_with_capacity [OF rules(2) all env(1,2) _ cap1]
    obtain rt' where r1: "rate_round ops poll pe 1 row (?rt1, s) = Some ((rt', s), Permit)"
      "charged rules row (pe_now pe 1 0) ?rt1 rt'" by blast
    then have "permit_loop ops poll pe 0 row (rt, s) = Some ((rt', s), True)"
      by (subst permit_loop.simps) (simp add: r0 env(3), subst permit_loop.simps, simp)
    with r1 False rules(1) show ?thesis by (auto simp: waitForRatePermit_def charged_def lim)
  qed
qed

section \<open>Witnesses\<close>

definition sample_window_rule :: normalizedRateLimit where
  "sample_window_rule = \<lparr>nr_key = ''w'', nr_limit = 2, nr_burst = 1, nr_period = Second, nr_interval = Second div 2,
     nr_tolerance = 0, nr_scope = RateLimitScopeLocal, nr_keyBy = RateLimitKeyQueue, nr_tagPrefix = [],
     nr_mode = RateLimitModeFixedWindow\<rparr>"

definition sample_gcra_rule :: normalizedRateLimit where
  "sample_gcra_rule = \<lparr>nr_key = ''g'', nr_limit = 1, nr_burst = 1, nr_period = Second, nr_interval = Second,
     nr_tolerance = 0, nr_scope = RateLimitScopeLocal, nr_keyBy = RateLimitKeyQueue, nr_tagPrefix = [],
     nr_mode = RateLimitModeGCRA\<rparr>"

definition sample_runtime :: runtime where
  "sample_runtime = fst (reserveLocalRateLimits [sample_window_rule, sample_gcra_rule] sample_row (100 * Second) [])"

definition sample_permits :: "mem permit_env" where
  "sample_permits = \<lparr>pe_now = (\<lambda>i j. 100 * Second + int i * Second), pe_rules = (\<lambda>_ _. [sample_window_rule, sample_gcra_rule]),
     pe_others = (\<lambda>_ _. id), pe_global = (\<lambda>_. \<lparr>gl_clock = (\<lambda>_. 0), gl_env = (\<lambda>_ _. id), gl_ctx = (\<lambda>_ _. None)\<rparr>),
     pe_wait = (\<lambda>_. True)\<rparr>"

theorem local_permit_takes_one_wait_witness:
  "snd (localRateDelay [sample_window_rule, sample_gcra_rule] sample_row (100 * Second) sample_runtime) = Second \<and>
   (\<exists>rt'. waitForRatePermit mem_ops Second [sample_window_rule, sample_gcra_rule] sample_permits sample_row
        (sample_runtime, mem_New) = Some ((rt', mem_New), True) \<and>
      charged [sample_window_rule, sample_gcra_rule] sample_row (101 * Second) sample_runtime rt')"
proof -
  have d: "snd (localRateDelay [sample_window_rule, sample_gcra_rule] sample_row (100 * Second) sample_runtime) = Second"
    by code_simp
  have r: "\<forall>rule\<in>set [sample_window_rule, sample_gcra_rule]. nr_scope rule = RateLimitScopeLocal \<and>
      in_reach rule (pe_now sample_permits 0 0) (limiter sample_runtime (Queue sample_row) (rateRuleKey rule sample_row))"
    by code_simp
  have k: "distinct (map (\<lambda>rule. rateRuleKey rule sample_row) [sample_window_rule, sample_gcra_rule])" by code_simp
  have n: "pe_now sample_permits 0 0 = 100 * Second" "pe_now sample_permits 1 0 = 101 * Second"
    "pe_rules sample_permits = (\<lambda>_ _. [sample_window_rule, sample_gcra_rule])" "pe_others sample_permits = (\<lambda>_ _. id)"
    "pe_wait sample_permits 0"
    by (simp_all add: sample_permits_def)
  from local_permit_takes_one_wait [OF _ k r n(3,4,5), of mem_ops Second mem_New] d show ?thesis
    unfolding n by simp
qed

section \<open>Rolling back a fixed window\<close>

text \<open>
  A fixed window does not hold when a rollback overtakes another job's reservation. With
  two starts allowed per second, job A reserves, job B reserves and starts, A is refused by a shared
  limit and rolls back to the count it had seen, and two more jobs are granted a start: three
  starts (B and the last two) at one instant. A reservation in GCRA mode is only undone while it is
  the latest one, a fixed-window reservation always.
\<close>

theorem fixed_window_rollback_erases_start:
  "let now = 100 * Second;
       (rt1, ra) = reserveLocalRateLimits [sample_window_rule] sample_row now [];
       (rt2, rb) = reserveLocalRateLimits [sample_window_rule] sample_row now rt1;
       rt3 = rollbackLocal (Queue sample_row) (the ra) rt2;
       (rt4, rc) = reserveLocalRateLimits [sample_window_rule] sample_row now rt3;
       (rt5, rd) = reserveLocalRateLimits [sample_window_rule] sample_row now rt4
   in nr_limit sample_window_rule = 2 \<and> ra \<noteq> None \<and>
      rb \<noteq> None \<and> rc \<noteq> None \<and> rd \<noteq> None"
  by code_simp

end
