(* ===== verification/Client.thy ===== *)
theory Client
  imports Registry Sha256 Pagination
begin

text \<open>
  The enqueueing side: \<^verbatim>\<open>client.go\<close>, \<^verbatim>\<open>admission.go\<close> and the enqueue events of \<^verbatim>\<open>telemetry.go\<close>.
  Job arguments are a record of what the client asks of them: whether the value is nil, its kind,
  the result of \<^verbatim>\<open>json.Marshal\<close> on it, and its version when its type is versioned. A driver is the
  record of the operations the client calls, over any store type.
\<close>

section \<open>Data\<close>

record JobArgs =
  ja_nil :: bool
  ja_Kind :: string
  ja_marshal :: "string res"
  ja_version :: "int option"

record AdmissionRequest =
  ar_Jobs :: "JobInsertParams list"
  ar_Transactional :: bool

record EnqueueStart =
  es_Driver :: string
  es_Count :: int
  es_Transactional :: bool
  es_Queue :: string
  es_Kind :: string

record EnqueueFinish =
  ef_Inserted :: int
  ef_UniqueSkipped :: int
  ef_Err :: "goerr option"

text \<open>\<open>cf_Observed\<close> says whether an observer is configured; its events are part of the results.\<close>

record 's ClientConfig =
  cf_DefaultQueue :: string
  cf_Admission :: "(AdmissionRequest \<Rightarrow> 's \<Rightarrow> goerr option) option"
  cf_Observed :: bool

record 's client_driver =
  cd_Name :: string
  cd_NativeTx :: bool
  cd_insert :: "JobInsertParams list \<Rightarrow> 's \<Rightarrow> 's \<times> JobInsertResult list res"
  cd_insert_tx :: "JobInsertParams list \<Rightarrow> 's \<Rightarrow> 's \<times> JobInsertResult list res"

record InsertRequest =
  rq_Args :: JobArgs
  rq_Opts :: "InsertOpts option"

type_synonym ('s, 'r) enqueued = "'s \<times> (EnqueueStart \<times> EnqueueFinish) list \<times> 'r res"

definition NewClient :: "'s ClientConfig \<Rightarrow> 's ClientConfig" where
  "NewClient cfg = (if cf_DefaultQueue cfg = [] then cfg\<lparr>cf_DefaultQueue := ''default''\<rparr> else cfg)"

section \<open>Unique keys\<close>

text \<open>\<^verbatim>\<open>omitempty\<close>: a field with an empty value is left out.\<close>

definition opt_field :: "bool \<Rightarrow> string \<Rightarrow> string \<Rightarrow> (string \<times> string) list" where
  "opt_field present name value = (if present then [(name, value)] else [])"

definition period_start :: "UniqueOpts \<Rightarrow> gotime \<Rightarrow> int" where
  "period_start opts now =
     (if uo_ByPeriod opts > 0 then UnixNano (time_truncate now (uo_ByPeriod opts)) else 0)"

text \<open>The fields of the canonical structure; the arguments are compacted as a raw message.\<close>

definition unique_fields :: "string \<Rightarrow> string \<Rightarrow> string \<Rightarrow> UniqueOpts \<Rightarrow> gotime \<Rightarrow> (string \<times> string) list" where
  "unique_fields kind queue args opts now =
     [(''version'', Itoa 2), (''kind'', json_quote kind)] @
     opt_field (uo_ByQueue opts \<and> queue \<noteq> []) ''queue'' (json_quote queue) @
     opt_field (uo_Key opts \<noteq> []) ''caller_key'' (json_quote (uo_Key opts)) @
     opt_field (uo_ByArgs opts \<and> args \<noteq> []) ''args'' args @
     opt_field (period_start opts now \<noteq> 0) ''period_start'' (Itoa (period_start opts now))"

definition unique_prefix :: "UniqueOpts \<Rightarrow> string" where
  "unique_prefix opts = (if uo_Forever opts then ''uf2_'' else ''u2_'')"

definition buildUniqueKey :: "JobArgs \<Rightarrow> string \<Rightarrow> UniqueOpts option \<Rightarrow> gotime \<Rightarrow> string res" where
  "buildUniqueKey args queue mopts now =
     (case mopts of
        None \<Rightarrow> Inr []
      | Some opts \<Rightarrow>
          (case (if uo_ByArgs opts then ja_marshal args else Inr []) of
             Inl e \<Rightarrow> Inl (wrap_prefix ''marshal args for unique key'' e)
           | Inr b \<Rightarrow>
               (case (if uo_ByArgs opts \<and> b \<noteq> [] then marshal_raw b else Inr []) of
                  Inl e \<Rightarrow> Inl (wrap_prefix ''marshal canonical unique key'' e)
                | Inr raw \<Rightarrow>
                    Inr (unique_prefix opts @
                      hex_bytes (Sum256 (json_object (unique_fields (ja_Kind args) queue raw opts now)))))))"

section \<open>Insert parameters\<close>

definition option_default :: "'a \<Rightarrow> 'a option \<Rightarrow> 'a" where
  "option_default d x = (case x of None \<Rightarrow> d | Some v \<Rightarrow> v)"

text \<open>The checks of the options, in the order of the source.\<close>

definition check_opts :: "InsertOpts \<Rightarrow> goerr option" where
  "check_opts opts =
     (if io_PayloadVersion opts < 0 then Some (Errorf ''payload version must not be negative'')
      else if option_default 0 (io_MaxRetry opts) < 0 then Some (Errorf ''max retry must not be negative'')
      else if option_default 0 (io_Timeout opts) < 0 then Some (Errorf ''timeout must not be negative'')
      else if (case io_UniqueOpts opts of None \<Rightarrow> False | Some u \<Rightarrow> uo_ByPeriod u < 0)
           then Some (Errorf ''unique period must not be negative'')
      else None)"

definition type_version :: "JobArgs \<Rightarrow> int res" where
  "type_version args =
     (case ja_version args of
        None \<Rightarrow> Inr 1
      | Some v \<Rightarrow> if v \<le> 0 then Inl (Errorf ''payload version must be positive'') else Inr v)"

definition encode_params :: "string \<Rightarrow> int \<Rightarrow> (string \<Rightarrow> JobInsertParams) \<Rightarrow> JobInsertParams res" where
  "encode_params argsJSON version mk =
     (case EncodePayload argsJSON version of
        Inl e \<Rightarrow> Inl (wrap_prefix ''encode job payload'' e)
      | Inr text \<Rightarrow> Inr (mk text))"

definition buildInsertParams ::
  "'s ClientConfig \<Rightarrow> gotime \<Rightarrow> JobArgs \<Rightarrow> InsertOpts option \<Rightarrow> JobInsertParams res" where
  "buildInsertParams cfg now args mopts =
     (if ja_nil args then Inl (Errorf ''job args must not be nil'')
      else if ja_Kind args = [] then Inl (Errorf ''job kind must not be empty'')
      else (case ja_marshal args of
          Inl e \<Rightarrow> Inl (wrap_prefix ''marshal job args'' e)
        | Inr argsJSON \<Rightarrow>
            (case type_version args of
               Inl e \<Rightarrow> Inl e
             | Inr tv \<Rightarrow>
                 (case mopts of
                    None \<Rightarrow>
                      encode_params argsJSON tv (\<lambda>text.
                        \<lparr>ip_Queue = cf_DefaultQueue cfg, ip_Kind = ja_Kind args, ip_Args = text, ip_Priority = 0,
                         ip_RunAt = 0, ip_UniqueKey = [], ip_MaxRetry = 0, ip_Timeout = 0, ip_Tags = [],
                         ip_PipelineID = []\<rparr>)
                  | Some opts \<Rightarrow>
                      (case check_opts opts of
                         Some e \<Rightarrow> Inl e
                       | None \<Rightarrow>
                           let version = (if io_PayloadVersion opts > 0 then io_PayloadVersion opts else tv);
                               queue = (if io_Queue opts \<noteq> [] then io_Queue opts else cf_DefaultQueue cfg)
                           in (case buildUniqueKey args queue (io_UniqueOpts opts) now of
                                 Inl e \<Rightarrow> Inl e
                               | Inr uniqueKey \<Rightarrow>
                                   encode_params argsJSON version (\<lambda>text.
                                     \<lparr>ip_Queue = queue, ip_Kind = ja_Kind args, ip_Args = text,
                                      ip_Priority = io_Priority opts, ip_RunAt = io_RunAt opts,
                                      ip_UniqueKey = uniqueKey,
                                      ip_MaxRetry = option_default 0 (io_MaxRetry opts),
                                      ip_Timeout = option_default 0 (io_Timeout opts),
                                      ip_Tags = io_Tags opts, ip_PipelineID = io_PipelineID opts\<rparr>)))))))"

text \<open>The parameters of a batch; \<open>clk i\<close> is the clock when item \<open>i\<close> is built.\<close>

fun build_all :: "'s ClientConfig \<Rightarrow> (nat \<Rightarrow> gotime) \<Rightarrow> nat \<Rightarrow> InsertRequest list \<Rightarrow> JobInsertParams list res" where
  "build_all cfg clk i [] = Inr []"
| "build_all cfg clk i (q # qs) =
     (case buildInsertParams cfg (clk i) (rq_Args q) (rq_Opts q) of
        Inl e \<Rightarrow> Inl e
      | Inr p \<Rightarrow> (case build_all cfg clk (Suc i) qs of Inl e \<Rightarrow> Inl e | Inr ps \<Rightarrow> Inr (p # ps)))"

section \<open>Admission and observation\<close>

definition admit :: "'s ClientConfig \<Rightarrow> JobInsertParams list \<Rightarrow> bool \<Rightarrow> 's \<Rightarrow> goerr option" where
  "admit cfg params transactional s =
     (case cf_Admission cfg of
        None \<Rightarrow> None
      | Some adm \<Rightarrow>
          if params = [] then None
          else map_option (wrap_prefix ''enqueue admission'')
                 (adm \<lparr>ar_Jobs = params, ar_Transactional = transactional\<rparr> s))"

text \<open>The queue and the kind of a batch are reported only when all its jobs share them.\<close>

definition common :: "('a \<Rightarrow> string) \<Rightarrow> 'a list \<Rightarrow> string" where
  "common f xs = (case xs of [] \<Rightarrow> [] | x # r \<Rightarrow> if list_all (\<lambda>y. f y = f x) r then f x else [])"

definition enqueue_start :: "'s client_driver \<Rightarrow> JobInsertParams list \<Rightarrow> bool \<Rightarrow> EnqueueStart" where
  "enqueue_start drv params transactional =
     \<lparr>es_Driver = cd_Name drv, es_Count = int (length params), es_Transactional = transactional,
      es_Queue = common ip_Queue params, es_Kind = common ip_Kind params\<rparr>"

definition enqueue_finish :: "JobInsertResult list \<Rightarrow> goerr option \<Rightarrow> EnqueueFinish" where
  "enqueue_finish results err =
     \<lparr>ef_Inserted = int (length (filter (\<lambda>r. \<not> ir_UniqueSkip r \<and> ir_Job r \<noteq> None) results)),
      ef_UniqueSkipped = int (length (filter ir_UniqueSkip results)), ef_Err = err\<rparr>"

definition observe ::
  "'s ClientConfig \<Rightarrow> 's client_driver \<Rightarrow> JobInsertParams list \<Rightarrow> bool \<Rightarrow> JobInsertResult list \<Rightarrow> goerr option \<Rightarrow>
   (EnqueueStart \<times> EnqueueFinish) list" where
  "observe cfg drv params transactional results err =
     (if cf_Observed cfg then [(enqueue_start drv params transactional, enqueue_finish results err)] else [])"

section \<open>Enqueueing\<close>

text \<open>One job through the given insert operation, as \<^verbatim>\<open>Enqueue\<close> and \<^verbatim>\<open>EnqueueTx\<close> do.\<close>

definition enqueue_one ::
  "'s ClientConfig \<Rightarrow> 's client_driver \<Rightarrow> bool \<Rightarrow> gotime \<Rightarrow> JobArgs \<Rightarrow> InsertOpts option \<Rightarrow> 's \<Rightarrow>
   ('s, JobInsertResult) enqueued" where
  "enqueue_one cfg drv transactional now args opts s =
     (case buildInsertParams cfg now args opts of
        Inl e \<Rightarrow> (s, [], Inl e)
      | Inr params \<Rightarrow>
          (case admit cfg [params] transactional s of
             Some e \<Rightarrow> (s, [], Inl e)
           | None \<Rightarrow>
               (case (if transactional then cd_insert_tx drv else cd_insert drv) [params] s of
                  (s', Inl e) \<Rightarrow> (s', observe cfg drv [params] transactional [] (Some e), Inl e)
                | (s', Inr results) \<Rightarrow>
                    (case results of
                       [r] \<Rightarrow> (s', observe cfg drv [params] transactional results None, Inr r)
                     | _ \<Rightarrow>
                         let e = Errorf (''driver '' @ go_quote (cd_Name drv) @ '' returned '' @
                                   Itoa (int (length results)) @ '' results for one '' @
                                   (if transactional then ''transactional insert'' else ''insert''))
                         in (s', observe cfg drv [params] transactional results (Some e), Inl e)))))"

definition Enqueue ::
  "'s ClientConfig \<Rightarrow> 's client_driver \<Rightarrow> gotime \<Rightarrow> JobArgs \<Rightarrow> InsertOpts option \<Rightarrow> 's \<Rightarrow>
   ('s, JobInsertResult) enqueued" where
  "Enqueue cfg drv now args opts s = enqueue_one cfg drv False now args opts s"

definition no_tx_error :: "'s client_driver \<Rightarrow> goerr" where
  "no_tx_error drv = wrap_sentinel ErrUnsupported
     (''driver '' @ go_quote (cd_Name drv) @ '' does not support transactional inserts'')"

definition EnqueueTx ::
  "'s ClientConfig \<Rightarrow> 's client_driver \<Rightarrow> gotime \<Rightarrow> JobArgs \<Rightarrow> InsertOpts option \<Rightarrow> 's \<Rightarrow>
   ('s, JobInsertResult) enqueued" where
  "EnqueueTx cfg drv now args opts s =
     (if \<not> cd_NativeTx drv then (s, [], Inl (no_tx_error drv))
      else enqueue_one cfg drv True now args opts s)"

definition enqueue_all ::
  "'s ClientConfig \<Rightarrow> 's client_driver \<Rightarrow> bool \<Rightarrow> (nat \<Rightarrow> gotime) \<Rightarrow> InsertRequest list \<Rightarrow> 's \<Rightarrow>
   ('s, JobInsertResult list) enqueued" where
  "enqueue_all cfg drv transactional clk requests s =
     (case build_all cfg clk 0 requests of
        Inl e \<Rightarrow> (s, [], Inl e)
      | Inr params \<Rightarrow>
          (case admit cfg params transactional s of
             Some e \<Rightarrow> (s, [], Inl e)
           | None \<Rightarrow>
               (case (if transactional then cd_insert_tx drv else cd_insert drv) params s of
                  (s', Inl e) \<Rightarrow> (s', observe cfg drv params transactional [] (Some e), Inl e)
                | (s', Inr results) \<Rightarrow> (s', observe cfg drv params transactional results None, Inr results))))"

definition EnqueueBatch ::
  "'s ClientConfig \<Rightarrow> 's client_driver \<Rightarrow> (nat \<Rightarrow> gotime) \<Rightarrow> InsertRequest list \<Rightarrow> 's \<Rightarrow>
   ('s, JobInsertResult list) enqueued" where
  "EnqueueBatch cfg drv clk requests s = enqueue_all cfg drv False clk requests s"

definition EnqueueBatchTx ::
  "'s ClientConfig \<Rightarrow> 's client_driver \<Rightarrow> (nat \<Rightarrow> gotime) \<Rightarrow> InsertRequest list \<Rightarrow> 's \<Rightarrow>
   ('s, JobInsertResult list) enqueued" where
  "EnqueueBatchTx cfg drv clk requests s =
     (if \<not> cd_NativeTx drv then (s, [], Inl (no_tx_error drv))
      else enqueue_all cfg drv True clk requests s)"

definition EnqueueMany ::
  "'s ClientConfig \<Rightarrow> 's client_driver \<Rightarrow> (nat \<Rightarrow> gotime) \<Rightarrow> JobArgs list \<Rightarrow> InsertOpts option \<Rightarrow> 's \<Rightarrow>
   ('s, JobInsertResult list) enqueued" where
  "EnqueueMany cfg drv clk args opts s =
     enqueue_all cfg drv False clk (map (\<lambda>a. \<lparr>rq_Args = a, rq_Opts = opts\<rparr>) args) s"

definition EnqueueManyTx ::
  "'s ClientConfig \<Rightarrow> 's client_driver \<Rightarrow> (nat \<Rightarrow> gotime) \<Rightarrow> JobArgs list \<Rightarrow> InsertOpts option \<Rightarrow> 's \<Rightarrow>
   ('s, JobInsertResult list) enqueued" where
  "EnqueueManyTx cfg drv clk args opts s =
     (if \<not> cd_NativeTx drv then (s, [], Inl (no_tx_error drv))
      else enqueue_all cfg drv True clk (map (\<lambda>a. \<lparr>rq_Args = a, rq_Opts = opts\<rparr>) args) s)"

section \<open>Queue-depth admission\<close>

text \<open>Incoming jobs per queue, in the order in which the queues first occur.\<close>

definition incoming :: "JobInsertParams list \<Rightarrow> (string, int) gmap" where
  "incoming js = fold (\<lambda>j m. gput (ip_Queue j) (option_default 0 (gget m (ip_Queue j)) + 1) m) js []"

definition active_jobs :: "QueueStats \<Rightarrow> int" where
  "active_jobs st = state_count st JobStateAvailable + state_count st JobStateScheduled +
     state_count st JobStateRetryable + state_count st JobStateRunning"

fun admit_queues ::
  "(string, int) gmap \<Rightarrow> (string \<Rightarrow> 's \<Rightarrow> QueueStats res) \<Rightarrow> 's \<Rightarrow> (string \<times> int) list \<Rightarrow> goerr option" where
  "admit_queues limits stats s [] = None"
| "admit_queues limits stats s ((queue, n_in) # qs) =
     (let limit = option_default 0 (gget limits queue)
      in if limit \<le> 0 then admit_queues limits stats s qs
         else (case stats queue s of
             Inl e \<Rightarrow> Some (wrap_prefix (''admission stats for queue '' @ go_quote queue) e)
           | Inr st \<Rightarrow>
               if active_jobs st + n_in > limit
               then Some (QueueFullError queue (active_jobs st) n_in limit)
               else admit_queues limits stats s qs))"

definition QueueDepthAdmit ::
  "(string, int) gmap \<Rightarrow> (string \<Rightarrow> 's \<Rightarrow> QueueStats res) \<Rightarrow> AdmissionRequest \<Rightarrow> 's \<Rightarrow> goerr option" where
  "QueueDepthAdmit limits stats request s = admit_queues limits stats s (incoming (ar_Jobs request))"

section \<open>Cancellation\<close>

definition Client_Cancel :: "('id \<Rightarrow> 's \<Rightarrow> 's \<times> goerr option) \<Rightarrow> 'id \<Rightarrow> 's \<Rightarrow> 's \<times> goerr option" where
  "Client_Cancel cancel jid s = cancel jid s"

section \<open>Parameters built by the client\<close>

text \<open>
  What the client stores. A successful build has a non-empty kind, the queue of the
  options or else the default one, the version of the options or else of the type, no negative
  retry count or timeout, a unique key exactly when unique options are given, and a payload that
  decodes to that version and the marshalled arguments (for the versions that use the envelope).
\<close>

theorem built_parameters:
  assumes "buildInsertParams cfg now args (Some opts) = Inr p" "ja_marshal args = Inr argsJSON"
    and "type_version args = Inr tv"
    and "version = (if io_PayloadVersion opts > 0 then io_PayloadVersion opts else tv)"
  shows "ip_Kind p = ja_Kind args \<and> ip_Kind p \<noteq> [] \<and>
    ip_Queue p = (if io_Queue opts \<noteq> [] then io_Queue opts else cf_DefaultQueue cfg) \<and>
    ip_Priority p = io_Priority opts \<and> ip_RunAt p = io_RunAt opts \<and> ip_PipelineID p = io_PipelineID opts \<and>
    0 \<le> ip_MaxRetry p \<and> 0 \<le> ip_Timeout p \<and> 0 < version \<and>
    buildUniqueKey args (ip_Queue p) (io_UniqueOpts opts) now = Inr (ip_UniqueKey p) \<and>
    (version = 1 \<and> ip_Args p = argsJSON \<or>
     version \<noteq> 1 \<and> (canonical_json argsJSON \<and> is_duration version \<longrightarrow>
       DecodePayload (ip_Args p) = Inr (version, argsJSON)))"
proof -
  have nn: "\<not> ja_nil args" "ja_Kind args \<noteq> []" and chk: "check_opts opts = None"
    using assms(1-3) by (auto simp: buildInsertParams_def split: if_splits option.splits)
  let ?queue = "if io_Queue opts \<noteq> [] then io_Queue opts else cf_DefaultQueue cfg"
  obtain key where key: "buildUniqueKey args ?queue (io_UniqueOpts opts) now = Inr key"
    using assms(1-3) nn chk by (auto simp: buildInsertParams_def Let_def split: sum.splits if_splits)
  obtain enc where enc: "EncodePayload argsJSON version = Inr enc"
    using assms nn chk key by (auto simp: buildInsertParams_def encode_params_def Let_def split: sum.splits)
  have p: "p = \<lparr>ip_Queue = ?queue, ip_Kind = ja_Kind args, ip_Args = enc, ip_Priority = io_Priority opts,
      ip_RunAt = io_RunAt opts, ip_UniqueKey = key, ip_MaxRetry = option_default 0 (io_MaxRetry opts),
      ip_Timeout = option_default 0 (io_Timeout opts), ip_Tags = io_Tags opts, ip_PipelineID = io_PipelineID opts\<rparr>"
    using assms nn chk key enc by (simp add: buildInsertParams_def encode_params_def Let_def)
  have pos: "0 < version" using enc by (simp add: EncodePayload_def split: if_splits)
  have "0 \<le> option_default 0 (io_MaxRetry opts)" "0 \<le> option_default 0 (io_Timeout opts)"
    using chk by (auto simp: check_opts_def split: if_splits)
  moreover have "DecodePayload enc = Inr (version, argsJSON)" if "canonical_json argsJSON" "is_duration version" "version \<noteq> 1"
    using DecodePayload_EncodePayload [OF that(1) _ that(2)] that(3) pos enc by auto
  moreover have "enc = argsJSON" if "version = 1" using enc that by (simp add: EncodePayload_def)
  ultimately show ?thesis using p nn pos key by auto
qed

section \<open>Unique keys\<close>

lemma buildUniqueKey_shape:
  assumes "buildUniqueKey args queue (Some opts) now = Inr key"
  obtains raw where "key = unique_prefix opts @
    hex_bytes (Sum256 (json_object (unique_fields (ja_Kind args) queue raw opts now)))"
    "uo_ByArgs opts \<Longrightarrow> \<exists>b. ja_marshal args = Inr b \<and> (if b = [] then raw = [] else marshal_raw b = Inr raw)"
  using assms that by (force simp: buildUniqueKey_def split: sum.splits if_splits)

text \<open>
  A key outlives the job's terminal state exactly when the options say so: the drivers'
  test for permanent keys recognises the keys built with \<^verbatim>\<open>Forever\<close> and no others; no key is empty.
\<close>

theorem permanent_key_iff_forever:
  assumes "buildUniqueKey args queue (Some opts) now = Inr key"
  shows "(IsPermanentUniqueKey key \<longleftrightarrow> uo_Forever opts) \<and> key \<noteq> [] \<and>
    length key = (if uo_Forever opts then 68 else 67)"
  by (rule buildUniqueKey_shape [OF assms])
     (auto simp: unique_prefix_def IsPermanentUniqueKey_def permanentUniqueKeyPrefix_def HasPrefix_def
       length_hex_bytes length_Sum256)

definition sample_args :: JobArgs where
  "sample_args = \<lparr>ja_nil = False, ja_Kind = ''email'', ja_marshal = Inr ''{}'', ja_version = None\<rparr>"

definition sample_unique :: UniqueOpts where
  "sample_unique = \<lparr>uo_ByArgs = False, uo_Key = ''order-7'', uo_ByQueue = True, uo_ByPeriod = 0, uo_Forever = True\<rparr>"

definition sample_opts :: InsertOpts where
  "sample_opts = \<lparr>io_Queue = [], io_Priority = 3, io_RunAt = 0, io_UniqueOpts = Some sample_unique, io_MaxRetry = Some 5,
     io_Timeout = None, io_Tags = [], io_PipelineID = [], io_PayloadVersion = 2\<rparr>"

definition sample_config :: "'s ClientConfig" where
  "sample_config = NewClient \<lparr>cf_DefaultQueue = [], cf_Admission = None, cf_Observed = True\<rparr>"

theorem permanent_key_iff_forever_witness:
  "\<exists>key. buildUniqueKey sample_args ''q'' (Some sample_unique) 0 = Inr key \<and> IsPermanentUniqueKey key \<and> length key = 68"
proof -
  obtain key where key: "buildUniqueKey sample_args ''q'' (Some sample_unique) 0 = Inr key"
    by (simp add: buildUniqueKey_def sample_unique_def)
  then show ?thesis using permanent_key_iff_forever [OF key] by (simp add: sample_unique_def)
qed

theorem built_parameters_witness:
  "\<exists>p. buildInsertParams (sample_config :: mem ClientConfig) 0 sample_args (Some sample_opts) = Inr p \<and>
     ip_Queue p = ''default'' \<and> ip_MaxRetry p = 5 \<and> DecodePayload (ip_Args p) = Inr (2, ''{}'')"
proof -
  have c: "canonical_json ''{}''" by code_simp
  obtain key where key: "buildUniqueKey sample_args ''default'' (Some sample_unique) 0 = Inr key"
    by (simp add: buildUniqueKey_def sample_unique_def)
  obtain p where p: "buildInsertParams (sample_config :: mem ClientConfig) 0 sample_args (Some sample_opts) = Inr p"
    "ip_MaxRetry p = 5"
    using key marshal_raw_canonical [OF c]
    by (auto simp: buildInsertParams_def sample_config_def NewClient_def sample_args_def sample_opts_def
        type_version_def check_opts_def option_default_def encode_params_def EncodePayload_def Let_def sample_unique_def)
  have "is_duration 2" by (simp add: is_duration_def min_duration_def max_duration_def)
  with built_parameters [OF p(1), of "''{}''" 1 2] p c show ?thesis
    by (simp add: sample_args_def sample_opts_def sample_config_def NewClient_def type_version_def)
qed

lemma unique_fields_scannable:
  assumes "args = [] \<or> canonical_json args"
  shows "\<forall>(k, v)\<in>set (unique_fields kind queue args opts now). scannable v"
  using assms by (auto simp: unique_fields_def opt_field_def scannable_Itoa scannable_quote scannable_canonical)

lemma unique_fields_members:
  assumes "args = [] \<or> canonical_json args"
  shows "object_members (json_object (unique_fields kind queue args opts now)) = Inr (unique_fields kind queue args opts now)"
  by (rule object_members_json_object [OF _ unique_fields_scannable [OF assms]]) (simp add: unique_fields_def)

lemma json_quote_inject: "json_quote a = json_quote b \<longleftrightarrow> a = b"
proof
  assume "json_quote a = json_quote b"
  then have "read_str (tl (json_quote a)) = read_str (tl (json_quote b))" by simp
  then show "a = b" using read_str_quote [of a "[]"] read_str_quote [of b "[]"] by (simp add: json_quote_def)
qed simp

lemma unique_field_lookup:
  "map_of (unique_fields kind queue args opts now) ''kind'' = Some (json_quote kind)"
  "map_of (unique_fields kind queue args opts now) ''queue'' =
     (if uo_ByQueue opts \<and> queue \<noteq> [] then Some (json_quote queue) else None)"
  "map_of (unique_fields kind queue args opts now) ''caller_key'' =
     (if uo_Key opts \<noteq> [] then Some (json_quote (uo_Key opts)) else None)"
  "map_of (unique_fields kind queue args opts now) ''args'' = (if uo_ByArgs opts \<and> args \<noteq> [] then Some args else None)"
  "map_of (unique_fields kind queue args opts now) ''period_start'' =
     (if period_start opts now \<noteq> 0 then Some (Itoa (period_start opts now)) else None)"
  by (simp_all add: unique_fields_def opt_field_def map_of_append map_add_def split: option.splits)

text \<open>
  The text that is hashed determines every dimension of uniqueness: the kind, the queue
  when queues are included, the caller's key, the arguments when they are included, and the start
  of the period window. Two jobs with the same text agree in all of them.
\<close>

theorem unique_text_is_unambiguous:
  assumes "json_object (unique_fields kind queue args opts now) =
      json_object (unique_fields kind' queue' args' opts' now')"
    and "args = [] \<or> canonical_json args" "args' = [] \<or> canonical_json args'"
  shows "kind = kind' \<and> uo_Key opts = uo_Key opts' \<and> period_start opts now = period_start opts' now' \<and>
    (if uo_ByQueue opts then queue else []) = (if uo_ByQueue opts' then queue' else []) \<and>
    (if uo_ByArgs opts then args else []) = (if uo_ByArgs opts' then args' else [])"
proof -
  have eq: "unique_fields kind queue args opts now = unique_fields kind' queue' args' opts' now'"
    using arg_cong [OF assms(1), of object_members]
    unfolding unique_fields_members [OF assms(2)] unique_fields_members [OF assms(3)] by (simp only: sum.inject)
  have eqs: "map_of (unique_fields kind queue args opts now) k = map_of (unique_fields kind' queue' args' opts' now') k" for k
    by (simp add: eq)
  note eqs = eqs [of "''kind''"] eqs [of "''queue''"] eqs [of "''caller_key''"] eqs [of "''args''"] eqs [of "''period_start''"]
  note eqs = eqs [unfolded unique_field_lookup]
  have "kind = kind'" using eqs(1) by (simp add: json_quote_inject)
  moreover have "(if uo_ByQueue opts then queue else []) = (if uo_ByQueue opts' then queue' else [])"
    using eqs(2) by (auto simp: json_quote_inject split: if_splits)
  moreover have "uo_Key opts = uo_Key opts'"
    using eqs(3) by (auto simp: json_quote_inject split: if_splits)
  moreover have "(if uo_ByArgs opts then args else []) = (if uo_ByArgs opts' then args' else [])"
    using eqs(4) by (auto split: if_splits)
  moreover have "period_start opts now = period_start opts' now'"
    using eqs(5) Itoa_inject [of "period_start opts now" "period_start opts' now'"]
    by (auto split: if_splits)
  ultimately show ?thesis by blast
qed

theorem unique_text_is_unambiguous_witness:
  "json_object (unique_fields ''k'' ''a'' ''{}'' (sample_unique\<lparr>uo_ByQueue := False\<rparr>) 0) =
     json_object (unique_fields ''k'' ''b'' ''{}'' (sample_unique\<lparr>uo_ByQueue := False\<rparr>) 7) \<and>
   period_start (sample_unique\<lparr>uo_ByQueue := False\<rparr>) 0 = period_start (sample_unique\<lparr>uo_ByQueue := False\<rparr>) 7"
proof -
  let ?o = "sample_unique\<lparr>uo_ByQueue := False\<rparr>"
  have eq: "json_object (unique_fields ''k'' ''a'' ''{}'' ?o 0) = json_object (unique_fields ''k'' ''b'' ''{}'' ?o 7)"
    by (simp add: unique_fields_def opt_field_def sample_unique_def period_start_def)
  have "canonical_json ''{}''" by code_simp
  with unique_text_is_unambiguous [OF eq] eq show ?thesis by blast
qed

section \<open>Stores behind a client\<close>

definition row_of :: "JobInsertParams \<Rightarrow> JobRow \<Rightarrow> bool" where
  "row_of p row \<longleftrightarrow> Queue row = ip_Queue p \<and> Kind row = ip_Kind p \<and> Args row = ip_Args p \<and>
     Priority row = ip_Priority p \<and> UniqueKey row = ip_UniqueKey p \<and> MaxRetry row = ip_MaxRetry p \<and>
     Timeout row = ip_Timeout p \<and> Tags row = ip_Tags p \<and> PipelineID row = ip_PipelineID p \<and>
     AttemptNum row = 0 \<and> (State row = JobStateAvailable \<or> State row = JobStateScheduled) \<and>
     (IsZero (ip_RunAt p) \<or> RunAt row = ip_RunAt p)"

text \<open>
  What a client relies on when it inserts one job: exactly one result; either a new row that
  carries the parameters, under an ID that was not in use, with every other row kept, or a skip
  that returns the stored row which holds the key and changes nothing.
\<close>

locale job_store =
  fixes insert_jobs :: "JobInsertParams list \<Rightarrow> 's \<Rightarrow> 's \<times> JobInsertResult list res"
    and job_at :: "string \<Rightarrow> 's \<Rightarrow> JobRow option"
    and store_ok :: "'s \<Rightarrow> bool"
  assumes insert_one_job: "store_ok s \<Longrightarrow> insert_jobs [p] s = (s', r) \<Longrightarrow>
    \<exists>row skip. r = Inr [\<lparr>ir_Job = Some row, ir_UniqueSkip = skip\<rparr>] \<and> job_at (ID row) s' = Some row \<and>
      (if skip then s' = s \<and> ip_UniqueKey p \<noteq> [] \<and> UniqueKey row = ip_UniqueKey p
       else row_of p row \<and> job_at (ID row) s = None \<and> (\<forall>k. k \<noteq> ID row \<longrightarrow> job_at k s' = job_at k s))"
begin

lemma enqueue_one_stores:
  assumes "store_ok s" "cd_insert drv = insert_jobs" "cf_Admission cfg = None"
    and "buildInsertParams cfg now args opts = Inr p"
  shows "\<exists>s' row skip.
    enqueue_one cfg drv False now args opts s =
      (s', observe cfg drv [p] False [\<lparr>ir_Job = Some row, ir_UniqueSkip = skip\<rparr>] None,
       Inr \<lparr>ir_Job = Some row, ir_UniqueSkip = skip\<rparr>) \<and>
    job_at (ID row) s' = Some row \<and>
    (if skip then s' = s \<and> ip_UniqueKey p \<noteq> [] \<and> UniqueKey row = ip_UniqueKey p
     else row_of p row \<and> job_at (ID row) s = None \<and> (\<forall>k. k \<noteq> ID row \<longrightarrow> job_at k s' = job_at k s))"
proof -
  obtain s' r where ins: "insert_jobs [p] s = (s', r)" by fastforce
  from insert_one_job [OF assms(1) ins] obtain row skip where
    r: "r = Inr [\<lparr>ir_Job = Some row, ir_UniqueSkip = skip\<rparr>]" "job_at (ID row) s' = Some row"
    "if skip then s' = s \<and> ip_UniqueKey p \<noteq> [] \<and> UniqueKey row = ip_UniqueKey p
     else row_of p row \<and> job_at (ID row) s = None \<and> (\<forall>k. k \<noteq> ID row \<longrightarrow> job_at k s' = job_at k s)" by blast
  have "enqueue_one cfg drv False now args opts s =
      (s', observe cfg drv [p] False [\<lparr>ir_Job = Some row, ir_UniqueSkip = skip\<rparr>] None,
       Inr \<lparr>ir_Job = Some row, ir_UniqueSkip = skip\<rparr>)"
    using assms ins r(1) by (simp add: enqueue_one_def admit_def)
  with r(2,3) show ?thesis by blast
qed

end

definition mem_job :: "string \<Rightarrow> mem \<Rightarrow> JobRow option" where
  "mem_job jid d = (case JobGetByID jid d of Inr row \<Rightarrow> Some row | Inl _ \<Rightarrow> None)"

definition mem_ok :: "mem \<Rightarrow> bool" where
  "mem_ok d \<longleftrightarrow> mem_inv d \<and> unat (seq d) + 1 < 2 ^ 64"

lemma mem_job_gget: "mem_job jid d = gget (jobs d) jid"
  by (simp add: mem_job_def JobGetByID_def split: option.splits)

lemma findUniqueJob_stored:
  assumes "mem_inv d" "findUniqueJob key d = Some row"
  shows "gget (jobs d) (ID row) = Some row" "UniqueKey row = key"
proof -
  from assms(2) have "row \<in> set (gvals (jobs d))" "blocks_key key row"
    by (auto simp: findUniqueJob_def find_Some_iff)
  then obtain k where k: "(k, row) \<in> set (jobs d)" by auto
  then have "gget (jobs d) k = Some row" using gget_Some_iff mem_inv_distinct(1) [OF assms(1)] by fast
  then show "gget (jobs d) (ID row) = Some row" using mem_invD(1) [OF assms(1)] by fastforce
  show "UniqueKey row = key" using \<open>blocks_key key row\<close> by (simp add: blocks_key_def)
qed

lemma mem_insert_one_job:
  assumes "mem_ok d" "JobInsertMany clk [p] d = (d', r)"
  shows "\<exists>row skip. r = Inr [\<lparr>ir_Job = Some row, ir_UniqueSkip = skip\<rparr>] \<and> mem_job (ID row) d' = Some row \<and>
      (if skip then d' = d \<and> ip_UniqueKey p \<noteq> [] \<and> UniqueKey row = ip_UniqueKey p
       else row_of p row \<and> mem_job (ID row) d = None \<and> (\<forall>k. k \<noteq> ID row \<longrightarrow> mem_job k d' = mem_job k d))"
proof -
  have inv: "mem_inv d" and room: "unat (seq d) + 1 < 2 ^ 64" using assms(1) by (simp_all add: mem_ok_def)
  have eq: "d' = fst (insert_one (clk 0) p d)" "r = Inr [snd (insert_one (clk 0) p d)]"
    using assms(2) by (simp_all add: JobInsertMany_def split_beta Let_def)
  show ?thesis
  proof (cases "inserts p d")
    case True
    let ?row = "new_row (mem_id (seq d + 1)) (clk 0) p"
    have j: "jobs d' = gput (mem_id (seq d + 1)) ?row (jobs d)" and sk: "r = Inr [\<lparr>ir_Job = Some ?row, ir_UniqueSkip = False\<rparr>]"
      using eq insert_one_new [OF True, of "clk 0"] by (simp_all add: ensureQueue_def split: option.splits)
    have fresh: "gget (jobs d) (mem_id (seq d + 1)) = None"
    proof (rule ccontr)
      assume "gget (jobs d) (mem_id (seq d + 1)) \<noteq> None"
      then obtain r where "gget (jobs d) (mem_id (seq d + 1)) = Some r" by auto
      from mem_invD(2) [OF inv this] show False by (auto simp: mem_id_Suc [OF room] valid_id_def)
    qed
    have ro: "row_of p ?row" "ID ?row = mem_id (seq d + 1)" by (auto simp: row_of_def new_row_def Let_def)
    show ?thesis
      using sk j fresh ro by (intro exI [of _ ?row] exI [of _ False]) (simp add: mem_job_gget gmap_simps)
  next
    case False
    then obtain row where row: "findUniqueJob (ip_UniqueKey p) d = Some row" "ip_UniqueKey p \<noteq> []"
      by (auto simp: inserts_def split: if_splits)
    from insert_one_skip [OF False, of "clk 0"] row have sk: "r = Inr [\<lparr>ir_Job = Some row, ir_UniqueSkip = True\<rparr>]" "d' = d"
      using eq by (simp_all add: JobInsertResult.equality)
    show ?thesis
      using sk row findUniqueJob_stored [OF inv row(1)] by (intro exI [of _ row] exI [of _ True]) (simp add: mem_job_gget)
  qed
qed

interpretation mem_jobs: job_store "JobInsertMany clk" mem_job mem_ok for clk
  by unfold_locales (rule mem_insert_one_job)

definition mem_client :: "(nat \<Rightarrow> gotime) \<Rightarrow> mem client_driver" where
  "mem_client clk = \<lparr>cd_Name = ''memory'', cd_NativeTx = False, cd_insert = JobInsertMany clk,
     cd_insert_tx = JobInsertMany clk\<rparr>"



section \<open>Queue depth under admission\<close>

definition active_state :: "JobState \<Rightarrow> bool" where
  "active_state s \<longleftrightarrow> s \<in> {JobStateAvailable, JobStateScheduled, JobStateRetryable, JobStateRunning}"

definition active_in :: "string \<Rightarrow> mem \<Rightarrow> int" where
  "active_in q d = int (length (filter (\<lambda>r. Queue r = q \<and> active_state (State r)) (AllJobs d)))"

definition into_queue :: "string \<Rightarrow> JobInsertParams list \<Rightarrow> int" where
  "into_queue q ps = int (length (filter (\<lambda>p. ip_Queue p = q) ps))"

lemma mem_stats_count:
  "state_count (foldl (\<lambda>st row. if Queue row = q then count_state (State row) st else st) st0 rows) s =
     state_count st0 s + int (length (filter (\<lambda>r. Queue r = q \<and> State r = s) rows))"
  by (induction rows arbitrary: st0) (auto simp: state_count_count_state)

lemma active_jobs_stats: "active_jobs (mem_QueueStats q d) = active_in q d"
proof -
  have "int (length (filter (\<lambda>r. Queue r = q \<and> active_state (State r)) rows)) =
      int (length (filter (\<lambda>r. Queue r = q \<and> State r = JobStateAvailable) rows)) +
      int (length (filter (\<lambda>r. Queue r = q \<and> State r = JobStateScheduled) rows)) +
      int (length (filter (\<lambda>r. Queue r = q \<and> State r = JobStateRetryable) rows)) +
      int (length (filter (\<lambda>r. Queue r = q \<and> State r = JobStateRunning) rows))" for rows
    by (induction rows) (auto simp: active_state_def)
  from this [of "gvals (jobs d)"] show ?thesis
    unfolding active_jobs_def mem_QueueStats_def mem_stats_count active_in_def AllJobs_def by simp
qed

lemma filter_gput_le:
  "length (filter P (gvals (gput k v m))) \<le> length (filter P (gvals m)) + (if P v then 1 else 0)"
  by (induction m) auto

lemma active_insert_one: "active_in q (fst (insert_one t p d)) \<le> active_in q d + into_queue q [p]"
proof (cases "inserts p d")
  case True
  have j: "jobs (fst (insert_one t p d)) = gput (mem_id (seq d + 1)) (new_row (mem_id (seq d + 1)) t p) (jobs d)"
    using insert_one_new(1) [OF True, of t] by (simp add: ensureQueue_def split: option.splits)
  have "Queue (new_row i t p) = ip_Queue p" for i by (simp add: new_row_def Let_def)
  then show ?thesis
    using filter_gput_le [of "\<lambda>r. Queue r = q \<and> active_state (State r)" "mem_id (seq d + 1)"
        "new_row (mem_id (seq d + 1)) t p" "jobs d"]
    by (simp add: active_in_def AllJobs_def j into_queue_def split: if_splits)
next
  case False
  then show ?thesis by (simp add: insert_one_skip into_queue_def)
qed

lemma active_insert_many: "active_in q (fst (JobInsertMany clk ps d)) \<le> active_in q d + into_queue q ps"
proof -
  have "active_in q (fst (JobInsertMany_loop clk i ps d)) \<le> active_in q d + into_queue q ps" for i
  proof (induction ps arbitrary: i d)
    case (Cons p ps)
    have "into_queue q (p # ps) = into_queue q [p] + into_queue q ps" by (simp add: into_queue_def)
    with Cons.IH [of "Suc i" "fst (insert_one (clk i) p d)"] active_insert_one [of q "clk i" p d]
    show ?case by (simp add: split_beta Let_def)
  qed (simp add: into_queue_def)
  then show ?thesis by (simp add: JobInsertMany_def split_beta Let_def)
qed

lemma incoming_counts:
  "gget (incoming ps) q = (if into_queue q ps = 0 then None else Some (into_queue q ps))"
proof -
  have "gget (fold (\<lambda>j m. gput (ip_Queue j) (option_default 0 (gget m (ip_Queue j)) + 1) m) ps m) q =
      (if into_queue q ps = 0 then gget m q else Some (option_default 0 (gget m q) + into_queue q ps))" for m
    by (induction ps arbitrary: m) (auto simp: into_queue_def option_default_def gmap_simps)
  from this [of "[]"] show ?thesis by (simp add: incoming_def option_default_def)
qed

lemma admit_queues_None:
  "admit_queues limits stats s qs = None \<longleftrightarrow>
    (\<forall>(q, n)\<in>set qs. option_default 0 (gget limits q) \<le> 0 \<or>
      (\<exists>st. stats q s = Inr st \<and> active_jobs st + n \<le> option_default 0 (gget limits q)))"
proof (induction qs)
  case (Cons qn qs)
  obtain q n where qn: "qn = (q, n)" by fastforce
  show ?case
  proof (cases "option_default 0 (gget limits q) \<le> 0")
    case True
    with Cons qn show ?thesis by (simp add: Let_def)
  next
    case False
    with Cons qn show ?thesis by (cases "stats q s") (auto simp: Let_def)
  qed
qed simp

lemma admit_queues_rejects:
  assumes "admit_queues limits stats s qs = Some e" "\<And>q. \<exists>st. stats q s = Inr st"
  shows "errors_is e ErrAdmissionRejected"
  using assms(1)
proof (induction qs)
  case (Cons qn qs)
  obtain q n where qn: "qn = (q, n)" by fastforce
  obtain st where "stats q s = Inr st" using assms(2) by blast
  with Cons qn show ?case by (auto simp: Let_def split: if_splits)
qed simp

definition mem_stats :: "string \<Rightarrow> mem \<Rightarrow> QueueStats res" where
  "mem_stats q d = Inr (mem_QueueStats q d)"

text \<open>
  Queue-depth admission bounds the depth. A batch that is accepted leaves every limited
  queue it adds to with at most the limit of active jobs, and every other queue no deeper than
  before; a batch that the policy rejects fails with the admission error and changes nothing.
\<close>

theorem admission_bounds_queue_depth:
  assumes "cf_Admission cfg = Some (QueueDepthAdmit limits mem_stats)"
    and "build_all cfg clk 0 requests = Inr ps"
    and "EnqueueBatch cfg (mem_client clk') clk requests d = (d', obs, r)"
  shows "(\<exists>results. r = Inr results \<and>
      (\<forall>q. (if 0 < option_default 0 (gget limits q) \<and> into_queue q ps \<noteq> 0
            then active_in q d' \<le> option_default 0 (gget limits q)
            else active_in q d' \<le> active_in q d + into_queue q ps))) \<or>
    (\<exists>e. r = Inl e \<and> errors_is e ErrAdmissionRejected \<and> d' = d)"
proof (cases "admit cfg ps False d")
  case None
  then have eq: "d' = fst (JobInsertMany clk' ps d)" "\<exists>results. r = Inr results"
    using assms(2,3)
    by (auto simp: EnqueueBatch_def enqueue_all_def mem_client_def JobInsertMany_def split_beta Let_def)
  have "active_in q d' \<le> option_default 0 (gget limits q)"
    if q: "0 < option_default 0 (gget limits q)" "into_queue q ps \<noteq> 0" for q
  proof -
    have "ps \<noteq> []" using q(2) by (auto simp: into_queue_def)
    with None assms(1) have "admit_queues limits mem_stats d (incoming ps) = None"
      by (simp add: admit_def QueueDepthAdmit_def)
    moreover have "(q, into_queue q ps) \<in> set (incoming ps)"
      using incoming_counts [of ps q] q(2) by (simp add: map_of_SomeD)
    ultimately have "active_in q d + into_queue q ps \<le> option_default 0 (gget limits q)"
      using q(1) unfolding admit_queues_None by (fastforce simp: mem_stats_def active_jobs_stats)
    with active_insert_many [of q clk' ps d] eq(1) show ?thesis by simp
  qed
  with eq active_insert_many show ?thesis by auto
next
  case (Some e)
  then have "r = Inl e" "d' = d" using assms(2,3) by (simp_all add: EnqueueBatch_def enqueue_all_def)
  moreover have "errors_is e ErrAdmissionRejected"
    using Some assms(1) admit_queues_rejects [of limits mem_stats d "incoming ps"]
    by (auto simp: admit_def QueueDepthAdmit_def mem_stats_def split: if_splits)
  ultimately show ?thesis by blast
qed

definition sample_limited :: "mem ClientConfig" where
  "sample_limited = NewClient \<lparr>cf_DefaultQueue = ''q'', cf_Admission = Some (QueueDepthAdmit [(''q'', 1)] mem_stats),
     cf_Observed = False\<rparr>"

theorem admission_bounds_queue_depth_witness:
  "let req = \<lparr>rq_Args = sample_args, rq_Opts = None\<rparr>;
       one = EnqueueBatch sample_limited (mem_client (\<lambda>_. 9)) (\<lambda>_. 0) [req] mem_New
   in active_in ''q'' (fst one) \<le> 1 \<and> (\<exists>e. snd (snd (EnqueueBatch sample_limited (mem_client (\<lambda>_. 9)) (\<lambda>_. 0) [req] (fst one))) = Inl e)"
proof -
  let ?req = "\<lparr>rq_Args = sample_args, rq_Opts = None\<rparr>"
  let ?one = "EnqueueBatch sample_limited (mem_client (\<lambda>_. 9)) (\<lambda>_. 0) [?req] mem_New"
  obtain d' obs r where one: "?one = (d', obs, r)" by (metis prod_cases3)
  have adm: "cf_Admission sample_limited = Some (QueueDepthAdmit [(''q'', 1)] mem_stats)"
    by (simp add: sample_limited_def NewClient_def)
  obtain p where p: "build_all sample_limited (\<lambda>_. 0) 0 [?req] = Inr [p]" "ip_Queue p = ''q''"
    by (simp add: buildInsertParams_def sample_args_def type_version_def encode_params_def EncodePayload_def
        sample_limited_def NewClient_def)
  have "case snd (snd ?one) of Inl e \<Rightarrow> False | Inr _ \<Rightarrow> True" by code_simp
  then have ok: "r \<noteq> Inl e" for e using one by auto
  have full: "case snd (snd (EnqueueBatch sample_limited (mem_client (\<lambda>_. 9)) (\<lambda>_. 0) [?req] (fst ?one))) of
      Inl e \<Rightarrow> True | Inr _ \<Rightarrow> False" by code_simp
  have "active_in ''q'' d' \<le> 1"
    using admission_bounds_queue_depth [OF adm p(1) one] ok p(2)
    by (auto simp: into_queue_def option_default_def split: if_splits)
  moreover have "\<exists>e. snd (snd (EnqueueBatch sample_limited (mem_client (\<lambda>_. 9)) (\<lambda>_. 0) [?req] (fst ?one))) = Inl e"
    using full by (auto split: sum.splits)
  ultimately show ?thesis using one by (simp only: Let_def fst_conv)
qed

end
