(* ===== verification/Worker_Process.thy ===== *)
theory Worker_Process
  imports Client
begin

text \<open>
  What a worker does with one claimed job (\<^verbatim>\<open>worker.go\<close>: \<^verbatim>\<open>processRow\<close>, \<^verbatim>\<open>callHandler\<close>,
  \<^verbatim>\<open>fencedStateParams\<close>, \<^verbatim>\<open>setState\<close>, \<^verbatim>\<open>rescueStuck\<close> and one beat of \<^verbatim>\<open>startHeartbeat\<close>). User code,
  the handlers and the middleware, is a parameter, and so are the stack text of a panic and the
  error of the claim's context after the handler. Errors handed to the error handler are part of
  the result.
\<close>

section \<open>Running the handler\<close>

type_synonym job_handler = "RawJob \<Rightarrow> handler_result"
type_synonym job_middleware = "job_handler \<Rightarrow> job_handler"

text \<open>\<^verbatim>\<open>newPanicError\<close> of the recovered value, already rendered by \<^verbatim>\<open>anyToString\<close>.\<close>

definition newPanicError :: "string \<Rightarrow> string \<Rightarrow> goerr" where
  "newPanicError stack v = PanicError v stack"

definition recovered :: "string \<Rightarrow> handler_result \<Rightarrow> goerr option" where
  "recovered stack r = (case r of Returned e \<Rightarrow> e | Panicked v \<Rightarrow> Some (newPanicError stack v))"

text \<open>The innermost handler recovers panics, so middleware sees an error instead.\<close>

definition inner_handler :: "'a Registry \<Rightarrow> string \<Rightarrow> job_handler" where
  "inner_handler reg stack raw = Returned (recovered stack (snd (Registry_Process reg raw)))"

text \<open>Middleware wraps in reverse order, the first one outermost.\<close>

definition wrap_middleware :: "job_middleware list \<Rightarrow> job_handler \<Rightarrow> job_handler" where
  "wrap_middleware mws h = foldr (\<lambda>mw next. mw next) mws h"

text \<open>A panic of the middleware itself is recovered outside the chain.\<close>

definition callHandler :: "string \<Rightarrow> RawJob \<Rightarrow> job_handler \<Rightarrow> goerr option" where
  "callHandler stack raw h = recovered stack (h raw)"

section \<open>Outcome of an attempt\<close>

definition effective_max_retry :: "'a Registry \<Rightarrow> JobRow \<Rightarrow> int" where
  "effective_max_retry reg row =
     (let m1 = (if MaxRetry row \<le> 0
                then (case Registry_Opts reg (Kind row) of
                        Some opts \<Rightarrow> if wo_MaxRetry opts > 0 then wo_MaxRetry opts else MaxRetry row
                      | None \<Rightarrow> MaxRetry row)
                else MaxRetry row)
      in if m1 \<le> 0 then 3 else m1)"

definition effective_timeout :: "'a Registry \<Rightarrow> JobRow \<Rightarrow> duration" where
  "effective_timeout reg row =
     (if Timeout row \<le> 0
      then (case Registry_Opts reg (Kind row) of Some opts \<Rightarrow> wo_Timeout opts | None \<Rightarrow> Timeout row)
      else Timeout row)"

definition raw_of_row :: "JobRow \<Rightarrow> int \<Rightarrow> RawJob" where
  "raw_of_row row maxRetry =
     \<lparr>rj_ID = ID row, rj_Queue = Queue row, rj_Kind = Kind row, rj_Args = Args row,
      rj_AttemptNum = AttemptNum row, rj_MaxRetry = maxRetry, rj_CreatedAt = CreatedAt row,
      rj_RunAt = RunAt row, rj_WorkerID = WorkerID row, rj_Tags = Tags row,
      rj_PipelineID = PipelineID row, rj_PayloadVersion = 0\<rparr>"

definition blank_state :: JobSetStateParams where
  "blank_state = \<lparr>sp_ID = [], sp_State = NoState, sp_Err = None, sp_Trace = None, sp_Attempt = 0,
     sp_RetryAt = 0, sp_ExpectedWorkerID = [], sp_ExpectedAttempt = 0, sp_Yield = False\<rparr>"

definition fencedStateParams :: "JobRow \<Rightarrow> JobSetStateParams \<Rightarrow> JobSetStateParams" where
  "fencedStateParams row params =
     params\<lparr>sp_ID := ID row, sp_ExpectedWorkerID := WorkerID row, sp_ExpectedAttempt := AttemptNum row\<rparr>"

text \<open>Errors other than a lost claim go to the error handler.\<close>

definition setState ::
  "(JobSetStateParams \<Rightarrow> 's \<Rightarrow> 's \<times> goerr option) \<Rightarrow> JobSetStateParams \<Rightarrow> 's \<Rightarrow> 's \<times> goerr list" where
  "setState set_state params s =
     (case set_state params s of
        (s', None) \<Rightarrow> (s', [])
      | (s', Some e) \<Rightarrow>
          (s', if errors_is e ErrStaleClaim then []
               else [wrap_prefix (''set state for job '' @ sp_ID params) e]))"

text \<open>
  What surrounds an attempt: the registry, the middleware, the retry policy (attempt, error and
  clock reading to instant), the clock reading after the handler, the stack text, and the error
  of the claim context after the handler.
\<close>

record 'a attempt_env =
  av_registry :: "'a Registry"
  av_middleware :: "job_middleware list"
  av_retry :: "int \<Rightarrow> goerr \<Rightarrow> gotime \<Rightarrow> gotime"
  av_now :: gotime
  av_stack :: string
  av_ctx_err :: "goerr option"

definition run_handler :: "'a attempt_env \<Rightarrow> JobRow \<Rightarrow> goerr option" where
  "run_handler env row =
     callHandler (av_stack env) (raw_of_row row (effective_max_retry (av_registry env) row))
       (wrap_middleware (av_middleware env) (inner_handler (av_registry env) (av_stack env)))"

definition failed_params :: "JobRow \<Rightarrow> JobState \<Rightarrow> goerr \<Rightarrow> gotime \<Rightarrow> JobSetStateParams" where
  "failed_params row st e retryAt =
     blank_state\<lparr>sp_State := st, sp_Err := Some (error_text e), sp_Trace := panicTrace e,
       sp_Attempt := AttemptNum row, sp_RetryAt := retryAt\<rparr>"

definition retry_instant :: "'a attempt_env \<Rightarrow> JobRow \<Rightarrow> goerr \<Rightarrow> gotime" where
  "retry_instant env row e =
     (case AsRetry e of
        Some (RetryError _ at aft) \<Rightarrow> if IsZero at then av_now env + aft else at
      | _ \<Rightarrow> av_retry env (AttemptNum row) e (av_now env))"

text \<open>The transition a worker requests, with the state and error it reports.\<close>

definition attempt_outcome :: "'a attempt_env \<Rightarrow> JobRow \<Rightarrow> JobSetStateParams \<times> JobState \<times> goerr option" where
  "attempt_outcome env row =
     (let maxRetry = effective_max_retry (av_registry env) row;
          jobErr = run_handler env row
      in case av_ctx_err env of
           Some ce \<Rightarrow> (blank_state\<lparr>sp_Yield := True\<rparr>, JobStateAvailable, Some ce)
         | None \<Rightarrow>
             (case jobErr of
                None \<Rightarrow> (blank_state\<lparr>sp_State := JobStateCompleted\<rparr>, JobStateCompleted, None)
              | Some e \<Rightarrow>
                  if AsDiscard e \<noteq> None then (failed_params row JobStateDiscarded e 0, JobStateDiscarded, Some e)
                  else if AttemptNum row \<ge> maxRetry
                  then (failed_params row JobStateDiscarded e 0, JobStateDiscarded, Some e)
                  else let retryAt = retry_instant env row e
                       in if IsZero retryAt
                          then (failed_params row JobStateDiscarded e 0, JobStateDiscarded, Some e)
                          else (failed_params row JobStateRetryable e retryAt, JobStateRetryable, Some e)))"

definition processRow ::
  "'a attempt_env \<Rightarrow> (JobSetStateParams \<Rightarrow> 's \<Rightarrow> 's \<times> goerr option) \<Rightarrow> JobRow \<Rightarrow> 's \<Rightarrow>
   's \<times> goerr list \<times> JobState \<times> goerr option" where
  "processRow env set_state row s =
     (let (params, st, err) = attempt_outcome env row;
          (s', reports) = setState set_state (fencedStateParams row params) s
      in (s', reports, st, err))"

section \<open>Rescue and heartbeat\<close>

definition rescueStuck ::
  "(JobRescueParams \<Rightarrow> 's \<Rightarrow> 's \<times> int res) \<Rightarrow> gotime \<Rightarrow> duration \<Rightarrow> string list \<Rightarrow> 's \<Rightarrow> 's \<times> goerr list" where
  "rescueStuck resc now stuckTimeout qs s =
     foldl (\<lambda>(s, reports) queue.
         case resc \<lparr>rp_Queue = queue, rp_At = now, rp_Before = now + (- stuckTimeout)\<rparr> s of
           (s', Inl e) \<Rightarrow> (s', reports @ [wrap_prefix (''rescue queue '' @ go_quote queue) e])
         | (s', Inr n) \<Rightarrow> (s', reports)) (s, []) qs"

text \<open>One tick of the heartbeat goroutine: whether the claim context is cancelled.\<close>

definition heartbeat_tick ::
  "(JobHeartbeatParams \<Rightarrow> 's \<Rightarrow> 's \<times> bool res) \<Rightarrow> gotime \<Rightarrow> duration \<Rightarrow> JobRow \<Rightarrow> 's \<Rightarrow> 's \<times> goerr list \<times> bool" where
  "heartbeat_tick beat now stuckTimeout row s =
     (case beat \<lparr>hp_ID = ID row, hp_WorkerID = WorkerID row, hp_Attempt = AttemptNum row, hp_At = now,
                 hp_LeaseExpiresAt = now + stuckTimeout\<rparr> s of
        (s', Inl e) \<Rightarrow> (s', [wrap_prefix (''heartbeat job '' @ ID row) e], False)
      | (s', Inr renewed) \<Rightarrow> (s', [], \<not> renewed))"

section \<open>Properties\<close>

lemma effective_max_retry_pos: "1 \<le> effective_max_retry reg row"
  by (auto simp: effective_max_retry_def Let_def split: option.splits)

lemma fenced_simps [simp]:
  "sp_ID (fencedStateParams row p) = ID row" "sp_State (fencedStateParams row p) = sp_State p"
  "sp_Err (fencedStateParams row p) = sp_Err p" "sp_Trace (fencedStateParams row p) = sp_Trace p"
  "sp_RetryAt (fencedStateParams row p) = sp_RetryAt p" "sp_Yield (fencedStateParams row p) = sp_Yield p"
  "sp_ExpectedWorkerID (fencedStateParams row p) = WorkerID row"
  "sp_ExpectedAttempt (fencedStateParams row p) = AttemptNum row"
  by (simp_all add: fencedStateParams_def)

text \<open>The in-memory driver as the executor of state transitions.\<close>

definition mem_set_state :: "(nat \<Rightarrow> gotime) \<Rightarrow> JobSetStateParams \<Rightarrow> mem \<Rightarrow> mem \<times> goerr option" where
  "mem_set_state clk p d = JobSetStateIfRunning clk p d"

lemma processRow_mem:
  assumes "attempt_outcome env row = (params, st, err)"
  shows "processRow env (mem_set_state clk) row d =
    (fst (JobSetStateIfRunning clk (fencedStateParams row params) d), [], st, err)"
  using assms
  by (auto simp: processRow_def setState_def mem_set_state_def JobSetStateIfRunning_def stale_claim_def
      split: option.splits)

definition claim_held :: "mem \<Rightarrow> JobRow \<Rightarrow> bool" where
  "claim_held d row \<longleftrightarrow> (case gget (jobs d) (ID row) of
      None \<Rightarrow> False
    | Some cur \<Rightarrow> State cur = JobStateRunning \<and> WorkerID cur = WorkerID row \<and> AttemptNum cur = AttemptNum row)"

lemma set_state_held:
  assumes "claim_held d row" "gget (jobs d) (ID row) = Some cur"
  shows "JobSetStateIfRunning clk (fencedStateParams row p) d =
    (d\<lparr>jobs := gput (ID row) (set_state_row clk (fencedStateParams row p) cur) (jobs d)\<rparr>, None)"
  using assms by (simp add: claim_held_def JobSetStateIfRunning_def MatchesClaim_def)

lemma set_state_lost:
  assumes "\<not> claim_held d row" "WorkerID row \<noteq> []" "0 < AttemptNum row"
  shows "fst (JobSetStateIfRunning clk (fencedStateParams row p) d) = d"
  using assms by (auto simp: claim_held_def JobSetStateIfRunning_def MatchesClaim_def split: option.splits)

lemma set_state_row_keeps [simp]:
  "ID (set_state_row clk p cur) = ID cur" "UniqueKey (set_state_row clk p cur) = UniqueKey cur"
  "Args (set_state_row clk p cur) = Args cur" "Queue (set_state_row clk p cur) = Queue cur"
  by (simp_all add: set_state_row_def Let_def split: option.splits)


text \<open>
  A worker that lost its claim, because the job was rescued, taken over, cancelled or
  deleted, does not disturb the store and reports no error, whatever its handler returned.
\<close>

theorem lost_claim_is_harmless:
  assumes "\<not> claim_held d row" "WorkerID row \<noteq> []" "0 < AttemptNum row"
  shows "\<exists>st err. processRow env (mem_set_state clk) row d = (d, [], st, err)"
proof -
  obtain params st err where o: "attempt_outcome env row = (params, st, err)" by (metis prod_cases3)
  show ?thesis using processRow_mem [OF o, of clk d] set_state_lost [OF assms, of clk params] by simp
qed

section \<open>A failing job\<close>

definition sample_failing :: "string attempt_env" where
  "sample_failing = \<lparr>av_registry = [(''k'', sample_entry\<lparr>we_handler := \<lambda>_. Panicked ''boom''\<rparr>)], av_middleware = [id],
     av_retry = (\<lambda>a e t. t + 10), av_now = 4000, av_stack = ''trace'', av_ctx_err = None\<rparr>"

definition sample_claim :: JobRow where
  "sample_claim = the (gget (jobs sample_running) ''mem_2'')"

lemma sample_claim_facts:
  "ID sample_claim = ''mem_2''" "WorkerID sample_claim = ''w''" "AttemptNum sample_claim = 1" "MaxRetry sample_claim = 3"
  "claim_held sample_running sample_claim" "gget (jobs sample_running) ''mem_2'' = Some sample_claim"
  by code_simp+

lemma sample_failing_run: "run_handler sample_failing sample_claim = Some (PanicError ''boom'' ''trace'')"
proof -
  have "Registry_Process (av_registry sample_failing)
      (raw_of_row sample_claim (effective_max_retry (av_registry sample_failing) sample_claim)) =
    (raw_of_row sample_claim 3\<lparr>rj_PayloadVersion := 2\<rparr>, Panicked ''boom'')"
  proof -
    have d: "DecodePayload (Args sample_claim) = Inr (1, ''{}'')"
    proof -
      have "object_members ''{}'' = Inr []" by code_simp
      moreover have "Args sample_claim = ''{}''" by code_simp
      ultimately show ?thesis by (simp add: DecodePayload_def int_ptr_field_def field_values_def)
    qed
    have k: "Kind sample_claim = ''k''" by code_simp
    have u: "upcast_loop ''k'' (wo_Upcasters (we_opts sample_entry)) 1 2 ''{}'' = Inr ''[2]''"
      by (simp add: upcast_loop.simps sample_entry_def)
    have c: "current_version (we_opts sample_entry) = 2" by (simp add: sample_entry_def current_version_def)
    have m: "effective_max_retry (av_registry sample_failing) sample_claim = 3"
      by (simp add: effective_max_retry_def sample_claim_facts)
    show ?thesis
      by (simp add: Registry_Process_def sample_failing_def entry_process_def raw_of_row_def k d u c m [unfolded sample_failing_def, simplified])
         (simp add: sample_entry_def)
  qed
  then show ?thesis
    by (simp add: run_handler_def callHandler_def wrap_middleware_def inner_handler_def recovered_def newPanicError_def)
       (simp add: sample_failing_def inner_handler_def recovered_def newPanicError_def)
qed


theorem lost_claim_is_harmless_witness:
  "\<exists>st err. processRow sample_failing (mem_set_state (\<lambda>_. 4001)) sample_claim sample_mem = (sample_mem, [], st, err)"
proof -
  have "\<not> claim_held sample_mem sample_claim" by code_simp
  then show ?thesis using lost_claim_is_harmless [of sample_mem sample_claim] sample_claim_facts by simp
qed

end
