(* ===== verification/Worker_Dispatch.thy ===== *)
theory Worker_Dispatch
  imports Worker_Rate Worker_Process
begin

text \<open>
  The dispatcher of a worker pool (\<^verbatim>\<open>worker.go\<close>): the shared state of \<^verbatim>\<open>WorkerPool\<close>, the loop of
  \<^verbatim>\<open>fetchAndDispatch\<close>, and the goroutine it starts per job with everything that goroutine acquires
  and releases on its way to the handler. A channel used as a semaphore is its capacity and the
  number of tokens in it; a channel that is only ever closed is a number, with the list of the
  closed ones. Map entries that are counted by references are deleted when the count is zero, so a
  pointer to one is its key.
\<close>

section \<open>State\<close>

record semaphore =
  sm_cap :: nat
  sm_len :: nat

record keySemaphore =
  ks_cap :: nat
  ks_len :: nat
  ks_refs :: int

text \<open>The channel of a rate gate has capacity one.\<close>

record rateGate =
  rg_len :: nat
  rg_refs :: int

text \<open>
  Where the goroutine of a job is: waiting for its predecessor in the pipeline, for the
  distributed pipeline lease, for the key semaphores (the remaining rules and the index of the
  next one; then the key it has registered for), for the rate gate, for the semaphore of its kind,
  for an execution slot, for its rate permit, in the handler, or returning.
\<close>

datatype phase =
    PPipeline
  | PLease
  | PKeys "KeyConcurrencyLimit list" nat
  | PKeyWait string "KeyConcurrencyLimit list" nat
  | PGate
  | PGateWait string
  | PKind
  | PSem
  | PPermit
  | PRun
  | PExit

text \<open>A goroutine with what it holds, which is what its deferred calls still have to release.\<close>

record goroutine =
  go_row :: JobRow
  go_ready :: "nat option"
  go_phase :: phase
  go_sem :: bool
  go_kind :: bool
  go_gate :: "string option"
  go_keys :: "string list"
  go_lease :: bool
  go_done :: "nat option"
  go_queue :: bool

text \<open>\<open>ps_fetch\<close> holds the local variables \<^verbatim>\<open>free\<close> and \<^verbatim>\<open>misses\<close> while \<^verbatim>\<open>fetchMu\<close> is taken.\<close>

record pool_state =
  ps_started :: bool
  ps_shutdown :: bool
  ps_pending :: nat
  ps_sem :: nat
  ps_cursor :: "64 word"
  ps_runtime :: runtime
  ps_gates :: "(string, rateGate) gmap"
  ps_chans :: nat
  ps_closed :: "nat list"
  ps_tails :: "(string, nat) gmap"
  ps_kinds :: "(string, semaphore) gmap"
  ps_keys :: "(string, keySemaphore) gmap"
  ps_jobs :: "(nat, goroutine) gmap"
  ps_next :: nat
  ps_fetch :: "(nat \<times> nat) option"

definition new_pool_state :: pool_state where
  "new_pool_state = \<lparr>ps_started = False, ps_shutdown = False, ps_pending = 0, ps_sem = 0, ps_cursor = 0,
     ps_runtime = [], ps_gates = [], ps_chans = 0, ps_closed = [], ps_tails = [], ps_kinds = [], ps_keys = [],
     ps_jobs = [], ps_next = 0, ps_fetch = None\<rparr>"

section \<open>Queues\<close>

definition queueCanClaim :: "worker_pool \<Rightarrow> string \<Rightarrow> pool_state \<Rightarrow> pool_state \<times> bool" where
  "queueCanClaim pool queue p =
     (let policy = queuePolicy pool queue;
          state = queue_state (ps_runtime p) queue
      in (p\<lparr>ps_runtime := gput queue state (ps_runtime p)\<rparr>,
          \<not> (po_Concurrency policy > 0 \<and> qt_active state \<ge> po_Concurrency policy)))"

definition queueClaimed :: "string \<Rightarrow> pool_state \<Rightarrow> pool_state" where
  "queueClaimed queue p =
     (let state = queue_state (ps_runtime p) queue
      in p\<lparr>ps_runtime := gput queue (state\<lparr>qt_active := qt_active state + 1\<rparr>) (ps_runtime p)\<rparr>)"

definition queueDone :: "string \<Rightarrow> pool_state \<Rightarrow> pool_state" where
  "queueDone queue p =
     (case gget (ps_runtime p) queue of
        None \<Rightarrow> p
      | Some state \<Rightarrow>
          if qt_active state > 0
          then p\<lparr>ps_runtime := gput queue (state\<lparr>qt_active := qt_active state - 1\<rparr>) (ps_runtime p)\<rparr>
          else p)"

section \<open>Pipelines\<close>

text \<open>The channel to wait for, and the channel to close when the job is done.\<close>

definition pipelineGate :: "string \<Rightarrow> pool_state \<Rightarrow> pool_state \<times> nat option \<times> nat option" where
  "pipelineGate jid p =
     (if jid = [] then (p, None, None)
      else (p\<lparr>ps_chans := Suc (ps_chans p), ps_tails := gput jid (ps_chans p) (ps_tails p)\<rparr>,
            gget (ps_tails p) jid, Some (ps_chans p)))"

definition pipelineDone :: "string \<Rightarrow> nat \<Rightarrow> pool_state \<Rightarrow> pool_state" where
  "pipelineDone jid ch p =
     (let p1 = p\<lparr>ps_closed := ch # ps_closed p\<rparr>
      in if gget (ps_tails p1) jid = Some ch then p1\<lparr>ps_tails := gdel jid (ps_tails p1)\<rparr> else p1)"

section \<open>Semaphores\<close>

definition key_name :: "JobRow \<Rightarrow> nat \<Rightarrow> KeyConcurrencyLimit \<Rightarrow> string" where
  "key_name row index rule =
     Queue row @ [CHR 0x00] @ nat_to_dec index @ [CHR 0x00] @ rateLimitKeyValue (kc_Key rule) (kc_TagPrefix rule) row"

definition key_register :: "string \<Rightarrow> nat \<Rightarrow> pool_state \<Rightarrow> pool_state" where
  "key_register key limit p =
     (let entry = (case gget (ps_keys p) key of
                     None \<Rightarrow> \<lparr>ks_cap = limit, ks_len = 0, ks_refs = 0\<rparr> | Some e \<Rightarrow> e)
      in p\<lparr>ps_keys := gput key (entry\<lparr>ks_refs := ks_refs entry + 1\<rparr>) (ps_keys p)\<rparr>)"

definition key_drop :: "string \<Rightarrow> pool_state \<Rightarrow> pool_state" where
  "key_drop key p =
     (case gget (ps_keys p) key of
        None \<Rightarrow> p
      | Some e \<Rightarrow>
          if ks_refs e - 1 = 0 then p\<lparr>ps_keys := gdel key (ps_keys p)\<rparr>
          else p\<lparr>ps_keys := gput key (e\<lparr>ks_refs := ks_refs e - 1\<rparr>) (ps_keys p)\<rparr>)"

text \<open>A send on the channel; it blocks while the channel is full.\<close>

definition key_acquire :: "string \<Rightarrow> pool_state \<Rightarrow> pool_state option" where
  "key_acquire key p =
     (case gget (ps_keys p) key of
        None \<Rightarrow> None
      | Some e \<Rightarrow>
          if ks_len e < ks_cap e then Some (p\<lparr>ps_keys := gput key (e\<lparr>ks_len := Suc (ks_len e)\<rparr>) (ps_keys p)\<rparr>)
          else None)"

definition key_release :: "string \<Rightarrow> pool_state \<Rightarrow> pool_state" where
  "key_release key p =
     (case gget (ps_keys p) key of
        None \<Rightarrow> p
      | Some e \<Rightarrow> key_drop key (p\<lparr>ps_keys := gput key (e\<lparr>ks_len := ks_len e - 1\<rparr>) (ps_keys p)\<rparr>))"

definition rate_gate_key :: "normalizedRateLimit list \<Rightarrow> JobRow \<Rightarrow> string" where
  "rate_gate_key rules row = short_digest (concat (map (\<lambda>rule. rateRuleKey rule row @ [CHR 0x00]) rules))"

definition gate_register :: "string \<Rightarrow> pool_state \<Rightarrow> pool_state" where
  "gate_register key p =
     (let gate = (case gget (ps_gates p) key of None \<Rightarrow> \<lparr>rg_len = 0, rg_refs = 0\<rparr> | Some g \<Rightarrow> g)
      in p\<lparr>ps_gates := gput key (gate\<lparr>rg_refs := rg_refs gate + 1\<rparr>) (ps_gates p)\<rparr>)"

definition gate_drop :: "string \<Rightarrow> pool_state \<Rightarrow> pool_state" where
  "gate_drop key p =
     (case gget (ps_gates p) key of
        None \<Rightarrow> p
      | Some g \<Rightarrow>
          if rg_refs g - 1 = 0 then p\<lparr>ps_gates := gdel key (ps_gates p)\<rparr>
          else p\<lparr>ps_gates := gput key (g\<lparr>rg_refs := rg_refs g - 1\<rparr>) (ps_gates p)\<rparr>)"

definition gate_acquire :: "string \<Rightarrow> pool_state \<Rightarrow> pool_state option" where
  "gate_acquire key p =
     (case gget (ps_gates p) key of
        None \<Rightarrow> None
      | Some g \<Rightarrow>
          if rg_len g < 1 then Some (p\<lparr>ps_gates := gput key (g\<lparr>rg_len := Suc (rg_len g)\<rparr>) (ps_gates p)\<rparr>)
          else None)"

definition gate_release :: "string \<Rightarrow> pool_state \<Rightarrow> pool_state" where
  "gate_release key p =
     (case gget (ps_gates p) key of
        None \<Rightarrow> p
      | Some g \<Rightarrow> gate_drop key (p\<lparr>ps_gates := gput key (g\<lparr>rg_len := rg_len g - 1\<rparr>) (ps_gates p)\<rparr>))"

text \<open>The semaphore of a kind is created on first use and kept; no limit means no semaphore.\<close>

definition kindSemaphore :: "'a Registry \<Rightarrow> string \<Rightarrow> pool_state \<Rightarrow> pool_state \<times> semaphore option" where
  "kindSemaphore reg kind p =
     (case Registry_Opts reg kind of
        None \<Rightarrow> (p, None)
      | Some opts \<Rightarrow>
          if wo_Concurrency opts \<le> 0 then (p, None)
          else (case gget (ps_kinds p) kind of
                  Some sem \<Rightarrow> (p, Some sem)
                | None \<Rightarrow>
                    let sem = \<lparr>sm_cap = nat (wo_Concurrency opts), sm_len = 0\<rparr>
                    in (p\<lparr>ps_kinds := gput kind sem (ps_kinds p)\<rparr>, Some sem)))"

definition kind_release :: "string \<Rightarrow> pool_state \<Rightarrow> pool_state" where
  "kind_release kind p =
     (case gget (ps_kinds p) kind of
        None \<Rightarrow> p
      | Some sem \<Rightarrow> p\<lparr>ps_kinds := gput kind (sem\<lparr>sm_len := sm_len sem - 1\<rparr>) (ps_kinds p)\<rparr>)"

section \<open>The goroutine of a job\<close>

definition new_goroutine :: "JobRow \<Rightarrow> nat option \<Rightarrow> nat option \<Rightarrow> goroutine" where
  "new_goroutine row ready ch =
     \<lparr>go_row = row, go_ready = ready, go_phase = PPipeline, go_sem = False, go_kind = False, go_gate = None,
      go_keys = [], go_lease = False, go_done = ch, go_queue = True\<rparr>"

text \<open>
  One step forward, from one blocking operation to the next; \<open>None\<close> while the operation blocks.
  That the distributed lease and the rate permit are granted is decided outside the pool.
\<close>

definition advance :: "worker_pool \<Rightarrow> 'a Registry \<Rightarrow> goroutine \<Rightarrow> pool_state \<Rightarrow> (goroutine \<times> pool_state) option" where
  "advance pool reg g p =
     (case go_phase g of
        PPipeline \<Rightarrow>
          (case go_ready g of
             None \<Rightarrow> Some (g\<lparr>go_phase := PLease\<rparr>, p)
           | Some c \<Rightarrow> if c \<in> set (ps_closed p) then Some (g\<lparr>go_phase := PLease\<rparr>, p) else None)
      | PLease \<Rightarrow>
          Some (g\<lparr>go_phase := PKeys (po_KeyConcurrency (queuePolicy pool (Queue (go_row g)))) 0,
                  go_lease := wc_DistributedPipelines (wp_config pool) \<and> PipelineID (go_row g) \<noteq> []\<rparr>, p)
      | PKeys [] n \<Rightarrow> Some (g\<lparr>go_phase := PGate\<rparr>, p)
      | PKeys (rule # rules) n \<Rightarrow>
          let key = key_name (go_row g) n rule
          in Some (g\<lparr>go_phase := PKeyWait key rules n\<rparr>, key_register key (nat (kc_Limit rule)) p)
      | PKeyWait key rules n \<Rightarrow>
          map_option (\<lambda>p'. (g\<lparr>go_phase := PKeys rules (Suc n), go_keys := go_keys g @ [key]\<rparr>, p')) (key_acquire key p)
      | PGate \<Rightarrow>
          let rules = queueRateLimits pool (Queue (go_row g))
          in if rules = [] then Some (g\<lparr>go_phase := PKind\<rparr>, p)
             else let key = rate_gate_key rules (go_row g)
                  in Some (g\<lparr>go_phase := PGateWait key\<rparr>, gate_register key p)
      | PGateWait key \<Rightarrow>
          map_option (\<lambda>p'. (g\<lparr>go_phase := PKind, go_gate := Some key\<rparr>, p')) (gate_acquire key p)
      | PKind \<Rightarrow>
          (case kindSemaphore reg (Kind (go_row g)) p of
             (p1, None) \<Rightarrow> Some (g\<lparr>go_phase := PSem\<rparr>, p1)
           | (p1, Some sem) \<Rightarrow>
               if sm_len sem < sm_cap sem
               then Some (g\<lparr>go_phase := PSem, go_kind := True\<rparr>,
                      p1\<lparr>ps_kinds := gput (Kind (go_row g)) (sem\<lparr>sm_len := Suc (sm_len sem)\<rparr>) (ps_kinds p1)\<rparr>)
               else None)
      | PSem \<Rightarrow>
          if int (ps_sem p) < wc_Concurrency (wp_config pool)
          then Some (g\<lparr>go_phase := PPermit, go_sem := True\<rparr>, p\<lparr>ps_sem := Suc (ps_sem p)\<rparr>)
          else None
      | PPermit \<Rightarrow>
          Some (g\<lparr>go_phase := PRun, go_gate := None\<rparr>,
                case go_gate g of None \<Rightarrow> p | Some key \<Rightarrow> gate_release key p)
      | PRun \<Rightarrow> Some (g\<lparr>go_phase := PExit\<rparr>, p)
      | PExit \<Rightarrow> None)"

text \<open>
  A wait given up because the claim or the pool ended: a registration that was not served is
  dropped, then the goroutine returns.
\<close>

definition abandon :: "goroutine \<Rightarrow> pool_state \<Rightarrow> goroutine \<times> pool_state" where
  "abandon g p =
     (g\<lparr>go_phase := PExit\<rparr>,
      case go_phase g of
        PKeyWait key rules n \<Rightarrow> key_drop key p
      | PGateWait key \<Rightarrow> gate_drop key p
      | _ \<Rightarrow> p)"

text \<open>
  The deferred calls, one per step, the last deferred first; \<open>None\<close> is the end of the goroutine,
  after its slot in \<^verbatim>\<open>pending\<close> is free.
\<close>

definition unwind :: "goroutine \<Rightarrow> pool_state \<Rightarrow> goroutine option \<times> pool_state" where
  "unwind g p =
     (if go_sem g then (Some (g\<lparr>go_sem := False\<rparr>), p\<lparr>ps_sem := ps_sem p - 1\<rparr>)
      else if go_kind g then (Some (g\<lparr>go_kind := False\<rparr>), kind_release (Kind (go_row g)) p)
      else case go_gate g of
        Some key \<Rightarrow> (Some (g\<lparr>go_gate := None\<rparr>), gate_release key p)
      | None \<Rightarrow>
          if go_keys g \<noteq> [] then (Some (g\<lparr>go_keys := butlast (go_keys g)\<rparr>), key_release (last (go_keys g)) p)
          else if go_lease g then (Some (g\<lparr>go_lease := False\<rparr>), p)
          else (case go_done g of
            Some ch \<Rightarrow> (Some (g\<lparr>go_done := None\<rparr>), pipelineDone (PipelineID (go_row g)) ch p)
          | None \<Rightarrow>
              if go_queue g then (Some (g\<lparr>go_queue := False\<rparr>), queueDone (Queue (go_row g)) p)
              else (None, p\<lparr>ps_pending := ps_pending p - 1\<rparr>)))"

section \<open>fetchAndDispatch\<close>

type_synonym 's claim_source = "gotime \<Rightarrow> FetchParams \<Rightarrow> 's \<Rightarrow> 's \<times> JobRow list res"

definition pending_cap :: "worker_pool \<Rightarrow> nat" where
  "pending_cap pool = nat (wc_MaxPending (wp_config pool))"

text \<open>
  \<^verbatim>\<open>int(p.queueCursor.Add(1)-1) % len(p.queueSchedule)\<close>: the conversion of a counter beyond the
  largest \<^verbatim>\<open>int\<close> is negative, and a negative remainder is an index out of range.
\<close>

definition schedule_index :: "64 word \<Rightarrow> nat \<Rightarrow> nat option" where
  "schedule_index c n =
     (if n = 0 \<or> sint c < 0 \<and> sint c mod int n \<noteq> 0 then None else Some (nat (sint c mod int n)))"

definition fetch_params :: "worker_pool \<Rightarrow> string \<Rightarrow> FetchParams" where
  "fetch_params pool queue = \<lparr>fp_Queue = queue, fp_Limit = 1, fp_WorkerID = wc_WorkerID (wp_config pool),
     fp_LeaseDuration = wc_StuckJobTimeout (wp_config pool)\<rparr>"

definition start_job :: "JobRow \<Rightarrow> pool_state \<Rightarrow> pool_state" where
  "start_job row p =
     (let (p1, ready, ch) = pipelineGate (PipelineID row) p
      in p1\<lparr>ps_pending := Suc (ps_pending p1),
            ps_jobs := gput (ps_next p1) (new_goroutine row ready ch) (ps_jobs p1),
            ps_next := Suc (ps_next p1)\<rparr>)"

text \<open>One round of the loop, with the new values of \<^verbatim>\<open>free\<close> and \<^verbatim>\<open>misses\<close> and the errors reported.\<close>

definition dispatch_iter :: "worker_pool \<Rightarrow> 's claim_source \<Rightarrow> gotime \<Rightarrow> nat \<times> nat \<Rightarrow> pool_state \<times> 's \<Rightarrow>
    ((nat \<times> nat) \<times> (pool_state \<times> 's) \<times> goerr list) option" where
  "dispatch_iter pool fetch now = (\<lambda>(free, misses) (p, s).
     case schedule_index (ps_cursor p) (length (wp_schedule pool)) of
       None \<Rightarrow> None
     | Some index \<Rightarrow>
         let queue = wp_schedule pool ! index;
             (p1, can) = queueCanClaim pool queue (p\<lparr>ps_cursor := ps_cursor p + 1\<rparr>)
         in if \<not> can then Some ((free, Suc misses), (p1, s), [])
            else (case fetch now (fetch_params pool queue) s of
                (s', Inl e) \<Rightarrow> Some ((free, Suc misses), (p1, s'), [wrap_prefix (''fetch queue '' @ go_quote queue) e])
              | (s', Inr rows) \<Rightarrow>
                  if rows = [] then Some ((free, Suc misses), (p1, s'), [])
                  else Some ((free - 1, 0), (fold start_job (sort_slice fetch_less rows) (queueClaimed queue p1), s'), [])))"

text \<open>The loop with no interference; every round takes a free slot or counts a miss.\<close>

function dispatch_loop :: "worker_pool \<Rightarrow> 's claim_source \<Rightarrow> gotime \<Rightarrow> nat \<Rightarrow> nat \<Rightarrow> pool_state \<times> 's \<Rightarrow>
    ((nat \<times> nat) \<times> (pool_state \<times> 's) \<times> goerr list) option" where
  "dispatch_loop pool fetch now free misses ps =
     (if 0 < free \<and> misses < length (wp_schedule pool) then
        (case dispatch_iter pool fetch now (free, misses) ps of
           None \<Rightarrow> None
         | Some ((free', misses'), ps', errs) \<Rightarrow>
             map_option (\<lambda>(fm, ps'', errs'). (fm, ps'', errs @ errs'))
               (dispatch_loop pool fetch now free' misses' ps'))
      else Some ((free, misses), ps, []))"
  by pat_completeness auto
termination
  by (relation "measures [\<lambda>(pool, _, _, free, _, _). free, \<lambda>(pool, _, _, _, misses, _). length (wp_schedule pool) - misses]")
     (auto simp: dispatch_iter_def Let_def split: prod.splits sum.splits if_splits option.splits)

declare dispatch_loop.simps [simp del]

definition fetchAndDispatch :: "worker_pool \<Rightarrow> 's claim_source \<Rightarrow> gotime \<Rightarrow> pool_state \<times> 's \<Rightarrow>
    ((nat \<times> nat) \<times> (pool_state \<times> 's) \<times> goerr list) option" where
  "fetchAndDispatch pool fetch now = (\<lambda>(p, s).
     if ps_shutdown p then Some ((0, 0), (p, s), [])
     else dispatch_loop pool fetch now (pending_cap pool - ps_pending p) 0 (p, s))"

section \<open>Start and shutdown\<close>

definition pool_Start :: "worker_pool \<Rightarrow> pool_state \<Rightarrow> pool_state \<times> goerr option" where
  "pool_Start pool p =
     (case wp_configErr pool of
        Some e \<Rightarrow> (p, Some e)
      | None \<Rightarrow>
          if ps_started p then (p, Some (Errorf ''worker pool already started''))
          else let p1 = p\<lparr>ps_started := True\<rparr>
               in if ps_shutdown p1 then (p1, Some (Errorf ''worker pool is shutting down'')) else (p1, None))"

definition pool_Shutdown :: "pool_state \<Rightarrow> pool_state" where
  "pool_Shutdown p = p\<lparr>ps_shutdown := True\<rparr>"

text \<open>\<^verbatim>\<open>wg.Wait\<close> returns when every goroutine has ended.\<close>

definition drained :: "pool_state \<Rightarrow> bool" where
  "drained p \<longleftrightarrow> ps_jobs p = []"

section \<open>What the dispatcher asks of a driver\<close>

text \<open>
  A fetch returns at most as many rows as asked for, of the queue asked for, and a fetch that
  returns nothing changes nothing any other fetch at that instant could see.
\<close>

locale claim_store =
  fixes fetch :: "'s claim_source"
  assumes bounded: "fetch now p s = (s', Inr rows) \<Longrightarrow> 0 < fp_Limit p \<Longrightarrow> int (length rows) \<le> fp_Limit p"
    and own_queue: "fetch now p s = (s', Inr rows) \<Longrightarrow> r \<in> set rows \<Longrightarrow> Queue r = fp_Queue p"
    and empty_fetch: "fetch now p s = (s', Inr []) \<Longrightarrow> snd (fetch now p' s') = snd (fetch now p' s)"

text \<open>What a round of the loop would find at a queue.\<close>

definition at_limit :: "worker_pool \<Rightarrow> string \<Rightarrow> pool_state \<Rightarrow> bool" where
  "at_limit pool queue p \<longleftrightarrow> po_Concurrency (queuePolicy pool queue) > 0 \<and>
     qt_active (queue_state (ps_runtime p) queue) \<ge> po_Concurrency (queuePolicy pool queue)"

definition nothing_due :: "worker_pool \<Rightarrow> 's claim_source \<Rightarrow> gotime \<Rightarrow> string \<Rightarrow> 's \<Rightarrow> bool" where
  "nothing_due pool fetch now queue s \<longleftrightarrow> snd (fetch now (fetch_params pool queue) s) = Inr []"

definition blocked :: "worker_pool \<Rightarrow> 's claim_source \<Rightarrow> gotime \<Rightarrow> string \<Rightarrow> pool_state \<times> 's \<Rightarrow> bool" where
  "blocked pool fetch now queue ps \<longleftrightarrow> at_limit pool queue (fst ps) \<or> nothing_due pool fetch now queue (snd ps)"

lemma queueCanClaim_simps:
  "snd (queueCanClaim pool queue p) = (\<not> at_limit pool queue p)"
  "at_limit pool q (fst (queueCanClaim pool queue p)) = at_limit pool q p"
  "ps_cursor (fst (queueCanClaim pool queue p)) = ps_cursor p"
  "ps_pending (fst (queueCanClaim pool queue p)) = ps_pending p"
  by (simp_all add: queueCanClaim_def at_limit_def Let_def)

lemma at_limit_cursor [simp]: "at_limit pool q (p\<lparr>ps_cursor := c\<rparr>) = at_limit pool q p"
  by (simp add: at_limit_def)

lemma schedule_index_small:
  assumes "unat c < 2 ^ 63" "0 < n"
  shows "schedule_index c n = Some (unat c mod n)"
proof -
  have "int (unat c) < 2 ^ 63" using assms(1) by (metis of_nat_less_iff of_nat_numeral of_nat_power)
  then have s: "sint c = int (unat c)"
    by (simp add: sint_uint) (rule signed_take_bit_int_eq_self, simp_all add: order.trans [OF _ uint_ge_0])
  have "sint c mod int n = int (unat c mod n)" unfolding s by (simp only: of_nat_mod)
  moreover have "\<not> sint c < 0" unfolding s by (simp only: of_nat_less_0_iff not_False_eq_True)
  ultimately show ?thesis using assms(2) by (simp add: schedule_index_def)
qed

lemma start_job_frame [simp]:
  "ps_cursor (start_job row p) = ps_cursor p" "ps_pending (start_job row p) = Suc (ps_pending p)"
  "ps_fetch (start_job row p) = ps_fetch p" "ps_runtime (start_job row p) = ps_runtime p"
  by (simp_all add: start_job_def pipelineGate_def Let_def split: prod.splits)

lemma queueClaimed_frame [simp]:
  "ps_cursor (queueClaimed q p) = ps_cursor p" "ps_pending (queueClaimed q p) = ps_pending p"
  "ps_fetch (queueClaimed q p) = ps_fetch p"
  by (simp_all add: queueClaimed_def Let_def)

lemma sort_slice_single: "sort_slice lt [x] = [x]"
  by (simp add: sort_slice_def)

context claim_store
begin

lemma fetch_one:
  assumes "fetch now (fetch_params pool queue) s = (s', Inr rows)" "rows \<noteq> []"
  shows "\<exists>row. rows = [row] \<and> Queue row = queue"
proof -
  have "int (length rows) \<le> 1" using bounded [OF assms(1)] by (simp add: fetch_params_def)
  with assms(2) obtain row where "rows = [row]" by (cases rows) auto
  with own_queue [OF assms(1)] show ?thesis by (auto simp: fetch_params_def)
qed

text \<open>A round that finds nothing leaves every blocked queue blocked and blocks its own.\<close>

lemma dispatch_iter_cases:
  assumes it: "dispatch_iter pool fetch now (free, misses) ps = Some ((free', misses'), ps', errs)"
    and cur: "unat (ps_cursor (fst ps)) < 2 ^ 63 - 1"
    and n: "wp_schedule pool \<noteq> []"
    and ok: "\<And>q s. \<exists>rows. snd (fetch now (fetch_params pool q) s) = Inr rows"
  shows "unat (ps_cursor (fst ps')) = Suc (unat (ps_cursor (fst ps))) \<and>
    (free' = free \<and> misses' = Suc misses \<and> ps_pending (fst ps') = ps_pending (fst ps) \<and>
       blocked pool fetch now (wp_schedule pool ! (unat (ps_cursor (fst ps)) mod length (wp_schedule pool))) ps' \<and>
       (\<forall>q. blocked pool fetch now q ps \<longrightarrow> blocked pool fetch now q ps') \<or>
     free' = free - 1 \<and> misses' = 0 \<and> ps_pending (fst ps') = Suc (ps_pending (fst ps)))"
proof -
  obtain p s where ps: "ps = (p, s)" by force
  let ?queue = "wp_schedule pool ! (unat (ps_cursor p) mod length (wp_schedule pool))"
  let ?p1 = "fst (queueCanClaim pool ?queue (p\<lparr>ps_cursor := ps_cursor p + 1\<rparr>))"
  have idx: "schedule_index (ps_cursor p) (length (wp_schedule pool)) = Some (unat (ps_cursor p) mod length (wp_schedule pool))"
    using cur n by (intro schedule_index_small) (auto simp: ps)
  have c1: "unat (ps_cursor p + 1) = Suc (unat (ps_cursor p))"
    using cur by (simp add: ps unat_word_ariths(1))
  show ?thesis
  proof (cases "at_limit pool ?queue p")
    case True
    with it have "free' = free" "misses' = Suc misses" "ps' = (?p1, s)"
      by (auto simp: dispatch_iter_def ps idx Let_def queueCanClaim_simps case_prod_beta)
    with True show ?thesis by (simp add: ps blocked_def queueCanClaim_simps c1)
  next
    case False
    obtain s' rows where f: "fetch now (fetch_params pool ?queue) s = (s', Inr rows)"
      using ok [of ?queue s] by (metis prod.collapse)
    show ?thesis
    proof (cases "rows = []")
      case True
      with it False f have "free' = free" "misses' = Suc misses" "ps' = (?p1, s')"
        by (auto simp: dispatch_iter_def ps idx Let_def queueCanClaim_simps case_prod_beta)
      moreover have "nothing_due pool fetch now q s' \<longleftrightarrow> nothing_due pool fetch now q s" for q
        using empty_fetch [OF f [unfolded True]] by (simp add: nothing_due_def)
      moreover have "nothing_due pool fetch now ?queue s" using f True by (simp add: nothing_due_def)
      ultimately show ?thesis by (simp add: ps blocked_def queueCanClaim_simps c1)
    next
      case more: False
      from fetch_one [OF f more] obtain row where "rows = [row]" by blast
      with it False f more show ?thesis
        by (auto simp: dispatch_iter_def ps idx Let_def queueCanClaim_simps case_prod_beta sort_slice_single c1)
    qed
  qed
qed

text \<open>The last \<open>misses\<close> positions of the schedule before the cursor are blocked.\<close>

lemma dispatch_loop_blocked:
  assumes "wp_schedule pool \<noteq> []" "n = length (wp_schedule pool)"
    and ok: "\<And>q s. \<exists>rows. snd (fetch now (fetch_params pool q) s) = Inr rows"
    and "unat (ps_cursor (fst ps)) + (free * n + (n - misses)) < 2 ^ 63"
    and "misses \<le> n" "misses \<le> unat (ps_cursor (fst ps))"
    and "\<forall>k<misses. blocked pool fetch now (wp_schedule pool ! ((unat (ps_cursor (fst ps)) - 1 - k) mod n)) ps"
  shows "\<exists>free' misses' ps' errs. dispatch_loop pool fetch now free misses ps = Some ((free', misses'), ps', errs) \<and>
    ps_pending (fst ps') + free' = ps_pending (fst ps) + free \<and>
    (free' = 0 \<or> misses' = n \<and> n \<le> unat (ps_cursor (fst ps')) \<and>
       (\<forall>k<n. blocked pool fetch now (wp_schedule pool ! ((unat (ps_cursor (fst ps')) - 1 - k) mod n)) ps'))"
  using assms(4-7)
proof (induction "free * n + (n - misses)" arbitrary: free misses ps rule: less_induct)
  case less
  show ?case
  proof (cases "0 < free \<and> misses < n")
    case False
    then have l: "dispatch_loop pool fetch now free misses ps = Some ((free, misses), ps, [])"
      by (subst dispatch_loop.simps) (auto simp: assms(2))
    have "free = 0 \<or> misses = n" using False less.prems(2) by auto
    with l less.prems(3,4) show ?thesis by (intro exI [of _ free] exI [of _ misses] exI [of _ ps] exI [of _ "[]"]) auto
  next
    case True
    obtain p s where ps: "ps = (p, s)" by force
    let ?cur = "unat (ps_cursor p)"
    have cur: "?cur < 2 ^ 63 - 1" proof -
      have "1 \<le> n - misses" using True by linarith
      with less.prems(1) show ?thesis unfolding ps fst_conv by linarith
    qed
    have idx: "schedule_index (ps_cursor p) n = Some (?cur mod n)"
      using cur True by (intro schedule_index_small) auto
    have "dispatch_iter pool fetch now (free, misses) ps \<noteq> None"
      by (simp add: dispatch_iter_def ps idx [unfolded assms(2)] Let_def case_prod_beta split: sum.split prod.split)
    then obtain free1 misses1 ps1 errs1 where
      it: "dispatch_iter pool fetch now (free, misses) ps = Some ((free1, misses1), ps1, errs1)" by (metis not_None_eq prod.exhaust)
    note c = dispatch_iter_cases [OF it _ assms(1) ok, unfolded ps fst_conv, OF cur, folded ps assms(2)]
    have less1: "free1 * n + (n - misses1) < free * n + (n - misses)"
      using c True by (auto simp: diff_mult_distrib)
    have bound: "unat (ps_cursor (fst ps1)) + (free1 * n + (n - misses1)) < 2 ^ 63"
      using c less1 less.prems(1) by (simp add: ps)
    have m1: "misses1 \<le> n" "misses1 \<le> unat (ps_cursor (fst ps1))" using c True less.prems(3) by (auto simp: ps)
    have bl: "\<forall>k<misses1. blocked pool fetch now (wp_schedule pool ! ((unat (ps_cursor (fst ps1)) - 1 - k) mod n)) ps1"
    proof (intro allI impI)
      fix k assume k: "k < misses1"
      with c have miss: "misses1 = Suc misses" "unat (ps_cursor (fst ps1)) = Suc ?cur"
        "blocked pool fetch now (wp_schedule pool ! (?cur mod n)) ps1"
        "\<And>q. blocked pool fetch now q ps \<Longrightarrow> blocked pool fetch now q ps1" by auto
      show "blocked pool fetch now (wp_schedule pool ! ((unat (ps_cursor (fst ps1)) - 1 - k) mod n)) ps1"
      proof (cases k)
        case 0
        with miss show ?thesis by simp
      next
        case (Suc j)
        with k miss less.prems(4) have "blocked pool fetch now (wp_schedule pool ! ((?cur - 1 - j) mod n)) ps" by (simp add: ps)
        from miss(4) [OF this] show ?thesis by (simp add: miss(2) Suc)
      qed
    qed
    from less.hyps [OF less1 bound m1 bl] obtain free' misses' ps' errs where
      l: "dispatch_loop pool fetch now free1 misses1 ps1 = Some ((free', misses'), ps', errs)"
      and r: "ps_pending (fst ps') + free' = ps_pending (fst ps1) + free1"
        "free' = 0 \<or> misses' = n \<and> n \<le> unat (ps_cursor (fst ps')) \<and>
         (\<forall>k<n. blocked pool fetch now (wp_schedule pool ! ((unat (ps_cursor (fst ps')) - 1 - k) mod n)) ps')" by blast
    have "dispatch_loop pool fetch now free misses ps = Some ((free', misses'), ps', errs1 @ errs)"
      using True by (subst dispatch_loop.simps) (simp add: it l assms(2))
    moreover have "ps_pending (fst ps1) + free1 = ps_pending (fst ps) + free" using c True by (auto simp: ps)
    ultimately show ?thesis using r by auto
  qed
qed

text \<open>Every position of the schedule is among the last \<open>n\<close> before the cursor.\<close>

lemma position_covered:
  fixes i n cur :: nat
  assumes "i < n" "n \<le> cur"
  shows "\<exists>k<n. (cur - 1 - k) mod n = i"
proof -
  let ?m = "cur - 1 - i"
  have "cur - 1 - ?m mod n = i + n * (?m div n)"
  proof -
    have "cur - 1 = i + ?m" "?m mod n \<le> ?m" using assms by simp_all
    then have "cur - 1 - ?m mod n = i + (?m - ?m mod n)" by linarith
    then show ?thesis by (simp add: minus_mod_eq_mult_div)
  qed
  then have "(cur - 1 - ?m mod n) mod n = i" using assms(1) by simp
  moreover have "?m mod n < n" using assms(1) by simp
  ultimately show ?thesis by blast
qed

lemma fetchAndDispatch_blocked:
  assumes "wp_schedule pool \<noteq> []" "\<not> ps_shutdown p" "ps_pending p \<le> pending_cap pool"
    and "\<And>q s. \<exists>rows. snd (fetch now (fetch_params pool q) s) = Inr rows"
    and "unat (ps_cursor p) + Suc (pending_cap pool) * length (wp_schedule pool) < 2 ^ 63"
  shows "\<exists>free misses p' s' errs. fetchAndDispatch pool fetch now (p, s) = Some ((free, misses), (p', s'), errs) \<and>
    ps_pending p' + free = pending_cap pool \<and>
    (free = 0 \<or> (\<forall>q\<in>set (wp_schedule pool). at_limit pool q p' \<or> nothing_due pool fetch now q s'))"
proof -
  let ?n = "length (wp_schedule pool)" and ?free = "pending_cap pool - ps_pending p"
  have "?free * ?n + ?n \<le> Suc (pending_cap pool) * ?n" by simp
  with assms(5) have "unat (ps_cursor (fst (p, s))) + (?free * ?n + (?n - 0)) < 2 ^ 63"
    unfolding fst_conv diff_zero by linarith
  from dispatch_loop_blocked [OF assms(1) HOL.refl assms(4) this]
  obtain free misses ps' errs where l: "dispatch_loop pool fetch now ?free 0 (p, s) = Some ((free, misses), ps', errs)"
    and r: "ps_pending (fst ps') + free = ps_pending p + ?free"
      "free = 0 \<or> misses = ?n \<and> ?n \<le> unat (ps_cursor (fst ps')) \<and>
       (\<forall>k<?n. blocked pool fetch now (wp_schedule pool ! ((unat (ps_cursor (fst ps')) - 1 - k) mod ?n)) ps')"
    by auto
  have "at_limit pool q (fst ps') \<or> nothing_due pool fetch now q (snd ps')" if q: "q \<in> set (wp_schedule pool)" and f: "free \<noteq> 0" for q
  proof -
    obtain i where i: "i < ?n" "q = wp_schedule pool ! i" using q by (metis in_set_conv_nth)
    from position_covered [OF i(1)] r(2) f obtain k where "k < ?n" "(unat (ps_cursor (fst ps')) - 1 - k) mod ?n = i" by blast
    with r(2) f i(2) have "blocked pool fetch now q ps'" by metis
    then show ?thesis by (simp add: blocked_def)
  qed
  with l r(1) assms(2,3) show ?thesis by (cases ps') (auto simp: fetchAndDispatch_def)
qed

end

section \<open>The in-memory driver as a source of claims\<close>

definition mem_fetch :: "mem claim_source" where
  "mem_fetch now p d = (let (d', rows) = JobFetchBatch now p d in (d', Inr rows))"

lemma promote_candidates:
  "fetch_candidates now q' (d\<lparr>jobs := gmap_vals (promote now q) (jobs d)\<rparr>) = fetch_candidates now q' d"
proof -
  have same: "promote now q' (promote now q r) = promote now q' r" if "Queue r = q'" for r
    using that by (cases "q = q'") (simp_all add: promote_def)
  have other: "\<not> claimable now q' (promote now q' r)" if "Queue r \<noteq> q'" for r
    using that by (simp add: claimable_def)
  have "filter (claimable now q') (map (promote now q') (map (promote now q) rows)) =
      filter (claimable now q') (map (promote now q') rows)" for rows
  proof (induction rows)
    case (Cons r rows)
    then show ?case by (cases "Queue r = q'") (simp_all add: same other del: map_map)
  qed simp
  then show ?thesis by (simp add: fetch_candidates_def gvals_gmap_vals del: map_map)
qed

lemma mem_empty_fetch:
  assumes "JobFetchBatch now p d = (d', [])"
  shows "snd (JobFetchBatch now p' d') = snd (JobFetchBatch now p' d)"
proof (cases "queue_open (fp_Queue p) d")
  case False
  with assms show ?thesis by (simp add: JobFetchBatch_eq)
next
  case True
  with assms have "d' = d\<lparr>jobs := gmap_vals (promote now (fp_Queue p)) (jobs d)\<rparr>"
    by (auto simp: JobFetchBatch_eq put_rows_def)
  then show ?thesis by (simp add: JobFetchBatch_eq fetched_rows_def promote_candidates queue_open_def)
qed

interpretation mem_claims: claim_store mem_fetch
proof
  fix now p d d' rows
  assume f: "mem_fetch now p d = (d', Inr rows)"
  then have rows: "rows = snd (JobFetchBatch now p d)" by (simp add: mem_fetch_def case_prod_beta)
  show "int (length rows) \<le> fp_Limit p" if "0 < fp_Limit p"
    using that by (auto simp: rows JobFetchBatch_eq length_fetched_rows fetch_limit_def)
  show "Queue r = fp_Queue p" if "r \<in> set rows" for r
    using that fetched_rows_subset [of now p d]
    by (auto simp: rows JobFetchBatch_eq set_fetch_candidates claimable_def split: if_splits)
next
  fix now p d d' p'
  assume "mem_fetch now p d = (d', Inr [])"
  then have "JobFetchBatch now p d = (d', [])" by (auto simp: mem_fetch_def split: prod.splits)
  from mem_empty_fetch [OF this] show "snd (mem_fetch now p' d') = snd (mem_fetch now p' d)"
    by (simp add: mem_fetch_def case_prod_beta)
qed

lemma mem_nothing_due:
  "nothing_due pool mem_fetch now q d \<longleftrightarrow> \<not> queue_open q d \<or> (\<forall>row\<in>set (gvals (jobs d)). \<not> due now q row)"
proof -
  have "fetched_rows now (fetch_params pool q) d = [] \<longleftrightarrow> filter (due now q) (gvals (jobs d)) = []"
    unfolding length_0_conv [symmetric] length_fetched_rows by (auto simp: fetch_params_def fetch_limit_def)
  then show ?thesis
    by (simp add: nothing_due_def mem_fetch_def case_prod_beta JobFetchBatch_eq filter_empty_conv fetch_params_def)
qed

lemma set_build_schedule: "set (build_schedule cfg) = set (wc_Queues cfg)"
  by (auto simp: build_schedule_def queue_weight_def Let_def)

text \<open>
  Claim C13: a dispatch leaves no work behind. It returns, having started as many jobs as it took
  pending slots, and when it leaves a slot free then every configured queue is at its concurrency
  limit, unknown, paused, or without a due job. Round-robin weights never starve a queue. (The
  cursor of the schedule is assumed not to overflow during the call.)
\<close>

theorem dispatch_is_work_conserving:
  assumes "pool_ok pool" "\<not> ps_shutdown p" "ps_pending p \<le> pending_cap pool"
    and "unat (ps_cursor p) + Suc (pending_cap pool) * length (wp_schedule pool) < 2 ^ 63"
  shows "\<exists>free misses p' d' errs. fetchAndDispatch pool mem_fetch now (p, d) = Some ((free, misses), (p', d'), errs) \<and>
    ps_pending p' + free = pending_cap pool \<and>
    (free = 0 \<or> (\<forall>q\<in>set (wc_Queues (wp_config pool)). at_limit pool q p' \<or> \<not> queue_open q d' \<or>
       (\<forall>row\<in>set (gvals (jobs d')). \<not> due now q row)))"
proof -
  have sched: "set (wp_schedule pool) = set (wc_Queues (wp_config pool))" "wp_schedule pool \<noteq> []"
    using assms(1) set_build_schedule [of "wp_config pool"] by (auto simp: pool_ok_def)
  have "\<exists>rows. snd (mem_fetch now (fetch_params pool q) s) = Inr rows" for q s
    by (simp add: mem_fetch_def case_prod_beta)
  from mem_claims.fetchAndDispatch_blocked [OF sched(2) assms(2,3) this assms(4), of d] show ?thesis
    by (simp only: mem_nothing_due sched(1))
qed

section \<open>Witness\<close>

definition sample_pool :: worker_pool where
  "sample_pool = newWorkerPool ''memory'' mem_Capabilities ''w'' (sample_worker
     \<lparr>wc_Queues := [''q'', ''z''], wc_QueuePolicies := [(''q'', zero_policy\<lparr>po_Weight := 2\<rparr>)],
      wc_DistributedPipelines := False, wc_Concurrency := 2, wc_MaxPending := 4\<rparr>)"

lemma sample_pool_facts:
  "pending_cap sample_pool = 4" "wp_schedule sample_pool = [''q'', ''q'', ''z'']"
  "wc_Queues (wp_config sample_pool) = [''q'', ''z'']"
  by code_simp+

theorem dispatch_is_work_conserving_witness:
  "\<exists>free misses p' d' errs. fetchAndDispatch sample_pool mem_fetch 5 (new_pool_state, sample_mem) = Some ((free, misses), (p', d'), errs) \<and>
    ps_pending p' + free = 4 \<and>
    (free = 0 \<or> (\<forall>q\<in>set [''q'', ''z'']. at_limit sample_pool q p' \<or> \<not> queue_open q d' \<or>
       (\<forall>row\<in>set (gvals (jobs d')). \<not> due 5 q row)))"
proof -
  have ok: "pool_ok sample_pool" unfolding sample_pool_def by (rule pool_ok_new)
  have start: "\<not> ps_shutdown new_pool_state" "ps_pending new_pool_state \<le> pending_cap sample_pool"
    "unat (ps_cursor new_pool_state) + Suc (pending_cap sample_pool) * length (wp_schedule sample_pool) < 2 ^ 63"
    by (simp_all add: new_pool_state_def sample_pool_facts)
  from dispatch_is_work_conserving [OF ok start, of 5 sample_mem] show ?thesis
    unfolding sample_pool_facts .
qed

end
