(* ===== verification/Worker_Loop.thy ===== *)
theory Worker_Loop
  imports Worker_Dispatch Sha256
begin

text \<open>
  The loops of a started pool (\<^verbatim>\<open>worker.go\<close>): the identity of a worker, the main loop over ticks,
  rescues and the end of the context, the subscriptions of a pool that is notified of inserts, and
  their removal on every way out. A loop takes the events that wake it in the order in which they
  come; \<open>LoopElse\<close> stands for what the goroutines of jobs and other participants do in between. \<open>None\<close>
  is the panic of the dispatcher.
\<close>

section \<open>Worker identities\<close>

text \<open>The eight random bytes, or their failure, and the sequence number that replaces them.\<close>

definition newWorkerID :: "nat list option \<Rightarrow> 64 word \<Rightarrow> 64 word \<times> string" where
  "newWorkerID random sequence =
     (case random of
        None \<Rightarrow> (sequence + 1, ''worker-'' @ nat_to_dec (unat (sequence + 1)))
      | Some b \<Rightarrow> (sequence, ''worker-'' @ hex_bytes b))"

section \<open>The main loop\<close>

text \<open>\<^verbatim>\<open>Stop\<close>: the argument is the error with which the wait for the drain ends, if it does.\<close>

definition pool_Stop :: "goerr option \<Rightarrow> pool_state \<Rightarrow> pool_state \<times> goerr list" where
  "pool_Stop drain p = (pool_Shutdown p, case drain of None \<Rightarrow> [] | Some e \<Rightarrow> [wrap_prefix ''shutdown worker pool'' e])"

datatype 's loop_event =
    LoopCtxDone goerr "goerr option"
  | LoopShutdown
  | LoopTick gotime
  | LoopNotify gotime
  | LoopRescue gotime
  | LoopElse "pool_state \<times> 's \<Rightarrow> pool_state \<times> 's"

text \<open>
  The result is the value that the loop returns, or \<open>None\<close> while it runs. A notification makes the
  goroutine of its queue dispatch.
\<close>

fun runMainLoop :: "worker_pool \<Rightarrow> 's claim_source \<Rightarrow> (JobRescueParams \<Rightarrow> 's \<Rightarrow> 's \<times> int res) option \<Rightarrow> 's loop_event list \<Rightarrow>
    pool_state \<times> 's \<Rightarrow> ((pool_state \<times> 's) \<times> goerr list \<times> goerr option option) option" where
  "runMainLoop pool fetch resc [] ps = Some (ps, [], None)"
| "runMainLoop pool fetch resc (LoopCtxDone e drain # evs) (p, s) =
     (let (p', reports) = pool_Stop drain p in Some ((p', s), reports, Some (Some e)))"
| "runMainLoop pool fetch resc (LoopShutdown # evs) ps = Some (ps, [], Some None)"
| "runMainLoop pool fetch resc (LoopTick now # evs) ps =
     (case fetchAndDispatch pool fetch now ps of
        None \<Rightarrow> None
      | Some (_, ps', errs) \<Rightarrow> map_option (\<lambda>(ps'', errs', r). (ps'', errs @ errs', r)) (runMainLoop pool fetch resc evs ps'))"
| "runMainLoop pool fetch resc (LoopNotify now # evs) ps =
     (case fetchAndDispatch pool fetch now ps of
        None \<Rightarrow> None
      | Some (_, ps', errs) \<Rightarrow> map_option (\<lambda>(ps'', errs', r). (ps'', errs @ errs', r)) (runMainLoop pool fetch resc evs ps'))"
| "runMainLoop pool fetch resc (LoopRescue now # evs) (p, s) =
     (case resc of
        Some rescuer \<Rightarrow>
          if 0 < wc_StuckJobTimeout (wp_config pool)
          then let (s', errs) = rescueStuck rescuer now (wc_StuckJobTimeout (wp_config pool)) (wc_Queues (wp_config pool)) s
               in map_option (\<lambda>(ps'', errs', r). (ps'', errs @ errs', r)) (runMainLoop pool fetch resc evs (p, s'))
          else runMainLoop pool fetch resc evs (p, s)
      | None \<Rightarrow> runMainLoop pool fetch resc evs (p, s))"
| "runMainLoop pool fetch resc (LoopElse f # evs) ps = runMainLoop pool fetch resc evs (f ps)"

definition runWithPolling :: "worker_pool \<Rightarrow> 's claim_source \<Rightarrow> (JobRescueParams \<Rightarrow> 's \<Rightarrow> 's \<times> int res) option \<Rightarrow> gotime \<Rightarrow> 's loop_event list \<Rightarrow>
    pool_state \<times> 's \<Rightarrow> ((pool_state \<times> 's) \<times> goerr list \<times> goerr option option) option" where
  "runWithPolling pool fetch resc now evs ps =
     (case fetchAndDispatch pool fetch now ps of
        None \<Rightarrow> None
      | Some (_, ps', errs) \<Rightarrow> map_option (\<lambda>(ps'', errs', r). (ps'', errs @ errs', r)) (runMainLoop pool fetch resc evs ps'))"

section \<open>Subscriptions\<close>

record ('l, 's) notifier =
  nt_listen :: "string \<Rightarrow> 'l \<Rightarrow> 's \<Rightarrow> 'l \<times> 's \<times> nat res"
  nt_unlisten :: "string \<Rightarrow> 'l \<Rightarrow> 's \<Rightarrow> 'l \<times> 's \<times> goerr option"
  nt_close :: "'l \<Rightarrow> 's \<Rightarrow> 'l \<times> 's \<times> goerr option"

fun subscribe_all :: "('l, 's) notifier \<Rightarrow> string list \<Rightarrow> 'l \<times> 's \<Rightarrow> ('l \<times> 's) \<times> string list \<times> goerr option" where
  "subscribe_all n [] ls = (ls, [], None)"
| "subscribe_all n (q # qs) (l, s) =
     (case nt_listen n q l s of
        (l1, s1, Inl e) \<Rightarrow> ((l1, s1), [], Some e)
      | (l1, s1, Inr ch) \<Rightarrow> (let (ls2, subscribed, err) = subscribe_all n qs (l1, s1) in (ls2, q # subscribed, err)))"

fun unsubscribe_all :: "('l, 's) notifier \<Rightarrow> string list \<Rightarrow> 'l \<times> 's \<Rightarrow> ('l \<times> 's) \<times> goerr list" where
  "unsubscribe_all n [] ls = (ls, [])"
| "unsubscribe_all n (q # qs) (l, s) =
     (case nt_unlisten n q l s of
        (l1, s1, err) \<Rightarrow>
          let (ls2, reports) = unsubscribe_all n qs (l1, s1)
          in (ls2, (case err of None \<Rightarrow> [] | Some e \<Rightarrow> [wrap_prefix (''unlisten queue '' @ go_quote q) e]) @ reports))"

definition stop_listening :: "('l, 's) notifier \<Rightarrow> string list \<Rightarrow> 'l \<times> 's \<Rightarrow> ('l \<times> 's) \<times> goerr list" where
  "stop_listening n subscribed ls =
     (case unsubscribe_all n subscribed ls of
        ((l1, s1), reports) \<Rightarrow>
          let (l2, s2, err) = nt_close n l1 s1
          in ((l2, s2), reports @ (case err of None \<Rightarrow> [] | Some e \<Rightarrow> [wrap_prefix ''close listener'' e])))"

text \<open>The deferred cleanup runs on every return, also when a later queue cannot be subscribed.\<close>

definition runWithNotifications :: "('l, 's) notifier \<Rightarrow> worker_pool \<Rightarrow> 's claim_source \<Rightarrow> (JobRescueParams \<Rightarrow> 's \<Rightarrow> 's \<times> int res) option \<Rightarrow>
    gotime \<Rightarrow> 's loop_event list \<Rightarrow> 'l \<Rightarrow> pool_state \<times> 's \<Rightarrow> (('l \<times> pool_state \<times> 's) \<times> goerr list \<times> goerr option option) option" where
  "runWithNotifications n pool fetch resc now evs l = (\<lambda>(p, s).
     case subscribe_all n (wc_Queues (wp_config pool)) (l, s) of
       ((l1, s1), subscribed, Some e) \<Rightarrow>
         (let ((l2, s2), reports) = stop_listening n subscribed (l1, s1) in Some ((l2, p, s2), reports, Some (Some e)))
     | ((l1, s1), subscribed, None) \<Rightarrow>
         (case runWithPolling pool fetch resc now evs (p, s1) of
            None \<Rightarrow> None
          | Some ((p2, s2), errs, None) \<Rightarrow> Some ((l1, p2, s2), errs, None)
          | Some ((p2, s2), errs, Some r) \<Rightarrow>
              let ((l3, s3), reports) = stop_listening n subscribed (l1, s2)
              in Some ((l3, p2, s3), errs @ reports, Some r)))"

section \<open>What a pool leaves behind\<close>

definition mem_notifier :: "(listener, mem) notifier" where
  "mem_notifier = \<lparr>nt_listen = (\<lambda>q l d. case Listen q l d of (l', d', c) \<Rightarrow> (l', d', Inr c)),
     nt_unlisten = (\<lambda>q l d. case Unlisten q l d of (l', d') \<Rightarrow> (l', d', None)),
     nt_close = (\<lambda>l d. case listener_Close l d of (l', d') \<Rightarrow> (l', d', None))\<rparr>"

definition mem_rescuer :: "JobRescueParams \<Rightarrow> mem \<Rightarrow> mem \<times> int res" where
  "mem_rescuer p d = (let (d', n) = JobRescueStuck p d in (d', Inr n))"

text \<open>The tables of notifications: who is told of inserts into a queue, and which channels are closed.\<close>

definition same_tables :: "mem \<Rightarrow> mem \<Rightarrow> bool" where
  "same_tables d d' \<longleftrightarrow> notify d' = notify d \<and> map ch_closed (chans d') = map ch_closed (chans d)"

lemma same_tables_refl [simp]: "same_tables d d"
  by (simp add: same_tables_def)

lemma same_tables_trans: "same_tables d d' \<Longrightarrow> same_tables d' d'' \<Longrightarrow> same_tables d d''"
  by (simp add: same_tables_def)

lemma mem_calls_tables:
  "mem_fetch now p d = (d', r) \<Longrightarrow> same_tables d d'" "mem_rescuer rp d = (d', r') \<Longrightarrow> same_tables d d'"
  by (auto simp: same_tables_def mem_fetch_def mem_rescuer_def JobFetchBatch_def JobRescueStuck_def Let_def split: option.splits if_splits)

lemma dispatch_tables:
  assumes "dispatch_loop pool mem_fetch now free misses (p, d) = Some (fm, (p', d'), errs)"
  shows "same_tables d d'"
proof -
  have iter: "same_tables d d1" if "dispatch_iter pool mem_fetch now fm0 (p, d) = Some (fm1, (p1, d1), errs1)" for pool now fm0 p d fm1 p1 d1 errs1
    using that by (auto simp: dispatch_iter_def Let_def split: prod.splits sum.splits if_splits option.splits dest: mem_calls_tables(1))
  have "\<forall>p d fm p' d' errs. ps = (p, d) \<longrightarrow> dispatch_loop pool f now free misses ps = Some (fm, (p', d'), errs) \<longrightarrow> f = mem_fetch \<longrightarrow> same_tables d d'"
    for ps f
  proof (induction pool f now free misses ps rule: dispatch_loop.induct)
    case (1 pool fetch now free misses ps)
    show ?case
    proof (intro allI impI)
      fix p d fm p' d' errs
      assume ps: "ps = (p, d)" and run: "dispatch_loop pool fetch now free misses ps = Some (fm, (p', d'), errs)" and f: "fetch = mem_fetch"
      show "same_tables d d'"
      proof (cases "0 < free \<and> misses < length (wp_schedule pool)")
        case True
        with run obtain free1 misses1 p1 d1 errs1 errs2 where
          i: "dispatch_iter pool fetch now (free, misses) ps = Some ((free1, misses1), (p1, d1), errs1)"
          and r: "dispatch_loop pool fetch now free1 misses1 (p1, d1) = Some (fm, (p', d'), errs2)"
          by (subst (asm) dispatch_loop.simps) (auto split: option.splits prod.splits)
        have "same_tables d d1" using iter i ps f by blast
        moreover have "same_tables d1 d'" using "1.IH" [OF True i refl refl refl] r f by simp
        ultimately show ?thesis by (rule same_tables_trans)
      next
        case False
        with run ps show ?thesis by (subst (asm) dispatch_loop.simps) auto
      qed
    qed
  qed
  with assms show ?thesis by blast
qed

lemma fetch_tables: "fetchAndDispatch pool mem_fetch now (p, d) = Some (fm, (p', d'), errs) \<Longrightarrow> same_tables d d'"
  by (auto simp: fetchAndDispatch_def dest: dispatch_tables split: if_splits)

lemma foldl_keeps: "(\<And>x q. P x \<Longrightarrow> P (F x q)) \<Longrightarrow> P x \<Longrightarrow> P (foldl F x qs)"
  by (induction qs arbitrary: x) simp_all

lemma rescue_tables:
  assumes "rescueStuck mem_rescuer now timeout qs d = (d', errs)"
  shows "same_tables d d'"
proof -
  have "same_tables d (fst (rescueStuck mem_rescuer now timeout qs d))"
    unfolding rescueStuck_def
    by (rule foldl_keeps [where P = "\<lambda>x. same_tables d (fst x)"])
      (auto split: prod.splits sum.splits intro: same_tables_trans dest: mem_calls_tables(2))
  with assms show ?thesis by simp
qed

text \<open>Participants whose steps do not change the tables of notifications.\<close>

definition quiet :: "mem loop_event list \<Rightarrow> bool" where
  "quiet evs \<longleftrightarrow> (\<forall>f ps. LoopElse f \<in> set evs \<longrightarrow> same_tables (snd ps) (snd (f ps)))"

lemma loop_tables:
  assumes "runMainLoop pool fetch resc evs ps = Some (ps', errs, r)" "fetch = mem_fetch" "resc = Some mem_rescuer" "quiet evs"
  shows "same_tables (snd ps) (snd ps')"
  using assms
proof (induction pool fetch resc evs ps arbitrary: errs rule: runMainLoop.induct)
  case (4 pool fetch resc now evs ps)
  then obtain fm ps1 errs1 errs2 where f: "fetchAndDispatch pool fetch now ps = Some (fm, ps1, errs1)"
    and r: "runMainLoop pool fetch resc evs ps1 = Some (ps', errs2, r)" by (auto split: option.splits prod.splits)
  have "same_tables (snd ps) (snd ps1)" using fetch_tables [of pool now "fst ps" "snd ps" fm "fst ps1" "snd ps1" errs1] f 4(3) by simp
  moreover have "same_tables (snd ps1) (snd ps')" using "4.IH" [OF f refl refl r 4(3,4)] 4(5) by (simp add: quiet_def)
  ultimately show ?case by (rule same_tables_trans)
next
  case (5 pool fetch resc now evs ps)
  then obtain fm ps1 errs1 errs2 where f: "fetchAndDispatch pool fetch now ps = Some (fm, ps1, errs1)"
    and r: "runMainLoop pool fetch resc evs ps1 = Some (ps', errs2, r)" by (auto split: option.splits prod.splits)
  have "same_tables (snd ps) (snd ps1)" using fetch_tables [of pool now "fst ps" "snd ps" fm "fst ps1" "snd ps1" errs1] f 5(3) by simp
  moreover have "same_tables (snd ps1) (snd ps')" using "5.IH" [OF f refl refl r 5(3,4)] 5(5) by (simp add: quiet_def)
  ultimately show ?case by (rule same_tables_trans)
next
  case (6 pool fetch resc now evs p s)
  then have q: "quiet evs" by (simp add: quiet_def)
  show ?case
  proof (cases "0 < wc_StuckJobTimeout (wp_config pool)")
    case True
    obtain s1 errs1 where s1: "rescueStuck mem_rescuer now (wc_StuckJobTimeout (wp_config pool)) (wc_Queues (wp_config pool)) s = (s1, errs1)" by fastforce
    then obtain errs2 where r: "runMainLoop pool fetch resc evs (p, s1) = Some (ps', errs2, r)" using 6(4,6) True by auto
    show ?thesis using same_tables_trans [OF rescue_tables [OF s1]] "6.IH"(2) [OF 6(6) True s1 [symmetric] refl r 6(5,6) q] by simp
  next
    case False
    with 6(4,6) have r: "runMainLoop pool fetch resc evs (p, s) = Some (ps', errs, r)" by simp
    from "6.IH"(3) [OF 6(6) False r 6(5,6) q] show ?thesis .
  qed
next
  case (7 pool fetch resc f evs ps)
  then have q: "quiet evs" "same_tables (snd ps) (snd (f ps))" unfolding quiet_def by (meson list.set_intros)+
  from 7(2) have "runMainLoop pool fetch resc evs (f ps) = Some (ps', errs, r)" by simp
  from "7.IH" [OF this 7(3,4) q(1)] same_tables_trans [OF q(2)] show ?case by simp
qed (auto simp: pool_Stop_def)

text \<open>The tables when a pool has subscribed: its own channels are new and added to those of before.\<close>

definition subscribed_over :: "mem \<Rightarrow> listener \<Rightarrow> mem \<Rightarrow> bool" where
  "subscribed_over d0 l d \<longleftrightarrow> length (chans d0) \<le> length (chans d) \<and>
     (\<forall>q cs. gget (notify d) q = Some cs \<longrightarrow> distinct cs) \<and>
     (\<forall>q. nset d q = nset d0 q \<union> set_option (gget (subs l) q)) \<and>
     (\<forall>q c. gget (subs l) q = Some c \<longrightarrow> length (chans d0) \<le> c \<and> c < length (chans d)) \<and>
     (\<forall>c. length (chans d0) \<le> c \<longrightarrow> c < length (chans d) \<longrightarrow> ch_closed (chans d ! c) \<or> (\<exists>q. gget (subs l) q = Some c))"

lemma subscribed_start: "notify_inv d ls \<Longrightarrow> subscribed_over d Listener d"
  by (auto simp: subscribed_over_def Listener_def notify_inv_def)

lemma subscribed_tables:
  assumes "subscribed_over d0 l d" "same_tables d d'"
  shows "subscribed_over d0 l d'"
proof -
  have n: "notify d' = notify d" "length (chans d') = length (chans d)" using assms(2) map_eq_imp_length_eq by (auto simp: same_tables_def)
  have "ch_closed (chans d' ! c) = ch_closed (chans d ! c)" if "c < length (chans d)" for c
    using assms(2) that n(2) unfolding same_tables_def by (metis nth_map)
  with assms(1) n show ?thesis by (simp add: subscribed_over_def nset_def)
qed

lemma subscribed_listen:
  assumes "subscribed_over d0 l d" "\<And>q. nset d0 q \<subseteq> {..<length (chans d0)}" "gget (subs l) q = None" "Listen q l d = (l', d', c)"
  shows "subscribed_over d0 l' d'" "\<And>q'. gget (subs l') q' = (if q' = q then Some c else gget (subs l) q')"
proof -
  have c: "c = length (chans d)" and l': "subs l' = gput q c (subs l)" and ch: "chans d' = chans d @ [\<lparr>ch_buf = [], ch_closed = False\<rparr>]"
    and nt: "notify d' = gput q ((case gget (notify d) q of None \<Rightarrow> [] | Some cs \<Rightarrow> cs) @ [c]) (notify d)"
    using assms(4) by (auto simp: Listen_def Let_def)
  show sub: "gget (subs l') q' = (if q' = q then Some c else gget (subs l) q')" for q' by (simp add: l' gmap_simps)
  have ns: "nset d' q' = (if q' = q then insert c (nset d q) else nset d q')" for q' by (auto simp: nset_def nt gmap_simps split: option.splits)
  have fresh: "c \<notin> nset d q'" for q'
    using assms(1) assms(2) [of q'] unfolding subscribed_over_def c by (cases "gget (subs l) q'") fastforce+
  have dist: "distinct cs" if "gget (notify d) q' = Some cs" for q' cs using that assms(1) by (simp add: subscribed_over_def)
  have "distinct cs" if "gget (notify d') q' = Some cs" for q' cs
  proof (cases "q' = q")
    case True
    with that fresh [of q] dist show ?thesis by (auto simp: nt gmap_simps nset_def split: option.splits)
  next
    case False
    with that dist show ?thesis by (simp add: nt gmap_simps)
  qed
  moreover have "nset d' q' = nset d0 q' \<union> set_option (gget (subs l') q')" for q'
    using assms(1,3) by (auto simp: ns sub subscribed_over_def)
  moreover have "ch_closed (chans d' ! c') \<or> (\<exists>q'. gget (subs l') q' = Some c')" if "length (chans d0) \<le> c'" "c' < length (chans d')" for c'
  proof (cases "c' = c")
    case True
    then show ?thesis using sub by metis
  next
    case False
    then have "c' < length (chans d)" using that(2) by (simp add: ch c)
    then have "ch_closed (chans d ! c') \<or> (\<exists>q'. gget (subs l) q' = Some c')" using assms(1) that(1) by (simp add: subscribed_over_def)
    then show ?thesis using assms(3) sub \<open>c' < length (chans d)\<close> by (auto simp: ch nth_append) (metis option.distinct(1))
  qed
  moreover have "length (chans d0) \<le> c' \<and> c' < length (chans d')" if "gget (subs l') q' = Some c'" for q' c'
    using that assms(1) by (auto simp: sub ch c subscribed_over_def less_SucI split: if_splits)
  ultimately show "subscribed_over d0 l' d'" using assms(1) unfolding subscribed_over_def by (simp add: ch)
qed

lemma subscribed_remove:
  assumes "subscribed_over d0 l d" "\<And>q. nset d0 q \<subseteq> {..<length (chans d0)}" "listener_remove q l d = (l', d')"
  shows "subscribed_over d0 l' d'" "\<And>q'. gget (subs l') q' = (if q' = q then None else gget (subs l) q')"
proof -
  have "subscribed_over d0 l' d' \<and> (\<forall>q'. gget (subs l') q' = (if q' = q then None else gget (subs l) q'))"
  proof (cases "gget (subs l) q")
    case None
    with assms(1,3) show ?thesis by (auto simp: listener_remove_def)
  next
    case (Some c0)
    with assms(1) have c0: "length (chans d0) \<le> c0" "c0 < length (chans d)" "c0 \<in> nset d q" by (auto simp: subscribed_over_def)
    have dist: "distinct cs" if "gget (notify d) q' = Some cs" for q' cs using that assms(1) by (simp add: subscribed_over_def)
    from c0(3) dist obtain cs0 where cs0: "gget (notify d) q = Some cs0" "distinct cs0" "c0 \<in> set cs0"
      by (auto simp: nset_def split: option.splits)
    have l': "gget (subs l') q' = (if q' = q then None else gget (subs l) q')"
      and ch: "chans d' = (chans d)[c0 := (chans d ! c0)\<lparr>ch_closed := True\<rparr>]"
      and nt: "gget (notify d') q' = (if q' = q then (if remove1 c0 cs0 = [] then None else Some (remove1 c0 cs0)) else gget (notify d) q')" for q'
      using assms(3) Some cs0 c0 by (auto simp: listener_remove_def Let_def gmap_simps)
    have ns: "nset d' q' = (if q' = q then nset d q - {c0} else nset d q')" for q'
      using set_remove1_eq [OF cs0(2), of c0] cs0 by (cases "remove1 c0 cs0 = []") (auto simp: nset_def nt)
    have "c0 \<notin> nset d0 q" using assms(2) [of q] c0(1) by auto
    with assms(1) Some have "nset d' q' = nset d0 q' \<union> set_option (gget (subs l') q')" for q' by (auto simp: ns l' subscribed_over_def)
    moreover have "distinct cs" if "gget (notify d') q' = Some cs" for q' cs
      using that cs0(2) dist by (auto simp: nt split: if_splits)
    moreover have "ch_closed (chans d' ! c') \<or> (\<exists>q'. gget (subs l') q' = Some c')" if "length (chans d0) \<le> c'" "c' < length (chans d')" for c'
      using that assms(1) Some c0(2) by (cases "c' = c0") (auto simp: ch l' subscribed_over_def, metis option.inject)
    ultimately show ?thesis using assms(1) l' unfolding subscribed_over_def by (simp add: ch)
  qed
  then show "subscribed_over d0 l' d'" "\<And>q'. gget (subs l') q' = (if q' = q then None else gget (subs l) q')" by blast+
qed

lemma subscribe_all_mem:
  assumes "subscribed_over d0 l d" "\<And>q. nset d0 q \<subseteq> {..<length (chans d0)}" "distinct qs" "\<And>q. q \<in> set qs \<Longrightarrow> gget (subs l) q = None"
    and "subscribe_all mem_notifier qs (l, d) = ((l', d'), subscribed, err)"
  shows "subscribed_over d0 l' d' \<and> subscribed = qs \<and> err = None \<and> (\<forall>q. gget (subs l') q \<noteq> None \<longrightarrow> gget (subs l) q \<noteq> None \<or> q \<in> set qs)"
  using assms
proof (induction qs arbitrary: l d subscribed)
  case (Cons q qs)
  obtain l1 d1 c where a: "Listen q l d = (l1, d1, c)" by (metis prod.collapse)
  have none: "gget (subs l) q = None" using Cons.prems(4) by simp
  note s = subscribed_listen [OF Cons.prems(1,2) none a]
  obtain subscribed1 where r: "subscribe_all mem_notifier qs (l1, d1) = ((l', d'), subscribed1, err)" "subscribed = q # subscribed1"
    using Cons.prems(5) by (auto simp: mem_notifier_def a split: prod.splits)
  have "gget (subs l1) q' = None" if "q' \<in> set qs" for q' using that Cons.prems(3,4) s(2) by auto
  from Cons.IH [OF s(1) Cons.prems(2) _ this r(1)] Cons.prems(3) r(2) s(2) show ?case by (auto split: if_splits)
qed simp

lemma unsubscribe_all_mem:
  assumes "subscribed_over d0 l d" "\<And>q. nset d0 q \<subseteq> {..<length (chans d0)}" "unsubscribe_all mem_notifier qs (l, d) = ((l', d'), reports)"
  shows "subscribed_over d0 l' d' \<and> reports = [] \<and> (\<forall>q. gget (subs l') q = (if q \<in> set qs then None else gget (subs l) q))"
  using assms
proof (induction qs arbitrary: l d reports)
  case (Cons q qs)
  obtain l1 d1 where a: "listener_remove q l d = (l1, d1)" by fastforce
  note s = subscribed_remove [OF Cons.prems(1,2) a]
  obtain reports1 where r: "unsubscribe_all mem_notifier qs (l1, d1) = ((l', d'), reports1)" "reports = reports1"
    using Cons.prems(3) by (auto simp: mem_notifier_def Unlisten_def a split: prod.splits)
  from Cons.IH [OF s(1) Cons.prems(2) r(1)] r(2) s(2) show ?case by auto
qed simp

lemma stop_listening_mem:
  assumes "subscribed_over d0 l d" "\<And>q. nset d0 q \<subseteq> {..<length (chans d0)}" "\<And>q. gget (subs l) q \<noteq> None \<Longrightarrow> q \<in> set qs"
    and "stop_listening mem_notifier qs (l, d) = ((l', d'), reports)"
  shows "subs l' = [] \<and> subscribed_over d0 l' d' \<and> reports = []"
proof -
  obtain l1 d1 reports1 where u: "unsubscribe_all mem_notifier qs (l, d) = ((l1, d1), reports1)" by (metis prod.collapse)
  note s = unsubscribe_all_mem [OF assms(1,2) u]
  then have "gget (subs l1) q = None" for q using assms(3) [of q] by (cases "gget (subs l) q") auto
  then have "subs l1 = []" by (metis map_of_eq_empty_iff)
  with s u assms(4) show ?thesis by (auto simp: stop_listening_def mem_notifier_def listener_Close_def)
qed

section \<open>Properties\<close>

text \<open>
  Claim C14: a pool leaves the notifications as it found them. When the run of a pool over the
  in-memory driver returns, by the end of its context, by shutdown or by an error, its listener has no
  subscription left, every queue is announced to exactly the listeners it was announced to before,
  and every channel that the pool opened is closed, whatever it dispatched and rescued and whatever
  others did to the jobs meanwhile.
\<close>

theorem pool_leaves_notifications:
  assumes "notify_inv d ls" "distinct (wc_Queues (wp_config pool))" "quiet evs"
    and "runWithNotifications mem_notifier pool mem_fetch (Some mem_rescuer) now evs Listener (p, d) = Some ((l', p', d'), errs, Some r)"
  shows "subs l' = [] \<and> (\<forall>q. nset d' q = nset d q) \<and> (\<forall>c. length (chans d) \<le> c \<longrightarrow> c < length (chans d') \<longrightarrow> ch_closed (chans d' ! c))"
proof -
  let ?qs = "wc_Queues (wp_config pool)"
  have base: "nset d q \<subseteq> {..<length (chans d)}" for q using assms(1) by (auto simp: notify_inv_def)
  obtain l1 d1 subscribed err where s: "subscribe_all mem_notifier ?qs (Listener, d) = ((l1, d1), subscribed, err)" by (metis prod.collapse)
  note sub = subscribe_all_mem [OF subscribed_start [OF assms(1)] base assms(2) _ s]
  then have l1: "subscribed_over d l1 d1" "subscribed = ?qs" "err = None" "\<And>q. gget (subs l1) q \<noteq> None \<Longrightarrow> q \<in> set ?qs"
    by (auto simp: Listener_def)
  with assms(4) s obtain p2 d2 errs2 reports where run: "runWithPolling pool mem_fetch (Some mem_rescuer) now evs (p, d1) = Some ((p2, d2), errs2, Some r)"
    and stop: "stop_listening mem_notifier ?qs (l1, d2) = ((l', d'), reports)"
    by (auto simp: runWithNotifications_def Let_def split: option.splits prod.splits)
  from run obtain fm ps2 e2 e3 where f: "fetchAndDispatch pool mem_fetch now (p, d1) = Some (fm, ps2, e2)"
    and loop: "runMainLoop pool mem_fetch (Some mem_rescuer) evs ps2 = Some ((p2, d2), e3, Some r)"
    by (auto simp: runWithPolling_def split: option.splits prod.splits)
  have "same_tables d1 (snd ps2)" using fetch_tables [of pool now p d1 fm "fst ps2" "snd ps2" e2] f by simp
  from same_tables_trans [OF this] loop_tables [OF loop refl refl assms(3)] have "same_tables d1 d2" by simp
  from stop_listening_mem [OF subscribed_tables [OF l1(1) this] base l1(4) stop]
  show ?thesis by (auto simp: subscribed_over_def)
qed

definition loop_pool :: worker_pool where
  "loop_pool = newWorkerPool ''memory'' mem_Capabilities ''w'' (sample_worker\<lparr>wc_Queues := [''q'', ''r''], wc_QueuePolicies := []\<rparr>)"

definition loop_events :: "mem loop_event list" where
  "loop_events = [LoopNotify 2001, LoopTick 2002, LoopRescue 2003, LoopShutdown, LoopTick 2004]"

theorem pool_leaves_notifications_witness:
  "case runWithNotifications mem_notifier loop_pool mem_fetch (Some mem_rescuer) 2000 loop_events Listener (new_pool_state, sample_mem) of
     Some ((l', p', d'), errs, r) \<Rightarrow> r = Some None \<and> length (ps_jobs p') = 2 \<and> subs l' = [] \<and>
       length (chans d') = 2 \<and> ch_closed (chans d' ! 0) \<and> ch_closed (chans d' ! 1)
   | None \<Rightarrow> False"
proof -
  let ?run = "runWithNotifications mem_notifier loop_pool mem_fetch (Some mem_rescuer) 2000 loop_events Listener (new_pool_state, sample_mem)"
  have "case ?run of Some ((l', p', d'), errs, r) \<Rightarrow> r = Some None \<and> length (ps_jobs p') = 2 \<and> length (chans d') = 2 | None \<Rightarrow> False" by code_simp
  then obtain l' p' d' errs where run: "?run = Some ((l', p', d'), errs, Some None)" and n: "length (ps_jobs p') = 2" "length (chans d') = 2"
    by (auto split: option.splits prod.splits)
  have none: "notify sample_mem = []" "\<not> panicked sample_mem" by code_simp+
  then have inv: "notify_inv sample_mem []" by (simp add: notify_inv_def nset_def)
  have "chans sample_mem = []" by code_simp
  moreover have "distinct (wc_Queues (wp_config loop_pool))" "quiet loop_events"
    by (simp_all add: loop_pool_def newWorkerPool_def normal_config_def dedup_queues_distinct quiet_def loop_events_def Let_def)
  ultimately show ?thesis using pool_leaves_notifications [OF inv _ _ run] n by (simp add: run)
qed

end
