(* ===== verification/Worker_Pool.thy ===== *)
theory Worker_Pool
  imports Worker_Dispatch
begin

text \<open>
  The worker pool as a transition system: one dispatcher at a time, any number of job goroutines,
  each moving from one blocking operation to the next, in any interleaving. The queue policies and
  the registry do not change during a run; the store may change at any time. Shown here: every
  counter of the pool is exactly what its goroutines hold, every limit is respected in every
  reachable state, and jobs of one pipeline run one at a time in claim order as long as no job
  gives up its wait for its predecessor.
\<close>

section \<open>Actions\<close>

datatype 's action =
    BeginFetch
  | FetchRound gotime
  | EndFetch
  | Advance nat
  | Abandon nat
  | Unwind nat
  | RatesMove runtime
  | StoreMoves 's
  | Shutdown

definition set_job :: "nat \<Rightarrow> goroutine \<Rightarrow> pool_state \<Rightarrow> pool_state" where
  "set_job i g p = p\<lparr>ps_jobs := gput i g (ps_jobs p)\<rparr>"

text \<open>Rate limiting changes the limiter states of a queue but not its number of active jobs.\<close>

definition same_active :: "runtime \<Rightarrow> runtime \<Rightarrow> bool" where
  "same_active rt rt' \<longleftrightarrow>
     list_all (\<lambda>q. qt_active (queue_state rt' q) = qt_active (queue_state rt q)) (gkeys rt @ gkeys rt')"

definition may_abandon :: "bool \<Rightarrow> goroutine \<Rightarrow> bool" where
  "may_abandon patient g \<longleftrightarrow> go_phase g \<noteq> PExit \<and> go_phase g \<noteq> PRun \<and> \<not> (patient \<and> go_phase g = PPipeline)"

text \<open>\<open>patient\<close> excludes that a job gives up waiting for its predecessor in the pipeline.\<close>

fun pool_act :: "worker_pool \<Rightarrow> 'a Registry \<Rightarrow> 's claim_source \<Rightarrow> bool \<Rightarrow> 's action \<Rightarrow> pool_state \<times> 's \<Rightarrow> (pool_state \<times> 's) option" where
  "pool_act pool reg fetch patient BeginFetch (p, s) =
     (if ps_fetch p = None \<and> \<not> ps_shutdown p
      then Some (p\<lparr>ps_fetch := Some (pending_cap pool - ps_pending p, 0)\<rparr>, s) else None)"
| "pool_act pool reg fetch patient (FetchRound now) (p, s) =
     (case ps_fetch p of
        None \<Rightarrow> None
      | Some (free, misses) \<Rightarrow>
          if 0 < free \<and> misses < length (wp_schedule pool)
          then (case dispatch_iter pool fetch now (free, misses) (p, s) of
                  None \<Rightarrow> None
                | Some (fm, (p', s'), errs) \<Rightarrow> Some (p'\<lparr>ps_fetch := Some fm\<rparr>, s'))
          else None)"
| "pool_act pool reg fetch patient EndFetch (p, s) =
     (case ps_fetch p of
        None \<Rightarrow> None
      | Some (free, misses) \<Rightarrow>
          if free = 0 \<or> length (wp_schedule pool) \<le> misses then Some (p\<lparr>ps_fetch := None\<rparr>, s) else None)"
| "pool_act pool reg fetch patient (Advance i) (p, s) =
     (case gget (ps_jobs p) i of
        None \<Rightarrow> None
      | Some g \<Rightarrow> map_option (\<lambda>(g', p'). (set_job i g' p', s)) (advance pool reg g p))"
| "pool_act pool reg fetch patient (Abandon i) (p, s) =
     (case gget (ps_jobs p) i of
        None \<Rightarrow> None
      | Some g \<Rightarrow>
          if may_abandon patient g then (case abandon g p of (g', p') \<Rightarrow> Some (set_job i g' p', s)) else None)"
| "pool_act pool reg fetch patient (Unwind i) (p, s) =
     (case gget (ps_jobs p) i of
        None \<Rightarrow> None
      | Some g \<Rightarrow>
          if go_phase g = PExit
          then (case unwind g p of
                  (Some g', p') \<Rightarrow> Some (set_job i g' p', s)
                | (None, p') \<Rightarrow> Some (p'\<lparr>ps_jobs := gdel i (ps_jobs p')\<rparr>, s))
          else None)"
| "pool_act pool reg fetch patient (RatesMove rt) (p, s) =
     (if same_active (ps_runtime p) rt then Some (p\<lparr>ps_runtime := rt\<rparr>, s) else None)"
| "pool_act pool reg fetch patient (StoreMoves s') (p, s) = Some (p, s')"
| "pool_act pool reg fetch patient Shutdown (p, s) =
     (if ps_fetch p = None then Some (pool_Shutdown p, s) else None)"

text \<open>States reachable from a new pool.\<close>

inductive pool_reachable :: "worker_pool \<Rightarrow> 'a Registry \<Rightarrow> 's claim_source \<Rightarrow> bool \<Rightarrow> pool_state \<times> 's \<Rightarrow> bool"
  for pool reg fetch patient where
  fresh: "pool_reachable pool reg fetch patient (new_pool_state, s)"
| moves: "pool_reachable pool reg fetch patient ps \<Longrightarrow> pool_act pool reg fetch patient a ps = Some ps' \<Longrightarrow>
    pool_reachable pool reg fetch patient ps'"

text \<open>A sequence of actions from one state, all of them enabled in turn.\<close>

fun pool_run :: "worker_pool \<Rightarrow> 'a Registry \<Rightarrow> 's claim_source \<Rightarrow> bool \<Rightarrow> 's action list \<Rightarrow> pool_state \<times> 's \<Rightarrow> (pool_state \<times> 's) option" where
  "pool_run pool reg fetch patient [] ps = Some ps"
| "pool_run pool reg fetch patient (a # as) ps =
     (case pool_act pool reg fetch patient a ps of None \<Rightarrow> None | Some ps' \<Rightarrow> pool_run pool reg fetch patient as ps')"

lemma pool_run_reachable:
  "pool_reachable pool reg fetch patient ps \<Longrightarrow> pool_run pool reg fetch patient as ps = Some ps' \<Longrightarrow>
    pool_reachable pool reg fetch patient ps'"
  by (induction as arbitrary: ps) (auto intro: pool_reachable.moves split: option.splits)

lemma same_active_iff:
  "same_active rt rt' \<longleftrightarrow> (\<forall>q. qt_active (queue_state rt' q) = qt_active (queue_state rt q))"
proof -
  have "queue_state rt' q = queue_state rt q" if "q \<notin> set (gkeys rt @ gkeys rt')" for q
    using that by (simp add: queue_state_def map_of_eq_None_iff split: option.splits) (metis imageI fst_conv map_of_SomeD)
  then show ?thesis unfolding same_active_def list_all_iff by metis
qed

section \<open>Accounting\<close>

text \<open>Everything that is counted, with its counter and what one goroutine contributes to it.\<close>

datatype resource =
    RPending
  | RSem
  | RQueue string
  | RKind string
  | RKeyLen string
  | RKeyRef string
  | RGateLen string
  | RGateRef string

fun used :: "resource \<Rightarrow> pool_state \<Rightarrow> int" where
  "used RPending p = int (ps_pending p)"
| "used RSem p = int (ps_sem p)"
| "used (RQueue q) p = qt_active (queue_state (ps_runtime p) q)"
| "used (RKind k) p = (case gget (ps_kinds p) k of None \<Rightarrow> 0 | Some sem \<Rightarrow> int (sm_len sem))"
| "used (RKeyLen k) p = (case gget (ps_keys p) k of None \<Rightarrow> 0 | Some e \<Rightarrow> int (ks_len e))"
| "used (RKeyRef k) p = (case gget (ps_keys p) k of None \<Rightarrow> 0 | Some e \<Rightarrow> ks_refs e)"
| "used (RGateLen k) p = (case gget (ps_gates p) k of None \<Rightarrow> 0 | Some e \<Rightarrow> int (rg_len e))"
| "used (RGateRef k) p = (case gget (ps_gates p) k of None \<Rightarrow> 0 | Some e \<Rightarrow> rg_refs e)"

definition waits_key :: "string \<Rightarrow> goroutine \<Rightarrow> bool" where
  "waits_key k g \<longleftrightarrow> (case go_phase g of PKeyWait key _ _ \<Rightarrow> key = k | _ \<Rightarrow> False)"

fun holds :: "resource \<Rightarrow> goroutine \<Rightarrow> int" where
  "holds RPending g = 1"
| "holds RSem g = of_bool (go_sem g)"
| "holds (RQueue q) g = of_bool (go_queue g \<and> Queue (go_row g) = q)"
| "holds (RKind k) g = of_bool (go_kind g \<and> Kind (go_row g) = k)"
| "holds (RKeyLen k) g = int (count_list (go_keys g) k)"
| "holds (RKeyRef k) g = int (count_list (go_keys g) k) + of_bool (waits_key k g)"
| "holds (RGateLen k) g = of_bool (go_gate g = Some k)"
| "holds (RGateRef k) g = of_bool (go_gate g = Some k) + of_bool (go_phase g = PGateWait k)"

definition sum_held :: "(goroutine \<Rightarrow> int) \<Rightarrow> (nat, goroutine) gmap \<Rightarrow> int" where
  "sum_held f m = sum_list (map f (gvals m))"

text \<open>What a goroutine can hold at its place in the code.\<close>

definition phase_ok :: "goroutine \<Rightarrow> bool" where
  "phase_ok g \<longleftrightarrow> (case go_phase g of
      PExit \<Rightarrow> True
    | PRun \<Rightarrow> go_sem g \<and> go_gate g = None
    | PPermit \<Rightarrow> go_sem g
    | PSem \<Rightarrow> \<not> go_sem g
    | PKind \<Rightarrow> \<not> go_sem g \<and> \<not> go_kind g
    | _ \<Rightarrow> \<not> go_sem g \<and> \<not> go_kind g \<and> go_gate g = None)"

definition accounted :: "pool_state \<Rightarrow> bool" where
  "accounted p \<longleftrightarrow> distinct (gkeys (ps_jobs p)) \<and>
     (\<forall>i g. gget (ps_jobs p) i = Some g \<longrightarrow> i < ps_next p \<and> phase_ok g) \<and>
     (\<forall>r. used r p = sum_held (holds r) (ps_jobs p))"

lemma sum_held_gput:
  assumes "distinct (gkeys m)"
  shows "sum_held f (gput i g m) = sum_held f m + f g - (case gget m i of None \<Rightarrow> 0 | Some g0 \<Rightarrow> f g0)"
  using assms by (induction m) (auto simp: sum_held_def map_of_eq_None_iff image_iff split: option.splits)

lemma sum_held_gdel:
  assumes "distinct (gkeys m)"
  shows "sum_held f (gdel i m) = sum_held f m - (case gget m i of None \<Rightarrow> 0 | Some g0 \<Rightarrow> f g0)"
  using assms by (induction m) (auto simp: sum_held_def AList.delete_eq map_of_eq_None_iff filter_id_conv
      image_iff split: option.splits)

lemma holds_nonneg: "0 \<le> holds r g"
  by (cases r) auto

lemma sum_held_nonneg: "(\<And>g. 0 \<le> f g) \<Longrightarrow> 0 \<le> sum_held f m"
  unfolding sum_held_def by (intro sum_list_nonneg) auto

lemma sum_held_mono: "(\<And>g. f g \<le> h g) \<Longrightarrow> sum_held f m \<le> sum_held h m"
  unfolding sum_held_def by (intro sum_list_mono) auto

lemma sum_held_ge:
  assumes "gget m i = Some g" "\<And>g. 0 \<le> f g"
  shows "f g \<le> sum_held f m"
proof -
  have "f g \<in> set (map f (gvals m))" using map_of_SomeD [OF assms(1)] by (force simp: image_iff)
  then show ?thesis unfolding sum_held_def using assms(2) by (intro member_le_sum_list) auto
qed

text \<open>A goroutine that changes takes and gives back exactly what the counters say.\<close>

lemma accounted_set_job:
  assumes acc: "accounted p" and g: "gget (ps_jobs p) i = Some g"
    and p': "ps_jobs p' = ps_jobs p" "ps_next p' = ps_next p"
    and bal: "\<And>r. used r p' - used r p = holds r g' - holds r g" and ok: "phase_ok g'"
  shows "accounted (set_job i g' p')"
proof -
  have u: "used r (set_job i g' p') = used r p'" for r by (cases r) (simp_all add: set_job_def)
  have jobs: "ps_jobs (set_job i g' p') = gput i g' (ps_jobs p)" "ps_next (set_job i g' p') = ps_next p"
    using p' by (simp_all add: set_job_def)
  have "used r p' = sum_held (holds r) (gput i g' (ps_jobs p))" for r
    using acc g bal [of r] by (simp add: accounted_def sum_held_gput)
  then show ?thesis
    using acc g ok by (auto simp: accounted_def u jobs distinct_gput gmap_simps)
qed

section \<open>Balance of the operations\<close>

text \<open>References cover the tokens, and what a goroutine holds is in the counters.\<close>

lemma accounted_used:
  assumes "accounted p"
  shows "0 \<le> used r p" "used (RKeyLen k) p \<le> used (RKeyRef k) p" "used (RGateLen k) p \<le> used (RGateRef k) p"
    and "gget (ps_jobs p) i = Some g \<Longrightarrow> holds r g \<le> used r p"
proof -
  have u: "used r p = sum_held (holds r) (ps_jobs p)" for r using assms by (simp add: accounted_def)
  show "0 \<le> used r p" unfolding u by (rule sum_held_nonneg) (rule holds_nonneg)
  show "used (RKeyLen k) p \<le> used (RKeyRef k) p" "used (RGateLen k) p \<le> used (RGateRef k) p"
    unfolding u by (rule sum_held_mono, simp)+
  show "gget (ps_jobs p) i = Some g \<Longrightarrow> holds r g \<le> used r p"
    unfolding u by (erule sum_held_ge) (rule holds_nonneg)
qed

text \<open>Deleting an entry without references loses no token.\<close>

lemma others_hold_nothing:
  assumes "accounted p" "gget (ps_jobs p) i = Some g" "used r p = holds r g" "\<And>x. holds r' x \<le> holds r x"
  shows "used r' p = holds r' g"
proof -
  have u: "used r p = sum_held (holds r) (ps_jobs p)" for r using assms(1) by (simp add: accounted_def)
  have d: "distinct (gkeys (ps_jobs p))" using assms(1) by (simp add: accounted_def)
  have rest: "sum_held f (gdel i (ps_jobs p)) = sum_held f (ps_jobs p) - f g" for f
    using assms(2) by (simp add: sum_held_gdel [OF d])
  have "sum_held (holds r') (gdel i (ps_jobs p)) \<le> sum_held (holds r) (gdel i (ps_jobs p))"
    by (rule sum_held_mono) (rule assms(4))
  also have "\<dots> = 0" using rest [of "holds r"] u [of r] assms(3) by simp
  finally have "sum_held (holds r') (gdel i (ps_jobs p)) = 0"
    using sum_held_nonneg [of "holds r'" "gdel i (ps_jobs p)", OF holds_nonneg] by linarith
  then show ?thesis using rest [of "holds r'"] u [of r'] by simp
qed

lemma used_key_register:
  "used r (key_register key limit p) - used r p = of_bool (r = RKeyRef key)"
  by (cases r) (auto simp: key_register_def Let_def gmap_simps split: option.splits)

lemma used_key_acquire:
  "key_acquire key p = Some p' \<Longrightarrow> used r p' - used r p = of_bool (r = RKeyLen key)"
  by (cases r) (auto simp: key_acquire_def Let_def gmap_simps split: option.splits if_splits)

lemma used_gate_register:
  "used r (gate_register key p) - used r p = of_bool (r = RGateRef key)"
  by (cases r) (auto simp: gate_register_def Let_def gmap_simps split: option.splits)

lemma used_gate_acquire:
  "gate_acquire key p = Some p' \<Longrightarrow> used r p' - used r p = of_bool (r = RGateLen key)"
  by (cases r) (auto simp: gate_acquire_def Let_def gmap_simps split: option.splits if_splits)

lemma used_kind_release:
  "used (RKind k) p \<ge> 1 \<Longrightarrow> used r (kind_release k p) - used r p = - of_bool (r = RKind k)"
  by (cases r) (auto simp: kind_release_def gmap_simps split: option.splits)

lemma used_queueDone:
  "used (RQueue q) p \<ge> 1 \<Longrightarrow> used r (queueDone q p) - used r p = - of_bool (r = RQueue q)"
  by (cases r) (auto simp: queueDone_def queue_state_def fresh_queue_def gmap_simps split: option.splits)

lemma used_pipelineDone [simp]: "used r (pipelineDone q c p) = used r p"
  by (cases r) (auto simp: pipelineDone_def Let_def)

text \<open>Dropping the last reference deletes the entry: its tokens must be gone by then.\<close>

lemma used_key_drop:
  assumes "1 \<le> used (RKeyRef key) p" "used (RKeyRef key) p = 1 \<Longrightarrow> used (RKeyLen key) p = 0"
  shows "used r (key_drop key p) - used r p = - of_bool (r = RKeyRef key)"
  using assms by (cases r) (auto simp: key_drop_def gmap_simps split: option.splits)

lemma used_gate_drop:
  assumes "1 \<le> used (RGateRef key) p" "used (RGateRef key) p = 1 \<Longrightarrow> used (RGateLen key) p = 0"
  shows "used r (gate_drop key p) - used r p = - of_bool (r = RGateRef key)"
  using assms by (cases r) (auto simp: gate_drop_def gmap_simps split: option.splits)

lemma used_key_release:
  assumes "1 \<le> used (RKeyLen key) p" "1 \<le> used (RKeyRef key) p"
    and "used (RKeyRef key) p = 1 \<Longrightarrow> used (RKeyLen key) p = 1"
  shows "used r (key_release key p) - used r p = - of_bool (r = RKeyRef key \<or> r = RKeyLen key)"
proof -
  obtain e where e: "gget (ps_keys p) key = Some e" using assms(1) by (auto split: option.splits)
  let ?p1 = "p\<lparr>ps_keys := gput key (e\<lparr>ks_len := ks_len e - 1\<rparr>) (ps_keys p)\<rparr>"
  have a: "used r ?p1 - used r p = - of_bool (r = RKeyLen key)"
    using assms(1) e by (cases r) (auto simp: gmap_simps)
  have b: "used r (key_drop key ?p1) - used r ?p1 = - of_bool (r = RKeyRef key)"
    using assms e by (intro used_key_drop) (auto simp: gmap_simps)
  have c: "of_bool (r = RKeyRef key \<or> r = RKeyLen key) = (of_bool (r = RKeyRef key) + of_bool (r = RKeyLen key) :: int)"
    by auto
  have d: "key_release key p = key_drop key ?p1" using e by (simp add: key_release_def)
  show ?thesis unfolding c d using a b by linarith
qed

lemma used_gate_release:
  assumes "1 \<le> used (RGateLen key) p" "1 \<le> used (RGateRef key) p"
    and "used (RGateRef key) p = 1 \<Longrightarrow> used (RGateLen key) p = 1"
  shows "used r (gate_release key p) - used r p = - of_bool (r = RGateRef key \<or> r = RGateLen key)"
proof -
  obtain e where e: "gget (ps_gates p) key = Some e" using assms(1) by (auto split: option.splits)
  let ?p1 = "p\<lparr>ps_gates := gput key (e\<lparr>rg_len := rg_len e - 1\<rparr>) (ps_gates p)\<rparr>"
  have a: "used r ?p1 - used r p = - of_bool (r = RGateLen key)"
    using assms(1) e by (cases r) (auto simp: gmap_simps)
  have b: "used r (gate_drop key ?p1) - used r ?p1 = - of_bool (r = RGateRef key)"
    using assms e by (intro used_gate_drop) (auto simp: gmap_simps)
  have c: "of_bool (r = RGateRef key \<or> r = RGateLen key) = (of_bool (r = RGateRef key) + of_bool (r = RGateLen key) :: int)"
    by auto
  have d: "gate_release key p = gate_drop key ?p1" using e by (simp add: gate_release_def)
  show ?thesis unfolding c d using a b by linarith
qed

text \<open>The jobs and the counter of goroutines are changed by the dispatcher only.\<close>

lemma jobs_frame_ops [simp]:
  "ps_jobs (key_register k n p) = ps_jobs p" "ps_next (key_register k n p) = ps_next p"
  "ps_jobs (key_drop k p) = ps_jobs p" "ps_next (key_drop k p) = ps_next p"
  "ps_jobs (key_release k p) = ps_jobs p" "ps_next (key_release k p) = ps_next p"
  "ps_jobs (gate_register k p) = ps_jobs p" "ps_next (gate_register k p) = ps_next p"
  "ps_jobs (gate_drop k p) = ps_jobs p" "ps_next (gate_drop k p) = ps_next p"
  "ps_jobs (gate_release k p) = ps_jobs p" "ps_next (gate_release k p) = ps_next p"
  "ps_jobs (kind_release k p) = ps_jobs p" "ps_next (kind_release k p) = ps_next p"
  "ps_jobs (queueDone k p) = ps_jobs p" "ps_next (queueDone k p) = ps_next p"
  "ps_jobs (pipelineDone k c p) = ps_jobs p" "ps_next (pipelineDone k c p) = ps_next p"
  by (simp_all add: key_register_def key_drop_def key_release_def gate_register_def gate_drop_def gate_release_def
      kind_release_def queueDone_def pipelineDone_def Let_def split: option.splits)

lemma jobs_frame_acquire:
  "key_acquire k p = Some p' \<Longrightarrow> ps_jobs p' = ps_jobs p \<and> ps_next p' = ps_next p"
  "gate_acquire k p = Some p' \<Longrightarrow> ps_jobs p' = ps_jobs p \<and> ps_next p' = ps_next p"
  by (auto simp: key_acquire_def gate_acquire_def split: option.splits if_splits)

lemma used_kindSemaphore:
  "kindSemaphore reg k p = (p', r) \<Longrightarrow> used x p' = used x p \<and> ps_jobs p' = ps_jobs p \<and> ps_next p' = ps_next p"
  "kindSemaphore reg k p = (p', Some sem) \<Longrightarrow> gget (ps_kinds p') k = Some sem"
  by (cases x; auto simp: kindSemaphore_def Let_def gmap_simps split: option.splits if_splits)+

text \<open>A goroutine gives back a gate or a key that it holds.\<close>

lemma gate_release_balance:
  assumes acc: "accounted p" and g: "gget (ps_jobs p) i = Some g" and key: "go_gate g = Some key"
    and quiet: "go_phase g \<noteq> PGateWait key"
  shows "used r (gate_release key p) - used r p = - of_bool (r = RGateRef key \<or> r = RGateLen key)"
proof (rule used_gate_release)
  have h: "holds (RGateLen key) g = 1" "holds (RGateRef key) g = 1" using key quiet by simp_all
  show "1 \<le> used (RGateLen key) p" "1 \<le> used (RGateRef key) p"
    using accounted_used(4) [OF acc g, of "RGateLen key"] accounted_used(4) [OF acc g, of "RGateRef key"] h by linarith+
  show "used (RGateLen key) p = 1" if "used (RGateRef key) p = 1"
    using others_hold_nothing [OF acc g, of "RGateRef key" "RGateLen key"] that h by (simp del: used.simps)
qed

lemma key_release_balance:
  assumes acc: "accounted p" and g: "gget (ps_jobs p) i = Some g" and key: "key \<in> set (go_keys g)"
    and quiet: "go_phase g = PExit"
  shows "used r (key_release key p) - used r p = - of_bool (r = RKeyRef key \<or> r = RKeyLen key)"
proof (rule used_key_release)
  have h: "holds (RKeyRef key) g = holds (RKeyLen key) g" "1 \<le> holds (RKeyLen key) g"
    using quiet count_list_0_iff [of "go_keys g" key] key by (simp_all add: waits_key_def Suc_le_eq)
  show r: "1 \<le> used (RKeyLen key) p" "1 \<le> used (RKeyRef key) p"
    using accounted_used(4) [OF acc g, of "RKeyLen key"] accounted_used(4) [OF acc g, of "RKeyRef key"] h by linarith+
  show "used (RKeyLen key) p = 1" if "used (RKeyRef key) p = 1"
    using r(1) accounted_used(2) [OF acc, of key] that by linarith
qed

lemma drop_balance:
  assumes acc: "accounted p" and g: "gget (ps_jobs p) i = Some g"
  shows "waits_key key g \<Longrightarrow> used r (key_drop key p) - used r p = - of_bool (r = RKeyRef key)"
    and "go_phase g = PGateWait key \<Longrightarrow> used r (gate_drop key p) - used r p = - of_bool (r = RGateRef key)"
proof -
  have ok: "phase_ok g" using acc g by (auto simp: accounted_def)
  show "used r (key_drop key p) - used r p = - of_bool (r = RKeyRef key)" if w: "waits_key key g"
  proof (rule used_key_drop)
    have h: "holds (RKeyRef key) g = holds (RKeyLen key) g + 1" using w by simp
    show "1 \<le> used (RKeyRef key) p"
      using accounted_used(4) [OF acc g, of "RKeyRef key"] h holds_nonneg [of "RKeyLen key" g] by linarith
    assume one: "used (RKeyRef key) p = 1"
    have "holds (RKeyRef key) g \<le> 1" using accounted_used(4) [OF acc g, of "RKeyRef key"] one by linarith
    with h holds_nonneg [of "RKeyLen key" g] have h0: "holds (RKeyLen key) g = 0" "holds (RKeyRef key) g = 1" by linarith+
    from others_hold_nothing [OF acc g, of "RKeyRef key" "RKeyLen key"] h0 one show "used (RKeyLen key) p = 0"
      by (simp del: used.simps)
  qed
  show "used r (gate_drop key p) - used r p = - of_bool (r = RGateRef key)" if w: "go_phase g = PGateWait key"
  proof (rule used_gate_drop)
    have h: "holds (RGateRef key) g = 1" "holds (RGateLen key) g = 0" using w ok by (simp_all add: phase_ok_def)
    show "1 \<le> used (RGateRef key) p" using accounted_used(4) [OF acc g, of "RGateRef key"] h by linarith
    show "used (RGateLen key) p = 0" if "used (RGateRef key) p = 1"
      using others_hold_nothing [OF acc g, of "RGateRef key" "RGateLen key"] that h by (simp del: used.simps)
  qed
qed

lemma advance_balance:
  assumes acc: "accounted p" and g: "gget (ps_jobs p) i = Some g" and adv: "advance pool reg g p = Some (g', p')"
  shows "ps_jobs p' = ps_jobs p \<and> ps_next p' = ps_next p \<and> used r p' - used r p = holds r g' - holds r g"
proof -
  have ok: "phase_ok g" using acc g by (auto simp: accounted_def)
  show ?thesis
proof (cases "go_phase g")
  case PPipeline
  with adv show ?thesis by (cases r) (auto simp: advance_def waits_key_def split: option.splits if_splits)
next
  case PLease
  with adv show ?thesis by (cases r) (auto simp: advance_def waits_key_def)
next
  case (PKeys rules n)
  show ?thesis
  proof (cases rules)
    case Nil
    with adv PKeys show ?thesis by (cases r) (auto simp: advance_def waits_key_def)
  next
    case (Cons rule rest)
    let ?key = "key_name (go_row g) n rule"
    have new: "g' = g\<lparr>go_phase := PKeyWait ?key rest n\<rparr>" "p' = key_register ?key (nat (kc_Limit rule)) p"
      using adv PKeys Cons by (simp_all add: advance_def Let_def)
    have "holds r g' - holds r g = of_bool (r = RKeyRef ?key)"
      using PKeys by (cases r) (auto simp: new(1) waits_key_def)
    with used_key_register [of r ?key "nat (kc_Limit rule)" p] show ?thesis by (simp add: new(2))
  qed
next
  case (PKeyWait key rules n)
  with adv obtain q where q: "key_acquire key p = Some q" "p' = q"
    "g' = g\<lparr>go_phase := PKeys rules (Suc n), go_keys := go_keys g @ [key]\<rparr>" by (auto simp: advance_def)
  have "holds r g' - holds r g = of_bool (r = RKeyLen key)"
    using PKeyWait by (cases r) (auto simp: q(3) waits_key_def)
  with used_key_acquire [OF q(1), of r] jobs_frame_acquire(1) [OF q(1)] q(2) show ?thesis by simp
next
  case PGate
  show ?thesis
  proof (cases "queueRateLimits pool (Queue (go_row g)) = []")
    case True
    with adv PGate show ?thesis by (cases r) (auto simp: advance_def waits_key_def)
  next
    case False
    let ?key = "rate_gate_key (queueRateLimits pool (Queue (go_row g))) (go_row g)"
    have new: "g' = g\<lparr>go_phase := PGateWait ?key\<rparr>" "p' = gate_register ?key p"
      using adv PGate False by (simp_all add: advance_def Let_def)
    have "holds r g' - holds r g = of_bool (r = RGateRef ?key)"
      using PGate by (cases r) (auto simp: new(1) waits_key_def)
    with used_gate_register [of r ?key p] show ?thesis by (simp add: new(2))
  qed
next
  case (PGateWait key)
  with adv obtain q where q: "gate_acquire key p = Some q" "p' = q"
    "g' = g\<lparr>go_phase := PKind, go_gate := Some key\<rparr>" by (auto simp: advance_def)
  have "holds r g' - holds r g = of_bool (r = RGateLen key)"
    using PGateWait ok by (cases r) (auto simp: q(3) waits_key_def phase_ok_def)
  with used_gate_acquire [OF q(1), of r] jobs_frame_acquire(2) [OF q(1)] q(2) show ?thesis by simp
next
  case PKind
  let ?kind = "Kind (go_row g)"
  obtain p1 ms where k: "kindSemaphore reg ?kind p = (p1, ms)" by force
  note u = used_kindSemaphore(1) [OF k]
  show ?thesis
  proof (cases ms)
    case None
    with adv PKind k have "g' = g\<lparr>go_phase := PSem\<rparr>" "p' = p1" by (simp_all add: advance_def)
    with u PKind show ?thesis by (cases r) (auto simp: waits_key_def)
  next
    case (Some sem)
    have sem: "gget (ps_kinds p1) ?kind = Some sem" using used_kindSemaphore(2) k Some by blast
    have new: "g' = g\<lparr>go_phase := PSem, go_kind := True\<rparr>"
      "p' = p1\<lparr>ps_kinds := gput ?kind (sem\<lparr>sm_len := Suc (sm_len sem)\<rparr>) (ps_kinds p1)\<rparr>"
      using adv PKind k Some by (simp_all add: advance_def split: if_splits)
    have "used r p' - used r p1 = of_bool (r = RKind ?kind)"
      using sem by (cases r) (auto simp: new(2) gmap_simps)
    moreover have "holds r g' - holds r g = of_bool (r = RKind ?kind)"
      using PKind ok by (cases r) (auto simp: new(1) waits_key_def phase_ok_def)
    ultimately show ?thesis using u [of r] by (simp add: new(2))
  qed
next
  case PSem
  have new: "g' = g\<lparr>go_phase := PPermit, go_sem := True\<rparr>" "p' = p\<lparr>ps_sem := Suc (ps_sem p)\<rparr>"
    using adv PSem by (simp_all add: advance_def split: if_splits)
  have "used r p' - used r p = of_bool (r = RSem)" by (cases r) (simp_all add: new(2))
  moreover have "holds r g' - holds r g = of_bool (r = RSem)"
    using PSem ok by (cases r) (auto simp: new(1) waits_key_def phase_ok_def)
  ultimately show ?thesis by (simp add: new(2))
next
  case PPermit
  show ?thesis
  proof (cases "go_gate g")
    case None
    with adv PPermit show ?thesis by (cases r) (auto simp: advance_def waits_key_def)
  next
    case (Some key)
    have new: "g' = g\<lparr>go_phase := PRun, go_gate := None\<rparr>" "p' = gate_release key p"
      using adv PPermit Some by (simp_all add: advance_def)
    have "holds r g' - holds r g = - of_bool (r = RGateRef key \<or> r = RGateLen key)"
      using PPermit Some by (cases r) (auto simp: new(1) waits_key_def)
    with gate_release_balance [OF acc g Some, of r] PPermit show ?thesis by (simp add: new(2))
  qed
next
  case PRun
  with adv show ?thesis by (cases r) (auto simp: advance_def waits_key_def)
next
  case PExit
  with adv show ?thesis by (simp add: advance_def)
qed
qed

lemma advance_phase_ok:
  assumes "phase_ok g" "advance pool reg g p = Some (g', p')"
  shows "phase_ok g'"
  using assms by (auto simp: phase_ok_def advance_def Let_def split: phase.splits option.splits list.splits if_splits prod.splits)

lemma abandon_balance:
  assumes acc: "accounted p" and g: "gget (ps_jobs p) i = Some g" and ab: "abandon g p = (g', p')"
  shows "ps_jobs p' = ps_jobs p \<and> ps_next p' = ps_next p \<and> used r p' - used r p = holds r g' - holds r g"
proof -
  have g': "g' = g\<lparr>go_phase := PExit\<rparr>" using ab by (simp add: abandon_def)
  consider key rules n where "go_phase g = PKeyWait key rules n" | key where "go_phase g = PGateWait key"
    | "\<forall>key rules n. go_phase g \<noteq> PKeyWait key rules n" "\<forall>key. go_phase g \<noteq> PGateWait key" by blast
  then show ?thesis
  proof cases
    case (1 key rules n)
    have "holds r g' - holds r g = - of_bool (r = RKeyRef key)" using 1 by (cases r) (auto simp: g' waits_key_def)
    moreover have "waits_key key g" using 1 by (simp add: waits_key_def)
    from drop_balance(1) [OF acc g this, of r] have "used r (key_drop key p) - used r p = - of_bool (r = RKeyRef key)" .
    ultimately show ?thesis using ab 1 by (auto simp: abandon_def)
  next
    case (2 key)
    have "holds r g' - holds r g = - of_bool (r = RGateRef key)" using 2 by (cases r) (auto simp: g' waits_key_def)
    with drop_balance(2) [OF acc g 2, of r] ab 2 show ?thesis by (auto simp: abandon_def)
  next
    case 3
    then have "p' = p" using ab by (auto simp: abandon_def split: phase.splits)
    moreover have "holds r g' = holds r g" using 3 by (cases r) (auto simp: g' waits_key_def split: phase.splits)
    ultimately show ?thesis by simp
  qed
qed

lemma unwind_balance:
  assumes acc: "accounted p" and g: "gget (ps_jobs p) i = Some g" and ex: "go_phase g = PExit"
    and un: "unwind g p = (Some g', p')"
  shows "ps_jobs p' = ps_jobs p \<and> ps_next p' = ps_next p \<and> go_phase g' = PExit \<and>
    used r p' - used r p = holds r g' - holds r g"
proof -
  note le = accounted_used(4) [OF acc g]
  consider "go_sem g" | "\<not> go_sem g" "go_kind g" | key where "\<not> go_sem g" "\<not> go_kind g" "go_gate g = Some key"
    | "\<not> go_sem g" "\<not> go_kind g" "go_gate g = None" "go_keys g \<noteq> []"
    | "\<not> go_sem g" "\<not> go_kind g" "go_gate g = None" "go_keys g = []" "go_lease g"
    | ch where "\<not> go_sem g" "\<not> go_kind g" "go_gate g = None" "go_keys g = []" "\<not> go_lease g" "go_done g = Some ch"
    | "\<not> go_sem g" "\<not> go_kind g" "go_gate g = None" "go_keys g = []" "\<not> go_lease g" "go_done g = None" "go_queue g"
    using un by (auto simp: unwind_def split: if_splits option.splits)
  then show ?thesis
  proof cases
    case 1
    then have new: "g' = g\<lparr>go_sem := False\<rparr>" "p' = p\<lparr>ps_sem := ps_sem p - 1\<rparr>" using un by (simp_all add: unwind_def)
    have "1 \<le> used RSem p" using le [of RSem] 1 by simp
    then have "used r p' - used r p = - of_bool (r = RSem)" by (cases r) (auto simp: new(2))
    moreover have "holds r g' - holds r g = - of_bool (r = RSem)" using 1 by (cases r) (auto simp: new(1) waits_key_def)
    ultimately show ?thesis using ex by (simp add: new)
  next
    case 2
    let ?k = "Kind (go_row g)"
    have new: "g' = g\<lparr>go_kind := False\<rparr>" "p' = kind_release ?k p" using un 2 by (simp_all add: unwind_def)
    have "1 \<le> used (RKind ?k) p" using le [of "RKind ?k"] 2 by simp
    note used_kind_release [OF this, of r]
    moreover have "holds r g' - holds r g = - of_bool (r = RKind ?k)" using 2 by (cases r) (auto simp: new(1) waits_key_def)
    ultimately show ?thesis using ex by (simp add: new)
  next
    case (3 key)
    have new: "g' = g\<lparr>go_gate := None\<rparr>" "p' = gate_release key p" using un 3 by (simp_all add: unwind_def)
    have "holds r g' - holds r g = - of_bool (r = RGateRef key \<or> r = RGateLen key)"
      using 3 ex by (cases r) (auto simp: new(1) waits_key_def)
    with gate_release_balance [OF acc g 3(3), of r] ex show ?thesis by (simp add: new)
  next
    case 4
    let ?key = "last (go_keys g)"
    have new: "g' = g\<lparr>go_keys := butlast (go_keys g)\<rparr>" "p' = key_release ?key p" using un 4 by (simp_all add: unwind_def)
    have "count_list (go_keys g) k = count_list (butlast (go_keys g)) k + of_bool (k = ?key)" for k
      using append_butlast_last_id [OF 4(4)] count_list_append [of "butlast (go_keys g)" "[?key]" k] by (auto split: if_splits)
    then have "holds r g' - holds r g = - of_bool (r = RKeyRef ?key \<or> r = RKeyLen ?key)"
      using ex by (cases r) (auto simp: new(1) waits_key_def)
    with key_release_balance [OF acc g _ ex, of ?key r] 4 ex show ?thesis by (simp add: new)
  next
    case 5
    then have new: "g' = g\<lparr>go_lease := False\<rparr>" "p' = p" using un by (simp_all add: unwind_def)
    then show ?thesis using ex by (cases r) (simp_all add: waits_key_def)
  next
    case (6 ch)
    then have new: "g' = g\<lparr>go_done := None\<rparr>" "p' = pipelineDone (PipelineID (go_row g)) ch p"
      using un by (simp_all add: unwind_def)
    have "holds r g' = holds r g" using ex by (cases r) (simp_all add: new(1) waits_key_def)
    then show ?thesis using ex by (simp add: new)
  next
    case 7
    let ?q = "Queue (go_row g)"
    have new: "g' = g\<lparr>go_queue := False\<rparr>" "p' = queueDone ?q p" using un 7 by (simp_all add: unwind_def)
    have "1 \<le> used (RQueue ?q) p" using le [of "RQueue ?q"] 7 by simp
    note used_queueDone [OF this, of r]
    moreover have "holds r g' - holds r g = - of_bool (r = RQueue ?q)" using 7 by (cases r) (auto simp: new(1) waits_key_def)
    ultimately show ?thesis using ex by (simp add: new)
  qed
qed

lemma unwind_end:
  assumes acc: "accounted p" and g: "gget (ps_jobs p) i = Some g" and ex: "go_phase g = PExit"
    and un: "unwind g p = (None, p')"
  shows "accounted (p'\<lparr>ps_jobs := gdel i (ps_jobs p')\<rparr>)"
proof -
  have held: "\<not> go_sem g" "\<not> go_kind g" "go_gate g = None" "go_keys g = []" "go_done g = None" "\<not> go_queue g"
    and p': "p' = p\<lparr>ps_pending := ps_pending p - 1\<rparr>"
    using un by (auto simp: unwind_def split: if_splits option.splits)
  have h: "holds r g = of_bool (r = RPending)" for r using held ex by (cases r) (auto simp: waits_key_def)
  have "1 \<le> used RPending p" using accounted_used(4) [OF acc g, of RPending] by simp
  then have "used r (p'\<lparr>ps_jobs := gdel i (ps_jobs p')\<rparr>) = used r p - of_bool (r = RPending)" for r
    by (cases r) (auto simp: p')
  moreover have "sum_held (holds r) (gdel i (ps_jobs p)) = sum_held (holds r) (ps_jobs p) - of_bool (r = RPending)" for r
    using acc g by (simp add: sum_held_gdel accounted_def h)
  ultimately show ?thesis using acc by (auto simp: accounted_def p' distinct_gdel gmap_simps)
qed

section \<open>Limits\<close>

definition key_rules :: "worker_pool \<Rightarrow> JobRow \<Rightarrow> KeyConcurrencyLimit list" where
  "key_rules pool row = po_KeyConcurrency (queuePolicy pool (Queue row))"

text \<open>The keys a job of the given row has to hold before it runs.\<close>

definition key_list :: "worker_pool \<Rightarrow> JobRow \<Rightarrow> string list" where
  "key_list pool row = map (\<lambda>(n, rule). key_name row n rule) (indexed (key_rules pool row))"

definition kind_limited :: "'a Registry \<Rightarrow> string \<Rightarrow> bool" where
  "kind_limited reg kind \<longleftrightarrow> (case Registry_Opts reg kind of None \<Rightarrow> False | Some opts \<Rightarrow> 0 < wo_Concurrency opts)"

definition past_kind :: "phase \<Rightarrow> bool" where
  "past_kind ph \<longleftrightarrow> ph = PSem \<or> ph = PPermit \<or> ph = PRun"

text \<open>What a job that has not begun to return must hold.\<close>

definition job_ok :: "worker_pool \<Rightarrow> 'a Registry \<Rightarrow> goroutine \<Rightarrow> bool" where
  "job_ok pool reg g \<longleftrightarrow>
     (go_phase g \<noteq> PExit \<longrightarrow> go_queue g) \<and>
     (past_kind (go_phase g) \<and> kind_limited reg (Kind (go_row g)) \<longrightarrow> go_kind g) \<and>
     (case go_phase g of
        PExit \<Rightarrow> True
      | PPipeline \<Rightarrow> go_keys g = []
      | PLease \<Rightarrow> go_keys g = []
      | PKeys rules n \<Rightarrow> rules = drop n (key_rules pool (go_row g)) \<and> go_keys g = take n (key_list pool (go_row g))
      | PKeyWait key rules n \<Rightarrow> rules = drop (Suc n) (key_rules pool (go_row g)) \<and>
          n < length (key_rules pool (go_row g)) \<and> key = key_list pool (go_row g) ! n \<and>
          go_keys g = take n (key_list pool (go_row g))
      | _ \<Rightarrow> go_keys g = key_list pool (go_row g))"

definition key_rule :: "worker_pool \<Rightarrow> string \<Rightarrow> KeyConcurrencyLimit \<Rightarrow> bool" where
  "key_rule pool key rule \<longleftrightarrow>
     (\<exists>row n. n < length (key_rules pool row) \<and> rule = key_rules pool row ! n \<and> key = key_name row n rule)"

definition limits_ok :: "worker_pool \<Rightarrow> 'a Registry \<Rightarrow> pool_state \<Rightarrow> bool" where
  "limits_ok pool reg p \<longleftrightarrow>
     ps_pending p + (case ps_fetch p of None \<Rightarrow> 0 | Some (free, misses) \<Rightarrow> free) \<le> pending_cap pool \<and>
     int (ps_sem p) \<le> wc_Concurrency (wp_config pool) \<and>
     (\<forall>q. 0 < po_Concurrency (queuePolicy pool q) \<longrightarrow>
        qt_active (queue_state (ps_runtime p) q) \<le> po_Concurrency (queuePolicy pool q)) \<and>
     (\<forall>k sem. gget (ps_kinds p) k = Some sem \<longrightarrow> sm_len sem \<le> sm_cap sem \<and>
        Some (int (sm_cap sem)) = map_option wo_Concurrency (Registry_Opts reg k)) \<and>
     (\<forall>k e. gget (ps_keys p) k = Some e \<longrightarrow> ks_len e \<le> ks_cap e \<and>
        (\<exists>rule. key_rule pool k rule \<and> ks_cap e = nat (kc_Limit rule))) \<and>
     (\<forall>k e. gget (ps_gates p) k = Some e \<longrightarrow> rg_len e \<le> 1) \<and>
     (\<forall>i g. gget (ps_jobs p) i = Some g \<longrightarrow> job_ok pool reg g)"

lemma key_list_nth: "n < length (key_rules pool row) \<Longrightarrow> key_list pool row ! n = key_name row n (key_rules pool row ! n)"
  by (simp add: key_list_def indexed_def)

lemma length_key_list: "length (key_list pool row) = length (key_rules pool row)"
  by (simp add: key_list_def indexed_def)

text \<open>Each operation keeps the limits; acquiring checks them, releasing only lowers counts.\<close>

lemma limits_key_register:
  assumes "limits_ok pool reg p" "key_rule pool key rule"
  shows "limits_ok pool reg (key_register key (nat (kc_Limit rule)) p)"
  using assms by (auto simp: limits_ok_def key_register_def Let_def gmap_simps split: option.splits)

lemma limits_key_drop: "limits_ok pool reg p \<Longrightarrow> limits_ok pool reg (key_drop key p)"
  by (auto simp: limits_ok_def key_drop_def gmap_simps split: option.splits)

lemma limits_key_acquire: "limits_ok pool reg p \<Longrightarrow> key_acquire key p = Some p' \<Longrightarrow> limits_ok pool reg p'"
  by (auto simp: limits_ok_def key_acquire_def gmap_simps split: option.splits if_splits)

lemma limits_key_release: "limits_ok pool reg p \<Longrightarrow> limits_ok pool reg (key_release key p)"
proof (cases "gget (ps_keys p) key")
  case (Some e)
  assume "limits_ok pool reg p"
  with Some have "limits_ok pool reg (p\<lparr>ps_keys := gput key (e\<lparr>ks_len := ks_len e - 1\<rparr>) (ps_keys p)\<rparr>)"
    by (auto simp: limits_ok_def gmap_simps intro: le_trans [OF diff_le_self])
  with Some show ?thesis by (simp add: key_release_def limits_key_drop)
qed (simp add: key_release_def)

lemma limits_gate_register: "limits_ok pool reg p \<Longrightarrow> limits_ok pool reg (gate_register key p)"
  by (auto simp: limits_ok_def gate_register_def Let_def gmap_simps split: option.splits)

lemma limits_gate_drop: "limits_ok pool reg p \<Longrightarrow> limits_ok pool reg (gate_drop key p)"
  by (auto simp: limits_ok_def gate_drop_def gmap_simps split: option.splits)

lemma limits_gate_acquire: "limits_ok pool reg p \<Longrightarrow> gate_acquire key p = Some p' \<Longrightarrow> limits_ok pool reg p'"
  by (auto simp: limits_ok_def gate_acquire_def gmap_simps split: option.splits if_splits)

lemma limits_gate_release: "limits_ok pool reg p \<Longrightarrow> limits_ok pool reg (gate_release key p)"
proof (cases "gget (ps_gates p) key")
  case (Some e)
  assume "limits_ok pool reg p"
  with Some have "limits_ok pool reg (p\<lparr>ps_gates := gput key (e\<lparr>rg_len := rg_len e - 1\<rparr>) (ps_gates p)\<rparr>)"
    by (auto simp: limits_ok_def gmap_simps le_diff_conv)
  with Some show ?thesis by (simp add: gate_release_def limits_gate_drop)
qed (simp add: gate_release_def)

lemma limits_kindSemaphore: "limits_ok pool reg p \<Longrightarrow> kindSemaphore reg k p = (p', r) \<Longrightarrow> limits_ok pool reg p'"
  by (auto simp: limits_ok_def kindSemaphore_def Let_def gmap_simps split: option.splits if_splits)

lemma limits_kind_acquire:
  assumes "limits_ok pool reg p" "gget (ps_kinds p) k = Some sem" "sm_len sem < sm_cap sem"
  shows "limits_ok pool reg (p\<lparr>ps_kinds := gput k (sem\<lparr>sm_len := Suc (sm_len sem)\<rparr>) (ps_kinds p)\<rparr>)"
  using assms by (auto simp: limits_ok_def gmap_simps)

lemma limits_kind_release: "limits_ok pool reg p \<Longrightarrow> limits_ok pool reg (kind_release k p)"
  by (auto simp: limits_ok_def kind_release_def gmap_simps intro: le_trans [OF diff_le_self] split: option.splits)

lemma limits_queueDone: "limits_ok pool reg p \<Longrightarrow> limits_ok pool reg (queueDone q p)"
  by (auto simp: limits_ok_def queueDone_def queue_state_def gmap_simps split: option.splits)

lemma limits_pipelineDone: "limits_ok pool reg p \<Longrightarrow> limits_ok pool reg (pipelineDone q c p)"
  by (auto simp: limits_ok_def pipelineDone_def Let_def)

lemma limits_sem:
  "limits_ok pool reg p \<Longrightarrow> int (ps_sem p) < wc_Concurrency (wp_config pool) \<Longrightarrow> limits_ok pool reg (p\<lparr>ps_sem := Suc (ps_sem p)\<rparr>)"
  "limits_ok pool reg p \<Longrightarrow> limits_ok pool reg (p\<lparr>ps_sem := ps_sem p - 1\<rparr>)"
  "limits_ok pool reg p \<Longrightarrow> limits_ok pool reg (p\<lparr>ps_pending := ps_pending p - 1\<rparr>)"
  by (auto simp: limits_ok_def)

lemma limits_set_job:
  "limits_ok pool reg p \<Longrightarrow> job_ok pool reg g \<Longrightarrow> limits_ok pool reg (set_job i g p)"
  by (auto simp: limits_ok_def set_job_def gmap_simps)

lemma limits_gdel: "limits_ok pool reg p \<Longrightarrow> limits_ok pool reg (p\<lparr>ps_jobs := gdel i (ps_jobs p)\<rparr>)"
  by (auto simp: limits_ok_def gmap_simps)

lemmas limits_ops = limits_key_drop limits_key_release limits_gate_register limits_gate_drop limits_gate_release
  limits_kind_release limits_queueDone limits_pipelineDone limits_sem [unfolded One_nat_def]

lemma advance_limits:
  assumes lim: "limits_ok pool reg p" and ok: "job_ok pool reg g" and adv: "advance pool reg g p = Some (g', p')"
  shows "limits_ok pool reg p'"
proof (cases "go_phase g")
  case (PKeys rules n)
  show ?thesis
  proof (cases rules)
    case (Cons rule rest)
    have r: "rules = drop n (key_rules pool (go_row g))" using ok PKeys by (simp add: job_ok_def)
    then have n: "n < length (key_rules pool (go_row g))" using Cons by (metis drop_all not_le list.distinct(1))
    then have "rule = key_rules pool (go_row g) ! n" using r Cons by (simp add: Cons_nth_drop_Suc [symmetric])
    with n have "key_rule pool (key_name (go_row g) n rule) rule" by (auto simp: key_rule_def)
    from limits_key_register [OF lim this] show ?thesis using adv PKeys Cons by (auto simp: advance_def Let_def)
  qed (use adv PKeys lim in \<open>auto simp: advance_def\<close>)
next
  case (PKeyWait key rules n)
  with adv lim show ?thesis by (auto simp: advance_def intro: limits_key_acquire)
next
  case PGate
  with adv lim show ?thesis by (auto simp: advance_def Let_def intro: limits_gate_register split: if_splits)
next
  case (PGateWait key)
  with adv lim show ?thesis by (auto simp: advance_def intro: limits_gate_acquire)
next
  case PKind
  obtain p1 ms where k: "kindSemaphore reg (Kind (go_row g)) p = (p1, ms)" by force
  have l1: "limits_ok pool reg p1" using limits_kindSemaphore [OF lim k] .
  show ?thesis
  proof (cases ms)
    case (Some sem)
    have "gget (ps_kinds p1) (Kind (go_row g)) = Some sem" using used_kindSemaphore(2) k Some by blast
    from limits_kind_acquire [OF l1 this] show ?thesis using adv PKind k Some by (auto simp: advance_def split: if_splits)
  qed (use adv PKind k l1 in \<open>auto simp: advance_def\<close>)
next
  case PSem
  with adv lim show ?thesis by (auto simp: advance_def intro: limits_sem split: if_splits)
next
  case PPermit
  with adv lim show ?thesis by (auto simp: advance_def intro: limits_gate_release split: option.splits)
qed (use adv lim in \<open>auto simp: advance_def split: option.splits if_splits\<close>)

lemma advance_job_ok:
  assumes ok: "job_ok pool reg g" and adv: "advance pool reg g p = Some (g', p')"
  shows "job_ok pool reg g'"
proof (cases "go_phase g")
  case (PKeys rules n)
  show ?thesis
  proof (cases rules)
    case Nil
    with ok PKeys have "length (key_rules pool (go_row g)) \<le> n" by (simp add: job_ok_def)
    with ok adv PKeys Nil show ?thesis by (auto simp: advance_def job_ok_def past_kind_def length_key_list)
  next
    case (Cons rule rest)
    have r: "rules = drop n (key_rules pool (go_row g))" using ok PKeys by (simp add: job_ok_def)
    then have n: "n < length (key_rules pool (go_row g))" using Cons by (metis drop_all not_le list.distinct(1))
    then have "rule = key_rules pool (go_row g) ! n" "rest = drop (Suc n) (key_rules pool (go_row g))"
      using r Cons by (simp_all add: Cons_nth_drop_Suc [symmetric])
    moreover have "g' = g\<lparr>go_phase := PKeyWait (key_name (go_row g) n rule) rest n\<rparr>"
      using adv PKeys Cons by (simp add: advance_def Let_def)
    ultimately show ?thesis using ok PKeys n by (simp add: job_ok_def past_kind_def key_list_nth)
  qed
next
  case (PKeyWait key rules n)
  with ok have "n < length (key_list pool (go_row g))" by (simp add: job_ok_def length_key_list)
  with PKeyWait ok adv show ?thesis by (auto simp: advance_def job_ok_def past_kind_def take_Suc_conv_app_nth)
next
  case PKind
  with ok adv show ?thesis
    by (auto simp: advance_def job_ok_def past_kind_def kindSemaphore_def kind_limited_def Let_def
        split: option.splits if_splits prod.splits)
next
  case PGate
  with ok adv show ?thesis by (auto simp: advance_def job_ok_def past_kind_def Let_def split: if_splits)
next
  case PLease
  with ok adv show ?thesis by (auto simp: advance_def job_ok_def past_kind_def key_rules_def)
qed (use ok adv in \<open>auto simp: advance_def job_ok_def past_kind_def split: option.splits if_splits\<close>)

lemma abandon_limits:
  assumes "limits_ok pool reg p" "abandon g p = (g', p')"
  shows "limits_ok pool reg p'" "job_ok pool reg g'"
  using assms by (auto simp: abandon_def job_ok_def past_kind_def intro: limits_ops split: phase.splits)

lemma unwind_limits:
  assumes "limits_ok pool reg p" "go_phase g = PExit" "unwind g p = (mg, p')"
  shows "limits_ok pool reg p'" "mg = Some g' \<Longrightarrow> job_ok pool reg g'"
proof -
  show "limits_ok pool reg p'"
    using assms by (auto simp: unwind_def intro: limits_ops split: option.splits if_splits)
  show "mg = Some g' \<Longrightarrow> job_ok pool reg g'"
    using assms by (auto simp: unwind_def job_ok_def past_kind_def split: option.splits if_splits)
qed


section \<open>Every action keeps the books and the limits\<close>

lemma used_queueCanClaim: "used r (fst (queueCanClaim pool queue p)) = used r p"
  by (cases r) (auto simp: queueCanClaim_def Let_def queue_state_def gmap_simps)

lemma queueCanClaim_frame [simp]:
  "ps_jobs (fst (queueCanClaim pool queue p)) = ps_jobs p" "ps_next (fst (queueCanClaim pool queue p)) = ps_next p"
  "ps_fetch (fst (queueCanClaim pool queue p)) = ps_fetch p" "ps_sem (fst (queueCanClaim pool queue p)) = ps_sem p"
  "ps_kinds (fst (queueCanClaim pool queue p)) = ps_kinds p" "ps_keys (fst (queueCanClaim pool queue p)) = ps_keys p"
  "ps_gates (fst (queueCanClaim pool queue p)) = ps_gates p" "ps_tails (fst (queueCanClaim pool queue p)) = ps_tails p"
  "ps_chans (fst (queueCanClaim pool queue p)) = ps_chans p" "ps_closed (fst (queueCanClaim pool queue p)) = ps_closed p"
  by (simp_all add: queueCanClaim_def Let_def)

text \<open>The pool after a round: the queue it looked at, and the job it started there, if any.\<close>

definition looked :: "worker_pool \<Rightarrow> string \<Rightarrow> pool_state \<Rightarrow> pool_state" where
  "looked pool queue p = fst (queueCanClaim pool queue (p\<lparr>ps_cursor := ps_cursor p + 1\<rparr>))"

definition started :: "worker_pool \<Rightarrow> JobRow \<Rightarrow> pool_state \<Rightarrow> pool_state" where
  "started pool row p = start_job row (queueClaimed (Queue row) (looked pool (Queue row) p))"

context claim_store
begin

lemma dispatch_iter_forms:
  assumes "dispatch_iter pool fetch now (free, misses) (p, s) = Some ((free', misses'), (p', s'), errs)"
  shows "(free' = free \<and> (\<exists>queue. p' = looked pool queue p)) \<or>
    (free' = free - 1 \<and> (\<exists>row. \<not> at_limit pool (Queue row) p \<and> p' = started pool row p))"
proof -
  obtain index where idx: "schedule_index (ps_cursor p) (length (wp_schedule pool)) = Some index"
    using assms by (auto simp: dispatch_iter_def split: option.splits)
  let ?queue = "wp_schedule pool ! index"
  show ?thesis
  proof (cases "at_limit pool ?queue p")
    case True
    with assms idx show ?thesis
      by (auto simp: dispatch_iter_def Let_def queueCanClaim_simps case_prod_beta looked_def)
  next
    case False
    obtain s1 r where f: "fetch now (fetch_params pool ?queue) s = (s1, r)" by force
    show ?thesis
    proof (cases r)
      case (Inl e)
      with assms idx False f show ?thesis
        by (auto simp: dispatch_iter_def Let_def queueCanClaim_simps case_prod_beta looked_def)
    next
      case (Inr rows)
      show ?thesis
      proof (cases "rows = []")
        case True
        with assms idx False f Inr show ?thesis
          by (auto simp: dispatch_iter_def Let_def queueCanClaim_simps case_prod_beta looked_def)
      next
        case more: False
        from fetch_one [OF f [unfolded Inr] more] obtain row where row: "rows = [row]" "Queue row = ?queue" by blast
        with assms idx False f Inr have "free' = free - 1 \<and> p' = started pool row p"
          by (auto simp: dispatch_iter_def Let_def queueCanClaim_simps case_prod_beta looked_def started_def sort_slice_single)
        with False row(2) show ?thesis by metis
      qed
    qed
  qed
qed

end

lemma used_looked: "used r (looked pool queue p) = used r p"
proof -
  have "used r (p\<lparr>ps_cursor := ps_cursor p + 1\<rparr>) = used r p" by (cases r) simp_all
  then show ?thesis by (simp add: looked_def used_queueCanClaim)
qed

lemma used_started: "used r (started pool row p) = used r p + of_bool (r = RPending) + of_bool (r = RQueue (Queue row))"
proof -
  have claimed: "used r (queueClaimed q p) = used r p + of_bool (r = RQueue q)" for q p
    by (cases r) (auto simp: queueClaimed_def queue_state_def Let_def gmap_simps)
  have "used r (start_job row p) = used r p + of_bool (r = RPending)" for p
    by (cases r) (auto simp: start_job_def pipelineGate_def Let_def)
  then show ?thesis by (simp add: started_def claimed used_looked)
qed

lemma looked_frame [simp]:
  "ps_jobs (looked pool queue p) = ps_jobs p" "ps_next (looked pool queue p) = ps_next p"
  "ps_fetch (looked pool queue p) = ps_fetch p" "ps_sem (looked pool queue p) = ps_sem p"
  "ps_kinds (looked pool queue p) = ps_kinds p" "ps_keys (looked pool queue p) = ps_keys p"
  "ps_gates (looked pool queue p) = ps_gates p" "ps_pending (looked pool queue p) = ps_pending p"
  "ps_tails (looked pool queue p) = ps_tails p" "ps_chans (looked pool queue p) = ps_chans p"
  "ps_closed (looked pool queue p) = ps_closed p"
  by (simp_all add: looked_def queueCanClaim_simps)

text \<open>The channel to wait for and the channel to close of a job about to start.\<close>

definition new_job :: "JobRow \<Rightarrow> pool_state \<Rightarrow> goroutine" where
  "new_job row p =
     (if PipelineID row = [] then new_goroutine row None None
      else new_goroutine row (gget (ps_tails p) (PipelineID row)) (Some (ps_chans p)))"

lemma started_frame [simp]:
  "ps_next (started pool row p) = Suc (ps_next p)" "ps_jobs (started pool row p) = gput (ps_next p) (new_job row p) (ps_jobs p)"
  "ps_fetch (started pool row p) = ps_fetch p" "ps_sem (started pool row p) = ps_sem p"
  "ps_kinds (started pool row p) = ps_kinds p" "ps_keys (started pool row p) = ps_keys p"
  "ps_gates (started pool row p) = ps_gates p" "ps_pending (started pool row p) = Suc (ps_pending p)"
  "ps_closed (started pool row p) = ps_closed p"
  "ps_chans (started pool row p) = (if PipelineID row = [] then ps_chans p else Suc (ps_chans p))"
  "ps_tails (started pool row p) =
     (if PipelineID row = [] then ps_tails p else gput (PipelineID row) (ps_chans p) (ps_tails p))"
  by (simp_all add: started_def start_job_def pipelineGate_def queueClaimed_def new_job_def Let_def)

lemma accounted_looked: "accounted p \<Longrightarrow> accounted (looked pool queue p)"
  by (simp add: accounted_def used_looked)

lemma accounted_started:
  assumes "accounted p"
  shows "accounted (started pool row p)"
proof -
  have fresh: "gget (ps_jobs p) (ps_next p) = None"
    using assms by (meson accounted_def less_irrefl not_None_eq)
  have h: "holds r (new_job row p) = of_bool (r = RPending) + of_bool (r = RQueue (Queue row))" for r
    by (cases r) (auto simp: new_job_def new_goroutine_def waits_key_def)
  have ok: "phase_ok (new_job row p)" by (simp add: new_job_def new_goroutine_def phase_ok_def)
  have "used r (started pool row p) = sum_held (holds r) (gput (ps_next p) (new_job row p) (ps_jobs p))" for r
    using assms fresh by (simp add: used_started h sum_held_gput accounted_def)
  then show ?thesis
    using assms ok by (auto simp: accounted_def distinct_gput gmap_simps intro: less_SucI)
qed

lemma limits_looked: "limits_ok pool reg p \<Longrightarrow> limits_ok pool reg (looked pool queue p)"
  using used_looked [of "RQueue q" for q] by (simp add: limits_ok_def)

lemma limits_started:
  assumes lim: "limits_ok pool reg p" and can: "\<not> at_limit pool (Queue row) p"
    and free: "ps_fetch p = Some (free, misses)" "0 < free"
  shows "limits_ok pool reg ((started pool row p)\<lparr>ps_fetch := Some (free - 1, misses')\<rparr>)"
proof -
  have "job_ok pool reg (new_job row p)" by (simp add: job_ok_def new_job_def new_goroutine_def past_kind_def)
  moreover have "qt_active (queue_state (ps_runtime (started pool row p)) q) =
      qt_active (queue_state (ps_runtime p) q) + of_bool (q = Queue row)" for q
    using used_started [of "RQueue q" pool row p] by simp
  ultimately show ?thesis using assms by (auto simp: limits_ok_def at_limit_def gmap_simps)
qed

definition in_order :: "worker_pool \<Rightarrow> 'a Registry \<Rightarrow> pool_state \<Rightarrow> bool" where
  "in_order pool reg p \<longleftrightarrow> accounted p \<and> limits_ok pool reg p"

lemma in_order_fresh: "0 \<le> wc_Concurrency (wp_config pool) \<Longrightarrow> in_order pool reg new_pool_state"
proof -
  have "used r new_pool_state = 0" for r
    by (cases r) (simp_all add: new_pool_state_def queue_state_def fresh_queue_def)
  then have "accounted new_pool_state" by (simp add: accounted_def sum_held_def) (simp add: new_pool_state_def)
  then show "0 \<le> wc_Concurrency (wp_config pool) \<Longrightarrow> ?thesis"
    by (simp add: in_order_def limits_ok_def new_pool_state_def queue_state_def fresh_queue_def)
qed

lemma in_order_rates:
  assumes "in_order pool reg p" "same_active (ps_runtime p) rt"
  shows "in_order pool reg (p\<lparr>ps_runtime := rt\<rparr>)"
proof -
  have "used r (p\<lparr>ps_runtime := rt\<rparr>) = used r p" for r using assms(2) by (cases r) (simp_all add: same_active_iff)
  with assms show ?thesis by (simp add: in_order_def accounted_def limits_ok_def same_active_iff)
qed

lemma accounted_frame:
  assumes "accounted p" "ps_jobs p' = ps_jobs p" "ps_next p' = ps_next p" "\<And>r. used r p' = used r p"
  shows "accounted p'"
  using assms by (simp add: accounted_def)

lemma in_order_advance:
  assumes ord: "in_order pool reg p" and g: "gget (ps_jobs p) i = Some g" and adv: "advance pool reg g p = Some (g', p')"
  shows "in_order pool reg (set_job i g' p')"
proof -
  have acc: "accounted p" and lim: "limits_ok pool reg p" using ord by (simp_all add: in_order_def)
  have job: "job_ok pool reg g" "phase_ok g" using lim acc g by (auto simp: limits_ok_def accounted_def)
  note bal = advance_balance [OF acc g adv]
  have "accounted (set_job i g' p')"
    by (rule accounted_set_job [OF acc g]) (use bal advance_phase_ok [OF job(2) adv] in auto)
  moreover have "limits_ok pool reg (set_job i g' p')"
    using limits_set_job [OF advance_limits [OF lim job(1) adv] advance_job_ok [OF job(1) adv]] .
  ultimately show ?thesis by (simp add: in_order_def)
qed

lemma in_order_abandon:
  assumes ord: "in_order pool reg p" and g: "gget (ps_jobs p) i = Some g" and ab: "abandon g p = (g', p')"
  shows "in_order pool reg (set_job i g' p')"
proof -
  have acc: "accounted p" and lim: "limits_ok pool reg p" using ord by (simp_all add: in_order_def)
  have "phase_ok g'" using ab by (auto simp: abandon_def phase_ok_def)
  then have "accounted (set_job i g' p')"
    by (intro accounted_set_job [OF acc g]) (use abandon_balance [OF acc g ab] in auto)
  with limits_set_job [OF abandon_limits [OF lim ab]] show ?thesis by (simp add: in_order_def)
qed

lemma in_order_unwind:
  assumes ord: "in_order pool reg p" and g: "gget (ps_jobs p) i = Some g" and ex: "go_phase g = PExit"
  shows "unwind g p = (Some g', p') \<Longrightarrow> in_order pool reg (set_job i g' p')"
    and "unwind g p = (None, p') \<Longrightarrow> in_order pool reg (p'\<lparr>ps_jobs := gdel i (ps_jobs p')\<rparr>)"
proof -
  have acc: "accounted p" and lim: "limits_ok pool reg p" using ord by (simp_all add: in_order_def)
  show "in_order pool reg (set_job i g' p')" if un: "unwind g p = (Some g', p')"
  proof -
    note bal = unwind_balance [OF acc g ex un]
    have "phase_ok g'" using bal by (simp add: phase_ok_def)
    then have "accounted (set_job i g' p')" by (intro accounted_set_job [OF acc g]) (use bal in auto)
    with limits_set_job [OF unwind_limits(1) [OF lim ex un] unwind_limits(2) [OF lim ex un HOL.refl]]
    show ?thesis by (simp add: in_order_def)
  qed
  show "in_order pool reg (p'\<lparr>ps_jobs := gdel i (ps_jobs p')\<rparr>)" if un: "unwind g p = (None, p')"
    using unwind_end [OF acc g ex un] limits_gdel [OF unwind_limits(1) [OF lim ex un]] by (simp add: in_order_def)
qed

lemma used_fetch [simp]: "used r (p\<lparr>ps_fetch := f\<rparr>) = used r p"
  by (cases r) simp_all

context claim_store
begin

lemma in_order_round:
  assumes "in_order pool reg p" "ps_fetch p = Some (free, misses)" "0 < free"
    and "dispatch_iter pool fetch now (free, misses) (p, s) = Some ((free', misses'), (p', s'), errs)"
  shows "in_order pool reg (p'\<lparr>ps_fetch := Some (free', misses')\<rparr>)"
  using dispatch_iter_forms [OF assms(4)]
proof (elim disjE conjE exE)
  fix queue assume p': "p' = looked pool queue p" "free' = free"
  have "limits_ok pool reg p'" "accounted p'" "ps_fetch p' = Some (free, misses)"
    using assms(1,2) by (simp_all add: in_order_def p' limits_looked accounted_looked)
  with p' show ?thesis by (simp add: in_order_def limits_ok_def accounted_def)
next
  fix row assume r: "\<not> at_limit pool (Queue row) p" "p' = started pool row p" "free' = free - 1"
  have "accounted p'" using assms(1) by (simp add: in_order_def r(2) accounted_started)
  then have "accounted (p'\<lparr>ps_fetch := Some (free', misses')\<rparr>)" by (rule accounted_frame) simp_all
  moreover have "limits_ok pool reg (p'\<lparr>ps_fetch := Some (free', misses')\<rparr>)"
    unfolding r(2,3) by (rule limits_started [OF _ r(1) assms(2,3)]) (use assms(1) in \<open>simp add: in_order_def\<close>)
  ultimately show ?thesis by (simp add: in_order_def)
qed

lemma in_order_act:
  assumes ord: "in_order pool reg (fst ps)" and act: "pool_act pool reg fetch patient a ps = Some ps'"
  shows "in_order pool reg (fst ps')"
proof (cases ps)
  case (Pair p s)
  have frame: "in_order pool reg (p\<lparr>ps_fetch := f\<rparr>)"
    if "ps_pending p + (case f of None \<Rightarrow> 0 | Some (free, misses) \<Rightarrow> free) \<le> pending_cap pool" for f
    using ord that by (simp add: Pair in_order_def accounted_def limits_ok_def)
  have pend: "ps_pending p \<le> pending_cap pool"
    using ord by (auto simp: Pair in_order_def limits_ok_def split: option.splits)
  show ?thesis
  proof (cases a)
    case BeginFetch
    with act frame [of "Some (pending_cap pool - ps_pending p, 0)"] pend show ?thesis
      by (auto simp: Pair split: if_splits)
  next
    case (FetchRound now)
    with act Pair obtain free misses free' misses' p' s' errs where
      "ps_fetch p = Some (free, misses)" "0 < free"
      "dispatch_iter pool fetch now (free, misses) (p, s) = Some ((free', misses'), (p', s'), errs)"
      "ps' = (p'\<lparr>ps_fetch := Some (free', misses')\<rparr>, s')" by (auto split: option.splits if_splits)
    with in_order_round ord Pair show ?thesis by (metis fst_conv)
  next
    case EndFetch
    with act frame [of None] pend show ?thesis by (auto simp: Pair split: option.splits if_splits)
  next
    case (Advance i)
    with act Pair ord show ?thesis by (auto split: option.splits intro: in_order_advance)
  next
    case (Abandon i)
    with act Pair ord show ?thesis by (auto split: option.splits if_splits prod.splits intro: in_order_abandon)
  next
    case (Unwind i)
    with act Pair ord show ?thesis
      by (auto split: option.splits if_splits prod.splits intro: in_order_unwind)
  next
    case (RatesMove rt)
    with act Pair ord show ?thesis by (auto split: if_splits intro: in_order_rates)
  next
    case (StoreMoves s')
    with act Pair ord show ?thesis by auto
  next
    case Shutdown
    have "used r (pool_Shutdown p) = used r p" for r by (cases r) (simp_all add: pool_Shutdown_def)
    with act Pair ord Shutdown show ?thesis
      by (auto simp: in_order_def limits_ok_def accounted_def pool_Shutdown_def split: if_splits)
  qed
qed

lemma in_order_reachable:
  assumes "pool_reachable pool reg fetch patient ps" "0 \<le> wc_Concurrency (wp_config pool)"
  shows "in_order pool reg (fst ps)"
  using assms(1)
proof (induction rule: pool_reachable.induct)
  case (fresh s)
  show ?case using in_order_fresh [OF assms(2)] by simp
next
  case (moves ps a ps')
  then show ?case using in_order_act by blast
qed

end

section \<open>The limits of the jobs that run\<close>

definition running :: "(goroutine \<Rightarrow> bool) \<Rightarrow> pool_state \<Rightarrow> nat" where
  "running P p = length (filter (\<lambda>g. go_phase g = PRun \<and> P g) (gvals (ps_jobs p)))"

definition unfinished :: "string \<Rightarrow> pool_state \<Rightarrow> nat" where
  "unfinished q p = length (filter (\<lambda>g. go_phase g \<noteq> PExit \<and> Queue (go_row g) = q) (gvals (ps_jobs p)))"

text \<open>Jobs that hold a unit of a resource are counted by it.\<close>

lemma filter_le_used:
  assumes "accounted p" "\<And>g. g \<in> set (gvals (ps_jobs p)) \<Longrightarrow> P g \<Longrightarrow> 1 \<le> holds r g"
  shows "int (length (filter P (gvals (ps_jobs p)))) \<le> used r p"
proof -
  have "int (length (filter P gs)) \<le> sum_list (map (holds r) gs)" if "\<And>g. g \<in> set gs \<Longrightarrow> P g \<Longrightarrow> 1 \<le> holds r g" for gs
    using that
  proof (induction gs)
    case (Cons g gs)
    have "int (length (filter P gs)) \<le> sum_list (map (holds r) gs)" using Cons by simp
    moreover have "int (length (filter P [g])) \<le> holds r g" using Cons.prems [of g] holds_nonneg [of r g] by simp
    ultimately show ?case by (auto split: if_splits)
  qed simp
  from this [of "gvals (ps_jobs p)"] assms show ?thesis by (simp add: accounted_def sum_held_def)
qed

lemma in_order_job:
  assumes "in_order pool reg p" "g \<in> set (gvals (ps_jobs p))"
  shows "job_ok pool reg g" "phase_ok g"
proof -
  obtain i where "(i, g) \<in> set (ps_jobs p)" using assms(2) by auto
  moreover have "distinct (gkeys (ps_jobs p))" using assms(1) by (simp add: in_order_def accounted_def)
  ultimately have "gget (ps_jobs p) i = Some g" by (simp add: map_of_is_SomeI)
  with assms(1) show "job_ok pool reg g" "phase_ok g" by (auto simp: in_order_def limits_ok_def accounted_def)
qed

text \<open>A key names its queue, the position of its rule and the value, when queue names have no zero byte.\<close>

lemma key_name_inject:
  assumes "key_name row n rule = key_name row' n' rule'" "CHR 0x00 \<notin> set (Queue row)" "CHR 0x00 \<notin> set (Queue row')"
  shows "Queue row = Queue row' \<and> n = n'"
proof -
  have zero: "CHR 0x00 \<notin> set (nat_to_dec m)" for m
    using nat_to_dec_digits [of m] by (auto simp: list_all_iff is_digit_def)
  have split: "us = vs \<and> xs = ys" if "us @ CHR 0x00 # xs = vs @ CHR 0x00 # ys" "CHR 0x00 \<notin> set us" "CHR 0x00 \<notin> set vs"
    for us vs xs ys :: string
  proof -
    have cut: "takeWhile (\<lambda>c. c \<noteq> CHR 0x00) (ws @ CHR 0x00 # zs) = ws" if "CHR 0x00 \<notin> set ws" for ws zs :: string
      using that by (induction ws) auto
    have "us = vs" using cut [OF that(2), of xs] cut [OF that(3), of ys] that(1) by simp
    with that(1) show ?thesis by simp
  qed
  have "Queue row @ CHR 0x00 # nat_to_dec n @ CHR 0x00 # rateLimitKeyValue (kc_Key rule) (kc_TagPrefix rule) row =
      Queue row' @ CHR 0x00 # nat_to_dec n' @ CHR 0x00 # rateLimitKeyValue (kc_Key rule') (kc_TagPrefix rule') row'"
    using assms(1) by (simp add: key_name_def)
  from split [OF this assms(2,3)] have q: "Queue row = Queue row'"
    and rest: "nat_to_dec n @ CHR 0x00 # rateLimitKeyValue (kc_Key rule) (kc_TagPrefix rule) row =
      nat_to_dec n' @ CHR 0x00 # rateLimitKeyValue (kc_Key rule') (kc_TagPrefix rule') row'" by simp_all
  from split [OF rest zero zero] q show ?thesis by simp
qed

lemma limits_okD:
  assumes "limits_ok pool reg p"
  shows "ps_pending p \<le> pending_cap pool" "int (ps_sem p) \<le> wc_Concurrency (wp_config pool)"
    and "0 < po_Concurrency (queuePolicy pool q) \<Longrightarrow>
      qt_active (queue_state (ps_runtime p) q) \<le> po_Concurrency (queuePolicy pool q)"
    and "gget (ps_kinds p) k = Some sem \<Longrightarrow> sm_len sem \<le> sm_cap sem \<and>
      Some (int (sm_cap sem)) = map_option wo_Concurrency (Registry_Opts reg k)"
    and "gget (ps_keys p) k = Some e \<Longrightarrow> ks_len e \<le> ks_cap e \<and>
      (\<exists>rule. key_rule pool k rule \<and> ks_cap e = nat (kc_Limit rule))"
  using assms by (simp_all add: limits_ok_def split: option.splits)

lemma key_holders_le:
  assumes ord: "in_order pool reg p" and n: "n < length (key_rules pool row)" "rule = key_rules pool row ! n"
    and names: "\<And>q. po_KeyConcurrency (queuePolicy pool q) \<noteq> [] \<Longrightarrow> CHR 0x00 \<notin> set q"
  shows "running (\<lambda>g. key_name row n rule \<in> set (go_keys g)) p \<le> nat (kc_Limit rule)"
proof -
  let ?key = "key_name row n rule"
  have cap: "ks_len e \<le> nat (kc_Limit rule)" if e: "gget (ps_keys p) ?key = Some e" for e
  proof -
    obtain rule' where r': "key_rule pool ?key rule'" "ks_cap e = nat (kc_Limit rule')" "ks_len e \<le> ks_cap e"
      using ord limits_okD(5) [OF _ e] by (metis in_order_def)
    from r'(1) obtain row' n' where w: "n' < length (key_rules pool row')" "rule' = key_rules pool row' ! n'"
      "?key = key_name row' n' rule'" by (auto simp: key_rule_def)
    have "Queue row = Queue row' \<and> n = n'"
      using key_name_inject [OF w(3)] names n(1) w(1) by (force simp: key_rules_def)
    with w n(2) have "rule' = rule" by (simp add: key_rules_def)
    with r' show ?thesis by simp
  qed
  have "int (running (\<lambda>g. ?key \<in> set (go_keys g)) p) \<le> used (RKeyLen ?key) p"
    unfolding running_def
    by (rule filter_le_used) (use ord in \<open>auto simp: in_order_def Suc_le_eq neq0_conv [symmetric] count_list_0_iff simp del: neq0_conv\<close>)
  also have "\<dots> \<le> int (nat (kc_Limit rule))" using cap by (auto split: option.splits)
  finally show ?thesis by (simp only: of_nat_le_iff)
qed

lemma limits_of_in_order:
  assumes ord: "in_order pool reg p"
  shows "length (gvals (ps_jobs p)) \<le> pending_cap pool"
    and "int (running (\<lambda>g. True) p) \<le> wc_Concurrency (wp_config pool)"
    and "0 < po_Concurrency (queuePolicy pool q) \<Longrightarrow> int (unfinished q p) \<le> po_Concurrency (queuePolicy pool q)"
    and "Registry_Opts reg k = Some opts \<Longrightarrow> 0 < wo_Concurrency opts \<Longrightarrow>
      int (running (\<lambda>g. Kind (go_row g) = k) p) \<le> wo_Concurrency opts"
proof -
  have acc: "accounted p" and lim: "limits_ok pool reg p" using ord by (simp_all add: in_order_def)
  note count = filter_le_used [OF acc]
  show "length (gvals (ps_jobs p)) \<le> pending_cap pool"
    using count [of "\<lambda>g. True" RPending] limits_okD(1) [OF lim] by simp
  show "int (running (\<lambda>g. True) p) \<le> wc_Concurrency (wp_config pool)"
  proof -
    have "int (running (\<lambda>g. True) p) \<le> used RSem p"
      unfolding running_def by (rule count) (use in_order_job(2) [OF ord] in \<open>force simp: phase_ok_def\<close>)
    with limits_okD(2) [OF lim] show ?thesis by simp
  qed
  show "int (unfinished q p) \<le> po_Concurrency (queuePolicy pool q)" if "0 < po_Concurrency (queuePolicy pool q)"
  proof -
    have "int (unfinished q p) \<le> used (RQueue q) p"
      unfolding unfinished_def by (rule count) (use in_order_job(1) [OF ord] in \<open>auto simp: job_ok_def\<close>)
    with limits_okD(3) [OF lim that] show ?thesis by simp
  qed
  show "int (running (\<lambda>g. Kind (go_row g) = k) p) \<le> wo_Concurrency opts"
    if o: "Registry_Opts reg k = Some opts" "0 < wo_Concurrency opts"
  proof -
    have "int (running (\<lambda>g. Kind (go_row g) = k) p) \<le> used (RKind k) p"
      unfolding running_def
      by (rule count) (use in_order_job(1) [OF ord] o in \<open>auto simp: job_ok_def past_kind_def kind_limited_def\<close>)
    also have "\<dots> \<le> wo_Concurrency opts"
      using limits_okD(4) [OF lim, of k] o by (fastforce split: option.splits)
    finally show ?thesis .
  qed
qed

lemma running_mono:
  assumes "\<And>g. g \<in> set (gvals (ps_jobs p)) \<Longrightarrow> go_phase g = PRun \<Longrightarrow> P g \<Longrightarrow> Q g"
  shows "running P p \<le> running Q p"
proof -
  have "length (filter P' gs) \<le> length (filter Q' gs)" if "\<And>g. g \<in> set gs \<Longrightarrow> P' g \<Longrightarrow> Q' g" for P' Q' and gs :: "goroutine list"
    using that by (induction gs) auto
  from this [of "gvals (ps_jobs p)" "\<lambda>g. go_phase g = PRun \<and> P g" "\<lambda>g. go_phase g = PRun \<and> Q g"] assms
  show ?thesis unfolding running_def by blast
qed

text \<open>
  Claim C9: the limits of a worker pool hold in every state it can reach, whatever the
  interleaving of its goroutines, of abandoned waits and of changes in the store: at most
  \<^verbatim>\<open>MaxPending\<close> jobs are in flight, at most \<^verbatim>\<open>Concurrency\<close> are in a handler, a queue with a
  concurrency policy has at most that many jobs that have not begun to return, a kind registered
  with a concurrency limit has at most that many in handlers, and of the jobs of a queue with the
  same value for the key of a key-concurrency rule at most \<^verbatim>\<open>Limit\<close> are in handlers.
\<close>

theorem pool_limits_respected:
  assumes "pool_reachable pool reg mem_fetch patient (p, d)" "0 \<le> wc_Concurrency (wp_config pool)"
    and "\<And>q. po_KeyConcurrency (queuePolicy pool q) \<noteq> [] \<Longrightarrow> CHR 0x00 \<notin> set q"
  shows "length (gvals (ps_jobs p)) \<le> pending_cap pool \<and>
    int (running (\<lambda>g. True) p) \<le> wc_Concurrency (wp_config pool) \<and>
    (\<forall>q. 0 < po_Concurrency (queuePolicy pool q) \<longrightarrow> int (unfinished q p) \<le> po_Concurrency (queuePolicy pool q)) \<and>
    (\<forall>k opts. Registry_Opts reg k = Some opts \<and> 0 < wo_Concurrency opts \<longrightarrow>
       int (running (\<lambda>g. Kind (go_row g) = k) p) \<le> wo_Concurrency opts) \<and>
    (\<forall>q rule v. rule \<in> set (po_KeyConcurrency (queuePolicy pool q)) \<longrightarrow>
       running (\<lambda>g. Queue (go_row g) = q \<and> rateLimitKeyValue (kc_Key rule) (kc_TagPrefix rule) (go_row g) = v) p
         \<le> nat (kc_Limit rule))"
proof -
  have ord: "in_order pool reg p" using mem_claims.in_order_reachable [OF assms(1,2)] by simp
  have keys: "running (\<lambda>g. Queue (go_row g) = q \<and> rateLimitKeyValue (kc_Key rule) (kc_TagPrefix rule) (go_row g) = v) p
      \<le> nat (kc_Limit rule)" (is "running ?P p \<le> _") if r: "rule \<in> set (po_KeyConcurrency (queuePolicy pool q))" for q rule v
  proof (cases "\<exists>g\<in>set (gvals (ps_jobs p)). ?P g")
    case False
    then have "running ?P p = 0" by (auto simp: running_def filter_empty_conv)
    then show ?thesis by simp
  next
    case True
    then obtain g0 where g0: "?P g0" by blast
    let ?row = "go_row g0"
    obtain n where n: "n < length (key_rules pool ?row)" "rule = key_rules pool ?row ! n"
      using r g0 by (auto simp: key_rules_def in_set_conv_nth)
    have held: "key_name ?row n rule \<in> set (go_keys g)"
      if g: "g \<in> set (gvals (ps_jobs p))" "go_phase g = PRun" "?P g" for g
    proof -
      have same: "key_rules pool (go_row g) = key_rules pool ?row" using g(3) g0 by (simp add: key_rules_def)
      have "go_keys g = key_list pool (go_row g)" using in_order_job(1) [OF ord g(1)] g(2) by (simp add: job_ok_def)
      moreover have "key_list pool (go_row g) ! n = key_name ?row n rule"
        using n g(3) g0 by (simp add: key_list_nth same) (simp add: key_name_def)
      moreover have "n < length (key_list pool (go_row g))" using n(1) by (simp add: length_key_list same)
      ultimately show ?thesis by (metis nth_mem)
    qed
    have "running ?P p \<le> running (\<lambda>g. key_name ?row n rule \<in> set (go_keys g)) p" by (rule running_mono) (rule held)
    also have "\<dots> \<le> nat (kc_Limit rule)" by (rule key_holders_le [OF ord n assms(3)])
    finally show ?thesis .
  qed
  from limits_of_in_order [OF ord] keys show ?thesis by blast
qed

section \<open>Witness\<close>

text \<open>A registry with a limit of one job of the kind, and a run that takes one job into its handler.\<close>

definition one_at_a_time :: "string Registry" where
  "one_at_a_time = [(''k'', sample_entry\<lparr>we_opts := (we_opts sample_entry)\<lparr>wo_Concurrency := 1\<rparr>\<rparr>)]"

definition sample_run :: "mem action list" where
  "sample_run = [BeginFetch, FetchRound 2000, FetchRound 2000] @ replicate 7 (Advance 0) @ replicate 4 (Advance 1)"

theorem pool_limits_respected_witness:
  "\<exists>p d. pool_run sample_pool one_at_a_time mem_fetch False sample_run (new_pool_state, sample_mem) = Some (p, d) \<and>
     length (gvals (ps_jobs p)) = 2 \<and> running (\<lambda>g. Kind (go_row g) = ''k'') p = 1 \<and>
     length (gvals (ps_jobs p)) \<le> pending_cap sample_pool \<and>
     int (running (\<lambda>g. Kind (go_row g) = ''k'') p) \<le> 1"
proof -
  have run: "pool_run sample_pool one_at_a_time mem_fetch False sample_run (new_pool_state, sample_mem) \<noteq> None \<and>
    (case pool_run sample_pool one_at_a_time mem_fetch False sample_run (new_pool_state, sample_mem) of None \<Rightarrow> False
     | Some (p, d) \<Rightarrow> length (gvals (ps_jobs p)) = 2 \<and> running (\<lambda>g. Kind (go_row g) = ''k'') p = 1)"
    by code_simp
  then obtain p d where pd: "pool_run sample_pool one_at_a_time mem_fetch False sample_run (new_pool_state, sample_mem) = Some (p, d)"
    and here: "length (gvals (ps_jobs p)) = 2" "running (\<lambda>g. Kind (go_row g) = ''k'') p = 1" by auto
  have reach: "pool_reachable sample_pool one_at_a_time mem_fetch False (p, d)"
    using pool_run_reachable [OF pool_reachable.fresh pd] .
  have conc: "0 \<le> wc_Concurrency (wp_config sample_pool)" by code_simp
  have pol: "wc_QueuePolicies (wp_config sample_pool) = [(''q'', zero_policy\<lparr>po_Weight := 2\<rparr>)]" by code_simp
  have names: "CHR 0x00 \<notin> set q" if "po_KeyConcurrency (queuePolicy sample_pool q) \<noteq> []" for q
    using that by (simp add: queuePolicy_def pol policy_of_def zero_policy_def split: if_splits)
  have opts: "Registry_Opts one_at_a_time ''k'' = Some ((we_opts sample_entry)\<lparr>wo_Concurrency := 1\<rparr>)"
    by (simp add: Registry_Opts_def one_at_a_time_def)
  from pool_limits_respected [OF reach conc names] opts have
    "length (gvals (ps_jobs p)) \<le> pending_cap sample_pool" "int (running (\<lambda>g. Kind (go_row g) = ''k'') p) \<le> 1" by fastforce+
  with pd here show ?thesis by blast
qed

end
