(* ===== verification/Worker_Pipeline.thy ===== *)
theory Worker_Pipeline
  imports Worker_Pool
begin

text \<open>
  Jobs of one pipeline inside a worker pool. Each job waits for the channel of the job claimed
  before it and closes its own when it returns. As long as no job gives up that wait, the jobs of
  a pipeline go one at a time, in claim order; a job that gives up closes its channel while its
  predecessors still run, and the order is lost.
\<close>

section \<open>Invariant\<close>

definition live :: "pool_state \<Rightarrow> nat \<Rightarrow> goroutine \<Rightarrow> nat \<Rightarrow> bool" where
  "live p i g c \<longleftrightarrow> gget (ps_jobs p) i = Some g \<and> go_done g = Some c"

abbreviation pid :: "goroutine \<Rightarrow> string" where
  "pid g \<equiv> PipelineID (go_row g)"

text \<open>Channels: every live one is open, the channel of the last job of a pipeline is its tail.\<close>

definition chans_ok :: "pool_state \<Rightarrow> bool" where
  "chans_ok p \<longleftrightarrow>
     (\<forall>c\<in>set (ps_closed p). c < ps_chans p) \<and>
     (\<forall>x t. gget (ps_tails p) x = Some t \<longrightarrow> t < ps_chans p \<and> t \<notin> set (ps_closed p)) \<and>
     (\<forall>i g. gget (ps_jobs p) i = Some g \<longrightarrow> i < ps_next p \<and>
        (go_phase g \<noteq> PExit \<and> pid g \<noteq> [] \<longrightarrow> go_done g \<noteq> None) \<and>
        (\<forall>r. go_ready g = Some r \<longrightarrow> r < ps_chans p)) \<and>
     (\<forall>i g c. live p i g c \<longrightarrow> c < ps_chans p \<and> c \<notin> set (ps_closed p) \<and>
        (\<exists>t. gget (ps_tails p) (pid g) = Some t \<and> c \<le> t)) \<and>
     (\<forall>i j g h c c'. live p i g c \<and> live p j h c' \<and> i < j \<longrightarrow> c < c')"

text \<open>A channel that a job waits for, or a tail, belongs to a job of the same pipeline.\<close>

definition owners_ok :: "pool_state \<Rightarrow> bool" where
  "owners_ok p \<longleftrightarrow>
     (\<forall>k h c x. live p k h c \<and> gget (ps_tails p) x = Some c \<longrightarrow> pid h = x) \<and>
     (\<forall>i g k h r. gget (ps_jobs p) i = Some g \<and> go_ready g = Some r \<and> live p k h r \<longrightarrow> pid h = pid g)"

text \<open>With an earlier job of its pipeline still live, a job waits, for a channel at or after it.\<close>

definition waits_ok :: "pool_state \<Rightarrow> bool" where
  "waits_ok p \<longleftrightarrow>
     (\<forall>i g c j h c'. live p i g c \<and> live p j h c' \<and> pid g = pid h \<and> c' < c \<longrightarrow>
        go_phase g = PPipeline \<and> (\<exists>r. go_ready g = Some r \<and> c' \<le> r \<and> r \<notin> set (ps_closed p)))"

definition pipe_inv :: "pool_state \<Rightarrow> bool" where
  "pipe_inv p \<longleftrightarrow> chans_ok p \<and> owners_ok p \<and> waits_ok p"

lemma chans_okD:
  assumes "chans_ok p"
  shows "c \<in> set (ps_closed p) \<Longrightarrow> c < ps_chans p"
    and "gget (ps_tails p) x = Some t \<Longrightarrow> t < ps_chans p \<and> t \<notin> set (ps_closed p)"
    and "gget (ps_jobs p) i = Some g \<Longrightarrow> i < ps_next p"
    and "gget (ps_jobs p) i = Some g \<Longrightarrow> go_phase g \<noteq> PExit \<Longrightarrow> pid g \<noteq> [] \<Longrightarrow> \<exists>c. go_done g = Some c"
    and "gget (ps_jobs p) i = Some g \<Longrightarrow> go_ready g = Some r \<Longrightarrow> r < ps_chans p"
    and "live p i g c \<Longrightarrow> c < ps_chans p \<and> c \<notin> set (ps_closed p)"
    and "live p i g c \<Longrightarrow> \<exists>t. gget (ps_tails p) (pid g) = Some t \<and> c \<le> t"
    and "live p i g c \<Longrightarrow> live p j h c' \<Longrightarrow> i < j \<Longrightarrow> c < c'"
  using assms unfolding chans_ok_def by simp_all

lemma live_unique:
  assumes "chans_ok p" "live p i g c" "live p j h c"
  shows "i = j \<and> g = h"
proof -
  have "i = j" using chans_okD(8) [OF assms(1)] assms(2,3) by (metis less_irrefl nat_neq_iff)
  with assms show ?thesis by (simp add: live_def)
qed

text \<open>A goroutine moves on, the channels stay.\<close>

definition moved_on :: "pool_state \<Rightarrow> goroutine \<Rightarrow> goroutine \<Rightarrow> bool" where
  "moved_on p g g' \<longleftrightarrow> go_row g' = go_row g \<and> go_done g' = go_done g \<and> go_ready g' = go_ready g \<and>
     (go_phase g = PExit \<longrightarrow> go_phase g' = PExit) \<and>
     (go_phase g = PPipeline \<longrightarrow> (\<forall>r. go_ready g = Some r \<longrightarrow> r \<in> set (ps_closed p)))"

definition same_chans :: "pool_state \<Rightarrow> pool_state \<Rightarrow> bool" where
  "same_chans p p' \<longleftrightarrow> ps_closed p' = ps_closed p \<and> ps_chans p' = ps_chans p \<and> ps_tails p' = ps_tails p \<and>
     ps_jobs p' = ps_jobs p \<and> ps_next p' = ps_next p"

lemma pipe_inv_frame: "same_chans p p' \<Longrightarrow> pipe_inv p' = pipe_inv p"
  by (simp add: same_chans_def pipe_inv_def chans_ok_def owners_ok_def waits_ok_def live_def)

lemma live_set_job:
  "live (set_job i g' p) j h c \<longleftrightarrow> (if j = i then h = g' \<and> go_done g' = Some c else live p j h c)"
  by (auto simp: live_def set_job_def gmap_simps)

lemma pipe_inv_move:
  assumes inv: "pipe_inv p" and g: "gget (ps_jobs p) i = Some g" and mv: "moved_on p g g'"
  shows "pipe_inv (set_job i g' p)"
proof -
  let ?p = "set_job i g' p"
  have parts: "ps_closed ?p = ps_closed p" "ps_chans ?p = ps_chans p" "ps_tails ?p = ps_tails p" "ps_next ?p = ps_next p"
    by (simp_all add: set_job_def)
  have old: "\<exists>h0. live p j h0 c \<and> go_row h = go_row h0 \<and> go_ready h = go_ready h0 \<and> (j \<noteq> i \<longrightarrow> h = h0)"
    if "live ?p j h c" for j h c
    using that mv g by (cases "j = i") (auto simp: live_def set_job_def gmap_simps moved_on_def)
  have job: "\<exists>h0. gget (ps_jobs p) j = Some h0 \<and> go_row h = go_row h0 \<and> go_ready h = go_ready h0 \<and>
      go_done h = go_done h0 \<and> (go_phase h0 = PExit \<longrightarrow> go_phase h = PExit)" if "gget (ps_jobs ?p) j = Some h" for j h
    using that mv g by (auto simp: set_job_def gmap_simps moved_on_def split: if_splits)
  have "chans_ok ?p"
    unfolding chans_ok_def parts
  proof (intro conjI allI impI; (elim conjE)?)
    have ok: "chans_ok p" using inv by (simp add: pipe_inv_def)
    then show "\<forall>c\<in>set (ps_closed p). c < ps_chans p" by (simp add: chans_ok_def)
    show "t < ps_chans p" "t \<notin> set (ps_closed p)" if "gget (ps_tails p) x = Some t" for x t
      using ok that by (auto simp: chans_ok_def)
    fix j h c assume h: "gget (ps_jobs ?p) j = Some h"
    from job [OF h] obtain h0 where h0: "gget (ps_jobs p) j = Some h0" "go_row h = go_row h0" "go_ready h = go_ready h0"
      "go_done h = go_done h0" "go_phase h0 = PExit \<longrightarrow> go_phase h = PExit" by blast
    show "j < ps_next p" using ok h0(1) by (auto simp: chans_ok_def)
    show "go_done h \<noteq> None" if "go_phase h \<noteq> PExit" "pid h \<noteq> []" using ok h0 that by (auto simp: chans_ok_def)
    show "r < ps_chans p" if "go_ready h = Some r" for r using ok h0 that by (auto simp: chans_ok_def)
  next
    fix j h c assume "live ?p j h c"
    from old [OF this] obtain h0 where "live p j h0 c" "go_row h = go_row h0" by blast
    with inv show "c < ps_chans p" "c \<notin> set (ps_closed p)" "\<exists>t. gget (ps_tails p) (pid h) = Some t \<and> c \<le> t"
      by (auto simp: pipe_inv_def chans_ok_def)
  next
    fix j k h h' c c' assume l: "live ?p j h c" "live ?p k h' c'" "j < k"
    obtain h0 h0' where "live p j h0 c" "live p k h0' c'" using old [OF l(1)] old [OF l(2)] by blast
    with chans_okD(8) l(3) inv show "c < c'" unfolding pipe_inv_def by blast
  qed
  moreover have "owners_ok ?p"
    unfolding owners_ok_def parts
  proof (intro conjI allI impI; elim conjE)
    have ow: "owners_ok p" using inv by (simp add: pipe_inv_def)
    fix k h c assume "live ?p k h c"
    from old [OF this] obtain h0 where h0: "live p k h0 c" "go_row h = go_row h0" by blast
    show "pid h = x" if "gget (ps_tails p) x = Some c" for x using ow h0 that unfolding owners_ok_def by auto
    fix j g1 assume g1: "gget (ps_jobs ?p) j = Some g1" "go_ready g1 = Some c"
    from job [OF this(1)] obtain g0 where "gget (ps_jobs p) j = Some g0" "go_row g1 = go_row g0" "go_ready g1 = go_ready g0"
      by blast
    with g1(2) ow h0 show "pid h = pid g1" unfolding owners_ok_def by auto
  qed
  moreover have "waits_ok ?p"
    unfolding waits_ok_def
  proof (intro allI impI)
    fix k g1 c j h c'
    assume a: "live ?p k g1 c \<and> live ?p j h c' \<and> pid g1 = pid h \<and> c' < c"
    obtain g0 h0 where o: "live p k g0 c" "go_row g1 = go_row g0" "k \<noteq> i \<longrightarrow> g1 = g0" "live p j h0 c'" "go_row h = go_row h0"
      using old [of k g1 c] old [of j h c'] a by blast
    then have w: "go_phase g0 = PPipeline \<and> (\<exists>r. go_ready g0 = Some r \<and> c' \<le> r \<and> r \<notin> set (ps_closed p))"
      using a inv unfolding pipe_inv_def waits_ok_def by metis
    have "k \<noteq> i"
    proof
      assume "k = i"
      with o(1) g have "g0 = g" by (simp add: live_def)
      with w mv show False by (auto simp: moved_on_def)
    qed
    with w o(3) show "go_phase g1 = PPipeline \<and> (\<exists>r. go_ready g1 = Some r \<and> c' \<le> r \<and> r \<notin> set (ps_closed ?p))"
      by (simp add: parts)
  qed
  ultimately show ?thesis by (simp add: pipe_inv_def)
qed

section \<open>A job starts\<close>

lemma pipe_inv_started:
  assumes inv: "pipe_inv p"
  shows "pipe_inv (started pool row p)"
proof -
  let ?p = "started pool row p" and ?g = "new_job row p" and ?c = "ps_chans p" and ?x = "PipelineID row"
  have ch: "chans_ok p" and ow: "owners_ok p" and wa: "waits_ok p" using inv by (simp_all add: pipe_inv_def)
  have fresh: "gget (ps_jobs p) (ps_next p) = None" using chans_okD(3) [OF ch] by (meson less_irrefl not_None_eq)
  have live: "live ?p j h c \<longleftrightarrow> live p j h c \<or> j = ps_next p \<and> h = ?g \<and> ?x \<noteq> [] \<and> c = ?c" for j h c
    using fresh by (auto simp: live_def gmap_simps new_job_def new_goroutine_def)
  have job: "gget (ps_jobs ?p) j = Some h \<longleftrightarrow> gget (ps_jobs p) j = Some h \<or> j = ps_next p \<and> h = ?g" for j h
    using fresh by (auto simp: gmap_simps)
  have g: "go_row ?g = row" "go_phase ?g = PPipeline" "?x \<noteq> [] \<Longrightarrow> go_ready ?g = gget (ps_tails p) ?x"
    "?x = [] \<Longrightarrow> go_ready ?g = None" "?x \<noteq> [] \<Longrightarrow> go_done ?g = Some ?c" by (simp_all add: new_job_def new_goroutine_def)
  have le: "ps_chans p \<le> ps_chans ?p" by simp
  have ready: "r < ps_chans p" if "go_ready ?g = Some r" for r
    using that g(3,4) chans_okD(2) [OF ch] by (cases "?x = []") auto
  have "chans_ok ?p"
    unfolding chans_ok_def
  proof (intro conjI allI impI ballI; (elim conjE)?)
    show "c < ps_chans ?p" if "c \<in> set (ps_closed ?p)" for c using chans_okD(1) [OF ch, of c] that by simp
    show "t < ps_chans ?p" "t \<notin> set (ps_closed ?p)" if "gget (ps_tails ?p) y = Some t" for y t
      using chans_okD(1,2) [OF ch] that by (fastforce simp: gmap_simps split: if_splits)+
    show "j < ps_next ?p" "go_phase h \<noteq> PExit \<Longrightarrow> pid h \<noteq> [] \<Longrightarrow> go_done h \<noteq> None" "go_ready h = Some r \<Longrightarrow> r < ps_chans ?p"
      if "gget (ps_jobs ?p) j = Some h" for j h r
      using that chans_okD(3-5) [OF ch] g ready unfolding job by (fastforce intro: less_SucI)+
    show "c < ps_chans ?p" "c \<notin> set (ps_closed ?p)" if "live ?p j h c" for j h c
      using that chans_okD(1,6) [OF ch] unfolding live by (auto intro: less_SucI)
    show "\<exists>t. gget (ps_tails ?p) (pid h) = Some t \<and> c \<le> t" if "live ?p j h c" for j h c
      using that chans_okD(6,7) [OF ch] g(1) unfolding live by (fastforce simp: gmap_simps less_imp_le)
    show "c < c'" if "live ?p j h c" "live ?p k h' c'" "j < k" for j k h h' c c'
      using that chans_okD(6,8) [OF ch] chans_okD(3) [OF ch] unfolding live
      by (metis live_def less_asym less_irrefl)
  qed
  moreover have "owners_ok ?p"
    unfolding owners_ok_def
  proof (intro conjI allI impI; elim conjE)
    show "pid h = y" if "live ?p k h c" "gget (ps_tails ?p) y = Some c" for k h c y
      using that ow chans_okD(2,6) [OF ch] g(1) unfolding live owners_ok_def by (fastforce simp: gmap_simps split: if_splits)
    show "pid h = pid g1" if "gget (ps_jobs ?p) i = Some g1" "go_ready g1 = Some r" "live ?p k h r" for i g1 k h r
      using that ow g chans_okD(5) [OF ch] ready unfolding live job owners_ok_def by (metis less_irrefl option.distinct(1))
  qed
  moreover have "waits_ok ?p"
    unfolding waits_ok_def
  proof (intro allI impI; elim conjE)
    fix i g1 c j h c' assume a: "live ?p i g1 c" "live ?p j h c'" "pid g1 = pid h" "c' < c"
    have "live p j h c'" using a chans_okD(6) [OF ch] unfolding live by (metis less_asym less_irrefl)
    show "go_phase g1 = PPipeline \<and> (\<exists>r. go_ready g1 = Some r \<and> c' \<le> r \<and> r \<notin> set (ps_closed ?p))"
    proof (cases "live p i g1 c")
      case True
      with wa a \<open>live p j h c'\<close> show ?thesis unfolding waits_ok_def by simp
    next
      case False
      with a(1) have new: "g1 = ?g" "?x \<noteq> []" unfolding live by simp_all
      obtain t where "gget (ps_tails p) ?x = Some t" "c' \<le> t"
        using chans_okD(7) [OF ch \<open>live p j h c'\<close>] a(3) new(1) g(1) by auto
      with new g chans_okD(2) [OF ch] show ?thesis by auto
    qed
  qed
  ultimately show ?thesis by (simp add: pipe_inv_def)
qed

section \<open>A job closes its channel\<close>

lemma pipelineDone_frame:
  "ps_closed (pipelineDone x c p) = c # ps_closed p" "ps_chans (pipelineDone x c p) = ps_chans p"
  "gget (ps_tails (pipelineDone x c p)) y = (if y = x \<and> gget (ps_tails p) x = Some c then None else gget (ps_tails p) y)"
  by (simp_all add: pipelineDone_def Let_def gmap_simps)

lemma pipe_inv_done:
  assumes inv: "pipe_inv p" and g: "gget (ps_jobs p) i = Some g" and c: "go_done g = Some c" and ex: "go_phase g = PExit"
  shows "pipe_inv (set_job i (g\<lparr>go_done := None\<rparr>) (pipelineDone (pid g) c p))"
proof -
  let ?p = "set_job i (g\<lparr>go_done := None\<rparr>) (pipelineDone (pid g) c p)"
  have ch: "chans_ok p" and ow: "owners_ok p" and wa: "waits_ok p" using inv by (simp_all add: pipe_inv_def)
  have me: "live p i g c" using g c by (simp add: live_def)
  have parts: "ps_closed ?p = c # ps_closed p" "ps_chans ?p = ps_chans p" "ps_next ?p = ps_next p"
    "\<And>y. gget (ps_tails ?p) y = (if y = pid g \<and> gget (ps_tails p) (pid g) = Some c then None else gget (ps_tails p) y)"
    by (simp_all add: set_job_def pipelineDone_frame)
  have live: "live ?p j h c' \<longleftrightarrow> live p j h c' \<and> j \<noteq> i" for j h c'
    by (auto simp: live_def set_job_def gmap_simps)
  have job: "\<exists>h0. gget (ps_jobs p) j = Some h0 \<and> go_row h0 = go_row h \<and> go_ready h0 = go_ready h \<and>
      (go_phase h \<noteq> PExit \<longrightarrow> h0 = h)" if "gget (ps_jobs ?p) j = Some h" for j h
    using that g ex by (auto simp: set_job_def gmap_simps split: if_splits)
  have first: "c < c'" if "live p j h c'" "pid h = pid g" "j \<noteq> i" for j h c'
  proof -
    have "\<not> c' < c" using wa me that(1,2) ex unfolding waits_ok_def by fastforce
    moreover have "c' \<noteq> c" using live_unique [OF ch me, of j h] that(1,3) by auto
    ultimately show ?thesis by simp
  qed
  have "chans_ok ?p"
    unfolding chans_ok_def parts(1-3)
  proof (intro conjI allI impI ballI; (elim conjE)?)
    show "d < ps_chans p" if "d \<in> set (c # ps_closed p)" for d
      using that chans_okD(1) [OF ch] chans_okD(6) [OF ch me] by auto
    show "t < ps_chans p" if "gget (ps_tails ?p) y = Some t" for y t
      using that chans_okD(2) [OF ch] unfolding parts by (auto split: if_splits)
    show "t \<notin> set (c # ps_closed p)" if t: "gget (ps_tails ?p) y = Some t" for y t
    proof -
      have "gget (ps_tails p) y = Some t" "\<not> (y = pid g \<and> t = c)" using t unfolding parts by (auto split: if_splits)
      then show ?thesis using chans_okD(2) [OF ch] ow me unfolding owners_ok_def by (metis set_ConsD)
    qed
    fix j h assume h: "gget (ps_jobs ?p) j = Some h"
    from job [OF h] obtain h0 where h0: "gget (ps_jobs p) j = Some h0" "go_row h0 = go_row h" "go_ready h0 = go_ready h"
      "go_phase h \<noteq> PExit \<longrightarrow> h0 = h" by blast
    show "j < ps_next p" using chans_okD(3) [OF ch h0(1)] .
    show "go_done h \<noteq> None" if "go_phase h \<noteq> PExit" "pid h \<noteq> []" using chans_okD(4) [OF ch h0(1)] h0(4) that by auto
    show "r < ps_chans p" if "go_ready h = Some r" for r using chans_okD(5) [OF ch h0(1)] h0(3) that by simp
  next
    fix j h d assume "live ?p j h d"
    then have l: "live p j h d" "j \<noteq> i" unfolding live by simp_all
    show "d < ps_chans p" using chans_okD(6) [OF ch l(1)] by simp
    have "d \<noteq> c" using live_unique [OF ch me, of j h] l by auto
    then show "d \<notin> set (c # ps_closed p)" using chans_okD(6) [OF ch l(1)] by simp
    obtain t where t: "gget (ps_tails p) (pid h) = Some t" "d \<le> t" using chans_okD(7) [OF ch l(1)] by blast
    have "t \<noteq> c" if "pid h = pid g" using first [OF l(1) that l(2)] t(2) by simp
    with t show "\<exists>t. gget (ps_tails ?p) (pid h) = Some t \<and> d \<le> t" unfolding parts by auto
  next
    fix j k h h' d d' assume "live ?p j h d" "live ?p k h' d'" "j < k"
    then show "d < d'" unfolding live using chans_okD(8) [OF ch] by blast
  qed
  moreover have "owners_ok ?p"
    unfolding owners_ok_def
  proof (intro conjI allI impI; elim conjE)
    show "pid h = y" if "live ?p k h d" "gget (ps_tails ?p) y = Some d" for k h d y
      using that ow unfolding live owners_ok_def parts by (auto split: if_splits)
    show "pid h = pid g1" if "gget (ps_jobs ?p) j = Some g1" "go_ready g1 = Some r" "live ?p k h r" for j g1 k h r
      using that(3) job [OF that(1)] that(2) ow unfolding live owners_ok_def by metis
  qed
  moreover have "waits_ok ?p"
    unfolding waits_ok_def
  proof (intro allI impI; elim conjE)
    fix j g1 d k h d' assume a: "live ?p j g1 d" "live ?p k h d'" "pid g1 = pid h" "d' < d"
    then have l: "live p j g1 d" "live p k h d'" "k \<noteq> i" unfolding live by simp_all
    from wa l a obtain r where r: "go_phase g1 = PPipeline" "go_ready g1 = Some r" "d' \<le> r" "r \<notin> set (ps_closed p)"
      unfolding waits_ok_def by blast
    have "r \<noteq> c"
    proof
      assume "r = c"
      then have "pid g = pid g1" using ow l(1) r(2) me unfolding owners_ok_def live_def by blast
      with first [OF l(2) _ l(3)] a(3) r(3) \<open>r = c\<close> show False by simp
    qed
    with r show "go_phase g1 = PPipeline \<and> (\<exists>r. go_ready g1 = Some r \<and> d' \<le> r \<and> r \<notin> set (ps_closed ?p))"
      unfolding parts by auto
  qed
  ultimately show ?thesis by (simp add: pipe_inv_def)
qed

section \<open>Every action keeps the order\<close>

lemma same_chans_ops [simp]:
  "same_chans p (key_register k n p)" "same_chans p (key_drop k p)" "same_chans p (key_release k p)"
  "same_chans p (gate_register k p)" "same_chans p (gate_drop k p)" "same_chans p (gate_release k p)"
  "same_chans p (kind_release k p)" "same_chans p (queueDone q p)" "same_chans p p"
  "same_chans p (p\<lparr>ps_sem := n\<rparr>)" "same_chans p (p\<lparr>ps_pending := n\<rparr>)" "same_chans p (p\<lparr>ps_fetch := f\<rparr>)"
  "same_chans p (p\<lparr>ps_runtime := rt\<rparr>)" "same_chans p (pool_Shutdown p)" "same_chans p (looked pool queue p)"
  by (simp_all add: same_chans_def key_register_def key_drop_def key_release_def gate_register_def gate_drop_def
      gate_release_def kind_release_def queueDone_def pool_Shutdown_def Let_def split: option.splits)

lemma advance_moves:
  assumes "advance pool reg g p = Some (g', p')"
  shows "same_chans p p' \<and> moved_on p g g'"
proof -
  have "same_chans p p'"
  proof (cases "go_phase g")
    case PKind
    with assms show ?thesis
      by (auto simp: advance_def kindSemaphore_def same_chans_def Let_def split: option.splits if_splits)
  next
    case (PKeys rules n)
    with assms show ?thesis by (cases rules) (auto simp: advance_def Let_def)
  next
    case (PKeyWait key rules n)
    with assms show ?thesis by (auto simp: advance_def key_acquire_def same_chans_def split: option.splits if_splits)
  next
    case (PGateWait key)
    with assms show ?thesis by (auto simp: advance_def gate_acquire_def same_chans_def split: option.splits if_splits)
  qed (use assms in \<open>auto simp: advance_def Let_def split: option.splits if_splits\<close>)
  moreover have "moved_on p g g'"
    using assms by (auto simp: moved_on_def advance_def Let_def
        split: phase.splits option.splits list.splits if_splits prod.splits)
  ultimately show ?thesis ..
qed

lemma abandon_moves:
  assumes "abandon g p = (g', p')" "may_abandon True g"
  shows "same_chans p p' \<and> moved_on p g g'"
  using assms by (auto simp: abandon_def moved_on_def may_abandon_def split: phase.splits)

lemma unwind_moves:
  assumes "unwind g p = (mg, p')" "go_phase g = PExit"
  shows "(\<exists>c. go_done g = Some c \<and> mg = Some (g\<lparr>go_done := None\<rparr>) \<and> p' = pipelineDone (pid g) c p) \<or>
    same_chans p p' \<and> (case mg of None \<Rightarrow> go_done g = None | Some g' \<Rightarrow> moved_on p g g')"
  using assms by (auto simp: unwind_def moved_on_def split: option.splits if_splits)

lemma pipe_inv_moved:
  assumes "pipe_inv p" "gget (ps_jobs p) i = Some g" "same_chans p p' \<and> moved_on p g g'"
  shows "pipe_inv (set_job i g' p')"
proof (rule pipe_inv_move)
  show "pipe_inv p'" using pipe_inv_frame [of p p'] assms by blast
  show "gget (ps_jobs p') i = Some g" "moved_on p' g g'" using assms(2,3) by (simp_all add: same_chans_def moved_on_def)
qed

lemma pipe_inv_ended:
  assumes "pipe_inv p" "gget (ps_jobs p) i = Some g" "go_done g = None" "same_chans p p'"
  shows "pipe_inv (p'\<lparr>ps_jobs := gdel i (ps_jobs p')\<rparr>)"
proof -
  have inv: "pipe_inv p'" and g: "gget (ps_jobs p') i = Some g"
    using assms pipe_inv_frame [of p p'] by (blast, simp add: same_chans_def)
  let ?p = "p'\<lparr>ps_jobs := gdel i (ps_jobs p')\<rparr>"
  have live: "live ?p j h c \<longleftrightarrow> live p' j h c" for j h c using g assms(3) by (auto simp: live_def gmap_simps)
  have "chans_ok ?p" using inv unfolding pipe_inv_def chans_ok_def live by (simp add: gmap_simps)
  moreover have "owners_ok ?p" using inv unfolding pipe_inv_def owners_ok_def live by (simp add: gmap_simps)
  moreover have "waits_ok ?p" using inv unfolding pipe_inv_def waits_ok_def live by auto
  ultimately show ?thesis by (simp add: pipe_inv_def)
qed

context claim_store
begin

lemma pipe_inv_act:
  assumes inv: "pipe_inv (fst ps)" and act: "pool_act pool reg fetch True a ps = Some ps'"
  shows "pipe_inv (fst ps')"
proof (cases ps)
  case (Pair p s)
  have frame: "pipe_inv p'" if "same_chans p p'" for p' using inv Pair that by (simp add: pipe_inv_frame)
  show ?thesis
  proof (cases a)
    case (FetchRound now)
    with act Pair obtain free misses free' misses' p' s' errs where
      it: "dispatch_iter pool fetch now (free, misses) (p, s) = Some ((free', misses'), (p', s'), errs)"
      and ps': "ps' = (p'\<lparr>ps_fetch := Some (free', misses')\<rparr>, s')" by (auto split: option.splits if_splits)
    have "pipe_inv p'"
      using dispatch_iter_forms [OF it]
    proof (elim disjE conjE exE)
      show "pipe_inv p'" if "p' = looked pool queue p" for queue using frame that by simp
      show "pipe_inv p'" if "p' = started pool row p" for row using pipe_inv_started inv Pair that by simp
    qed
    with pipe_inv_frame [of p' "p'\<lparr>ps_fetch := Some (free', misses')\<rparr>"] show ?thesis by (simp add: ps')
  next
    case (Advance i)
    with act Pair inv show ?thesis by (auto split: option.splits intro: pipe_inv_moved [OF _ _ advance_moves])
  next
    case (Abandon i)
    with act Pair inv show ?thesis by (auto split: option.splits if_splits prod.splits intro: pipe_inv_moved [OF _ _ abandon_moves])
  next
    case (Unwind i)
    with act Pair obtain g mg p' where g: "gget (ps_jobs p) i = Some g" "go_phase g = PExit" "unwind g p = (mg, p')"
      and ps': "ps' = (case mg of None \<Rightarrow> (p'\<lparr>ps_jobs := gdel i (ps_jobs p')\<rparr>, s) | Some g' \<Rightarrow> (set_job i g' p', s))"
      by (auto split: option.splits if_splits prod.splits)
    from unwind_moves [OF g(3,2)] show ?thesis
      using inv g ps' Pair pipe_inv_done [of p i g] pipe_inv_moved [of p i g p'] pipe_inv_ended [of p i g p']
      by (auto split: option.splits)
  qed (use act Pair inv frame in \<open>auto split: if_splits option.splits\<close>)
qed

lemma pipe_inv_reachable:
  assumes "pool_reachable pool reg fetch True ps"
  shows "pipe_inv (fst ps)"
  using assms
proof (induction rule: pool_reachable.induct)
  case (fresh s)
  show ?case by (simp add: pipe_inv_def chans_ok_def owners_ok_def waits_ok_def live_def new_pool_state_def)
next
  case (moves ps a ps')
  then show ?case using pipe_inv_act by blast
qed

end

text \<open>
  Claim C10: jobs of a pipeline go one at a time, in claim order, through a pool in which no job
  gives up its wait for its predecessor: while a job is past that wait and has not begun to
  return, every job of the same pipeline claimed before it has returned, up to giving back its
  queue slot.
\<close>

theorem pipeline_goes_in_claim_order:
  assumes "pool_reachable pool reg mem_fetch True (p, d)"
    and "gget (ps_jobs p) i = Some g" "gget (ps_jobs p) j = Some h" "i < j"
    and "PipelineID (go_row g) = PipelineID (go_row h)" "PipelineID (go_row h) \<noteq> []"
    and "go_phase h \<noteq> PPipeline" "go_phase h \<noteq> PExit"
  shows "go_phase g = PExit \<and> go_done g = None"
proof -
  have inv: "chans_ok p" "waits_ok p" using mem_claims.pipe_inv_reachable [OF assms(1)] by (simp_all add: pipe_inv_def)
  obtain c where c: "live p j h c" using chans_okD(4) [OF inv(1) assms(3,8,6)] assms(3) by (auto simp: live_def)
  have "go_done g = None"
  proof (rule ccontr)
    assume "go_done g \<noteq> None"
    then obtain c' where c': "live p i g c'" using assms(2) by (auto simp: live_def)
    from chans_okD(8) [OF inv(1) c' c assms(4)] c c' inv(2) assms(5,7) show False
      unfolding waits_ok_def by metis
  qed
  moreover from this have "go_phase g = PExit" using chans_okD(4) [OF inv(1) assms(2)] assms(5,6) by auto
  ultimately show ?thesis by simp
qed

section \<open>A job that gives up its wait\<close>

definition pipeline_mem :: mem where
  "pipeline_mem = fst (JobInsertMany (\<lambda>_. 1000) (replicate 3 (sample_job 0 []\<lparr>ip_PipelineID := ''A''\<rparr>)) mem_New)"

definition claim_three :: "mem action list" where
  "claim_three = [BeginFetch, FetchRound 2000, FetchRound 2000, FetchRound 2000, FetchRound 2000, FetchRound 2000]"

definition phases :: "pool_state \<Rightarrow> (nat \<times> string \<times> phase) list" where
  "phases p = map (\<lambda>(i, g). (i, PipelineID (go_row g), go_phase g)) (ps_jobs p)"

text \<open>Three jobs of pipeline A: the first returns and the second runs while the third waits.\<close>

theorem pipeline_goes_in_claim_order_witness:
  "\<exists>p d g h. pool_run sample_pool ([] :: string Registry) mem_fetch True
       (claim_three @ replicate 8 (Advance 0) @ replicate 2 (Unwind 0) @ replicate 7 (Advance 1)) (new_pool_state, pipeline_mem) = Some (p, d) \<and>
     gget (ps_jobs p) 0 = Some g \<and> gget (ps_jobs p) 1 = Some h \<and> go_phase h = PRun \<and> go_phase g = PExit \<and> go_done g = None"
proof -
  let ?run = "pool_run sample_pool ([] :: string Registry) mem_fetch True
       (claim_three @ replicate 8 (Advance 0) @ replicate 2 (Unwind 0) @ replicate 7 (Advance 1)) (new_pool_state, pipeline_mem)"
  have "case ?run of None \<Rightarrow> False | Some (p, d) \<Rightarrow> phases p = [(0, ''A'', PExit), (1, ''A'', PRun), (2, ''A'', PPipeline)]"
    by code_simp
  then obtain p d where run: "?run = Some (p, d)" and ph: "phases p = [(0, ''A'', PExit), (1, ''A'', PRun), (2, ''A'', PPipeline)]"
    by (auto split: option.splits)
  from ph obtain g h k where js: "ps_jobs p = [(0, g), (1, h), (2, k)]" "PipelineID (go_row g) = ''A''" "PipelineID (go_row h) = ''A''"
    "go_phase h = PRun" by (auto simp: phases_def map_eq_Cons_conv)
  have "pool_reachable sample_pool ([] :: string Registry) mem_fetch True (p, d)"
    using pool_run_reachable [OF pool_reachable.fresh run] .
  from pipeline_goes_in_claim_order [OF this, of 0 g 1 h] js have "go_phase g = PExit \<and> go_done g = None" by simp
  with run js show ?thesis by auto
qed


end
