(* ===== verification/Cron.thy ===== *)
theory Cron
  imports Client
begin

text \<open>
  Periodic jobs: \<^verbatim>\<open>cron.go\<close> and \<^verbatim>\<open>core/schedule.go\<close>. A schedule is a function from the last instant to
  the next one; the parser and the calendar of cron expressions belong to a third-party package
  and are parameters. A driver is the record of the operations the scheduler calls. The text of an
  instant in an error message is a parameter of the environment.
\<close>

section \<open>Schedules\<close>

type_synonym schedule = "gotime \<Rightarrow> gotime"

definition every_Next :: "duration \<Rightarrow> schedule" where
  "every_Next d t = (if IsZero t then 0 else t + d)"

definition cron_Next :: "schedule \<Rightarrow> schedule" where
  "cron_Next sched t = (if IsZero t then 0 else sched t)"

definition Cron :: "(string \<Rightarrow> ('loc \<Rightarrow> schedule) res) \<Rightarrow> 'loc \<Rightarrow> string \<Rightarrow> 'loc option \<Rightarrow> schedule res" where
  "Cron parse utc expression location =
     (case parse expression of
        Inl e \<Rightarrow> Inl (wrap_prefix (''parse cron expression '' @ go_quote expression) e)
      | Inr parsed \<Rightarrow> Inr (cron_Next (parsed (option_default utc location))))"

section \<open>Configuration\<close>

text \<open>\<^verbatim>\<open>CronCatchUpPolicy\<close> is a byte with three named values.\<close>

abbreviation (input) CronCatchUpAll :: nat where "CronCatchUpAll \<equiv> 0"
abbreviation (input) CronCatchUpLatest :: nat where "CronCatchUpLatest \<equiv> 1"
abbreviation (input) CronSkipMissed :: nat where "CronSkipMissed \<equiv> 2"

record PeriodicJob =
  pj_ID :: string
  pj_Schedule :: "schedule option"
  pj_Args :: JobArgs
  pj_Opts :: "InsertOpts option"
  pj_StartAt :: gotime
  pj_CatchUp :: nat
  pj_MaxCatchUp :: int

record CronConfig =
  cg_TickInterval :: duration
  cg_LeaderName :: string
  cg_WorkerID :: string
  cg_LeaderTTL :: duration
  cg_MaxCatchUp :: int

record cronEntry =
  ce_job :: PeriodicJob
  ce_lastRun :: gotime

record CronScheduler =
  cs_entries :: "cronEntry list"
  cs_config :: CronConfig
  cs_configErr :: "goerr option"
  cs_started :: bool

fun check_jobs :: "string list \<Rightarrow> PeriodicJob list \<Rightarrow> goerr option" where
  "check_jobs seen [] = None"
| "check_jobs seen (job # rest) =
     (let q = go_quote (pj_ID job)
      in if pj_Schedule job = None then Some (Errorf (''periodic job '' @ q @ '' has no schedule''))
         else if pj_ID job = [] then check_jobs seen rest
         else if IsZero (pj_StartAt job)
              then Some (Errorf (''periodic job '' @ q @ '' requires StartAt for durable scheduling''))
         else if pj_CatchUp job > CronSkipMissed
              then Some (Errorf (''periodic job '' @ q @ '' has invalid catch-up policy '' @ nat_to_dec (pj_CatchUp job)))
         else if pj_MaxCatchUp job < 0 then Some (Errorf (''periodic job '' @ q @ '' has negative MaxCatchUp''))
         else if pj_ID job \<in> set seen then Some (Errorf (''duplicate periodic job ID '' @ q))
         else check_jobs (pj_ID job # seen) rest)"

definition ValidateCronConfig :: "string \<Rightarrow> Capabilities \<Rightarrow> PeriodicJob list \<Rightarrow> CronConfig \<Rightarrow> goerr option" where
  "ValidateCronConfig name caps js cfg =
     (if \<not> LinearizableLeases caps
      then Some (Errorf (''cron scheduling requires linearizable leases, unsupported by driver '' @ go_quote name))
      else (case check_jobs [] js of
          Some e \<Rightarrow> Some e
        | None \<Rightarrow>
            if cg_TickInterval cfg < 0 \<or> cg_LeaderTTL cfg < 0 \<or> cg_MaxCatchUp cfg < 0
            then Some (Errorf ''cron durations and MaxCatchUp must not be negative'')
            else None))"

text \<open>The defaults; \<open>newID\<close> is the generated worker ID.\<close>

definition normal_cron :: "string \<Rightarrow> CronConfig \<Rightarrow> CronConfig" where
  "normal_cron newID cfg =
     cfg\<lparr>cg_TickInterval := (if cg_TickInterval cfg \<le> 0 then Second else cg_TickInterval cfg),
         cg_LeaderName := (if cg_LeaderName cfg = [] then ''goncordia-cron'' else cg_LeaderName cfg),
         cg_WorkerID := (if cg_WorkerID cfg = [] then newID else cg_WorkerID cfg),
         cg_LeaderTTL := (if cg_LeaderTTL cfg \<le> 0 then 30 * Second else cg_LeaderTTL cfg),
         cg_MaxCatchUp := (if cg_MaxCatchUp cfg \<le> 0 then 100 else cg_MaxCatchUp cfg)\<rparr>"

definition newCronScheduler :: "string \<Rightarrow> Capabilities \<Rightarrow> string \<Rightarrow> PeriodicJob list \<Rightarrow> CronConfig \<Rightarrow> CronScheduler" where
  "newCronScheduler name caps newID js cfg =
     \<lparr>cs_entries = map (\<lambda>j. \<lparr>ce_job = j, ce_lastRun = 0\<rparr>) js, cs_config = normal_cron newID cfg,
      cs_configErr = ValidateCronConfig name caps js cfg, cs_started = False\<rparr>"

definition NewCronSchedulerChecked ::
  "string \<Rightarrow> Capabilities \<Rightarrow> string \<Rightarrow> PeriodicJob list \<Rightarrow> CronConfig \<Rightarrow> CronScheduler res" where
  "NewCronSchedulerChecked name caps newID js cfg =
     (let scheduler = newCronScheduler name caps newID js cfg
      in case cs_configErr scheduler of Some e \<Rightarrow> Inl e | None \<Rightarrow> Inr scheduler)"

section \<open>Operations of the driver\<close>

record 's cron_driver =
  rd_client :: "'s client_driver"
  rd_elect :: "LeaderElectParams \<Rightarrow> 's \<Rightarrow> 's \<times> bool res"
  rd_resign :: "LeaderResignParams \<Rightarrow> 's \<Rightarrow> 's \<times> goerr option"
  rd_cursor :: "ScheduleCursorCreateParams \<Rightarrow> 's \<Rightarrow> 's \<times> ScheduleCursorResult res"
  rd_advance :: "ScheduleCursorAdvanceParams \<Rightarrow> 's \<Rightarrow> 's \<times> bool res"

text \<open>The client of the scheduler has no admission control and no observer.\<close>

definition cron_client :: "'s ClientConfig" where
  "cron_client = NewClient \<lparr>cf_DefaultQueue = [], cf_Admission = None, cf_Observed = False\<rparr>"

definition durableScheduleCursorID :: "string \<Rightarrow> string \<Rightarrow> string" where
  "durableScheduleCursorID grp jid = ''c1_'' @ hex_bytes (Sum256 (grp @ [CHR 0x00] @ jid))"

definition maxCatchUp :: "CronConfig \<Rightarrow> PeriodicJob \<Rightarrow> int" where
  "maxCatchUp cfg job = (if pj_MaxCatchUp job > 0 then pj_MaxCatchUp job else cg_MaxCatchUp cfg)"

definition zero_opts :: InsertOpts where
  "zero_opts = \<lparr>io_Queue = [], io_Priority = 0, io_RunAt = 0, io_UniqueOpts = None, io_MaxRetry = None,
     io_Timeout = None, io_Tags = [], io_PipelineID = [], io_PayloadVersion = 0\<rparr>"

definition occurrence_text :: "CronConfig \<Rightarrow> PeriodicJob \<Rightarrow> gotime \<Rightarrow> string" where
  "occurrence_text cfg job occurrence =
     ''cron:'' @ cg_LeaderName cfg @ '':'' @ pj_ID job @ '':'' @ Itoa (UnixNano occurrence)"

definition occurrence_opts :: "CronConfig \<Rightarrow> PeriodicJob \<Rightarrow> gotime \<Rightarrow> InsertOpts" where
  "occurrence_opts cfg job occurrence =
     (option_default zero_opts (pj_Opts job))\<lparr>io_UniqueOpts := Some
        \<lparr>uo_ByArgs = False, uo_Key = occurrence_text cfg job occurrence, uo_ByQueue = False, uo_ByPeriod = 0,
         uo_Forever = True\<rparr>\<rparr>"

text \<open>
  What surrounds a tick: the driver, the configuration, the clock reading of the client when it
  builds the parameters of an occurrence, and the text of an instant.
\<close>

record 's cron_env =
  cv_driver :: "'s cron_driver"
  cv_config :: CronConfig
  cv_clock :: gotime
  cv_time_text :: "gotime \<Rightarrow> string"

definition enqueueOccurrence :: "'s cron_env \<Rightarrow> PeriodicJob \<Rightarrow> gotime \<Rightarrow> 's \<Rightarrow> 's \<times> goerr list \<times> bool" where
  "enqueueOccurrence env job occurrence s =
     (case Enqueue cron_client (rd_client (cv_driver env)) (cv_clock env) (pj_Args job)
             (Some (occurrence_opts (cv_config env) job occurrence)) s of
        (s', _, Inl e) \<Rightarrow>
          (s', [wrap_prefix (''enqueue periodic job '' @ go_quote (pj_ID job) @ '' occurrence '' @
                  cv_time_text env occurrence) e], False)
      | (s', _, Inr _) \<Rightarrow> (s', [], True))"

definition advanceCursor :: "'s cron_env \<Rightarrow> string \<Rightarrow> string \<Rightarrow> gotime \<Rightarrow> gotime \<Rightarrow> 's \<Rightarrow> 's \<times> goerr list \<times> bool" where
  "advanceCursor env jobID cursorID expected nxt s =
     (case rd_advance (cv_driver env) \<lparr>ca_ID = cursorID, ca_Expected = expected, ca_Next = nxt\<rparr> s of
        (s', Inl e) \<Rightarrow> (s', [wrap_prefix (''advance periodic cursor '' @ go_quote jobID) e], False)
      | (s', Inr advanced) \<Rightarrow> (s', [], advanced))"

section \<open>A tick of a durable job\<close>

text \<open>
  The scan for missed occurrences, at most 100000 of them: a cursor the schedule does not advance
  from, or the occurrences found and whether the scan saw one after \<open>now\<close>.
\<close>

function scan_due :: "schedule \<Rightarrow> bool \<Rightarrow> int \<Rightarrow> gotime \<Rightarrow> int \<Rightarrow> gotime \<Rightarrow> gotime list \<Rightarrow> gotime + gotime list \<times> bool" where
  "scan_due sched catch_all limit now i cursor found =
     (if i \<ge> 100000 then Inr (found, False)
      else let nxt = sched cursor
           in if IsZero nxt \<or> \<not> cursor < nxt then Inl cursor
              else if now < nxt then Inr (found, True)
              else let found' = found @ [nxt]
                   in if catch_all \<and> int (length found') \<ge> limit then Inr (found', False)
                      else scan_due sched catch_all limit now (i + 1) nxt found')"
  by pat_completeness auto
termination
  by (relation "measure (\<lambda>(_, _, _, _, i, _, _). nat (100000 - i))") auto

declare scan_due.simps [simp del]

text \<open>The default branch: each occurrence is enqueued, then the cursor moved to it.\<close>

fun catch_up :: "'s cron_env \<Rightarrow> PeriodicJob \<Rightarrow> string \<Rightarrow> gotime \<Rightarrow> gotime list \<Rightarrow> 's \<Rightarrow> 's \<times> goerr list" where
  "catch_up env job cursorID expected [] s = (s, [])"
| "catch_up env job cursorID expected (occurrence # rest) s =
     (let (s1, r1, queued) = enqueueOccurrence env job occurrence s
      in if \<not> queued then (s1, r1)
         else let (s2, r2, advanced) = advanceCursor env (pj_ID job) cursorID expected occurrence s1
              in if \<not> advanced then (s2, r1 @ r2)
                 else let (s3, r3) = catch_up env job cursorID occurrence rest s2 in (s3, r1 @ r2 @ r3))"

definition tickDurable :: "'s cron_env \<Rightarrow> PeriodicJob \<Rightarrow> schedule \<Rightarrow> gotime \<Rightarrow> 's \<Rightarrow> 's \<times> goerr list" where
  "tickDurable env job sched now s =
     (let cfg = cv_config env; q = go_quote (pj_ID job);
          cursorID = durableScheduleCursorID (cg_LeaderName cfg) (pj_ID job)
      in case rd_cursor (cv_driver env) \<lparr>cc_ID = cursorID, cc_InitialAt = pj_StartAt job\<rparr> s of
        (s1, Inl e) \<Rightarrow> (s1, [wrap_prefix (''load periodic cursor '' @ q) e])
      | (s1, Inr cursorResult) \<Rightarrow>
          let original = cr_At cursorResult
          in case scan_due sched (pj_CatchUp job = CronCatchUpAll) (maxCatchUp cfg job) now 0 original [] of
            Inl cursor \<Rightarrow>
              (s1, [Errorf (''periodic job '' @ q @ '' schedule did not advance after '' @ cv_time_text env cursor)])
          | Inr (found, scanComplete) \<Rightarrow>
              if \<not> scanComplete \<and> pj_CatchUp job \<noteq> CronCatchUpAll
              then (s1, [Errorf (''periodic job '' @ q @ '' exceeded 100000 missed occurrences; move StartAt forward'')])
              else if found = [] then (s1, [])
              else if pj_CatchUp job = CronCatchUpLatest then
                (let (s2, r2, queued) = enqueueOccurrence env job (last found) s1
                 in if \<not> queued then (s2, r2)
                    else let (s3, r3, _) = advanceCursor env (pj_ID job) cursorID original (last found) s2
                         in (s3, r2 @ r3))
              else if pj_CatchUp job = CronSkipMissed then
                (let (s2, r2, go_on) =
                       (if time_sub now (last found) \<le> cg_TickInterval cfg
                        then enqueueOccurrence env job (last found) s1 else (s1, [], True))
                 in if \<not> go_on then (s2, r2)
                    else let (s3, r3, _) = advanceCursor env (pj_ID job) cursorID original (last found) s2
                         in (s3, r2 @ r3))
              else catch_up env job cursorID original found s1)"

section \<open>Ticks\<close>

text \<open>
  The entries in order. \<open>None\<close> is a panic: the message for a job that cannot be enqueued asks its
  arguments for their kind, also when they are nil.
\<close>

fun tick_entries :: "'s cron_env \<Rightarrow> gotime \<Rightarrow> cronEntry list \<Rightarrow> 's \<Rightarrow> (cronEntry list \<times> 's \<times> goerr list) option" where
  "tick_entries env now [] s = Some ([], s, [])"
| "tick_entries env now (e # rest) s =
     (case pj_Schedule (ce_job e) of
        None \<Rightarrow> None
      | Some sched \<Rightarrow>
          let continue = (\<lambda>e' s' r. map_option (\<lambda>(es, s'', r'). (e' # es, s'', r @ r')) (tick_entries env now rest s'))
          in if pj_ID (ce_job e) \<noteq> [] then
               (let (s', r) = tickDurable env (ce_job e) sched now s in continue e s' r)
             else let nxt = sched (ce_lastRun e)
               in if IsZero nxt \<or> \<not> now < nxt then
                    (case Enqueue cron_client (rd_client (cv_driver env)) (cv_clock env) (pj_Args (ce_job e)) (pj_Opts (ce_job e)) s of
                       (s', _, Inl err) \<Rightarrow>
                         if ja_nil (pj_Args (ce_job e)) then None
                         else continue e s' [wrap_prefix (''enqueue periodic job '' @ go_quote (ja_Kind (pj_Args (ce_job e)))) err]
                     | (s', _, Inr _) \<Rightarrow> continue (e\<lparr>ce_lastRun := now\<rparr>) s' [])
                  else continue e s [])"

definition tick :: "'s cron_env \<Rightarrow> gotime \<Rightarrow> cronEntry list \<Rightarrow> 's \<Rightarrow> (cronEntry list \<times> 's \<times> goerr list) option" where
  "tick env now entries s =
     (case rd_elect (cv_driver env) \<lparr>le_Name = cg_LeaderName (cv_config env), le_WorkerID = cg_WorkerID (cv_config env),
             le_TTL = cg_LeaderTTL (cv_config env)\<rparr> s of
        (s', Inl e) \<Rightarrow> Some (entries, s', [wrap_prefix ''cron leader election'' e])
      | (s', Inr elected) \<Rightarrow> if \<not> elected then Some (entries, s', []) else tick_entries env now entries s')"

text \<open>
  \<^verbatim>\<open>Start\<close> with the environments and clock readings of the ticks before the context ends; the
  lease is given up on the way out.
\<close>

fun run_ticks :: "('s cron_env \<times> gotime) list \<Rightarrow> cronEntry list \<Rightarrow> 's \<Rightarrow> (cronEntry list \<times> 's \<times> goerr list) option" where
  "run_ticks [] entries s = Some (entries, s, [])"
| "run_ticks ((env, now) # ts) entries s =
     (case tick env now entries s of
        None \<Rightarrow> None
      | Some (entries', s', r) \<Rightarrow> map_option (\<lambda>(es, s'', r'). (es, s'', r @ r')) (run_ticks ts entries' s'))"

definition cron_Start :: "'s cron_driver \<Rightarrow> goerr \<Rightarrow> ('s cron_env \<times> gotime) list \<Rightarrow> CronScheduler \<Rightarrow> 's \<Rightarrow>
    (CronScheduler \<times> 's \<times> goerr list \<times> goerr) option" where
  "cron_Start drv ctxErr ts sch s =
     (case cs_configErr sch of
        Some e \<Rightarrow> Some (sch, s, [], e)
      | None \<Rightarrow>
          if cs_started sch then Some (sch, s, [], Errorf ''cron scheduler already started'')
          else (case run_ticks ts (cs_entries sch) s of
              None \<Rightarrow> None
            | Some (entries, s', r) \<Rightarrow>
                (case rd_resign drv \<lparr>lr_Name = cg_LeaderName (cs_config sch), lr_WorkerID = cg_WorkerID (cs_config sch)\<rparr> s' of
                   (s'', res) \<Rightarrow>
                     Some (sch\<lparr>cs_started := True, cs_entries := entries\<rparr>, s'',
                       r @ (case res of None \<Rightarrow> [] | Some e \<Rightarrow> [wrap_prefix ''cron leader resignation'' e]), ctxErr))))"

end
