(* ===== verification/Cron_Properties.thy ===== *)
theory Cron_Properties
  imports Cron Store_Interfaces
begin

text \<open>
  Durable periodic jobs with the catch-up policy that keeps every occurrence. Any number of
  schedulers may act at the same time, also two that both believe to be the leader, and any of them
  may stop between two store operations; the cursor and the permanent unique keys together make
  every occurrence be enqueued exactly once.
\<close>

section \<open>Schedulers that interleave\<close>

text \<open>
  Where a scheduler is inside the tick of the job: before it, about to enqueue the first of the
  remaining occurrences, or about to move the cursor past the one it has enqueued.
\<close>

datatype cron_pc = CIdle | CEnqueue gotime "gotime list" | CAdvance gotime gotime "gotime list"

definition scan_pc :: "schedule \<Rightarrow> int \<Rightarrow> gotime \<Rightarrow> gotime \<Rightarrow> cron_pc" where
  "scan_pc sched limit now original =
     (case scan_due sched True limit now 0 original [] of
        Inl _ \<Rightarrow> CIdle
      | Inr (found, _) \<Rightarrow> if found = [] then CIdle else CEnqueue original found)"

definition rows_with :: "(string \<Rightarrow> 's \<Rightarrow> JobRow option) \<Rightarrow> string \<Rightarrow> 's \<Rightarrow> string set" where
  "rows_with job_at key s = {k. \<exists>row. job_at k s = Some row \<and> UniqueKey row = key}"

text \<open>The unique key of an occurrence; it depends on no clock.\<close>

definition occurrence_key :: "CronConfig \<Rightarrow> PeriodicJob \<Rightarrow> gotime \<Rightarrow> string" where
  "occurrence_key cfg job occurrence =
     (let opts = the (io_UniqueOpts (occurrence_opts cfg job occurrence))
      in unique_prefix opts @ hex_bytes (Sum256 (json_object (unique_fields (ja_Kind (pj_Args job)) [] [] opts 0))))"

text \<open>The occurrences of a job, counted from its anchor.\<close>

definition occ :: "schedule \<Rightarrow> PeriodicJob \<Rightarrow> nat \<Rightarrow> gotime" where
  "occ sched job n = (sched ^^ n) (pj_StartAt job)"

abbreviation cursor_id :: "CronConfig \<Rightarrow> PeriodicJob \<Rightarrow> string" where
  "cursor_id cfg job \<equiv> durableScheduleCursorID (cg_LeaderName cfg) (pj_ID job)"

text \<open>
  Scheduler \<open>i\<close> has environment \<open>envs i\<close>. Anything else in the system may change the store as long
  as it leaves the cursor and the jobs of the occurrences alone.
\<close>

inductive cron_step :: "(nat \<Rightarrow> 's cron_env) \<Rightarrow> PeriodicJob \<Rightarrow> schedule \<Rightarrow> (string \<Rightarrow> 's \<Rightarrow> JobRow option) \<Rightarrow>
    ('s \<Rightarrow> gotime option) \<Rightarrow> ('s \<Rightarrow> bool) \<Rightarrow> 's \<times> (nat \<Rightarrow> cron_pc) \<Rightarrow> 's \<times> (nat \<Rightarrow> cron_pc) \<Rightarrow> bool"
  for envs job sched job_at cursor store_ok where
  load: "pcs i = CIdle \<Longrightarrow>
    rd_cursor (cv_driver (envs i)) \<lparr>cc_ID = cursor_id (cv_config (envs i)) job, cc_InitialAt = pj_StartAt job\<rparr> s = (s', Inr res) \<Longrightarrow>
    cron_step envs job sched job_at cursor store_ok (s, pcs)
      (s', pcs(i := scan_pc sched (maxCatchUp (cv_config (envs i)) job) now (cr_At res)))"
| enqueue: "pcs i = CEnqueue e (t # ts) \<Longrightarrow> store_ok s \<Longrightarrow> enqueueOccurrence (envs i) job t s = (s', r, queued) \<Longrightarrow>
    cron_step envs job sched job_at cursor store_ok (s, pcs) (s', pcs(i := if queued then CAdvance e t ts else CIdle))"
| move: "pcs i = CAdvance e t ts \<Longrightarrow>
    advanceCursor (envs i) (pj_ID job) (cursor_id (cv_config (envs i)) job) e t s = (s', r, advanced) \<Longrightarrow>
    cron_step envs job sched job_at cursor store_ok (s, pcs)
      (s', pcs(i := if advanced \<and> ts \<noteq> [] then CEnqueue t ts else CIdle))"
| stop: "cron_step envs job sched job_at cursor store_ok (s, pcs) (s, pcs(i := CIdle))"
| other: "cursor s' = cursor s \<Longrightarrow>
    (\<And>t. rows_with job_at (occurrence_key (cv_config (envs 0)) job t) s' = rows_with job_at (occurrence_key (cv_config (envs 0)) job t) s) \<Longrightarrow>
    cron_step envs job sched job_at cursor store_ok (s, pcs) (s', pcs)"

abbreviation cron_steps where
  "cron_steps envs job sched job_at cursor store_ok \<equiv> (cron_step envs job sched job_at cursor store_ok)\<^sup>*\<^sup>*"

section \<open>The scan\<close>

lemma occ_Suc: "occ sched job (Suc n) = sched (occ sched job n)"
  by (simp add: occ_def)

lemma scan_due_occ:
  assumes "scan_due sched b limit now i cursor found0 = Inr (found, complete)"
    and "cursor = occ sched job (n + length found0)" "found0 = map (occ sched job) [Suc n..<Suc n + length found0]"
  shows "found = map (occ sched job) [Suc n..<Suc n + length found]"
  using assms
proof (induction sched b limit now i cursor found0 rule: scan_due.induct)
  case (1 sched b limit now i cursor found0)
  have split: "Suc n + length (found0 @ [sched cursor]) = Suc (Suc n + length found0)" by simp
  have next_occ: "sched cursor = occ sched job (n + length (found0 @ [sched cursor]))" using 1(3) by (simp add: occ_def)
  have found1: "found0 @ [sched cursor] = map (occ sched job) [Suc n..<Suc n + length (found0 @ [sched cursor])]"
    unfolding split using 1(4) next_occ by simp
  let ?more = "\<not> i \<ge> 100000 \<and> \<not> (IsZero (sched cursor) \<or> \<not> cursor < sched cursor) \<and> \<not> now < sched cursor \<and>
    \<not> (b \<and> int (length (found0 @ [sched cursor])) \<ge> limit) \<and>
    scan_due sched b limit now (i + 1) (sched cursor) (found0 @ [sched cursor]) = Inr (found, complete)"
  have "found = found0 \<or> found = found0 @ [sched cursor] \<or> ?more"
    using 1(2) unfolding scan_due.simps [of sched b limit now i cursor found0] by (auto simp: Let_def split: if_splits)
  then show ?case
  proof (elim disjE)
    assume "found = found0"
    with 1(4) show ?thesis by simp
  next
    assume "found = found0 @ [sched cursor]"
    with found1 show ?thesis by simp
  next
    assume more: ?more
    then show ?thesis using 1(1) [OF _ HOL.refl _ _ HOL.refl _ _ next_occ found1] by blast
  qed
qed

lemma scan_pc_occ:
  assumes "scan_pc sched limit now original = CEnqueue e ts" "original = occ sched job n"
  shows "e = occ sched job n \<and> ts = map (occ sched job) [Suc n..<Suc n + length ts]"
  using assms scan_due_occ [of sched True limit now 0 original "[]" ts _ job n]
  by (auto simp: scan_pc_def split: sum.splits if_splits)

lemma scan_pc_cases: "scan_pc sched limit now original = CIdle \<or> (\<exists>ts. ts \<noteq> [] \<and> scan_pc sched limit now original = CEnqueue original ts)"
  by (auto simp: scan_pc_def split: sum.splits)

text \<open>With a schedule that advances, the scan finds what is due, up to its two bounds.\<close>

lemma scan_due_result:
  assumes "\<And>m. occ sched job m < occ sched job (Suc m)" "\<And>m. occ sched job (Suc m) \<noteq> 0"
    and "cursor = occ sched job j" "0 \<le> i" "i \<le> 100000"
  shows "\<exists>k complete. scan_due sched True limit now i cursor found0 =
      Inr (found0 @ map (occ sched job) [Suc j..<Suc j + k], complete) \<and>
    (\<forall>m. j < m \<and> m \<le> j + k \<longrightarrow> occ sched job m \<le> now) \<and> i + int k \<le> 100000 \<and>
    (now < occ sched job (Suc (j + k)) \<or> limit \<le> int (length found0 + k) \<or> i + int k = 100000)"
  using assms
proof (induction sched "True" limit now i cursor found0 arbitrary: j rule: scan_due.induct)
  case (1 sched limit now i cursor found0)
  let ?next = "sched cursor"
  have nxt: "?next = occ sched job (Suc j)" using 1(4) by (simp add: occ_def)
  have adv: "\<not> (IsZero ?next \<or> \<not> cursor < ?next)" using 1(2) [of j] 1(3) [of j] 1(4) nxt by (simp add: IsZero_def)
  note unfold = scan_due.simps [of sched True limit now i cursor found0]
  consider "i = 100000" | "i < 100000" "now < ?next" | "i < 100000" "\<not> now < ?next" "int (length (found0 @ [?next])) \<ge> limit"
    | "i < 100000" "\<not> now < ?next" "\<not> int (length (found0 @ [?next])) \<ge> limit" using 1(6) by linarith
  then show ?case
  proof cases
    case 1
    then show ?thesis by (intro exI [of _ 0] exI [of _ False]) (simp add: scan_due.simps)
  next
    case 2
    with adv nxt show ?thesis by (intro exI [of _ 0] exI [of _ True]) (simp add: unfold Let_def)
  next
    case 3
    with adv nxt show ?thesis
      by (intro exI [of _ 1] exI [of _ False]) (auto simp: unfold Let_def le_Suc_eq)
  next
    case 4
    have "\<exists>k complete. scan_due sched True limit now (i + 1) ?next (found0 @ [?next]) =
        Inr ((found0 @ [?next]) @ map (occ sched job) [Suc (Suc j)..<Suc (Suc j) + k], complete) \<and>
      (\<forall>m. Suc j < m \<and> m \<le> Suc j + k \<longrightarrow> occ sched job m \<le> now) \<and> (i + 1) + int k \<le> 100000 \<and>
      (now < occ sched job (Suc (Suc j + k)) \<or> limit \<le> int (length (found0 @ [?next]) + k) \<or> (i + 1) + int k = 100000)"
      using 1(1) [of "?next" "found0 @ [?next]" "Suc j"] 4 adv nxt 1(2,3,5) by simp
    then obtain k complete where k: "scan_due sched True limit now (i + 1) ?next (found0 @ [?next]) =
        Inr ((found0 @ [?next]) @ map (occ sched job) [Suc (Suc j)..<Suc (Suc j) + k], complete)"
      "\<forall>m. Suc j < m \<and> m \<le> Suc j + k \<longrightarrow> occ sched job m \<le> now" "(i + 1) + int k \<le> 100000"
      "now < occ sched job (Suc (Suc j + k)) \<or> limit \<le> int (length (found0 @ [?next]) + k) \<or> (i + 1) + int k = 100000" by blast
    have ups: "[Suc j..<Suc j + Suc k] = Suc j # [Suc (Suc j)..<Suc (Suc j) + k]" by (simp add: upt_conv_Cons del: upt_Suc)
    have "scan_due sched True limit now i cursor found0 = Inr (found0 @ map (occ sched job) [Suc j..<Suc j + Suc k], complete)"
      unfolding ups using 4 adv k(1) nxt by (simp add: unfold Let_def del: upt_Suc)
    moreover have "occ sched job m \<le> now" if "j < m" "m \<le> j + Suc k" for m
      using that k(2) 4(2) nxt by (cases "m = Suc j") auto
    ultimately show ?thesis using k(3,4) by (intro exI [of _ "Suc k"] exI [of _ complete]) auto
  qed
qed

section \<open>What the scheduler asks of a driver\<close>

text \<open>
  One cursor and the jobs of a store. \<open>room n\<close> says that \<open>n\<close> more jobs fit. Inserting leaves the
  cursor alone and the cursor operations leave the jobs alone, and a job with a permanent key is
  new only when no stored job has that key.
\<close>

locale schedule_store =
  jobs: job_store insert_jobs job_at store_ok + cursors: cursor_store get_or_create advance_cursor cursor
  for insert_jobs :: "JobInsertParams list \<Rightarrow> 's \<Rightarrow> 's \<times> JobInsertResult list res"
    and job_at :: "string \<Rightarrow> 's \<Rightarrow> JobRow option"
    and store_ok :: "'s \<Rightarrow> bool"
    and get_or_create :: "gotime \<Rightarrow> 's \<Rightarrow> 's \<times> ScheduleCursorResult"
    and advance_cursor :: "gotime \<Rightarrow> gotime \<Rightarrow> 's \<Rightarrow> 's \<times> bool"
    and cursor :: "'s \<Rightarrow> gotime option" +
  fixes room :: "nat \<Rightarrow> 's \<Rightarrow> bool"
  assumes insert_keeps_cursor: "cursor (fst (insert_jobs ps s)) = cursor s"
    and get_keeps_jobs: "job_at k (fst (get_or_create i s)) = job_at k s"
    and advance_keeps_jobs: "job_at k (fst (advance_cursor e t s)) = job_at k s"
    and permanent_once: "store_ok s \<Longrightarrow>
      insert_jobs [p] s = (s', Inr [\<lparr>ir_Job = Some row, ir_UniqueSkip = False\<rparr>]) \<Longrightarrow>
      IsPermanentUniqueKey (ip_UniqueKey p) \<Longrightarrow> job_at k s = Some r \<Longrightarrow> UniqueKey r \<noteq> ip_UniqueKey p"
    and room_ok: "room (Suc n) s \<Longrightarrow> store_ok s"
    and room_insert: "room (Suc n) s \<Longrightarrow> room n (fst (insert_jobs [p] s))"
    and room_get: "room n (fst (get_or_create i s)) = room n s"
    and room_advance: "room n (fst (advance_cursor e t s)) = room n s"

text \<open>The environments of the schedulers of one group, on a driver with these operations.\<close>

definition served :: "(JobInsertParams list \<Rightarrow> 's \<Rightarrow> 's \<times> JobInsertResult list res) \<Rightarrow>
    (gotime \<Rightarrow> 's \<Rightarrow> 's \<times> ScheduleCursorResult) \<Rightarrow> (gotime \<Rightarrow> gotime \<Rightarrow> 's \<Rightarrow> 's \<times> bool) \<Rightarrow>
    PeriodicJob \<Rightarrow> 's cron_env \<Rightarrow> bool" where
  "served insert_jobs get_or_create advance_cursor job env \<longleftrightarrow>
     cd_insert (rd_client (cv_driver env)) = insert_jobs \<and>
     (\<forall>t s. rd_cursor (cv_driver env) \<lparr>cc_ID = cursor_id (cv_config env) job, cc_InitialAt = t\<rparr> s =
        apsnd Inr (get_or_create t s)) \<and>
     (\<forall>e t s. rd_advance (cv_driver env) \<lparr>ca_ID = cursor_id (cv_config env) job, ca_Expected = e, ca_Next = t\<rparr> s =
        apsnd Inr (advance_cursor e t s))"

lemma served_get:
  "served insert_jobs get_or_create advance_cursor job env \<Longrightarrow>
    rd_cursor (cv_driver env) \<lparr>cc_ID = cursor_id (cv_config env) job, cc_InitialAt = t\<rparr> s = (s', Inr res) \<longleftrightarrow>
    get_or_create t s = (s', res)"
  by (cases "get_or_create t s") (auto simp: served_def)

lemma served_advance:
  "served insert_jobs get_or_create advance_cursor job env \<Longrightarrow>
    advanceCursor env jobID (cursor_id (cv_config env) job) e t s =
      (fst (advance_cursor e t s), [], snd (advance_cursor e t s))"
  by (cases "advance_cursor e t s") (auto simp: served_def advanceCursor_def)

definition at_most_one :: "'a set \<Rightarrow> bool" where
  "at_most_one A \<longleftrightarrow> (\<forall>x\<in>A. \<forall>y\<in>A. x = y)"

definition exactly_one :: "'a set \<Rightarrow> bool" where
  "exactly_one A \<longleftrightarrow> (\<exists>x. A = {x})"

lemma exactly_one_iff: "exactly_one A \<longleftrightarrow> A \<noteq> {} \<and> at_most_one A"
proof
  assume "A \<noteq> {} \<and> at_most_one A"
  then obtain x where "x \<in> A" "\<forall>y\<in>A. y = x" by (auto simp: at_most_one_def)
  then have "A = {x}" by blast
  then show "exactly_one A" by (simp add: exactly_one_def)
qed (auto simp: exactly_one_def at_most_one_def)

lemma occurrence_opts_unique:
  "io_UniqueOpts (occurrence_opts cfg job t) =
     Some \<lparr>uo_ByArgs = False, uo_Key = occurrence_text cfg job t, uo_ByQueue = False, uo_ByPeriod = 0, uo_Forever = True\<rparr>"
  by (simp add: occurrence_opts_def)

lemma occurrence_key_built:
  assumes "buildInsertParams cfg0 now (pj_Args job) (Some (occurrence_opts cfg job t)) = Inr p"
  shows "ip_UniqueKey p = occurrence_key cfg job t" "IsPermanentUniqueKey (ip_UniqueKey p)"
proof -
  let ?o = "\<lparr>uo_ByArgs = False, uo_Key = occurrence_text cfg job t, uo_ByQueue = False, uo_ByPeriod = 0, uo_Forever = True\<rparr>"
  let ?opts = "occurrence_opts cfg job t"
  let ?queue = "if io_Queue ?opts \<noteq> [] then io_Queue ?opts else cf_DefaultQueue cfg0"
  have nn: "\<not> ja_nil (pj_Args job)" "ja_Kind (pj_Args job) \<noteq> []"
    using assms by (simp_all add: buildInsertParams_def split: if_splits)
  obtain argsJSON where mar: "ja_marshal (pj_Args job) = Inr argsJSON"
    using assms nn by (cases "ja_marshal (pj_Args job)") (simp_all add: buildInsertParams_def)
  obtain tv where ver: "type_version (pj_Args job) = Inr tv"
    using assms nn mar by (cases "type_version (pj_Args job)") (simp_all add: buildInsertParams_def)
  have chk: "check_opts ?opts = None"
    using assms nn mar ver by (cases "check_opts ?opts") (simp_all add: buildInsertParams_def)
  note built = nn mar ver chk
  obtain key where "buildUniqueKey (pj_Args job) ?queue (io_UniqueOpts ?opts) now = Inr key"
    using assms built by (simp add: buildInsertParams_def Let_def split: sum.splits)
  with assms built have key: "buildUniqueKey (pj_Args job) ?queue (Some ?o) now = Inr key" "ip_UniqueKey p = key"
    by (auto simp: buildInsertParams_def encode_params_def occurrence_opts_unique Let_def split: sum.splits)
  have "unique_fields kind ?queue [] ?o now = unique_fields kind [] [] ?o 0" for kind
    by (simp add: unique_fields_def opt_field_def period_start_def)
  with key(1) have "key = occurrence_key cfg job t"
    by (simp add: buildUniqueKey_def occurrence_key_def occurrence_opts_unique Let_def)
  with key(2) show "ip_UniqueKey p = occurrence_key cfg job t" by simp
  show "IsPermanentUniqueKey (ip_UniqueKey p)"
    unfolding key(2) using key(1) by (rule buildUniqueKey_shape)
      (simp add: unique_prefix_def IsPermanentUniqueKey_def permanentUniqueKeyPrefix_def HasPrefix_def)
qed

lemma occurrence_key_group:
  "cg_LeaderName cfg = cg_LeaderName cfg' \<Longrightarrow> occurrence_key cfg job t = occurrence_key cfg' job t"
  by (simp add: occurrence_key_def occurrence_opts_unique occurrence_text_def)

context schedule_store
begin

abbreviation rows :: "string \<Rightarrow> 's \<Rightarrow> string set" where
  "rows key s \<equiv> rows_with job_at key s"

text \<open>One occurrence is enqueued.\<close>

lemma enqueue_occurrence:
  assumes ok: "store_ok s" and ins: "cd_insert (rd_client (cv_driver env)) = insert_jobs"
    and enq: "enqueueOccurrence env job t s = (s', r, queued)"
  shows "cursor s' = cursor s"
    and "rows key s \<subseteq> rows key s'"
    and "at_most_one (rows key s) \<Longrightarrow> at_most_one (rows key s')"
    and "queued \<Longrightarrow> rows (occurrence_key (cv_config env) job t) s' \<noteq> {}"
proof -
  let ?key = "occurrence_key (cv_config env) job t"
  have "cursor s' = cursor s \<and> rows key s \<subseteq> rows key s' \<and> (at_most_one (rows key s) \<longrightarrow> at_most_one (rows key s')) \<and>
      (queued \<longrightarrow> rows ?key s' \<noteq> {})"
  proof (cases "buildInsertParams (cron_client :: 's ClientConfig) (cv_clock env) (pj_Args job) (Some (occurrence_opts (cv_config env) job t))")
    case (Inl e)
    with enq have "s' = s" "\<not> queued" by (simp_all add: enqueueOccurrence_def Enqueue_def enqueue_one_def)
    then show ?thesis by simp
  next
    case (Inr p)
    note key = occurrence_key_built [OF Inr]
    have adm: "cf_Admission (cron_client :: 's ClientConfig) = None" by (simp add: cron_client_def NewClient_def)
    from jobs.enqueue_one_stores [OF ok ins adm Inr] obtain s1 row skip where
      e: "enqueue_one cron_client (rd_client (cv_driver env)) False (cv_clock env) (pj_Args job)
            (Some (occurrence_opts (cv_config env) job t)) s =
          (s1, observe cron_client (rd_client (cv_driver env)) [p] False [\<lparr>ir_Job = Some row, ir_UniqueSkip = skip\<rparr>] None,
           Inr \<lparr>ir_Job = Some row, ir_UniqueSkip = skip\<rparr>)"
      and at: "job_at (ID row) s1 = Some row"
      and c: "if skip then s1 = s \<and> ip_UniqueKey p \<noteq> [] \<and> UniqueKey row = ip_UniqueKey p
        else row_of p row \<and> job_at (ID row) s = None \<and> (\<forall>k. k \<noteq> ID row \<longrightarrow> job_at k s1 = job_at k s)" by blast
    have s': "s' = s1" "queued" using enq e by (simp_all add: enqueueOccurrence_def Enqueue_def)
    have urow: "UniqueKey row = ?key" using c key(1) by (auto simp: row_of_def split: if_splits)
    show ?thesis
    proof (cases skip)
      case True
      with c at urow show ?thesis by (auto simp: s' rows_with_def)
    next
      case False
      obtain r1 where insr: "insert_jobs [p] s = (s1, r1)" using e Inr adm ins
        by (cases "insert_jobs [p] s") (auto simp: enqueue_one_def admit_def Let_def split: sum.splits list.splits)
      have r1: "r1 = Inr [\<lparr>ir_Job = Some row, ir_UniqueSkip = False\<rparr>]"
        using e Inr adm ins insr False
        by (auto simp: enqueue_one_def admit_def Let_def split: sum.splits list.splits)
      note once = permanent_once [OF ok insr [unfolded r1] key(2)]
      have "rows ?key s = {}" using once by (auto simp: rows_with_def key(1))
      moreover have "rows ?key s' = {ID row}"
        using c False at urow once by (auto simp: s' rows_with_def key(1))
      moreover have "rows key s' = rows key s" if "key \<noteq> ?key"
        using that c False at urow by (auto simp: s' rows_with_def) (metis option.inject option.distinct(1))+
      moreover have "cursor s' = cursor s" using insert_keeps_cursor [of "[p]" s] insr s' by simp
      ultimately show ?thesis by (cases "key = ?key") (auto simp: at_most_one_def)
    qed
  qed
  then show "cursor s' = cursor s" "rows key s \<subseteq> rows key s'" "at_most_one (rows key s) \<Longrightarrow> at_most_one (rows key s')"
    "queued \<Longrightarrow> rows ?key s' \<noteq> {}" by blast+
qed

text \<open>
  The invariant: no occurrence has two jobs, every occurrence up to the cursor has one, and a
  scheduler inside a tick knows an occurrence up to which every one has its job.
\<close>

definition covered :: "(gotime \<Rightarrow> string) \<Rightarrow> (nat \<Rightarrow> gotime) \<Rightarrow> nat \<Rightarrow> 's \<Rightarrow> bool" where
  "covered key at n s \<longleftrightarrow> (\<forall>m. 1 \<le> m \<and> m \<le> n \<longrightarrow> rows (key (at m)) s \<noteq> {})"

definition pc_ok :: "(gotime \<Rightarrow> string) \<Rightarrow> (nat \<Rightarrow> gotime) \<Rightarrow> cron_pc \<Rightarrow> 's \<Rightarrow> bool" where
  "pc_ok key at pc s \<longleftrightarrow> (case pc of
      CIdle \<Rightarrow> True
    | CEnqueue e ts \<Rightarrow> \<exists>n. e = at n \<and> ts = map at [Suc n..<Suc n + length ts] \<and> covered key at n s
    | CAdvance e t ts \<Rightarrow> \<exists>n. e = at n \<and> t = at (Suc n) \<and> ts = map at [Suc (Suc n)..<Suc (Suc n) + length ts] \<and>
        covered key at (Suc n) s)"

definition schedule_inv :: "(gotime \<Rightarrow> string) \<Rightarrow> (nat \<Rightarrow> gotime) \<Rightarrow> 's \<times> (nat \<Rightarrow> cron_pc) \<Rightarrow> bool" where
  "schedule_inv key at st \<longleftrightarrow>
     (\<forall>m. at_most_one (rows (key (at m)) (fst st))) \<and>
     (\<forall>c. cursor (fst st) = Some c \<longrightarrow> (\<exists>n. c = at n \<and> covered key at n (fst st))) \<and>
     (\<forall>i. pc_ok key at (snd st i) (fst st))"

text \<open>Jobs of occurrences are only added, so what is covered stays covered.\<close>

lemma inv_grow:
  assumes inv: "schedule_inv key at (s, pcs)" and cur: "cursor s' = cursor s"
    and grow: "\<And>k. rows k s \<subseteq> rows k s'" and one: "\<And>m. at_most_one (rows (key (at m)) s')"
    and pc: "pc_ok key at pc s'"
  shows "schedule_inv key at (s', pcs(i := pc))"
proof -
  have cov: "covered key at n s'" if "covered key at n s" for n using that grow by (force simp: covered_def)
  then have "pc_ok key at q s'" if "pc_ok key at q s" for q using that by (auto simp: pc_ok_def split: cron_pc.splits)
  with inv pc have "pc_ok key at ((pcs(i := pc)) j) s'" for j by (simp add: schedule_inv_def)
  moreover have "\<exists>n. c = at n \<and> covered key at n s'" if "cursor s' = Some c" for c
    using inv cov that cur unfolding schedule_inv_def by (metis fst_conv)
  ultimately show ?thesis using one by (simp add: schedule_inv_def)
qed

lemma map_upt_Cons:
  assumes "t # ts = map at [Suc n..<Suc n + length (t # ts)]"
  shows "t = at (Suc n)" "ts = map at [Suc (Suc n)..<Suc (Suc n) + length ts]"
proof -
  have eq: "[Suc n..<Suc n + length (t # ts)] = Suc n # [Suc (Suc n)..<Suc (Suc n) + length ts]"
    by (simp add: upt_conv_Cons del: upt_Suc)
  show "t = at (Suc n)" "ts = map at [Suc (Suc n)..<Suc (Suc n) + length ts]"
    using assms unfolding eq by (simp_all only: list.map list.inject)
qed

lemma inv_step:
  assumes step: "cron_step envs job sched job_at cursor store_ok st st'"
    and served: "\<And>i. served insert_jobs get_or_create advance_cursor job (envs i)"
    and grp: "\<And>i. cg_LeaderName (cv_config (envs i)) = cg_LeaderName (cv_config (envs 0))"
    and inv: "schedule_inv (occurrence_key (cv_config (envs 0)) job) (occ sched job) st"
  shows "schedule_inv (occurrence_key (cv_config (envs 0)) job) (occ sched job) st'"
  using step inv
proof (cases rule: cron_step.cases)
  let ?key = "occurrence_key (cv_config (envs 0)) job" and ?at = "occ sched job"
  have one: "at_most_one (rows (?key (?at m)) (fst st))" for m using inv by (simp add: schedule_inv_def)
  {
    case (load pcs i s s' res now)
    have get: "get_or_create (pj_StartAt job) s = (s', res)"
      using load(4) served_get [OF served] by simp
    have "job_at k s' = job_at k s" for k using get_keeps_jobs [of k "pj_StartAt job" s] get by simp
    then have rows: "rows k s' = rows k s" for k by (simp add: rows_with_def)
    have cur: "cursor s' = Some (cr_At res)" using cursors.get_reads [of "pj_StartAt job" s] get by simp
    have cov: "covered ?key ?at n s' = covered ?key ?at n s" for n by (simp add: covered_def rows)
    have "\<exists>n. cr_At res = ?at n \<and> covered ?key ?at n s'"
    proof (cases "cursor s")
      case None
      then have "cr_At res = pj_StartAt job" using cursors.get_fresh [OF None, of "pj_StartAt job"] get by simp
      then show ?thesis by (intro exI [of _ 0]) (simp add: occ_def covered_def)
    next
      case (Some c)
      then have "cr_At res = c" using cursors.get_existing [OF Some, of "pj_StartAt job"] get by auto
      with inv Some load(1) cov show ?thesis by (auto simp: schedule_inv_def)
    qed
    then obtain n where n: "cr_At res = ?at n" "covered ?key ?at n s'" by blast
    let ?pc = "scan_pc sched (maxCatchUp (cv_config (envs i)) job) now (cr_At res)"
    have "pc_ok ?key ?at ?pc s'"
      using scan_pc_cases [of sched "maxCatchUp (cv_config (envs i)) job" now "cr_At res"]
    proof (elim disjE exE conjE)
      fix ts assume pc: "?pc = CEnqueue (cr_At res) ts"
      from scan_pc_occ [OF this n(1)] n(2) show ?thesis unfolding pc pc_ok_def cron_pc.case by blast
    qed (simp add: pc_ok_def)
    moreover have "pc_ok ?key ?at q s' = pc_ok ?key ?at q s" for q by (simp add: pc_ok_def cov split: cron_pc.splits)
    ultimately show ?thesis using inv load n rows cur cov by (auto simp: schedule_inv_def)
  next
    case (enqueue pcs i e t ts s s' r queued)
    have ins: "cd_insert (rd_client (cv_driver (envs i))) = insert_jobs" using served by (simp add: served_def)
    note eo = enqueue_occurrence [OF enqueue(4) ins enqueue(5)]
    have key: "occurrence_key (cv_config (envs i)) job u = ?key u" for u by (rule occurrence_key_group) (rule grp)
    have "pc_ok ?key ?at (CEnqueue e (t # ts)) s" using inv enqueue(1,3) by (simp add: schedule_inv_def) metis
    then obtain n where n: "e = ?at n" "t # ts = map ?at [Suc n..<Suc n + length (t # ts)]" "covered ?key ?at n s"
      by (auto simp: pc_ok_def)
    note tl = map_upt_Cons [OF n(2)]
    have "pc_ok ?key ?at (if queued then CAdvance e t ts else CIdle) s'"
    proof (cases queued)
      case True
      have "covered ?key ?at (Suc n) s'"
        using n(3) eo(2) eo(4) [OF True] tl(1) by (auto simp: covered_def key le_Suc_eq)
      with n(1) tl True show ?thesis by (auto simp: pc_ok_def)
    qed (simp add: pc_ok_def)
    with inv_grow [OF inv [unfolded enqueue(1)] eo(1) eo(2)] eo(3) one enqueue(1,2) show ?thesis by simp
  next
    case (move pcs i e t ts s s' r advanced)
    have adv: "advance_cursor e t s = (s', advanced)"
      using move(4) served_advance [OF served] by (auto simp: prod_eq_iff)
    have "job_at k s' = job_at k s" for k using advance_keeps_jobs [of k e t s] adv by simp
    then have rows: "rows k s' = rows k s" for k by (simp add: rows_with_def)
    have cov: "covered ?key ?at n s' = covered ?key ?at n s" for n by (simp add: covered_def rows)
    have "pc_ok ?key ?at (CAdvance e t ts) s" using inv move(1,3) by (simp add: schedule_inv_def) metis
    then obtain n where n: "e = ?at n" "t = ?at (Suc n)" "ts = map ?at [Suc (Suc n)..<Suc (Suc n) + length ts]"
      "covered ?key ?at (Suc n) s" by (auto simp: pc_ok_def)
    have "pc_ok ?key ?at (CEnqueue t ts) s'" unfolding pc_ok_def cron_pc.case cov using n by blast
    moreover have "pc_ok ?key ?at CIdle s'" by (simp add: pc_ok_def)
    ultimately have pc: "pc_ok ?key ?at (if advanced \<and> ts \<noteq> [] then CEnqueue t ts else CIdle) s'" by simp
    have pcs: "pc_ok ?key ?at q s' = pc_ok ?key ?at q s" for q by (simp add: pc_ok_def cov split: cron_pc.splits)
    have cur: "cursor s' = (if cursor s = Some e then Some t else cursor s)"
      using cursors.advance_hit [of s e t] cursors.advance_miss [of s e t] adv by (cases "cursor s = Some e") auto
    have "\<exists>m. c = ?at m \<and> covered ?key ?at m s'" if "cursor s' = Some c" for c
      using that cur inv move(1) n(2,4) unfolding schedule_inv_def cov by (auto split: if_splits)
    moreover define q where "q = (if advanced \<and> ts \<noteq> [] then CEnqueue t ts else CIdle)"
    have "pc_ok ?key ?at ((pcs(i := q)) j) s'" for j
      using pc inv move(1) pcs by (cases "j = i") (simp_all add: q_def schedule_inv_def)
    ultimately show ?thesis using inv move(1) rows unfolding move(2) q_def [symmetric] by (simp add: schedule_inv_def)
  next
    case (stop s pcs i)
    with inv show ?thesis by (auto simp: schedule_inv_def pc_ok_def)
  next
    case (other s' s pcs)
    have cov: "covered ?key ?at n s' = covered ?key ?at n s" for n by (simp add: covered_def other)
    have pcs: "pc_ok ?key ?at q s' = pc_ok ?key ?at q s" for q by (simp add: pc_ok_def cov split: cron_pc.splits)
    with inv other cov show ?thesis by (auto simp: schedule_inv_def)
  }
qed

lemma inv_steps:
  assumes "cron_steps envs job sched job_at cursor store_ok st st'"
    and "\<And>i. served insert_jobs get_or_create advance_cursor job (envs i)"
    and "\<And>i. cg_LeaderName (cv_config (envs i)) = cg_LeaderName (cv_config (envs 0))"
    and "schedule_inv (occurrence_key (cv_config (envs 0)) job) (occ sched job) st"
  shows "schedule_inv (occurrence_key (cv_config (envs 0)) job) (occ sched job) st'"
  using assms(1,4) by (induction rule: rtranclp_induct) (auto intro: inv_step assms(2,3))

lemma inv_fresh:
  assumes "cursor s = None" "\<And>t. rows (occurrence_key (cv_config (envs 0)) job t) s = {}"
  shows "schedule_inv (occurrence_key (cv_config (envs 0)) job) (occ sched job) (s, \<lambda>_. CIdle)"
  using assms by (simp add: schedule_inv_def pc_ok_def at_most_one_def)

lemma enqueue_works:
  assumes ins: "cd_insert (rd_client (cv_driver env)) = insert_jobs" and room: "room (Suc n) s"
    and "buildInsertParams (cron_client :: 's ClientConfig) (cv_clock env) (pj_Args job)
           (Some (occurrence_opts (cv_config env) job t)) = Inr p"
  shows "enqueueOccurrence env job t s = (fst (insert_jobs [p] s), [], True)"
proof -
  have adm: "cf_Admission (cron_client :: 's ClientConfig) = None" by (simp add: cron_client_def NewClient_def)
  obtain s' r where i: "insert_jobs [p] s = (s', r)" by fastforce
  from jobs.insert_one_job [OF room_ok [OF room] i] obtain row skip where
    "r = Inr [\<lparr>ir_Job = Some row, ir_UniqueSkip = skip\<rparr>]" by blast
  with i adm ins assms(3) show ?thesis by (simp add: enqueueOccurrence_def Enqueue_def enqueue_one_def admit_def)
qed

text \<open>A scheduler left alone enqueues all it has found and moves the cursor to the last one.\<close>

lemma catch_up_runs:
  assumes served: "served insert_jobs get_or_create advance_cursor job (envs i)"
    and builds: "\<And>t. \<exists>p. buildInsertParams (cron_client :: 's ClientConfig) (cv_clock (envs i)) (pj_Args job)
           (Some (occurrence_opts (cv_config (envs i)) job t)) = Inr p"
    and "ts \<noteq> []" "room (length ts) s" "cursor s = Some e" "pcs i = CEnqueue e ts"
  shows "\<exists>s'. catch_up (envs i) job (cursor_id (cv_config (envs i)) job) e ts s = (s', []) \<and>
    cursor s' = Some (last ts) \<and>
    cron_steps envs job sched job_at cursor store_ok (s, pcs) (s', pcs(i := CIdle))"
  using assms(3-6)
proof (induction ts arbitrary: s e pcs)
  case (Cons t ts)
  have ins: "cd_insert (rd_client (cv_driver (envs i))) = insert_jobs" using served by (simp add: served_def)
  obtain p where p: "buildInsertParams (cron_client :: 's ClientConfig) (cv_clock (envs i)) (pj_Args job)
           (Some (occurrence_opts (cv_config (envs i)) job t)) = Inr p" using builds by blast
  have room: "room (Suc (length ts)) s" using Cons.prems(2) by simp
  let ?s1 = "fst (insert_jobs [p] s)"
  let ?s2 = "fst (advance_cursor e t ?s1)"
  note enq = enqueue_works [OF ins room p]
  have step1: "cron_step envs job sched job_at cursor store_ok (s, pcs) (?s1, pcs(i := CAdvance e t ts))"
    using cron_step.enqueue [where pcs = pcs and i = i and envs = envs and store_ok = store_ok, OF Cons.prems(4) room_ok [OF room] enq]
    by simp
  have cur1: "cursor ?s1 = Some e" using insert_keeps_cursor Cons.prems(3) by simp
  have adv: "snd (advance_cursor e t ?s1)" "cursor ?s2 = Some t" using cursors.advance_hit [OF cur1] by auto
  have move: "advanceCursor (envs i) (pj_ID job) (cursor_id (cv_config (envs i)) job) e t ?s1 = (?s2, [], True)"
    using served_advance [OF served] adv(1) by simp
  have step2: "cron_step envs job sched job_at cursor store_ok (?s1, pcs(i := CAdvance e t ts))
      (?s2, pcs(i := if ts \<noteq> [] then CEnqueue t ts else CIdle))"
    using cron_step.move [where pcs = "pcs(i := CAdvance e t ts)" and i = i and envs = envs, OF _ move] by simp
  have room2: "room (length ts) ?s2" using room_insert [OF room] by (simp add: room_advance)
  have steps: "cron_steps envs job sched job_at cursor store_ok (s, pcs) (?s2, pcs(i := if ts \<noteq> [] then CEnqueue t ts else CIdle))"
    using step1 step2 by (rule converse_rtranclp_into_rtranclp [OF _ r_into_rtranclp])
  show ?case
  proof (cases "ts = []")
    case True
    with enq move adv have "catch_up (envs i) job (cursor_id (cv_config (envs i)) job) e (t # ts) s = (?s2, [])" by simp
    moreover have "cron_steps envs job sched job_at cursor store_ok (s, pcs) (?s2, pcs(i := CIdle))" using steps True by simp
    ultimately show ?thesis using adv(2) True by (metis last.simps)
  next
    case False
    from Cons.IH [OF False room2 adv(2), of "pcs(i := CEnqueue t ts)", OF fun_upd_same, unfolded fun_upd_upd] obtain s' where
      rest: "catch_up (envs i) job (cursor_id (cv_config (envs i)) job) t ts ?s2 = (s', [])" "cursor s' = Some (last ts)"
      "cron_steps envs job sched job_at cursor store_ok (?s2, pcs(i := CEnqueue t ts)) (s', pcs(i := CIdle))" by blast
    have "cron_steps envs job sched job_at cursor store_ok (s, pcs) (?s2, pcs(i := CEnqueue t ts))"
      using steps False by simp
    with rest(3) have "cron_steps envs job sched job_at cursor store_ok (s, pcs) (s', pcs(i := CIdle))" by (rule rtranclp_trans [rotated])
    moreover have "catch_up (envs i) job (cursor_id (cv_config (envs i)) job) e (t # ts) s = (s', [])" using rest(1) enq move by simp
    ultimately show ?thesis using rest(2) False by (intro exI [of _ s'] conjI) (assumption | simp)+
  qed
qed simp

lemma tick_runs:
  assumes served: "served insert_jobs get_or_create advance_cursor job (envs i)"
    and builds: "\<And>t. \<exists>p. buildInsertParams (cron_client :: 's ClientConfig) (cv_clock (envs i)) (pj_Args job)
           (Some (occurrence_opts (cv_config (envs i)) job t)) = Inr p"
    and pol: "pj_CatchUp job = CronCatchUpAll"
    and adv: "\<And>m. occ sched job m < occ sched job (Suc m)" "\<And>m. occ sched job (Suc m) \<noteq> 0"
    and room: "\<And>n. n \<le> 100000 \<Longrightarrow> room n s"
    and cur: "(case cursor s of None \<Rightarrow> n = 0 | Some c \<Rightarrow> c = occ sched job n)" and pc: "pcs i = CIdle"
  shows "\<exists>k s'. tickDurable (envs i) job sched now s = (s', []) \<and> cursor s' = Some (occ sched job (n + k)) \<and>
    cron_steps envs job sched job_at cursor store_ok (s, pcs) (s', pcs(i := CIdle)) \<and>
    (\<forall>m. n < m \<and> m \<le> n + k \<longrightarrow> occ sched job m \<le> now) \<and> int k \<le> 100000 \<and>
    (now < occ sched job (Suc (n + k)) \<or> maxCatchUp (cv_config (envs i)) job \<le> int k \<or> k = 100000)"
proof -
  let ?cid = "cursor_id (cv_config (envs i)) job" and ?limit = "maxCatchUp (cv_config (envs i)) job"
  obtain s1 res where get: "get_or_create (pj_StartAt job) s = (s1, res)" by fastforce
  have load: "rd_cursor (cv_driver (envs i)) \<lparr>cc_ID = ?cid, cc_InitialAt = pj_StartAt job\<rparr> s = (s1, Inr res)"
    using get served_get [OF served] by simp
  have at: "cr_At res = occ sched job n"
    using cur cursors.get_fresh [of s "pj_StartAt job"] cursors.get_existing [of s _ "pj_StartAt job"] get
    by (cases "cursor s") (auto simp: occ_def)
  have cur1: "cursor s1 = Some (occ sched job n)" using cursors.get_reads [of "pj_StartAt job" s] get at by simp
  have room1: "room m s1" if "m \<le> 100000" for m using room [OF that] room_get [of m "pj_StartAt job" s] get by simp
  from scan_due_result [OF adv at, of 0 ?limit now "[]"] obtain k complete where
    k: "scan_due sched True ?limit now 0 (cr_At res) [] = Inr (map (occ sched job) [Suc n..<Suc n + k], complete)"
    "\<forall>m. n < m \<and> m \<le> n + k \<longrightarrow> occ sched job m \<le> now" "int k \<le> 100000"
    "now < occ sched job (Suc (n + k)) \<or> ?limit \<le> int k \<or> int k = 100000" by auto
  let ?found = "map (occ sched job) [Suc n..<Suc n + k]"
  have step: "cron_step envs job sched job_at cursor store_ok (s, pcs) (s1, pcs(i := scan_pc sched ?limit now (cr_At res)))"
    by (rule cron_step.load [where pcs = pcs and i = i and envs = envs, OF pc load])
  have tick: "tickDurable (envs i) job sched now s =
      (if ?found = [] then (s1, []) else catch_up (envs i) job ?cid (occ sched job n) ?found s1)"
    using load k(1) pol by (simp add: tickDurable_def Let_def at)
  show ?thesis
  proof (cases "k = 0")
    case True
    then have "?found = []" by simp
    with step k(1) have "cron_steps envs job sched job_at cursor store_ok (s, pcs) (s1, pcs(i := CIdle))"
      by (auto simp: scan_pc_def)
    with tick cur1 k True show ?thesis by (intro exI [of _ 0] exI [of _ s1]) auto
  next
    case False
    then have ne: "?found \<noteq> []" by simp
    have step': "cron_steps envs job sched job_at cursor store_ok (s, pcs) (s1, pcs(i := CEnqueue (occ sched job n) ?found))"
      using step ne unfolding scan_pc_def k(1) by (simp add: at r_into_rtranclp del: upt_Suc)
    have rm: "room (length ?found) s1" using room1 k(3) by (simp del: upt_Suc)
    from catch_up_runs [where envs = envs and i = i and pcs = "pcs(i := CEnqueue (occ sched job n) ?found)",
        OF served builds ne rm cur1] obtain s' where
      run: "catch_up (envs i) job ?cid (occ sched job n) ?found s1 = (s', [])" "cursor s' = Some (last ?found)"
      "cron_steps envs job sched job_at cursor store_ok (s1, pcs(i := CEnqueue (occ sched job n) ?found)) (s', pcs(i := CIdle))"
      by auto
    have "last ?found = occ sched job (n + k)" using False by (simp add: last_map)
    moreover have "cron_steps envs job sched job_at cursor store_ok (s, pcs) (s', pcs(i := CIdle))"
      using rtranclp_trans [OF step' run(3)] .
    ultimately show ?thesis using tick ne run(1,2) k by (intro exI [of _ k] exI [of _ s']) auto
  qed
qed

end

section \<open>The in-memory driver\<close>

text \<open>The in-memory store together with the reading of its clock, which may move between any two calls.\<close>

type_synonym clocked = "gotime \<times> mem"

definition clocked_insert :: "JobInsertParams list \<Rightarrow> clocked \<Rightarrow> clocked \<times> JobInsertResult list res" where
  "clocked_insert ps s = (case JobInsertMany (\<lambda>_. fst s) ps (snd s) of (d, r) \<Rightarrow> ((fst s, d), r))"

definition clocked_job :: "string \<Rightarrow> clocked \<Rightarrow> JobRow option" where
  "clocked_job k s = mem_job k (snd s)"

definition clocked_ok :: "clocked \<Rightarrow> bool" where
  "clocked_ok s \<longleftrightarrow> mem_ok (snd s)"

definition clocked_get :: "string \<Rightarrow> gotime \<Rightarrow> clocked \<Rightarrow> clocked \<times> ScheduleCursorResult" where
  "clocked_get key i s = apfst (Pair (fst s)) (mem_cursor_get key i (snd s))"

definition clocked_advance :: "string \<Rightarrow> gotime \<Rightarrow> gotime \<Rightarrow> clocked \<Rightarrow> clocked \<times> bool" where
  "clocked_advance key e t s = apfst (Pair (fst s)) (mem_cursor_advance key e t (snd s))"

definition clocked_cursor :: "string \<Rightarrow> clocked \<Rightarrow> gotime option" where
  "clocked_cursor key s = mem_cursor key (snd s)"

definition clocked_room :: "nat \<Rightarrow> clocked \<Rightarrow> bool" where
  "clocked_room n s \<longleftrightarrow> mem_inv (snd s) \<and> unat (seq (snd s)) + n < 2 ^ 64"

lemma mem_permanent_once:
  assumes "mem_ok d" "JobInsertMany clk [p] d = (d', Inr [\<lparr>ir_Job = Some row, ir_UniqueSkip = False\<rparr>])"
    and "IsPermanentUniqueKey (ip_UniqueKey p)" "mem_job k d = Some r"
  shows "UniqueKey r \<noteq> ip_UniqueKey p"
proof
  assume u: "UniqueKey r = ip_UniqueKey p"
  have ne: "ip_UniqueKey p \<noteq> []"
    using assms(3) by (auto simp: IsPermanentUniqueKey_def permanentUniqueKeyPrefix_def HasPrefix_def)
  have "snd (insert_one (clk 0) p d) = \<lparr>ir_Job = Some row, ir_UniqueSkip = False\<rparr>"
    using assms(2) by (simp add: JobInsertMany_def split_beta Let_def)
  then have "inserts p d" using insert_one_skip(2) [of p d "clk 0"] by auto
  then have "findUniqueJob (ip_UniqueKey p) d = None" using ne by (simp add: inserts_def split: option.splits if_splits)
  then have "\<not> blocks_key (ip_UniqueKey p) r"
    using assms(4) unfolding findUniqueJob_def find_None_iff mem_job_gget by (force dest: map_of_SomeD)
  with u assms(3) show False by (simp add: blocks_key_def)
qed

lemma insert_room:
  assumes r: "mem_inv d" "unat (seq d) + Suc n < 2 ^ 64"
  shows "mem_inv (fst (JobInsertMany clk [p] d))" "unat (seq (fst (JobInsertMany clk [p] d))) + n < 2 ^ 64"
proof -
  have room: "unat (seq d) + 1 < 2 ^ 64" using r by simp
  have "fst (JobInsertMany clk [p] d) = fst (insert_one (clk 0) p d)" by (simp add: JobInsertMany_def split_beta Let_def)
  then show "unat (seq (fst (JobInsertMany clk [p] d))) + n < 2 ^ 64"
    using r seq_insert_one_le [OF room, of "clk 0" p] by simp
  show "mem_inv (fst (JobInsertMany clk [p] d))" using r by (intro mem_inv_JobInsertMany) simp_all
qed

lemma mem_inv_cursors: "mem_inv (d\<lparr>cursors := c\<rparr>) = mem_inv d"
  by (simp add: mem_inv_def)

lemma clocked_insert_one_job:
  assumes "clocked_ok s" "clocked_insert [p] s = (s', r)"
  shows "\<exists>row skip. r = Inr [\<lparr>ir_Job = Some row, ir_UniqueSkip = skip\<rparr>] \<and> clocked_job (ID row) s' = Some row \<and>
      (if skip then s' = s \<and> ip_UniqueKey p \<noteq> [] \<and> UniqueKey row = ip_UniqueKey p
       else row_of p row \<and> clocked_job (ID row) s = None \<and> (\<forall>k. k \<noteq> ID row \<longrightarrow> clocked_job k s' = clocked_job k s))"
proof -
  obtain t d where s: "s = (t, d)" by fastforce
  obtain d' where i: "JobInsertMany (\<lambda>_. t) [p] d = (d', r)" "s' = (t, d')"
    using assms(2) by (auto simp: s clocked_insert_def split: prod.splits)
  from mem_insert_one_job [OF _ i(1)] assms(1) obtain row skip where
    "r = Inr [\<lparr>ir_Job = Some row, ir_UniqueSkip = skip\<rparr>]" "mem_job (ID row) d' = Some row"
    "if skip then d' = d \<and> ip_UniqueKey p \<noteq> [] \<and> UniqueKey row = ip_UniqueKey p
     else row_of p row \<and> mem_job (ID row) d = None \<and> (\<forall>k. k \<noteq> ID row \<longrightarrow> mem_job k d' = mem_job k d)"
    by (auto simp: s clocked_ok_def)
  then show ?thesis by (intro exI [of _ row] exI [of _ skip]) (auto simp: s i(2) clocked_job_def)
qed

interpretation mem_schedules: schedule_store clocked_insert clocked_job clocked_ok
  "clocked_get key" "clocked_advance key" "clocked_cursor key" clocked_room for key
proof
  fix s p s' r row k n i e t ps at
  show "clocked_ok s \<Longrightarrow> clocked_insert [p] s = (s', r) \<Longrightarrow>
      \<exists>row skip. r = Inr [\<lparr>ir_Job = Some row, ir_UniqueSkip = skip\<rparr>] \<and> clocked_job (ID row) s' = Some row \<and>
      (if skip then s' = s \<and> ip_UniqueKey p \<noteq> [] \<and> UniqueKey row = ip_UniqueKey p
       else row_of p row \<and> clocked_job (ID row) s = None \<and> (\<forall>k. k \<noteq> ID row \<longrightarrow> clocked_job k s' = clocked_job k s))"
    by (rule clocked_insert_one_job)
  show "clocked_cursor key s = Some at \<Longrightarrow> clocked_get key i s = (s, \<lparr>cr_At = at, cr_Created = False\<rparr>)"
    using mem_cursors.get_existing [of key "snd s" at i] by (simp add: clocked_cursor_def clocked_get_def)
  show "clocked_cursor key s = None \<Longrightarrow> snd (clocked_get key i s) = \<lparr>cr_At = i, cr_Created = True\<rparr> \<and>
      clocked_cursor key (fst (clocked_get key i s)) = Some i"
    using mem_cursors.get_fresh [of key "snd s" i] by (simp add: clocked_cursor_def clocked_get_def)
  show "clocked_cursor key s = Some e \<Longrightarrow> snd (clocked_advance key e t s) \<and>
      clocked_cursor key (fst (clocked_advance key e t s)) = Some t"
    using mem_cursors.advance_hit [of key "snd s" e t] by (simp add: clocked_cursor_def clocked_advance_def)
  show "clocked_cursor key s \<noteq> Some e \<Longrightarrow> clocked_advance key e t s = (s, False)"
    using mem_cursors.advance_miss [of key "snd s" e t] by (simp add: clocked_cursor_def clocked_advance_def)
  show "clocked_cursor key (fst (clocked_insert ps s)) = clocked_cursor key s"
    using insert_many_coordination [of "\<lambda>_. fst s" ps "snd s"]
    by (simp add: clocked_cursor_def clocked_insert_def mem_cursor_def case_prod_beta)
  show "clocked_job k (fst (clocked_get key i s)) = clocked_job k s"
    by (simp add: clocked_job_def clocked_get_def mem_job_gget mem_cursor_get_def ScheduleCursorGetOrCreate_def split: option.splits)
  show "clocked_job k (fst (clocked_advance key e t s)) = clocked_job k s"
    by (simp add: clocked_job_def clocked_advance_def mem_job_gget mem_cursor_advance_def ScheduleCursorAdvance_def split: option.splits)
  show "clocked_room (Suc n) s \<Longrightarrow> clocked_ok s" by (simp add: clocked_room_def clocked_ok_def mem_ok_def)
  show "clocked_room (Suc n) s \<Longrightarrow> clocked_room n (fst (clocked_insert [p] s))"
    using insert_room [of "snd s" n "\<lambda>_. fst s" p] by (simp add: clocked_room_def clocked_insert_def case_prod_beta)
  show "clocked_room n (fst (clocked_get key i s)) = clocked_room n s"
    by (simp add: clocked_room_def clocked_get_def mem_cursor_get_def ScheduleCursorGetOrCreate_def mem_inv_cursors split: option.splits)
  show "clocked_room n (fst (clocked_advance key e t s)) = clocked_room n s"
    by (simp add: clocked_room_def clocked_advance_def mem_cursor_advance_def ScheduleCursorAdvance_def mem_inv_cursors split: option.splits)
next
  fix s p s' row k r
  assume a: "clocked_ok s" "clocked_insert [p] s = (s', Inr [\<lparr>ir_Job = Some row, ir_UniqueSkip = False\<rparr>])"
    "IsPermanentUniqueKey (ip_UniqueKey p)" "clocked_job k s = Some r"
  obtain d' where "JobInsertMany (\<lambda>_. fst s) [p] (snd s) = (d', Inr [\<lparr>ir_Job = Some row, ir_UniqueSkip = False\<rparr>])"
    using a(2) by (auto simp: clocked_insert_def split: prod.splits)
  from mem_permanent_once [OF _ this a(3), of k r] a(1,4) show "UniqueKey r \<noteq> ip_UniqueKey p"
    by (simp add: clocked_ok_def clocked_job_def)
qed

definition mem_cron :: "clocked cron_driver" where
  "mem_cron = \<lparr>rd_client = \<lparr>cd_Name = ''memory'', cd_NativeTx = False, cd_insert = clocked_insert, cd_insert_tx = clocked_insert\<rparr>,
     rd_elect = (\<lambda>p s. map_prod (Pair (fst s)) Inr (LeaderAttemptElect (fst s) p (snd s))),
     rd_resign = (\<lambda>p s. ((fst s, LeaderResign p (snd s)), None)),
     rd_cursor = (\<lambda>p s. map_prod (Pair (fst s)) Inr (ScheduleCursorGetOrCreate p (snd s))),
     rd_advance = (\<lambda>p s. map_prod (Pair (fst s)) Inr (ScheduleCursorAdvance p (snd s)))\<rparr>"

lemma mem_cron_served:
  assumes "cv_driver env = mem_cron"
  shows "served clocked_insert (clocked_get (cursor_id (cv_config env) job)) (clocked_advance (cursor_id (cv_config env) job)) job env"
  by (simp add: served_def assms mem_cron_def clocked_get_def clocked_advance_def mem_cursor_get_def mem_cursor_advance_def
      apfst_def apsnd_def map_prod_def split_beta)

text \<open>The jobs of an occurrence in the store.\<close>

definition occurrence_jobs :: "CronConfig \<Rightarrow> PeriodicJob \<Rightarrow> gotime \<Rightarrow> clocked \<Rightarrow> string set" where
  "occurrence_jobs cfg job t s = rows_with clocked_job (occurrence_key cfg job t) s"

text \<open>A run of the schedulers of a group over a store that does not know the periodic job yet.\<close>

definition cron_history :: "(nat \<Rightarrow> clocked cron_env) \<Rightarrow> PeriodicJob \<Rightarrow> schedule \<Rightarrow> clocked \<times> (nat \<Rightarrow> cron_pc) \<Rightarrow> bool" where
  "cron_history envs job sched st \<longleftrightarrow>
     (\<forall>i. cv_driver (envs i) = mem_cron \<and> cg_LeaderName (cv_config (envs i)) = cg_LeaderName (cv_config (envs 0))) \<and>
     (\<exists>s. clocked_cursor (cursor_id (cv_config (envs 0)) job) s = None \<and>
        (\<forall>t. occurrence_jobs (cv_config (envs 0)) job t s = {}) \<and>
        cron_steps envs job sched clocked_job (clocked_cursor (cursor_id (cv_config (envs 0)) job)) clocked_ok (s, \<lambda>_. CIdle) st)"

lemma history_exactly_once:
  assumes "cron_history envs job sched (s, pcs)"
  shows "(\<forall>n. at_most_one (occurrence_jobs (cv_config (envs 0)) job (occ sched job n) s)) \<and>
    (\<forall>c. clocked_cursor (cursor_id (cv_config (envs 0)) job) s = Some c \<longrightarrow>
       (\<exists>n. c = occ sched job n \<and>
          (\<forall>m. 1 \<le> m \<and> m \<le> n \<longrightarrow> exactly_one (occurrence_jobs (cv_config (envs 0)) job (occ sched job m) s))))"
proof -
  let ?cid = "cursor_id (cv_config (envs 0)) job"
  have grp: "cg_LeaderName (cv_config (envs i)) = cg_LeaderName (cv_config (envs 0))" "cv_driver (envs i) = mem_cron" for i
    using assms by (simp_all add: cron_history_def)
  obtain s0 where s0: "clocked_cursor ?cid s0 = None" "\<And>t. rows_with clocked_job (occurrence_key (cv_config (envs 0)) job t) s0 = {}"
    "cron_steps envs job sched clocked_job (clocked_cursor ?cid) clocked_ok (s0, \<lambda>_. CIdle) (s, pcs)"
    using assms by (auto simp: cron_history_def occurrence_jobs_def)
  have served: "served clocked_insert (clocked_get ?cid) (clocked_advance ?cid) job (envs i)" for i
    using mem_cron_served [OF grp(2), of i job] grp(1) [of i] by simp
  have "mem_schedules.schedule_inv ?cid (occurrence_key (cv_config (envs 0)) job) (occ sched job) (s, pcs)"
    using mem_schedules.inv_steps [OF s0(3) served grp(1) mem_schedules.inv_fresh [where envs = envs and job = job and s = s0, OF s0(1,2)]] .
  then show ?thesis
    unfolding mem_schedules.schedule_inv_def mem_schedules.covered_def occurrence_jobs_def exactly_one_iff by auto
qed

lemma tick_history:
  assumes hist: "cron_history envs job sched (s, pcs)" and pc: "pcs i = CIdle"
    and pol: "pj_CatchUp job = CronCatchUpAll"
    and adv: "\<And>m. occ sched job m < occ sched job (Suc m)" "\<And>m. occ sched job (Suc m) \<noteq> 0"
    and builds: "\<And>t. \<exists>p. buildInsertParams (cron_client :: clocked ClientConfig) (cv_clock (envs i)) (pj_Args job)
           (Some (occurrence_opts (cv_config (envs i)) job t)) = Inr p"
    and room: "mem_inv (snd s)" "unat (seq (snd s)) + 100000 < 2 ^ 64"
  shows "\<exists>n k s'. (case clocked_cursor (cursor_id (cv_config (envs 0)) job) s of None \<Rightarrow> n = 0 | Some c \<Rightarrow> c = occ sched job n) \<and>
    tickDurable (envs i) job sched now s = (s', []) \<and>
    clocked_cursor (cursor_id (cv_config (envs 0)) job) s' = Some (occ sched job (n + k)) \<and>
    cron_history envs job sched (s', pcs) \<and>
    (\<forall>m. 1 \<le> m \<and> m \<le> n + k \<longrightarrow> exactly_one (occurrence_jobs (cv_config (envs 0)) job (occ sched job m) s')) \<and>
    (\<forall>m. n < m \<and> m \<le> n + k \<longrightarrow> occ sched job m \<le> now) \<and>
    (now < occ sched job (Suc (n + k)) \<or> maxCatchUp (cv_config (envs i)) job \<le> int k \<or> k = 100000)"
proof -
  let ?cid = "cursor_id (cv_config (envs 0)) job" and ?at = "occ sched job"
  have grp: "cg_LeaderName (cv_config (envs j)) = cg_LeaderName (cv_config (envs 0))" "cv_driver (envs j) = mem_cron" for j
    using hist by (simp_all add: cron_history_def)
  have served: "served clocked_insert (clocked_get ?cid) (clocked_advance ?cid) job (envs i)"
    using mem_cron_served [OF grp(2), of i job] grp(1) [of i] by simp
  have rm: "clocked_room m s" if "m \<le> 100000" for m using room that by (simp add: clocked_room_def)
  obtain n where n: "case clocked_cursor ?cid s of None \<Rightarrow> n = 0 | Some c \<Rightarrow> c = ?at n"
    using history_exactly_once [OF hist] by (cases "clocked_cursor ?cid s") auto
  from mem_schedules.tick_runs [where envs = envs and i = i and pcs = pcs, OF served builds pol adv rm n pc, of now]
  obtain k s' where k: "tickDurable (envs i) job sched now s = (s', [])" "clocked_cursor ?cid s' = Some (?at (n + k))"
    "cron_steps envs job sched clocked_job (clocked_cursor ?cid) clocked_ok (s, pcs) (s', pcs(i := CIdle))"
    "\<forall>m. n < m \<and> m \<le> n + k \<longrightarrow> ?at m \<le> now"
    "now < ?at (Suc (n + k)) \<or> maxCatchUp (cv_config (envs i)) job \<le> int k \<or> k = 100000" by blast
  have hist': "cron_history envs job sched (s', pcs)"
  proof -
    have "cron_steps envs job sched clocked_job (clocked_cursor ?cid) clocked_ok (s, pcs) (s', pcs)"
      using k(3) unfolding fun_upd_idem [of pcs i, OF pc] .
    with hist show ?thesis unfolding cron_history_def by (meson rtranclp_trans)
  qed
  from history_exactly_once [OF this] k(2) obtain q where q: "?at (n + k) = ?at q"
    "\<forall>m. 1 \<le> m \<and> m \<le> q \<longrightarrow> exactly_one (occurrence_jobs (cv_config (envs 0)) job (?at m) s')" by auto
  have "strict_mono ?at" using adv(1) by (simp add: strict_mono_Suc_iff)
  with q(1) have "q = n + k" by (simp add: strict_mono_eq)
  with q(2) k hist' n show ?thesis by blast
qed



section \<open>Witnesses\<close>

definition sample_cron :: "clocked cron_env" where
  "sample_cron = \<lparr>cv_driver = mem_cron,
     cv_config = \<lparr>cg_TickInterval = Second, cg_LeaderName = ''g'', cg_WorkerID = ''w'', cg_LeaderTTL = 30 * Second, cg_MaxCatchUp = 100\<rparr>,
     cv_clock = 0, cv_time_text = (\<lambda>_. [])\<rparr>"

definition sample_periodic :: PeriodicJob where
  "sample_periodic = \<lparr>pj_ID = ''report'', pj_Schedule = Some (every_Next 10), pj_Args = sample_args, pj_Opts = None,
     pj_StartAt = 100, pj_CatchUp = CronCatchUpAll, pj_MaxCatchUp = 0\<rparr>"

lemma sample_occ: "occ (every_Next 10) sample_periodic n = 100 + 10 * int n"
  by (induction n) (simp_all add: occ_def sample_periodic_def every_Next_def IsZero_def)

lemma sample_builds:
  "\<exists>p. buildInsertParams (cron_client :: clocked ClientConfig) (cv_clock sample_cron) (pj_Args sample_periodic)
     (Some (occurrence_opts (cv_config sample_cron) sample_periodic t)) = Inr p"
  by (simp add: buildInsertParams_def sample_periodic_def sample_args_def type_version_def occurrence_opts_def
      check_opts_def zero_opts_def option_default_def buildUniqueKey_def encode_params_def EncodePayload_def Let_def)

lemma sample_history: "cron_history (\<lambda>_. sample_cron) sample_periodic (every_Next 10) ((5, mem_New), \<lambda>_. CIdle)"
  unfolding cron_history_def
proof (intro conjI allI exI)
  show "clocked_cursor (cursor_id (cv_config sample_cron) sample_periodic) (5, mem_New) = None"
    by (simp add: clocked_cursor_def mem_cursor_def mem_New_def)
  show "occurrence_jobs (cv_config sample_cron) sample_periodic t (5, mem_New) = {}" for t
    by (simp add: occurrence_jobs_def rows_with_def clocked_job_def mem_job_gget mem_New_def)
qed (simp_all add: sample_cron_def)

lemma sample_room: "mem_inv (snd (5, mem_New))" "unat (seq (snd (5, mem_New))) + 100000 < 2 ^ 64"
  using mem_inv_New by (simp_all add: mem_New_def)

lemma sample_strict:
  "occ (every_Next 10) sample_periodic m < occ (every_Next 10) sample_periodic (Suc m)"
  "occ (every_Next 10) sample_periodic (Suc m) \<noteq> 0"
  by (simp_all add: sample_occ)

lemma sample_all: "pj_CatchUp sample_periodic = CronCatchUpAll"
  by (simp add: sample_periodic_def)



section \<open>Two defects\<close>

text \<open>
  A periodic job without ID whose arguments are nil passes validation; its first tick panics,
  because the message about the failed enqueue asks the nil arguments for their kind.
\<close>

theorem nil_args_crash_the_scheduler:
  "\<exists>job. ValidateCronConfig ''memory'' mem_Capabilities [job] (cv_config sample_cron) = None \<and>
     tick sample_cron 5 [\<lparr>ce_job = job, ce_lastRun = 0\<rparr>] (5, mem_New) = None"
proof -
  let ?job = "sample_periodic\<lparr>pj_ID := [], pj_Args := sample_args\<lparr>ja_nil := True\<rparr>\<rparr>"
  have "ValidateCronConfig ''memory'' mem_Capabilities [?job] (cv_config sample_cron) = None"
    by (simp add: ValidateCronConfig_def mem_Capabilities_def sample_periodic_def sample_cron_def)
  moreover have "tick sample_cron 5 [\<lparr>ce_job = ?job, ce_lastRun = 0\<rparr>] (5, mem_New) = None"
    by (simp add: tick_def sample_cron_def mem_cron_def LeaderAttemptElect_def mem_New_def sample_periodic_def every_Next_def
        IsZero_def Enqueue_def enqueue_one_def buildInsertParams_def sample_args_def)
  ultimately show ?thesis by blast
qed

text \<open>
  The key of an occurrence joins group, ID and instant with colons. Job \<^verbatim>\<open>b:c\<close> of group \<^verbatim>\<open>a\<close> and job
  \<^verbatim>\<open>c\<close> of group \<^verbatim>\<open>a:b\<close> have different cursors but the same keys, so with the same kind the second
  group's occurrences are taken for duplicates.
\<close>

theorem occurrence_keys_of_two_groups_collide:
  assumes "cg_LeaderName cfg = ''a''" "cg_LeaderName cfg' = ''a:b''" "pj_ID job = ''b:c''" "pj_ID job' = ''c''"
    and "ja_Kind (pj_Args job) = ja_Kind (pj_Args job')"
  shows "occurrence_key cfg job t = occurrence_key cfg' job' t"
  using assms by (simp add: occurrence_key_def occurrence_opts_unique occurrence_text_def Let_def)

end
