(* ===== verification/Maintenance.thy ===== *)
theory Maintenance
  imports Pagination
begin

text \<open>
  Retention, bulk actions and dead letters (\<^verbatim>\<open>maintenance.go\<close>). A driver is the record of the
  operations the service calls; listing is an optional capability. Clock readings and the state of
  the context are arguments.
\<close>

section \<open>Data\<close>

record RetentionPolicy =
  rn_Completed :: duration
  rn_Discarded :: duration
  rn_Cancelled :: duration

record PruneResult =
  pr_Scanned :: int
  pr_Deleted :: int

record BulkFailure =
  bf_ID :: string
  bf_Error :: string

record BulkResult =
  br_Succeeded :: "string list"
  br_Failed :: "BulkFailure list"

record JobPage =
  pg_Items :: "JobRow list"
  pg_NextCursor :: string
  pg_HasMore :: bool

record 's maintenance_driver =
  md_Name :: string
  md_list :: "(JobListParams \<Rightarrow> 's \<Rightarrow> JobRow list res) option"
  md_get :: "string \<Rightarrow> 's \<Rightarrow> JobRow option res"
  md_delete :: "string \<Rightarrow> 's \<Rightarrow> 's \<times> goerr option"
  md_cancel :: "string \<Rightarrow> 's \<Rightarrow> 's \<times> goerr option"
  md_reschedule :: "RescheduleParams \<Rightarrow> 's \<Rightarrow> 's \<times> goerr option"

abbreviation (input) maintenancePageSize :: nat where "maintenancePageSize \<equiv> 500"

definition no_listing :: "'s maintenance_driver \<Rightarrow> goerr" where
  "no_listing drv = wrap_sentinel ErrUnsupported (''driver '' @ go_quote (md_Name drv) @ '' does not support job listing'')"

section \<open>Retention\<close>

text \<open>The progress of a pass: the store, the result and the errors so far.\<close>

type_synonym 's prune_state = "'s \<times> PruneResult \<times> goerr list"

definition expired :: "gotime \<Rightarrow> JobRow \<Rightarrow> bool" where
  "expired cutoff row \<longleftrightarrow> (case FinalizedAt row of None \<Rightarrow> False | Some at \<Rightarrow> \<not> cutoff < at)"

definition prune_row :: "'s maintenance_driver \<Rightarrow> gotime \<Rightarrow> 's prune_state \<Rightarrow> JobRow \<Rightarrow> 's prune_state" where
  "prune_row drv cutoff = (\<lambda>(s, result, errs) row.
     let result1 = result\<lparr>pr_Scanned := pr_Scanned result + 1\<rparr>
     in if \<not> expired cutoff row then (s, result1, errs)
        else (case md_delete drv (ID row) s of
            (s', Some e) \<Rightarrow> (s', result1, errs @ [wrap_prefix (''delete job '' @ ID row) e])
          | (s', None) \<Rightarrow> (s', result1\<lparr>pr_Deleted := pr_Deleted result1 + 1\<rparr>, errs)))"

definition prune_params :: "JobState \<Rightarrow> string \<Rightarrow> JobListParams" where
  "prune_params state cursor =
     \<lparr>jl_Queue = [], jl_State = state, jl_Kind = [], jl_Limit = int maintenancePageSize, jl_Cursor = cursor\<rparr>"

text \<open>The pages of one state; the second component is the error of a listing that failed.\<close>

partial_function (option) prune_pages ::
  "'s maintenance_driver \<Rightarrow> (JobListParams \<Rightarrow> 's \<Rightarrow> JobRow list res) \<Rightarrow> JobState \<Rightarrow> gotime \<Rightarrow> string \<Rightarrow> 's prune_state \<Rightarrow>
   ('s prune_state \<times> goerr option) option" where
  "prune_pages drv list_jobs state cutoff cursor st =
     (case list_jobs (prune_params state cursor) (fst st) of
        Inl e \<Rightarrow> Some (st, Some (wrap_prefix (''list '' @ job_state_text state @ '' jobs for retention'') e))
      | Inr rows \<Rightarrow>
          if rows = [] then Some (st, None)
          else let st' = foldl (prune_row drv cutoff) st rows
               in if length rows < maintenancePageSize then Some (st', None)
                  else prune_pages drv list_jobs state cutoff (EncodeJobCursor (last rows)) st')"

text \<open>The three states with their retention, each with the clock reading of its pass.\<close>

fun prune_items :: "'s maintenance_driver \<Rightarrow> (JobListParams \<Rightarrow> 's \<Rightarrow> JobRow list res) \<Rightarrow> (JobState \<times> duration \<times> gotime) list \<Rightarrow>
    's prune_state \<Rightarrow> ('s prune_state \<times> goerr option) option" where
  "prune_items drv list_jobs [] st = Some (st, None)"
| "prune_items drv list_jobs ((state, retention, now) # items) st =
     (if retention = 0 then prune_items drv list_jobs items st
      else (case prune_pages drv list_jobs state (now - retention) [] st of
          None \<Rightarrow> None
        | Some (st', Some e) \<Rightarrow> Some (st', Some e)
        | Some (st', None) \<Rightarrow> prune_items drv list_jobs items st'))"

definition retention_items :: "RetentionPolicy \<Rightarrow> (nat \<Rightarrow> gotime) \<Rightarrow> (JobState \<times> duration \<times> gotime) list" where
  "retention_items policy clk =
     [(JobStateCompleted, rn_Completed policy, clk 0), (JobStateDiscarded, rn_Discarded policy, clk 1),
      (JobStateCancelled, rn_Cancelled policy, clk 2)]"

definition Prune :: "'s maintenance_driver \<Rightarrow> (nat \<Rightarrow> gotime) \<Rightarrow> RetentionPolicy \<Rightarrow> 's \<Rightarrow> ('s \<times> PruneResult \<times> goerr option) option" where
  "Prune drv clk policy s =
     (let none = \<lparr>pr_Scanned = 0, pr_Deleted = 0\<rparr>
      in if rn_Completed policy < 0 \<or> rn_Discarded policy < 0 \<or> rn_Cancelled policy < 0
         then Some (s, none, Some (Errorf ''retention duration must not be negative''))
         else (case md_list drv of
             None \<Rightarrow> Some (s, none, Some (no_listing drv))
           | Some list_jobs \<Rightarrow>
               (case prune_items drv list_jobs (retention_items policy clk) (s, none, []) of
                  None \<Rightarrow> None
                | Some ((s', result, errs), Some e) \<Rightarrow> Some (s', result, Some e)
                | Some ((s', result, errs), None) \<Rightarrow> Some (s', result, errors_Join errs))))"

section \<open>Bulk actions\<close>

text \<open>\<open>ctx i\<close> is the error of the context before item \<open>i\<close>.\<close>

fun bulk_loop :: "(nat \<Rightarrow> goerr option) \<Rightarrow> (string \<Rightarrow> 's \<Rightarrow> 's \<times> goerr option) \<Rightarrow> nat \<Rightarrow> string list \<Rightarrow> string list \<Rightarrow>
    BulkResult \<Rightarrow> goerr list \<Rightarrow> 's \<Rightarrow> 's \<times> BulkResult \<times> goerr option" where
  "bulk_loop ctx action i [] seen result errs s = (s, result, errors_Join errs)"
| "bulk_loop ctx action i (jid # ids) seen result errs s =
     (case ctx i of
        Some e \<Rightarrow> (s, result, errors_Join (errs @ [e]))
      | None \<Rightarrow>
          if jid = [] then
            (let e = Errorf ''job id must not be empty''
             in bulk_loop ctx action (Suc i) ids seen
                  (result\<lparr>br_Failed := br_Failed result @ [\<lparr>bf_ID = [], bf_Error = error_text e\<rparr>]\<rparr>) (errs @ [e]) s)
          else if jid \<in> set seen then bulk_loop ctx action (Suc i) ids seen result errs s
          else (case action jid s of
              (s', Some e) \<Rightarrow>
                bulk_loop ctx action (Suc i) ids (jid # seen)
                  (result\<lparr>br_Failed := br_Failed result @ [\<lparr>bf_ID = jid, bf_Error = error_text e\<rparr>]\<rparr>)
                  (errs @ [wrap_prefix (''job '' @ jid) e]) s'
            | (s', None) \<Rightarrow>
                bulk_loop ctx action (Suc i) ids (jid # seen)
                  (result\<lparr>br_Succeeded := br_Succeeded result @ [jid]\<rparr>) errs s'))"

definition bulk :: "(nat \<Rightarrow> goerr option) \<Rightarrow> string list \<Rightarrow> (string \<Rightarrow> 's \<Rightarrow> 's \<times> goerr option) \<Rightarrow> 's \<Rightarrow>
    's \<times> BulkResult \<times> goerr option" where
  "bulk ctx ids action s = bulk_loop ctx action 0 ids [] \<lparr>br_Succeeded = [], br_Failed = []\<rparr> [] s"

definition run_at :: "gotime \<Rightarrow> gotime \<Rightarrow> gotime" where
  "run_at now runAt = (if IsZero runAt then now else runAt)"

definition BulkRetry :: "'s maintenance_driver \<Rightarrow> gotime \<Rightarrow> (nat \<Rightarrow> goerr option) \<Rightarrow> string list \<Rightarrow> gotime \<Rightarrow> 's \<Rightarrow>
    's \<times> BulkResult \<times> goerr option" where
  "BulkRetry drv now ctx ids runAt s =
     bulk ctx ids (\<lambda>jid. md_reschedule drv \<lparr>rs_ID = jid, rs_RunAt = run_at now runAt\<rparr>) s"

definition BulkCancel :: "'s maintenance_driver \<Rightarrow> (nat \<Rightarrow> goerr option) \<Rightarrow> string list \<Rightarrow> 's \<Rightarrow> 's \<times> BulkResult \<times> goerr option" where
  "BulkCancel drv ctx ids s = bulk ctx ids (md_cancel drv) s"

definition BulkDelete :: "'s maintenance_driver \<Rightarrow> (nat \<Rightarrow> goerr option) \<Rightarrow> string list \<Rightarrow> 's \<Rightarrow> 's \<times> BulkResult \<times> goerr option" where
  "BulkDelete drv ctx ids s = bulk ctx ids (md_delete drv) s"

section \<open>Dead letters\<close>

definition DeadLetterList :: "'s maintenance_driver \<Rightarrow> JobListParams \<Rightarrow> 's \<Rightarrow> JobPage res" where
  "DeadLetterList drv params s =
     (case md_list drv of
        None \<Rightarrow> Inl (no_listing drv)
      | Some list_jobs \<Rightarrow>
          let limit = (if jl_Limit params \<le> 0 \<or> jl_Limit params > 1000 then 100 else jl_Limit params);
              params1 = params\<lparr>jl_State := JobStateDiscarded, jl_Limit := limit\<rparr>
          in case list_jobs params1 s of
               Inl e \<Rightarrow> Inl e
             | Inr rows \<Rightarrow>
                 if int (length rows) = limit \<and> rows \<noteq> [] then
                   (let candidate = EncodeJobCursor (last rows)
                    in case list_jobs (params1\<lparr>jl_Cursor := candidate, jl_Limit := 1\<rparr>) s of
                         Inl e \<Rightarrow> Inl e
                       | Inr following \<Rightarrow>
                           Inr (if following \<noteq> [] then \<lparr>pg_Items = rows, pg_NextCursor = candidate, pg_HasMore = True\<rparr>
                                else \<lparr>pg_Items = rows, pg_NextCursor = [], pg_HasMore = False\<rparr>))
                 else Inr \<lparr>pg_Items = rows, pg_NextCursor = [], pg_HasMore = False\<rparr>)"

definition replay_one :: "'s maintenance_driver \<Rightarrow> gotime \<Rightarrow> string \<Rightarrow> 's \<Rightarrow> 's \<times> goerr option" where
  "replay_one drv runAt jid s =
     (case md_get drv jid s of
        Inl e \<Rightarrow> (s, Some e)
      | Inr None \<Rightarrow> (s, Some (wrap_sentinel ErrNotFound (''job '' @ go_quote jid)))
      | Inr (Some row) \<Rightarrow>
          if State row \<noteq> JobStateDiscarded
          then (s, Some (wrap_sentinel ErrConflict
                 (''job '' @ go_quote jid @ '' is '' @ job_state_text (State row) @ '', not discarded'')))
          else md_reschedule drv \<lparr>rs_ID = jid, rs_RunAt = runAt\<rparr> s)"

definition DeadLetterReplay :: "'s maintenance_driver \<Rightarrow> gotime \<Rightarrow> (nat \<Rightarrow> goerr option) \<Rightarrow> string list \<Rightarrow> gotime \<Rightarrow> 's \<Rightarrow>
    's \<times> BulkResult \<times> goerr option" where
  "DeadLetterReplay drv now ctx ids runAt s = bulk ctx ids (replay_one drv (run_at now runAt)) s"

section \<open>Retention on the in-memory driver\<close>

definition mem_maintenance :: "gotime \<Rightarrow> mem maintenance_driver" where
  "mem_maintenance now = \<lparr>md_Name = ''memory'', md_list = Some JobList,
     md_get = (\<lambda>k d. case JobGetByID k d of Inl e \<Rightarrow> Inl e | Inr row \<Rightarrow> Inr (Some row)),
     md_delete = JobDelete, md_cancel = JobCancel now, md_reschedule = JobReschedule\<rparr>"

definition without :: "string set \<Rightarrow> mem \<Rightarrow> mem" where
  "without A d = d\<lparr>jobs := filter (\<lambda>(k, r). k \<notin> A) (jobs d)\<rparr>"

lemma without_simps:
  "without {} d = d" "without A (without B d) = without (A \<union> B) d"
  "gget (jobs (without A d)) k = (if k \<in> A then None else gget (jobs d) k)"
proof -
  have "map_of (filter (\<lambda>(k, r). k \<notin> A) m) k = (if k \<in> A then None else map_of m k)" for m :: "(string \<times> JobRow) list"
    by (induction m) auto
  then show "gget (jobs (without A d)) k = (if k \<in> A then None else gget (jobs d) k)" by (simp add: without_def)
  show "without A (without B d) = without (A \<union> B) d"
    by (auto simp: without_def intro!: arg_cong [where f = "\<lambda>j. d\<lparr>jobs := j\<rparr>"] filter_cong)
qed (simp add: without_def)

lemma JobDelete_without:
  assumes "gget (jobs d) k = Some r"
  shows "JobDelete k d = (without {k} d, None)"
  using assms by (auto simp: JobDelete_def without_def AList.delete_eq intro!: arg_cong [where f = "\<lambda>j. d\<lparr>jobs := j\<rparr>"] filter_cong)

text \<open>One page: every row that has expired goes, none of the others.\<close>

lemma prune_fold:
  assumes "distinct (map ID rows)" "\<forall>r\<in>set rows. gget (jobs d) (ID r) = Some r"
  shows "foldl (prune_row (mem_maintenance now) cutoff) (d, result, errs) rows =
    (without (ID ` set (filter (expired cutoff) rows)) d,
     result\<lparr>pr_Scanned := pr_Scanned result + int (length rows),
            pr_Deleted := pr_Deleted result + int (length (filter (expired cutoff) rows))\<rparr>, errs)"
  using assms
proof (induction rows arbitrary: d result)
  case Nil
  then show ?case by (simp add: without_simps)
next
  case (Cons r rows)
  have r: "gget (jobs d) (ID r) = Some r" using Cons.prems(2) by simp
  show ?case
  proof (cases "expired cutoff r")
    case True
    have keep: "\<forall>x\<in>set rows. gget (jobs (without {ID r} d)) (ID x) = Some x"
    proof
      fix x assume x: "x \<in> set rows"
      then have "ID x \<noteq> ID r" "gget (jobs d) (ID x) = Some x" using Cons.prems by (force, simp)
      then show "gget (jobs (without {ID r} d)) (ID x) = Some x" by (simp add: without_simps)
    qed
    have dist: "distinct (map ID rows)" using Cons.prems(1) by simp
    have first: "prune_row (mem_maintenance now) cutoff (d, result, errs) r = (without {ID r} d,
        result\<lparr>pr_Scanned := pr_Scanned result + 1, pr_Deleted := pr_Deleted result + 1\<rparr>, errs)"
      using True by (simp add: prune_row_def mem_maintenance_def JobDelete_without [OF r] Let_def)
    show ?thesis using True unfolding foldl_Cons first Cons.IH [OF dist keep] without_simps by (simp add: add.assoc)
  next
    case False
    then have first: "prune_row (mem_maintenance now) cutoff (d, result, errs) r =
        (d, result\<lparr>pr_Scanned := pr_Scanned result + 1\<rparr>, errs)" by (simp add: prune_row_def Let_def)
    have rest: "distinct (map ID rows)" "\<forall>x\<in>set rows. gget (jobs d) (ID x) = Some x" using Cons.prems by simp_all
    show ?thesis using False unfolding foldl_Cons first Cons.IH [OF rest] by (simp add: add.assoc)
  qed
qed

lemma JobList_without:
  assumes inv: "mem_inv d"
    and gone: "\<And>r. r \<in> set (gvals (jobs d)) \<Longrightarrow> list_matches p r \<Longrightarrow> ID r \<in> A \<Longrightarrow>
      \<exists>at jid. jl_Cursor p \<noteq> [] \<and> DecodeJobCursor (jl_Cursor p) = Inr (at, jid) \<and> \<not> JobFollowsCursor r at jid"
  shows "JobList p (without A d) = JobList p d"
proof -
  have ids: "ID v = k" if "(k, v) \<in> set (jobs d)" for k v
    using mem_invD(1) [OF inv] gget_Some_iff [OF mem_inv_distinct(1) [OF inv]] that by blast
  have same: "filter P (gvals (jobs (without A d))) = filter P (gvals (jobs d))"
    if "\<And>r. r \<in> set (gvals (jobs d)) \<Longrightarrow> P r \<Longrightarrow> ID r \<notin> A" for P
  proof -
    have "filter (\<lambda>x. P (snd x)) (filter (\<lambda>(k, r). k \<notin> A) (jobs d)) = filter (\<lambda>x. P (snd x)) (jobs d)"
      unfolding filter_filter
    proof (rule filter_cong [OF HOL.refl])
      fix x assume x: "x \<in> set (jobs d)"
      obtain k r where kr: "x = (k, r)" by fastforce
      then have "r \<in> set (gvals (jobs d))" "ID r = k" using x ids by force+
      with that [of r] show "(case x of (k, r) \<Rightarrow> k \<notin> A) \<and> P (snd x) \<longleftrightarrow> P (snd x)" by (auto simp: kr)
    qed
    then show ?thesis by (simp add: without_def filter_map comp_def)
  qed
  show ?thesis
  proof (cases "jl_Cursor p = []")
    case True
    have "filter (list_matches p) (gvals (jobs (without A d))) = filter (list_matches p) (gvals (jobs d))"
      by (rule same) (use gone True in blast)
    with True show ?thesis by (simp add: JobList_def Let_def)
  next
    case False
    show ?thesis
    proof (cases "DecodeJobCursor (jl_Cursor p)")
      case (Inr c)
      obtain at jid where c: "c = (at, jid)" by fastforce
      have "filter (\<lambda>r. list_matches p r \<and> JobFollowsCursor r at jid) (gvals (jobs (without A d))) =
          filter (\<lambda>r. list_matches p r \<and> JobFollowsCursor r at jid) (gvals (jobs d))"
        by (rule same) (use gone Inr c in fastforce)
      with False Inr c show ?thesis by (simp add: JobList_def Let_def)
    qed (simp add: JobList_def False)
  qed
qed

text \<open>The pages that follow a position do not change when rows before it are deleted.\<close>

abbreviation in_state :: "JobState \<Rightarrow> mem \<Rightarrow> JobRow list" where
  "in_state st d \<equiv> listed (prune_params st []) d"

definition page_cursor :: "JobRow list \<Rightarrow> nat \<Rightarrow> string" where
  "page_cursor L i = (if i = 0 then [] else EncodeJobCursor (L ! (i - 1)))"

lemma listed_row:
  assumes "mem_inv d" "r \<in> set (listed p d)"
  shows "gget (jobs d) (ID r) = Some r" "r \<in> set (gvals (jobs d))" "list_matches p r" "ID r \<noteq> []"
proof -
  have "r \<in> set (filter (list_matches p) (gvals (jobs d)))" using assms(2) by (simp add: listed_def list_order.set_sort_slice)
  then show r: "r \<in> set (gvals (jobs d))" "list_matches p r" by simp_all
  then obtain k where "(k, r) \<in> set (jobs d)" by auto
  then have k: "gget (jobs d) k = Some r" using gget_Some_iff mem_inv_distinct(1) [OF assms(1)] by fast
  then show "gget (jobs d) (ID r) = Some r" using mem_invD(1) [OF assms(1)] by force
  show "ID r \<noteq> []" using mem_invD(1,2) [OF assms(1) k] by (auto simp: valid_id_def)
qed

lemma listed_distinct:
  assumes "mem_inv d"
  shows "distinct (map ID (listed p d))"
proof -
  have "distinct (listed p d)" "inj_on ID (set (gvals (jobs d)))"
    using list_rows_distinct [OF assms] by (simp_all add: listed_def list_order.distinct_sort_slice)
  moreover have "set (listed p d) \<subseteq> set (gvals (jobs d))" using listed_row(2) [OF assms] by blast
  ultimately show ?thesis unfolding distinct_map by (blast intro: inj_on_subset)
qed

lemma page_after_deletions:
  assumes inv: "mem_inv d" and times: "\<forall>r\<in>set (AllJobs d). cursor_time (CreatedAt r)"
    and i: "i \<le> length (in_state st d)" and A: "A \<subseteq> ID ` set (take i (in_state st d))"
  shows "JobList (prune_params st (page_cursor (in_state st d) i)) (without A d) = Inr (take 500 (drop i (in_state st d)))"
proof -
  let ?L = "in_state st d" and ?p = "prune_params st []"
  have lim: "page_limit (jl_Limit ?p) = 500" "jl_Cursor ?p = []" by (simp_all add: prune_params_def page_limit_def)
  show ?thesis
  proof (cases i)
    case 0
    with A have "A = {}" by simp
    with 0 lim show ?thesis by (simp add: without_simps page_cursor_def JobList_def listed_def Let_def)
  next
    case (Suc j)
    then have j: "j < length ?L" using i by simp
    have pc: "prune_params st (page_cursor ?L i) = ?p\<lparr>jl_Cursor := EncodeJobCursor (?L ! j)\<rparr>"
      by (simp add: prune_params_def page_cursor_def Suc)
    from job_pages [OF inv times lim(2) j] have
      page: "JobList (?p\<lparr>jl_Cursor := EncodeJobCursor (?L ! j)\<rparr>) d = Inr (take 500 (drop i ?L))"
      and sorted: "sorted_wrt (\<lambda>a b. list_less a b) ?L" unfolding lim Suc by blast+
    let ?r = "?L ! j"
    have rj: "?r \<in> set ?L" using j by simp
    have "cursor_time (CreatedAt ?r)" using times listed_row(2) [OF inv rj] unfolding AllJobs_def by blast
    then have dec: "DecodeJobCursor (EncodeJobCursor ?r) = Inr (CreatedAt ?r, ID ?r)"
      using DecodeJobCursor_Encode [of ?r] UnixNano_exact [of "CreatedAt ?r"] listed_row(4) [OF inv rj] by simp
    have ne: "EncodeJobCursor ?r \<noteq> []" unfolding EncodeJobCursor_def b64_encode_Nil by (simp add: json_object_def)
    have "JobList (?p\<lparr>jl_Cursor := EncodeJobCursor ?r\<rparr>) (without A d) = JobList (?p\<lparr>jl_Cursor := EncodeJobCursor ?r\<rparr>) d"
    proof (rule JobList_without [OF inv])
      fix x assume x: "x \<in> set (gvals (jobs d))" "ID x \<in> A"
      then obtain y where y: "y \<in> set (take i ?L)" "ID x = ID y" using A by blast
      then have "x = y" using list_rows_distinct(3) [OF inv] x(1) listed_row(2) [OF inv] by (meson in_set_takeD inj_onD)
      with y obtain m where m: "m < i" "m < length ?L" "x = ?L ! m" by (auto simp: in_set_conv_nth)
      have "\<not> list_less ?r x"
      proof (cases "m = j")
        case False
        with m Suc have "m < j" by simp
        then have "list_less x ?r" using sorted j m(3) by (simp add: sorted_wrt_iff_nth_less)
        then show ?thesis by (auto simp: list_less_def split: if_splits)
      qed (simp add: m(3) list_less_def)
      then have "\<not> JobFollowsCursor x (CreatedAt ?r) (ID ?r)" by (auto simp: JobFollowsCursor_def list_less_def split: if_splits)
      with ne dec show "\<exists>at jid. jl_Cursor (?p\<lparr>jl_Cursor := EncodeJobCursor ?r\<rparr>) \<noteq> [] \<and>
          DecodeJobCursor (jl_Cursor (?p\<lparr>jl_Cursor := EncodeJobCursor ?r\<rparr>)) = Inr (at, jid) \<and> \<not> JobFollowsCursor x at jid" by simp
    qed
    with page pc show ?thesis by simp
  qed
qed

text \<open>A pass over one state, from any position on.\<close>

definition pruned :: "gotime \<Rightarrow> JobRow list \<Rightarrow> nat \<Rightarrow> string set" where
  "pruned cutoff L i = ID ` set (filter (expired cutoff) (take i L))"

lemma prune_pages_from:
  assumes inv: "mem_inv d" and times: "\<forall>r\<in>set (AllJobs d). cursor_time (CreatedAt r)"
    and i: "i \<le> length (in_state st d)"
  shows "prune_pages (mem_maintenance now) JobList st cutoff (page_cursor (in_state st d) i)
      (without (pruned cutoff (in_state st d) i) d, result, errs) =
    Some ((without (pruned cutoff (in_state st d) (length (in_state st d))) d,
      result\<lparr>pr_Scanned := pr_Scanned result + int (length (drop i (in_state st d))),
             pr_Deleted := pr_Deleted result + int (length (filter (expired cutoff) (drop i (in_state st d))))\<rparr>, errs), None)"
  using i
proof (induction "length (in_state st d) - i" arbitrary: i result rule: less_induct)
  case less
  let ?L = "in_state st d"
  let ?page = "take 500 (drop i ?L)"
  have sub: "pruned cutoff ?L i \<subseteq> ID ` set (take i ?L)" by (auto simp: pruned_def)
  note list = page_after_deletions [OF inv times less.prems sub]
  show ?case
  proof (cases "i = length ?L")
    case True
    with list show ?thesis by (subst prune_pages.simps) simp
  next
    case False
    then have ne: "?page \<noteq> []" using less.prems by simp
    have split: "take (i + length ?page) ?L = take i ?L @ ?page"
      by (simp add: take_add min_def)
    have disj: "distinct (map ID (take i ?L @ ?page))"
      unfolding split [symmetric] using listed_distinct [OF inv] by (simp add: take_map [symmetric] distinct_take)
    have rows: "\<forall>r\<in>set ?page. gget (jobs (without (pruned cutoff ?L i) d)) (ID r) = Some r"
    proof
      fix r assume r: "r \<in> set ?page"
      then have "ID r \<notin> pruned cutoff ?L i" using disj by (auto simp: pruned_def)
      moreover have "gget (jobs d) (ID r) = Some r"
        using listed_row(1) [OF inv] r by (meson in_set_dropD in_set_takeD)
      ultimately show "gget (jobs (without (pruned cutoff ?L i) d)) (ID r) = Some r" by (simp add: without_simps)
    qed
    have dp: "distinct (map ID ?page)" using disj by simp
    let ?i = "i + length ?page"
    have all: "ID ` set (filter (expired cutoff) ?page) \<union> pruned cutoff ?L i = pruned cutoff ?L ?i"
      unfolding pruned_def split by auto
    let ?result = "result\<lparr>pr_Scanned := pr_Scanned result + int (length ?page),
        pr_Deleted := pr_Deleted result + int (length (filter (expired cutoff) ?page))\<rparr>"
    have fold: "foldl (prune_row (mem_maintenance now) cutoff) (without (pruned cutoff ?L i) d, result, errs) ?page =
        (without (pruned cutoff ?L ?i) d, ?result, errs)"
      unfolding prune_fold [OF dp rows] without_simps all ..
    have "drop ?i ?L = drop 500 (drop i ?L)" by (simp add: min_def add.commute)
    then have rest: "drop i ?L = ?page @ drop ?i ?L" by (simp only: append_take_drop_id)
    show ?thesis
    proof (cases "length ?page < 500")
      case True
      then have "?i = length ?L" using less.prems by (auto simp: min_def split: if_splits)
      moreover from this have "drop i ?L = ?page" using rest by simp
      ultimately show ?thesis using list ne fold True by (subst prune_pages.simps) (simp del: take_eq_Nil drop_eq_Nil)
    next
      case full: False
      then have len: "length ?page = 500" "?i \<le> length ?L" "?i = i + 500" using less.prems by (auto simp: min_def split: if_splits)
      have last: "last ?page = ?L ! (?i - 1)" using len less.prems by (simp add: last_conv_nth ne add.commute)
      have cur: "EncodeJobCursor (last ?page) = page_cursor ?L ?i" unfolding last len(3) by (simp add: page_cursor_def)
      have "length ?L - ?i < length ?L - i" using len by simp
      note ih = less.hyps [OF this len(2), of ?result]
      have "prune_pages (mem_maintenance now) JobList st cutoff (page_cursor ?L i) (without (pruned cutoff ?L i) d, result, errs) =
          prune_pages (mem_maintenance now) JobList st cutoff (page_cursor ?L ?i) (without (pruned cutoff ?L ?i) d, ?result, errs)"
        using list ne fold full cur by (subst prune_pages.simps) (simp del: take_eq_Nil drop_eq_Nil)
      also note ih
      finally have "prune_pages (mem_maintenance now) JobList st cutoff (page_cursor ?L i) (without (pruned cutoff ?L i) d, result, errs) =
          Some ((without (pruned cutoff ?L (length ?L)) d,
            result\<lparr>pr_Scanned := pr_Scanned result + int (length (?page @ drop ?i ?L)),
              pr_Deleted := pr_Deleted result + int (length (filter (expired cutoff) (?page @ drop ?i ?L)))\<rparr>, errs), None)"
        by (simp add: add.assoc)
      then show ?thesis by (simp only: rest [symmetric])
    qed
  qed
qed

definition count_rows :: "(JobRow \<Rightarrow> bool) \<Rightarrow> mem \<Rightarrow> int" where
  "count_rows P d = int (length (filter P (AllJobs d)))"

definition purge :: "(JobRow \<Rightarrow> bool) \<Rightarrow> mem \<Rightarrow> mem" where
  "purge P d = d\<lparr>jobs := filter (\<lambda>(k, r). \<not> P r) (jobs d)\<rparr>"

lemma length_listed: "int (length (filter P (listed p d))) = count_rows (\<lambda>r. list_matches p r \<and> P r) d"
proof -
  have "mset (listed p d) = mset (filter (list_matches p) (gvals (jobs d)))"
    by (simp add: listed_def list_order.mset_sort_slice)
  then have "size (filter_mset P (mset (listed p d))) = size (filter_mset P (mset (filter (list_matches p) (gvals (jobs d)))))" by simp
  then have "length (filter P (listed p d)) = length (filter P (filter (list_matches p) (gvals (jobs d))))"
    by (simp only: size_mset mset_filter [symmetric])
  then show ?thesis by (simp add: count_rows_def AllJobs_def conj_commute)
qed

lemma prune_pass:
  assumes inv: "mem_inv d" and times: "\<forall>r\<in>set (AllJobs d). cursor_time (CreatedAt r)" and st: "st \<noteq> NoState"
  shows "prune_pages (mem_maintenance now) JobList st cutoff [] (d, result, errs) =
    Some ((purge (\<lambda>r. State r = st \<and> expired cutoff r) d,
      result\<lparr>pr_Scanned := pr_Scanned result + count_rows (\<lambda>r. State r = st) d,
             pr_Deleted := pr_Deleted result + count_rows (\<lambda>r. State r = st \<and> expired cutoff r) d\<rparr>, errs), None)"
proof -
  let ?L = "in_state st d"
  have m: "list_matches (prune_params st []) r \<longleftrightarrow> State r = st" for r using st by (simp add: list_matches_def prune_params_def)
  have set: "set ?L = {r \<in> set (gvals (jobs d)). State r = st}" by (auto simp: listed_def list_order.set_sort_slice m)
  have ids: "gget (jobs d) k = Some v" "ID v = k" if "(k, v) \<in> set (jobs d)" for k v
    using mem_invD(1) [OF inv] gget_Some_iff [OF mem_inv_distinct(1) [OF inv]] that by blast+
  have "k \<in> pruned cutoff ?L (length ?L) \<longleftrightarrow> State v = st \<and> expired cutoff v" if kv: "(k, v) \<in> set (jobs d)" for k v
  proof -
    have "v \<in> set (gvals (jobs d))" using kv by force
    then have "State v = st \<and> expired cutoff v \<Longrightarrow> k \<in> pruned cutoff ?L (length ?L)"
      using ids(2) [OF kv] set by (force simp: pruned_def)
    moreover have "v = x" if "x \<in> set (gvals (jobs d))" "ID x = k" for x
      using list_rows_distinct(3) [OF inv] that \<open>v \<in> set (gvals (jobs d))\<close> ids(2) [OF kv] by (metis inj_onD)
    ultimately show ?thesis using set by (auto simp: pruned_def)
  qed
  then have d': "without (pruned cutoff ?L (length ?L)) d = purge (\<lambda>r. State r = st \<and> expired cutoff r) d"
    by (auto simp: without_def purge_def intro!: arg_cong [where f = "\<lambda>j. d\<lparr>jobs := j\<rparr>"] filter_cong)
  have start: "page_cursor ?L 0 = []" "without (pruned cutoff ?L 0) d = d" by (simp_all add: page_cursor_def pruned_def without_simps)
  have "int (length ?L) = count_rows (\<lambda>r. State r = st) d" using length_listed [of "\<lambda>_. True" "prune_params st []" d] by (simp add: m)
  moreover have "int (length (filter (expired cutoff) ?L)) = count_rows (\<lambda>r. State r = st \<and> expired cutoff r) d"
    by (simp add: length_listed m)
  ultimately show ?thesis
    using prune_pages_from [OF inv times, of 0 st now cutoff result errs] by (simp add: start d')
qed

lemma purge_frame:
  assumes "mem_inv d" "\<forall>r\<in>set (AllJobs d). cursor_time (CreatedAt r)"
  shows "mem_inv (purge P d)" "\<forall>r\<in>set (AllJobs (purge P d)). cursor_time (CreatedAt r)"
    and "purge Q (purge P d) = purge (\<lambda>r. P r \<or> Q r) d"
    and "(\<And>r. Q r \<Longrightarrow> \<not> P r) \<Longrightarrow> count_rows Q (purge P d) = count_rows Q d"
proof -
  have vals: "AllJobs (purge P d) = filter (\<lambda>r. \<not> P r) (AllJobs d)"
    unfolding AllJobs_def purge_def by (simp add: filter_map comp_def) (metis (mono_tags, lifting) case_prod_unfold)
  show "\<forall>r\<in>set (AllJobs (purge P d)). cursor_time (CreatedAt r)" using assms(2) by (simp add: vals)
  show "purge Q (purge P d) = purge (\<lambda>r. P r \<or> Q r) d"
    by (auto simp: purge_def intro!: arg_cong [where f = "\<lambda>j. d\<lparr>jobs := j\<rparr>"] filter_cong)
  show "count_rows Q (purge P d) = count_rows Q d" if "\<And>r. Q r \<Longrightarrow> \<not> P r"
  proof -
    have "filter (\<lambda>r. \<not> P r \<and> Q r) (AllJobs d) = filter Q (AllJobs d)" using that by (intro filter_cong) auto
    then show ?thesis by (simp add: count_rows_def vals)
  qed
  have dist: "distinct (gkeys (jobs (purge P d)))"
    using mem_inv_distinct(1) [OF assms(1)] by (simp add: purge_def distinct_map_filter)
  have sub: "gget (jobs (purge P d)) k = Some r \<Longrightarrow> gget (jobs d) k = Some r" for k r
    using gget_Some_iff [OF dist] gget_Some_iff [OF mem_inv_distinct(1) [OF assms(1)]] by (simp add: purge_def)
  have same: "seq (purge P d) = seq d" "queues (purge P d) = queues d" by (simp_all add: purge_def)
  show "mem_inv (purge P d)"
    unfolding mem_inv_def same using dist mem_inv_distinct(2) [OF assms(1)] assms(1) mem_invD [OF assms(1) sub]
    by (simp add: mem_inv_def)
qed

text \<open>Whether a retention policy removes a row, with the clock readings of the three passes.\<close>

definition over_retention :: "RetentionPolicy \<Rightarrow> (nat \<Rightarrow> gotime) \<Rightarrow> JobRow \<Rightarrow> bool" where
  "over_retention policy clk row \<longleftrightarrow>
     (\<exists>(st, retention, now)\<in>set (retention_items policy clk). retention \<noteq> 0 \<and> State row = st \<and> expired (now - retention) row)"

definition in_retention :: "RetentionPolicy \<Rightarrow> JobRow \<Rightarrow> bool" where
  "in_retention policy row \<longleftrightarrow>
     rn_Completed policy \<noteq> 0 \<and> State row = JobStateCompleted \<or> rn_Discarded policy \<noteq> 0 \<and> State row = JobStateDiscarded \<or>
     rn_Cancelled policy \<noteq> 0 \<and> State row = JobStateCancelled"

lemma prune_items_mem:
  assumes "mem_inv d" "\<forall>r\<in>set (AllJobs d). cursor_time (CreatedAt r)"
    and "distinct (map fst items)" "NoState \<notin> fst ` set items"
  shows "prune_items (mem_maintenance now) JobList items (d, result, errs) =
    Some ((purge (\<lambda>r. \<exists>(st, retention, t)\<in>set items. retention \<noteq> 0 \<and> State r = st \<and> expired (t - retention) r) d,
      result\<lparr>pr_Scanned := pr_Scanned result + count_rows (\<lambda>r. \<exists>(st, retention, t)\<in>set items. retention \<noteq> 0 \<and> State r = st) d,
             pr_Deleted := pr_Deleted result +
               count_rows (\<lambda>r. \<exists>(st, retention, t)\<in>set items. retention \<noteq> 0 \<and> State r = st \<and> expired (t - retention) r) d\<rparr>, errs), None)"
  using assms
proof (induction items arbitrary: d result)
  case Nil
  then show ?case by (simp add: purge_def count_rows_def)
next
  case (Cons item items)
  obtain st retention t where item: "item = (st, retention, t)" by (metis prod_cases3)
  show ?case
  proof (cases "retention = 0")
    case True
    with Cons item show ?thesis by simp
  next
    case False
    let ?P = "\<lambda>r. State r = st \<and> expired (t - retention) r"
    let ?in = "\<lambda>r. \<exists>(st, retention, t)\<in>set items. retention \<noteq> 0 \<and> State r = st"
    let ?Q = "\<lambda>r. \<exists>(st, retention, t)\<in>set items. retention \<noteq> 0 \<and> State r = st \<and> expired (t - retention) r"
    have st: "st \<noteq> NoState" "st \<notin> fst ` set items" using Cons.prems(3,4) item by auto
    have other: "\<not> ?P r" "State r \<noteq> st" if "?in r" for r using that st(2) by force+
    have sub: "?in r" if "?Q r" for r using that by blast
    note pass = prune_pass [OF Cons.prems(1,2) st(1), of now "t - retention" result errs]
    note frame = purge_frame [OF Cons.prems(1,2)]
    have cnt: "count_rows ?in (purge ?P d) = count_rows ?in d" "count_rows ?Q (purge ?P d) = count_rows ?Q d"
      by (rule frame(4), use other sub in blast)+
    have plus: "count_rows (\<lambda>r. A r \<or> B r) d = count_rows A d + count_rows B d" if "\<And>r. A r \<Longrightarrow> \<not> B r" for A B
    proof -
      have "length (filter (\<lambda>r. A r \<or> B r) xs) = length (filter A xs) + length (filter B xs)" for xs
        using that by (induction xs) auto
      then show ?thesis by (simp add: count_rows_def)
    qed
    let ?in' = "\<lambda>r. \<exists>(st, retention, t)\<in>set (item # items). retention \<noteq> 0 \<and> State r = st"
    let ?Q' = "\<lambda>r. \<exists>(st, retention, t)\<in>set (item # items). retention \<noteq> 0 \<and> State r = st \<and> expired (t - retention) r"
    have "?in' = (\<lambda>r. State r = st \<or> ?in r)" "?Q' = (\<lambda>r. ?P r \<or> ?Q r)" using False by (simp_all add: item fun_eq_iff)
    note or = this [THEN arg_cong [where f = "\<lambda>P. count_rows P d"]]
    have scanned: "count_rows ?in' d = count_rows (\<lambda>r. State r = st) d + count_rows ?in d"
      by (rule trans [OF or(1) plus]) (use other(2) in blast)
    have deleted: "count_rows ?Q' d = count_rows ?P d + count_rows ?Q d"
      by (rule trans [OF or(2) plus]) (use other(1) sub in blast)
    have gone: "purge ?Q (purge ?P d) =
        purge (\<lambda>r. \<exists>(st, retention, t)\<in>set (item # items). retention \<noteq> 0 \<and> State r = st \<and> expired (t - retention) r) d"
      using False by (simp add: frame(3) item)
    have "distinct (map fst items)" "NoState \<notin> fst ` set items" using Cons.prems(3,4) by auto
    note ih = Cons.IH [OF frame(1,2) this]
    show ?thesis unfolding scanned deleted gone [symmetric] using False by (simp add: item pass ih cnt add.assoc)
  qed
qed

text \<open>
  Claim C17: pruning removes exactly what the policy says. On the in-memory driver a pass over the
  pages of each terminal state ends, reports no error, deletes the finished jobs whose retention
  has run out and nothing else, also while the pages it walks through shrink, and counts the rows
  it has seen and deleted.
\<close>

theorem prune_removes_exactly_expired:
  assumes "mem_inv d" "\<forall>r\<in>set (AllJobs d). cursor_time (CreatedAt r)"
    and "0 \<le> rn_Completed policy" "0 \<le> rn_Discarded policy" "0 \<le> rn_Cancelled policy"
  shows "Prune (mem_maintenance now) clk policy d =
    Some (d\<lparr>jobs := filter (\<lambda>(k, r). \<not> over_retention policy clk r) (jobs d)\<rparr>,
      \<lparr>pr_Scanned = count_rows (in_retention policy) d, pr_Deleted = count_rows (over_retention policy clk) d\<rparr>, None)"
proof -
  let ?items = "retention_items policy clk"
  have "distinct (map fst ?items)" "NoState \<notin> fst ` set ?items" by (simp_all add: retention_items_def)
  from prune_items_mem [OF assms(1,2) this, of now "\<lparr>pr_Scanned = 0, pr_Deleted = 0\<rparr>" "[]"] have
    "prune_items (mem_maintenance now) JobList ?items (d, \<lparr>pr_Scanned = 0, pr_Deleted = 0\<rparr>, []) =
      Some ((purge (over_retention policy clk) d, \<lparr>pr_Scanned = count_rows (in_retention policy) d,
        pr_Deleted = count_rows (over_retention policy clk) d\<rparr>, []), None)"
    by (simp add: over_retention_def [abs_def] in_retention_def [abs_def] retention_items_def)
  then show ?thesis using assms(3-5) by (simp add: Prune_def mem_maintenance_def purge_def errors_Join_def Let_def)
qed

section \<open>Bulk actions on the in-memory driver\<close>

text \<open>
  An action on one job of a store: it refuses, and then changes nothing, or it succeeds and
  changes that job only.
\<close>

locale item_action =
  fixes action :: "string \<Rightarrow> 's \<Rightarrow> 's \<times> goerr option"
    and job_at :: "string \<Rightarrow> 's \<Rightarrow> JobRow option"
    and allowed :: "JobRow option \<Rightarrow> bool"
    and change :: "JobRow option \<Rightarrow> JobRow option"
  assumes refuses: "\<not> allowed (job_at k s) \<Longrightarrow> \<exists>e. action k s = (s, Some e)"
    and acts: "allowed (job_at k s) \<Longrightarrow> \<exists>s'. action k s = (s', None) \<and> job_at k s' = change (job_at k s) \<and>
      (\<forall>k'. k' \<noteq> k \<longrightarrow> job_at k' s' = job_at k' s)"

text \<open>The IDs that are not empty and not seen before, in order.\<close>

fun fresh_ids :: "string list \<Rightarrow> string list \<Rightarrow> string list" where
  "fresh_ids seen [] = []"
| "fresh_ids seen (k # ks) = (if k = [] \<or> k \<in> set seen then fresh_ids seen ks else k # fresh_ids (k # seen) ks)"

lemma set_fresh_ids: "set (fresh_ids seen ks) = set ks - {[]} - set seen"
  by (induction seen ks rule: fresh_ids.induct) auto

lemma distinct_fresh_ids: "distinct (fresh_ids seen ks)"
  by (induction seen ks rule: fresh_ids.induct) (auto simp: set_fresh_ids)

context item_action
begin

lemma bulk_loop_exact:
  assumes "\<And>i. ctx i = None" "(errs = []) \<longleftrightarrow> (br_Failed result = [])"
  shows "\<exists>s' result' err. bulk_loop ctx action i ids seen result errs s = (s', result', err) \<and>
    br_Succeeded result' = br_Succeeded result @ filter (\<lambda>k. allowed (job_at k s)) (fresh_ids seen ids) \<and>
    set (map bf_ID (br_Failed result')) = set (map bf_ID (br_Failed result)) \<union>
      {k \<in> set (fresh_ids seen ids). \<not> allowed (job_at k s)} \<union> (if [] \<in> set ids then {[]} else {}) \<and>
    (err = None \<longleftrightarrow> br_Failed result' = []) \<and>
    (\<forall>k. job_at k s' = (if k \<in> set (fresh_ids seen ids) \<and> allowed (job_at k s) then change (job_at k s) else job_at k s))"
  using assms(2)
proof (induction ids arbitrary: i seen result errs s)
  case Nil
  then show ?case by (auto simp: errors_Join_def)
next
  case (Cons k ids)
  show ?case
  proof (cases "k = [] \<or> k \<in> set seen")
    case True
    show ?thesis
    proof (cases "k = []")
      case True
      let ?res = "result\<lparr>br_Failed := br_Failed result @ [\<lparr>bf_ID = [], bf_Error = error_text (Errorf ''job id must not be empty'')\<rparr>]\<rparr>"
      from Cons.IH [of "errs @ [Errorf ''job id must not be empty'']" ?res "Suc i" seen s] True assms(1)
      show ?thesis by (auto simp: Let_def)
    next
      case False
      with True Cons.IH [of errs result "Suc i" seen s] Cons.prems assms(1) show ?thesis by auto
    qed
  next
    case new: False
    show ?thesis
    proof (cases "allowed (job_at k s)")
      case False
      from refuses [OF this] obtain e where e: "action k s = (s, Some e)" by blast
      let ?res = "result\<lparr>br_Failed := br_Failed result @ [\<lparr>bf_ID = k, bf_Error = error_text e\<rparr>]\<rparr>"
      from Cons.IH [of "errs @ [wrap_prefix (''job '' @ k) e]" ?res "Suc i" "k # seen" s] e new False assms(1)
      show ?thesis by auto
    next
      case True
      from acts [OF this] obtain s1 where s1: "action k s = (s1, None)" "job_at k s1 = change (job_at k s)"
        "\<forall>k'. k' \<noteq> k \<longrightarrow> job_at k' s1 = job_at k' s" by blast
      have other: "k' \<in> set (fresh_ids (k # seen) ids) \<Longrightarrow> job_at k' s1 = job_at k' s" for k'
        using s1(3) by (auto simp: set_fresh_ids)
      let ?res = "result\<lparr>br_Succeeded := br_Succeeded result @ [k]\<rparr>"
      have prem: "(errs = []) \<longleftrightarrow> (br_Failed ?res = [])" using Cons.prems by simp
      from Cons.IH [OF prem, of "Suc i" "k # seen" s1] obtain s' result' err where
        r: "bulk_loop ctx action (Suc i) ids (k # seen) ?res errs s1 = (s', result', err)"
        "br_Succeeded result' = br_Succeeded ?res @ filter (\<lambda>x. allowed (job_at x s1)) (fresh_ids (k # seen) ids)"
        "set (map bf_ID (br_Failed result')) = set (map bf_ID (br_Failed ?res)) \<union>
          {x \<in> set (fresh_ids (k # seen) ids). \<not> allowed (job_at x s1)} \<union> (if [] \<in> set ids then {[]} else {})"
        "err = None \<longleftrightarrow> br_Failed result' = []"
        "\<forall>x. job_at x s' = (if x \<in> set (fresh_ids (k # seen) ids) \<and> allowed (job_at x s1) then change (job_at x s1) else job_at x s1)"
        by blast
      have "filter (\<lambda>x. allowed (job_at x s1)) (fresh_ids (k # seen) ids) = filter (\<lambda>x. allowed (job_at x s)) (fresh_ids (k # seen) ids)"
        by (rule filter_cong) (simp_all add: other)
      moreover have "job_at x s' = (if x \<in> set (fresh_ids seen (k # ids)) \<and> allowed (job_at x s) then change (job_at x s) else job_at x s)" for x
      proof (cases "x = k")
        case True
        with r(5) s1(2) new \<open>allowed (job_at k s)\<close> show ?thesis by (simp add: set_fresh_ids)
      next
        case False
        with r(5) s1(3) new show ?thesis by (simp add: set_fresh_ids)
      qed
      moreover have "{x \<in> set (fresh_ids (k # seen) ids). \<not> allowed (job_at x s1)} =
          {x \<in> set (fresh_ids seen (k # ids)). \<not> allowed (job_at x s)}" using new True other by auto
      moreover have "bulk_loop ctx action i (k # ids) seen result errs s = (s', result', err)"
        using r(1) s1(1) new assms(1) by simp
      moreover have "k \<noteq> []" "[] \<noteq> k" using new by auto
      ultimately show ?thesis using r(2-4) new True by (intro exI [of _ s'] exI [of _ result'] exI [of _ err]) simp
    qed
  qed
qed

end

text \<open>
  The outcome of a bulk call: the allowed jobs among the distinct IDs succeed, in order, and have
  changed; the others are reported, and so is an empty ID; no other job has changed; and the call
  returns an error exactly when it reports a failure.
\<close>

definition bulk_outcome :: "(string \<Rightarrow> 's \<Rightarrow> JobRow option) \<Rightarrow> (JobRow option \<Rightarrow> bool) \<Rightarrow> (JobRow option \<Rightarrow> JobRow option) \<Rightarrow>
    string list \<Rightarrow> 's \<Rightarrow> 's \<times> BulkResult \<times> goerr option \<Rightarrow> bool" where
  "bulk_outcome job_at allowed change ids s = (\<lambda>(s', result, err).
     br_Succeeded result = filter (\<lambda>k. allowed (job_at k s)) (fresh_ids [] ids) \<and>
     set (map bf_ID (br_Failed result)) =
       {k \<in> set ids. k \<noteq> [] \<and> \<not> allowed (job_at k s)} \<union> (if [] \<in> set ids then {[]} else {}) \<and>
     (err = None \<longleftrightarrow> br_Failed result = []) \<and>
     (\<forall>k. job_at k s' = (if k \<in> set (br_Succeeded result) then change (job_at k s) else job_at k s)))"

context item_action
begin

lemma bulk_exact:
  assumes "\<And>i. ctx i = None"
  shows "bulk_outcome job_at allowed change ids s (bulk ctx ids action s)"
proof -
  let ?none = "\<lparr>br_Succeeded = [], br_Failed = []\<rparr>"
  have "([] = ([] :: goerr list)) \<longleftrightarrow> (br_Failed ?none = [])" by simp
  from bulk_loop_exact [where ctx = ctx and i = 0 and ids = ids and seen = "[]" and s = s, OF assms this] obtain s' result err where
    out: "bulk ctx ids action s = (s', result, err)"
    and ok: "br_Succeeded result = filter (\<lambda>k. allowed (job_at k s)) (fresh_ids [] ids)"
    and bad: "set (map bf_ID (br_Failed result)) =
      {k \<in> set (fresh_ids [] ids). \<not> allowed (job_at k s)} \<union> (if [] \<in> set ids then {[]} else {})"
    and err: "err = None \<longleftrightarrow> br_Failed result = []"
    and jobs: "\<forall>k. job_at k s' = (if k \<in> set (fresh_ids [] ids) \<and> allowed (job_at k s) then change (job_at k s) else job_at k s)"
    by (auto simp: bulk_def)
  have "{k \<in> set (fresh_ids [] ids). \<not> allowed (job_at k s)} = {k \<in> set ids. k \<noteq> [] \<and> \<not> allowed (job_at k s)}"
    by (auto simp: set_fresh_ids)
  then show ?thesis using ok bad err jobs by (simp add: bulk_outcome_def out)
qed

end

abbreviation mem_job :: "string \<Rightarrow> mem \<Rightarrow> JobRow option" where
  "mem_job k d \<equiv> gget (jobs d) k"

definition in_states :: "JobState set \<Rightarrow> JobRow option \<Rightarrow> bool" where
  "in_states S j \<longleftrightarrow> (\<exists>row. j = Some row \<and> State row \<in> S)"

definition replanned :: "gotime \<Rightarrow> JobRow \<Rightarrow> JobRow" where
  "replanned t row = row\<lparr>RunAt := t, State := JobStateScheduled\<rparr>"

interpretation delete_action: item_action JobDelete mem_job "\<lambda>j. j \<noteq> None" "\<lambda>j. None"
  by unfold_locales (auto simp: JobDelete_def gmap_simps split: option.splits)

interpretation cancel_action: item_action "JobCancel now" mem_job "in_states {JobStateAvailable, JobStateScheduled}"
    "map_option (\<lambda>row. row\<lparr>State := JobStateCancelled, FinalizedAt := Some now\<rparr>)" for now
  by unfold_locales (auto simp: JobCancel_def in_states_def gmap_simps split: option.splits)

interpretation retry_action: item_action "\<lambda>k. JobReschedule \<lparr>rs_ID = k, rs_RunAt = t\<rparr>" mem_job "\<lambda>j. j \<noteq> None"
    "map_option (replanned t)" for t
  by unfold_locales (auto simp: JobReschedule_def replanned_def gmap_simps split: option.splits)

interpretation replay_action: item_action "replay_one (mem_maintenance now) t" mem_job "in_states {JobStateDiscarded}"
    "map_option (replanned t)" for now t
  by unfold_locales
    (auto simp: replay_one_def mem_maintenance_def JobGetByID_def JobReschedule_def in_states_def replanned_def gmap_simps split: option.splits)

text \<open>
  The bulk actions do what they report. On the in-memory driver, while the context lives,
  deleting, cancelling, retrying and replaying dead letters act once on every distinct ID whose job
  allows it (any job, one that waits, any job, a discarded one), list these IDs as succeeded in
  order, list every other ID as failed, change no other job, and return an error exactly when the
  list of failures is not empty.
\<close>

theorem bulk_actions_exact:
  assumes "\<And>i. ctx i = None"
  shows "bulk_outcome mem_job (\<lambda>j. j \<noteq> None) (\<lambda>j. None) ids d (BulkDelete (mem_maintenance now) ctx ids d) \<and>
    bulk_outcome mem_job (in_states {JobStateAvailable, JobStateScheduled})
      (map_option (\<lambda>row. row\<lparr>State := JobStateCancelled, FinalizedAt := Some now\<rparr>)) ids d
      (BulkCancel (mem_maintenance now) ctx ids d) \<and>
    bulk_outcome mem_job (\<lambda>j. j \<noteq> None) (map_option (replanned (run_at now runAt))) ids d
      (BulkRetry (mem_maintenance now) now ctx ids runAt d) \<and>
    bulk_outcome mem_job (in_states {JobStateDiscarded}) (map_option (replanned (run_at now runAt))) ids d
      (DeadLetterReplay (mem_maintenance now) now ctx ids runAt d)"
  unfolding BulkDelete_def BulkCancel_def BulkRetry_def DeadLetterReplay_def
  using delete_action.bulk_exact [OF assms] cancel_action.bulk_exact [OF assms] retry_action.bulk_exact [OF assms]
    replay_action.bulk_exact [OF assms] by (simp add: mem_maintenance_def)

theorem bulk_actions_exact_witness:
  "fst (snd (BulkDelete (mem_maintenance 9) (\<lambda>i. None) [''mem_1'', ''x'', ''mem_1''] sample_store)) =
     \<lparr>br_Succeeded = [''mem_1''], br_Failed = [\<lparr>bf_ID = ''x'', bf_Error = error_text (not_found_job ''x'')\<rparr>]\<rparr> \<and>
   bulk_outcome mem_job (in_states {JobStateDiscarded}) (map_option (replanned (run_at 9 0))) [''mem_1''] sample_store
     (DeadLetterReplay (mem_maintenance 9) 9 (\<lambda>i. None) [''mem_1''] 0 sample_store)"
proof
  show "fst (snd (BulkDelete (mem_maintenance 9) (\<lambda>i. None) [''mem_1'', ''x'', ''mem_1''] sample_store)) =
     \<lparr>br_Succeeded = [''mem_1''], br_Failed = [\<lparr>bf_ID = ''x'', bf_Error = error_text (not_found_job ''x'')\<rparr>]\<rparr>" by code_simp
  show "bulk_outcome mem_job (in_states {JobStateDiscarded}) (map_option (replanned (run_at 9 0))) [''mem_1''] sample_store
     (DeadLetterReplay (mem_maintenance 9) 9 (\<lambda>i. None) [''mem_1''] 0 sample_store)"
    using bulk_actions_exact [of "\<lambda>i. None" "[''mem_1'']" sample_store 9 0] by blast
qed

text \<open>A store with one job that waits and one that was cancelled ten seconds after the epoch.\<close>

definition cancelled_store :: mem where
  "cancelled_store = fst (JobCancel (unix_epoch + 10) ''mem_1'' sample_store)"

theorem prune_removes_exactly_expired_witness:
  "map ID (AllJobs cancelled_store) = [''mem_1'', ''mem_2''] \<and>
   (\<exists>d. Prune (mem_maintenance 0) (\<lambda>i. unix_epoch + 30) \<lparr>rn_Completed = 0, rn_Discarded = 5, rn_Cancelled = 5\<rparr> cancelled_store =
     Some (d, \<lparr>pr_Scanned = 1, pr_Deleted = 1\<rparr>, None) \<and> map ID (AllJobs d) = [''mem_2''])"
proof -
  let ?policy = "\<lparr>rn_Completed = 0, rn_Discarded = 5, rn_Cancelled = 5\<rparr>"
  let ?clk = "\<lambda>i. unix_epoch + 30"
  have inv: "mem_inv cancelled_store" unfolding cancelled_store_def sample_store_def
    by (intro mem_inv_JobCancel mem_inv_JobInsertMany [OF mem_inv_New]) (simp add: mem_New_def)
  have "map CreatedAt (AllJobs cancelled_store) = [unix_epoch + 5, unix_epoch + 6]" by code_simp
  then have "\<forall>t\<in>set (map CreatedAt (AllJobs cancelled_store)). cursor_time t"
    using cursor_time_sample [of 5] cursor_time_sample [of 6] by simp
  then have t: "\<forall>r\<in>set (AllJobs cancelled_store). cursor_time (CreatedAt r)" by simp
  have ids: "map ID (AllJobs cancelled_store) = [''mem_1'', ''mem_2'']" by code_simp
  have counts: "count_rows (in_retention ?policy) cancelled_store = 1" "count_rows (over_retention ?policy ?clk) cancelled_store = 1"
    by code_simp+
  have "map ID (AllJobs (cancelled_store\<lparr>jobs := filter (\<lambda>(k, r). \<not> over_retention ?policy ?clk r) (jobs cancelled_store)\<rparr>)) = [''mem_2'']"
    by code_simp
  with prune_removes_exactly_expired [OF inv t, of ?policy 0 ?clk] ids counts show ?thesis by simp
qed

end
