(* ===== verification/Admin.thy ===== *)
theory Admin
  imports Maintenance
begin

text \<open>
  The administrative HTTP handler (\<^verbatim>\<open>admin/admin.go\<close>). A request is its method, path, query,
  headers and what the JSON decoder makes of the body; the response writer is a record that the
  handlers fill. A JSON document is kept as the value that is encoded. The embedded dashboard files
  are named by their paths.
\<close>

section \<open>Requests, responses and configuration\<close>

datatype Operation = OperationDashboard | OperationRead | OperationMutate | OperationMetrics | OperationHealth

record request =
  rq_Method :: string
  rq_Path :: string
  rq_query :: "string \<Rightarrow> string"
  rq_header :: "string \<Rightarrow> string"
  rq_run_at :: "gotime option"

record queueView =
  qv_Row :: QueueRow
  qv_Stats :: "QueueStats option"

record queuePage =
  qp_Items :: "queueView list"
  qp_NextCursor :: string
  qp_HasMore :: bool

datatype content =
    NoContent
  | Asset string
  | PlainText string
  | StringMap "(string \<times> string) list"
  | JobView JobRow
  | JobPageView JobPage
  | QueuePageView queuePage
  | Metrics "string list"

record response =
  w_Header :: "(string, string) gmap"
  w_Status :: nat
  w_Content :: content

text \<open>The driver operations the handler calls; listing and statistics are an optional capability.\<close>

record 's admin_driver =
  ad_Name :: string
  ad_QueueList :: "QueueListParams \<Rightarrow> 's \<Rightarrow> QueueRow list res"
  ad_admin :: "((JobListParams \<Rightarrow> 's \<Rightarrow> JobRow list res) \<times> (string \<Rightarrow> 's \<Rightarrow> QueueStats res)) option"
  ad_get :: "string \<Rightarrow> 's \<Rightarrow> JobRow option res"
  ad_pause :: "string \<Rightarrow> 's \<Rightarrow> 's \<times> goerr option"
  ad_resume :: "string \<Rightarrow> 's \<Rightarrow> 's \<times> goerr option"
  ad_cancel :: "string \<Rightarrow> 's \<Rightarrow> 's \<times> goerr option"
  ad_delete :: "string \<Rightarrow> 's \<Rightarrow> 's \<times> goerr option"
  ad_reschedule :: "RescheduleParams \<Rightarrow> 's \<Rightarrow> 's \<times> goerr option"

type_synonym AuthorizeFunc = "request \<Rightarrow> Operation \<Rightarrow> goerr option"

record 's handler =
  h_driver :: "'s admin_driver"
  h_readOnly :: bool
  h_authorize :: "AuthorizeFunc option"
  h_redact :: "JobRow \<Rightarrow> JobRow"

record config =
  g_readOnly :: bool
  g_authorize :: "AuthorizeFunc option"
  g_redact :: "(JobRow \<Rightarrow> JobRow) option"

definition defaultJobRedactor :: "JobRow \<Rightarrow> JobRow" where
  "defaultJobRedactor row =
     row\<lparr>Args := [], UniqueKey := [], Errors := map (\<lambda>e. e\<lparr>ae_Trace := []\<rparr>) (Errors row)\<rparr>"

definition admin_New :: "'s admin_driver \<Rightarrow> (config \<Rightarrow> config) list \<Rightarrow> 's handler" where
  "admin_New drv opts =
     (let cfg = foldl (\<lambda>c opt. opt c) \<lparr>g_readOnly = False, g_authorize = None, g_redact = Some defaultJobRedactor\<rparr> opts
      in \<lparr>h_driver = drv, h_readOnly = g_readOnly cfg, h_authorize = g_authorize cfg,
          h_redact = (case g_redact cfg of None \<Rightarrow> defaultJobRedactor | Some f \<Rightarrow> f)\<rparr>)"

section \<open>Writing responses\<close>

definition set_header :: "string \<Rightarrow> string \<Rightarrow> response \<Rightarrow> response" where
  "set_header k v w = w\<lparr>w_Header := gput k v (w_Header w)\<rparr>"

definition writeJSON :: "nat \<Rightarrow> content \<Rightarrow> response \<Rightarrow> response" where
  "writeJSON status value w =
     (set_header ''Content-Type'' ''application/json; charset=utf-8'' w)\<lparr>w_Status := status, w_Content := value\<rparr>"

definition writeError :: "nat \<Rightarrow> goerr \<Rightarrow> response \<Rightarrow> response" where
  "writeError status e w = writeJSON status (StringMap [(''error'', error_text e)]) w"

definition driver_status :: "goerr \<Rightarrow> nat" where
  "driver_status e =
     (if errors_is e ErrInvalidCursor then 400
      else if errors_is e ErrNotFound then 404
      else if errors_is e ErrConflict \<or> errors_is e ErrStaleClaim then 409
      else if errors_is e ErrUnsupported then 501
      else 500)"

definition writeDriverError :: "goerr \<Rightarrow> response \<Rightarrow> response" where
  "writeDriverError e w = writeError (driver_status e) e w"

definition writeAdminError :: "goerr \<Rightarrow> response \<Rightarrow> response" where
  "writeAdminError e w =
     (if errors_is e ErrUnauthenticated then writeError 401 (Sentinel ErrUnauthenticated) w
      else if errors_is e ErrConfirmationRequired then writeError 428 (Sentinel ErrConfirmationRequired) w
      else if errors_is e ErrReadOnly then writeError 403 (Sentinel ErrReadOnly) w
      else writeError 403 (Sentinel ErrForbidden) w)"

definition write_asset :: "string \<Rightarrow> string \<Rightarrow> response \<Rightarrow> response" where
  "write_asset type name w = (set_header ''Content-Type'' type w)\<lparr>w_Status := 200, w_Content := Asset name\<rparr>"

definition http_NotFound :: "response \<Rightarrow> response" where
  "http_NotFound w = (set_header ''X-Content-Type-Options'' ''nosniff''
     (set_header ''Content-Type'' ''text/plain; charset=utf-8'' w))\<lparr>w_Status := 404, w_Content := PlainText ''404 page not found''\<rparr>"

definition write_ok :: "response \<Rightarrow> response" where
  "write_ok w = writeJSON 200 (StringMap [(''status'', ''ok'')]) w"

section \<open>Guards\<close>

text \<open>\<open>Inl\<close> is the response of a request that is turned away.\<close>

definition admin_allowed :: "'s handler \<Rightarrow> request \<Rightarrow> Operation \<Rightarrow> response \<Rightarrow> response + response" where
  "admin_allowed h r operation w =
     (case h_authorize h of
        None \<Rightarrow> Inr w
      | Some authorize \<Rightarrow> (case authorize r operation of Some e \<Rightarrow> Inl (writeAdminError e w) | None \<Rightarrow> Inr w))"

definition mutationAllowed :: "'s handler \<Rightarrow> response \<Rightarrow> response + response" where
  "mutationAllowed h w = (if \<not> h_readOnly h then Inr w else Inl (writeAdminError (Sentinel ErrReadOnly) w))"

section \<open>Parsing\<close>

definition Atoi :: "string \<Rightarrow> int option" where
  "Atoi s = (case s of
      [] \<Rightarrow> None
    | c # digits \<Rightarrow> if c = CHR ''+'' then (if list_all is_digit digits then parse_int64 digits else None) else parse_int64 s)"

definition parseLimit :: "request \<Rightarrow> int \<Rightarrow> int" where
  "parseLimit r fallback =
     (case Atoi (rq_query r ''limit'') of
        None \<Rightarrow> fallback
      | Some limit \<Rightarrow> if limit \<le> 0 then fallback else if limit > 1000 then 1000 else limit)"

definition TrimPrefix :: "string \<Rightarrow> string \<Rightarrow> string" where
  "TrimPrefix s p = (if HasPrefix s p then drop (length p) s else s)"

fun split_slash :: "string \<Rightarrow> string list" where
  "split_slash [] = [[]]"
| "split_slash (c # cs) =
     (if c = CHR ''/'' then [] # split_slash cs
      else (case split_slash cs of [] \<Rightarrow> [[c]] | part # parts \<Rightarrow> (c # part) # parts))"

section \<open>Reading\<close>

definition admin_liveness :: "'s handler \<Rightarrow> response \<Rightarrow> response" where
  "admin_liveness h w = writeJSON 200 (StringMap [(''status'', ''alive''), (''driver'', ad_Name (h_driver h))]) w"

definition admin_Probe :: "'s admin_driver \<Rightarrow> 's \<Rightarrow> goerr option" where
  "admin_Probe drv s = (case ad_QueueList drv \<lparr>ql_Limit = 1, ql_Cursor = []\<rparr> s of Inl e \<Rightarrow> Some e | Inr _ \<Rightarrow> None)"

definition readiness :: "'s handler \<Rightarrow> 's \<Rightarrow> response \<Rightarrow> response" where
  "readiness h s w =
     (case ad_QueueList (h_driver h) \<lparr>ql_Limit = 1, ql_Cursor = []\<rparr> s of
        Inl e \<Rightarrow> writeError 503 e w
      | Inr _ \<Rightarrow> writeJSON 200 (StringMap [(''status'', ''ok''), (''driver'', ad_Name (h_driver h))]) w)"

fun queue_views :: "(string \<Rightarrow> QueueStats res) option \<Rightarrow> QueueRow list \<Rightarrow> queueView list res" where
  "queue_views stats [] = Inr []"
| "queue_views stats (row # rows) =
     (case (case stats of None \<Rightarrow> Inr None | Some get \<Rightarrow> (case get (qr_Name row) of Inl e \<Rightarrow> Inl e | Inr st \<Rightarrow> Inr (Some st))) of
        Inl e \<Rightarrow> Inl e
      | Inr st \<Rightarrow> (case queue_views stats rows of Inl e \<Rightarrow> Inl e | Inr vs \<Rightarrow> Inr (\<lparr>qv_Row = row, qv_Stats = st\<rparr> # vs)))"

text \<open>The cursor of the next page, if a probe for one more row finds any.\<close>

definition next_page :: "(string \<Rightarrow> 'r list res) \<Rightarrow> ('r \<Rightarrow> string) \<Rightarrow> int \<Rightarrow> 'r list \<Rightarrow> (string \<times> bool) res" where
  "next_page probe encode limit rows =
     (if int (length rows) = limit \<and> rows \<noteq> [] then
        (let candidate = encode (last rows)
         in case probe candidate of
              Inl e \<Rightarrow> Inl e
            | Inr following \<Rightarrow> Inr (if following \<noteq> [] then (candidate, True) else ([], False)))
      else Inr ([], False))"

definition queues_handler :: "'s handler \<Rightarrow> request \<Rightarrow> 's \<Rightarrow> response \<Rightarrow> response" where
  "queues_handler h r s w =
     (let drv = h_driver h; limit = parseLimit r 100;
          params = \<lparr>ql_Limit = limit, ql_Cursor = rq_query r ''cursor''\<rparr>
      in case ad_QueueList drv params s of
           Inl e \<Rightarrow> writeDriverError e w
         | Inr rows \<Rightarrow>
             (case next_page (\<lambda>c. ad_QueueList drv (params\<lparr>ql_Cursor := c, ql_Limit := 1\<rparr>) s) EncodeQueueCursor limit rows of
                Inl e \<Rightarrow> writeDriverError e w
              | Inr (nextCursor, hasMore) \<Rightarrow>
                  (case queue_views (map_option (\<lambda>(_, stats) name. stats name s) (ad_admin drv)) rows of
                     Inl e \<Rightarrow> writeDriverError e w
                   | Inr views \<Rightarrow>
                       writeJSON 200 (QueuePageView \<lparr>qp_Items = views, qp_NextCursor = nextCursor, qp_HasMore = hasMore\<rparr>) w)))"

definition jobs_handler :: "'s handler \<Rightarrow> request \<Rightarrow> 's \<Rightarrow> response \<Rightarrow> response" where
  "jobs_handler h r s w =
     (let drv = h_driver h; jid = rq_query r ''id''
      in if jid \<noteq> [] then
           (case ad_get drv jid s of
              Inl e \<Rightarrow> writeDriverError e w
            | Inr None \<Rightarrow> writeDriverError (wrap_sentinel ErrNotFound (''job '' @ go_quote jid)) w
            | Inr (Some row) \<Rightarrow> writeJSON 200 (JobView (h_redact h row)) w)
         else (case ad_admin drv of
             None \<Rightarrow> writeDriverError (wrap_sentinel ErrUnsupported (''driver '' @ go_quote (ad_Name drv) @ '' does not support job listing'')) w
           | Some (list_jobs, _) \<Rightarrow>
               let limit = parseLimit r 100;
                   params = \<lparr>jl_Queue = rq_query r ''queue'', jl_State = job_state_of_text (rq_query r ''state''),
                     jl_Kind = rq_query r ''kind'', jl_Limit = limit, jl_Cursor = rq_query r ''cursor''\<rparr>
               in case list_jobs params s of
                    Inl e \<Rightarrow> writeDriverError e w
                  | Inr rows \<Rightarrow>
                      (case next_page (\<lambda>c. list_jobs (params\<lparr>jl_Cursor := c, jl_Limit := 1\<rparr>) s) EncodeJobCursor limit rows of
                         Inl e \<Rightarrow> writeDriverError e w
                       | Inr (nextCursor, hasMore) \<Rightarrow>
                           writeJSON 200 (JobPageView \<lparr>pg_Items = map (h_redact h) rows, pg_NextCursor = nextCursor,
                             pg_HasMore = hasMore\<rparr>) w)))"

fun metric_rows :: "(string \<Rightarrow> QueueStats res) \<Rightarrow> QueueRow list \<Rightarrow> (string \<times> QueueStats) list res" where
  "metric_rows stats [] = Inr []"
| "metric_rows stats (q # qs) =
     (case stats (qr_Name q) of
        Inl e \<Rightarrow> Inl (wrap_prefix (''queue stats '' @ go_quote (qr_Name q)) e)
      | Inr st \<Rightarrow> (case metric_rows stats qs of Inl e \<Rightarrow> Inl e | Inr ms \<Rightarrow> Inr ((qr_Name q, st) # ms)))"

definition metric_line :: "string \<Rightarrow> JobState \<Rightarrow> int \<Rightarrow> string" where
  "metric_line queue state n =
     ''goncordia_queue_jobs{queue='' @ go_quote queue @ '',state='' @ go_quote (job_state_text state) @ ''} '' @ Itoa n"

definition metrics_handler :: "'s handler \<Rightarrow> 's \<Rightarrow> response \<Rightarrow> response" where
  "metrics_handler h s w =
     (let drv = h_driver h
      in case ad_admin drv of
           None \<Rightarrow> writeError 501 (Errorf (''driver '' @ go_quote (ad_Name drv) @ '' does not support queue metrics'')) w
         | Some (_, stats) \<Rightarrow>
             (case ad_QueueList drv \<lparr>ql_Limit = 1000, ql_Cursor = []\<rparr> s of
                Inl e \<Rightarrow> writeError 503 e w
              | Inr qs \<Rightarrow>
                  (case metric_rows (\<lambda>name. stats name s) qs of
                     Inl e \<Rightarrow> writeError 503 e w
                   | Inr rows \<Rightarrow>
                       (set_header ''Content-Type'' ''text/plain; version=0.0.4; charset=utf-8'' w)\<lparr>w_Status := 200,
                          w_Content := Metrics ([''# HELP goncordia_queue_jobs Number of jobs by queue and state.'',
                            ''# TYPE goncordia_queue_jobs gauge''] @
                            concat (map (\<lambda>(queue, st). map (\<lambda>(state, n). metric_line queue state n) (qs_States st)) rows))\<rparr>)))"

section \<open>Actions\<close>

definition finish_action :: "'s \<times> goerr option \<Rightarrow> response \<Rightarrow> 's \<times> response" where
  "finish_action result w = (case result of (s, Some e) \<Rightarrow> (s, writeDriverError e w) | (s, None) \<Rightarrow> (s, write_ok w))"

definition queueAction :: "'s handler \<Rightarrow> request \<Rightarrow> 's \<Rightarrow> response \<Rightarrow> 's \<times> response" where
  "queueAction h r s w =
     (case mutationAllowed h w of
        Inl w' \<Rightarrow> (s, w')
      | Inr w' \<Rightarrow>
          (case split_slash (TrimPrefix (rq_Path r) ''/api/queues/'') of
             [name, action] \<Rightarrow>
               if name = [] then (s, writeError 400 (Errorf ''expected /api/queues/{name}/{pause|resume}'') w')
               else if action \<noteq> ''pause'' \<and> action \<noteq> ''resume''
               then (s, writeError 400 (Errorf (''unknown queue action '' @ go_quote action)) w')
               else if rq_header r ''X-Goncordia-Confirm'' \<noteq> action
               then (s, writeAdminError (Sentinel ErrConfirmationRequired) w')
               else finish_action (if action = ''pause'' then ad_pause (h_driver h) name s else ad_resume (h_driver h) name s) w'
           | _ \<Rightarrow> (s, writeError 400 (Errorf ''expected /api/queues/{name}/{pause|resume}'') w')))"

definition jobAction :: "'s handler \<Rightarrow> gotime \<Rightarrow> request \<Rightarrow> 's \<Rightarrow> response \<Rightarrow> 's \<times> response" where
  "jobAction h now r s w =
     (case mutationAllowed h w of
        Inl w' \<Rightarrow> (s, w')
      | Inr w' \<Rightarrow>
          (case split_slash (TrimPrefix (rq_Path r) ''/api/jobs/'') of
             [jid, action] \<Rightarrow>
               if jid = [] then (s, writeError 400 (Errorf ''expected /api/jobs/{id}/{action}'') w')
               else if action \<notin> {''cancel'', ''delete'', ''retry'', ''reschedule''}
               then (s, writeError 400 (Errorf (''unknown job action '' @ go_quote action)) w')
               else if rq_header r ''X-Goncordia-Confirm'' \<noteq> action
               then (s, writeAdminError (Sentinel ErrConfirmationRequired) w')
               else if action = ''cancel'' then finish_action (ad_cancel (h_driver h) jid s) w'
               else if action = ''delete'' then finish_action (ad_delete (h_driver h) jid s) w'
               else if action = ''retry'' then finish_action (ad_reschedule (h_driver h) \<lparr>rs_ID = jid, rs_RunAt = now\<rparr> s) w'
               else (case rq_run_at r of
                   None \<Rightarrow> (s, writeError 400 (Errorf ''valid run_at is required'') w')
                 | Some t \<Rightarrow>
                     if IsZero t then (s, writeError 400 (Errorf ''valid run_at is required'') w')
                     else finish_action (ad_reschedule (h_driver h) \<lparr>rs_ID = jid, rs_RunAt = t\<rparr> s) w')
           | _ \<Rightarrow> (s, writeError 400 (Errorf ''expected /api/jobs/{id}/{action}'') w')))"

section \<open>The handler\<close>

definition new_response :: response where
  "new_response = \<lparr>w_Header = [], w_Status = 200, w_Content = NoContent\<rparr>"

definition security_headers :: "response \<Rightarrow> response" where
  "security_headers w =
     set_header ''Content-Security-Policy'' (''default-src 'none'; script-src 'self'; style-src 'self'; connect-src 'self'; base-uri 'none'; frame-ancestors 'none'; form-action 'self'' @ [CHR 0x27])
       (set_header ''X-Content-Type-Options'' ''nosniff'' (set_header ''Referrer-Policy'' ''no-referrer'' (set_header ''Cache-Control'' ''no-store'' w)))"

definition guarded :: "'s handler \<Rightarrow> request \<Rightarrow> Operation \<Rightarrow> 's \<Rightarrow> (response \<Rightarrow> 's \<times> response) \<Rightarrow> response \<Rightarrow> 's \<times> response" where
  "guarded h r operation s go w = (case admin_allowed h r operation w of Inl w' \<Rightarrow> (s, w') | Inr w' \<Rightarrow> go w')"

definition ServeHTTP :: "'s handler \<Rightarrow> gotime \<Rightarrow> request \<Rightarrow> 's \<Rightarrow> 's \<times> response" where
  "ServeHTTP h now r s =
     (let w = security_headers new_response; path = rq_Path r;
          get = (rq_Method r = ''GET''); post = (rq_Method r = ''POST'')
      in if path = ''/'' \<and> get then guarded h r OperationDashboard s (\<lambda>w. (s, write_asset ''text/html; charset=utf-8'' ''dashboard.html'' w)) w
         else if path = ''/dashboard.css'' \<and> get
         then guarded h r OperationDashboard s (\<lambda>w. (s, write_asset ''text/css; charset=utf-8'' ''dashboard.css'' w)) w
         else if path = ''/dashboard.js'' \<and> get
         then guarded h r OperationDashboard s (\<lambda>w. (s, write_asset ''text/javascript; charset=utf-8'' ''dashboard.js'' w)) w
         else if path = ''/healthz'' \<and> get then guarded h r OperationHealth s (\<lambda>w. (s, admin_liveness h w)) w
         else if path = ''/readyz'' \<and> get then guarded h r OperationHealth s (\<lambda>w. (s, readiness h s w)) w
         else if path = ''/metrics'' \<and> get then guarded h r OperationMetrics s (\<lambda>w. (s, metrics_handler h s w)) w
         else if path = ''/api/queues'' \<and> get then guarded h r OperationRead s (\<lambda>w. (s, queues_handler h r s w)) w
         else if HasPrefix path ''/api/queues/'' \<and> post then guarded h r OperationMutate s (queueAction h r s) w
         else if path = ''/api/jobs'' \<and> get then guarded h r OperationRead s (\<lambda>w. (s, jobs_handler h r s w)) w
         else if HasPrefix path ''/api/jobs/'' \<and> post then guarded h r OperationMutate s (jobAction h now r s) w
         else (s, http_NotFound w))"

section \<open>What a request may change\<close>

text \<open>The commands that a request can name, and when it names one.\<close>

datatype command =
    PauseQueue string
  | ResumeQueue string
  | CancelJob string
  | DeleteJob string
  | RescheduleJob string gotime

fun run_command :: "'s admin_driver \<Rightarrow> command \<Rightarrow> 's \<Rightarrow> 's \<times> goerr option" where
  "run_command drv (PauseQueue name) s = ad_pause drv name s"
| "run_command drv (ResumeQueue name) s = ad_resume drv name s"
| "run_command drv (CancelJob jid) s = ad_cancel drv jid s"
| "run_command drv (DeleteJob jid) s = ad_delete drv jid s"
| "run_command drv (RescheduleJob jid t) s = ad_reschedule drv \<lparr>rs_ID = jid, rs_RunAt = t\<rparr> s"

definition names_action :: "request \<Rightarrow> string \<Rightarrow> string \<Rightarrow> string \<Rightarrow> bool" where
  "names_action r prefix name action \<longleftrightarrow>
     rq_Method r = ''POST'' \<and> rq_Path r = prefix @ name @ ''/'' @ action \<and> name \<noteq> [] \<and> CHR ''/'' \<notin> set name \<and>
     rq_header r ''X-Goncordia-Confirm'' = action"

inductive asks :: "gotime \<Rightarrow> request \<Rightarrow> command \<Rightarrow> bool" for now r where
  pause: "names_action r ''/api/queues/'' name ''pause'' \<Longrightarrow> asks now r (PauseQueue name)"
| resume: "names_action r ''/api/queues/'' name ''resume'' \<Longrightarrow> asks now r (ResumeQueue name)"
| cancel: "names_action r ''/api/jobs/'' jid ''cancel'' \<Longrightarrow> asks now r (CancelJob jid)"
| delete: "names_action r ''/api/jobs/'' jid ''delete'' \<Longrightarrow> asks now r (DeleteJob jid)"
| retry: "names_action r ''/api/jobs/'' jid ''retry'' \<Longrightarrow> asks now r (RescheduleJob jid now)"
| reschedule: "names_action r ''/api/jobs/'' jid ''reschedule'' \<Longrightarrow> rq_run_at r = Some t \<Longrightarrow> \<not> IsZero t \<Longrightarrow>
    asks now r (RescheduleJob jid t)"

definition permitted :: "'s handler \<Rightarrow> request \<Rightarrow> bool" where
  "permitted h r \<longleftrightarrow> \<not> h_readOnly h \<and> (\<forall>authorize. h_authorize h = Some authorize \<longrightarrow> authorize r OperationMutate = None)"

lemma split_slash_nonempty: "split_slash s \<noteq> []"
  by (induction s) (auto split: list.splits)

lemma split_slash_single: "split_slash s = [a] \<longleftrightarrow> a = s \<and> CHR ''/'' \<notin> set s"
proof (induction s arbitrary: a)
  case (Cons c s)
  obtain part parts where parts: "split_slash s = part # parts" using split_slash_nonempty by (meson neq_Nil_conv)
  show ?case
  proof (cases "c = CHR ''/''")
    case False
    then show ?thesis using parts Cons.IH [of part] Cons.IH [of s] by auto
  qed (use parts in auto)
qed auto

lemma split_slash_pair:
  "split_slash s = [a, b] \<longleftrightarrow> s = a @ ''/'' @ b \<and> CHR ''/'' \<notin> set a \<and> CHR ''/'' \<notin> set b"
proof (induction s arbitrary: a)
  case (Cons c s)
  obtain part parts where parts: "split_slash s = part # parts" using split_slash_nonempty by (meson neq_Nil_conv)
  show ?case
  proof (cases "c = CHR ''/''")
    case True
    have "split_slash s = [b] \<longleftrightarrow> b = s \<and> CHR ''/'' \<notin> set s" by (rule split_slash_single)
    with True show ?thesis by (cases a) auto
  next
    case False
    with parts Cons.IH [of part] Cons.IH [of "tl a"] show ?thesis by (cases a) auto
  qed
qed simp

lemma path_parts:
  assumes "HasPrefix path p" "CHR ''/'' \<notin> set action"
  shows "split_slash (TrimPrefix path p) = [name, action] \<longleftrightarrow> path = p @ name @ ''/'' @ action \<and> CHR ''/'' \<notin> set name"
proof -
  have "path = p @ drop (length p) path" using assms(1) by (metis HasPrefix_def append_take_drop_id)
  then have "TrimPrefix path p = name @ ''/'' @ action \<longleftrightarrow> path = p @ name @ ''/'' @ action"
    using assms(1) by (metis TrimPrefix_def append_eq_conv_conj)
  then show ?thesis using assms(2) by (auto simp: split_slash_pair)
qed

lemma guarded_read: "fst (guarded h r operation s (\<lambda>w. (s, f w)) w) = s"
  by (simp add: guarded_def split: sum.splits)

lemma queueAction_effect:
  assumes "HasPrefix (rq_Path r) ''/api/queues/''" "rq_Method r = ''POST''"
  shows "h_readOnly h \<Longrightarrow> fst (queueAction h r s w) = s"
    and "\<not> h_readOnly h \<Longrightarrow> asks now r c \<Longrightarrow> queueAction h r s w = finish_action (run_command (h_driver h) c s) w"
    and "(\<nexists>c. asks now r c) \<Longrightarrow> fst (queueAction h r s w) = s"
proof -
  have act: "split_slash (TrimPrefix (rq_Path r) ''/api/queues/'') = [name, action] \<and> name \<noteq> [] \<and>
      rq_header r ''X-Goncordia-Confirm'' = action \<longleftrightarrow> names_action r ''/api/queues/'' name action"
    if "action = ''pause'' \<or> action = ''resume''" for name action
    using path_parts [OF assms(1), of action name] that assms(2) by (auto simp: names_action_def)
  show "fst (queueAction h r s w) = s" if "h_readOnly h" using that by (simp add: queueAction_def mutationAllowed_def)
  show "fst (queueAction h r s w) = s" if "\<nexists>c. asks now r c"
  proof -
    have "\<not> names_action r ''/api/queues/'' name action" if "action = ''pause'' \<or> action = ''resume''" for name action
      using that \<open>\<nexists>c. asks now r c\<close> by (auto intro: asks.intros)
    then show ?thesis using act
      by (simp add: queueAction_def mutationAllowed_def split: list.splits) blast
  qed
  show "queueAction h r s w = finish_action (run_command (h_driver h) c s) w" if ro: "\<not> h_readOnly h" and c: "asks now r c"
  proof -
    have jobs: "\<not> names_action r ''/api/jobs/'' jid action" for jid action
      using assms(1) by (auto simp: names_action_def HasPrefix_def)
    from c jobs obtain name where
      "c = PauseQueue name \<and> names_action r ''/api/queues/'' name ''pause'' \<or>
       c = ResumeQueue name \<and> names_action r ''/api/queues/'' name ''resume''" by (auto elim: asks.cases)
    then show ?thesis using act [of "''pause''" name] act [of "''resume''" name] ro
      by (auto simp: queueAction_def mutationAllowed_def)
  qed
qed

lemma jobAction_effect:
  assumes "HasPrefix (rq_Path r) ''/api/jobs/''" "rq_Method r = ''POST''"
  shows "h_readOnly h \<Longrightarrow> fst (jobAction h now r s w) = s"
    and "\<not> h_readOnly h \<Longrightarrow> asks now r c \<Longrightarrow> jobAction h now r s w = finish_action (run_command (h_driver h) c s) w"
    and "(\<nexists>c. asks now r c) \<Longrightarrow> fst (jobAction h now r s w) = s"
proof -
  let ?actions = "{''cancel'', ''delete'', ''retry'', ''reschedule''}"
  have act: "split_slash (TrimPrefix (rq_Path r) ''/api/jobs/'') = [jid, action] \<and> jid \<noteq> [] \<and>
      rq_header r ''X-Goncordia-Confirm'' = action \<longleftrightarrow> names_action r ''/api/jobs/'' jid action"
    if "action \<in> ?actions" for jid action
    using path_parts [OF assms(1), of action jid] that assms(2) by (auto simp: names_action_def)
  show "fst (jobAction h now r s w) = s" if "h_readOnly h" using that by (simp add: jobAction_def mutationAllowed_def)
  show "fst (jobAction h now r s w) = s" if none: "\<nexists>c. asks now r c"
  proof -
    have no: "\<not> names_action r ''/api/jobs/'' jid action" if "action \<in> ?actions" "action \<noteq> ''reschedule''" for jid action
      using that none by (auto intro: asks.intros)
    have run_at: "rq_run_at r = None \<or> rq_run_at r = Some 0" if "names_action r ''/api/jobs/'' jid ''reschedule''" for jid
      using asks.reschedule [OF that] none by (cases "rq_run_at r") (auto simp: IsZero_def)
    have "fst (jobAction h now r s w) = s"
      if parts: "split_slash (TrimPrefix (rq_Path r) ''/api/jobs/'') = [jid, action]" "jid \<noteq> []" "action \<in> ?actions"
        "rq_header r ''X-Goncordia-Confirm'' = action" for jid action
    proof -
      have n: "names_action r ''/api/jobs/'' jid action" using act [OF parts(3)] parts by blast
      then have "action = ''reschedule''" using no parts(3) by blast
      with n run_at have "rq_run_at r = None \<or> rq_run_at r = Some 0" by blast
      then show ?thesis using parts \<open>action = ''reschedule''\<close>
        by (auto simp: jobAction_def mutationAllowed_def IsZero_def)
    qed
    moreover have "\<exists>jid action. split_slash (TrimPrefix (rq_Path r) ''/api/jobs/'') = [jid, action] \<and> jid \<noteq> [] \<and>
        action \<in> ?actions \<and> rq_header r ''X-Goncordia-Confirm'' = action" if "fst (jobAction h now r s w) \<noteq> s"
      using that by (auto simp: jobAction_def mutationAllowed_def split: list.splits if_splits)
    ultimately show ?thesis by blast
  qed
  show "jobAction h now r s w = finish_action (run_command (h_driver h) c s) w" if ro: "\<not> h_readOnly h" and c: "asks now r c"
  proof -
    have queues: "\<not> names_action r ''/api/queues/'' name action" for name action
      using assms(1) by (auto simp: names_action_def HasPrefix_def)
    have parts: "split_slash (TrimPrefix (rq_Path r) ''/api/jobs/'') = [jid, action]" "jid \<noteq> []"
        "rq_header r ''X-Goncordia-Confirm'' = action"
      if "names_action r ''/api/jobs/'' jid action" "action \<in> ?actions" for jid action
      using act [OF that(2)] that(1) by blast+
    show ?thesis using c ro queues by (cases rule: asks.cases) (simp_all add: jobAction_def mutationAllowed_def parts)
  qed
qed

text \<open>
  Claim C29: an administrative request changes the store only by the command it spells out. When the
  handler is not read-only and the authorizer admits the change, a \<^verbatim>\<open>POST\<close> whose path names a queue or
  job and an action, and whose confirmation header repeats the action, runs exactly that command
  and answers with its outcome; every other request leaves the store as it is.
\<close>

theorem admin_changes_are_guarded:
  "(\<forall>c. permitted h r \<and> asks now r c \<longrightarrow>
      ServeHTTP h now r s = finish_action (run_command (h_driver h) c s) (security_headers new_response)) \<and>
   (\<not> (permitted h r \<and> (\<exists>c. asks now r c)) \<longrightarrow> fst (ServeHTTP h now r s) = s)"
proof -
  let ?w = "security_headers new_response"
  have prefix: "HasPrefix (rq_Path r) ''/api/queues/'' \<and> rq_Method r = ''POST'' \<or> HasPrefix (rq_Path r) ''/api/jobs/'' \<and> rq_Method r = ''POST''"
    if "asks now r c" for c using that by cases (simp_all add: names_action_def HasPrefix_def)
  consider (queue) "HasPrefix (rq_Path r) ''/api/queues/''" "rq_Method r = ''POST''"
    | (job) "HasPrefix (rq_Path r) ''/api/jobs/''" "rq_Method r = ''POST''" "\<not> HasPrefix (rq_Path r) ''/api/queues/''"
    | (other) "\<not> (HasPrefix (rq_Path r) ''/api/queues/'' \<and> rq_Method r = ''POST'')" "\<not> (HasPrefix (rq_Path r) ''/api/jobs/'' \<and> rq_Method r = ''POST'')"
    by blast
  then show ?thesis
  proof cases
    case queue
    then have "ServeHTTP h now r s = guarded h r OperationMutate s (queueAction h r s) ?w" by (simp add: ServeHTTP_def)
    with queueAction_effect(1) [OF queue, of h s ?w] queueAction_effect(2,3) [OF queue, where now = now] show ?thesis
      by (auto simp: guarded_def admin_allowed_def permitted_def split: option.splits)
  next
    case job
    then have "ServeHTTP h now r s = guarded h r OperationMutate s (jobAction h now r s) ?w" by (simp add: ServeHTTP_def)
    with jobAction_effect [OF job(1,2)] show ?thesis
      by (auto simp: guarded_def admin_allowed_def permitted_def split: option.splits)
  next
    case other
    then have "fst (ServeHTTP h now r s) = s" by (auto simp: ServeHTTP_def guarded_read Let_def)
    then show ?thesis using prefix other by blast
  qed
qed

definition mem_admin :: "gotime \<Rightarrow> mem admin_driver" where
  "mem_admin now = \<lparr>ad_Name = ''memory'', ad_QueueList = QueueList, ad_admin = Some (JobList, \<lambda>q d. Inr (mem_QueueStats q d)),
     ad_get = (\<lambda>k d. case JobGetByID k d of Inl e \<Rightarrow> Inl e | Inr row \<Rightarrow> Inr (Some row)),
     ad_pause = (\<lambda>name d. (QueuePause now name d, None)), ad_resume = (\<lambda>name d. (QueueResume now name d, None)),
     ad_cancel = JobCancel now, ad_delete = JobDelete, ad_reschedule = JobReschedule\<rparr>"

definition sample_request :: request where
  "sample_request = \<lparr>rq_Method = ''POST'', rq_Path = ''/api/jobs/mem_1/cancel'', rq_query = (\<lambda>_. []),
     rq_header = (\<lambda>k. if k = ''X-Goncordia-Confirm'' then ''cancel'' else []), rq_run_at = None\<rparr>"

theorem admin_changes_are_guarded_witness:
  "ServeHTTP (admin_New (mem_admin 9) []) 9 sample_request sample_store =
     (fst (JobCancel 9 ''mem_1'' sample_store), write_ok (security_headers new_response)) \<and>
   fst (ServeHTTP (admin_New (mem_admin 9) [\<lambda>c. c\<lparr>g_readOnly := True\<rparr>]) 9 sample_request sample_store) = sample_store"
proof
  have named: "names_action sample_request ''/api/jobs/'' ''mem_1'' ''cancel''" by (simp add: names_action_def sample_request_def)
  have "permitted (admin_New (mem_admin 9) []) sample_request" by (simp add: permitted_def admin_New_def)
  with asks.cancel [OF named, of 9] admin_changes_are_guarded [of "admin_New (mem_admin 9) []" sample_request 9 sample_store]
  have "ServeHTTP (admin_New (mem_admin 9) []) 9 sample_request sample_store =
      finish_action (run_command (mem_admin 9) (CancelJob ''mem_1'') sample_store) (security_headers new_response)"
    by (auto simp: admin_New_def)
  moreover have "snd (JobCancel 9 ''mem_1'' sample_store) = None" by code_simp
  ultimately show "ServeHTTP (admin_New (mem_admin 9) []) 9 sample_request sample_store =
     (fst (JobCancel 9 ''mem_1'' sample_store), write_ok (security_headers new_response))"
    by (cases "JobCancel 9 ''mem_1'' sample_store") (simp add: finish_action_def mem_admin_def)
  have "\<not> permitted (admin_New (mem_admin 9) [\<lambda>c. c\<lparr>g_readOnly := True\<rparr>]) sample_request" by (simp add: permitted_def admin_New_def)
  then show "fst (ServeHTTP (admin_New (mem_admin 9) [\<lambda>c. c\<lparr>g_readOnly := True\<rparr>]) 9 sample_request sample_store) = sample_store"
    using admin_changes_are_guarded [of "admin_New (mem_admin 9) [\<lambda>c. c\<lparr>g_readOnly := True\<rparr>]" sample_request 9 sample_store] by blast
qed

section \<open>What a request shows\<close>

definition shown_jobs :: "content \<Rightarrow> JobRow list" where
  "shown_jobs c = (case c of JobView row \<Rightarrow> [row] | JobPageView page \<Rightarrow> pg_Items page | _ \<Rightarrow> [])"

lemma shown_jobs_write [simp]:
  "shown_jobs (w_Content (writeError st e w)) = []" "shown_jobs (w_Content (writeDriverError e w)) = []"
  "shown_jobs (w_Content (writeAdminError e w)) = []" "shown_jobs (w_Content (write_asset t n w)) = []"
  "shown_jobs (w_Content (write_ok w)) = []" "shown_jobs (w_Content (http_NotFound w)) = []"
  "w_Content (writeJSON st v w) = v" "w_Status (writeJSON st v w) = st"
  by (simp_all add: shown_jobs_def writeError_def writeDriverError_def writeAdminError_def write_asset_def write_ok_def
      http_NotFound_def writeJSON_def)

lemma shown_jobs_jobs_handler:
  "set (shown_jobs (w_Content (jobs_handler h r s w))) \<subseteq> range (h_redact h)"
  by (auto simp: jobs_handler_def Let_def shown_jobs_def [of "JobView _"] shown_jobs_def [of "JobPageView _"]
      split: sum.splits option.splits prod.splits if_splits)

lemma guarded_shown:
  assumes "\<And>w. set (shown_jobs (w_Content (snd (go w)))) \<subseteq> A"
  shows "set (shown_jobs (w_Content (snd (guarded h r operation s go w)))) \<subseteq> A"
  using assms by (auto simp: guarded_def admin_allowed_def split: sum.splits option.splits)

lemma silent_handlers:
  "shown_jobs (w_Content (admin_liveness h w)) = []" "shown_jobs (w_Content (readiness h s w)) = []"
  "shown_jobs (w_Content (metrics_handler h s w)) = []" "shown_jobs (w_Content (queues_handler h r s w)) = []"
  "shown_jobs (w_Content (snd (finish_action res w))) = []"
  by (auto simp: admin_liveness_def readiness_def metrics_handler_def queues_handler_def finish_action_def Let_def
      shown_jobs_def [of "StringMap _"] shown_jobs_def [of "Metrics _"] shown_jobs_def [of "QueuePageView _"]
      split: sum.splits option.splits prod.splits)

lemma silent_actions:
  "shown_jobs (w_Content (snd (queueAction h r s w))) = []" "shown_jobs (w_Content (snd (jobAction h now r s w))) = []"
  by (auto simp: queueAction_def jobAction_def mutationAllowed_def silent_handlers split: list.splits option.splits)

text \<open>
  With the default redactor the JSON API does not expose job arguments, unique keys or
  panic traces, whatever the request; and job data is shown only to a reader that the authorizer
  admits.
\<close>

theorem admin_shows_redacted_jobs:
  assumes "h_redact h = defaultJobRedactor" "row \<in> set (shown_jobs (w_Content (snd (ServeHTTP h now r s))))"
  shows "Args row = [] \<and> UniqueKey row = [] \<and> (\<forall>e\<in>set (Errors row). ae_Trace e = []) \<and>
    (\<forall>authorize. h_authorize h = Some authorize \<longrightarrow> authorize r OperationRead = None)"
proof -
  let ?w = "security_headers new_response"
  have "row \<in> set (shown_jobs (w_Content (snd (guarded h r OperationRead s (\<lambda>w. (s, jobs_handler h r s w)) ?w))))"
    using assms(2) guarded_shown [where A = "{}" and h = h and r = r and s = s]
    by (simp add: ServeHTTP_def Let_def silent_handlers silent_actions split: if_splits)
  then have "row \<in> range (h_redact h) \<and> (\<forall>authorize. h_authorize h = Some authorize \<longrightarrow> authorize r OperationRead = None)"
    using shown_jobs_jobs_handler [THEN subsetD] by (auto simp: guarded_def admin_allowed_def split: sum.splits option.splits)
  then show ?thesis using assms(1) by (auto simp: defaultJobRedactor_def)
qed

theorem admin_shows_redacted_jobs_witness:
  "let rows = shown_jobs (w_Content (snd (ServeHTTP (admin_New (mem_admin 9) []) 9
     (sample_request\<lparr>rq_Method := ''GET'', rq_Path := ''/api/jobs''\<rparr>) sample_store)))
   in map ID rows = [''mem_2'', ''mem_1''] \<and> map (\<lambda>row. (Args row, UniqueKey row)) rows = [([], []), ([], [])]"
proof -
  define rows where "rows = shown_jobs (w_Content (snd (ServeHTTP (admin_New (mem_admin 9) []) 9
     (sample_request\<lparr>rq_Method := ''GET'', rq_Path := ''/api/jobs''\<rparr>) sample_store)))"
  have ids: "map ID rows = [''mem_2'', ''mem_1'']" unfolding rows_def by code_simp
  have "h_redact (admin_New (mem_admin 9) []) = defaultJobRedactor" by (simp add: admin_New_def)
  from admin_shows_redacted_jobs [OF this] have "map (\<lambda>row. (Args row, UniqueKey row)) rows = map (\<lambda>_. ([], [])) rows"
    unfolding rows_def by simp
  with ids show ?thesis unfolding Let_def rows_def [symmetric] by (auto simp: map_eq_Cons_conv)
qed

text \<open>The page of a listing that starts at position \<open>i\<close>.\<close>

lemma list_page:
  assumes "mem_inv d" "\<forall>r\<in>set (AllJobs d). cursor_time (CreatedAt r)" "jl_Cursor p = []" "i \<le> length (listed p d)"
  shows "JobList (p\<lparr>jl_Cursor := page_cursor (listed p d) i\<rparr>) d = Inr (take (page_limit (jl_Limit p)) (drop i (listed p d)))"
proof (cases "i = 0")
  case True
  then have "p\<lparr>jl_Cursor := page_cursor (listed p d) i\<rparr> = p" using assms(3) by (simp add: page_cursor_def)
  then show ?thesis using True assms(3) by (simp add: JobList_def listed_def)
next
  case False
  then show ?thesis using job_pages [OF assms(1-3), of "i - 1"] assms(4) by (simp add: page_cursor_def)
qed

definition job_query :: "request \<Rightarrow> JobListParams" where
  "job_query r = \<lparr>jl_Queue = rq_query r ''queue'', jl_State = job_state_of_text (rq_query r ''state''),
     jl_Kind = rq_query r ''kind'', jl_Limit = parseLimit r 100, jl_Cursor = []\<rparr>"

lemma parseLimit_bounds: "1 \<le> parseLimit r 100" "parseLimit r 100 \<le> 1000" "page_limit (parseLimit r 100) = nat (parseLimit r 100)"
  by (auto simp: parseLimit_def page_limit_def split: option.splits)

text \<open>
  Following \<^verbatim>\<open>next_cursor\<close> through \<^verbatim>\<open>/api/jobs\<close> reads the whole listing once. On the in-memory
  driver the page at position \<open>i\<close> shows the next jobs of the listing, up to the limit; \<^verbatim>\<open>has_more\<close> says
  whether jobs are left, and then \<^verbatim>\<open>next_cursor\<close> is the position behind the page.
\<close>

theorem admin_pages_partition_listing:
  assumes "mem_inv d" "\<forall>row\<in>set (AllJobs d). cursor_time (CreatedAt row)"
    and "rq_query r ''id'' = []" "i \<le> length (listed (job_query r) d)"
    and "rq_query r ''cursor'' = page_cursor (listed (job_query r) d) i" "h_driver h = mem_admin t"
  shows "let L = listed (job_query r) d; j = i + nat (parseLimit r 100); w' = jobs_handler h r d w
    in w_Status w' = 200 \<and> w_Content w' = JobPageView
      \<lparr>pg_Items = map (h_redact h) (take (nat (parseLimit r 100)) (drop i L)),
       pg_NextCursor = (if j < length L then page_cursor L j else []), pg_HasMore = (j < length L)\<rparr>"
proof -
  let ?L = "listed (job_query r) d"
  let ?l = "nat (parseLimit r 100)"
  let ?rows = "take ?l (drop i ?L)"
  note bounds = parseLimit_bounds [of r]
  have q: "jl_Cursor (job_query r) = []" "jl_Limit (job_query r) = parseLimit r 100" by (simp_all add: job_query_def)
  note page = list_page [OF assms(1,2) q(1) assms(4)]
  have first: "JobList ((job_query r)\<lparr>jl_Cursor := rq_query r ''cursor''\<rparr>) d = Inr ?rows"
    using page by (simp add: assms(5) q(2) bounds(3))
  have next_cursor: "next_page (\<lambda>c. JobList ((job_query r)\<lparr>jl_Cursor := c, jl_Limit := 1\<rparr>) d) EncodeJobCursor (parseLimit r 100) ?rows =
      Inr (if i + ?l < length ?L then page_cursor ?L (i + ?l) else [], i + ?l < length ?L)"
  proof (cases "i + ?l \<le> length ?L")
    case True
    then have len: "length ?rows = ?l" "?rows \<noteq> []" using bounds(1) by auto
    have "last ?rows = ?L ! (i + ?l - 1)" using True bounds(1) len by (simp add: last_conv_nth)
    then have enc: "EncodeJobCursor (last ?rows) = page_cursor ?L (i + ?l)" using bounds(1) by (simp add: page_cursor_def)
    have same: "listed ((job_query r)\<lparr>jl_Limit := 1\<rparr>) d = ?L" by (simp add: listed_def list_matches_def [abs_def])
    have comm: "(job_query r)\<lparr>jl_Cursor := c, jl_Limit := 1\<rparr> = (job_query r)\<lparr>jl_Limit := 1, jl_Cursor := c\<rparr>" for c by simp
    have "JobList ((job_query r)\<lparr>jl_Cursor := page_cursor ?L (i + ?l), jl_Limit := 1\<rparr>) d = Inr (take 1 (drop (i + ?l) ?L))"
      using list_page [OF assms(1,2), of "(job_query r)\<lparr>jl_Limit := 1\<rparr>" "i + ?l"] True
      unfolding same comm by (simp add: q(1) page_limit_def)
    then show ?thesis using len bounds(1) by (simp add: next_page_def enc Let_def)
  next
    case False
    then have "int (length ?rows) \<noteq> parseLimit r 100" using bounds(1) by auto
    then show ?thesis using False by (simp add: next_page_def)
  qed
  have params: "\<lparr>jl_Queue = rq_query r ''queue'', jl_State = job_state_of_text (rq_query r ''state''),
      jl_Kind = rq_query r ''kind'', jl_Limit = parseLimit r 100, jl_Cursor = c\<rparr> = (job_query r)\<lparr>jl_Cursor := c\<rparr>" for c
    by (simp add: job_query_def)
  show ?thesis using first next_cursor
    by (simp add: jobs_handler_def assms(3,6) mem_admin_def params Let_def)
qed

text \<open>The first of two pages, with a limit of one.\<close>

definition page_request :: request where
  "page_request = sample_request\<lparr>rq_Method := ''GET'', rq_Path := ''/api/jobs'', rq_query := (\<lambda>k. if k = ''limit'' then ''1'' else [])\<rparr>"

theorem admin_pages_partition_listing_witness:
  "map ID (listed (job_query page_request) sample_store) = [''mem_2'', ''mem_1''] \<and>
   w_Content (jobs_handler (admin_New (mem_admin 9) []) page_request sample_store new_response) = JobPageView
     \<lparr>pg_Items = map defaultJobRedactor (take 1 (listed (job_query page_request) sample_store)),
      pg_NextCursor = page_cursor (listed (job_query page_request) sample_store) 1, pg_HasMore = True\<rparr>"
proof -
  have inv: "mem_inv sample_store" unfolding sample_store_def
    by (rule mem_inv_JobInsertMany [OF mem_inv_New]) (simp add: mem_New_def)
  have "map CreatedAt (AllJobs sample_store) = [unix_epoch + 5, unix_epoch + 6]" by code_simp
  then have "\<forall>t\<in>set (map CreatedAt (AllJobs sample_store)). cursor_time t"
    using cursor_time_sample [of 5] cursor_time_sample [of 6] by simp
  then have t: "\<forall>r\<in>set (AllJobs sample_store). cursor_time (CreatedAt r)" by simp
  have ids: "map ID (listed (job_query page_request) sample_store) = [''mem_2'', ''mem_1'']" by code_simp
  then have len: "length (listed (job_query page_request) sample_store) = 2" by (metis length_map length_Cons list.size(3) One_nat_def Suc_1)
  have l: "parseLimit page_request 100 = 1" by code_simp
  have q: "rq_query page_request ''id'' = []" "rq_query page_request ''cursor'' = page_cursor (listed (job_query page_request) sample_store) 0"
    by (simp_all add: page_request_def page_cursor_def)
  have h: "h_driver (admin_New (mem_admin 9) []) = mem_admin 9" "h_redact (admin_New (mem_admin 9) []) = defaultJobRedactor"
    by (simp_all add: admin_New_def)
  show ?thesis
    using admin_pages_partition_listing [OF inv t q(1) _ q(2) h(1), of new_response] ids by (simp add: l len h(2) Let_def)
qed

end
