(* ===== verification/Firestore.thy ===== *)
theory Firestore
  imports Pagination Store_Interfaces
begin

text \<open>
  The Firestore driver (\<^verbatim>\<open>driver/firestore\<close>). The service and its client library are a parameter: the
  record \<open>firestore\<close> of the calls the driver makes, over an unknown type of service states. The
  locale \<open>firestore_service\<close> states what the documentation of the client promises about them; in
  particular, \<^verbatim>\<open>RunTransaction\<close> may run its callback several times before an attempt commits, and
  the variables that the callback captures keep what earlier attempts assigned.

  Documents are the structs that the driver reads and writes, one constructor per collection, and
  an update of fields is a function on a document. Instants have the precision that the service
  stores.
\<close>

section \<open>Documents\<close>

record jobError =
  je_At :: gotime
  je_Attempt :: int
  je_Message :: string
  je_Trace :: string

record jobDoc =
  jd_ID :: string
  jd_Queue :: string
  jd_Kind :: string
  jd_Args :: string
  jd_State :: JobState
  jd_Priority :: int
  jd_RunAt :: gotime
  jd_CreatedAt :: gotime
  jd_AttemptedAt :: gotime
  jd_StartedAt :: gotime
  jd_LeaseExpiresAt :: gotime
  jd_FinalizedAt :: gotime
  jd_AttemptNum :: int
  jd_MaxRetry :: int
  jd_TimeoutMs :: int
  jd_UniqueKey :: string
  jd_WorkerID :: string
  jd_Tags :: "string list"
  jd_Errors :: "jobError list"
  jd_Version :: int
  jd_PipelineID :: string

record queueDoc =
  qd_Name :: string
  qd_Paused :: bool
  qd_CreatedAt :: gotime
  qd_UpdatedAt :: gotime

record leaderDoc =
  ld_Name :: string
  ld_WorkerID :: string
  ld_ExpiresAt :: gotime

datatype fdoc =
    JobDoc jobDoc
  | UniqDoc string
  | QueueDoc queueDoc
  | LeaderDoc leaderDoc
  | CursorDoc gotime

text \<open>A reference names a collection and a document in it.\<close>

datatype fref =
    JobRef string
  | UniqRef string
  | QueueRef string
  | LeaderRef string
  | CursorRef string

section \<open>The client library\<close>

datatype fcode = NotFound | AlreadyExists | OtherCode

datatype fwrite =
    WCreate fref fdoc
  | WUpdate fref "fdoc \<Rightarrow> fdoc"
  | WDelete fref

text \<open>The variables that callbacks capture.\<close>

record tx_vars =
  tv_skip :: bool
  tv_renewed :: bool
  tv_marked :: bool
  tv_elected :: bool
  tv_advanced :: bool
  tv_result :: ScheduleCursorResult

definition no_vars :: tx_vars where
  "no_vars = \<lparr>tv_skip = False, tv_renewed = False, tv_marked = False, tv_elected = False, tv_advanced = False,
     tv_result = \<lparr>cr_At = 0, cr_Created = False\<rparr>\<rparr>"

text \<open>
  A callback: the number of the attempt and the reads of the transaction give the new values of the
  captured variables, and an error or the writes to commit.
\<close>

type_synonym tx_body = "nat \<Rightarrow> (fref \<Rightarrow> fdoc res) \<Rightarrow> tx_vars \<Rightarrow> tx_vars \<times> fwrite list res"

record fs_query =
  jq_where :: "jobDoc \<Rightarrow> bool"
  jq_by_run_at :: bool
  jq_limit :: "int option"

record 's firestore =
  fs_code :: "goerr \<Rightarrow> fcode"
  fs_bad_document :: goerr
  fs_get :: "fref \<Rightarrow> 's \<Rightarrow> fdoc res"
  fs_create :: "fref \<Rightarrow> fdoc \<Rightarrow> 's \<Rightarrow> 's \<times> goerr option"
  fs_set :: "fref \<Rightarrow> fdoc \<Rightarrow> 's \<Rightarrow> 's \<times> goerr option"
  fs_update :: "fref \<Rightarrow> (fdoc \<Rightarrow> fdoc) \<Rightarrow> 's \<Rightarrow> 's \<times> goerr option"
  fs_delete :: "fref \<Rightarrow> 's \<Rightarrow> 's \<times> goerr option"
  fs_jobs :: "fs_query \<Rightarrow> 's \<Rightarrow> (fref \<times> fdoc) list res"
  fs_queues :: "'s \<Rightarrow> fdoc list res"
  fs_count :: "(jobDoc \<Rightarrow> bool) \<Rightarrow> 's \<Rightarrow> int option res"
  fs_run :: "tx_body \<Rightarrow> tx_vars \<Rightarrow> 's \<Rightarrow> 's \<times> tx_vars \<times> goerr option"

text \<open>\<^verbatim>\<open>DataTo\<close>, which refuses a document of another shape.\<close>

definition to_job :: "'s firestore \<Rightarrow> fdoc \<Rightarrow> jobDoc res" where
  "to_job c doc = (case doc of JobDoc j \<Rightarrow> Inr j | _ \<Rightarrow> Inl (fs_bad_document c))"

definition to_queue :: "'s firestore \<Rightarrow> fdoc \<Rightarrow> queueDoc res" where
  "to_queue c doc = (case doc of QueueDoc q \<Rightarrow> Inr q | _ \<Rightarrow> Inl (fs_bad_document c))"

definition to_leader :: "'s firestore \<Rightarrow> fdoc \<Rightarrow> leaderDoc res" where
  "to_leader c doc = (case doc of LeaderDoc l \<Rightarrow> Inr l | _ \<Rightarrow> Inl (fs_bad_document c))"

definition to_cursor :: "'s firestore \<Rightarrow> fdoc \<Rightarrow> gotime res" where
  "to_cursor c doc = (case doc of CursorDoc t \<Rightarrow> Inr t | _ \<Rightarrow> Inl (fs_bad_document c))"

definition is_not_found :: "'s firestore \<Rightarrow> goerr \<Rightarrow> bool" where
  "is_not_found c e \<longleftrightarrow> fs_code c e = NotFound"

definition on_job :: "(jobDoc \<Rightarrow> jobDoc) \<Rightarrow> fdoc \<Rightarrow> fdoc" where
  "on_job f doc = (case doc of JobDoc j \<Rightarrow> JobDoc (f j) | _ \<Rightarrow> doc)"

definition on_leader :: "(leaderDoc \<Rightarrow> leaderDoc) \<Rightarrow> fdoc \<Rightarrow> fdoc" where
  "on_leader f doc = (case doc of LeaderDoc l \<Rightarrow> LeaderDoc (f l) | _ \<Rightarrow> doc)"

section \<open>Rows\<close>

text \<open>\<^verbatim>\<open>Duration.Milliseconds\<close> truncates towards zero.\<close>

definition Milliseconds :: "duration \<Rightarrow> int" where
  "Milliseconds d = (if d < 0 then - (- d div Millisecond) else d div Millisecond)"

definition opt_time :: "gotime \<Rightarrow> gotime option" where
  "opt_time t = (if IsZero t then None else Some t)"

definition jobErrorsToRow :: "jobError list \<Rightarrow> AttemptError list" where
  "jobErrorsToRow errs = map (\<lambda>e. \<lparr>ae_At = je_At e, ae_Attempt = je_Attempt e, ae_Error = je_Message e, ae_Trace = je_Trace e\<rparr>) errs"

definition docToRow :: "jobDoc \<Rightarrow> JobRow" where
  "docToRow j = \<lparr>ID = jd_ID j, Queue = jd_Queue j, Kind = jd_Kind j,
     Args = (if jd_Args j = [] then ''{}'' else jd_Args j), State = jd_State j, Priority = jd_Priority j,
     RunAt = jd_RunAt j, CreatedAt = jd_CreatedAt j, AttemptedAt = opt_time (jd_AttemptedAt j),
     StartedAt = opt_time (jd_StartedAt j), LeaseExpiresAt = opt_time (jd_LeaseExpiresAt j),
     FinalizedAt = opt_time (jd_FinalizedAt j), AttemptNum = jd_AttemptNum j, MaxRetry = jd_MaxRetry j,
     Timeout = wrap64 (jd_TimeoutMs j * Millisecond), Tags = jd_Tags j, Errors = jobErrorsToRow (jd_Errors j),
     UniqueKey = jd_UniqueKey j, WorkerID = jd_WorkerID j, PipelineID = jd_PipelineID j\<rparr>"

section \<open>Insertion\<close>

definition new_doc :: "gotime \<Rightarrow> string \<Rightarrow> JobInsertParams \<Rightarrow> jobDoc" where
  "new_doc now jid p =
     (let runAt = (if IsZero (ip_RunAt p) then now else ip_RunAt p)
      in \<lparr>jd_ID = jid, jd_Queue = ip_Queue p, jd_Kind = ip_Kind p, jd_Args = ip_Args p,
          jd_State = (if now < runAt then JobStateScheduled else JobStateAvailable), jd_Priority = ip_Priority p,
          jd_RunAt = runAt, jd_CreatedAt = now, jd_AttemptedAt = 0, jd_StartedAt = 0, jd_LeaseExpiresAt = 0,
          jd_FinalizedAt = 0, jd_AttemptNum = 0, jd_MaxRetry = ip_MaxRetry p, jd_TimeoutMs = Milliseconds (ip_Timeout p),
          jd_UniqueKey = ip_UniqueKey p, jd_WorkerID = [], jd_Tags = ip_Tags p, jd_Errors = [], jd_Version = 1,
          jd_PipelineID = ip_PipelineID p\<rparr>)"

definition insert_body :: "'s firestore \<Rightarrow> jobDoc \<Rightarrow> tx_body" where
  "insert_body c doc n read v =
     (let writes = [WCreate (JobRef (jd_ID doc)) (JobDoc doc), WCreate (UniqRef (jd_UniqueKey doc)) (UniqDoc (jd_ID doc))]
      in case read (UniqRef (jd_UniqueKey doc)) of
           Inr _ \<Rightarrow> (v\<lparr>tv_skip := True\<rparr>, Inr [])
         | Inl e \<Rightarrow> if is_not_found c e then (v, Inr writes) else (v, Inl e))"

definition insert_error :: "nat \<Rightarrow> goerr \<Rightarrow> goerr" where
  "insert_error i e = wrap_prefix (''insert job '' @ nat_to_dec i) e"

text \<open>One parameter: the job under its unique key, and the queue it names.\<close>

definition fs_insert_one :: "'s firestore \<Rightarrow> gotime \<Rightarrow> string \<Rightarrow> nat \<Rightarrow> JobInsertParams \<Rightarrow> 's \<Rightarrow> 's \<times> JobInsertResult res" where
  "fs_insert_one c now jid i p s =
     (let doc = new_doc now jid p;
          stored = (if ip_UniqueKey p \<noteq> [] then
              (case fs_run c (insert_body c doc) no_vars s of
                 (s1, v, Some e) \<Rightarrow> (s1, Inl (insert_error i e))
               | (s1, v, None) \<Rightarrow> (s1, Inr (tv_skip v)))
            else (case fs_create c (JobRef jid) (JobDoc doc) s of
                 (s1, Some e) \<Rightarrow> (s1, Inl (insert_error i e))
               | (s1, None) \<Rightarrow> (s1, Inr False)))
      in case stored of
           (s1, Inl e) \<Rightarrow> (s1, Inl e)
         | (s1, Inr True) \<Rightarrow> (s1, Inr \<lparr>ir_Job = None, ir_UniqueSkip = True\<rparr>)
         | (s1, Inr False) \<Rightarrow>
             (case fs_create c (QueueRef (ip_Queue p))
                (QueueDoc \<lparr>qd_Name = ip_Queue p, qd_Paused = False, qd_CreatedAt = now, qd_UpdatedAt = now\<rparr>) s1 of
                (s2, Some e) \<Rightarrow>
                  if fs_code c e \<noteq> AlreadyExists then (s2, Inl (wrap_prefix ''upsert queue'' e))
                  else (s2, Inr \<lparr>ir_Job = Some (docToRow doc), ir_UniqueSkip = False\<rparr>)
              | (s2, None) \<Rightarrow> (s2, Inr \<lparr>ir_Job = Some (docToRow doc), ir_UniqueSkip = False\<rparr>)))"

fun fs_insert_loop :: "'s firestore \<Rightarrow> gotime \<Rightarrow> (nat \<Rightarrow> string) \<Rightarrow> nat \<Rightarrow> JobInsertParams list \<Rightarrow> 's \<Rightarrow> 's \<times> JobInsertResult list res" where
  "fs_insert_loop c now newID i [] s = (s, Inr [])"
| "fs_insert_loop c now newID i (p # ps) s =
     (case fs_insert_one c now (newID i) i p s of
        (s1, Inl e) \<Rightarrow> (s1, Inl e)
      | (s1, Inr r) \<Rightarrow>
          (case fs_insert_loop c now newID (Suc i) ps s1 of
             (s2, Inl e) \<Rightarrow> (s2, Inl e)
           | (s2, Inr rs) \<Rightarrow> (s2, Inr (r # rs))))"

definition fs_jobInsertMany :: "'s firestore \<Rightarrow> gotime \<Rightarrow> (nat \<Rightarrow> string) \<Rightarrow> JobInsertParams list \<Rightarrow> 's \<Rightarrow> 's \<times> JobInsertResult list res" where
  "fs_jobInsertMany c now newID ps s = fs_insert_loop c now newID 0 ps s"

text \<open>Inside a transaction of the caller: all reads, then all writes.\<close>

fun insert_tx_reads :: "'s firestore \<Rightarrow> (fref \<Rightarrow> fdoc res) \<Rightarrow> gotime \<Rightarrow> (nat \<Rightarrow> string) \<Rightarrow> nat \<Rightarrow> JobInsertParams list \<Rightarrow> (jobDoc \<times> bool) list res" where
  "insert_tx_reads c read now newID i [] = Inr []"
| "insert_tx_reads c read now newID i (p # ps) =
     (case (if ip_UniqueKey p = [] then Inr False
            else (case read (UniqRef (ip_UniqueKey p)) of
                Inl e \<Rightarrow> if is_not_found c e then Inr False else Inl e
              | Inr _ \<Rightarrow> Inr True)) of
        Inl e \<Rightarrow> Inl e
      | Inr skip \<Rightarrow>
          (case insert_tx_reads c read now newID (Suc i) ps of
             Inl e \<Rightarrow> Inl e
           | Inr es \<Rightarrow> Inr ((new_doc now (newID i) p, skip) # es)))"

definition entry_writes :: "jobDoc \<times> bool \<Rightarrow> fwrite list" where
  "entry_writes = (\<lambda>(doc, skip).
     if skip then []
     else WCreate (JobRef (jd_ID doc)) (JobDoc doc) #
       (if jd_UniqueKey doc = [] then [] else [WCreate (UniqRef (jd_UniqueKey doc)) (UniqDoc (jd_ID doc))]))"

definition jobInsertManyTx :: "'s firestore \<Rightarrow> (fref \<Rightarrow> fdoc res) \<Rightarrow> gotime \<Rightarrow> (nat \<Rightarrow> string) \<Rightarrow> JobInsertParams list \<Rightarrow>
    (fwrite list \<times> JobInsertResult list) res" where
  "jobInsertManyTx c read now newID ps =
     (case insert_tx_reads c read now newID 0 ps of
        Inl e \<Rightarrow> Inl e
      | Inr es \<Rightarrow> Inr (concat (map entry_writes es),
          map (\<lambda>(doc, skip). if skip then \<lparr>ir_Job = None, ir_UniqueSkip = True\<rparr>
            else \<lparr>ir_Job = Some (docToRow doc), ir_UniqueSkip = False\<rparr>) es))"

section \<open>Lookup and listing\<close>

definition fs_jobGetByID :: "'s firestore \<Rightarrow> string \<Rightarrow> 's \<Rightarrow> JobRow option res" where
  "fs_jobGetByID c jid s =
     (case fs_get c (JobRef jid) s of
        Inl e \<Rightarrow> if is_not_found c e then Inr None else Inl e
      | Inr doc \<Rightarrow> (case to_job c doc of Inl e \<Rightarrow> Inl e | Inr j \<Rightarrow> Inr (Some (docToRow j))))"

definition tx_jobGetByID :: "'s firestore \<Rightarrow> (fref \<Rightarrow> fdoc res) \<Rightarrow> string \<Rightarrow> JobRow res" where
  "tx_jobGetByID c read jid =
     (case read (JobRef jid) of
        Inl e \<Rightarrow> Inl (if is_not_found c e then not_found_job jid else e)
      | Inr doc \<Rightarrow> (case to_job c doc of Inl e \<Rightarrow> Inl e | Inr j \<Rightarrow> Inr (docToRow j)))"

text \<open>The documents that decode; the others are left out.\<close>

fun decoded_jobs :: "'s firestore \<Rightarrow> (fref \<times> fdoc) list \<Rightarrow> (fref \<times> jobDoc) list" where
  "decoded_jobs c [] = []"
| "decoded_jobs c ((ref, doc) # snaps) =
     (case to_job c doc of Inl _ \<Rightarrow> decoded_jobs c snaps | Inr j \<Rightarrow> (ref, j) # decoded_jobs c snaps)"

definition list_where :: "JobListParams \<Rightarrow> jobDoc \<Rightarrow> bool" where
  "list_where p j \<longleftrightarrow> (jl_Queue p = [] \<or> jd_Queue j = jl_Queue p) \<and> (jl_State p = NoState \<or> jd_State j = jl_State p) \<and>
     (jl_Kind p = [] \<or> jd_Kind j = jl_Kind p)"

definition fs_jobList :: "'s firestore \<Rightarrow> JobListParams \<Rightarrow> 's \<Rightarrow> JobRow list res" where
  "fs_jobList c p s =
     (case (if jl_Cursor p \<noteq> [] then DecodeJobCursor (jl_Cursor p) else Inr (0, [])) of
        Inl e \<Rightarrow> Inl e
      | Inr (cursorAt, cursorID) \<Rightarrow>
          (case fs_jobs c \<lparr>jq_where = list_where p, jq_by_run_at = False, jq_limit = None\<rparr> s of
             Inl e \<Rightarrow> Inl e
           | Inr snaps \<Rightarrow>
               let rows = filter (\<lambda>row. jl_Cursor p = [] \<or> JobFollowsCursor row cursorAt cursorID)
                            (map (\<lambda>(_, j). docToRow j) (decoded_jobs c snaps))
               in Inr (take (page_limit (jl_Limit p)) (sort_slice list_less rows))))"

definition counted_states :: "JobState list" where
  "counted_states = [JobStateAvailable, JobStateScheduled, JobStateRunning, JobStateCompleted, JobStateDiscarded, JobStateCancelled]"

fun fs_stats_loop :: "'s firestore \<Rightarrow> string \<Rightarrow> 's \<Rightarrow> JobState list \<Rightarrow> QueueStats \<Rightarrow> QueueStats res" where
  "fs_stats_loop c queue s [] stats = Inr stats"
| "fs_stats_loop c queue s (st # states) stats =
     (case fs_count c (\<lambda>j. jd_Queue j = queue \<and> jd_State j = st) s of
        Inl e \<Rightarrow> Inl e
      | Inr None \<Rightarrow> Inl (Errorf (''firestore count returned unexpected value for queue '' @ go_quote queue @ '' state '' @
          go_quote (job_state_text st)))
      | Inr (Some n) \<Rightarrow>
          fs_stats_loop c queue s states (stats\<lparr>qs_States := gput st n (qs_States stats), qs_Total := qs_Total stats + n\<rparr>))"

definition fs_queueStats :: "'s firestore \<Rightarrow> string \<Rightarrow> 's \<Rightarrow> QueueStats res" where
  "fs_queueStats c queue s = fs_stats_loop c queue s counted_states (empty_stats queue)"

section \<open>Claiming\<close>

definition candidateLimit :: "int \<Rightarrow> int" where
  "candidateLimit limit = (let n = wrap64 (limit * 16) in if n < 64 then 64 else if n > 1024 then 1024 else n)"

definition fetch_where :: "string \<Rightarrow> gotime \<Rightarrow> jobDoc \<Rightarrow> bool" where
  "fetch_where queue now j \<longleftrightarrow> jd_Queue j = queue \<and> jd_State j \<in> {JobStateAvailable, JobStateScheduled} \<and> jd_RunAt j \<le> now"

definition candidate_less :: "fref \<times> jobDoc \<Rightarrow> fref \<times> jobDoc \<Rightarrow> bool" where
  "candidate_less a b =
     (let x = snd a; y = snd b
      in if jd_Priority x \<noteq> jd_Priority y then jd_Priority x > jd_Priority y
         else if jd_RunAt x \<noteq> jd_RunAt y then jd_RunAt x < jd_RunAt y
         else if jd_CreatedAt x \<noteq> jd_CreatedAt y then jd_CreatedAt x < jd_CreatedAt y
         else jd_ID x < jd_ID y)"

definition lease_until :: "gotime \<Rightarrow> duration \<Rightarrow> gotime" where
  "lease_until t d = (if d > 0 then t + d else 0)"

definition claim_doc :: "FetchParams \<Rightarrow> gotime \<Rightarrow> jobDoc \<Rightarrow> jobDoc" where
  "claim_doc p t j = j\<lparr>jd_State := JobStateRunning, jd_WorkerID := fp_WorkerID p, jd_AttemptedAt := t, jd_StartedAt := 0,
     jd_LeaseExpiresAt := lease_until t (fp_LeaseDuration p), jd_AttemptNum := jd_AttemptNum j + 1,
     jd_Version := jd_Version j + 1\<rparr>"

definition claim_body :: "'s firestore \<Rightarrow> FetchParams \<Rightarrow> gotime \<Rightarrow> fref \<Rightarrow> tx_body" where
  "claim_body c p t ref n read v =
     (case read ref of
        Inl e \<Rightarrow> (v, Inl e)
      | Inr doc \<Rightarrow>
          (case to_job c doc of
             Inl e \<Rightarrow> (v, Inl e)
           | Inr cur \<Rightarrow>
               if jd_State cur \<noteq> JobStateAvailable \<and> jd_State cur \<noteq> JobStateScheduled then (v, Inl (Sentinel errJobGone))
               else (v, Inr [WUpdate ref (on_job (claim_doc p t))])))"

text \<open>The row of a claim is built from the candidate that the query has read.\<close>

definition claimed_row :: "FetchParams \<Rightarrow> gotime \<Rightarrow> jobDoc \<Rightarrow> JobRow" where
  "claimed_row p t j = \<lparr>ID = jd_ID j, Queue = jd_Queue j, Kind = jd_Kind j, Args = jd_Args j, State = JobStateRunning,
     Priority = jd_Priority j, RunAt = jd_RunAt j, CreatedAt = jd_CreatedAt j, AttemptedAt = Some t, StartedAt = None,
     LeaseExpiresAt = opt_time (lease_until t (fp_LeaseDuration p)), FinalizedAt = None, AttemptNum = jd_AttemptNum j + 1,
     MaxRetry = jd_MaxRetry j, Timeout = wrap64 (jd_TimeoutMs j * Millisecond), Tags = jd_Tags j,
     Errors = jobErrorsToRow (jd_Errors j), UniqueKey = jd_UniqueKey j, WorkerID = fp_WorkerID p, PipelineID = jd_PipelineID j\<rparr>"

text \<open>\<open>others i\<close> is what other processes do to the service before call \<open>i\<close>; \<open>clk\<close> are the clock readings.\<close>

fun claim_loop :: "'s firestore \<Rightarrow> (nat \<Rightarrow> gotime) \<Rightarrow> (nat \<Rightarrow> 's \<Rightarrow> 's) \<Rightarrow> FetchParams \<Rightarrow> nat \<Rightarrow> (fref \<times> jobDoc) list \<Rightarrow> JobRow list \<Rightarrow> 's \<Rightarrow>
    's \<times> JobRow list res" where
  "claim_loop c clk others p i [] claimed s = (s, Inr claimed)"
| "claim_loop c clk others p i ((ref, j) # cs) claimed s =
     (if int (length claimed) \<ge> fp_Limit p then (s, Inr claimed)
      else (case fs_run c (claim_body c p (clk i) ref) no_vars (others i s) of
          (s', _, Some e) \<Rightarrow>
            if errors_is e errJobGone then claim_loop c clk others p (Suc i) cs claimed s'
            else (s', Inl (wrap_prefix ''claim job'' e))
        | (s', _, None) \<Rightarrow> claim_loop c clk others p (Suc i) cs (claimed @ [claimed_row p (clk i) j]) s'))"

definition queue_is_paused :: "'s firestore \<Rightarrow> string \<Rightarrow> 's \<Rightarrow> bool" where
  "queue_is_paused c queue s =
     (case fs_get c (QueueRef queue) s of
        Inl _ \<Rightarrow> False
      | Inr doc \<Rightarrow> (case to_queue c doc of Inl _ \<Rightarrow> False | Inr q \<Rightarrow> qd_Paused q))"

definition fs_jobFetchBatch :: "'s firestore \<Rightarrow> (nat \<Rightarrow> gotime) \<Rightarrow> (nat \<Rightarrow> 's \<Rightarrow> 's) \<Rightarrow> FetchParams \<Rightarrow> 's \<Rightarrow> 's \<times> JobRow list res" where
  "fs_jobFetchBatch c clk others p s =
     (if queue_is_paused c (fp_Queue p) s then (s, Inr [])
      else let s1 = others 0 s
        in case fs_jobs c \<lparr>jq_where = fetch_where (fp_Queue p) (clk 0), jq_by_run_at = True,
                           jq_limit = Some (candidateLimit (fp_Limit p))\<rparr> s1 of
             Inl e \<Rightarrow> (s1, Inl (wrap_prefix ''query available jobs'' e))
           | Inr snaps \<Rightarrow> claim_loop c clk others p 1 (sort_slice candidate_less (decoded_jobs c snaps)) [] s1)"

section \<open>Claims\<close>

definition fs_stuck :: "JobRescueParams \<Rightarrow> jobDoc \<Rightarrow> bool" where
  "fs_stuck p j \<longleftrightarrow> jd_State j = JobStateRunning \<and>
     (\<not> IsZero (jd_LeaseExpiresAt j) \<and> \<not> rp_At p < jd_LeaseExpiresAt j \<or>
      IsZero (jd_LeaseExpiresAt j) \<and> \<not> IsZero (jd_AttemptedAt j) \<and> \<not> rp_Before p < jd_AttemptedAt j)"

definition rescue_doc :: "jobDoc \<Rightarrow> jobDoc" where
  "rescue_doc j = j\<lparr>jd_State := JobStateAvailable, jd_WorkerID := [], jd_AttemptedAt := 0, jd_StartedAt := 0,
     jd_LeaseExpiresAt := 0, jd_Version := jd_Version j + 1\<rparr>"

definition rescue_body :: "'s firestore \<Rightarrow> JobRescueParams \<Rightarrow> fref \<Rightarrow> tx_body" where
  "rescue_body c p ref n read v =
     (case read ref of
        Inl e \<Rightarrow> (v, Inl e)
      | Inr doc \<Rightarrow>
          (case to_job c doc of
             Inl e \<Rightarrow> (v, Inl e)
           | Inr j \<Rightarrow> if \<not> fs_stuck p j then (v, Inl (Sentinel errJobGone)) else (v, Inr [WUpdate ref (on_job rescue_doc)])))"

fun rescue_loop :: "'s firestore \<Rightarrow> (nat \<Rightarrow> 's \<Rightarrow> 's) \<Rightarrow> JobRescueParams \<Rightarrow> nat \<Rightarrow> (fref \<times> fdoc) list \<Rightarrow> int \<Rightarrow> 's \<Rightarrow> 's \<times> int \<times> goerr option" where
  "rescue_loop c others p i [] rescued s = (s, rescued, None)"
| "rescue_loop c others p i ((ref, _) # snaps) rescued s =
     (case fs_run c (rescue_body c p ref) no_vars (others i s) of
        (s', _, Some e) \<Rightarrow>
          if errors_is e errJobGone then rescue_loop c others p (Suc i) snaps rescued s' else (s', rescued, Some e)
      | (s', _, None) \<Rightarrow> rescue_loop c others p (Suc i) snaps (rescued + 1) s')"

definition fs_jobRescueStuck :: "'s firestore \<Rightarrow> (nat \<Rightarrow> 's \<Rightarrow> 's) \<Rightarrow> JobRescueParams \<Rightarrow> 's \<Rightarrow> 's \<times> int \<times> goerr option" where
  "fs_jobRescueStuck c others p s =
     (case fs_jobs c \<lparr>jq_where = (\<lambda>j. jd_Queue j = rp_Queue p \<and> jd_State j = JobStateRunning), jq_by_run_at = False, jq_limit = None\<rparr> s of
        Inl e \<Rightarrow> (s, 0, Some e)
      | Inr snaps \<Rightarrow> rescue_loop c others p 0 snaps 0 s)"

definition doc_claimed :: "string \<Rightarrow> int \<Rightarrow> jobDoc \<Rightarrow> bool" where
  "doc_claimed worker attempt j \<longleftrightarrow> jd_State j = JobStateRunning \<and> jd_WorkerID j = worker \<and> jd_AttemptNum j = attempt"

definition heartbeat_body :: "'s firestore \<Rightarrow> JobHeartbeatParams \<Rightarrow> tx_body" where
  "heartbeat_body c p n read v =
     (case read (JobRef (hp_ID p)) of
        Inl e \<Rightarrow> (v, Inl (if is_not_found c e then stale_claim (hp_ID p) else e))
      | Inr doc \<Rightarrow>
          (case to_job c doc of
             Inl e \<Rightarrow> (v, Inl e)
           | Inr j \<Rightarrow>
               if \<not> doc_claimed (hp_WorkerID p) (hp_Attempt p) j then (v, Inr [])
               else let until = (if IsZero (hp_LeaseExpiresAt p) then hp_At p else hp_LeaseExpiresAt p)
                    in (v\<lparr>tv_renewed := True\<rparr>, Inr [WUpdate (JobRef (hp_ID p)) (on_job (\<lambda>j. j\<lparr>jd_LeaseExpiresAt := until\<rparr>))])))"

definition fs_jobHeartbeat :: "'s firestore \<Rightarrow> JobHeartbeatParams \<Rightarrow> 's \<Rightarrow> 's \<times> bool \<times> goerr option" where
  "fs_jobHeartbeat c p s = (let (s', v, err) = fs_run c (heartbeat_body c p) no_vars s in (s', tv_renewed v \<and> err = None, err))"

definition mark_body :: "'s firestore \<Rightarrow> JobMarkStartedParams \<Rightarrow> tx_body" where
  "mark_body c p n read v =
     (case read (JobRef (ms_ID p)) of
        Inl e \<Rightarrow> (v, Inl e)
      | Inr doc \<Rightarrow>
          (case to_job c doc of
             Inl e \<Rightarrow> (v, Inl e)
           | Inr j \<Rightarrow>
               if \<not> doc_claimed (ms_WorkerID p) (ms_Attempt p) j then (v, Inr [])
               else (v\<lparr>tv_marked := True\<rparr>, Inr [WUpdate (JobRef (ms_ID p)) (on_job (\<lambda>j. j\<lparr>jd_StartedAt := ms_At p\<rparr>))])))"

definition fs_jobMarkStarted :: "'s firestore \<Rightarrow> JobMarkStartedParams \<Rightarrow> 's \<Rightarrow> 's \<times> bool \<times> goerr option" where
  "fs_jobMarkStarted c p s = (let (s', v, err) = fs_run c (mark_body c p) no_vars s in (s', tv_marked v \<and> err = None, err))"

definition yield_doc :: "jobDoc \<Rightarrow> jobDoc" where
  "yield_doc j = j\<lparr>jd_State := JobStateAvailable, jd_WorkerID := [], jd_AttemptedAt := 0, jd_StartedAt := 0,
     jd_LeaseExpiresAt := 0, jd_AttemptNum := jd_AttemptNum j - 1, jd_Version := jd_Version j + 1\<rparr>"

definition outcome_doc :: "gotime \<Rightarrow> JobSetStateParams \<Rightarrow> jobDoc \<Rightarrow> jobDoc" where
  "outcome_doc now p j =
     (let j1 = j\<lparr>jd_WorkerID := [], jd_LeaseExpiresAt := 0, jd_Version := jd_Version j + 1\<rparr>;
          j2 = (case sp_Err p of
                  None \<Rightarrow> j1
                | Some e \<Rightarrow> j1\<lparr>jd_Errors := jd_Errors j1 @ [\<lparr>je_At = now, je_Attempt = jd_AttemptNum j, je_Message = e,
                    je_Trace = (case sp_Trace p of None \<Rightarrow> [] | Some t \<Rightarrow> t)\<rparr>]\<rparr>)
      in if sp_State p = JobStateRetryable
         then j2\<lparr>jd_State := JobStateAvailable, jd_RunAt := (if IsZero (sp_RetryAt p) then now else sp_RetryAt p)\<rparr>
         else j2\<lparr>jd_State := sp_State p, jd_FinalizedAt := now\<rparr>)"

text \<open>The key that a job gives back when it ends.\<close>

definition release_key :: "jobDoc \<Rightarrow> fwrite list" where
  "release_key j = (if jd_UniqueKey j \<noteq> [] \<and> \<not> IsPermanentUniqueKey (jd_UniqueKey j) then [WDelete (UniqRef (jd_UniqueKey j))] else [])"

text \<open>The callback reads the clock, so every attempt has its own reading.\<close>

definition set_state_body :: "'s firestore \<Rightarrow> (nat \<Rightarrow> gotime) \<Rightarrow> JobSetStateParams \<Rightarrow> tx_body" where
  "set_state_body c clk p n read v =
     (case read (JobRef (sp_ID p)) of
        Inl e \<Rightarrow> if is_not_found c e then (v, Inr []) else (v, Inl e)
      | Inr doc \<Rightarrow>
          (case to_job c doc of
             Inl e \<Rightarrow> (v, Inl e)
           | Inr j \<Rightarrow>
               if jd_State j \<noteq> JobStateRunning \<or> \<not> MatchesClaim p (jd_WorkerID j) (jd_AttemptNum j)
               then (v, Inl (stale_claim (sp_ID p)))
               else if sp_Yield p then (v, Inr [WUpdate (JobRef (sp_ID p)) (on_job yield_doc)])
               else (v, Inr ((if sp_State p = JobStateRetryable then [] else release_key j) @
                      [WUpdate (JobRef (sp_ID p)) (on_job (outcome_doc (clk n) p))]))))"

definition fs_jobSetStateIfRunning :: "'s firestore \<Rightarrow> (nat \<Rightarrow> gotime) \<Rightarrow> JobSetStateParams \<Rightarrow> 's \<Rightarrow> 's \<times> goerr option" where
  "fs_jobSetStateIfRunning c clk p s = (let (s', v, err) = fs_run c (set_state_body c clk p) no_vars s in (s', err))"

section \<open>Administration of jobs and queues\<close>

definition cancel_body :: "'s firestore \<Rightarrow> (nat \<Rightarrow> gotime) \<Rightarrow> string \<Rightarrow> tx_body" where
  "cancel_body c clk jid n read v =
     (case read (JobRef jid) of
        Inl e \<Rightarrow> (v, Inl (if is_not_found c e then not_found_job jid else e))
      | Inr doc \<Rightarrow>
          (case to_job c doc of
             Inl e \<Rightarrow> (v, Inl e)
           | Inr j \<Rightarrow>
               if jd_State j \<noteq> JobStateAvailable \<and> jd_State j \<noteq> JobStateScheduled
               then (v, Inl (wrap_sentinel ErrConflict (''job '' @ go_quote jid @ '' is in state '' @ job_state_text (jd_State j) @
                      '', can only cancel available/scheduled'')))
               else (v, Inr (WUpdate (JobRef jid) (on_job (\<lambda>j. j\<lparr>jd_State := JobStateCancelled, jd_FinalizedAt := clk n,
                      jd_Version := jd_Version j + 1\<rparr>)) # release_key j))))"

definition fs_jobCancel :: "'s firestore \<Rightarrow> (nat \<Rightarrow> gotime) \<Rightarrow> string \<Rightarrow> 's \<Rightarrow> 's \<times> goerr option" where
  "fs_jobCancel c clk jid s = (let (s', v, err) = fs_run c (cancel_body c clk jid) no_vars s in (s', err))"

text \<open>Three calls; the last one, on the key, is not checked. \<open>others\<close> come before the second and third.\<close>

definition fs_jobDelete :: "'s firestore \<Rightarrow> (nat \<Rightarrow> 's \<Rightarrow> 's) \<Rightarrow> string \<Rightarrow> 's \<Rightarrow> 's \<times> goerr option" where
  "fs_jobDelete c others jid s =
     (case fs_get c (JobRef jid) s of
        Inl e \<Rightarrow> (s, Some (if is_not_found c e then not_found_job jid else e))
      | Inr doc \<Rightarrow>
          (case to_job c doc of
             Inl e \<Rightarrow> (s, Some e)
           | Inr j \<Rightarrow>
               (case fs_delete c (JobRef jid) (others 0 s) of
                  (s1, Some e) \<Rightarrow> (s1, Some e)
                | (s1, None) \<Rightarrow>
                    if jd_UniqueKey j \<noteq> [] then (fst (fs_delete c (UniqRef (jd_UniqueKey j)) (others 1 s1)), None)
                    else (s1, None))))"

definition fs_jobReschedule :: "'s firestore \<Rightarrow> RescheduleParams \<Rightarrow> 's \<Rightarrow> 's \<times> goerr option" where
  "fs_jobReschedule c p s =
     (case fs_update c (JobRef (rs_ID p)) (on_job (\<lambda>j. j\<lparr>jd_State := JobStateScheduled, jd_RunAt := rs_RunAt p,
             jd_Version := jd_Version j + 1\<rparr>)) s of
        (s', None) \<Rightarrow> (s', None)
      | (s', Some e) \<Rightarrow> (s', Some (if is_not_found c e then not_found_job (rs_ID p) else e)))"

definition queue_row :: "queueDoc \<Rightarrow> QueueRow" where
  "queue_row q = \<lparr>qr_Name = qd_Name q, qr_Paused = qd_Paused q, qr_CreatedAt = qd_CreatedAt q, qr_UpdatedAt = qd_UpdatedAt q\<rparr>"

definition fs_queueGet :: "'s firestore \<Rightarrow> gotime \<Rightarrow> string \<Rightarrow> 's \<Rightarrow> 's \<times> QueueRow res" where
  "fs_queueGet c now name s =
     (case fs_get c (QueueRef name) s of
        Inl e \<Rightarrow>
          if is_not_found c e then
            (let doc = \<lparr>qd_Name = name, qd_Paused = False, qd_CreatedAt = now, qd_UpdatedAt = now\<rparr>
             in case fs_create c (QueueRef name) (QueueDoc doc) s of
                  (s', Some ce) \<Rightarrow> if fs_code c ce \<noteq> AlreadyExists then (s', Inl ce) else (s', Inr (queue_row doc))
                | (s', None) \<Rightarrow> (s', Inr (queue_row doc)))
          else (s, Inl e)
      | Inr doc \<Rightarrow> (case to_queue c doc of Inl e \<Rightarrow> (s, Inl e) | Inr q \<Rightarrow> (s, Inr (queue_row q))))"

definition queueSetPaused :: "'s firestore \<Rightarrow> gotime \<Rightarrow> string \<Rightarrow> bool \<Rightarrow> 's \<Rightarrow> 's \<times> goerr option" where
  "queueSetPaused c now name paused s =
     fs_set c (QueueRef name) (QueueDoc \<lparr>qd_Name = name, qd_Paused = paused, qd_CreatedAt = now, qd_UpdatedAt = now\<rparr>) s"

fun decoded_queues :: "'s firestore \<Rightarrow> fdoc list \<Rightarrow> queueDoc list" where
  "decoded_queues c [] = []"
| "decoded_queues c (doc # docs) = (case to_queue c doc of Inl _ \<Rightarrow> decoded_queues c docs | Inr q \<Rightarrow> q # decoded_queues c docs)"

definition fs_queueList :: "'s firestore \<Rightarrow> QueueListParams \<Rightarrow> 's \<Rightarrow> QueueRow list res" where
  "fs_queueList c p s =
     (case (if ql_Cursor p \<noteq> [] then DecodeQueueCursor (ql_Cursor p) else Inr []) of
        Inl e \<Rightarrow> Inl e
      | Inr cursor \<Rightarrow>
          (case fs_queues c s of
             Inl e \<Rightarrow> Inl e
           | Inr docs \<Rightarrow>
               let rows = map queue_row (filter (\<lambda>q. \<not> qd_Name q \<le> cursor) (decoded_queues c docs))
               in Inr (take (page_limit (ql_Limit p)) (sort_slice (\<lambda>a b. qr_Name a < qr_Name b) rows))))"

section \<open>Leases and cursors\<close>

definition elect_body :: "'s firestore \<Rightarrow> (nat \<Rightarrow> gotime) \<Rightarrow> LeaderElectParams \<Rightarrow> tx_body" where
  "elect_body c clk p n read v =
     (let ref = LeaderRef (le_Name p); now = clk n; v0 = v\<lparr>tv_elected := False\<rparr>
      in case read ref of
           Inl e \<Rightarrow>
             if is_not_found c e
             then (v0\<lparr>tv_elected := True\<rparr>, Inr [WCreate ref (LeaderDoc
                     \<lparr>ld_Name = le_Name p, ld_WorkerID = le_WorkerID p, ld_ExpiresAt = now + le_TTL p\<rparr>)])
             else (v0, Inl e)
         | Inr doc \<Rightarrow>
             (case to_leader c doc of
                Inl e \<Rightarrow> (v0, Inl e)
              | Inr cur \<Rightarrow>
                  if now < ld_ExpiresAt cur \<and> ld_WorkerID cur \<noteq> le_WorkerID p then (v0, Inr [])
                  else (v0\<lparr>tv_elected := True\<rparr>, Inr [WUpdate ref (on_leader (\<lambda>l. l\<lparr>ld_WorkerID := le_WorkerID p,
                          ld_ExpiresAt := now + le_TTL p\<rparr>))])))"

definition leaderAttemptElect :: "'s firestore \<Rightarrow> (nat \<Rightarrow> gotime) \<Rightarrow> LeaderElectParams \<Rightarrow> 's \<Rightarrow> 's \<times> bool \<times> goerr option" where
  "leaderAttemptElect c clk p s = (let (s', v, err) = fs_run c (elect_body c clk p) no_vars s in (s', tv_elected v, err))"

definition resign_body :: "'s firestore \<Rightarrow> LeaderResignParams \<Rightarrow> tx_body" where
  "resign_body c p n read v =
     (case read (LeaderRef (lr_Name p)) of
        Inl e \<Rightarrow> if is_not_found c e then (v, Inr []) else (v, Inl e)
      | Inr doc \<Rightarrow>
          (case to_leader c doc of
             Inl e \<Rightarrow> (v, Inl e)
           | Inr cur \<Rightarrow> if ld_WorkerID cur \<noteq> lr_WorkerID p then (v, Inr []) else (v, Inr [WDelete (LeaderRef (lr_Name p))])))"

definition leaderResign :: "'s firestore \<Rightarrow> LeaderResignParams \<Rightarrow> 's \<Rightarrow> 's \<times> goerr option" where
  "leaderResign c p s = (let (s', v, err) = fs_run c (resign_body c p) no_vars s in (s', err))"

definition cursor_body :: "'s firestore \<Rightarrow> ScheduleCursorCreateParams \<Rightarrow> tx_body" where
  "cursor_body c p n read v =
     (case read (CursorRef (cc_ID p)) of
        Inl e \<Rightarrow>
          if is_not_found c e
          then (v\<lparr>tv_result := \<lparr>cr_At = cc_InitialAt p, cr_Created = True\<rparr>\<rparr>, Inr [WCreate (CursorRef (cc_ID p)) (CursorDoc (cc_InitialAt p))])
          else (v, Inl e)
      | Inr doc \<Rightarrow>
          (case to_cursor c doc of
             Inl e \<Rightarrow> (v, Inl e)
           | Inr at \<Rightarrow> (v\<lparr>tv_result := (tv_result v)\<lparr>cr_At := at\<rparr>\<rparr>, Inr [])))"

definition scheduleCursorGetOrCreate :: "'s firestore \<Rightarrow> ScheduleCursorCreateParams \<Rightarrow> 's \<Rightarrow> 's \<times> ScheduleCursorResult \<times> goerr option" where
  "scheduleCursorGetOrCreate c p s = (let (s', v, err) = fs_run c (cursor_body c p) no_vars s in (s', tv_result v, err))"

definition advance_body :: "'s firestore \<Rightarrow> ScheduleCursorAdvanceParams \<Rightarrow> tx_body" where
  "advance_body c p n read v =
     (case read (CursorRef (ca_ID p)) of
        Inl e \<Rightarrow> (v, Inl e)
      | Inr doc \<Rightarrow>
          (case to_cursor c doc of
             Inl e \<Rightarrow> (v, Inl e)
           | Inr at \<Rightarrow>
               if at \<noteq> ca_Expected p then (v, Inr [])
               else (v\<lparr>tv_advanced := True\<rparr>, Inr [WUpdate (CursorRef (ca_ID p)) (\<lambda>_. CursorDoc (ca_Next p))])))"

definition scheduleCursorAdvance :: "'s firestore \<Rightarrow> ScheduleCursorAdvanceParams \<Rightarrow> 's \<Rightarrow> 's \<times> bool \<times> goerr option" where
  "scheduleCursorAdvance c p s = (let (s', v, err) = fs_run c (advance_body c p) no_vars s in (s', tv_advanced v, err))"

text \<open>What the driver reports of itself.\<close>

definition fs_Capabilities :: Capabilities where
  "fs_Capabilities = \<lparr>NativeTx = True, ListenNotify = False, ChangeStreams = False,
     SkipLocked = False, UniqueJobs = True, AdvisoryLocks = False, LinearizableLeases = True,
     LinearizableCAS = True, LifecycleTimestamps = True, BoundedFetch = True,
     StrictFetchOrdering = False\<rparr>"

end
