(* ===== verification/Firestore_Service.thy ===== *)
theory Firestore_Service
  imports Firestore Worker_Process
begin

text \<open>
  What the client library of Firestore documents, as the locale \<open>firestore_service\<close>; a store in
  memory with transactions that may be repeated is its instance. Leases over Firestore are exclusive;
  cursors are not.
\<close>

section \<open>The service\<close>

text \<open>A read returns what is stored, or an error; the error of an absent document is a code of its own.\<close>

definition reads :: "'s firestore \<Rightarrow> (fref \<Rightarrow> fdoc option) \<Rightarrow> (fref \<Rightarrow> fdoc res) \<Rightarrow> bool" where
  "reads c docs read \<longleftrightarrow> (\<forall>ref. case read ref of Inr d \<Rightarrow> docs ref = Some d | Inl e \<Rightarrow> is_not_found c e \<longrightarrow> docs ref = None)"

text \<open>The writes of a transaction, all or nothing.\<close>

fun commit :: "(fref \<Rightarrow> fdoc option) \<Rightarrow> fwrite list \<Rightarrow> (fref \<Rightarrow> fdoc option) option" where
  "commit docs [] = Some docs"
| "commit docs (WCreate ref d # ws) = (if docs ref = None then commit (docs(ref \<mapsto> d)) ws else None)"
| "commit docs (WUpdate ref f # ws) = (case docs ref of None \<Rightarrow> None | Some d \<Rightarrow> commit (docs(ref \<mapsto> f d)) ws)"
| "commit docs (WDelete ref # ws) = commit (docs(ref := None)) ws"

text \<open>The captured variables after attempts that did not commit.\<close>

fun retried :: "tx_body \<Rightarrow> nat \<Rightarrow> (fref \<Rightarrow> fdoc res) list \<Rightarrow> tx_vars \<Rightarrow> tx_vars" where
  "retried b n [] v = v"
| "retried b n (r # rs) v = retried b (Suc n) rs (fst (b n r v))"

text \<open>
  A transaction: attempts that are given up, each with reads of its own, then one on the current
  documents. An error of the callback is returned and nothing is written; a transaction that fails
  writes nothing.
\<close>

definition transacts :: "'s firestore \<Rightarrow> tx_body \<Rightarrow> tx_vars \<Rightarrow> (fref \<Rightarrow> fdoc option) \<Rightarrow> (fref \<Rightarrow> fdoc option) \<Rightarrow> tx_vars \<Rightarrow> goerr option \<Rightarrow> bool" where
  "transacts c b v docs docs' v' err \<longleftrightarrow>
     (\<exists>rs read ws. reads c docs read \<and> b (length rs) read (retried b 0 rs v) = (v', Inr ws) \<and>
        commit docs ws = Some docs' \<and> err = None) \<or>
     (\<exists>rs read e. reads c docs read \<and> b (length rs) read (retried b 0 rs v) = (v', Inl e) \<and> docs' = docs \<and> err = Some e) \<or>
     docs' = docs \<and> err \<noteq> None"

definition writes_or_fails :: "(fref \<Rightarrow> fdoc option) \<Rightarrow> (fref \<Rightarrow> fdoc option) \<Rightarrow> fwrite \<Rightarrow> goerr option \<Rightarrow> bool" where
  "writes_or_fails docs docs' w err \<longleftrightarrow> (case err of None \<Rightarrow> commit docs [w] = Some docs' | Some _ \<Rightarrow> docs' = docs)"

locale firestore_service =
  fixes c :: "'s firestore" and doc :: "'s \<Rightarrow> fref \<Rightarrow> fdoc option"
  assumes get: "reads c (doc s) (\<lambda>ref. fs_get c ref s)"
    and create: "fs_create c ref d s = (s', err) \<Longrightarrow> writes_or_fails (doc s) (doc s') (WCreate ref d) err"
    and update: "fs_update c ref f s = (s', err) \<Longrightarrow> writes_or_fails (doc s) (doc s') (WUpdate ref f) err"
    and delete: "fs_delete c ref s = (s', err) \<Longrightarrow> writes_or_fails (doc s) (doc s') (WDelete ref) err"
    and set_doc: "fs_set c ref d s = (s', err) \<Longrightarrow> doc s' = doc s \<or> err = None \<and> doc s' = (doc s)(ref \<mapsto> d)"
    and query: "fs_jobs c q s = Inr snaps \<Longrightarrow> (ref, d) \<in> set snaps \<Longrightarrow>
      \<exists>k j. ref = JobRef k \<and> d = JobDoc j \<and> doc s ref = Some d \<and> jq_where q j"
    and run: "fs_run c b v s = (s', v', err) \<Longrightarrow> transacts c b v (doc s) (doc s') v' err"
begin

text \<open>A transaction that reports success has read the documents it changes in the attempt that commits.\<close>

lemma run_commits:
  assumes "fs_run c b v s = (s', v', None)"
  obtains n read v1 ws where "reads c (doc s) read" "b n read v1 = (v', Inr ws)" "commit (doc s) ws = Some (doc s')"
  using run [OF assms] that by (auto simp: transacts_def)

lemma run_fails:
  assumes "fs_run c b v s = (s', v', Some e)"
  shows "doc s' = doc s"
  using run [OF assms] by (auto simp: transacts_def)

end

lemma readsD:
  assumes "reads c docs read"
  shows "read ref = Inr d \<Longrightarrow> docs ref = Some d" "read ref = Inl e \<Longrightarrow> is_not_found c e \<Longrightarrow> docs ref = None"
  using assms by (auto simp: reads_def split: sum.splits dest: spec [of _ ref])

lemma to_Inr:
  "to_job c d = Inr j \<longleftrightarrow> d = JobDoc j" "to_leader c d = Inr l \<longleftrightarrow> d = LeaderDoc l" "to_cursor c d = Inr t \<longleftrightarrow> d = CursorDoc t"
  by (auto simp: to_job_def to_leader_def to_cursor_def split: fdoc.splits)

section \<open>Leases\<close>

text \<open>\<open>t\<close> is the clock reading of the attempt that decides.\<close>

definition fs_elect :: "'s firestore \<Rightarrow> string \<Rightarrow> gotime \<Rightarrow> string \<Rightarrow> duration \<Rightarrow> 's \<Rightarrow> 's \<times> bool" where
  "fs_elect c name t w ttl s =
     (case leaderAttemptElect c (\<lambda>_. t) \<lparr>le_Name = name, le_WorkerID = w, le_TTL = ttl\<rparr> s of (s', elected, err) \<Rightarrow> (s', elected \<and> err = None))"

definition fs_resign :: "'s firestore \<Rightarrow> string \<Rightarrow> string \<Rightarrow> 's \<Rightarrow> 's" where
  "fs_resign c name w s = fst (leaderResign c \<lparr>lr_Name = name, lr_WorkerID = w\<rparr> s)"

definition fs_lease :: "(fref \<Rightarrow> fdoc option) \<Rightarrow> string \<Rightarrow> (string \<times> gotime) option" where
  "fs_lease docs name = (case docs (LeaderRef name) of Some (LeaderDoc l) \<Rightarrow> Some (ld_WorkerID l, ld_ExpiresAt l) | _ \<Rightarrow> None)"

lemma elect_body_writes:
  assumes "reads c docs read" "elect_body c clk p n read v = (v', Inr ws)" "commit docs ws = Some docs'"
  shows "tv_elected v' \<Longrightarrow> fs_lease docs' (le_Name p) = Some (le_WorkerID p, clk n + le_TTL p) \<and>
      (\<forall>w e. fs_lease docs (le_Name p) = Some (w, e) \<longrightarrow> e \<le> clk n \<or> w = le_WorkerID p)"
    and "\<not> tv_elected v' \<Longrightarrow> docs' = docs"
  using assms readsD [OF assms(1), of "LeaderRef (le_Name p)"]
  by (auto simp: elect_body_def Let_def fs_lease_def on_leader_def to_Inr split: sum.splits if_splits)

lemma resign_body_writes:
  assumes "reads c docs read" "resign_body c p n read v = (v', Inr ws)" "commit docs ws = Some docs'"
  shows "docs' = docs \<or> fs_lease docs' (lr_Name p) = None \<and> (\<exists>e. fs_lease docs (lr_Name p) = Some (lr_WorkerID p, e))"
  using assms readsD [OF assms(1), of "LeaderRef (lr_Name p)"]
  by (auto simp: resign_body_def fs_lease_def to_Inr split: sum.splits if_splits)

context firestore_service
begin

lemma elect_won:
  assumes "fs_elect c name t w ttl s = (s', True)"
  shows "fs_lease (doc s') name = Some (w, t + ttl) \<and> (\<forall>w' e. fs_lease (doc s) name = Some (w', e) \<longrightarrow> e \<le> t \<or> w' = w)"
proof -
  from assms obtain v' where "fs_run c (elect_body c (\<lambda>_. t) \<lparr>le_Name = name, le_WorkerID = w, le_TTL = ttl\<rparr>) no_vars s = (s', v', None)"
    and el: "tv_elected v'" by (auto simp: fs_elect_def leaderAttemptElect_def split: prod.splits)
  then show ?thesis by (auto elim!: run_commits dest: elect_body_writes(1))
qed

lemma elect_lost:
  assumes "fs_elect c name t w ttl s = (s', False)"
  shows "fs_lease (doc s') name = fs_lease (doc s) name"
proof -
  let ?b = "elect_body c (\<lambda>_. t) \<lparr>le_Name = name, le_WorkerID = w, le_TTL = ttl\<rparr>"
  from assms obtain v' err where r: "fs_run c ?b no_vars s = (s', v', err)" and lost: "err = None \<longrightarrow> \<not> tv_elected v'"
    by (auto simp: fs_elect_def leaderAttemptElect_def split: prod.splits)
  show ?thesis
  proof (cases err)
    case None
    with r lost show ?thesis by (auto elim!: run_commits dest: elect_body_writes(2))
  next
    case (Some e)
    with r run_fails show ?thesis by simp
  qed
qed

lemma resigns:
  "fs_lease (doc (fs_resign c name w s)) name = fs_lease (doc s) name \<or>
   fs_lease (doc (fs_resign c name w s)) name = None \<and> (\<exists>e. fs_lease (doc s) name = Some (w, e))"
proof -
  let ?b = "resign_body c \<lparr>lr_Name = name, lr_WorkerID = w\<rparr>"
  obtain s' v' err where r: "fs_run c ?b no_vars s = (s', v', err)" using prod_cases3 by blast
  have s': "fs_resign c name w s = s'" by (simp add: fs_resign_def leaderResign_def r)
  show ?thesis
  proof (cases err)
    case None
    with r show ?thesis unfolding s' by (auto elim!: run_commits dest!: resign_body_writes)
  next
    case (Some e)
    with r run_fails s' show ?thesis by simp
  qed
qed

end

sublocale firestore_service \<subseteq> fl: lease_service "fs_elect c name" "fs_resign c name" "\<lambda>s. fs_lease (doc s) name" for name
  using elect_won elect_lost resigns by unfold_locales blast+

context firestore_service
begin

lemma leases_exclusive:
  assumes "sorted (concat (map event_time evs) @ [now])"
    and "\<And>f s. Elsewhere f \<in> set evs \<Longrightarrow> fs_lease (doc (f s)) name = fs_lease (doc s) name"
    and "snd (lease_run (fs_elect c name) (fs_resign c name) evs s) w = Some e" "now < e"
    and "snd (lease_run (fs_elect c name) (fs_resign c name) evs s) w' = Some e'" "now < e'"
  shows "w = w'"
  using fl.run_exclusive [where name = name and evs = evs and s = s and now = now and w = w and w' = w' and e = e and e' = e'] assms by blast

end

section \<open>An instance of the laws\<close>

text \<open>
  A store in memory. \<open>lo_stale\<close> are the documents that attempts of the next transaction see before
  they are given up.
\<close>

record local_store =
  lo_docs :: "(fref, fdoc) gmap"
  lo_stale :: "(fref, fdoc) gmap list"

definition absent :: goerr where "absent = Errorf ''document not found''"
definition present :: goerr where "present = Errorf ''document already exists''"

definition local_read :: "(fref, fdoc) gmap \<Rightarrow> fref \<Rightarrow> fdoc res" where
  "local_read g ref = (case gget g ref of None \<Rightarrow> Inl absent | Some d \<Rightarrow> Inr d)"

fun local_commit :: "(fref, fdoc) gmap \<Rightarrow> fwrite list \<Rightarrow> (fref, fdoc) gmap option" where
  "local_commit g [] = Some g"
| "local_commit g (WCreate ref d # ws) = (case gget g ref of None \<Rightarrow> local_commit (gput ref d g) ws | Some _ \<Rightarrow> None)"
| "local_commit g (WUpdate ref f # ws) = (case gget g ref of None \<Rightarrow> None | Some d \<Rightarrow> local_commit (gput ref (f d) g) ws)"
| "local_commit g (WDelete ref # ws) = local_commit (gdel ref g) ws"

definition local_write :: "fwrite \<Rightarrow> goerr \<Rightarrow> local_store \<Rightarrow> local_store \<times> goerr option" where
  "local_write w e s = (case local_commit (lo_docs s) [w] of None \<Rightarrow> (s, Some e) | Some g \<Rightarrow> (s\<lparr>lo_docs := g\<rparr>, None))"

definition local_run :: "tx_body \<Rightarrow> tx_vars \<Rightarrow> local_store \<Rightarrow> local_store \<times> tx_vars \<times> goerr option" where
  "local_run b v s =
     (let rs = map local_read (lo_stale s); s1 = s\<lparr>lo_stale := []\<rparr>
      in case b (length rs) (local_read (lo_docs s)) (retried b 0 rs v) of
           (v', Inl e) \<Rightarrow> (s1, v', Some e)
         | (v', Inr ws) \<Rightarrow> (case local_commit (lo_docs s) ws of None \<Rightarrow> (s1, v', Some present) | Some g \<Rightarrow> (s1\<lparr>lo_docs := g\<rparr>, v', None)))"

fun job_snaps :: "(fref, fdoc) gmap \<Rightarrow> (jobDoc \<Rightarrow> bool) \<Rightarrow> (fref \<times> fdoc) list \<Rightarrow> (fref \<times> fdoc) list" where
  "job_snaps g P [] = []"
| "job_snaps g P ((ref, d) # ds) =
     (case (ref, d) of (JobRef _, JobDoc j) \<Rightarrow> if P j \<and> gget g ref = Some d then (ref, d) # job_snaps g P ds else job_snaps g P ds
      | _ \<Rightarrow> job_snaps g P ds)"

definition snap_run_at :: "fref \<times> fdoc \<Rightarrow> gotime" where
  "snap_run_at r = (case snd r of JobDoc j \<Rightarrow> jd_RunAt j | _ \<Rightarrow> 0)"

definition local_jobs :: "fs_query \<Rightarrow> local_store \<Rightarrow> (fref \<times> fdoc) list res" where
  "local_jobs q s =
     (let all = job_snaps (lo_docs s) (jq_where q) (lo_docs s);
          ordered = (if jq_by_run_at q then sort_key snap_run_at all else all)
      in Inr (case jq_limit q of None \<Rightarrow> ordered | Some n \<Rightarrow> take (nat n) ordered))"

definition local_firestore :: "local_store firestore" where
  "local_firestore = \<lparr>
     fs_code = (\<lambda>e. if e = absent then NotFound else if e = present then AlreadyExists else OtherCode),
     fs_bad_document = Errorf ''bad document'',
     fs_get = (\<lambda>ref s. local_read (lo_docs s) ref),
     fs_create = (\<lambda>ref d. local_write (WCreate ref d) present),
     fs_set = (\<lambda>ref d s. (s\<lparr>lo_docs := gput ref d (lo_docs s)\<rparr>, None)),
     fs_update = (\<lambda>ref f. local_write (WUpdate ref f) absent),
     fs_delete = (\<lambda>ref. local_write (WDelete ref) absent),
     fs_jobs = local_jobs,
     fs_queues = (\<lambda>s. Inr (map snd (filter (\<lambda>(r, d). case r of QueueRef _ \<Rightarrow> True | _ \<Rightarrow> False) (lo_docs s)))),
     fs_count = (\<lambda>P s. Inr (Some (int (length (job_snaps (lo_docs s) P (lo_docs s)))))),
     fs_run = local_run\<rparr>"

definition local_doc :: "local_store \<Rightarrow> fref \<Rightarrow> fdoc option" where
  "local_doc s = gget (lo_docs s)"

lemma commit_local: "map_option gget (local_commit g ws) = commit (gget g) ws"
  by (induction g ws rule: local_commit.induct) (auto simp: fun_upd_def gmap_simps split: option.splits)

lemma reads_local: "reads local_firestore (gget g) (local_read g)"
  by (simp add: reads_def local_read_def is_not_found_def local_firestore_def split: option.splits)

lemma job_snaps_mem: "(ref, d) \<in> set (job_snaps g P ds) \<Longrightarrow> \<exists>k j. ref = JobRef k \<and> d = JobDoc j \<and> gget g ref = Some d \<and> P j"
  by (induction g P ds rule: job_snaps.induct) (auto split: fref.splits fdoc.splits if_splits)

lemma local_write_ok: "local_write w e s = (s', err) \<Longrightarrow> writes_or_fails (local_doc s) (local_doc s') w err"
  using commit_local [of "lo_docs s" "[w]"]
  by (auto simp: local_write_def writes_or_fails_def local_doc_def split: option.splits)

lemma local_run_ok:
  assumes "local_run b v s = (s', v', err)"
  shows "transacts local_firestore b v (local_doc s) (local_doc s') v' err"
proof -
  let ?rs = "map local_read (lo_stale s)"
  let ?out = "b (length ?rs) (local_read (lo_docs s)) (retried b 0 ?rs v)"
  note r = reads_local [of "lo_docs s"]
  show ?thesis
  proof (cases "snd ?out")
    case (Inl e)
    then have "s' = s\<lparr>lo_stale := []\<rparr>" "err = Some e" "?out = (v', Inl e)"
      using assms by (auto simp: local_run_def Let_def split: prod.splits sum.splits)
    with r show ?thesis unfolding transacts_def local_doc_def by auto
  next
    case (Inr ws)
    show ?thesis
    proof (cases "local_commit (lo_docs s) ws")
      case None
      with Inr assms have "lo_docs s' = lo_docs s" "err \<noteq> None" by (auto simp: local_run_def Let_def split: prod.splits sum.splits)
      then show ?thesis by (simp add: transacts_def local_doc_def)
    next
      case (Some g)
      with Inr assms have "lo_docs s' = g" "err = None" "?out = (v', Inr ws)"
        by (auto simp: local_run_def Let_def split: prod.splits sum.splits)
      moreover have "commit (gget (lo_docs s)) ws = Some (gget g)" using commit_local [of "lo_docs s" ws] Some by simp
      ultimately show ?thesis using r unfolding transacts_def local_doc_def by blast
    qed
  qed
qed

interpretation local_fs: firestore_service local_firestore local_doc
proof unfold_locales
  fix s s' :: local_store and ref d f err
  show "reads local_firestore (local_doc s) (\<lambda>ref. fs_get local_firestore ref s)"
    using reads_local [of "lo_docs s"] by (simp add: local_firestore_def local_doc_def)
  show "fs_create local_firestore ref d s = (s', err) \<Longrightarrow> writes_or_fails (local_doc s) (local_doc s') (WCreate ref d) err"
    "fs_update local_firestore ref f s = (s', err) \<Longrightarrow> writes_or_fails (local_doc s) (local_doc s') (WUpdate ref f) err"
    "fs_delete local_firestore ref s = (s', err) \<Longrightarrow> writes_or_fails (local_doc s) (local_doc s') (WDelete ref) err"
    by (simp_all add: local_firestore_def local_write_ok)
  show "fs_set local_firestore ref d s = (s', err) \<Longrightarrow> local_doc s' = local_doc s \<or> err = None \<and> local_doc s' = (local_doc s)(ref \<mapsto> d)"
    by (auto simp: local_firestore_def local_doc_def update_conv)
next
  fix q :: fs_query and s ref d and snaps :: "(fref \<times> fdoc) list"
  assume "fs_jobs local_firestore q s = Inr snaps" "(ref, d) \<in> set snaps"
  then have "(ref, d) \<in> set (job_snaps (lo_docs s) (jq_where q) (lo_docs s))"
    by (auto simp: local_firestore_def local_jobs_def Let_def split: option.splits if_splits dest: in_set_takeD)
  then show "\<exists>k j. ref = JobRef k \<and> d = JobDoc j \<and> local_doc s ref = Some d \<and> jq_where q j"
    by (auto simp: local_doc_def dest: job_snaps_mem)
next
  fix b v v' err and s s' :: local_store
  assume "fs_run local_firestore b v s = (s', v', err)"
  then have "local_run b v s = (s', v', err)" by (simp add: local_firestore_def)
  then show "transacts local_firestore b v (local_doc s) (local_doc s') v' err" by (rule local_run_ok)
qed

section \<open>Properties of leases and cursors\<close>

text \<open>
  Claim C18: leader election over Firestore is exclusive. Over any history of elections, renewals and
  resignations of one lease, interleaved with operations that leave it alone, with transactions
  that are repeated or fail at any point, and clock readings that do not go back, two different
  workers are never both inside the term of their last successful election.
\<close>

theorem firestore_lease_mutual_exclusion:
  assumes "firestore_service c doc" "sorted (concat (map event_time evs) @ [now])"
    and "\<forall>f s. Elsewhere f \<in> set evs \<longrightarrow> fs_lease (doc (f s)) name = fs_lease (doc s) name"
    and "snd (lease_run (fs_elect c name) (fs_resign c name) evs s) w = Some e" "now < e"
    and "snd (lease_run (fs_elect c name) (fs_resign c name) evs s) w' = Some e'" "now < e'"
  shows "w = w'"
  using firestore_service.leases_exclusive [OF assms(1,2) _ assms(4-7)] assms(3) by blast

definition empty_store :: local_store where
  "empty_store = \<lparr>lo_docs = [], lo_stale = []\<rparr>"

theorem firestore_lease_mutual_exclusion_witness:
  "let evs = [TryElect 10 ''a'' 5, Elsewhere (\<lambda>s. s\<lparr>lo_stale := [[]]\<rparr>), TryElect 12 ''b'' 5, TryElect 16 ''b'' 5];
       b = snd (lease_run (fs_elect local_firestore ''n'') (fs_resign local_firestore ''n'') evs empty_store)
   in b ''a'' = Some 15 \<and> b ''b'' = Some 21 \<and> (\<forall>w e. b w = Some e \<longrightarrow> 17 < e \<longrightarrow> w = ''b'')"
proof -
  let ?evs = "[TryElect 10 ''a'' 5, Elsewhere (\<lambda>s. s\<lparr>lo_stale := [[]]\<rparr>), TryElect 12 ''b'' 5, TryElect 16 ''b'' 5]"
  let ?b = "snd (lease_run (fs_elect local_firestore ''n'') (fs_resign local_firestore ''n'') ?evs empty_store)"
  have o: "\<forall>f s. Elsewhere f \<in> set ?evs \<longrightarrow> fs_lease (local_doc (f s)) ''n'' = fs_lease (local_doc s) ''n''"
    by (simp add: local_doc_def)
  have a: "?b ''a'' = Some 15" by code_simp
  have b: "?b ''b'' = Some 21" by code_simp
  have "w = ''b''" if "?b w = Some e" "17 < e" for w e
    using firestore_lease_mutual_exclusion [OF local_fs.firestore_service_axioms, of ?evs 17 "''n''" empty_store w e "''b''" 21] o that b
    by simp
  with a b show ?thesis by (simp only: Let_def) blast
qed


end
