(* ===== verification/Worker_Leases.thy ===== *)
theory Worker_Leases
  imports Worker_Dispatch Store_Interfaces
begin

text \<open>
  What a running job keeps alive while it works (\<^verbatim>\<open>worker.go\<close>): the lease of its pipeline, which makes
  jobs with one pipeline ID take turns across pools, and the lease of its claim, which its heartbeats
  renew. The goroutines of both are loops over the events that wake them; before each call to the
  store, other participants may have changed it.
\<close>

section \<open>The lease of a pipeline\<close>

type_synonym 's elect_call = "gotime \<Rightarrow> LeaderElectParams \<Rightarrow> 's \<Rightarrow> 's \<times> bool res"
type_synonym 's resign_call = "LeaderResignParams \<Rightarrow> 's \<Rightarrow> 's \<times> goerr option"

definition pipeline_name :: "JobRow \<Rightarrow> string" where
  "pipeline_name row = ''goncordia:pipeline:'' @ PipelineID row"

definition pipeline_owner :: "WorkerConfig \<Rightarrow> JobRow \<Rightarrow> string" where
  "pipeline_owner cfg row = wc_WorkerID cfg @ '':'' @ ID row @ '':'' @ Itoa (AttemptNum row)"

definition pipeline_params :: "WorkerConfig \<Rightarrow> JobRow \<Rightarrow> LeaderElectParams" where
  "pipeline_params cfg row =
     \<lparr>le_Name = pipeline_name row, le_WorkerID = pipeline_owner cfg row, le_TTL = wc_PipelineLeaseDuration cfg\<rparr>"

text \<open>One election of the waiting loop, with the error that it reports.\<close>

definition pipeline_try :: "'s elect_call \<Rightarrow> WorkerConfig \<Rightarrow> JobRow \<Rightarrow> gotime \<Rightarrow> 's \<Rightarrow> 's \<times> goerr list \<times> bool" where
  "pipeline_try elect cfg row now s =
     (case elect now (pipeline_params cfg row) s of
        (s', Inl e) \<Rightarrow> (s', [wrap_prefix (''acquire distributed pipeline '' @ go_quote (PipelineID row)) e], False)
      | (s', Inr elected) \<Rightarrow> (s', [], elected))"

datatype pipeline_wake = PipelineCtxDone | PipelineShutdown | PipelineTick

datatype pipeline_result = PipelineFree | PipelineAcquired gotime | PipelineGaveUp | PipelineWaits

fun acquire_rounds :: "'s elect_call \<Rightarrow> WorkerConfig \<Rightarrow> JobRow \<Rightarrow> (gotime \<times> ('s \<Rightarrow> 's) \<times> pipeline_wake) list \<Rightarrow> 's \<Rightarrow>
    's \<times> goerr list \<times> pipeline_result" where
  "acquire_rounds elect cfg row [] s = (s, [], PipelineWaits)"
| "acquire_rounds elect cfg row ((now, others, wake) # rounds) s =
     (case pipeline_try elect cfg row now (others s) of
        (s1, errs, True) \<Rightarrow> (s1, errs, PipelineAcquired now)
      | (s1, errs, False) \<Rightarrow>
          (case wake of
             PipelineTick \<Rightarrow> (let (s2, errs', r) = acquire_rounds elect cfg row rounds s1 in (s2, errs @ errs', r))
           | _ \<Rightarrow> (s1, errs, PipelineGaveUp)))"

definition acquireDistributedPipeline :: "'s elect_call \<Rightarrow> WorkerConfig \<Rightarrow> JobRow \<Rightarrow> (gotime \<times> ('s \<Rightarrow> 's) \<times> pipeline_wake) list \<Rightarrow> 's \<Rightarrow>
    's \<times> goerr list \<times> pipeline_result" where
  "acquireDistributedPipeline elect cfg row rounds s =
     (if \<not> wc_DistributedPipelines cfg \<or> PipelineID row = [] then (s, [], PipelineFree)
      else acquire_rounds elect cfg row rounds s)"

definition renew_every :: "WorkerConfig \<Rightarrow> duration" where
  "renew_every cfg = (let d = wc_PipelineLeaseDuration cfg div 3 in if d \<le> 0 then Second else d)"

text \<open>One tick of the renewal: the context of the job is cancelled unless the lease is renewed.\<close>

definition pipeline_renew :: "'s elect_call \<Rightarrow> WorkerConfig \<Rightarrow> JobRow \<Rightarrow> gotime \<Rightarrow> 's \<Rightarrow> 's \<times> goerr list \<times> bool" where
  "pipeline_renew elect cfg row now s =
     (case elect now (pipeline_params cfg row) s of
        (s', Inl e) \<Rightarrow> (s', [wrap_prefix (''renew distributed pipeline '' @ go_quote (PipelineID row)) e], False)
      | (s', Inr renewed) \<Rightarrow> (s', [], renewed))"

text \<open>The renewals up to the end of the context, and whether the lease is still held then.\<close>

fun renew_rounds :: "'s elect_call \<Rightarrow> WorkerConfig \<Rightarrow> JobRow \<Rightarrow> (gotime \<times> ('s \<Rightarrow> 's)) list \<Rightarrow> 's \<Rightarrow> 's \<times> goerr list \<times> bool" where
  "renew_rounds elect cfg row [] s = (s, [], True)"
| "renew_rounds elect cfg row ((now, others) # rounds) s =
     (case pipeline_renew elect cfg row now (others s) of
        (s1, errs, False) \<Rightarrow> (s1, errs, False)
      | (s1, errs, True) \<Rightarrow> (let (s2, errs', held) = renew_rounds elect cfg row rounds s1 in (s2, errs @ errs', held)))"

definition pipeline_release :: "'s resign_call \<Rightarrow> WorkerConfig \<Rightarrow> JobRow \<Rightarrow> 's \<Rightarrow> 's \<times> goerr list" where
  "pipeline_release resign cfg row s =
     (case resign \<lparr>lr_Name = pipeline_name row, lr_WorkerID = pipeline_owner cfg row\<rparr> s of
        (s', None) \<Rightarrow> (s', [])
      | (s', Some e) \<Rightarrow> (s', [wrap_prefix (''release distributed pipeline '' @ go_quote (PipelineID row)) e]))"

section \<open>Heartbeats\<close>

text \<open>\<^verbatim>\<open>startHeartbeat\<close>: the ticks up to the end of the context, and whether they have cancelled it.\<close>

fun heartbeat_rounds :: "(JobHeartbeatParams \<Rightarrow> 's \<Rightarrow> 's \<times> bool res) \<Rightarrow> duration \<Rightarrow> JobRow \<Rightarrow> (gotime \<times> ('s \<Rightarrow> 's)) list \<Rightarrow> 's \<Rightarrow>
    's \<times> goerr list \<times> bool" where
  "heartbeat_rounds beat stuckTimeout row [] s = (s, [], False)"
| "heartbeat_rounds beat stuckTimeout row ((now, others) # rounds) s =
     (case heartbeat_tick beat now stuckTimeout row (others s) of
        (s1, errs, True) \<Rightarrow> (s1, errs, True)
      | (s1, errs, False) \<Rightarrow> (let (s2, errs', lost) = heartbeat_rounds beat stuckTimeout row rounds s1 in (s2, errs @ errs', lost)))"

definition startHeartbeat :: "(JobHeartbeatParams \<Rightarrow> 's \<Rightarrow> 's \<times> bool res) option \<Rightarrow> WorkerConfig \<Rightarrow> JobRow \<Rightarrow> (gotime \<times> ('s \<Rightarrow> 's)) list \<Rightarrow> 's \<Rightarrow>
    's \<times> goerr list \<times> bool" where
  "startHeartbeat heartbeater cfg row rounds s =
     (case heartbeater of
        None \<Rightarrow> (s, [], False)
      | Some beat \<Rightarrow>
          if wc_HeartbeatInterval cfg \<le> 0 then (s, [], False)
          else heartbeat_rounds beat (wc_StuckJobTimeout cfg) row rounds s)"

section \<open>Attempts that take turns\<close>

text \<open>
  The calls that the attempts of one pipeline make, in any pools. The ghost state maps an attempt,
  given by worker, job and attempt number, to the end of the lease that it holds; a lost renewal or
  the release ends its hold.
\<close>

datatype 's pipe_call = PipeTry gotime WorkerConfig JobRow | PipeRenew gotime WorkerConfig JobRow
  | PipeRelease WorkerConfig JobRow | PipeElse "'s \<Rightarrow> 's"

type_synonym attempt_key = "string \<times> string \<times> int"

definition attempt_of :: "WorkerConfig \<Rightarrow> JobRow \<Rightarrow> attempt_key" where
  "attempt_of cfg row = (wc_WorkerID cfg, ID row, AttemptNum row)"

fun pipe_step :: "'s elect_call \<Rightarrow> 's resign_call \<Rightarrow> 's pipe_call \<Rightarrow> 's \<times> (attempt_key \<Rightarrow> gotime option) \<Rightarrow>
    's \<times> (attempt_key \<Rightarrow> gotime option)" where
  "pipe_step elect resign (PipeTry now cfg row) (s, h) =
     (let (s', errs, won) = pipeline_try elect cfg row now s
      in (s', if won then h(attempt_of cfg row := Some (now + wc_PipelineLeaseDuration cfg)) else h))"
| "pipe_step elect resign (PipeRenew now cfg row) (s, h) =
     (if h (attempt_of cfg row) = None then (s, h)
      else let (s', errs, held) = pipeline_renew elect cfg row now s
           in (s', h(attempt_of cfg row := (if held then Some (now + wc_PipelineLeaseDuration cfg) else None))))"
| "pipe_step elect resign (PipeRelease cfg row) (s, h) =
     (fst (pipeline_release resign cfg row s), h(attempt_of cfg row := None))"
| "pipe_step elect resign (PipeElse f) (s, h) = (f s, h)"

definition pipe_run :: "'s elect_call \<Rightarrow> 's resign_call \<Rightarrow> 's pipe_call list \<Rightarrow> 's \<Rightarrow> 's \<times> (attempt_key \<Rightarrow> gotime option)" where
  "pipe_run elect resign calls s = fold (pipe_step elect resign) calls (s, \<lambda>_. None)"

fun call_time :: "'s pipe_call \<Rightarrow> gotime list" where
  "call_time (PipeTry now cfg row) = [now]"
| "call_time (PipeRenew now cfg row) = [now]"
| "call_time (PipeRelease cfg row) = []"
| "call_time (PipeElse f) = []"

fun call_rows :: "'s pipe_call \<Rightarrow> JobRow list" where
  "call_rows (PipeTry now cfg row) = [row]"
| "call_rows (PipeRenew now cfg row) = [row]"
| "call_rows (PipeRelease cfg row) = [row]"
| "call_rows (PipeElse f) = []"

text \<open>An owner names one attempt when job IDs have no colon.\<close>

definition owner_text :: "attempt_key \<Rightarrow> string" where
  "owner_text = (\<lambda>(w, i, n). w @ '':'' @ i @ '':'' @ Itoa n)"

lemma owner_of_attempt: "pipeline_owner cfg row = owner_text (attempt_of cfg row)"
  by (simp add: pipeline_owner_def owner_text_def attempt_of_def)

lemma split_last:
  assumes "xs @ c # ys = xs' @ c # ys'" "c \<notin> set ys" "c \<notin> set ys'"
  shows "xs = xs' \<and> ys = ys'"
  using assms by (auto simp: append_eq_append_conv2 append_eq_Cons_conv Cons_eq_append_conv)

lemma owner_text_inject:
  assumes "owner_text a = owner_text b" "CHR '':'' \<notin> set (fst (snd a))" "CHR '':'' \<notin> set (fst (snd b))"
  shows "a = b"
proof -
  obtain w i n w' i' n' where ab: "a = (w, i, n)" "b = (w', i', n')" by (metis prod.collapse)
  from assms(1) have "(w @ CHR '':'' # i) @ CHR '':'' # Itoa n = (w' @ CHR '':'' # i') @ CHR '':'' # Itoa n'"
    by (simp add: ab owner_text_def)
  from split_last [OF this Itoa_no_colon Itoa_no_colon]
  have e: "w @ CHR '':'' # i = w' @ CHR '':'' # i'" "Itoa n = Itoa n'" by simp_all
  have "w = w' \<and> i = i'" by (rule split_last [OF e(1)]) (use assms(2,3) in \<open>simp_all add: ab\<close>)
  with e(2) Itoa_inject show ?thesis by (simp add: ab)
qed

section \<open>What pipelines ask of an executor\<close>

text \<open>The election of an executor as the client sees it: an error is an election that was not won.\<close>

definition elect_of :: "'s elect_call \<Rightarrow> string \<Rightarrow> gotime \<Rightarrow> string \<Rightarrow> duration \<Rightarrow> 's \<Rightarrow> 's \<times> bool" where
  "elect_of elect name now w ttl s =
     (case elect now \<lparr>le_Name = name, le_WorkerID = w, le_TTL = ttl\<rparr> s of (s', Inl e) \<Rightarrow> (s', False) | (s', Inr ok) \<Rightarrow> (s', ok))"

definition resign_of :: "'s resign_call \<Rightarrow> string \<Rightarrow> string \<Rightarrow> 's \<Rightarrow> 's" where
  "resign_of resign name w s = fst (resign \<lparr>lr_Name = name, lr_WorkerID = w\<rparr> s)"

lemma try_is_elect:
  "pipeline_try elect cfg row now s = (s', errs, won) \<Longrightarrow>
   elect_of elect (pipeline_name row) now (pipeline_owner cfg row) (wc_PipelineLeaseDuration cfg) s = (s', won)"
  "pipeline_renew elect cfg row now s = (s', errs, won) \<Longrightarrow>
   elect_of elect (pipeline_name row) now (pipeline_owner cfg row) (wc_PipelineLeaseDuration cfg) s = (s', won)"
  by (auto simp: pipeline_try_def pipeline_renew_def pipeline_params_def elect_of_def split: prod.splits sum.splits)

lemma release_is_resign: "fst (pipeline_release resign cfg row s) = resign_of resign (pipeline_name row) (pipeline_owner cfg row) s"
  by (auto simp: pipeline_release_def resign_of_def split: prod.splits option.splits)

locale lease_executor =
  fixes elect :: "'s elect_call" and resign :: "'s resign_call" and lease :: "string \<Rightarrow> 's \<Rightarrow> (string \<times> gotime) option"
  assumes service: "lease_service (elect_of elect name) (resign_of resign name) (lease name)"
begin

text \<open>Every attempt whose hold has not run out is the stored holder.\<close>

definition held :: "string \<Rightarrow> gotime \<Rightarrow> 's \<times> (attempt_key \<Rightarrow> gotime option) \<Rightarrow> bool" where
  "held name now sh \<longleftrightarrow> (\<forall>a e. snd sh a = Some e \<longrightarrow> CHR '':'' \<notin> set (fst (snd a)) \<and>
     (now < e \<longrightarrow> lease name (fst sh) = Some (owner_text a, e)))"

lemma heldD:
  assumes "held name now (s, h)" "h a = Some e"
  shows "CHR '':'' \<notin> set (fst (snd a))" "now < e \<Longrightarrow> lease name s = Some (owner_text a, e)"
  using assms unfolding held_def fst_conv snd_conv by blast+

lemma heldI:
  assumes "\<And>a e. h a = Some e \<Longrightarrow> CHR '':'' \<notin> set (fst (snd a))" "\<And>a e. h a = Some e \<Longrightarrow> now < e \<Longrightarrow> lease name s = Some (owner_text a, e)"
  shows "held name now (s, h)"
  using assms unfolding held_def fst_conv snd_conv by blast

lemma held_unique:
  assumes "held name now (s, h)" "h a = Some e" "now < e" "lease name s = Some (owner_text b, e')" "CHR '':'' \<notin> set (fst (snd b))"
  shows "a = b"
  using heldD [OF assms(1,2)] assms(3-5) by (intro owner_text_inject) simp_all

lemma held_later: "held name now sh \<Longrightarrow> now \<le> now' \<Longrightarrow> held name now' sh"
  unfolding held_def by (meson le_less_trans)

lemma held_elect:
  assumes "held name now (s, h)" "elect_of elect name now (owner_text a) ttl s = (s', won)" "CHR '':'' \<notin> set (fst (snd a))"
  shows "won \<Longrightarrow> held name now (s', h(a := Some (now + ttl)))" "\<not> won \<Longrightarrow> held name now (s', h)"
proof -
  show "held name now (s', h)" if "\<not> won"
    using lease_service.elect_lost [OF service, of name now "owner_text a" ttl s s'] assms(1,2) that by (simp add: held_def)
  assume won
  with lease_service.elect_won [OF service, of name now "owner_text a" ttl s s'] assms(2)
  have l: "lease name s' = Some (owner_text a, now + ttl)" "\<And>w e. lease name s = Some (w, e) \<Longrightarrow> e \<le> now \<or> w = owner_text a" by auto
  have other: "b = a" if "h b = Some e" "now < e" for b e
    using heldD [OF assms(1) that(1)] l(2) that(2) assms(3) owner_text_inject [of b a] by fastforce
  show "held name now (s', h(a := Some (now + ttl)))"
  proof (rule heldI)
    fix b e assume b: "(h(a := Some (now + ttl))) b = Some e"
    then show "CHR '':'' \<notin> set (fst (snd b))" using assms(3) heldD(1) [OF assms(1)] by (auto split: if_splits)
    assume "now < e"
    with b other have "b = a \<and> e = now + ttl" by (auto split: if_splits)
    with l(1) show "lease name s' = Some (owner_text b, e)" by simp
  qed
qed

lemma held_drop: "held name now (s, h) \<Longrightarrow> held name now (s, h(a := None))"
  by (rule heldI) (auto dest: heldD split: if_splits)

lemma held_resign:
  assumes "held name now (s, h)" "CHR '':'' \<notin> set (fst (snd a))"
  shows "held name now (resign_of resign name (owner_text a) s, h(a := None))"
proof (rule heldI)
  fix b e assume b: "(h(a := None)) b = Some e"
  then have hb: "h b = Some e" "b \<noteq> a" by (auto split: if_splits)
  show "CHR '':'' \<notin> set (fst (snd b))" by (rule heldD(1) [OF assms(1) hb(1)])
  assume "now < e"
  with held_unique [OF assms(1) hb(1) _ _ assms(2)] hb(2) have "lease name s \<noteq> Some (owner_text a, e')" for e' by blast
  with lease_service.resigns [OF service, of name "owner_text a" s] heldD(2) [OF assms(1) hb(1) \<open>now < e\<close>]
  show "lease name (resign_of resign name (owner_text a) s) = Some (owner_text b, e)" by auto
qed

lemma held_step:
  assumes "held name now (s, h)" "\<And>t. t \<in> set (call_time c) \<Longrightarrow> t = now"
    and "\<And>row. row \<in> set (call_rows c) \<Longrightarrow> pipeline_name row = name \<and> CHR '':'' \<notin> set (ID row)"
    and "\<And>f. c = PipeElse f \<Longrightarrow> lease name (f s) = lease name s"
  shows "held name now (pipe_step elect resign c (s, h))"
proof (cases c)
  case (PipeTry t cfg row)
  obtain s' errs won where r: "pipeline_try elect cfg row t s = (s', errs, won)" by (metis prod.collapse)
  have "t = now" "pipeline_name row = name" "CHR '':'' \<notin> set (fst (snd (attempt_of cfg row)))"
    using assms(2,3) by (simp_all add: PipeTry attempt_of_def)
  with try_is_elect(1) [OF r] held_elect [OF assms(1), of "attempt_of cfg row" _ s' won] r show ?thesis
    by (cases won) (simp_all add: PipeTry owner_of_attempt)
next
  case (PipeRenew t cfg row)
  obtain s' errs won where r: "pipeline_renew elect cfg row t s = (s', errs, won)" by (metis prod.collapse)
  have "t = now" "pipeline_name row = name" "CHR '':'' \<notin> set (fst (snd (attempt_of cfg row)))"
    using assms(2,3) by (simp_all add: PipeRenew attempt_of_def)
  with try_is_elect(2) [OF r] held_elect [OF assms(1), of "attempt_of cfg row" _ s' won] r assms(1) show ?thesis
    by (cases won) (simp_all add: PipeRenew owner_of_attempt held_drop)
next
  case (PipeRelease cfg row)
  with assms(3) held_resign [OF assms(1), of "attempt_of cfg row"] show ?thesis
    by (simp add: release_is_resign owner_of_attempt attempt_of_def)
next
  case (PipeElse f)
  with assms(1,4) show ?thesis by (simp add: held_def)
qed

lemma held_run:
  assumes "sorted (concat (map call_time calls) @ [now])"
    and "\<And>c row. c \<in> set calls \<Longrightarrow> row \<in> set (call_rows c) \<Longrightarrow> pipeline_name row = name \<and> CHR '':'' \<notin> set (ID row)"
    and "\<And>f s. PipeElse f \<in> set calls \<Longrightarrow> lease name (f s) = lease name s"
    and "held name t0 sh" "\<And>t. t \<in> set (concat (map call_time calls) @ [now]) \<Longrightarrow> t0 \<le> t"
  shows "held name now (fold (pipe_step elect resign) calls sh)"
  using assms
proof (induction calls arbitrary: sh t0)
  case Nil
  then show ?case using held_later by simp
next
  case (Cons c calls)
  define t1 where "t1 = (case call_time c of [] \<Rightarrow> t0 | t # _ \<Rightarrow> t)"
  have t01: "t0 \<le> t1" using Cons.prems(5) by (cases c) (auto simp: t1_def)
  have later: "t1 \<le> t" if "t \<in> set (concat (map call_time calls) @ [now])" for t
    using that Cons.prems(1,5) by (cases c) (auto simp: t1_def)
  obtain s h where sh: "sh = (s, h)" by fastforce
  have "held name t1 (pipe_step elect resign c (s, h))"
  proof (rule held_step)
    show "held name t1 (s, h)" using held_later [OF Cons.prems(4) t01] sh by simp
    show "t = t1" if "t \<in> set (call_time c)" for t using that by (cases c) (simp_all add: t1_def)
  qed (use Cons.prems(2,3) in auto)
  then have "held name now (fold (pipe_step elect resign) calls (pipe_step elect resign c (s, h)))"
    using Cons.prems(1-3) later by (intro Cons.IH [of t1]) (auto simp: sorted_append)
  then show ?case by (simp add: sh)
qed

lemma one_holder:
  assumes "sorted (concat (map call_time calls) @ [now])"
    and "\<And>c row. c \<in> set calls \<Longrightarrow> row \<in> set (call_rows c) \<Longrightarrow> pipeline_name row = name \<and> CHR '':'' \<notin> set (ID row)"
    and "\<And>f s. PipeElse f \<in> set calls \<Longrightarrow> lease name (f s) = lease name s"
    and "snd (pipe_run elect resign calls s) a = Some e" "now < e" "snd (pipe_run elect resign calls s) b = Some e'" "now < e'"
  shows "a = b"
proof -
  define t0 where "t0 = Min (set (concat (map call_time calls) @ [now]))"
  have "held name now (pipe_run elect resign calls s)"
    unfolding pipe_run_def
    by (rule held_run [of calls now name t0]) (use assms(1-3) in \<open>simp_all add: held_def t0_def\<close>)
  then have h: "held name now (fst (pipe_run elect resign calls s), snd (pipe_run elect resign calls s))" by simp
  from held_unique [OF h assms(4,5) heldD(2) [OF h assms(6,7)] heldD(1) [OF h assms(6)]] show ?thesis .
qed

end

text \<open>The loops of one attempt are such calls.\<close>

lemma acquire_is_calls:
  assumes "acquire_rounds elect cfg row rounds s = (s', errs, r)"
  shows "\<exists>calls h'. fold (pipe_step elect resign) calls (s, h) = (s', h') \<and>
    (\<forall>c\<in>set calls. \<exists>now f w. (now, f, w) \<in> set rounds \<and> (c = PipeElse f \<or> c = PipeTry now cfg row)) \<and>
    (\<forall>now. r = PipelineAcquired now \<longrightarrow> h' (attempt_of cfg row) = Some (now + wc_PipelineLeaseDuration cfg))"
  using assms
proof (induction elect cfg row rounds s arbitrary: h errs rule: acquire_rounds.induct)
  case (1 elect cfg row s)
  then show ?case by (intro exI [of _ "[]"]) simp
next
  case (2 elect cfg row now f wake rounds s)
  obtain s1 errs1 won where t: "pipeline_try elect cfg row now (f s) = (s1, errs1, won)" by (metis prod.collapse)
  let ?two = "[PipeElse f, PipeTry now cfg row]"
  have two: "fold (pipe_step elect resign) ?two (s, h) =
      (s1, if won then h(attempt_of cfg row := Some (now + wc_PipelineLeaseDuration cfg)) else h)" by (simp add: t)
  show ?case
  proof (cases "won \<or> wake \<noteq> PipelineTick")
    case True
    then have "s' = s1" "r = (if won then PipelineAcquired now else PipelineGaveUp)"
      using "2.prems" by (auto simp: t split: pipeline_wake.splits bool.splits)
    with two show ?thesis by (intro exI [of _ ?two]) (auto split: if_splits)
  next
    case False
    then obtain errs2 where rest: "acquire_rounds elect cfg row rounds s1 = (s', errs2, r)"
      using "2.prems" by (auto simp: t split: prod.splits)
    have "\<not> won" "wake = PipelineTick" using False by simp_all
    from "2.IH" [OF t [symmetric] refl _ this(2) rest, of h] \<open>\<not> won\<close> obtain calls h' where
      c: "fold (pipe_step elect resign) calls (s1, h) = (s', h')"
        "\<forall>c\<in>set calls. \<exists>now f w. (now, f, w) \<in> set rounds \<and> (c = PipeElse f \<or> c = PipeTry now cfg row)"
        "\<forall>now. r = PipelineAcquired now \<longrightarrow> h' (attempt_of cfg row) = Some (now + wc_PipelineLeaseDuration cfg)" by auto
    from two c(1) False have "fold (pipe_step elect resign) (?two @ calls) (s, h) = (s', h')" by simp
    moreover have "\<forall>c\<in>set (?two @ calls). \<exists>now' f' w. (now', f', w) \<in> set ((now, f, wake) # rounds) \<and> (c = PipeElse f' \<or> c = PipeTry now' cfg row)"
      using c(2) by fastforce
    ultimately show ?thesis using c(3) by blast
  qed
qed

section \<open>Pipelines over the in-memory driver\<close>

definition mem_elect_call :: "mem elect_call" where
  "mem_elect_call now p d = (let (d', ok) = LeaderAttemptElect now p d in (d', Inr ok))"

definition mem_resign_call :: "mem resign_call" where
  "mem_resign_call p d = (LeaderResign p d, None)"

lemma mem_calls: "elect_of mem_elect_call name = mem_elect name" "resign_of mem_resign_call name = mem_resign name"
  by (simp_all add: fun_eq_iff elect_of_def mem_elect_call_def mem_elect_def resign_of_def mem_resign_call_def mem_resign_def split: prod.splits)

interpretation mem_executor: lease_executor mem_elect_call mem_resign_call mem_lease
  by (rule lease_executor.intro) (simp add: mem_calls mem_leases.lease_service_axioms)

text \<open>
  Claim C11: jobs of one pipeline take turns across pools. Whatever elections, renewals and releases
  the attempts of a pipeline make, in whatever pools and in clock order, and whatever happens to the
  rest of the store in between, two attempts that have both acquired the pipeline, have not lost or
  released it, and are within their last lease are the same attempt of the same job by the same
  worker.
\<close>

theorem distributed_pipeline_is_exclusive:
  assumes "sorted (concat (map call_time calls) @ [now])"
    and "\<forall>c\<in>set calls. \<forall>row\<in>set (call_rows c). PipelineID row = pid \<and> CHR '':'' \<notin> set (ID row)"
    and "\<forall>f d. PipeElse f \<in> set calls \<longrightarrow> mem_lease (''goncordia:pipeline:'' @ pid) (f d) = mem_lease (''goncordia:pipeline:'' @ pid) d"
    and "snd (pipe_run mem_elect_call mem_resign_call calls d) a = Some e" "now < e"
    and "snd (pipe_run mem_elect_call mem_resign_call calls d) b = Some e'" "now < e'"
  shows "a = b"
  by (rule mem_executor.one_holder [where name = "''goncordia:pipeline:'' @ pid", OF assms(1) _ _ assms(4-7)])
    (use assms(2,3) in \<open>auto simp: pipeline_name_def\<close>)

definition pipeline_row :: "string \<Rightarrow> JobRow" where
  "pipeline_row jid = (claim 5 sample_fetch (hd (gvals (jobs sample_mem))))\<lparr>ID := jid, PipelineID := ''p''\<rparr>"

definition pipeline_config :: "string \<Rightarrow> WorkerConfig" where
  "pipeline_config w = sample_worker\<lparr>wc_WorkerID := w, wc_DistributedPipelines := True, wc_PipelineLeaseDuration := 30\<rparr>"

definition pipeline_calls :: "mem pipe_call list" where
  "pipeline_calls = [PipeTry 10 (pipeline_config ''w'') (pipeline_row ''a''), PipeTry 15 (pipeline_config ''v'') (pipeline_row ''b''),
     PipeRenew 20 (pipeline_config ''w'') (pipeline_row ''a''), PipeRelease (pipeline_config ''w'') (pipeline_row ''a''),
     PipeTry 25 (pipeline_config ''v'') (pipeline_row ''b''), PipeRenew 26 (pipeline_config ''w'') (pipeline_row ''a'')]"

theorem distributed_pipeline_is_exclusive_witness:
  "{(a, e). snd (pipe_run mem_elect_call mem_resign_call pipeline_calls mem_New) a = Some e \<and> 30 < e} = {((''v'', ''b'', 1), 55)}"
proof -
  have b: "snd (pipe_run mem_elect_call mem_resign_call pipeline_calls mem_New) (''v'', ''b'', 1) = Some 55" by code_simp
  have rows: "PipelineID (pipeline_row i) = ''p''" "ID (pipeline_row i) = i" for i by (simp_all add: pipeline_row_def)
  have s: "sorted (concat (map call_time pipeline_calls) @ [30])" by (simp add: pipeline_calls_def)
  have ids: "\<forall>c\<in>set pipeline_calls. \<forall>row\<in>set (call_rows c). PipelineID row = ''p'' \<and> CHR '':'' \<notin> set (ID row)"
    by (simp add: pipeline_calls_def rows)
  have "a = (''v'', ''b'', 1)" if "snd (pipe_run mem_elect_call mem_resign_call pipeline_calls mem_New) a = Some e" "30 < e" for a e
    by (rule distributed_pipeline_is_exclusive [OF s ids _ that b]) (simp_all add: pipeline_calls_def)
  with b show ?thesis by fastforce
qed

section \<open>Claims that are kept alive\<close>

definition mem_beat :: "JobHeartbeatParams \<Rightarrow> mem \<Rightarrow> mem \<times> bool res" where
  "mem_beat p d = (let (d', ok) = JobHeartbeat p d in (d', Inr ok))"

text \<open>What happens to the store while a handler runs.\<close>

datatype claim_event = ClaimBeat gotime | ClaimRescue JobRescueParams | ClaimElse "mem \<Rightarrow> mem"

fun claim_step :: "duration \<Rightarrow> JobRow \<Rightarrow> claim_event \<Rightarrow> mem \<Rightarrow> mem" where
  "claim_step stuckTimeout row (ClaimBeat t) d = fst (heartbeat_tick mem_beat t stuckTimeout row d)"
| "claim_step stuckTimeout row (ClaimRescue p) d = fst (JobRescueStuck p d)"
| "claim_step stuckTimeout row (ClaimElse f) d = f d"

text \<open>No rescue comes later after the last heartbeat than the interval of the heartbeats.\<close>

fun on_time :: "duration \<Rightarrow> gotime \<Rightarrow> claim_event list \<Rightarrow> bool" where
  "on_time interval since [] \<longleftrightarrow> True"
| "on_time interval since (ClaimBeat t # evs) \<longleftrightarrow> 0 \<le> t \<and> on_time interval t evs"
| "on_time interval since (ClaimRescue p # evs) \<longleftrightarrow> rp_At p \<le> since + interval \<and> on_time interval since evs"
| "on_time interval since (ClaimElse f # evs) \<longleftrightarrow> on_time interval since evs"

definition keeps_claim :: "string \<Rightarrow> (mem \<Rightarrow> mem) \<Rightarrow> bool" where
  "keeps_claim k f \<longleftrightarrow> (\<forall>d r. gget (jobs d) k = Some r \<longrightarrow> (\<exists>r'. gget (jobs (f d)) k = Some r' \<and>
     State r' = State r \<and> WorkerID r' = WorkerID r \<and> AttemptNum r' = AttemptNum r \<and> LeaseExpiresAt r' = LeaseExpiresAt r))"

definition claim_alive :: "JobRow \<Rightarrow> gotime \<Rightarrow> mem \<Rightarrow> bool" where
  "claim_alive row e d \<longleftrightarrow> (\<exists>r. gget (jobs d) (ID row) = Some r \<and> claim_matches (WorkerID row) (AttemptNum row) r \<and> LeaseExpiresAt r = Some e)"

lemma claim_alive_step:
  assumes "claim_alive row (since + timeout) d" "interval < timeout" "on_time interval since (ev # evs)" "0 < timeout"
    and "\<And>f. ev = ClaimElse f \<Longrightarrow> keeps_claim (ID row) f"
  shows "\<exists>since'. claim_alive row (since' + timeout) (claim_step timeout row ev d) \<and> on_time interval since' evs"
proof -
  from assms(1) obtain r where r: "gget (jobs d) (ID row) = Some r" "claim_matches (WorkerID row) (AttemptNum row) r" "LeaseExpiresAt r = Some (since + timeout)"
    by (auto simp: claim_alive_def)
  show ?thesis
  proof (cases ev)
    case (ClaimBeat t)
    then have "0 < t + timeout" using assms(3,4) by simp
    then have "claim_alive row (t + timeout) (claim_step timeout row ev d)"
      using r by (auto simp: claim_alive_def ClaimBeat heartbeat_tick_def mem_beat_def JobHeartbeat_def IsZero_def claim_matches_def gmap_simps)
    with ClaimBeat assms(3) show ?thesis by auto
  next
    case (ClaimRescue p)
    then have "\<not> stuck p r" using r(3) assms(2,3) by (simp add: stuck_def)
    then have "claim_alive row (since + timeout) (claim_step timeout row ev d)"
      using r by (simp add: claim_alive_def ClaimRescue JobRescueStuck_def gmap_simps)
    with ClaimRescue assms(3) show ?thesis by auto
  next
    case (ClaimElse f)
    with assms(5) r obtain r' where "gget (jobs (f d)) (ID row) = Some r'" "State r' = State r" "WorkerID r' = WorkerID r"
        "AttemptNum r' = AttemptNum r" "LeaseExpiresAt r' = LeaseExpiresAt r" by (metis keeps_claim_def)
    with r have "claim_alive row (since + timeout) (claim_step timeout row ev d)"
      by (simp add: claim_alive_def ClaimElse claim_matches_def)
    with ClaimElse assms(3) show ?thesis by auto
  qed
qed

lemma claim_alive_run:
  assumes "claim_alive row (since + timeout) d" "interval < timeout" "on_time interval since evs" "0 < timeout"
    and "\<And>f. ClaimElse f \<in> set evs \<Longrightarrow> keeps_claim (ID row) f"
  shows "\<exists>since'. claim_alive row (since' + timeout) (fold (claim_step timeout row) evs d)"
  using assms
proof (induction evs arbitrary: since d)
  case (Cons ev evs)
  from claim_alive_step [OF Cons.prems(1-4)] Cons.prems(5) obtain since' where
    "claim_alive row (since' + timeout) (claim_step timeout row ev d)" "on_time interval since' evs" by auto
  with Cons.IH [OF this(1) Cons.prems(2) this(2) Cons.prems(4)] Cons.prems(5) show ?case by simp
qed auto

text \<open>
  Claim C12: heartbeats keep a claim. A job that a pool has claimed with leases on stays with the
  worker and attempt of the claim, and no tick of its heartbeat cancels its context, however long its
  handler runs, as long as no rescue of any pool comes later after a claim or heartbeat than the
  heartbeat interval that the pool has set for itself, and nothing else ends the claim.
\<close>

theorem heartbeats_keep_claim:
  assumes "mem_inv d" "queue_open queue d" "pool = newWorkerPool name caps newID cfg"
    and "JobFetchBatch t0 (fetch_params pool queue) d = (d1, rows)" "row \<in> set rows"
    and "0 < wc_StuckJobTimeout (wp_config pool)" "on_time (wc_HeartbeatInterval (wp_config pool)) t0 evs"
    and "\<forall>f. ClaimElse f \<in> set evs \<longrightarrow> keeps_claim (ID row) f"
  shows "let d2 = fold (claim_step (wc_StuckJobTimeout (wp_config pool)) row) evs d1
    in (\<exists>r. gget (jobs d2) (ID row) = Some r \<and> claim_matches (WorkerID row) (AttemptNum row) r) \<and>
       (\<forall>t. snd (heartbeat_tick mem_beat t (wc_StuckJobTimeout (wp_config pool)) row d2) = ([], False))"
proof -
  let ?p = "fetch_params pool queue" and ?timeout = "wc_StuckJobTimeout (wp_config pool)"
  have q: "queue_open (fp_Queue ?p) d" using assms(2) by (simp add: fetch_params_def)
  have row: "row \<in> set (snd (JobFetchBatch t0 ?p d))" using assms(4,5) by simp
  have "gget (jobs d1) (ID row) = Some row" using fetched_stored(1) [OF assms(1) q row] assms(4) by simp
  moreover obtain r where "row = claim t0 ?p r" using fetched_stored(2) [OF assms(1) q row] by blast
  ultimately have alive: "claim_alive row (t0 + ?timeout) d1"
    using assms(6) by (simp add: claim_alive_def claim_matches_def claim_def fetch_params_def)
  have "normal_heartbeat u h < u" if "0 < u" for u h using that by (auto simp: normal_heartbeat_def Let_def)
  then have "wc_HeartbeatInterval (wp_config pool) < ?timeout"
    using assms(6) by (simp add: assms(3) newWorkerPool_def normal_config_def Let_def)
  from claim_alive_run [OF alive this assms(7,6)] assms(8) obtain since' where
    "claim_alive row (since' + ?timeout) (fold (claim_step ?timeout row) evs d1)" by blast
  then show ?thesis
    by (auto simp: claim_alive_def Let_def heartbeat_tick_def mem_beat_def JobHeartbeat_def)
qed

definition beat_pool :: worker_pool where
  "beat_pool = newWorkerPool ''memory'' mem_Capabilities ''w'' (sample_worker\<lparr>wc_StuckJobTimeout := 300, wc_HeartbeatInterval := 0\<rparr>)"

definition beat_events :: "claim_event list" where
  "beat_events = [ClaimRescue \<lparr>rp_Queue = ''q'', rp_At = 2090, rp_Before = 0\<rparr>, ClaimBeat 2100,
     ClaimRescue \<lparr>rp_Queue = ''q'', rp_At = 2200, rp_Before = 0\<rparr>, ClaimBeat 2200, ClaimBeat 2300,
     ClaimRescue \<lparr>rp_Queue = ''q'', rp_At = 2400, rp_Before = 0\<rparr>]"

theorem heartbeats_keep_claim_witness:
  "let (d1, rows) = JobFetchBatch 2000 (fetch_params beat_pool ''q'') sample_mem; row = hd rows
   in length rows = 1 \<and> (\<exists>r. gget (jobs (fold (claim_step 300 row) beat_events d1)) (ID row) = Some r \<and>
     claim_matches (WorkerID row) (AttemptNum row) r)"
proof -
  obtain d1 rows where f: "JobFetchBatch 2000 (fetch_params beat_pool ''q'') sample_mem = (d1, rows)" by fastforce
  have cfg: "wc_StuckJobTimeout (wp_config beat_pool) = 300" "wc_HeartbeatInterval (wp_config beat_pool) = 100"
    by (simp_all add: beat_pool_def newWorkerPool_def normal_config_def sample_worker_def normal_heartbeat_def Let_def)
  have "fetch_params beat_pool ''q'' = \<lparr>fp_Queue = ''q'', fp_Limit = 1, fp_WorkerID = wc_WorkerID (wp_config beat_pool), fp_LeaseDuration = 300\<rparr>"
    by (simp add: fetch_params_def cfg)
  moreover have "length (snd (JobFetchBatch 2000 \<lparr>fp_Queue = ''q'', fp_Limit = 1, fp_WorkerID = ''w'', fp_LeaseDuration = 300\<rparr> sample_mem)) = 1" by code_simp
  moreover have "wc_WorkerID (wp_config beat_pool) = ''w''" by (simp add: beat_pool_def newWorkerPool_def normal_config_def sample_worker_def Let_def)
  ultimately have n: "length rows = 1" using f by simp
  then have row: "hd rows \<in> set rows" by (cases rows) simp_all
  have ev: "on_time (wc_HeartbeatInterval (wp_config beat_pool)) 2000 beat_events" by (simp add: cfg beat_events_def)
  have other: "\<forall>f. ClaimElse f \<in> set beat_events \<longrightarrow> keeps_claim (ID (hd rows)) f" by (simp add: beat_events_def)
  have "0 < wc_StuckJobTimeout (wp_config beat_pool)" by (simp add: cfg)
  from heartbeats_keep_claim [OF sample_mem_inv(1) sample_open beat_pool_def f row this ev other] n show ?thesis
    by (simp add: f cfg Let_def)
qed

end
