(* ===== verification/Firestore_Properties.thy ===== *)
theory Firestore_Properties
  imports Firestore_Service Worker_Leases
begin

text \<open>
  Pipelines and unique keys over Firestore, and the agreement of the Firestore driver with the
  in-memory driver, for every service that satisfies the laws of \<open>firestore_service\<close>.
\<close>

section \<open>Pipelines over Firestore\<close>

definition fs_elect_call :: "'s firestore \<Rightarrow> 's elect_call" where
  "fs_elect_call c now p s =
     (case leaderAttemptElect c (\<lambda>_. now) p s of (s', elected, None) \<Rightarrow> (s', Inr elected) | (s', elected, Some e) \<Rightarrow> (s', Inl e))"

lemma fs_calls: "elect_of (fs_elect_call c) name = fs_elect c name" "resign_of (leaderResign c) name = fs_resign c name"
  by (auto simp: fun_eq_iff elect_of_def fs_elect_call_def fs_elect_def resign_of_def fs_resign_def split: prod.splits option.splits)

sublocale firestore_service \<subseteq> pipelines: lease_executor "fs_elect_call c" "leaderResign c" "\<lambda>name s. fs_lease (doc s) name"
  by (rule lease_executor.intro) (simp add: fs_calls fl.lease_service_axioms)

context firestore_service
begin

lemma lease_laws: "lease_executor (fs_elect_call c) (leaderResign c) (\<lambda>name s. fs_lease (doc s) name)"
  by (rule pipelines.lease_executor_axioms)

end

text \<open>The jobs of one pipeline take turns across pools over Firestore too.\<close>

theorem firestore_pipeline_is_exclusive:
  assumes "firestore_service c doc" "sorted (concat (map call_time calls) @ [now])"
    and "\<forall>k\<in>set calls. \<forall>row\<in>set (call_rows k). PipelineID row = pid \<and> CHR '':'' \<notin> set (ID row)"
    and "\<forall>f s. PipeElse f \<in> set calls \<longrightarrow> fs_lease (doc (f s)) (''goncordia:pipeline:'' @ pid) = fs_lease (doc s) (''goncordia:pipeline:'' @ pid)"
    and "snd (pipe_run (fs_elect_call c) (leaderResign c) calls s) a = Some e" "now < e"
    and "snd (pipe_run (fs_elect_call c) (leaderResign c) calls s) b = Some e'" "now < e'"
  shows "a = b"
  by (rule lease_executor.one_holder [where name = "''goncordia:pipeline:'' @ pid",
      OF firestore_service.lease_laws [OF assms(1)] assms(2) _ _ assms(5-8)])
    (use assms(3,4) in \<open>auto simp: pipeline_name_def\<close>)

section \<open>Unique keys\<close>

definition holds_key :: "jobDoc \<Rightarrow> bool" where
  "holds_key j \<longleftrightarrow> jd_UniqueKey j \<noteq> [] \<and> (IsPermanentUniqueKey (jd_UniqueKey j) \<or> \<not> terminal (jd_State j))"

text \<open>Every job is filed under its ID, and the key that it holds names it.\<close>

definition keys_ok :: "(fref \<Rightarrow> fdoc option) \<Rightarrow> bool" where
  "keys_ok docs \<longleftrightarrow> (\<forall>k j. docs (JobRef k) = Some (JobDoc j) \<longrightarrow>
     jd_ID j = k \<and> (holds_key j \<longrightarrow> docs (UniqRef (jd_UniqueKey j)) = Some (UniqDoc k)))"

lemma keys_okD:
  assumes "keys_ok docs" "docs (JobRef k) = Some (JobDoc j)"
  shows "jd_ID j = k" "holds_key j \<Longrightarrow> docs (UniqRef (jd_UniqueKey j)) = Some (UniqDoc k)"
  using assms by (simp_all add: keys_ok_def)

lemma keys_ok_frame:
  assumes "keys_ok docs" "\<And>k. docs' (JobRef k) = docs (JobRef k)" "\<And>k. docs' (UniqRef k) = docs (UniqRef k)"
  shows "keys_ok docs'"
  using assms by (simp add: keys_ok_def)

lemma keys_ok_update:
  assumes "keys_ok docs" "docs (JobRef k) = Some (JobDoc j)" "jd_ID (f j) = jd_ID j" "jd_UniqueKey (f j) = jd_UniqueKey j"
    and "holds_key (f j) \<Longrightarrow> holds_key j"
  shows "keys_ok (docs(JobRef k \<mapsto> JobDoc (f j)))"
  using assms unfolding keys_ok_def by (auto simp: holds_key_def)

lemma keys_ok_release:
  assumes "keys_ok docs" "docs (JobRef k) = Some (JobDoc j)" "jd_ID (f j) = jd_ID j" "jd_UniqueKey (f j) = jd_UniqueKey j"
    and "terminal (jd_State (f j))" "\<not> IsPermanentUniqueKey (jd_UniqueKey j)" "jd_UniqueKey j \<noteq> []"
    and "\<not> terminal (jd_State j)"
  shows "keys_ok (docs(JobRef k \<mapsto> JobDoc (f j), UniqRef (jd_UniqueKey j) := None))"
proof -
  have "holds_key j" using assms(6-8) by (simp add: holds_key_def)
  then have owner: "docs (UniqRef (jd_UniqueKey j)) = Some (UniqDoc k)" using assms(1,2) by (simp add: keys_ok_def)
  have same: "k' = k" if "docs (JobRef k') = Some (JobDoc j')" "holds_key j'" "jd_UniqueKey j' = jd_UniqueKey j" for k' j'
    using keys_okD(2) [OF assms(1) that(1,2)] that(3) owner by simp
  have ended: "\<not> holds_key (f j)" using assms(4-6) by (simp add: holds_key_def)
  let ?docs = "docs(JobRef k \<mapsto> JobDoc (f j), UniqRef (jd_UniqueKey j) := None)"
  show ?thesis unfolding keys_ok_def
  proof (intro allI impI)
    fix k' j' assume j': "?docs (JobRef k') = Some (JobDoc j')"
    show "jd_ID j' = k' \<and> (holds_key j' \<longrightarrow> ?docs (UniqRef (jd_UniqueKey j')) = Some (UniqDoc k'))"
    proof (cases "k' = k")
      case True
      with j' ended keys_okD(1) [OF assms(1,2)] assms(3) show ?thesis by auto
    next
      case False
      then have d: "docs (JobRef k') = Some (JobDoc j')" using j' by simp
      have "jd_UniqueKey j' \<noteq> jd_UniqueKey j" if "holds_key j'" using same [OF d that] False by blast
      with keys_okD [OF assms(1) d] show ?thesis by simp
    qed
  qed
qed

lemma release_key_cases:
  "release_key j = [] \<and> (jd_UniqueKey j = [] \<or> IsPermanentUniqueKey (jd_UniqueKey j)) \<or>
   release_key j = [WDelete (UniqRef (jd_UniqueKey j))] \<and> jd_UniqueKey j \<noteq> [] \<and> \<not> IsPermanentUniqueKey (jd_UniqueKey j)"
  by (auto simp: release_key_def)

lemma keys_ok_end:
  assumes "keys_ok docs" "docs (JobRef k) = Some (JobDoc j)" "jd_ID (f j) = jd_ID j" "jd_UniqueKey (f j) = jd_UniqueKey j"
    and "terminal (jd_State (f j))" "\<not> terminal (jd_State j)"
  shows "commit docs (release_key j @ [WUpdate (JobRef k) (on_job f)]) = Some docs' \<Longrightarrow> keys_ok docs'"
    and "commit docs (WUpdate (JobRef k) (on_job f) # release_key j) = Some docs' \<Longrightarrow> keys_ok docs'"
proof -
  note upd = keys_ok_update [of docs k j f, OF assms(1-4)]
  note rel = keys_ok_release [of docs k j f, OF assms(1-5) _ _ assms(6)]
  have "holds_key (f j) \<Longrightarrow> holds_key j" if "jd_UniqueKey j = [] \<or> IsPermanentUniqueKey (jd_UniqueKey j)"
    using that assms(4) by (auto simp: holds_key_def)
  then show "commit docs (release_key j @ [WUpdate (JobRef k) (on_job f)]) = Some docs' \<Longrightarrow> keys_ok docs'"
    "commit docs (WUpdate (JobRef k) (on_job f) # release_key j) = Some docs' \<Longrightarrow> keys_ok docs'"
    using upd rel assms(2) release_key_cases [of j] by (auto simp: on_job_def fun_upd_twist)
qed

lemma keys_ok_create:
  assumes "keys_ok docs" "docs (JobRef (jd_ID d)) = None"
    and "if jd_UniqueKey d = [] then docs' = docs(JobRef (jd_ID d) \<mapsto> JobDoc d)
      else docs (UniqRef (jd_UniqueKey d)) = None \<and>
        docs' = docs(JobRef (jd_ID d) \<mapsto> JobDoc d, UniqRef (jd_UniqueKey d) \<mapsto> UniqDoc (jd_ID d))"
  shows "keys_ok docs'"
proof (cases "jd_UniqueKey d = []")
  case True
  with assms show ?thesis unfolding keys_ok_def by (auto simp: holds_key_def)
next
  case False
  then have "\<not> (docs (JobRef k) = Some (JobDoc j) \<and> holds_key j \<and> jd_UniqueKey j = jd_UniqueKey d)" for k j
    using keys_okD(2) [OF assms(1), of k j] assms(3) by auto
  with False assms show ?thesis unfolding keys_ok_def by auto
qed

text \<open>A callback keeps the keys in order when every commit of it does.\<close>

definition keeps_keys :: "'s firestore \<Rightarrow> tx_body \<Rightarrow> bool" where
  "keeps_keys c b \<longleftrightarrow> (\<forall>docs read n v v' ws docs'. reads c docs read \<longrightarrow> b n read v = (v', Inr ws) \<longrightarrow>
     commit docs ws = Some docs' \<longrightarrow> keys_ok docs \<longrightarrow> keys_ok docs')"

lemma keeps_keysI:
  assumes "\<And>docs read n v v' ws docs'. reads c docs read \<Longrightarrow> b n read v = (v', Inr ws) \<Longrightarrow> commit docs ws = Some docs' \<Longrightarrow>
    keys_ok docs \<Longrightarrow> keys_ok docs'"
  shows "keeps_keys c b"
  using assms unfolding keeps_keys_def by blast

text \<open>Callbacks that write at most one update of the job that they have read.\<close>

lemma keeps_keys_update:
  assumes "\<And>n read v v' ws. b n read v = (v', Inr ws) \<Longrightarrow>
      ws = [] \<or> (\<exists>j f. read (JobRef k) = Inr (JobDoc j) \<and> ws = [WUpdate (JobRef k) (on_job f)] \<and>
        jd_ID (f j) = jd_ID j \<and> jd_UniqueKey (f j) = jd_UniqueKey j \<and> (holds_key (f j) \<longrightarrow> holds_key j))"
  shows "keeps_keys c b"
proof (rule keeps_keysI)
  fix docs read n v v' ws docs'
  assume r: "reads c docs read" "b n read v = (v', Inr ws)" "commit docs ws = Some docs'" "keys_ok docs"
  from assms [OF r(2)] show "keys_ok docs'"
  proof (elim disjE exE conjE)
    fix j f assume j: "read (JobRef k) = Inr (JobDoc j)" and ws: "ws = [WUpdate (JobRef k) (on_job f)]"
      and f: "jd_ID (f j) = jd_ID j" "jd_UniqueKey (f j) = jd_UniqueKey j" "holds_key (f j) \<longrightarrow> holds_key j"
    have d: "docs (JobRef k) = Some (JobDoc j)" by (rule readsD(1) [OF r(1) j])
    with ws r(3) have "docs' = docs(JobRef k \<mapsto> JobDoc (f j))" by (simp add: on_job_def)
    with keys_ok_update [where f = f, OF r(4) d f(1,2)] f(3) show ?thesis by simp
  qed (use r in simp)
qed

lemma job_bodies_keep_keys:
  "keeps_keys c (claim_body c p t (JobRef k))" "keeps_keys c (rescue_body c rp (JobRef k))"
  "keeps_keys c (heartbeat_body c hp)" "keeps_keys c (mark_body c mp)"
proof -
  show "keeps_keys c (claim_body c p t (JobRef k))"
    by (rule keeps_keys_update [of _ k]) (auto simp: claim_body_def claim_doc_def to_Inr holds_key_def split: sum.splits if_splits)
  show "keeps_keys c (rescue_body c rp (JobRef k))"
    by (rule keeps_keys_update [of _ k])
      (auto simp: rescue_body_def rescue_doc_def fs_stuck_def to_Inr holds_key_def split: sum.splits if_splits)
  show "keeps_keys c (heartbeat_body c hp)"
    by (rule keeps_keys_update [of _ "hp_ID hp"])
      (auto simp: heartbeat_body_def Let_def to_Inr holds_key_def split: sum.splits if_splits)
  show "keeps_keys c (mark_body c mp)"
    by (rule keeps_keys_update [of _ "ms_ID mp"]) (auto simp: mark_body_def to_Inr holds_key_def split: sum.splits if_splits)
qed

lemma set_state_keeps_keys:
  assumes "sp_Yield p \<or> sp_State p = JobStateRetryable \<or> terminal (sp_State p)"
  shows "keeps_keys c (set_state_body c clk p)"
proof (cases "sp_Yield p \<or> sp_State p = JobStateRetryable")
  case True
  then show ?thesis
    by (intro keeps_keys_update [of _ "sp_ID p"])
      (auto simp: set_state_body_def yield_doc_def outcome_doc_def Let_def to_Inr holds_key_def split: sum.splits if_splits option.splits)
next
  case False
  then have st: "terminal (sp_State p)" "sp_State p \<noteq> JobStateRetryable" "\<not> sp_Yield p" using assms by auto
  show ?thesis
  proof (rule keeps_keysI)
    fix docs read n v v' ws docs'
    assume r: "reads c docs read" "set_state_body c clk p n read v = (v', Inr ws)" "commit docs ws = Some docs'" "keys_ok docs"
    have "ws = [] \<or> (\<exists>j. read (JobRef (sp_ID p)) = Inr (JobDoc j) \<and> jd_State j = JobStateRunning \<and>
        ws = release_key j @ [WUpdate (JobRef (sp_ID p)) (on_job (outcome_doc (clk n) p))])"
      using r(2) st by (auto simp: set_state_body_def to_Inr split: sum.splits if_splits)
    then show "keys_ok docs'"
    proof (elim disjE exE conjE)
      fix j assume j: "read (JobRef (sp_ID p)) = Inr (JobDoc j)" "jd_State j = JobStateRunning"
        and ws: "ws = release_key j @ [WUpdate (JobRef (sp_ID p)) (on_job (outcome_doc (clk n) p))]"
      have f: "jd_ID (outcome_doc (clk n) p j) = jd_ID j" "jd_UniqueKey (outcome_doc (clk n) p j) = jd_UniqueKey j"
          "terminal (jd_State (outcome_doc (clk n) p j))"
        using st by (auto simp: outcome_doc_def Let_def split: option.splits)
      show ?thesis using keys_ok_end(1) [where f = "outcome_doc (clk n) p", OF r(4) readsD(1) [OF r(1) j(1)] f] j(2) r(3) by (simp add: ws)
    qed (use r in simp)
  qed
qed

lemma cancel_keeps_keys: "keeps_keys c (cancel_body c clk jid)"
proof (rule keeps_keysI)
  fix docs read n v v' ws docs'
  assume r: "reads c docs read" "cancel_body c clk jid n read v = (v', Inr ws)" "commit docs ws = Some docs'" "keys_ok docs"
  let ?f = "\<lambda>j. j\<lparr>jd_State := JobStateCancelled, jd_FinalizedAt := clk n, jd_Version := jd_Version j + 1\<rparr>"
  obtain j where j: "read (JobRef jid) = Inr (JobDoc j)" "\<not> terminal (jd_State j)"
    and ws: "ws = WUpdate (JobRef jid) (on_job ?f) # release_key j"
    using r(2) by (auto simp: cancel_body_def to_Inr terminal_def split: sum.splits if_splits)
  show "keys_ok docs'" using keys_ok_end(2) [of docs jid j ?f docs', OF r(4) readsD(1) [OF r(1) j(1)]] j(2) r(3) by (simp add: ws)
qed

text \<open>Callbacks that write neither jobs nor keys.\<close>

fun write_ref :: "fwrite \<Rightarrow> fref" where
  "write_ref (WCreate ref d) = ref"
| "write_ref (WUpdate ref f) = ref"
| "write_ref (WDelete ref) = ref"

lemma commit_other: "commit docs ws = Some docs' \<Longrightarrow> ref \<notin> write_ref ` set ws \<Longrightarrow> docs' ref = docs ref"
  by (induction docs ws rule: commit.induct) (auto split: if_splits option.splits)

lemma keeps_keys_other:
  assumes "\<And>n read v v' ws w. b n read v = (v', Inr ws) \<Longrightarrow> w \<in> set ws \<Longrightarrow> (\<forall>k. write_ref w \<noteq> JobRef k) \<and> (\<forall>k. write_ref w \<noteq> UniqRef k)"
  shows "keeps_keys c b"
proof (rule keeps_keysI)
  fix docs read n v v' ws docs'
  assume r: "b n read v = (v', Inr ws)" "commit docs ws = Some docs'" "keys_ok docs"
  have "docs' ref = docs ref" if "(\<exists>k. ref = JobRef k) \<or> (\<exists>k. ref = UniqRef k)" for ref
    using commit_other [OF r(2), of ref] assms [OF r(1)] that by blast
  then show "keys_ok docs'" by (intro keys_ok_frame [OF r(3)]) blast+
qed

lemma coordination_keeps_keys:
  "keeps_keys c (elect_body c clk ep)" "keeps_keys c (resign_body c lp)" "keeps_keys c (cursor_body c cp)" "keeps_keys c (advance_body c ap)"
  by (rule keeps_keys_other;
      auto simp: elect_body_def resign_body_def cursor_body_def advance_body_def Let_def split: sum.splits if_splits)+

text \<open>Insertion, alone or in a transaction of the caller.\<close>

lemma commit_append: "commit docs (ws @ ws') = (case commit docs ws of None \<Rightarrow> None | Some docs1 \<Rightarrow> commit docs1 ws')"
proof (induction ws arbitrary: docs)
  case (Cons w ws)
  then show ?case by (cases w) (simp_all del: fun_upd_apply split: option.split)
qed simp

lemma entries_keep_keys: "keys_ok docs \<Longrightarrow> commit docs (concat (map entry_writes es)) = Some docs' \<Longrightarrow> keys_ok docs'"
proof (induction es arbitrary: docs)
  case (Cons e es)
  obtain d skip where e: "e = (d, skip)" by fastforce
  obtain docs1 where c1: "commit docs (entry_writes e) = Some docs1" and c2: "commit docs1 (concat (map entry_writes es)) = Some docs'"
    using Cons.prems(2) by (auto simp: commit_append split: option.splits)
  have "keys_ok docs1"
  proof (cases skip)
    case True
    with c1 Cons.prems(1) show ?thesis by (simp add: e entry_writes_def)
  next
    case False
    with c1 show ?thesis
      by (intro keys_ok_create [OF Cons.prems(1), of d]) (auto simp: e entry_writes_def split: if_splits)
  qed
  then show ?case using c2 by (rule Cons.IH)
qed simp

definition insert_tx_body :: "'s firestore \<Rightarrow> gotime \<Rightarrow> (nat \<Rightarrow> string) \<Rightarrow> JobInsertParams list \<Rightarrow> tx_body" where
  "insert_tx_body c now newID ps n read v = (case jobInsertManyTx c read now newID ps of Inl e \<Rightarrow> (v, Inl e) | Inr (ws, _) \<Rightarrow> (v, Inr ws))"

lemma insert_keeps_keys:
  assumes "jd_UniqueKey d \<noteq> []"
  shows "keeps_keys c (insert_body c d)"
proof (rule keeps_keysI)
  fix docs read n v v' ws docs'
  assume r: "insert_body c d n read v = (v', Inr ws)" "commit docs ws = Some docs'" "keys_ok docs"
  then have "ws = concat (map entry_writes [(d, ws = [])])"
    using assms by (auto simp: insert_body_def entry_writes_def Let_def split: sum.splits if_splits)
  with entries_keep_keys [OF r(3)] r(2) show "keys_ok docs'" by metis
qed

lemma insert_tx_keeps_keys: "keeps_keys c (insert_tx_body c now newID ps)"
  by (rule keeps_keysI) (auto simp: insert_tx_body_def jobInsertManyTx_def intro: entries_keep_keys split: sum.splits)

text \<open>
  The steps that the driver takes on the service, one transaction or write at a time. A job ends in
  one of the final states; deletion and rescheduling are not among the steps.
\<close>

inductive fs_step :: "'s firestore \<Rightarrow> 's \<Rightarrow> 's \<Rightarrow> bool" for c where
  insert: "fs_insert_one c now jid i p s = (s', r) \<Longrightarrow> fs_step c s s'"
| insert_tx: "fs_run c (insert_tx_body c now newID ps) no_vars s = (s', v, err) \<Longrightarrow> fs_step c s s'"
| claim: "fs_run c (claim_body c fp t (JobRef k)) no_vars s = (s', v, err) \<Longrightarrow> fs_step c s s'"
| rescue: "fs_run c (rescue_body c rp (JobRef k)) no_vars s = (s', v, err) \<Longrightarrow> fs_step c s s'"
| heartbeat: "fs_jobHeartbeat c hp s = (s', r) \<Longrightarrow> fs_step c s s'"
| mark: "fs_jobMarkStarted c mp s = (s', r) \<Longrightarrow> fs_step c s s'"
| set_state: "sp_Yield sp \<or> sp_State sp = JobStateRetryable \<or> terminal (sp_State sp) \<Longrightarrow>
    fs_jobSetStateIfRunning c clk sp s = (s', err) \<Longrightarrow> fs_step c s s'"
| cancel: "fs_jobCancel c clk jid s = (s', err) \<Longrightarrow> fs_step c s s'"
| elect: "leaderAttemptElect c clk ep s = (s', r) \<Longrightarrow> fs_step c s s'"
| resign: "leaderResign c lp s = (s', err) \<Longrightarrow> fs_step c s s'"
| cursor: "scheduleCursorGetOrCreate c cp s = (s', cr) \<Longrightarrow> fs_step c s s'"
| advance: "scheduleCursorAdvance c ap s = (s', r) \<Longrightarrow> fs_step c s s'"
| queue: "fs_queueGet c now name s = (s', q) \<Longrightarrow> fs_step c s s'"
| pause: "queueSetPaused c now name b s = (s', err) \<Longrightarrow> fs_step c s s'"

text \<open>A fetch and a rescue are sequences of such steps, whatever steps of others come between.\<close>

lemma claim_loop_steps:
  assumes "\<And>i s. (fs_step c)\<^sup>*\<^sup>* s (others i s)" "\<And>ref j. (ref, j) \<in> set cs \<Longrightarrow> \<exists>k. ref = JobRef k"
  shows "(fs_step c)\<^sup>*\<^sup>* s (fst (claim_loop c clk others p i cs claimed s))"
  using assms(2)
proof (induction cs arbitrary: i claimed s)
  case (Cons a cs)
  obtain ref j where a: "a = (ref, j)" by fastforce
  then obtain k where k: "ref = JobRef k" using Cons.prems by auto
  obtain s' v err where r: "fs_run c (claim_body c p (clk i) ref) no_vars (others i s) = (s', v, err)" using prod_cases3 by blast
  have "(fs_step c)\<^sup>*\<^sup>* s s'"
    using assms(1) [of s i] fs_step.claim [of c p "clk i" k "others i s" s' v err] r k by (metis rtranclp.rtrancl_into_rtrancl)
  moreover have "(fs_step c)\<^sup>*\<^sup>* s' (fst (claim_loop c clk others p (Suc i) cs cl s'))" for cl
    by (rule Cons.IH) (use Cons.prems in auto)
  ultimately have later: "(fs_step c)\<^sup>*\<^sup>* s (fst (claim_loop c clk others p (Suc i) cs cl s'))" for cl
    by (meson rtranclp_trans)
  show ?case using later \<open>(fs_step c)\<^sup>*\<^sup>* s s'\<close> by (simp add: a r split: option.splits)
qed simp

interpretation candidate_order: slice_order candidate_less "\<lambda>(_, j). (- jd_Priority j, jd_RunAt j, jd_CreatedAt j, jd_ID j)"
  by unfold_locales (auto simp: candidate_less_def less_prod_def Let_def)

lemma decoded_jobs_mem: "(ref, j) \<in> set (decoded_jobs c snaps) \<Longrightarrow> (ref, JobDoc j) \<in> set snaps"
  by (induction c snaps rule: decoded_jobs.induct) (auto simp: to_Inr split: sum.splits)

lemma run_keeps_keys:
  assumes "firestore_service c doc" "keeps_keys c b" "fs_run c b v s = (s', v', err)" "keys_ok (doc s)"
  shows "keys_ok (doc s')"
proof (cases err)
  case None
  with assms show ?thesis
    by (auto simp: keeps_keys_def elim!: firestore_service.run_commits [OF assms(1)])
next
  case (Some e)
  with firestore_service.run_fails [OF assms(1)] assms(3,4) show ?thesis by metis
qed

context firestore_service
begin

lemma fetch_steps:
  assumes "\<And>i s. (fs_step c)\<^sup>*\<^sup>* s (others i s)"
  shows "(fs_step c)\<^sup>*\<^sup>* s (fst (fs_jobFetchBatch c clk others p s))"
proof (cases "queue_is_paused c (fp_Queue p) s")
  case False
  let ?q = "\<lparr>jq_where = fetch_where (fp_Queue p) (clk 0), jq_by_run_at = True, jq_limit = Some (candidateLimit (fp_Limit p))\<rparr>"
  show ?thesis
  proof (cases "fs_jobs c ?q (others 0 s)")
    case (Inr snaps)
    have "\<exists>k. ref = JobRef k" if "(ref, j) \<in> set (sort_slice candidate_less (decoded_jobs c snaps))" for ref j
      using that query [OF Inr] by (auto simp: candidate_order.set_sort_slice dest!: decoded_jobs_mem)
    from claim_loop_steps [where cs = "sort_slice candidate_less (decoded_jobs c snaps)" and others = others and s = "others 0 s"
        and clk = clk and p = p and i = 1 and claimed = "[]", OF assms this] assms [of s 0]
    show ?thesis using False Inr by (simp add: fs_jobFetchBatch_def Let_def) (meson rtranclp_trans)
  qed (use False assms in \<open>simp add: fs_jobFetchBatch_def Let_def\<close>)
qed (simp add: fs_jobFetchBatch_def)

end

lemma write_keeps_keys:
  assumes "writes_or_fails docs docs' w err" "keys_ok docs" "\<And>k. write_ref w \<noteq> JobRef k" "\<And>k. write_ref w \<noteq> UniqRef k"
  shows "keys_ok docs'"
proof -
  have "docs' ref = docs ref" if "(\<exists>k. ref = JobRef k) \<or> (\<exists>k. ref = UniqRef k)" for ref
  proof (cases err)
    case None
    then have "commit docs [w] = Some docs'" using assms(1) by (simp add: writes_or_fails_def)
    moreover have "ref \<noteq> write_ref w" using that assms(3,4) by metis
    ultimately show ?thesis using commit_other [of docs "[w]" docs' ref] by simp
  qed (use assms(1) in \<open>simp add: writes_or_fails_def\<close>)
  then show ?thesis by (intro keys_ok_frame [OF assms(2)]) blast+
qed

lemma insert_one_keeps_keys:
  assumes svc: "firestore_service c doc" and r: "fs_insert_one c now jid i p s = (s', r)" and ok: "keys_ok (doc s)"
  shows "keys_ok (doc s')"
proof -
  let ?d = "new_doc now jid p"
  let ?q = "QueueDoc \<lparr>qd_Name = ip_Queue p, qd_Paused = False, qd_CreatedAt = now, qd_UpdatedAt = now\<rparr>"
  have d: "jd_UniqueKey ?d = ip_UniqueKey p" "jd_ID ?d = jid" by (simp_all add: new_doc_def Let_def)
  have queue: "keys_ok (doc (fst (fs_create c (QueueRef (ip_Queue p)) ?q s1)))" if "keys_ok (doc s1)" for s1
    by (rule write_keeps_keys [OF firestore_service.create [OF svc prod.collapse [symmetric]] that]) simp_all
  show ?thesis
  proof (cases "ip_UniqueKey p = []")
    case True
    obtain s1 err where c1: "fs_create c (JobRef jid) (JobDoc ?d) s = (s1, err)" by fastforce
    have "keys_ok (doc s1)"
      using firestore_service.create [OF svc c1] keys_ok_create [OF ok, of ?d "doc s1"] ok d True
      by (auto simp: writes_or_fails_def split: option.splits if_splits)
    then show ?thesis using r True c1 queue [of s1]
      by (auto simp: fs_insert_one_def Let_def split: option.splits prod.splits if_splits)
  next
    case False
    obtain s1 v err where c1: "fs_run c (insert_body c ?d) no_vars s = (s1, v, err)" using prod_cases3 by blast
    have "keys_ok (doc s1)" by (rule run_keeps_keys [OF svc insert_keeps_keys c1 ok]) (simp add: d False)
    then show ?thesis using r False c1 queue [of s1]
      by (auto simp: fs_insert_one_def Let_def split: option.splits prod.splits if_splits bool.splits)
  qed
qed

lemma step_keeps_keys:
  assumes svc: "firestore_service c doc" and "fs_step c s s'" "keys_ok (doc s)"
  shows "keys_ok (doc s')"
  using assms(2,3)
proof induction
  case (insert now jid i p s s' r)
  then show ?case using insert_one_keeps_keys [OF svc] by blast
next
  case (queue now name s s' q)
  let ?d = "QueueDoc \<lparr>qd_Name = name, qd_Paused = False, qd_CreatedAt = now, qd_UpdatedAt = now\<rparr>"
  obtain s1 err where c1: "fs_create c (QueueRef name) ?d s = (s1, err)" by fastforce
  have "keys_ok (doc s1)" by (rule write_keeps_keys [OF firestore_service.create [OF svc c1] queue(2)]) simp_all
  with queue c1 show ?case by (auto simp: fs_queueGet_def Let_def split: sum.splits if_splits option.splits)
next
  case (pause now name b s s' err)
  let ?d = "QueueDoc \<lparr>qd_Name = name, qd_Paused = b, qd_CreatedAt = now, qd_UpdatedAt = now\<rparr>"
  have "doc s' = doc s \<or> doc s' = (doc s)(QueueRef name \<mapsto> ?d)"
    using firestore_service.set_doc [OF svc, of "QueueRef name" ?d s s' err] pause(1) by (auto simp: queueSetPaused_def)
  with pause(2) show ?case by (auto intro: keys_ok_frame)
qed (auto simp: fs_jobHeartbeat_def fs_jobMarkStarted_def fs_jobSetStateIfRunning_def fs_jobCancel_def leaderAttemptElect_def
    leaderResign_def scheduleCursorGetOrCreate_def scheduleCursorAdvance_def split: prod.splits
    intro: run_keeps_keys [OF svc] insert_tx_keeps_keys job_bodies_keep_keys set_state_keeps_keys cancel_keeps_keys coordination_keeps_keys)

text \<open>
  Claim C19: a unique key is reserved by one job. After any sequence of insertions, claims, heartbeats,
  rescues, state transitions, cancellations and coordination calls, with transactions repeated or
  failing at any point, two stored jobs never reserve the same unique key.
\<close>

theorem firestore_key_reserved_once:
  assumes "firestore_service c doc" "keys_ok (doc s0)" "(fs_step c)\<^sup>*\<^sup>* s0 s"
    and "doc s (JobRef k1) = Some (JobDoc j1)" "holds_key j1" "doc s (JobRef k2) = Some (JobDoc j2)" "holds_key j2"
    and "jd_UniqueKey j1 = jd_UniqueKey j2"
  shows "k1 = k2"
proof -
  from assms(3) have "keys_ok (doc s)"
    by (induction rule: rtranclp_induct) (auto intro: assms(2) step_keeps_keys [OF assms(1)])
  from keys_okD(2) [OF this assms(4,5)] keys_okD(2) [OF this assms(6,7)] assms(8) show ?thesis by simp
qed

definition two_inserts :: local_store where
  "two_inserts = fst (fs_insert_one local_firestore 7 ''b'' 0 (sample_job 0 ''u'')
     (fst (fs_insert_one local_firestore 6 ''a'' 0 (sample_job 0 ''u'') empty_store)))"

theorem firestore_key_reserved_once_witness:
  "{k. \<exists>j. local_doc two_inserts (JobRef k) = Some (JobDoc j) \<and> holds_key j \<and> jd_UniqueKey j = ''u''} = {''a''}"
proof -
  let ?a = "new_doc 6 ''a'' (sample_job 0 ''u'')"
  have steps: "(fs_step local_firestore)\<^sup>*\<^sup>* empty_store two_inserts"
    unfolding two_inserts_def
    by (rule rtranclp.rtrancl_into_rtrancl [OF r_into_rtranclp]; rule fs_step.insert; rule prod.collapse [symmetric])
  have ok: "keys_ok (local_doc empty_store)" by (simp add: keys_ok_def local_doc_def empty_store_def)
  have a: "local_doc two_inserts (JobRef ''a'') = Some (JobDoc ?a)" by code_simp
  have held: "holds_key ?a" "jd_UniqueKey ?a = ''u''" by code_simp+
  have "k = ''a''" if "local_doc two_inserts (JobRef k) = Some (JobDoc j)" "holds_key j" "jd_UniqueKey j = ''u''" for k j
    using firestore_key_reserved_once [OF local_fs.firestore_service_axioms ok steps that(1,2) a held(1)] that(3) held(2) by simp
  with a held show ?thesis by blast
qed

text \<open>A key that is released by the end of its job, taken by another job, and freed once more.\<close>

definition finished :: "string \<Rightarrow> local_store \<Rightarrow> local_store" where
  "finished jid s = fst (fs_jobCancel local_firestore (\<lambda>_. 8) jid s)"

definition key_freed_by_delete :: local_store where
  "key_freed_by_delete =
     (let put = (\<lambda>jid s. fst (fs_insert_one local_firestore 6 jid 0 (sample_job 0 ''u'') s));
          s1 = put ''b'' (finished ''a'' (put ''a'' empty_store));
          s2 = fst (fs_jobDelete local_firestore (\<lambda>_ s. s) ''a'' s1)
      in put ''c'' s2)"

text \<open>
  Deleting a finished job releases a key that another job holds. A job ends and its key is
  reserved by a second job; \<^verbatim>\<open>JobDelete\<close> on the first removes the key document, a third job is
  accepted, and two waiting jobs hold the key.
\<close>

theorem firestore_delete_frees_foreign_key:
  "local_doc key_freed_by_delete (JobRef ''b'') = Some (JobDoc (new_doc 6 ''b'' (sample_job 0 ''u''))) \<and>
   local_doc key_freed_by_delete (JobRef ''c'') = Some (JobDoc (new_doc 6 ''c'' (sample_job 0 ''u''))) \<and>
   holds_key (new_doc 6 ''b'' (sample_job 0 ''u'')) \<and> holds_key (new_doc 6 ''c'' (sample_job 0 ''u''))"
  by code_simp

text \<open>
  A fetch reports an attempt number that it has not stored. Between the query and the claim another
  worker claims the job and its attempt fails; the claim increments the stored number, the row that
  is returned continues from the candidate, and the outcome of the attempt is refused as stale.
\<close>

definition failed_meanwhile :: "nat \<Rightarrow> local_store \<Rightarrow> local_store" where
  "failed_meanwhile i s =
     (if i = 1 then
        fst (fs_jobSetStateIfRunning local_firestore (\<lambda>_. 8) (blank_state\<lparr>sp_ID := ''a'', sp_State := JobStateRetryable, sp_RetryAt := 8\<rparr>)
          (fst (fs_run local_firestore (claim_body local_firestore \<lparr>fp_Queue = ''q'', fp_Limit = 1, fp_WorkerID = ''other'', fp_LeaseDuration = 5\<rparr> 7 (JobRef ''a'')) no_vars s)))
      else s)"

theorem firestore_claim_of_changed_candidate_is_stale:
  "let s0 = fst (fs_insert_one local_firestore 6 ''a'' 0 (sample_job 0 []) empty_store);
       (s1, rows) = fs_jobFetchBatch local_firestore (\<lambda>_. 9) failed_meanwhile \<lparr>fp_Queue = ''q'', fp_Limit = 1, fp_WorkerID = ''w'', fp_LeaseDuration = 5\<rparr> s0
   in (case rows of Inr [row] \<Rightarrow> ID row = ''a'' \<and> AttemptNum row = 1 \<and>
         (case local_doc s1 (JobRef ''a'') of Some (JobDoc j) \<Rightarrow> jd_AttemptNum j = 2 \<and> jd_WorkerID j = ''w'' | _ \<Rightarrow> False) \<and>
         snd (fs_jobSetStateIfRunning local_firestore (\<lambda>_. 10) (blank_state\<lparr>sp_ID := ''a'', sp_State := JobStateCompleted,
           sp_ExpectedWorkerID := WorkerID row, sp_ExpectedAttempt := AttemptNum row\<rparr>) s1) = Some (stale_claim ''a'')
       | _ \<Rightarrow> False)"
  by code_simp

section \<open>Agreement with the in-memory driver\<close>

text \<open>
  The rows of the two drivers, up to the start time of the last handler, which the in-memory driver
  keeps when a claim is given back.
\<close>

definition same_row :: "JobRow \<Rightarrow> JobRow \<Rightarrow> bool" where
  "same_row r r' \<longleftrightarrow> r\<lparr>StartedAt := None\<rparr> = r'\<lparr>StartedAt := None\<rparr>"

definition fs_row :: "(fref \<Rightarrow> fdoc option) \<Rightarrow> string \<Rightarrow> JobRow option" where
  "fs_row docs k = (case docs (JobRef k) of Some (JobDoc j) \<Rightarrow> Some (docToRow j) | _ \<Rightarrow> None)"

definition agrees :: "(fref \<Rightarrow> fdoc option) \<Rightarrow> mem \<Rightarrow> bool" where
  "agrees docs d \<longleftrightarrow> (\<forall>k. rel_option same_row (fs_row docs k) (gget (jobs d) k))"

lemma agrees_job:
  assumes "agrees docs d" "docs (JobRef k) = Some (JobDoc j)"
  obtains r where "gget (jobs d) k = Some r" "same_row (docToRow j) r"
proof -
  have "rel_option same_row (fs_row docs k) (gget (jobs d) k)" using assms(1) by (simp add: agrees_def)
  with assms(2) that show thesis by (auto simp: fs_row_def option_rel_Some1)
qed

lemma agrees_put:
  assumes "agrees docs d" "same_row (docToRow j) r" "\<And>k'. k' \<noteq> k \<Longrightarrow> docs' (JobRef k') = docs (JobRef k')"
    and "docs' (JobRef k) = Some (JobDoc j)"
  shows "agrees docs' (d\<lparr>jobs := gput k r (jobs d)\<rparr>)"
  using assms unfolding agrees_def by (auto simp: fs_row_def gmap_simps)

lemma same_rowE:
  assumes "same_row x r"
  obtains t where "r = x\<lparr>StartedAt := t\<rparr>"
proof
  show "r = x\<lparr>StartedAt := StartedAt r\<rparr>" using assms unfolding same_row_def by (metis JobRow.surjective JobRow.update_convs(10))
qed

lemma same_rowI: "same_row x (x\<lparr>StartedAt := t\<rparr>)"
  by (simp add: same_row_def)

lemma outcome_row:
  assumes "now \<noteq> 0" "\<not> sp_Yield p" "terminal (sp_State p) \<or> sp_State p = JobStateRetryable \<and> sp_RetryAt p \<noteq> 0"
  shows "set_state_row (\<lambda>_. now) p ((docToRow j)\<lparr>StartedAt := t\<rparr>) = (docToRow (outcome_doc now p j))\<lparr>StartedAt := t\<rparr>"
proof (cases "sp_State p = JobStateRetryable")
  case True
  with assms show ?thesis
    by (cases "sp_Err p") (simp_all add: docToRow_def outcome_doc_def set_state_row_def Let_def opt_time_def IsZero_def jobErrorsToRow_def)
next
  case False
  with assms have "sp_State p = JobStateCompleted \<or> sp_State p = JobStateDiscarded \<or> sp_State p = JobStateCancelled"
    by (simp add: terminal_def)
  with False assms(1,2) show ?thesis
    by (cases "sp_Err p") (simp_all add: docToRow_def outcome_doc_def set_state_row_def Let_def opt_time_def IsZero_def jobErrorsToRow_def)
qed

lemma yield_row:
  "sp_Yield p \<Longrightarrow> set_state_row clk p ((docToRow j)\<lparr>StartedAt := t\<rparr>) = (docToRow (yield_doc j))\<lparr>StartedAt := t\<rparr>"
  by (simp add: docToRow_def yield_doc_def set_state_row_def opt_time_def IsZero_def)

lemma set_state_body_writes:
  assumes "reads c docs read" "set_state_body c clk p n read v = (v', Inr ws)" "commit docs ws = Some docs'"
    and "docs (JobRef (sp_ID p)) \<noteq> None"
  obtains j where "docs (JobRef (sp_ID p)) = Some (JobDoc j)" "jd_State j = JobStateRunning" "MatchesClaim p (jd_WorkerID j) (jd_AttemptNum j)"
    "docs' (JobRef (sp_ID p)) = Some (JobDoc (if sp_Yield p then yield_doc j else outcome_doc (clk n) p j))"
    "\<And>k. k \<noteq> sp_ID p \<Longrightarrow> docs' (JobRef k) = docs (JobRef k)"
proof -
  from assms(1,2,4) readsD [OF assms(1), of "JobRef (sp_ID p)"] obtain j where
    j: "docs (JobRef (sp_ID p)) = Some (JobDoc j)" "jd_State j = JobStateRunning" "MatchesClaim p (jd_WorkerID j) (jd_AttemptNum j)"
    and ws: "ws = (if sp_Yield p then [WUpdate (JobRef (sp_ID p)) (on_job yield_doc)]
      else (if sp_State p = JobStateRetryable then [] else release_key j) @ [WUpdate (JobRef (sp_ID p)) (on_job (outcome_doc (clk n) p))])"
    by (auto simp: set_state_body_def to_Inr split: sum.splits if_splits)
  have "docs' (JobRef (sp_ID p)) = Some (JobDoc (if sp_Yield p then yield_doc j else outcome_doc (clk n) p j))"
    "docs' (JobRef k) = docs (JobRef k)" if "k \<noteq> sp_ID p" for k
    using assms(3) j(1) that by (auto simp: ws on_job_def release_key_def split: if_splits)
  moreover have "docs' (JobRef (sp_ID p)) = Some (JobDoc (if sp_Yield p then yield_doc j else outcome_doc (clk n) p j))"
    using assms(3) j(1) by (auto simp: ws on_job_def release_key_def split: if_splits)
  ultimately show thesis using j that by blast
qed


text \<open>A claimed job in both stores.\<close>

definition claimed_doc :: jobDoc where
  "claimed_doc = claim_doc \<lparr>fp_Queue = ''q'', fp_Limit = 1, fp_WorkerID = ''w'', fp_LeaseDuration = 5\<rparr> 7 (new_doc 6 ''a'' (sample_job 0 ''u''))"

definition claimed_store :: local_store where
  "claimed_store = \<lparr>lo_docs = [(JobRef ''a'', JobDoc claimed_doc), (UniqRef ''u'', UniqDoc ''a'')], lo_stale = []\<rparr>"

definition claimed_mem :: mem where
  "claimed_mem = mem_New\<lparr>jobs := [(''a'', docToRow claimed_doc)]\<rparr>"

definition done_params :: JobSetStateParams where
  "done_params = blank_state\<lparr>sp_ID := ''a'', sp_State := JobStateCompleted, sp_ExpectedWorkerID := ''w'', sp_ExpectedAttempt := 1\<rparr>"


end
