(* ===== verification/Mongo.thy ===== *)
theory Mongo
  imports Pagination Rate_Limit Firestore
begin

text \<open>
  The MongoDB driver (\<^verbatim>\<open>driver/mongodb\<close>). The server and its client library are a parameter: the record
  \<open>mongo\<close> of the collections, each with the commands that the driver sends. A filter is a predicate on
  documents, an update a function on them, a sort order a comparison. Every command is one step of
  the server; between the commands of an operation others may act, and the operations that send more
  than one command take what happens in between as an argument. \<open>mg_time\<close> is the instant that the
  server stores for an instant: its dates count milliseconds.
\<close>

section \<open>Documents\<close>

record mongoError =
  me_At :: gotime
  me_Attempt :: int
  me_Message :: string
  me_Trace :: string

text \<open>A field with \<^verbatim>\<open>omitempty\<close> is missing when it is empty; a pointer that is nil is missing or null.\<close>

record mongoJob =
  mj_ID :: string
  mj_Queue :: string
  mj_Kind :: string
  mj_Args :: string
  mj_State :: JobState
  mj_Priority :: int
  mj_RunAt :: gotime
  mj_CreatedAt :: gotime
  mj_AttemptedAt :: "gotime option"
  mj_StartedAt :: "gotime option"
  mj_LeaseExpiresAt :: "gotime option"
  mj_FinalizedAt :: "gotime option"
  mj_AttemptNum :: int
  mj_MaxRetry :: int
  mj_TimeoutMs :: int
  mj_UniqueKey :: string
  mj_WorkerID :: string
  mj_Tags :: "string list"
  mj_Errors :: "mongoError list"
  mj_PipelineID :: string

record mongoQueue =
  mq_Name :: string
  mq_Paused :: bool
  mq_CreatedAt :: gotime
  mq_UpdatedAt :: gotime

record mongoLeader =
  ml_ID :: string
  ml_WorkerID :: string
  ml_ElectedAt :: gotime
  ml_ExpiresAt :: gotime

record mongoCursor =
  mc_ID :: string
  mc_At :: gotime

section \<open>Commands\<close>

text \<open>
  \<open>cl_upsert f u d\<close> updates the document that matches \<open>f\<close> or inserts \<open>d\<close>, and returns what it has
  inserted; \<open>cl_modify\<close> returns the document after the update and inserts one if it is told to.
  An inserted document gets an identifier when it has none. A result of no document is
  \<^verbatim>\<open>ErrNoDocuments\<close>.
\<close>

record ('d, 's) coll =
  cl_find_one :: "('d \<Rightarrow> bool) \<Rightarrow> 's \<Rightarrow> 'd option res"
  cl_find :: "('d \<Rightarrow> bool) \<Rightarrow> ('d \<Rightarrow> 'd \<Rightarrow> bool) \<Rightarrow> int \<Rightarrow> 's \<Rightarrow> 'd list res"
  cl_insert :: "'d \<Rightarrow> 's \<Rightarrow> 's \<times> 'd res"
  cl_upsert :: "('d \<Rightarrow> bool) \<Rightarrow> ('d \<Rightarrow> 'd) \<Rightarrow> 'd \<Rightarrow> 's \<Rightarrow> 's \<times> 'd option res"
  cl_update :: "('d \<Rightarrow> bool) \<Rightarrow> ('d \<Rightarrow> 'd) \<Rightarrow> 's \<Rightarrow> 's \<times> (int \<times> int) res"
  cl_update_many :: "('d \<Rightarrow> bool) \<Rightarrow> ('d \<Rightarrow> 'd) \<Rightarrow> 's \<Rightarrow> 's \<times> int res"
  cl_modify :: "('d \<Rightarrow> bool) \<Rightarrow> ('d \<Rightarrow> 'd \<Rightarrow> bool) \<Rightarrow> ('d \<Rightarrow> 'd) \<Rightarrow> 'd option \<Rightarrow> 's \<Rightarrow> 's \<times> 'd option res"
  cl_delete :: "('d \<Rightarrow> bool) \<Rightarrow> 's \<Rightarrow> 's \<times> int res"

record 's mongo =
  mg_jobs :: "(mongoJob, 's) coll"
  mg_queues :: "(mongoQueue, 's) coll"
  mg_leaders :: "(mongoLeader, 's) coll"
  mg_cursors :: "(mongoCursor, 's) coll"
  mg_group_states :: "string \<Rightarrow> 's \<Rightarrow> (JobState \<times> int) list res"
  mg_duplicate :: "goerr \<Rightarrow> bool"
  mg_from_hex :: "string \<Rightarrow> string res"
  mg_time :: "gotime \<Rightarrow> gotime"
  mg_no_documents :: goerr

definition invalid_id :: "string \<Rightarrow> goerr \<Rightarrow> goerr" where
  "invalid_id jid e = wrap_prefix (''invalid job id '' @ go_quote jid) e"

section \<open>Rows\<close>

definition mongo_docToRow :: "mongoJob \<Rightarrow> JobRow" where
  "mongo_docToRow j = \<lparr>ID = mj_ID j, Queue = mj_Queue j, Kind = mj_Kind j,
     Args = (if mj_Args j = [] then ''{}'' else mj_Args j), State = mj_State j, Priority = mj_Priority j,
     RunAt = mj_RunAt j, CreatedAt = mj_CreatedAt j, AttemptedAt = mj_AttemptedAt j, StartedAt = mj_StartedAt j,
     LeaseExpiresAt = mj_LeaseExpiresAt j, FinalizedAt = mj_FinalizedAt j, AttemptNum = mj_AttemptNum j,
     MaxRetry = mj_MaxRetry j,
     Timeout = (if mj_TimeoutMs j > 0 then wrap64 (mj_TimeoutMs j * Millisecond) else 0), Tags = mj_Tags j,
     Errors = map (\<lambda>e. \<lparr>ae_At = me_At e, ae_Attempt = me_Attempt e, ae_Error = me_Message e, ae_Trace = me_Trace e\<rparr>) (mj_Errors j),
     UniqueKey = mj_UniqueKey j, WorkerID = mj_WorkerID j, PipelineID = mj_PipelineID j\<rparr>"

section \<open>Insertion\<close>

definition mongo_new_doc :: "gotime \<Rightarrow> JobInsertParams \<Rightarrow> mongoJob" where
  "mongo_new_doc now p =
     (let runAt = (if IsZero (ip_RunAt p) then now else ip_RunAt p)
      in \<lparr>mj_ID = [], mj_Queue = ip_Queue p, mj_Kind = ip_Kind p, mj_Args = ip_Args p,
          mj_State = (if now < runAt then JobStateScheduled else JobStateAvailable), mj_Priority = ip_Priority p,
          mj_RunAt = runAt, mj_CreatedAt = now, mj_AttemptedAt = None, mj_StartedAt = None, mj_LeaseExpiresAt = None,
          mj_FinalizedAt = None, mj_AttemptNum = 0, mj_MaxRetry = ip_MaxRetry p, mj_TimeoutMs = Milliseconds (ip_Timeout p),
          mj_UniqueKey = ip_UniqueKey p, mj_WorkerID = [], mj_Tags = ip_Tags p, mj_Errors = [], mj_PipelineID = ip_PipelineID p\<rparr>)"

text \<open>The instants of a new document as the server stores them.\<close>

definition stored_doc :: "'s mongo \<Rightarrow> mongoJob \<Rightarrow> mongoJob" where
  "stored_doc c j = j\<lparr>mj_RunAt := mg_time c (mj_RunAt j), mj_CreatedAt := mg_time c (mj_CreatedAt j)\<rparr>"

definition skipped :: JobInsertResult where
  "skipped = \<lparr>ir_Job = None, ir_UniqueSkip = True\<rparr>"

definition mongo_insert_one :: "'s mongo \<Rightarrow> gotime \<Rightarrow> nat \<Rightarrow> JobInsertParams \<Rightarrow> 's \<Rightarrow> 's \<times> JobInsertResult res" where
  "mongo_insert_one c now i p s =
     (let doc = mongo_new_doc now p;
          row = (\<lambda>oid. \<lparr>ir_Job = Some (mongo_docToRow (doc\<lparr>mj_ID := oid\<rparr>)), ir_UniqueSkip = False\<rparr>)
      in if ip_UniqueKey p \<noteq> [] then
           (case cl_upsert (mg_jobs c) (\<lambda>j. mj_UniqueKey j = ip_UniqueKey p) id (stored_doc c doc) s of
              (s1, Inl e) \<Rightarrow> if mg_duplicate c e then (s1, Inr skipped) else (s1, Inl (insert_error i e))
            | (s1, Inr None) \<Rightarrow> (s1, Inr skipped)
            | (s1, Inr (Some d)) \<Rightarrow> (s1, Inr (row (mj_ID d))))
         else
           (case cl_insert (mg_jobs c) (stored_doc c doc) s of
              (s1, Inl e) \<Rightarrow> (s1, Inl (insert_error i e))
            | (s1, Inr d) \<Rightarrow> (s1, Inr (row (mj_ID d)))))"

fun mongo_insert_loop :: "'s mongo \<Rightarrow> gotime \<Rightarrow> nat \<Rightarrow> JobInsertParams list \<Rightarrow> 's \<Rightarrow> 's \<times> JobInsertResult list res" where
  "mongo_insert_loop c now i [] s = (s, Inr [])"
| "mongo_insert_loop c now i (p # ps) s =
     (case mongo_insert_one c now i p s of
        (s1, Inl e) \<Rightarrow> (s1, Inl e)
      | (s1, Inr r) \<Rightarrow>
          (case mongo_insert_loop c now (Suc i) ps s1 of
             (s2, Inl e) \<Rightarrow> (s2, Inl e)
           | (s2, Inr rs) \<Rightarrow> (s2, Inr (r # rs))))"

definition mongo_jobInsertMany :: "'s mongo \<Rightarrow> gotime \<Rightarrow> JobInsertParams list \<Rightarrow> 's \<Rightarrow> 's \<times> JobInsertResult list res" where
  "mongo_jobInsertMany c now ps s = mongo_insert_loop c now 0 ps s"

section \<open>Lookup and listing\<close>

definition mongo_jobGetByID :: "'s mongo \<Rightarrow> string \<Rightarrow> 's \<Rightarrow> JobRow res" where
  "mongo_jobGetByID c jid s =
     (case mg_from_hex c jid of
        Inl e \<Rightarrow> Inl (invalid_id jid e)
      | Inr oid \<Rightarrow>
          (case cl_find_one (mg_jobs c) (\<lambda>j. mj_ID j = oid) s of
             Inl e \<Rightarrow> Inl e
           | Inr None \<Rightarrow> Inl (not_found_job jid)
           | Inr (Some j) \<Rightarrow> Inr (mongo_docToRow j)))"

definition mongo_list_filter :: "'s mongo \<Rightarrow> JobListParams \<Rightarrow> (gotime \<times> string) option \<Rightarrow> mongoJob \<Rightarrow> bool" where
  "mongo_list_filter c p cursor j \<longleftrightarrow>
     (jl_Queue p = [] \<or> mj_Queue j = jl_Queue p) \<and> (jl_State p = NoState \<or> mj_State j = jl_State p) \<and>
     (jl_Kind p = [] \<or> mj_Kind j = jl_Kind p) \<and>
     (case cursor of
        None \<Rightarrow> True
      | Some (cursorAt, oid) \<Rightarrow> mj_CreatedAt j < mg_time c cursorAt \<or> mj_CreatedAt j = mg_time c cursorAt \<and> mj_ID j < oid)"

definition mongo_list_less :: "mongoJob \<Rightarrow> mongoJob \<Rightarrow> bool" where
  "mongo_list_less a b = (if mj_CreatedAt a \<noteq> mj_CreatedAt b then mj_CreatedAt a > mj_CreatedAt b else mj_ID a > mj_ID b)"

definition clamp_limit :: "int \<Rightarrow> int" where
  "clamp_limit n = (if n \<le> 0 \<or> n > 1000 then 100 else n)"

definition list_cursor :: "'s mongo \<Rightarrow> string \<Rightarrow> (gotime \<times> string) option res" where
  "list_cursor c cursor =
     (if cursor = [] then Inr None
      else (case DecodeJobCursor cursor of
          Inl e \<Rightarrow> Inl e
        | Inr (cursorAt, jid) \<Rightarrow>
            (case mg_from_hex c jid of
               Inl e \<Rightarrow> Inl (wrap_sentinel ErrInvalidCursor ''invalid mongodb job id'')
             | Inr oid \<Rightarrow> Inr (Some (cursorAt, oid)))))"

definition mongo_jobList :: "'s mongo \<Rightarrow> JobListParams \<Rightarrow> 's \<Rightarrow> JobRow list res" where
  "mongo_jobList c p s =
     (case list_cursor c (jl_Cursor p) of
        Inl e \<Rightarrow> Inl e
      | Inr cursor \<Rightarrow>
          (case cl_find (mg_jobs c) (mongo_list_filter c p cursor) mongo_list_less (clamp_limit (jl_Limit p)) s of
             Inl e \<Rightarrow> Inl e
           | Inr docs \<Rightarrow> Inr (map mongo_docToRow docs)))"

definition mongo_queueStats :: "'s mongo \<Rightarrow> string \<Rightarrow> 's \<Rightarrow> QueueStats res" where
  "mongo_queueStats c queue s =
     (case mg_group_states c queue s of
        Inl e \<Rightarrow> Inl e
      | Inr groups \<Rightarrow>
          Inr (fold (\<lambda>(st, n) stats. stats\<lparr>qs_States := gput st n (qs_States stats), qs_Total := qs_Total stats + n\<rparr>)
            groups \<lparr>qs_Queue = queue, qs_States = [], qs_Total = 0\<rparr>))"

section \<open>Claiming\<close>

definition mongo_claimable :: "'s mongo \<Rightarrow> string \<Rightarrow> gotime \<Rightarrow> mongoJob \<Rightarrow> bool" where
  "mongo_claimable c queue now j \<longleftrightarrow> mj_Queue j = queue \<and> mj_State j \<in> {JobStateAvailable, JobStateScheduled} \<and> mj_RunAt j \<le> mg_time c now"

definition mongo_claim :: "'s mongo \<Rightarrow> FetchParams \<Rightarrow> gotime \<Rightarrow> mongoJob \<Rightarrow> mongoJob" where
  "mongo_claim c p now j = j\<lparr>mj_State := JobStateRunning, mj_AttemptedAt := Some (mg_time c now), mj_WorkerID := fp_WorkerID p,
     mj_StartedAt := None,
     mj_LeaseExpiresAt := (if fp_LeaseDuration p > 0 then Some (mg_time c (now + fp_LeaseDuration p)) else None),
     mj_AttemptNum := mj_AttemptNum j + 1\<rparr>"

definition mongo_fetch_less :: "mongoJob \<Rightarrow> mongoJob \<Rightarrow> bool" where
  "mongo_fetch_less a b =
     (if mj_Priority a \<noteq> mj_Priority b then mj_Priority a > mj_Priority b
      else if mj_RunAt a \<noteq> mj_RunAt b then mj_RunAt a < mj_RunAt b
      else if mj_CreatedAt a \<noteq> mj_CreatedAt b then mj_CreatedAt a < mj_CreatedAt b
      else mj_ID a < mj_ID b)"

text \<open>
  The loop: \<open>others\<close> is what happens before each command. An error returns the rows claimed so far
  along with it.
\<close>

fun mongo_fetch_loop :: "'s mongo \<Rightarrow> (nat \<Rightarrow> 's \<Rightarrow> 's) \<Rightarrow> FetchParams \<Rightarrow> gotime \<Rightarrow> nat \<Rightarrow> 's \<Rightarrow> 's \<times> JobRow list \<times> goerr option" where
  "mongo_fetch_loop c others p now 0 s = (s, [], None)"
| "mongo_fetch_loop c others p now (Suc n) s =
     (case cl_modify (mg_jobs c) (mongo_claimable c (fp_Queue p) now) mongo_fetch_less (mongo_claim c p now) None (others (Suc n) s) of
        (s1, Inl e) \<Rightarrow> (s1, [], Some e)
      | (s1, Inr None) \<Rightarrow> (s1, [], None)
      | (s1, Inr (Some j)) \<Rightarrow>
          (let (s2, rows, err) = mongo_fetch_loop c others p now n s1 in (s2, mongo_docToRow j # rows, err)))"

definition mongo_jobFetchBatch :: "'s mongo \<Rightarrow> (nat \<Rightarrow> 's \<Rightarrow> 's) \<Rightarrow> gotime \<Rightarrow> FetchParams \<Rightarrow> 's \<Rightarrow> 's \<times> JobRow list \<times> goerr option" where
  "mongo_jobFetchBatch c others now p s =
     (case cl_find_one (mg_queues c) (\<lambda>q. mq_Name q = fp_Queue p) s of
        Inr (Some q) \<Rightarrow> if mq_Paused q then (s, [], None) else mongo_fetch_loop c others p now (nat (fp_Limit p)) s
      | _ \<Rightarrow> mongo_fetch_loop c others p now (nat (fp_Limit p)) s)"

section \<open>Operations on a claim\<close>

definition mongo_stuck :: "'s mongo \<Rightarrow> JobRescueParams \<Rightarrow> mongoJob \<Rightarrow> bool" where
  "mongo_stuck c p j \<longleftrightarrow> mj_Queue j = rp_Queue p \<and> mj_State j = JobStateRunning \<and>
     ((case mj_LeaseExpiresAt j of None \<Rightarrow> False | Some e \<Rightarrow> e \<le> mg_time c (rp_At p)) \<or>
      mj_LeaseExpiresAt j = None \<and> (case mj_AttemptedAt j of None \<Rightarrow> False | Some a \<Rightarrow> a \<le> mg_time c (rp_Before p)))"

definition mongo_release :: "mongoJob \<Rightarrow> mongoJob" where
  "mongo_release j = j\<lparr>mj_State := JobStateAvailable, mj_AttemptedAt := None, mj_WorkerID := [], mj_LeaseExpiresAt := None\<rparr>"

definition mongo_jobRescueStuck :: "'s mongo \<Rightarrow> JobRescueParams \<Rightarrow> 's \<Rightarrow> 's \<times> int res" where
  "mongo_jobRescueStuck c p s = cl_update_many (mg_jobs c) (mongo_stuck c p) mongo_release s"

definition mongo_claimed :: "string \<Rightarrow> string \<Rightarrow> int \<Rightarrow> mongoJob \<Rightarrow> bool" where
  "mongo_claimed oid worker attempt j \<longleftrightarrow> mj_ID j = oid \<and> mj_State j = JobStateRunning \<and> mj_WorkerID j = worker \<and> mj_AttemptNum j = attempt"

definition mongo_jobHeartbeat :: "'s mongo \<Rightarrow> JobHeartbeatParams \<Rightarrow> 's \<Rightarrow> 's \<times> bool res" where
  "mongo_jobHeartbeat c p s =
     (case mg_from_hex c (hp_ID p) of
        Inl e \<Rightarrow> (s, Inl (invalid_id (hp_ID p) e))
      | Inr oid \<Rightarrow>
          let until = (if IsZero (hp_LeaseExpiresAt p) then hp_At p else hp_LeaseExpiresAt p)
          in (case cl_update (mg_jobs c) (mongo_claimed oid (hp_WorkerID p) (hp_Attempt p))
                (\<lambda>j. j\<lparr>mj_LeaseExpiresAt := Some (mg_time c until)\<rparr>) s of
                (s1, Inl e) \<Rightarrow> (s1, Inl e)
              | (s1, Inr (matched, modified)) \<Rightarrow> (s1, Inr (modified = 1))))"

definition mongo_jobMarkStarted :: "'s mongo \<Rightarrow> JobMarkStartedParams \<Rightarrow> 's \<Rightarrow> 's \<times> bool res" where
  "mongo_jobMarkStarted c p s =
     (case mg_from_hex c (ms_ID p) of
        Inl e \<Rightarrow> (s, Inl (invalid_id (ms_ID p) e))
      | Inr oid \<Rightarrow>
          (case cl_update (mg_jobs c) (mongo_claimed oid (ms_WorkerID p) (ms_Attempt p))
             (\<lambda>j. j\<lparr>mj_StartedAt := Some (mg_time c (ms_At p))\<rparr>) s of
             (s1, Inl e) \<Rightarrow> (s1, Inl e)
           | (s1, Inr (matched, modified)) \<Rightarrow> (s1, Inr (matched = 1))))"

definition fenced_filter :: "string \<Rightarrow> JobSetStateParams \<Rightarrow> mongoJob \<Rightarrow> bool" where
  "fenced_filter oid p j \<longleftrightarrow> mj_ID j = oid \<and> mj_State j = JobStateRunning \<and>
     (sp_ExpectedWorkerID p = [] \<or> mj_WorkerID j = sp_ExpectedWorkerID p) \<and>
     (sp_ExpectedAttempt p \<le> 0 \<or> mj_AttemptNum j = sp_ExpectedAttempt p)"

definition mongo_yield :: "mongoJob \<Rightarrow> mongoJob" where
  "mongo_yield j = j\<lparr>mj_State := JobStateAvailable, mj_AttemptedAt := None, mj_AttemptNum := mj_AttemptNum j - 1, mj_WorkerID := [],
     mj_LeaseExpiresAt := None\<rparr>"

text \<open>The update of an outcome; \<open>free\<close> tells whether the unique key is released.\<close>

definition mongo_outcome :: "'s mongo \<Rightarrow> gotime \<Rightarrow> JobSetStateParams \<Rightarrow> bool \<Rightarrow> mongoJob \<Rightarrow> mongoJob" where
  "mongo_outcome c now p free j =
     (let j1 = j\<lparr>mj_State := sp_State p, mj_WorkerID := [], mj_LeaseExpiresAt := None\<rparr>;
          j2 = (if terminal (sp_State p) then j1\<lparr>mj_FinalizedAt := Some (mg_time c now)\<rparr> else j1);
          j3 = (if free then j2\<lparr>mj_UniqueKey := []\<rparr> else j2);
          j4 = (if sp_State p = JobStateRetryable
                then (if IsZero (sp_RetryAt p) then j3 else j3\<lparr>mj_RunAt := mg_time c (sp_RetryAt p)\<rparr>)\<lparr>mj_State := JobStateAvailable\<rparr>
                else j3)
      in case sp_Err p of
           None \<Rightarrow> j4
         | Some e \<Rightarrow> j4\<lparr>mj_Errors := mj_Errors j4 @ [\<lparr>me_At = mg_time c now, me_Attempt = sp_Attempt p, me_Message = e,
             me_Trace = (case sp_Trace p of None \<Rightarrow> [] | Some t \<Rightarrow> t)\<rparr>]\<rparr>)"

definition update_fenced :: "'s mongo \<Rightarrow> string \<Rightarrow> JobSetStateParams \<Rightarrow> (mongoJob \<Rightarrow> mongoJob) \<Rightarrow> 's \<Rightarrow> 's \<times> goerr option" where
  "update_fenced c oid p f s =
     (case cl_update (mg_jobs c) (fenced_filter oid p) f s of
        (s1, Inl e) \<Rightarrow> (s1, Some e)
      | (s1, Inr (matched, modified)) \<Rightarrow> (s1, if modified = 0 then Some (stale_claim (sp_ID p)) else None))"

text \<open>\<open>others\<close> happens between the lookup of the unique key and the update.\<close>

definition mongo_jobSetStateIfRunning :: "'s mongo \<Rightarrow> ('s \<Rightarrow> 's) \<Rightarrow> gotime \<Rightarrow> JobSetStateParams \<Rightarrow> 's \<Rightarrow> 's \<times> goerr option" where
  "mongo_jobSetStateIfRunning c others now p s =
     (case mg_from_hex c (sp_ID p) of
        Inl e \<Rightarrow> (s, Some (invalid_id (sp_ID p) e))
      | Inr oid \<Rightarrow>
          if sp_Yield p then update_fenced c oid p mongo_yield s
          else if terminal (sp_State p) then
            (case cl_find_one (mg_jobs c) (fenced_filter oid p) s of
               Inl e \<Rightarrow> (s, Some e)
             | Inr None \<Rightarrow> (s, Some (stale_claim (sp_ID p)))
             | Inr (Some j) \<Rightarrow> update_fenced c oid p (mongo_outcome c now p (\<not> IsPermanentUniqueKey (mj_UniqueKey j))) (others s))
          else update_fenced c oid p (mongo_outcome c now p False) s)"

section \<open>Administration\<close>

definition cancellable :: "string \<Rightarrow> mongoJob \<Rightarrow> bool" where
  "cancellable oid j \<longleftrightarrow> mj_ID j = oid \<and> mj_State j \<in> {JobStateAvailable, JobStateScheduled}"

definition mongo_cancel :: "'s mongo \<Rightarrow> gotime \<Rightarrow> bool \<Rightarrow> mongoJob \<Rightarrow> mongoJob" where
  "mongo_cancel c now free j =
     (let j1 = j\<lparr>mj_State := JobStateCancelled, mj_FinalizedAt := Some (mg_time c now)\<rparr>
      in if free then j1\<lparr>mj_UniqueKey := []\<rparr> else j1)"

definition mongo_jobCancel :: "'s mongo \<Rightarrow> ('s \<Rightarrow> 's) \<Rightarrow> gotime \<Rightarrow> string \<Rightarrow> 's \<Rightarrow> 's \<times> goerr option" where
  "mongo_jobCancel c others now jid s =
     (case mg_from_hex c jid of
        Inl e \<Rightarrow> (s, Some (invalid_id jid e))
      | Inr oid \<Rightarrow>
          (case cl_find_one (mg_jobs c) (cancellable oid) s of
             Inl e \<Rightarrow> (s, Some e)
           | Inr None \<Rightarrow>
               (case mongo_jobGetByID c jid (others s) of
                  Inl e \<Rightarrow> (others s, Some e)
                | Inr _ \<Rightarrow> (others s, Some (wrap_sentinel ErrConflict (''job '' @ go_quote jid @ '' cannot be cancelled in its current state''))))
           | Inr (Some j) \<Rightarrow>
               (case cl_update (mg_jobs c) (cancellable oid) (mongo_cancel c now (\<not> IsPermanentUniqueKey (mj_UniqueKey j))) (others s) of
                  (s1, Inl e) \<Rightarrow> (s1, Some e)
                | (s1, Inr _) \<Rightarrow> (s1, None))))"

definition mongo_jobDelete :: "'s mongo \<Rightarrow> string \<Rightarrow> 's \<Rightarrow> 's \<times> goerr option" where
  "mongo_jobDelete c jid s =
     (case mg_from_hex c jid of
        Inl e \<Rightarrow> (s, Some (invalid_id jid e))
      | Inr oid \<Rightarrow>
          (case cl_delete (mg_jobs c) (\<lambda>j. mj_ID j = oid) s of
             (s1, Inl e) \<Rightarrow> (s1, Some e)
           | (s1, Inr n) \<Rightarrow> (s1, if n = 0 then Some (not_found_job jid) else None)))"

definition mongo_jobReschedule :: "'s mongo \<Rightarrow> RescheduleParams \<Rightarrow> 's \<Rightarrow> 's \<times> goerr option" where
  "mongo_jobReschedule c p s =
     (case mg_from_hex c (rs_ID p) of
        Inl e \<Rightarrow> (s, Some (invalid_id (rs_ID p) e))
      | Inr oid \<Rightarrow>
          (case cl_update (mg_jobs c) (\<lambda>j. mj_ID j = oid) (\<lambda>j. j\<lparr>mj_RunAt := mg_time c (rs_RunAt p), mj_State := JobStateScheduled\<rparr>) s of
             (s1, Inl e) \<Rightarrow> (s1, Some e)
           | (s1, Inr (matched, modified)) \<Rightarrow> (s1, if matched = 0 then Some (not_found_job (rs_ID p)) else None)))"

definition mongo_queue_row :: "mongoQueue \<Rightarrow> QueueRow" where
  "mongo_queue_row q = \<lparr>qr_Name = mq_Name q, qr_Paused = mq_Paused q, qr_CreatedAt = mq_CreatedAt q, qr_UpdatedAt = mq_UpdatedAt q\<rparr>"

definition mongo_queueGet :: "'s mongo \<Rightarrow> gotime \<Rightarrow> string \<Rightarrow> 's \<Rightarrow> 's \<times> QueueRow res" where
  "mongo_queueGet c now name s =
     (case cl_modify (mg_queues c) (\<lambda>q. mq_Name q = name) (\<lambda>_ _. False) id
        (Some \<lparr>mq_Name = name, mq_Paused = False, mq_CreatedAt = mg_time c now, mq_UpdatedAt = mg_time c now\<rparr>) s of
        (s1, Inl e) \<Rightarrow> (s1, Inl e)
      | (s1, Inr None) \<Rightarrow> (s1, Inl (mg_no_documents c))
      | (s1, Inr (Some q)) \<Rightarrow> (s1, Inr (mongo_queue_row q)))"

text \<open>An upsert without \<^verbatim>\<open>$setOnInsert\<close>: a queue that is created here has no creation time.\<close>

definition mongo_queueSetPaused :: "'s mongo \<Rightarrow> gotime \<Rightarrow> string \<Rightarrow> bool \<Rightarrow> 's \<Rightarrow> 's \<times> goerr option" where
  "mongo_queueSetPaused c now name paused s =
     (case cl_upsert (mg_queues c) (\<lambda>q. mq_Name q = name) (\<lambda>q. q\<lparr>mq_Paused := paused, mq_UpdatedAt := mg_time c now\<rparr>)
        \<lparr>mq_Name = name, mq_Paused = paused, mq_CreatedAt = 0, mq_UpdatedAt = mg_time c now\<rparr> s of
        (s1, Inl e) \<Rightarrow> (s1, Some e)
      | (s1, Inr _) \<Rightarrow> (s1, None))"

definition mongo_queueList :: "'s mongo \<Rightarrow> QueueListParams \<Rightarrow> 's \<Rightarrow> QueueRow list res" where
  "mongo_queueList c p s =
     (case (if ql_Cursor p = [] then Inr None else (case DecodeQueueCursor (ql_Cursor p) of Inl e \<Rightarrow> Inl e | Inr n \<Rightarrow> Inr (Some n))) of
        Inl e \<Rightarrow> Inl e
      | Inr cursor \<Rightarrow>
          (case cl_find (mg_queues c) (\<lambda>q. case cursor of None \<Rightarrow> True | Some n \<Rightarrow> n < mq_Name q) (\<lambda>a b. mq_Name a < mq_Name b)
             (clamp_limit (ql_Limit p)) s of
             Inl e \<Rightarrow> Inl e
           | Inr qs \<Rightarrow> Inr (map mongo_queue_row qs)))"

section \<open>Coordination\<close>

text \<open>The two commands of an election: take over a lease that is expired or our own, or create it.\<close>

definition elect_update :: "'s mongo \<Rightarrow> gotime \<Rightarrow> LeaderElectParams \<Rightarrow> 's \<Rightarrow> 's \<times> bool res" where
  "elect_update c now p s =
     (case cl_update (mg_leaders c) (\<lambda>l. ml_ID l = le_Name p \<and> (ml_ExpiresAt l \<le> mg_time c now \<or> ml_WorkerID l = le_WorkerID p))
        (\<lambda>l. l\<lparr>ml_WorkerID := le_WorkerID p, ml_ElectedAt := mg_time c now, ml_ExpiresAt := mg_time c (now + le_TTL p)\<rparr>) s of
        (s1, Inl e) \<Rightarrow> (s1, Inl e)
      | (s1, Inr (matched, modified)) \<Rightarrow> (s1, Inr (matched > 0)))"

definition elect_insert :: "'s mongo \<Rightarrow> gotime \<Rightarrow> LeaderElectParams \<Rightarrow> 's \<Rightarrow> 's \<times> bool res" where
  "elect_insert c now p s =
     (case cl_insert (mg_leaders c) \<lparr>ml_ID = le_Name p, ml_WorkerID = le_WorkerID p, ml_ElectedAt = mg_time c now,
        ml_ExpiresAt = mg_time c (now + le_TTL p)\<rparr> s of
        (s1, Inl e) \<Rightarrow> (s1, if mg_duplicate c e then Inr False else Inl e)
      | (s1, Inr _) \<Rightarrow> (s1, Inr True))"

definition mongo_leaderAttemptElect :: "'s mongo \<Rightarrow> ('s \<Rightarrow> 's) \<Rightarrow> gotime \<Rightarrow> LeaderElectParams \<Rightarrow> 's \<Rightarrow> 's \<times> bool res" where
  "mongo_leaderAttemptElect c others now p s =
     (case elect_update c now p s of
        (s1, Inl e) \<Rightarrow> (s1, Inl e)
      | (s1, Inr True) \<Rightarrow> (s1, Inr True)
      | (s1, Inr False) \<Rightarrow> elect_insert c now p (others s1))"

definition mongo_leaderResign :: "'s mongo \<Rightarrow> LeaderResignParams \<Rightarrow> 's \<Rightarrow> 's \<times> goerr option" where
  "mongo_leaderResign c p s =
     (case cl_delete (mg_leaders c) (\<lambda>l. ml_ID l = lr_Name p \<and> ml_WorkerID l = lr_WorkerID p) s of
        (s1, Inl e) \<Rightarrow> (s1, Some e)
      | (s1, Inr _) \<Rightarrow> (s1, None))"

definition mongo_scheduleCursorGetOrCreate :: "'s mongo \<Rightarrow> ('s \<Rightarrow> 's) \<Rightarrow> ScheduleCursorCreateParams \<Rightarrow> 's \<Rightarrow> 's \<times> ScheduleCursorResult res" where
  "mongo_scheduleCursorGetOrCreate c others p s =
     (let read = (\<lambda>created s1.
        case cl_find_one (mg_cursors c) (\<lambda>d. mc_ID d = cc_ID p) (others s1) of
          Inl e \<Rightarrow> (others s1, Inl e)
        | Inr None \<Rightarrow> (others s1, Inl (mg_no_documents c))
        | Inr (Some d) \<Rightarrow> (others s1, Inr \<lparr>cr_At = mc_At d, cr_Created = created\<rparr>))
      in case cl_insert (mg_cursors c) \<lparr>mc_ID = cc_ID p, mc_At = mg_time c (cc_InitialAt p)\<rparr> s of
           (s1, Inl e) \<Rightarrow> if mg_duplicate c e then read False s1 else (s1, Inl e)
         | (s1, Inr _) \<Rightarrow> read True s1)"

definition mongo_scheduleCursorAdvance :: "'s mongo \<Rightarrow> ScheduleCursorAdvanceParams \<Rightarrow> 's \<Rightarrow> 's \<times> bool res" where
  "mongo_scheduleCursorAdvance c p s =
     (case cl_update (mg_cursors c) (\<lambda>d. mc_ID d = ca_ID p \<and> mc_At d = mg_time c (ca_Expected p))
        (\<lambda>d. d\<lparr>mc_At := mg_time c (ca_Next p)\<rparr>) s of
        (s1, Inl e) \<Rightarrow> (s1, Inl e)
      | (s1, Inr (matched, modified)) \<Rightarrow> (s1, Inr (modified = 1)))"

definition mongo_Capabilities :: Capabilities where
  "mongo_Capabilities = \<lparr>NativeTx = True, ListenNotify = False, ChangeStreams = True,
     SkipLocked = False, UniqueJobs = True, AdvisoryLocks = False, LinearizableLeases = True,
     LinearizableCAS = True, LifecycleTimestamps = True, BoundedFetch = True, StrictFetchOrdering = True\<rparr>"

end
