(* ===== verification/Lease_Commands.thy ===== *)
theory Lease_Commands
  imports Store_Interfaces
begin

text \<open>
  Leases in databases whose elections are single commands, some of which take two: the update of a lease that has run
  out or is one's own, and the insertion of a new one. Every command carries the clock reading of its
  call, which may be older than the command; those of one call need not follow each other, and a
  command may fail after it has acted. The database stores instants with its own resolution. Exclusion
  is proved once for all of them.
\<close>

section \<open>Histories of commands\<close>

type_synonym 's elect_command = "gotime \<Rightarrow> LeaderElectParams \<Rightarrow> 's \<Rightarrow> 's \<times> bool res"
type_synonym 's resign_command = "LeaderResignParams \<Rightarrow> 's \<Rightarrow> 's \<times> goerr option"

text \<open>\<open>CommandElse\<close> is anything else that happens.\<close>

datatype 's command_event = TakeLease gotime string duration | CreateLease gotime string duration | DropLease string | CommandElse "'s \<Rightarrow> 's"

fun command_time :: "'s command_event \<Rightarrow> gotime list" where
  "command_time (TakeLease t w ttl) = [t]"
| "command_time (CreateLease t w ttl) = [t]"
| "command_time (DropLease w) = []"
| "command_time (CommandElse f) = []"

text \<open>
  The ghost state maps a worker to the end of the term of its last successful election. A worker whose election
  fails with an error gives up, as one that resigns does.
\<close>

definition after_elect :: "gotime \<Rightarrow> string \<Rightarrow> duration \<Rightarrow> (string \<Rightarrow> gotime option) \<Rightarrow> 's \<times> bool res \<Rightarrow> 's \<times> (string \<Rightarrow> gotime option)" where
  "after_elect t w ttl b r =
     (fst r, case snd r of Inl e \<Rightarrow> b(w := None) | Inr elected \<Rightarrow> if elected then b(w \<mapsto> t + ttl) else b)"

fun command_step :: "'s elect_command \<Rightarrow> 's elect_command \<Rightarrow> 's resign_command \<Rightarrow> string \<Rightarrow> 's command_event \<Rightarrow>
    's \<times> (string \<Rightarrow> gotime option) \<Rightarrow> 's \<times> (string \<Rightarrow> gotime option)" where
  "command_step take_it create resign name (TakeLease t w ttl) (s, b) =
     after_elect t w ttl b (take_it t \<lparr>le_Name = name, le_WorkerID = w, le_TTL = ttl\<rparr> s)"
| "command_step take_it create resign name (CreateLease t w ttl) (s, b) =
     after_elect t w ttl b (create t \<lparr>le_Name = name, le_WorkerID = w, le_TTL = ttl\<rparr> s)"
| "command_step take_it create resign name (DropLease w) (s, b) = (fst (resign \<lparr>lr_Name = name, lr_WorkerID = w\<rparr> s), b(w := None))"
| "command_step take_it create resign name (CommandElse f) (s, b) = (f s, b)"

definition command_run :: "'s elect_command \<Rightarrow> 's elect_command \<Rightarrow> 's resign_command \<Rightarrow> string \<Rightarrow> 's command_event list \<Rightarrow> 's \<Rightarrow>
    's \<times> (string \<Rightarrow> gotime option)" where
  "command_run take_it create resign name evs s = fold (command_step take_it create resign name) evs (s, \<lambda>_. None)"

section \<open>The laws and exclusion\<close>

text \<open>
  A command that takes a lease finds it free, expired or its own, and says so, fails, or has created it; one that does
  not leaves it. A resignation removes at most the own lease.
\<close>

definition takes_lease :: "(gotime \<Rightarrow> gotime) \<Rightarrow> gotime \<Rightarrow> string \<Rightarrow> duration \<Rightarrow> (string \<times> gotime) option \<Rightarrow> (string \<times> gotime) option \<Rightarrow> bool res \<Rightarrow> bool" where
  "takes_lease stored t w ttl old new r \<longleftrightarrow>
     new = old \<and> r \<noteq> Inr True \<or>
     (\<forall>w' e. old = Some (w', e) \<longrightarrow> e \<le> stored t \<or> w' = w) \<and> new = Some (w, stored (t + ttl)) \<and> (r = Inr False \<longrightarrow> old = None)"

text \<open>What else may happen to a lease: nothing, or its removal once it has run out.\<close>

definition leaves_lease :: "('s \<Rightarrow> (string \<times> gotime) option) \<Rightarrow> gotime \<Rightarrow> ('s \<Rightarrow> 's) \<Rightarrow> bool" where
  "leaves_lease lease now f \<longleftrightarrow> (\<forall>s. lease (f s) = lease s \<or> lease (f s) = None \<and> (\<exists>w e. lease s = Some (w, e) \<and> e \<le> now))"

locale lease_commands =
  fixes take_it :: "'s elect_command" and create :: "'s elect_command" and resign :: "'s resign_command"
    and stored :: "gotime \<Rightarrow> gotime" and lease :: "string \<Rightarrow> 's \<Rightarrow> (string \<times> gotime) option"
  assumes take_law: "take_it t \<lparr>le_Name = name, le_WorkerID = w, le_TTL = ttl\<rparr> s = (s', r) \<Longrightarrow>
      takes_lease stored t w ttl (lease name s) (lease name s') r"
    and create_law: "create t \<lparr>le_Name = name, le_WorkerID = w, le_TTL = ttl\<rparr> s = (s', r) \<Longrightarrow>
      takes_lease stored t w ttl (lease name s) (lease name s') r"
    and resign_law: "resign \<lparr>lr_Name = name, lr_WorkerID = w\<rparr> s = (s', err) \<Longrightarrow>
      lease name s' = lease name s \<or> lease name s' = None \<and> (\<exists>e. lease name s = Some (w, e))"
    and stored_mono: "t \<le> t' \<Longrightarrow> stored t \<le> stored t'"
begin

text \<open>An election whose term has not run out in the database is the stored one.\<close>

definition backed :: "string \<Rightarrow> gotime \<Rightarrow> 's \<times> (string \<Rightarrow> gotime option) \<Rightarrow> bool" where
  "backed name now sb \<longleftrightarrow> (\<forall>w e. snd sb w = Some e \<longrightarrow> stored now < stored e \<longrightarrow> lease name (fst sb) = Some (w, stored e))"

lemma backed_elect:
  assumes "backed name now (s, b)" "t \<le> now" "takes_lease stored t w ttl (lease name s) (lease name (fst r)) (snd r)"
  shows "backed name now (after_elect t w ttl b r)"
  using assms stored_mono [OF assms(2)] unfolding backed_def takes_lease_def after_elect_def
  by (cases "snd r") (auto split: if_splits)

lemma backed_step:
  assumes "backed name now (s, b)" "\<And>t. t \<in> set (command_time ev) \<Longrightarrow> t \<le> now"
    and "\<And>f. ev = CommandElse f \<Longrightarrow> leaves_lease (lease name) (stored now) f"
  shows "backed name now (command_step take_it create resign name ev (s, b))"
proof (cases ev)
  case (TakeLease t w ttl)
  with assms(1,2) take_law [OF prod.collapse [symmetric]] show ?thesis by (simp add: backed_elect)
next
  case (CreateLease t w ttl)
  with assms(1,2) create_law [OF prod.collapse [symmetric]] show ?thesis by (simp add: backed_elect)
next
  case (DropLease w)
  then show ?thesis using assms(1) resign_law [OF prod.collapse [symmetric], of name w s] by (auto simp: backed_def)
next
  case (CommandElse f)
  have "lease name (f s) = Some (w, stored e)" if "lease name s = Some (w, stored e)" "stored now < stored e" for w e
    using spec [OF assms(3) [OF CommandElse, unfolded leaves_lease_def], of s] that by auto
  with CommandElse assms(1) show ?thesis by (auto simp: backed_def)
qed

lemma backed_run:
  assumes "backed name now sb" "\<forall>ev\<in>set evs. \<forall>t\<in>set (command_time ev). t \<le> now"
    and "\<forall>f. CommandElse f \<in> set evs \<longrightarrow> leaves_lease (lease name) (stored now) f"
  shows "backed name now (fold (command_step take_it create resign name) evs sb)"
  using assms
proof (induction evs arbitrary: sb)
  case (Cons ev evs)
  obtain s b where sb: "sb = (s, b)" by fastforce
  with Cons show ?case by (simp add: backed_step)
qed simp

lemma one_leader:
  assumes "\<forall>ev\<in>set evs. \<forall>t\<in>set (command_time ev). t \<le> now"
    and "\<forall>f. CommandElse f \<in> set evs \<longrightarrow> leaves_lease (lease name) (stored now) f"
    and "snd (command_run take_it create resign name evs s) w = Some e" "stored now < stored e"
    and "snd (command_run take_it create resign name evs s) w' = Some e'" "stored now < stored e'"
  shows "w = w'"
proof -
  have "backed name now (command_run take_it create resign name evs s)"
    unfolding command_run_def by (rule backed_run) (use assms in \<open>simp_all add: backed_def\<close>)
  then have "lease name (fst (command_run take_it create resign name evs s)) = Some (w, stored e)"
      "lease name (fst (command_run take_it create resign name evs s)) = Some (w', stored e')"
    using assms(3-) unfolding backed_def by blast+
  then show ?thesis by simp
qed

end

end
