(* ===== verification/Local_Store.thy ===== *)
theory Local_Store
  imports Prelude
begin

text \<open>
  Tables in memory, for the instances of the database laws. A table is a list; the first element with a key is
  the one stored under it.
\<close>

definition lget :: "('d \<Rightarrow> 'k) \<Rightarrow> 'd list \<Rightarrow> 'k \<Rightarrow> 'd option" where
  "lget ident ds k = find (\<lambda>d. ident d = k) ds"

definition lput :: "('d \<Rightarrow> 'k) \<Rightarrow> 'd \<Rightarrow> 'd list \<Rightarrow> 'd list" where
  "lput ident d ds = d # filter (\<lambda>x. ident x \<noteq> ident d) ds"

definition lmatch :: "('d \<Rightarrow> 'k) \<Rightarrow> ('d \<Rightarrow> bool) \<Rightarrow> 'd list \<Rightarrow> 'd list" where
  "lmatch ident f ds = filter (\<lambda>d. f d \<and> lget ident ds (ident d) = Some d) ds"

definition lfirst :: "('d \<Rightarrow> 'd \<Rightarrow> bool) \<Rightarrow> 'd list \<Rightarrow> 'd option" where
  "lfirst lt ds = find (\<lambda>d. \<forall>x\<in>set ds. \<not> lt x d) ds"

lemma lget_simps:
  "lget ident [] k = None" "lget ident (d # ds) k = (if ident d = k then Some d else lget ident ds k)"
  by (simp_all add: lget_def)

lemma lget_keyed: "lget ident ds k = Some d \<Longrightarrow> ident d = k \<and> d \<in> set ds"
  by (induction ds) (auto simp: lget_simps split: if_splits)

lemma lget_remove: "lget ident (filter (\<lambda>x. ident x \<noteq> k) ds) = (lget ident ds)(k := None)"
proof
  fix k' show "lget ident (filter (\<lambda>x. ident x \<noteq> k) ds) k' = ((lget ident ds)(k := None)) k'"
    by (induction ds) (auto simp: lget_simps)
qed

lemma lget_insert: "lget ident (d # ds) = (lget ident ds)(ident d \<mapsto> d)"
  by (auto simp: fun_eq_iff lget_simps)

lemma lget_put: "lget ident (lput ident d ds) = (lget ident ds)(ident d \<mapsto> d)"
  unfolding lput_def lget_insert lget_remove by simp

lemma lmatch_iff: "d \<in> set (lmatch ident f ds) \<longleftrightarrow> f d \<and> lget ident ds (ident d) = Some d"
  using lget_keyed by (fastforce simp: lmatch_def)

lemma lmatch_Nil: "lmatch ident f ds = [] \<longleftrightarrow> (\<forall>d\<in>ran (lget ident ds). \<not> f d)"
proof -
  have "lmatch ident f ds = [] \<longleftrightarrow> (\<forall>d. \<not> (f d \<and> lget ident ds (ident d) = Some d))"
    using lmatch_iff [of _ ident f ds] by (metis ex_in_conv set_empty)
  also have "\<dots> \<longleftrightarrow> (\<forall>d\<in>ran (lget ident ds). \<not> f d)" using lget_keyed by (fastforce simp: ran_def)
  finally show ?thesis .
qed

lemma lmatch_head: "lmatch ident f ds = x # xs \<Longrightarrow> f x \<and> lget ident ds (ident x) = Some x"
  using lmatch_iff [of x ident f ds] by simp

lemma lfirst_Some:
  assumes "lfirst lt (lmatch ident f ds) = Some d"
  shows "f d \<and> lget ident ds (ident d) = Some d \<and> (\<forall>x\<in>ran (lget ident ds). f x \<longrightarrow> \<not> lt x d)"
proof -
  have d: "d \<in> set (lmatch ident f ds)" "\<forall>x\<in>set (lmatch ident f ds). \<not> lt x d"
    using assms by (auto simp: lfirst_def find_Some_iff)
  have "x \<in> set (lmatch ident f ds)" if "x \<in> ran (lget ident ds)" "f x" for x
    using that lget_keyed by (fastforce simp: lmatch_iff ran_def)
  with d show ?thesis by (simp add: lmatch_iff)
qed

text \<open>Updates and deletions of all elements that match.\<close>

lemma lget_map:
  assumes "\<forall>d\<in>set ds. ident (g d) = ident d"
  shows "lget ident (map g ds) k = map_option g (lget ident ds k)"
  using assms by (induction ds) (auto simp: lget_simps)

lemma lget_filter_map:
  "lget ident (filter (\<lambda>d. g (ident d)) ds) k = (if g k then lget ident ds k else None)"
  by (induction ds) (auto simp: lget_simps)

lemma lget_at: "d \<in> set ds \<Longrightarrow> lget ident ds (ident d) \<noteq> None"
  by (induction ds) (auto simp: lget_simps)

lemma set_lmatch_keys: "ident ` set (lmatch ident f ds) = {k. \<exists>d. lget ident ds k = Some d \<and> f d}"
proof (intro set_eqI iffI)
  fix k assume "k \<in> {k. \<exists>d. lget ident ds k = Some d \<and> f d}"
  then obtain d where "lget ident ds k = Some d" "f d" by blast
  with lget_keyed [of ident ds k d] show "k \<in> ident ` set (lmatch ident f ds)" by (auto simp: image_iff lmatch_iff)
qed (auto simp: lmatch_iff)

lemma inj_lmatch: "inj_on ident (set (lmatch ident f ds))"
  by (rule inj_onI) (simp add: lmatch_iff)

text \<open>Sorting permutes, whatever the comparison.\<close>

lemma mset_insert_slice_any: "mset (insert_slice lt x xs) = add_mset x (mset xs)"
  by (induction xs) auto

lemma mset_sort_slice_any: "mset (sort_slice lt xs) = mset xs"
  unfolding sort_slice_def by (induction xs) (simp_all add: mset_insert_slice_any)

lemma set_sort_slice_any: "set (sort_slice lt xs) = set xs"
  using mset_sort_slice_any [of lt xs] by (metis set_mset_mset)

lemma distinct_sort_slice_any: "distinct (sort_slice lt xs) = distinct xs"
  using mset_sort_slice_any [of lt xs] by (metis mset_eq_imp_distinct_iff)

end
