(* ===== verification/Mongo_Service.thy ===== *)
theory Mongo_Service
  imports Mongo Lease_Commands Local_Store
begin

text \<open>
  What MongoDB documents about single commands, as the locale \<open>mongo_collection\<close> for one collection and
  \<open>mongo_service\<close> for the database of the driver; a database in memory is the instance. A command
  acts on one document as a whole, or fails; one that fails may have acted or not, since a
  connection can break before the answer. Leases over it are exclusive up to the resolution of its dates.
\<close>

section \<open>The service\<close>

text \<open>An update of one document: how many it matched and how many it changed.\<close>

definition updates_one :: "('d \<Rightarrow> bool) \<Rightarrow> ('d \<Rightarrow> 'd) \<Rightarrow> (string \<Rightarrow> 'd option) \<Rightarrow> (string \<Rightarrow> 'd option) \<Rightarrow> int \<times> int \<Rightarrow> bool" where
  "updates_one f u docs docs' n \<longleftrightarrow>
     (\<forall>d\<in>ran docs. \<not> f d) \<and> docs' = docs \<and> n = (0, 0) \<or>
     (\<exists>k d. docs k = Some d \<and> f d \<and> docs' = docs(k \<mapsto> u d) \<and> n = (1, if u d = d then 0 else 1))"

text \<open>A deletion of one document.\<close>

definition deletes_one :: "('d \<Rightarrow> bool) \<Rightarrow> (string \<Rightarrow> 'd option) \<Rightarrow> (string \<Rightarrow> 'd option) \<Rightarrow> int \<Rightarrow> bool" where
  "deletes_one f docs docs' n \<longleftrightarrow>
     (\<forall>d\<in>ran docs. \<not> f d) \<and> docs' = docs \<and> n = 0 \<or>
     (\<exists>k d. docs k = Some d \<and> f d \<and> docs' = docs(k := None) \<and> n = 1)"

text \<open>An update of the first document in an order; the answer is the document after it.\<close>

definition modifies_first :: "('d \<Rightarrow> bool) \<Rightarrow> ('d \<Rightarrow> 'd \<Rightarrow> bool) \<Rightarrow> ('d \<Rightarrow> 'd) \<Rightarrow> (string \<Rightarrow> 'd option) \<Rightarrow>
    (string \<Rightarrow> 'd option) \<Rightarrow> 'd option \<Rightarrow> bool" where
  "modifies_first f lt u docs docs' r \<longleftrightarrow>
     (\<forall>d\<in>ran docs. \<not> f d) \<and> docs' = docs \<and> r = None \<or>
     (\<exists>k d. docs k = Some d \<and> f d \<and> (\<forall>x\<in>ran docs. f x \<longrightarrow> \<not> lt x d) \<and> docs' = docs(k \<mapsto> u d) \<and> r = Some (u d))"

lemma updates_oneI:
  "\<forall>d\<in>ran docs. \<not> f d \<Longrightarrow> updates_one f u docs docs (0, 0)"
  "docs k = Some d \<Longrightarrow> f d \<Longrightarrow> updates_one f u docs (docs(k \<mapsto> u d)) (1, if u d = d then 0 else 1)"
  unfolding updates_one_def by blast+

lemma deletes_oneI:
  "\<forall>d\<in>ran docs. \<not> f d \<Longrightarrow> deletes_one f docs docs 0"
  "docs k = Some d \<Longrightarrow> f d \<Longrightarrow> deletes_one f docs (docs(k := None)) 1"
  unfolding deletes_one_def by blast+

locale mongo_collection =
  fixes cl :: "('d, 's) coll" and ident :: "'d \<Rightarrow> string" and inserted :: "'d \<Rightarrow> 'd \<Rightarrow> bool"
    and docs :: "'s \<Rightarrow> string \<Rightarrow> 'd option"
  assumes keyed: "docs s k = Some d \<Longrightarrow> ident d = k"
    and find_one: "cl_find_one cl f s = Inr r \<Longrightarrow>
      (case r of None \<Rightarrow> \<forall>d\<in>ran (docs s). \<not> f d | Some d \<Rightarrow> docs s (ident d) = Some d \<and> f d)"
    and insert: "cl_insert cl d s = (s', Inr d') \<Longrightarrow> inserted d d' \<and> docs s (ident d') = None \<and> docs s' = (docs s)(ident d' \<mapsto> d')"
    and insert_fails: "cl_insert cl d s = (s', Inl e) \<Longrightarrow>
      docs s' = docs s \<or> (\<exists>d'. inserted d d' \<and> docs s (ident d') = None \<and> docs s' = (docs s)(ident d' \<mapsto> d'))"
    and update: "cl_update cl f u s = (s', Inr n) \<Longrightarrow> updates_one f u (docs s) (docs s') n"
    and update_fails: "cl_update cl f u s = (s', Inl e) \<Longrightarrow> docs s' = docs s \<or> (\<exists>n. updates_one f u (docs s) (docs s') n)"
    and modify: "cl_modify cl f lt u None s = (s', Inr r) \<Longrightarrow> modifies_first f lt u (docs s) (docs s') r"
    and modify_fails: "cl_modify cl f lt u None s = (s', Inl e) \<Longrightarrow>
      docs s' = docs s \<or> (\<exists>r. modifies_first f lt u (docs s) (docs s') r)"
    and delete: "cl_delete cl f s = (s', Inr m) \<Longrightarrow> deletes_one f (docs s) (docs s') m"
    and delete_fails: "cl_delete cl f s = (s', Inl e) \<Longrightarrow> docs s' = docs s \<or> (\<exists>m. deletes_one f (docs s) (docs s') m)"
begin

text \<open>An update whose filter fixes the identifier.\<close>

lemma update_at:
  assumes "cl_update cl f u s = (s', r)" "\<And>d. f d \<Longrightarrow> ident d = k"
  shows "docs s' = docs s \<and> (\<forall>m n. r = Inr (m, n) \<longrightarrow> m = 0 \<and> n = 0 \<and> (\<forall>d. docs s k = Some d \<longrightarrow> \<not> f d)) \<or>
    docs s' = docs s \<and> isl r \<or>
    (\<exists>d. docs s k = Some d \<and> f d \<and> docs s' = (docs s)(k \<mapsto> u d) \<and> (\<forall>m n. r = Inr (m, n) \<longrightarrow> m = 1 \<and> n = (if u d = d then 0 else 1)))"
proof -
  have at: "k' = k" if "docs s k' = Some d" "f d" for k' d using keyed [OF that(1)] assms(2) [OF that(2)] by simp
  have one: "docs s' = docs s \<and> n = (0, 0) \<and> (\<forall>d. docs s k = Some d \<longrightarrow> \<not> f d) \<or>
      (\<exists>d. docs s k = Some d \<and> f d \<and> docs s' = (docs s)(k \<mapsto> u d) \<and> n = (1, if u d = d then 0 else 1))"
    if "updates_one f u (docs s) (docs s') n" for n
    using that at unfolding updates_one_def by (metis ranI)
  show ?thesis
  proof (cases r)
    case (Inl e)
    with assms(1) update_fails [of f u s s' e] one show ?thesis by auto
  next
    case (Inr n)
    with assms(1) update [of f u s s' n] one [of n] show ?thesis by auto
  qed
qed

end

text \<open>
  The database. A job gets its identifier when it is inserted, the other documents are inserted as they
  are; the queues have a unique index on their name (\<^verbatim>\<open>Migrate\<close>). Dates are whole milliseconds.
\<close>

definition gets_id :: "mongoJob \<Rightarrow> mongoJob \<Rightarrow> bool" where
  "gets_id j j' \<longleftrightarrow> j' = j\<lparr>mj_ID := mj_ID j'\<rparr>"

locale mongo_service =
  jobs: mongo_collection "mg_jobs c" mj_ID gets_id job_docs +
  queues: mongo_collection "mg_queues c" mq_Name "(=)" queue_docs +
  leaders: mongo_collection "mg_leaders c" ml_ID "(=)" leader_docs +
  cursors: mongo_collection "mg_cursors c" mc_ID "(=)" cursor_docs
  for c :: "'s mongo" and job_docs queue_docs leader_docs cursor_docs +
  assumes dates: "mg_time c t = t - t mod Millisecond"
begin

lemma date_mono: "t \<le> t' \<Longrightarrow> mg_time c t \<le> mg_time c t'"
  by (simp add: dates minus_mod_eq_mult_div zdiv_mono1)

end

section \<open>Leases\<close>

definition mongo_lease :: "(string \<Rightarrow> mongoLeader option) \<Rightarrow> string \<Rightarrow> (string \<times> gotime) option" where
  "mongo_lease docs name = map_option (\<lambda>l. (ml_WorkerID l, ml_ExpiresAt l)) (docs name)"

context mongo_service
begin

lemma elect_update_takes:
  assumes "elect_update c t \<lparr>le_Name = name, le_WorkerID = w, le_TTL = ttl\<rparr> s = (s', r)"
  shows "takes_lease (mg_time c) t w ttl (mongo_lease (leader_docs s) name) (mongo_lease (leader_docs s') name) r"
proof -
  let ?f = "\<lambda>l. ml_ID l = name \<and> (ml_ExpiresAt l \<le> mg_time c t \<or> ml_WorkerID l = w)"
  let ?u = "\<lambda>l. l\<lparr>ml_WorkerID := w, ml_ElectedAt := mg_time c t, ml_ExpiresAt := mg_time c (t + ttl)\<rparr>"
  obtain r0 where r0: "cl_update (mg_leaders c) ?f ?u s = (s', r0)" and r: "r = (case r0 of Inl x \<Rightarrow> Inl x | Inr (m, n) \<Rightarrow> Inr (m > 0))"
    using assms by (auto simp: elect_update_def split: prod.splits sum.splits)
  have "leader_docs s' = leader_docs s \<and> r \<noteq> Inr True \<or>
      (\<exists>l. leader_docs s name = Some l \<and> ?f l \<and> leader_docs s' = (leader_docs s)(name \<mapsto> ?u l) \<and> r \<noteq> Inr False)"
    using leaders.update_at [OF r0, of name] r by (cases r0) auto
  then show ?thesis by (auto simp: takes_lease_def mongo_lease_def)
qed

lemma elect_insert_takes:
  assumes "elect_insert c t \<lparr>le_Name = name, le_WorkerID = w, le_TTL = ttl\<rparr> s = (s', r)"
  shows "takes_lease (mg_time c) t w ttl (mongo_lease (leader_docs s) name) (mongo_lease (leader_docs s') name) r"
proof -
  let ?l = "\<lparr>ml_ID = name, ml_WorkerID = w, ml_ElectedAt = mg_time c t, ml_ExpiresAt = mg_time c (t + ttl)\<rparr>"
  obtain r0 where r0: "cl_insert (mg_leaders c) ?l s = (s', r0)" and r: "r = (case r0 of Inl e \<Rightarrow> if mg_duplicate c e then Inr False else Inl e | Inr _ \<Rightarrow> Inr True)"
    using assms by (auto simp: elect_insert_def split: prod.splits sum.splits if_splits)
  have "leader_docs s' = leader_docs s \<and> r \<noteq> Inr True \<or> leader_docs s name = None \<and> leader_docs s' = (leader_docs s)(name \<mapsto> ?l)"
    using leaders.insert [of ?l s s'] leaders.insert_fails [of ?l s s'] r0 r by (cases r0) (auto split: if_splits)
  then show ?thesis by (auto simp: takes_lease_def mongo_lease_def)
qed

lemma resign_drops:
  assumes "mongo_leaderResign c \<lparr>lr_Name = name, lr_WorkerID = w\<rparr> s = (s', err)"
  shows "mongo_lease (leader_docs s') name = mongo_lease (leader_docs s) name \<or>
    mongo_lease (leader_docs s') name = None \<and> (\<exists>e. mongo_lease (leader_docs s) name = Some (w, e))"
proof -
  let ?f = "\<lambda>l. ml_ID l = name \<and> ml_WorkerID l = w"
  obtain r where r: "cl_delete (mg_leaders c) ?f s = (s', r)" using assms by (auto simp: mongo_leaderResign_def split: prod.splits sum.splits)
  have "leader_docs s' = leader_docs s \<or> (\<exists>n. deletes_one ?f (leader_docs s) (leader_docs s') n)"
    using leaders.delete [of ?f s s'] leaders.delete_fails [of ?f s s'] r by (cases r) auto
  then have "leader_docs s' = leader_docs s \<or> (\<exists>l. leader_docs s name = Some l \<and> ml_WorkerID l = w \<and> leader_docs s' = (leader_docs s)(name := None))"
    unfolding deletes_one_def using leaders.keyed by metis
  then show ?thesis by (auto simp: mongo_lease_def)
qed

end

sublocale mongo_service \<subseteq> elections: lease_commands "elect_update c" "elect_insert c" "mongo_leaderResign c" "mg_time c"
    "\<lambda>name s. mongo_lease (leader_docs s) name"
  by (rule lease_commands.intro) (erule elect_update_takes elect_insert_takes resign_drops date_mono)+

context mongo_service
begin

lemma lease_laws: "lease_commands (elect_update c) (elect_insert c) (mongo_leaderResign c) (mg_time c) (\<lambda>name s. mongo_lease (leader_docs s) name)"
  by (rule elections.lease_commands_axioms)

end

section \<open>An instance of the laws\<close>

text \<open>
  A database in memory, with lists for collections (\<open>Local_Store\<close>).
\<close>

record local_db =
  db_jobs :: "mongoJob list"
  db_queues :: "mongoQueue list"
  db_leaders :: "mongoLeader list"
  db_cursors :: "mongoCursor list"
  db_next :: nat

definition duplicate :: goerr where "duplicate = Errorf ''E11000 duplicate key error''"
definition refused_update :: goerr where "refused_update = Errorf ''the update is not allowed''"

definition linsert :: "('s \<Rightarrow> 'd list) \<Rightarrow> ('d list \<Rightarrow> 's \<Rightarrow> 's) \<Rightarrow> ('d \<Rightarrow> string) \<Rightarrow> ('s \<Rightarrow> 'd \<Rightarrow> 's \<times> 'd) \<Rightarrow> 'd \<Rightarrow> 's \<Rightarrow> 's \<times> 'd res" where
  "linsert get put ident assign d s =
     (case assign s d of (s1, d') \<Rightarrow>
        if lget ident (get s) (ident d') = None then (put (d' # get s) s1, Inr d') else (s, Inl duplicate))"

definition lreplace :: "('s \<Rightarrow> 'd list) \<Rightarrow> ('d list \<Rightarrow> 's \<Rightarrow> 's) \<Rightarrow> ('d \<Rightarrow> string) \<Rightarrow> 'd \<Rightarrow> 'd \<Rightarrow> 'r \<Rightarrow> 's \<Rightarrow> 's \<times> 'r res" where
  "lreplace get put ident x x' r s =
     (if ident x' = ident x then (put (lput ident x' (get s)) s, Inr r) else (s, Inl refused_update))"

definition local_coll :: "('s \<Rightarrow> 'd list) \<Rightarrow> ('d list \<Rightarrow> 's \<Rightarrow> 's) \<Rightarrow> ('d \<Rightarrow> string) \<Rightarrow> ('s \<Rightarrow> 'd \<Rightarrow> 's \<times> 'd) \<Rightarrow> ('d, 's) coll" where
  "local_coll get put ident assign = \<lparr>
     cl_find_one = (\<lambda>f s. Inr (case lmatch ident f (get s) of [] \<Rightarrow> None | d # _ \<Rightarrow> Some d)),
     cl_find = (\<lambda>f lt n s. Inr (take (nat n) (sort_slice lt (lmatch ident f (get s))))),
     cl_insert = linsert get put ident assign,
     cl_upsert = (\<lambda>f u d s. case lmatch ident f (get s) of
          x # _ \<Rightarrow> lreplace get put ident x (u x) None s
        | [] \<Rightarrow> (case linsert get put ident assign d s of (s1, Inl e) \<Rightarrow> (s1, Inl e) | (s1, Inr d') \<Rightarrow> (s1, Inr (Some d')))),
     cl_update = (\<lambda>f u s. case lmatch ident f (get s) of
          [] \<Rightarrow> (s, Inr (0, 0))
        | x # _ \<Rightarrow> lreplace get put ident x (u x) (1, if u x = x then 0 else 1) s),
     cl_update_many = (\<lambda>f u s. (put (map (\<lambda>d. if f d then u d else d) (get s)) s,
        Inr (int (length (filter (\<lambda>d. u d \<noteq> d) (lmatch ident f (get s))))))),
     cl_modify = (\<lambda>f lt u ins s. case lmatch ident f (get s) of
          [] \<Rightarrow> (case ins of None \<Rightarrow> (s, Inr None)
            | Some d \<Rightarrow> (case linsert get put ident assign d s of (s1, Inl e) \<Rightarrow> (s1, Inl e) | (s1, Inr d') \<Rightarrow> (s1, Inr (Some d'))))
        | x # xs \<Rightarrow> (case lfirst lt (x # xs) of None \<Rightarrow> (s, Inl refused_update) | Some d \<Rightarrow> lreplace get put ident d (u d) (Some (u d)) s)),
     cl_delete = (\<lambda>f s. case lmatch ident f (get s) of
          [] \<Rightarrow> (s, Inr 0)
        | x # _ \<Rightarrow> (put (filter (\<lambda>d. ident d \<noteq> ident x) (get s)) s, Inr 1))\<rparr>"

lemma local_coll_laws:
  assumes lens: "\<And>g s. get (put g s) = g" and new: "\<And>s d. inserted d (snd (assign s d))"
  shows "mongo_collection (local_coll get put ident assign) ident inserted (\<lambda>s. lget ident (get s))"
proof unfold_locales
  let ?c = "local_coll get put ident assign" and ?docs = "\<lambda>s. lget ident (get s)"
  fix s s' k d d' f u lt r n m e
  show "ident d = k" if "lget ident (get s) k = Some d" using lget_keyed [OF that] by simp
  show "case r of None \<Rightarrow> \<forall>d\<in>ran (?docs s). \<not> f d | Some d \<Rightarrow> ?docs s (ident d) = Some d \<and> f d" if "cl_find_one ?c f s = Inr r"
    using that lmatch_Nil [of ident f "get s"] lmatch_head [of ident f "get s"]
    by (auto simp: local_coll_def split: list.splits)
  show "inserted d d' \<and> ?docs s (ident d') = None \<and> ?docs s' = (?docs s)(ident d' \<mapsto> d')" if "cl_insert ?c d s = (s', Inr d')"
    using that new [of d s] by (auto simp: local_coll_def linsert_def lens lget_insert split: prod.splits if_splits)
  show "?docs s' = ?docs s \<or> (\<exists>d'. inserted d d' \<and> ?docs s (ident d') = None \<and> ?docs s' = (?docs s)(ident d' \<mapsto> d'))"
    if "cl_insert ?c d s = (s', Inl e)"
    using that by (auto simp: local_coll_def linsert_def split: prod.splits if_splits)
  show "updates_one f u (?docs s) (?docs s') n" if "cl_update ?c f u s = (s', Inr n)"
  proof (cases "lmatch ident f (get s)")
    case Nil
    with that lmatch_Nil [of ident f "get s"] show ?thesis by (auto simp: local_coll_def intro: updates_oneI)
  next
    case (Cons x xs)
    then have "ident (u x) = ident x" "s' = put (lput ident (u x) (get s)) s" "n = (1, if u x = x then 0 else 1)"
      using that by (auto simp: local_coll_def lreplace_def split: if_splits)
    with updates_oneI(2) [of "?docs s" "ident x" x f u] lmatch_head [OF Cons] show ?thesis by (simp add: lens lget_put)
  qed
  show "?docs s' = ?docs s \<or> (\<exists>n. updates_one f u (?docs s) (?docs s') n)" if "cl_update ?c f u s = (s', Inl e)"
    using that by (auto simp: local_coll_def lreplace_def split: list.splits if_splits)
  show "modifies_first f lt u (?docs s) (?docs s') r" if mod: "cl_modify ?c f lt u None s = (s', Inr r)"
  proof (cases "lmatch ident f (get s)")
    case Nil
    with mod lmatch_Nil [of ident f "get s"] show ?thesis by (simp add: local_coll_def modifies_first_def)
  next
    case (Cons x xs)
    then obtain d where d: "lfirst lt (lmatch ident f (get s)) = Some d" and s': "s' = put (lput ident (u d) (get s)) s" "r = Some (u d)" "ident (u d) = ident d"
      using mod by (auto simp: local_coll_def lreplace_def split: option.splits if_splits)
    from lfirst_Some [OF d] s' show ?thesis unfolding modifies_first_def by (auto simp: lens lget_put)
  qed
  show "?docs s' = ?docs s \<or> (\<exists>r. modifies_first f lt u (?docs s) (?docs s') r)" if "cl_modify ?c f lt u None s = (s', Inl e)"
    using that by (auto simp: local_coll_def lreplace_def split: list.splits option.splits if_splits)
  show "deletes_one f (?docs s) (?docs s') m" if "cl_delete ?c f s = (s', Inr m)"
  proof (cases "lmatch ident f (get s)")
    case Nil
    with that lmatch_Nil [of ident f "get s"] show ?thesis by (auto simp: local_coll_def intro: deletes_oneI)
  next
    case (Cons x xs)
    with that deletes_oneI(2) [of "?docs s" "ident x" x f] lmatch_head [OF Cons] show ?thesis
      by (auto simp: local_coll_def lens lget_remove)
  qed
  show "?docs s' = ?docs s \<or> (\<exists>m. deletes_one f (?docs s) (?docs s') m)" if "cl_delete ?c f s = (s', Inl e)"
    using that by (auto simp: local_coll_def split: list.splits)
qed

definition local_group :: "string \<Rightarrow> local_db \<Rightarrow> (JobState \<times> int) list res" where
  "local_group queue s =
     (let states = map mj_State (lmatch mj_ID (\<lambda>j. mj_Queue j = queue) (db_jobs s))
      in Inr (map (\<lambda>st. (st, int (count_list states st))) (remdups states)))"

definition local_mongo :: "local_db mongo" where
  "local_mongo = \<lparr>
     mg_jobs = local_coll db_jobs (\<lambda>g s. s\<lparr>db_jobs := g\<rparr>) mj_ID (\<lambda>s j. (s\<lparr>db_next := Suc (db_next s)\<rparr>, j\<lparr>mj_ID := nat_to_dec (db_next s)\<rparr>)),
     mg_queues = local_coll db_queues (\<lambda>g s. s\<lparr>db_queues := g\<rparr>) mq_Name Pair,
     mg_leaders = local_coll db_leaders (\<lambda>g s. s\<lparr>db_leaders := g\<rparr>) ml_ID Pair,
     mg_cursors = local_coll db_cursors (\<lambda>g s. s\<lparr>db_cursors := g\<rparr>) mc_ID Pair,
     mg_group_states = local_group,
     mg_duplicate = (\<lambda>e. e = duplicate),
     mg_from_hex = (\<lambda>k. if k = [] then Inl (Errorf ''the provided hex string is not a valid ObjectID'') else Inr k),
     mg_time = (\<lambda>t. t - t mod Millisecond),
     mg_no_documents = Errorf ''mongo: no documents in result''\<rparr>"

abbreviation local_jobs_of :: "local_db \<Rightarrow> string \<Rightarrow> mongoJob option" where
  "local_jobs_of \<equiv> \<lambda>s. lget mj_ID (db_jobs s)"

abbreviation local_queues_of :: "local_db \<Rightarrow> string \<Rightarrow> mongoQueue option" where
  "local_queues_of \<equiv> \<lambda>s. lget mq_Name (db_queues s)"

abbreviation local_leaders_of :: "local_db \<Rightarrow> string \<Rightarrow> mongoLeader option" where
  "local_leaders_of \<equiv> \<lambda>s. lget ml_ID (db_leaders s)"

abbreviation local_cursors_of :: "local_db \<Rightarrow> string \<Rightarrow> mongoCursor option" where
  "local_cursors_of \<equiv> \<lambda>s. lget mc_ID (db_cursors s)"


interpretation local_mg: mongo_service local_mongo local_jobs_of local_queues_of local_leaders_of local_cursors_of
proof (intro mongo_service.intro mongo_service_axioms.intro)
  show "mongo_collection (mg_jobs local_mongo) mj_ID gets_id local_jobs_of"
    by (simp add: local_mongo_def) (rule local_coll_laws; simp add: gets_id_def)
  show "mongo_collection (mg_queues local_mongo) mq_Name (=) local_queues_of"
    by (simp add: local_mongo_def) (rule local_coll_laws; simp)
  show "mongo_collection (mg_leaders local_mongo) ml_ID (=) local_leaders_of"
    by (simp add: local_mongo_def) (rule local_coll_laws; simp)
  show "mongo_collection (mg_cursors local_mongo) mc_ID (=) local_cursors_of"
    by (simp add: local_mongo_def) (rule local_coll_laws; simp)
  show "\<And>t. mg_time local_mongo t = t - t mod Millisecond" by (simp add: local_mongo_def)
qed

definition empty_db :: local_db where
  "empty_db = \<lparr>db_jobs = [], db_queues = [], db_leaders = [], db_cursors = [], db_next = 1\<rparr>"

section \<open>Leases exclude each other\<close>

text \<open>
  Claim C21: leader election over MongoDB is exclusive although it takes two commands. Over any
  interleaving of the updates, insertions and deletions that elections, renewals and resignations of one lease
  send, executed in any order after their clock readings, with commands that fail after or before
  they act and with the removal of expired leases by the server, two different workers are never
  both inside the term of their last election, counted in the whole milliseconds that the
  server stores.
\<close>

theorem mongo_lease_mutual_exclusion:
  assumes "mongo_service c job_docs queue_docs leader_docs cursor_docs" "\<forall>ev\<in>set evs. \<forall>t\<in>set (command_time ev). t \<le> now"
    and "\<forall>f. CommandElse f \<in> set evs \<longrightarrow> leaves_lease (\<lambda>s. mongo_lease (leader_docs s) name) (mg_time c now) f"
    and "snd (command_run (elect_update c) (elect_insert c) (mongo_leaderResign c) name evs s) w = Some e" "mg_time c now < mg_time c e"
    and "snd (command_run (elect_update c) (elect_insert c) (mongo_leaderResign c) name evs s) w' = Some e'" "mg_time c now < mg_time c e'"
  shows "w = w'"
  by (rule lease_commands.one_leader [OF mongo_service.lease_laws [OF assms(1)] assms(2-)])

text \<open>Two workers whose elections overlap, and a takeover.\<close>

definition elections :: "local_db command_event list" where
  "elections = [TakeLease 1000000 ''a'' 5000000, TakeLease 1500000 ''b'' 5000000, CreateLease 1500000 ''b'' 5000000,
     CreateLease 1000000 ''a'' 5000000, CommandElse (\<lambda>s. s\<lparr>db_next := 7\<rparr>), TakeLease 6500000 ''a'' 5000000]"

theorem mongo_lease_mutual_exclusion_witness:
  "let b = snd (command_run (elect_update local_mongo) (elect_insert local_mongo) (mongo_leaderResign local_mongo) ''n'' elections empty_db)
   in b ''a'' = Some 11500000 \<and> b ''b'' = Some 6500000 \<and> {w. \<exists>e. b w = Some e \<and> mg_time local_mongo 6600000 < mg_time local_mongo e} = {''a''}"
proof -
  let ?b = "snd (command_run (elect_update local_mongo) (elect_insert local_mongo) (mongo_leaderResign local_mongo) ''n'' elections empty_db)"
  have a: "?b ''a'' = Some 11500000" by code_simp
  have b: "?b ''b'' = Some 6500000" by code_simp
  have m: "mg_time local_mongo 6600000 < mg_time local_mongo 11500000" by code_simp
  have o: "\<forall>ev\<in>set elections. \<forall>t\<in>set (command_time ev). t \<le> 6600000" by (simp add: elections_def)
  have l: "\<forall>f. CommandElse f \<in> set elections \<longrightarrow> leaves_lease (\<lambda>s. mongo_lease (local_leaders_of s) ''n'') (mg_time local_mongo 6600000) f"
    by (simp add: elections_def leaves_lease_def)
  have "w = ''a''" if "?b w = Some e" "mg_time local_mongo 6600000 < mg_time local_mongo e" for w e
    by (rule mongo_lease_mutual_exclusion [OF local_mg.mongo_service_axioms o l that a m])
  then have "{w. \<exists>e. ?b w = Some e \<and> mg_time local_mongo 6600000 < mg_time local_mongo e} = {''a''}" using a m by blast
  with a b show ?thesis unfolding Let_def by blast
qed

end
