(* ===== verification/Mongo_Properties.thy ===== *)
theory Mongo_Properties
  imports Mongo_Service Worker_Process
begin

text \<open>
  Batches and outcomes over MongoDB, for every service that satisfies the laws of
  \<open>mongo_service\<close>: batches are exclusive and agree with the in-memory driver, outcomes are
  fenced; a cancellation is not.
\<close>

section \<open>Batches are exclusive\<close>

text \<open>What others do to claims while a batch is fetched: they may claim, insert or change waiting jobs.\<close>

definition keeps_running :: "('s \<Rightarrow> string \<Rightarrow> mongoJob option) \<Rightarrow> ('s \<Rightarrow> 's) \<Rightarrow> bool" where
  "keeps_running job_docs f \<longleftrightarrow> (\<forall>s k j. job_docs s k = Some j \<longrightarrow> mj_State j = JobStateRunning \<longrightarrow> job_docs (f s) k = Some j)"

lemma mongo_claim_simps [simp]:
  "mj_ID (mongo_claim c p now j) = mj_ID j" "mj_State (mongo_claim c p now j) = JobStateRunning"
  "mj_WorkerID (mongo_claim c p now j) = fp_WorkerID p" "mj_AttemptNum (mongo_claim c p now j) = mj_AttemptNum j + 1"
  by (simp_all add: mongo_claim_def)

lemma claimable_not_running: "mongo_claimable c q now j \<Longrightarrow> mj_State j \<noteq> JobStateRunning"
  by (auto simp: mongo_claimable_def)

context mongo_service
begin

abbreviation claim_first :: "FetchParams \<Rightarrow> gotime \<Rightarrow> 's \<Rightarrow> 's \<times> mongoJob option res" where
  "claim_first p now \<equiv> cl_modify (mg_jobs c) (mongo_claimable c (fp_Queue p) now) mongo_fetch_less (mongo_claim c p now) None"

text \<open>One command of a batch.\<close>

lemma claim_first_cases:
  assumes "claim_first p now s = (s', r)"
  obtains (unchanged) "job_docs s' = job_docs s" "r = Inr None \<longrightarrow> (\<forall>j\<in>ran (job_docs s). \<not> mongo_claimable c (fp_Queue p) now j)"
      "\<And>j. r \<noteq> Inr (Some j)"
  | (claims) j where "job_docs s (mj_ID j) = Some j" "mongo_claimable c (fp_Queue p) now j"
      "\<forall>x\<in>ran (job_docs s). mongo_claimable c (fp_Queue p) now x \<longrightarrow> \<not> mongo_fetch_less x j"
      "job_docs s' = (job_docs s)(mj_ID j \<mapsto> mongo_claim c p now j)" "isl r \<or> r = Inr (Some (mongo_claim c p now j))"
proof -
  let ?m = "modifies_first (mongo_claimable c (fp_Queue p) now) mongo_fetch_less (mongo_claim c p now) (job_docs s) (job_docs s')"
  have m: "job_docs s' = job_docs s \<and> isl r \<or> (\<exists>r'. ?m r' \<and> (isl r \<or> r = Inr r'))"
    using jobs.modify [of _ _ _ s s'] jobs.modify_fails [of _ _ _ s s'] assms by (cases r) auto
  show thesis
  proof (cases "job_docs s' = job_docs s \<and> isl r")
    case True
    then show thesis by (cases r) (auto intro: unchanged)
  next
    case False
    then obtain r' where r': "?m r'" "isl r \<or> r = Inr r'" using m by blast
    from r'(1) show thesis unfolding modifies_first_def
    proof (elim disjE exE conjE)
      assume "\<forall>d\<in>ran (job_docs s). \<not> mongo_claimable c (fp_Queue p) now d" "job_docs s' = job_docs s" "r' = None"
      then show thesis using r'(2) by (cases r) (auto intro: unchanged)
    next
      fix k j assume j: "job_docs s k = Some j" "mongo_claimable c (fp_Queue p) now j"
        "\<forall>x\<in>ran (job_docs s). mongo_claimable c (fp_Queue p) now x \<longrightarrow> \<not> mongo_fetch_less x j"
        "job_docs s' = (job_docs s)(k \<mapsto> mongo_claim c p now j)" "r' = Some (mongo_claim c p now j)"
      then show thesis using claims jobs.keyed [OF j(1)] r'(2) by auto
    qed
  qed
qed

lemma claim_first_keeps: "keeps_running job_docs (\<lambda>s. fst (claim_first p now s))"
  unfolding keeps_running_def
proof (intro allI impI)
  fix s k j assume j: "job_docs s k = Some j" "mj_State j = JobStateRunning"
  obtain s' r where r: "claim_first p now s = (s', r)" by fastforce
  from r have "job_docs s' k = Some j"
  proof (cases rule: claim_first_cases)
    case (claims x)
    then have "mj_ID x \<noteq> k" using j claimable_not_running [of c "fp_Queue p" now x] by auto
    with claims(4) j(1) show ?thesis by simp
  qed (use j in simp)
  then show "job_docs (fst (claim_first p now s)) k = Some j" by (simp add: r)
qed

lemma fetch_loop_keeps:
  assumes "\<And>i. keeps_running job_docs (others i)" "job_docs s k = Some j" "mj_State j = JobStateRunning"
    and "mongo_fetch_loop c others p now n s = (s', rows, err)"
  shows "job_docs s' k = Some j"
  using assms(2-)
proof (induction n arbitrary: s rows)
  case (Suc n)
  obtain s1 r where r: "claim_first p now (others (Suc n) s) = (s1, r)" by fastforce
  have k: "job_docs s1 k = Some j"
    using claim_first_keeps [of p now] assms(1) [of "Suc n"] Suc.prems(1,2) r unfolding keeps_running_def by (metis fst_conv)
  show ?case
  proof (cases "\<exists>j. r = Inr (Some j)")
    case False
    then have "s' = s1" using Suc.prems(3) r by (auto split: sum.splits option.splits)
    with k show ?thesis by simp
  next
    case True
    obtain s2 rest err2 where l: "mongo_fetch_loop c others p now n s1 = (s2, rest, err2)" using prod_cases3 by blast
    with True Suc.prems(3) r have "s' = s2" "err2 = err" by auto
    with l Suc.IH [OF k Suc.prems(2)] show ?thesis by simp
  qed
qed simp

definition fresh_claim :: "FetchParams \<Rightarrow> 's \<Rightarrow> 's \<Rightarrow> JobRow \<Rightarrow> bool" where
  "fresh_claim p s s' row \<longleftrightarrow> (\<exists>j. job_docs s' (ID row) = Some j \<and> row = mongo_docToRow j \<and> mj_State j = JobStateRunning \<and>
     mj_WorkerID j = fp_WorkerID p) \<and> (\<forall>j. job_docs s (ID row) = Some j \<longrightarrow> mj_State j \<noteq> JobStateRunning)"

lemma fetch_loop_fresh:
  assumes others: "\<And>i. keeps_running job_docs (others i)" and "mongo_fetch_loop c others p now n s = (s', rows, err)"
  shows "distinct (map ID rows) \<and> length rows \<le> n \<and> (\<forall>row\<in>set rows. fresh_claim p s s' row)"
  using assms(2)
proof (induction n arbitrary: s rows)
  case (Suc n)
  obtain s1 r where r: "claim_first p now (others (Suc n) s) = (s1, r)" by fastforce
  show ?case
  proof (cases "\<exists>j. r = Inr (Some j)")
    case False
    then have "rows = []" using Suc.prems r by (auto split: sum.splits option.splits)
    then show ?thesis by simp
  next
    case True
    then obtain j where j: "r = Inr (Some j)" by blast
    obtain s2 rest err2 where l: "mongo_fetch_loop c others p now n s1 = (s2, rest, err2)" using prod_cases3 by blast
    from Suc.prems r j l have out: "s' = s2" "rows = mongo_docToRow j # rest" "err = err2" by simp_all
    from r obtain j0 where j0: "job_docs (others (Suc n) s) (mj_ID j0) = Some j0" "mongo_claimable c (fp_Queue p) now j0"
      "job_docs s1 = (job_docs (others (Suc n) s))(mj_ID j0 \<mapsto> mongo_claim c p now j0)" "j = mongo_claim c p now j0"
      by (cases rule: claim_first_cases) (use j in auto)
    have ids: "ID (mongo_docToRow j) = mj_ID j0" by (simp add: mongo_docToRow_def j0(4))
    have run: "job_docs s1 (mj_ID j0) = Some j" "mj_State j = JobStateRunning" "mj_WorkerID j = fp_WorkerID p" by (simp_all add: j0)
    have before: "mj_State x \<noteq> JobStateRunning" if "job_docs s k = Some x" "k = mj_ID j0 \<or> (\<forall>y. job_docs s1 k = Some y \<longrightarrow> mj_State y \<noteq> JobStateRunning)" for k x
    proof
      assume run: "mj_State x = JobStateRunning"
      with others that(1) have o: "job_docs (others (Suc n) s) k = Some x" unfolding keeps_running_def by blast
      show False
      proof (cases "k = mj_ID j0")
        case True
        with o j0(1,2) run claimable_not_running show False by fastforce
      next
        case False
        with o j0(3) that(2) run show False by simp
      qed
    qed
    have IH: "distinct (map ID rest)" "length rest \<le> n" "\<forall>row\<in>set rest. fresh_claim p s1 s2 row" using Suc.IH [of s1 rest] l out by auto
    have "fresh_claim p s s2 (mongo_docToRow j)"
      unfolding fresh_claim_def ids using fetch_loop_keeps [OF others run(1,2) l] run before [of "mj_ID j0"] by auto
    moreover have "\<forall>row\<in>set rest. fresh_claim p s s2 row \<and> ID row \<noteq> mj_ID j0"
      using IH(3) run(1,2) before unfolding fresh_claim_def by (metis (no_types, lifting))
    ultimately show ?thesis using IH(1,2) out ids by auto
  qed
qed simp

end

text \<open>
  A batch over MongoDB holds every job once and takes it from nobody. Whatever others
  claim, insert or change among the waiting jobs between the commands of a fetch, and whether or not
  it ends in an error, the jobs that it returns are different, at most as many as asked for, none of
  them was running before, and each of them is stored as a claim of this worker, exactly as it is
  returned, when the fetch ends.
\<close>

theorem mongo_fetch_claims_once:
  assumes "mongo_service c job_docs queue_docs leader_docs cursor_docs" "\<forall>i. keeps_running job_docs (others i)"
    and "mongo_jobFetchBatch c others now p s = (s', rows, err)"
  shows "distinct (map ID rows) \<and> length rows \<le> nat (fp_Limit p) \<and>
    (\<forall>row\<in>set rows. (\<forall>j. job_docs s (ID row) = Some j \<longrightarrow> mj_State j \<noteq> JobStateRunning) \<and>
      (\<exists>j. job_docs s' (ID row) = Some j \<and> row = mongo_docToRow j \<and> mj_State j = JobStateRunning \<and> mj_WorkerID j = fp_WorkerID p))"
proof (cases "rows = []")
  case False
  with assms(3) have "mongo_fetch_loop c others p now (nat (fp_Limit p)) s = (s', rows, err)"
    by (auto simp: mongo_jobFetchBatch_def split: sum.splits option.splits if_splits)
  from mongo_service.fetch_loop_fresh [OF assms(1) _ this] assms(2) show ?thesis
    unfolding mongo_service.fresh_claim_def [OF assms(1)] by blast
qed simp

section \<open>Agreement with the in-memory driver\<close>

abbreviation mongo_key :: "mongoJob \<Rightarrow> int \<times> gotime \<times> gotime \<times> string" where
  "mongo_key j \<equiv> (- mj_Priority j, mj_RunAt j, mj_CreatedAt j, mj_ID j)"

interpretation mongo_order: slice_order mongo_fetch_less mongo_key
  by unfold_locales (auto simp: mongo_fetch_less_def less_prod_def)

lemma docToRow_simps [simp]:
  "ID (mongo_docToRow j) = mj_ID j" "Queue (mongo_docToRow j) = mj_Queue j" "State (mongo_docToRow j) = mj_State j"
  "RunAt (mongo_docToRow j) = mj_RunAt j" "Priority (mongo_docToRow j) = mj_Priority j" "CreatedAt (mongo_docToRow j) = mj_CreatedAt j"
  by (simp_all add: mongo_docToRow_def)

definition claims_stored :: "'s mongo \<Rightarrow> FetchParams \<Rightarrow> gotime \<Rightarrow> mongoJob list \<Rightarrow> (string \<Rightarrow> mongoJob option) \<Rightarrow> string \<Rightarrow> mongoJob option" where
  "claims_stored c p now js docs = fold (\<lambda>j m. m(mj_ID j \<mapsto> mongo_claim c p now j)) js docs"

context mongo_service
begin

text \<open>Undisturbed, the commands of a batch take the claimable jobs in their order.\<close>

lemma fetch_loop_takes:
  assumes "sorted_wrt mongo_fetch_less js" "set js = {j \<in> ran (job_docs s). mongo_claimable c (fp_Queue p) now j}"
    and "mongo_fetch_loop c (\<lambda>_ s. s) p now n s = (s', rows, None)"
  shows "rows = map (mongo_docToRow \<circ> mongo_claim c p now) (take n js) \<and> job_docs s' = claims_stored c p now (take n js) (job_docs s)"
  using assms
proof (induction n arbitrary: s js rows)
  case 0
  then show ?case by (simp add: claims_stored_def)
next
  case (Suc n)
  obtain s1 r where r: "claim_first p now s = (s1, r)" by fastforce
  show ?case
  proof (cases js)
    case Nil
    with Suc.prems(2) have none: "\<forall>j\<in>ran (job_docs s). \<not> mongo_claimable c (fp_Queue p) now j" by auto
    from r have "job_docs s1 = job_docs s \<and> (\<forall>j. r \<noteq> Inr (Some j))"
      by (cases rule: claim_first_cases) (use none in \<open>auto simp: ranI\<close>)
    with Suc.prems(3) r Nil show ?thesis by (auto simp: claims_stored_def split: sum.splits option.splits)
  next
    case (Cons j js')
    have j: "job_docs s (mj_ID j) = Some j" "mongo_claimable c (fp_Queue p) now j"
      using Suc.prems(2) Cons jobs.keyed by (auto simp: ran_def)
    have least: "mongo_fetch_less j x" if "x \<in> ran (job_docs s)" "mongo_claimable c (fp_Queue p) now x" "x \<noteq> j" for x
      using Suc.prems(1,2) Cons that by auto
    from r have claimed: "job_docs s1 = (job_docs s)(mj_ID j \<mapsto> mongo_claim c p now j) \<and> (isl r \<or> r = Inr (Some (mongo_claim c p now j)))"
    proof (cases rule: claim_first_cases)
      case unchanged
      then have "isl r" using j ranI [of "job_docs s"] by (cases r) (auto simp: not_Some_eq)
      then show ?thesis using Suc.prems(3) r by (auto split: sum.splits)
    next
      case (claims x)
      then have "x = j" using least [of x] j ranI [of "job_docs s"] by blast
      with claims show ?thesis by simp
    qed
    then have r': "r = Inr (Some (mongo_claim c p now j))" using Suc.prems(3) r by (auto split: sum.splits)
    obtain rest where l: "mongo_fetch_loop c (\<lambda>_ s. s) p now n s1 = (s', rest, None)" and rows: "rows = mongo_docToRow (mongo_claim c p now j) # rest"
      using Suc.prems(3) r r' by (auto split: prod.splits)
    have "set js' = set js - {j}" using Suc.prems(1) Cons by (auto simp: mongo_order.lt_iff)
    also have "\<dots> = {x \<in> ran (job_docs s1). mongo_claimable c (fp_Queue p) now x}"
    proof -
      have "x \<in> ran (job_docs s1) \<longleftrightarrow> x = mongo_claim c p now j \<or> (x \<in> ran (job_docs s) \<and> x \<noteq> j)" for x
      proof -
        have "x \<in> ran (job_docs s1) \<longleftrightarrow> x = mongo_claim c p now j \<or> (\<exists>k. k \<noteq> mj_ID j \<and> job_docs s k = Some x)"
          using claimed by (auto simp: ran_def)
        also have "(\<exists>k. k \<noteq> mj_ID j \<and> job_docs s k = Some x) \<longleftrightarrow> x \<in> ran (job_docs s) \<and> x \<noteq> j"
        proof (rule iffI)
          assume "\<exists>k. k \<noteq> mj_ID j \<and> job_docs s k = Some x"
          then show "x \<in> ran (job_docs s) \<and> x \<noteq> j" using jobs.keyed [of s _ x] by (auto simp: ran_def)
        next
          assume x: "x \<in> ran (job_docs s) \<and> x \<noteq> j"
          then obtain k where "job_docs s k = Some x" by (auto simp: ran_def)
          moreover from this have "k \<noteq> mj_ID j" using x j(1) by auto
          ultimately show "\<exists>k. k \<noteq> mj_ID j \<and> job_docs s k = Some x" by blast
        qed
        finally show ?thesis .
      qed
      moreover have "\<not> mongo_claimable c (fp_Queue p) now (mongo_claim c p now j)" using claimable_not_running by fastforce
      ultimately show ?thesis using Suc.prems(2) by auto
    qed
    finally have set: "set js' = {x \<in> ran (job_docs s1). mongo_claimable c (fp_Queue p) now x}" .
    from Suc.IH [OF _ set l] Suc.prems(1) Cons claimed rows show ?thesis by (simp add: claims_stored_def fun_upd_def)
  qed
qed

end

definition mongo_agrees :: "(string \<Rightarrow> mongoJob option) \<Rightarrow> mem \<Rightarrow> bool" where
  "mongo_agrees docs d \<longleftrightarrow> distinct (gkeys (jobs d)) \<and> (\<forall>k. gget (jobs d) k = map_option mongo_docToRow (docs k))"

text \<open>The documents of the in-memory candidates.\<close>

definition candidate_docs :: "(string \<Rightarrow> mongoJob option) \<Rightarrow> gotime \<Rightarrow> string \<Rightarrow> mem \<Rightarrow> mongoJob list" where
  "candidate_docs docs now q d = map (\<lambda>r. the (docs (ID r))) (fetch_candidates now q d)"

lemma agreed_value:
  assumes "mongo_agrees docs d" "\<And>k j. docs k = Some j \<Longrightarrow> mj_ID j = k" "r \<in> set (gvals (jobs d))"
  obtains j where "docs (ID r) = Some j" "r = mongo_docToRow j"
proof -
  from assms(3) obtain k where "(k, r) \<in> set (jobs d)" by auto
  then have "gget (jobs d) k = Some r" using assms(1) gget_Some_iff [of "jobs d" k r] by (simp add: mongo_agrees_def)
  moreover have "gget (jobs d) k = map_option mongo_docToRow (docs k)" using assms(1) by (simp add: mongo_agrees_def)
  ultimately obtain j where "docs k = Some j" "r = mongo_docToRow j" by (cases "docs k") auto
  with assms(2) that show thesis by simp
qed

lemma agreed_ids:
  assumes "mongo_agrees docs d" "\<And>k j. docs k = Some j \<Longrightarrow> mj_ID j = k"
  shows "distinct (map ID (fetch_candidates t q d))"
proof -
  have "ID r = k" if "(k, r) \<in> set (jobs d)" for k r
  proof -
    have "gget (jobs d) k = Some r" using assms(1) that gget_Some_iff [of "jobs d" k r] by (simp add: mongo_agrees_def)
    moreover have "gget (jobs d) k = map_option mongo_docToRow (docs k)" using assms(1) by (simp add: mongo_agrees_def)
    ultimately obtain j where "docs k = Some j" "r = mongo_docToRow j" by (cases "docs k") auto
    with assms(2) show ?thesis by simp
  qed
  then have "map ID (map (promote t q) (gvals (jobs d))) = gkeys (jobs d)" by auto
  then have "distinct (map ID (map (promote t q) (gvals (jobs d))))" using assms(1) unfolding mongo_agrees_def by metis
  then have "distinct (map ID (filter (claimable t q) (map (promote t q) (gvals (jobs d)))))" by (rule distinct_map_filter)
  then show ?thesis
    unfolding distinct_map fetch_candidates_def fetch_order.distinct_sort_slice fetch_order.set_sort_slice .
qed

lemma candidate_docs_match:
  assumes "mongo_agrees docs d" "\<And>k j. docs k = Some j \<Longrightarrow> mj_ID j = k" "r \<in> set (fetch_candidates now q d)"
  obtains j where "docs (ID r) = Some j" "r = promote now q (mongo_docToRow j)" "claimable now q r"
proof -
  from assms(3) obtain r0 where r0: "r0 \<in> set (gvals (jobs d))" "r = promote now q r0" "claimable now q r"
    by (auto simp: set_fetch_candidates)
  from agreed_value [OF assms(1) _ r0(1)] assms(2) obtain j where "docs (ID r0) = Some j" "r0 = mongo_docToRow j" by blast
  with r0 that show thesis by simp
qed

lemma candidate_docs_order:
  assumes "mongo_agrees docs d" "\<And>k j. docs k = Some j \<Longrightarrow> mj_ID j = k" "mg_time c now = now"
  shows "sorted_wrt mongo_fetch_less (candidate_docs docs now q d)"
    and "set (candidate_docs docs now q d) = {j \<in> ran docs. mongo_claimable c q now j}"
    and "map (promote now q \<circ> mongo_docToRow) (candidate_docs docs now q d) = fetch_candidates now q d"
proof -
  let ?cs = "fetch_candidates now q d"
  note match = candidate_docs_match [OF assms(1,2)]
  show rows: "map (promote now q \<circ> mongo_docToRow) (candidate_docs docs now q d) = ?cs"
  proof -
    have "promote now q (mongo_docToRow (the (docs (ID r)))) = r" if "r \<in> set ?cs" for r
      using match [OF _ that] by (metis option.sel)
    then show ?thesis unfolding candidate_docs_def map_map by (intro map_idI) simp
  qed
  have "sorted (map fetch_key ?cs)" unfolding fetch_candidates_def by (rule fetch_order.sorted_sort_slice)
  moreover have "distinct (map fetch_key ?cs)"
    using agreed_ids [OF assms(1,2), of now q] by (auto simp: distinct_map inj_on_def)
  ultimately have "sorted_wrt (<) (map fetch_key ?cs)" by (simp add: strict_sorted_iff)
  then have "sorted_wrt (\<lambda>a b. fetch_key a < fetch_key b) ?cs" by (simp only: sorted_wrt_map)
  then have "sorted_wrt (\<lambda>a b. fetch_key (promote now q (mongo_docToRow a)) < fetch_key (promote now q (mongo_docToRow b)))
      (candidate_docs docs now q d)"
    unfolding rows [symmetric] sorted_wrt_map comp_def .
  then show "sorted_wrt mongo_fetch_less (candidate_docs docs now q d)" by (simp add: mongo_order.lt_iff [abs_def])
  show "set (candidate_docs docs now q d) = {j \<in> ran docs. mongo_claimable c q now j}"
  proof (intro set_eqI iffI)
    fix j assume "j \<in> set (candidate_docs docs now q d)"
    then obtain r where r: "r \<in> set ?cs" "j = the (docs (ID r))" by (auto simp: candidate_docs_def)
    from match [OF _ r(1)] obtain j' where "docs (ID r) = Some j'" "r = promote now q (mongo_docToRow j')" "claimable now q r" by blast
    then have "docs (ID r) = Some j" "claimable now q (promote now q (mongo_docToRow j))" using r(2) by simp_all
    then show "j \<in> {j \<in> ran docs. mongo_claimable c q now j}"
      by (auto simp: claimable_promote due_def mongo_claimable_def assms(3) ranI)
  next
    fix j assume j: "j \<in> {j \<in> ran docs. mongo_claimable c q now j}"
    then have at: "docs (mj_ID j) = Some j" using assms(2) by (auto simp: ran_def)
    then have "gget (jobs d) (mj_ID j) = Some (mongo_docToRow j)" using assms(1) by (simp add: mongo_agrees_def)
    then have "mongo_docToRow j \<in> set (gvals (jobs d))" by (force dest: map_of_SomeD)
    moreover have "claimable now q (promote now q (mongo_docToRow j))"
      using j by (auto simp: claimable_promote due_def mongo_claimable_def assms(3))
    ultimately have "promote now q (mongo_docToRow j) \<in> set ?cs" by (auto simp: set_fetch_candidates)
    then show "j \<in> set (candidate_docs docs now q d)" using at by (force simp: candidate_docs_def)
  qed
qed

lemma claimed_row:
  assumes "mg_time c now = now" "fp_LeaseDuration p > 0 \<Longrightarrow> mg_time c (now + fp_LeaseDuration p) = now + fp_LeaseDuration p"
  shows "mongo_docToRow (mongo_claim c p now j) = claim now p (promote now q (mongo_docToRow j))"
  using assms by (simp add: mongo_docToRow_def mongo_claim_def claim_def promote_def)

lemma stored_claims_agree:
  assumes "\<And>k. gget g k = map_option (promote now q \<circ> mongo_docToRow) (docs k)"
  shows "gget (put_rows (map (mongo_docToRow \<circ> mongo_claim c p now) js) g) k =
    map_option (promote now q \<circ> mongo_docToRow) (claims_stored c p now js docs k)"
  using assms
proof (induction js arbitrary: g docs)
  case Nil
  then show ?case by (simp add: put_rows_def claims_stored_def)
next
  case (Cons j js)
  let ?j = "mongo_claim c p now j"
  have "gget (gput (mj_ID j) (mongo_docToRow ?j) g) k = map_option (promote now q \<circ> mongo_docToRow) ((docs(mj_ID j \<mapsto> ?j)) k)" for k
  proof -
    have "promote now q (mongo_docToRow ?j) = mongo_docToRow ?j" by (simp add: promote_def)
    then show ?thesis using Cons.prems by (simp add: gmap_simps comp_def)
  qed
  from Cons.IH [OF this] show ?case by (simp add: put_rows_def claims_stored_def fun_upd_def)
qed


text \<open>Three jobs that are due, one of them scheduled, and one that is not.\<close>

definition mongo_jobs :: "mongoJob list" where
  "mongo_jobs =
     [(mongo_new_doc 1000000 (sample_job 0 []))\<lparr>mj_ID := ''a''\<rparr>, (mongo_new_doc 1000000 (sample_job 5 []))\<lparr>mj_ID := ''b''\<rparr>,
      (mongo_new_doc 1000000 ((sample_job 5 [])\<lparr>ip_RunAt := 2000000\<rparr>))\<lparr>mj_ID := ''c''\<rparr>,
      (mongo_new_doc 1000000 ((sample_job 9 [])\<lparr>ip_RunAt := 9000000\<rparr>))\<lparr>mj_ID := ''d''\<rparr>]"

definition mongo_db :: local_db where
  "mongo_db = empty_db\<lparr>db_jobs := mongo_jobs\<rparr>"

definition mongo_mem :: mem where
  "mongo_mem = mem_New\<lparr>jobs := map (\<lambda>j. (mj_ID j, mongo_docToRow j)) mongo_jobs,
     queues := [(''q'', \<lparr>qr_Name = ''q'', qr_Paused = False, qr_CreatedAt = 0, qr_UpdatedAt = 0\<rparr>)]\<rparr>"

definition mongo_fetch :: FetchParams where
  "mongo_fetch = \<lparr>fp_Queue = ''q'', fp_Limit = 2, fp_WorkerID = ''w'', fp_LeaseDuration = 5000000\<rparr>"

lemma mongo_stores_agree: "mongo_agrees (local_jobs_of mongo_db) mongo_mem"
  by (simp add: mongo_agrees_def mongo_db_def mongo_mem_def mongo_jobs_def mongo_new_doc_def lget_simps Let_def empty_db_def)

lemma mongo_fetched:
  "case mongo_jobFetchBatch local_mongo (\<lambda>_ s. s) 3000000 mongo_fetch mongo_db of (s', rows, err) \<Rightarrow> map ID rows = [''b'', ''c''] \<and> err = None"
  by code_simp


theorem mongo_fetch_claims_once_witness:
  "case mongo_jobFetchBatch local_mongo (\<lambda>_ s. s) 3000000 mongo_fetch mongo_db of (s', rows, err) \<Rightarrow>
     length rows = 2 \<and> distinct (map ID rows)"
proof -
  obtain s' rows where r: "mongo_jobFetchBatch local_mongo (\<lambda>_ s. s) 3000000 mongo_fetch mongo_db = (s', rows, None)"
    and ids: "map ID rows = [''b'', ''c'']" using mongo_fetched by (auto split: prod.splits)
  have "length rows = length (map ID rows)" by simp
  then have "length rows = 2" unfolding ids by simp
  with mongo_fetch_claims_once [OF local_mg.mongo_service_axioms _ r] r show ?thesis by (simp add: keeps_running_def)
qed

section \<open>Outcomes are fenced\<close>

text \<open>The update of an outcome, by what the store holds when the command is executed.\<close>


context mongo_service
begin

lemma update_fenced_cases:
  assumes "update_fenced c oid p f s = (s', err)"
  shows "(err = None \<longrightarrow> (\<exists>j. job_docs s oid = Some j \<and> fenced_filter oid p j \<and> job_docs s' = (job_docs s)(oid \<mapsto> f j))) \<and>
    ((\<forall>j. job_docs s oid = Some j \<longrightarrow> \<not> fenced_filter oid p j) \<longrightarrow> err \<noteq> None \<and> job_docs s' = job_docs s)"
proof -
  obtain r where r: "cl_update (mg_jobs c) (fenced_filter oid p) f s = (s', r)" using assms by (auto simp: update_fenced_def split: prod.splits sum.splits)
  have "err = (case r of Inl e \<Rightarrow> Some e | Inr (m, n) \<Rightarrow> if n = 0 then Some (stale_claim (sp_ID p)) else None)"
    using assms r by (auto simp: update_fenced_def split: prod.splits sum.splits)
  with jobs.update_at [OF r, of oid] show ?thesis by (cases r) (auto simp: fenced_filter_def split: if_splits)
qed

end

text \<open>
  An outcome over MongoDB is stored only under the claim that it belongs to. Of a call that
  succeeds, the job was running and claimed by the expected worker in the expected attempt at the
  command that changed it, which changed nothing else; when at that moment the claim has been
  rescued, taken over or ended, or the job is gone, the call fails and changes nothing, whatever
  happened since the key was looked up.
\<close>

theorem mongo_outcome_is_fenced:
  assumes "mongo_service c job_docs queue_docs leader_docs cursor_docs" "mg_from_hex c (sp_ID p) = Inr oid"
    and "mongo_jobSetStateIfRunning c others now p s = (s', err)"
    and "s1 = (if sp_Yield p \<or> \<not> terminal (sp_State p) then s else others s)"
  shows "(err = None \<longrightarrow> (\<exists>j free. job_docs s1 oid = Some j \<and> fenced_filter oid p j \<and> (free \<longrightarrow> terminal (sp_State p)) \<and>
      job_docs s' = (job_docs s1)(oid \<mapsto> if sp_Yield p then mongo_yield j else mongo_outcome c now p free j))) \<and>
    ((\<forall>j. job_docs s1 oid = Some j \<longrightarrow> \<not> fenced_filter oid p j) \<longrightarrow> err \<noteq> None \<and> job_docs s' \<in> {job_docs s, job_docs s1})"
proof (cases "sp_Yield p \<or> \<not> terminal (sp_State p)")
  case True
  with assms(2,3) have "update_fenced c oid p (if sp_Yield p then mongo_yield else mongo_outcome c now p False) s = (s', err)"
    by (auto simp: mongo_jobSetStateIfRunning_def)
  from mongo_service.update_fenced_cases [OF assms(1) this] True assms(4) show ?thesis by (cases "sp_Yield p") auto
next
  case False
  then have s1: "s1 = others s" "\<not> sp_Yield p" "terminal (sp_State p)" using assms(4) by simp_all
  consider (refused) "err \<noteq> None" "s' = s"
    | (stored) free where "update_fenced c oid p (mongo_outcome c now p free) s1 = (s', err)"
    using assms(2,3) s1 by (auto simp: mongo_jobSetStateIfRunning_def split: sum.splits option.splits)
  then show ?thesis
  proof cases
    case stored
    from mongo_service.update_fenced_cases [OF assms(1) stored] s1 show ?thesis by auto
  qed auto
qed

text \<open>An attempt whose claim is rescued between the two commands of its outcome.\<close>

definition mongo_claimed_db :: local_db where
  "mongo_claimed_db = fst (mongo_jobFetchBatch local_mongo (\<lambda>_ s. s) 3000000 mongo_fetch mongo_db)"

definition mongo_done :: JobSetStateParams where
  "mongo_done = blank_state\<lparr>sp_ID := ''b'', sp_State := JobStateCompleted, sp_ExpectedWorkerID := ''w'', sp_ExpectedAttempt := 1\<rparr>"

definition mongo_rescue :: "local_db \<Rightarrow> local_db" where
  "mongo_rescue s = fst (mongo_jobRescueStuck local_mongo \<lparr>rp_Queue = ''q'', rp_At = 8000000, rp_Before = 0\<rparr> s)"

theorem mongo_outcome_is_fenced_witness:
  "snd (mongo_jobSetStateIfRunning local_mongo (\<lambda>s. s) 7000000 mongo_done mongo_claimed_db) = None \<and>
   snd (mongo_jobSetStateIfRunning local_mongo mongo_rescue 7000000 mongo_done mongo_claimed_db) \<noteq> None"
proof -
  obtain s' err where r: "mongo_jobSetStateIfRunning local_mongo mongo_rescue 7000000 mongo_done mongo_claimed_db = (s', err)" by fastforce
  have id: "mg_from_hex local_mongo (sp_ID mongo_done) = Inr ''b''" by code_simp
  have st: "\<not> (sp_Yield mongo_done \<or> \<not> terminal (sp_State mongo_done))" by code_simp
  have "case local_jobs_of (mongo_rescue mongo_claimed_db) ''b'' of None \<Rightarrow> False | Some j \<Rightarrow> \<not> fenced_filter ''b'' mongo_done j" by code_simp
  then have gone: "\<forall>j. local_jobs_of (mongo_rescue mongo_claimed_db) ''b'' = Some j \<longrightarrow> \<not> fenced_filter ''b'' mongo_done j" by auto
  have "snd (mongo_jobSetStateIfRunning local_mongo (\<lambda>s. s) 7000000 mongo_done mongo_claimed_db) = None" by code_simp
  with mongo_outcome_is_fenced [OF local_mg.mongo_service_axioms id r, of "mongo_rescue mongo_claimed_db"] st gone r show ?thesis by simp
qed

section \<open>Cancelling a job that is claimed meanwhile\<close>

text \<open>
  A cancellation over MongoDB can report success and cancel nothing. \<^verbatim>\<open>jobCancel\<close> looks the
  job up and then sends an update with the same filter, whose count it ignores: when a worker claims
  the job in between, the call returns no error and the job is running.
\<close>

theorem mongo_cancel_of_claimed_job_reports_success:
  "let others = (\<lambda>s. fst (mongo_jobFetchBatch local_mongo (\<lambda>_ s. s) 3000000 mongo_fetch s));
       (s', err) = mongo_jobCancel local_mongo others 3000000 ''b'' mongo_db
   in err = None \<and> map_option mj_State (local_jobs_of s' ''b'') = Some JobStateRunning"
  by code_simp

text \<open>A heartbeat that does not move the end of the lease to another millisecond reports a lost claim.\<close>

theorem mongo_heartbeat_within_a_millisecond_is_lost:
  "let p = \<lparr>hp_ID = ''b'', hp_WorkerID = ''w'', hp_Attempt = 1, hp_At = 3000500, hp_LeaseExpiresAt = 8000500\<rparr>;
       (s', renewed) = mongo_jobHeartbeat local_mongo p mongo_claimed_db
   in renewed = Inr False \<and> local_jobs_of s' ''b'' = local_jobs_of mongo_claimed_db ''b'' \<and> map_option (mongo_claimed ''b'' ''w'' 1) (local_jobs_of s' ''b'') = Some True"
  by code_simp

end
