(* ===== verification/Mongo_Limits.thy ===== *)
theory Mongo_Limits
  imports Mongo_Service
begin

text \<open>
  The distributed rate limiter over MongoDB, for every service that satisfies the laws of
  \<open>mongo_service\<close>: a cursor that moves by less than a millisecond does not move, and the limiter waits
  for a move.
\<close>

section \<open>Rate limits below a millisecond\<close>

definition mongo_ops :: "'s mongo \<Rightarrow> 's cursor_ops" where
  "mongo_ops c = \<lparr>co_get = mongo_scheduleCursorGetOrCreate c (\<lambda>s. s), co_advance = mongo_scheduleCursorAdvance c, co_native = None\<rparr>"

text \<open>The cursor of the key is absent or at the stored instant \<open>t\<close>.\<close>

definition cursor_still :: "(string \<Rightarrow> mongoCursor option) \<Rightarrow> string \<Rightarrow> gotime \<Rightarrow> bool" where
  "cursor_still docs key t \<longleftrightarrow> (case docs key of None \<Rightarrow> True | Some d \<Rightarrow> mc_At d = t)"

context mongo_service
begin

lemma get_still:
  assumes "cursor_still (cursor_docs s) key (mg_time c t)"
    and "mongo_scheduleCursorGetOrCreate c (\<lambda>s. s) \<lparr>cc_ID = key, cc_InitialAt = t\<rparr> s = (s', r)"
  shows "cursor_still (cursor_docs s') key (mg_time c t)" and "r = Inr cur \<Longrightarrow> cr_At cur = mg_time c t"
proof -
  let ?d = "\<lparr>mc_ID = key, mc_At = mg_time c t\<rparr>"
  obtain r0 where r0: "cl_insert (mg_cursors c) ?d s = (s', r0)"
    using assms(2) by (auto simp: mongo_scheduleCursorGetOrCreate_def Let_def split: prod.splits sum.splits option.splits if_splits)
  have "cursor_docs s' = cursor_docs s \<or> cursor_docs s' = (cursor_docs s)(key \<mapsto> ?d)"
    using cursors.insert [of ?d s s'] cursors.insert_fails [of ?d s s'] r0 by (cases r0) auto
  then show still: "cursor_still (cursor_docs s') key (mg_time c t)" using assms(1) by (auto simp: cursor_still_def)
  show "cr_At cur = mg_time c t" if got: "r = Inr cur"
  proof -
    obtain d where f: "cl_find_one (mg_cursors c) (\<lambda>d. mc_ID d = key) s' = Inr (Some d)" and "cr_At cur = mc_At d"
      using assms(2) r0 got by (auto simp: mongo_scheduleCursorGetOrCreate_def Let_def split: sum.splits option.splits if_splits)
    moreover have "cursor_docs s' key = Some d" using cursors.find_one [OF f] by auto
    ultimately show ?thesis using still by (simp add: cursor_still_def)
  qed
qed

lemma advance_still:
  assumes "cursor_still (cursor_docs s) key (mg_time c t)" "mg_time c n = mg_time c t"
    and "mongo_scheduleCursorAdvance c \<lparr>ca_ID = key, ca_Expected = e, ca_Next = n\<rparr> s = (s', r)"
  shows "cursor_still (cursor_docs s') key (mg_time c t)" and "r \<noteq> Inr True"
proof -
  let ?f = "\<lambda>d. mc_ID d = key \<and> mc_At d = mg_time c e" and ?u = "\<lambda>d. d\<lparr>mc_At := mg_time c n\<rparr>"
  obtain r0 where r0: "cl_update (mg_cursors c) ?f ?u s = (s', r0)" and r: "r = (case r0 of Inl x \<Rightarrow> Inl x | Inr (m, k) \<Rightarrow> Inr (k = 1))"
    using assms(3) by (auto simp: mongo_scheduleCursorAdvance_def split: prod.splits sum.splits)
  have same: "?u d = d" if "cursor_docs s key = Some d" for d using assms(1,2) that by (simp add: cursor_still_def)
  then have "cursor_docs s' = cursor_docs s \<and> (\<forall>m k. r0 = Inr (m, k) \<longrightarrow> k = 0)"
    using cursors.update_at [OF r0, of key] by (auto simp: fun_upd_idem_iff)
  then show "cursor_still (cursor_docs s') key (mg_time c t)" "r \<noteq> Inr True" using assms(1) r by (auto split: sum.splits prod.splits)
qed

end

text \<open>A loop none of whose rounds wins ends in an error, if it ends.\<close>

lemma rate_loop_never_wins:
  assumes loop: "rate_loop ops env ctx key initial decide checks i s = Some (s', r)" and "I s"
    and round: "\<And>i s s1 cursor. I s \<Longrightarrow> co_get ops \<lparr>cc_ID = key, cc_InitialAt = initial\<rparr> (env (2 * i) s) = (s1, Inr cursor) \<Longrightarrow>
      \<exists>nxt. decide cursor = TryMove nxt \<and> (\<forall>s2 adv. co_advance ops \<lparr>ca_ID = key, ca_Expected = cr_At cursor, ca_Next = nxt\<rparr>
        (env (2 * i + 1) s1) = (s2, adv) \<longrightarrow> adv \<noteq> Inr True \<and> I s2)"
  shows "isl r"
proof -
  let ?P = "\<lambda>ops' env' ctx' key' initial' decide' checks' (i'::nat) s' (y :: _ \<times> RateLimitAcquireResult res).
    ops' = ops \<longrightarrow> env' = env \<longrightarrow> key' = key \<longrightarrow> initial' = initial \<longrightarrow> decide' = decide \<longrightarrow> I s' \<longrightarrow> isl (snd y)"
  have "?P ops env ctx key initial decide checks i s (s', r)"
  proof (rule rate_loop.raw_induct [where P = ?P, OF _ loop], intro impI)
    fix f ops' env' ctx' key' initial' decide' checks' i s y
    assume IH: "\<And>ops' env' ctx' key' initial' decide' checks' i s y.
        f ops' env' ctx' key' initial' decide' checks' i s = Some y \<Longrightarrow> ?P ops' env' ctx' key' initial' decide' checks' i s y"
      and eqs: "ops' = ops" "env' = env" "key' = key" "initial' = initial" "decide' = decide" and inv: "I s"
      and step: "(case co_get ops' \<lparr>cc_ID = key', cc_InitialAt = initial'\<rparr> (env' (2 * i) s) of
        (s1, Inl e) \<Rightarrow> Some (s1, Inl e)
      | (s1, Inr cursor) \<Rightarrow>
          case decide' cursor of Refuse t \<Rightarrow> Some (s1, Inr (refused t))
          | TryMove nxt \<Rightarrow>
              case co_advance ops' \<lparr>ca_ID = key', ca_Expected = cr_At cursor, ca_Next = nxt\<rparr> (env' (2 * i + 1) s1) of
              (s2, Inl e) \<Rightarrow> Some (s2, Inl e)
              | (s2, Inr advanced) \<Rightarrow>
                  if advanced then Some (s2, Inr acquired)
                  else if checks' cursor
                       then case ctx' i of None \<Rightarrow> f ops' env' ctx' key' initial' decide' checks' (Suc i) s2 | Some e \<Rightarrow> Some (s2, Inl e)
                       else f ops' env' ctx' key' initial' decide' checks' (Suc i) s2
          | Granted \<Rightarrow> Some (s1, Inr acquired)) = Some y"
    obtain s1 got where got: "co_get ops \<lparr>cc_ID = key, cc_InitialAt = initial\<rparr> (env (2 * i) s) = (s1, got)" by fastforce
    show "isl (snd y)"
    proof (cases got)
      case (Inl e)
      with step got show ?thesis by (auto simp: eqs)
    next
      case (Inr cursor)
      from round [OF inv got [unfolded Inr]] obtain nxt where d: "decide cursor = TryMove nxt" and
        a: "\<And>s2 adv. co_advance ops \<lparr>ca_ID = key, ca_Expected = cr_At cursor, ca_Next = nxt\<rparr> (env (2 * i + 1) s1) = (s2, adv) \<Longrightarrow>
          adv \<noteq> Inr True \<and> I s2" by blast
      obtain s2 adv where adv: "co_advance ops \<lparr>ca_ID = key, ca_Expected = cr_At cursor, ca_Next = nxt\<rparr> (env (2 * i + 1) s1) = (s2, adv)" by fastforce
      have next_round: "isl (snd y)" if "f ops env ctx' key initial decide checks' (Suc i) s2 = Some y"
        using IH [OF that] a [OF adv] by blast
      from step got Inr d adv a [OF adv] next_round show ?thesis
        by (cases adv) (auto simp: eqs split: if_splits option.splits)
    qed
  qed
  with \<open>I s\<close> show ?thesis by simp
qed

lemma gcra_keeps_millisecond:
  assumes "mongo_service c job_docs queue_docs leader_docs cursor_docs" "t mod Millisecond + interval < Millisecond" "0 \<le> interval" "0 \<le> tolerance"
    and "cr_At cur = mg_time c t"
  shows "\<exists>n. gcra_decide interval tolerance t cur = TryMove n \<and> mg_time c n = mg_time c t"
proof -
  note dates = mongo_service.dates [OF assms(1)]
  have le: "cr_At cur \<le> t" by (simp add: assms(5) dates)
  then have "gcra_decide interval tolerance t cur = TryMove (t + interval)" using assms(4) by (auto simp: gcra_decide_def Let_def)
  moreover have "mg_time c (t + interval) = mg_time c t"
  proof -
    have "(t + interval) mod Millisecond = t mod Millisecond + interval"
      using assms(2,3) mod_add_left_eq [of t Millisecond interval] by (simp add: mod_pos_pos_trivial)
    then show ?thesis by (simp add: dates)
  qed
  ultimately show ?thesis by blast
qed

lemma tolerance_nonneg: "0 \<le> multiplyDuration (rateInterval period limit) n"
  using rateInterval_pos [of period limit] by (simp add: multiplyDuration_def max_duration_def)


text \<open>Five thousand permits a second; the context ends in the third round.\<close>

definition fast_limit :: RateLimitAcquireParams where
  "fast_limit = \<lparr>ra_Key = ''k'', ra_Now = 7300000, ra_Limit = 5000, ra_Period = 1000000000, ra_Burst = 1, ra_Mode = RateLimitModeGCRA\<rparr>"

definition ends_at :: "nat \<Rightarrow> nat \<Rightarrow> goerr option" where
  "ends_at n i = (if i = n then Some (Sentinel Canceled) else None)"

lemma fast_limit_facts:
  "rate_params_ok fast_limit" "ra_Mode fast_limit = RateLimitModeGCRA" "rateInterval (ra_Period fast_limit) (ra_Limit fast_limit) = 200000"
  by (simp_all add: fast_limit_def rate_params_ok_def effective_burst_def rateInterval_exact)

lemma fast_limit_loop:
  "AcquireRateLimit (mongo_ops local_mongo) env ctx fast_limit s =
    rate_loop (mongo_ops local_mongo) env ctx ''k'' 7300000 (gcra_decide 200000 0 7300000) (\<lambda>_. True) 0 s"
  using fast_limit_facts by (simp add: AcquireRateLimit_def rate_params_ok_def mongo_ops_def Let_def effective_burst_def multiplyDuration_def fast_limit_def)


text \<open>With a context that does not end, the call does not return.\<close>

lemma rate_loop_spins:
  fixes s :: 's
  assumes "\<And>i. ctx i = None" "co_get ops \<lparr>cc_ID = key, cc_InitialAt = initial\<rparr> s = (s, Inr cursor)" "decide cursor = TryMove nxt"
    and "co_advance ops \<lparr>ca_ID = key, ca_Expected = cr_At cursor, ca_Next = nxt\<rparr> s = (s, Inr False)"
  shows "rate_loop ops (\<lambda>_ s. s) ctx key initial decide checks i s = None"
proof (rule ccontr)
  assume "rate_loop ops (\<lambda>_ s. s) ctx key initial decide checks i s \<noteq> None"
  then obtain y where y: "rate_loop ops (\<lambda>_ s. s) ctx key initial decide checks i s = Some y" by blast
  let ?P = "\<lambda>ops' (env' :: nat \<Rightarrow> 's \<Rightarrow> 's) ctx' key' initial' decide' (checks' :: ScheduleCursorResult \<Rightarrow> bool) (i' :: nat) s' (y :: 's \<times> RateLimitAcquireResult res).
    \<not> (ops' = ops \<and> env' = (\<lambda>_ s. s) \<and> ctx' = ctx \<and> key' = key \<and> initial' = initial \<and> decide' = decide \<and> s' = s)"
  have "?P ops (\<lambda>_ s. s) ctx key initial decide checks i s y"
    by (rule rate_loop.raw_induct [where P = ?P, OF _ y]) (use assms in \<open>auto split: if_splits\<close>, blast+)
  then show False by simp
qed

theorem mongo_gcra_never_returns:
  "AcquireRateLimit (mongo_ops local_mongo) (\<lambda>_ s. s) (\<lambda>_. None) fast_limit (empty_db\<lparr>db_cursors := [\<lparr>mc_ID = ''k'', mc_At = 7000000\<rparr>]\<rparr>) = None"
  unfolding fast_limit_loop
proof (rule rate_loop_spins)
  let ?s = "empty_db\<lparr>db_cursors := [\<lparr>mc_ID = ''k'', mc_At = 7000000\<rparr>]\<rparr>"
  show "co_get (mongo_ops local_mongo) \<lparr>cc_ID = ''k'', cc_InitialAt = 7300000\<rparr> ?s = (?s, Inr \<lparr>cr_At = 7000000, cr_Created = False\<rparr>)"
    by code_simp
  show "gcra_decide 200000 0 7300000 \<lparr>cr_At = 7000000, cr_Created = False\<rparr> = TryMove 7500000" by code_simp
  show "co_advance (mongo_ops local_mongo) \<lparr>ca_ID = ''k'', ca_Expected = cr_At \<lparr>cr_At = 7000000, cr_Created = False\<rparr>, ca_Next = 7500000\<rparr> ?s = (?s, Inr False)"
    by code_simp
qed simp

end
