(* ===== verification/Sql.thy ===== *)
theory Sql
  imports Pagination Rate_Limit Firestore
begin

text \<open>
  What the two SQL drivers share (\<^verbatim>\<open>driver/pgxv5\<close>, \<^verbatim>\<open>driver/stdlib\<close>): rows, statements and clauses. The database and its client
  library are a parameter: the record \<open>sql\<close> of tables, each with the kinds of statements that the
  drivers send. A \<^verbatim>\<open>WHERE\<close> clause is a predicate on rows, a \<^verbatim>\<open>SET\<close> clause a function on them, an
  \<^verbatim>\<open>ORDER BY\<close> clause a comparison; a column that may be \<^verbatim>\<open>NULL\<close> is an option, and a comparison with
  \<^verbatim>\<open>NULL\<close> is not true. Every statement is one step of the database; operations that send more than one
  outside a transaction take what happens in between as an argument. \<open>sq_time\<close> is the instant that
  the database stores for an instant, \<open>sq_json\<close> the text that it returns for a JSON document, \<open>sq_number\<close> the number that it takes
  a text for when it compares it with an identifier, \<open>sq_permanent\<close> whether a key is \<^verbatim>\<open>LIKE 'uf2_%'\<close>,
  \<open>sq_no_rows\<close> the error of an empty result. Other comparisons of text are exact.
\<close>

section \<open>Rows\<close>

record sqlJob =
  sj_id :: int
  sj_queue :: string
  sj_kind :: string
  sj_args :: string
  sj_state :: JobState
  sj_priority :: int
  sj_run_at :: gotime
  sj_created_at :: gotime
  sj_attempted_at :: "gotime option"
  sj_started_at :: "gotime option"
  sj_lease_expires_at :: "gotime option"
  sj_finalized_at :: "gotime option"
  sj_attempt_num :: int
  sj_max_retry :: int
  sj_timeout_ms :: int
  sj_unique_key :: "string option"
  sj_worker_id :: "string option"
  sj_tags :: "string list"
  sj_errors :: "AttemptError list"
  sj_pipeline_id :: string

record sqlQueue =
  sq_name :: string
  sq_paused :: bool
  sq_created_at :: gotime
  sq_updated_at :: gotime

record sqlLeader =
  sl_name :: string
  sl_worker_id :: string
  sl_expires_at :: gotime

record sqlCursor =
  sc_id :: string
  sc_cursor_at :: gotime

section \<open>Statements\<close>

text \<open>
  \<open>tb_select f lt n\<close> returns the rows that satisfy \<open>f\<close>, in the order of \<open>lt\<close>, at most \<open>n\<close>. \<open>tb_insert\<close> fails when
  a key is taken, \<open>tb_insert_new\<close> (\<^verbatim>\<open>ON CONFLICT DO NOTHING\<close>) then inserts nothing; an inserted row gets
  its identifier from the database. \<open>tb_upsert r f u\<close> inserts \<open>r\<close> or updates the row with its key if it satisfies
  \<open>f\<close>. \<open>tb_claim\<close> updates the rows that a subquery \<^verbatim>\<open>FOR UPDATE SKIP LOCKED\<close> selects and returns them.
  The number is that of the rows affected.
\<close>

record ('r, 's) table =
  tb_select :: "('r \<Rightarrow> bool) \<Rightarrow> ('r \<Rightarrow> 'r \<Rightarrow> bool) \<Rightarrow> int option \<Rightarrow> 's \<Rightarrow> 'r list res"
  tb_insert :: "'r \<Rightarrow> 's \<Rightarrow> 's \<times> 'r res"
  tb_insert_new :: "'r \<Rightarrow> 's \<Rightarrow> 's \<times> 'r option res"
  tb_upsert :: "'r \<Rightarrow> ('r \<Rightarrow> bool) \<Rightarrow> ('r \<Rightarrow> 'r) \<Rightarrow> 's \<Rightarrow> 's \<times> int res"
  tb_update :: "('r \<Rightarrow> bool) \<Rightarrow> ('r \<Rightarrow> 'r) \<Rightarrow> 's \<Rightarrow> 's \<times> int res"
  tb_claim :: "('r \<Rightarrow> bool) \<Rightarrow> ('r \<Rightarrow> 'r \<Rightarrow> bool) \<Rightarrow> int \<Rightarrow> ('r \<Rightarrow> 'r) \<Rightarrow> 's \<Rightarrow> 's \<times> 'r list res"
  tb_delete :: "('r \<Rightarrow> bool) \<Rightarrow> 's \<Rightarrow> 's \<times> int res"

record 's sql =
  sq_jobs :: "(sqlJob, 's) table"
  sq_queues :: "(sqlQueue, 's) table"
  sq_leaders :: "(sqlLeader, 's) table"
  sq_cursors :: "(sqlCursor, 's) table"
  sq_group_states :: "string \<Rightarrow> 's \<Rightarrow> (JobState \<times> int) list res"
  sq_time :: "gotime \<Rightarrow> gotime"
  sq_json :: "string \<Rightarrow> string"
  sq_number :: "string \<Rightarrow> int res"
  sq_permanent :: "string \<Rightarrow> bool"
  sq_no_rows :: goerr

definition unordered :: "'r \<Rightarrow> 'r \<Rightarrow> bool" where
  "unordered a b \<longleftrightarrow> False"

text \<open>A statement for one row: the first row of the result, or the error of an empty result.\<close>

definition query_row :: "'s sql \<Rightarrow> 'r list res \<Rightarrow> 'r res" where
  "query_row c r = (case r of Inl e \<Rightarrow> Inl e | Inr [] \<Rightarrow> Inl (sq_no_rows c) | Inr (x # _) \<Rightarrow> Inr x)"

text \<open>\<^verbatim>\<open>strconv.ParseInt(id, 10, 64)\<close>, with the error that the drivers wrap around its own.\<close>

definition ParseInt :: "string \<Rightarrow> int option" where
  "ParseInt s = (case s of
      [] \<Rightarrow> None
    | c # digits \<Rightarrow> if c = CHR ''+'' then (if list_all is_digit digits then parse_int64 digits else None) else parse_int64 s)"

definition bad_id :: "string \<Rightarrow> goerr" where
  "bad_id jid = wrap_prefix (''invalid job id '' @ go_quote jid) (Errorf (''strconv.ParseInt: parsing '' @ go_quote jid @ '': invalid syntax''))"

section \<open>Clauses\<close>

definition sql_listed :: "'s sql \<Rightarrow> JobListParams \<Rightarrow> (gotime \<times> int) option \<Rightarrow> sqlJob \<Rightarrow> bool" where
  "sql_listed c p cursor j \<longleftrightarrow>
     (jl_Queue p = [] \<or> sj_queue j = jl_Queue p) \<and> (jl_State p = NoState \<or> sj_state j = jl_State p) \<and>
     (jl_Kind p = [] \<or> sj_kind j = jl_Kind p) \<and>
     (case cursor of
        None \<Rightarrow> True
      | Some (cursorAt, n) \<Rightarrow> sj_created_at j < sq_time c cursorAt \<or> sj_created_at j = sq_time c cursorAt \<and> sj_id j < n)"

definition sql_list_less :: "sqlJob \<Rightarrow> sqlJob \<Rightarrow> bool" where
  "sql_list_less a b = (if sj_created_at a \<noteq> sj_created_at b then sj_created_at a > sj_created_at b else sj_id a > sj_id b)"

definition sql_limit :: "int \<Rightarrow> int" where
  "sql_limit n = (if n \<le> 0 \<or> n > 1000 then 100 else n)"

definition sql_due :: "'s sql \<Rightarrow> string \<Rightarrow> gotime \<Rightarrow> sqlJob \<Rightarrow> bool" where
  "sql_due c queue now j \<longleftrightarrow> sj_queue j = queue \<and> sj_state j \<in> {JobStateAvailable, JobStateScheduled} \<and> sj_run_at j \<le> sq_time c now"

definition sql_fetch_less :: "sqlJob \<Rightarrow> sqlJob \<Rightarrow> bool" where
  "sql_fetch_less a b =
     (if sj_priority a \<noteq> sj_priority b then sj_priority a > sj_priority b
      else if sj_run_at a \<noteq> sj_run_at b then sj_run_at a < sj_run_at b
      else if sj_created_at a \<noteq> sj_created_at b then sj_created_at a < sj_created_at b
      else sj_id a < sj_id b)"

definition sql_claim :: "'s sql \<Rightarrow> gotime \<Rightarrow> duration \<Rightarrow> string \<Rightarrow> sqlJob \<Rightarrow> sqlJob" where
  "sql_claim c now lease worker j = j\<lparr>sj_state := JobStateRunning, sj_attempted_at := Some (sq_time c now), sj_started_at := None,
     sj_lease_expires_at := (if lease > 0 then Some (sq_time c (now + lease)) else None), sj_attempt_num := sj_attempt_num j + 1,
     sj_worker_id := Some worker\<rparr>"

definition sql_stuck :: "'s sql \<Rightarrow> JobRescueParams \<Rightarrow> sqlJob \<Rightarrow> bool" where
  "sql_stuck c p j \<longleftrightarrow> sj_queue j = rp_Queue p \<and> sj_state j = JobStateRunning \<and>
     (case sj_lease_expires_at j of
        Some e \<Rightarrow> e \<le> sq_time c (rp_At p)
      | None \<Rightarrow> (case sj_attempted_at j of None \<Rightarrow> False | Some a \<Rightarrow> a \<le> sq_time c (rp_Before p)))"

definition sql_release :: "sqlJob \<Rightarrow> sqlJob" where
  "sql_release j = j\<lparr>sj_state := JobStateAvailable, sj_attempted_at := None, sj_started_at := None, sj_lease_expires_at := None, sj_worker_id := None\<rparr>"

definition sql_claimed :: "int \<Rightarrow> string \<Rightarrow> int \<Rightarrow> sqlJob \<Rightarrow> bool" where
  "sql_claimed n worker attempt j \<longleftrightarrow>
     sj_id j = n \<and> sj_state j = JobStateRunning \<and> sj_worker_id j = Some worker \<and> sj_attempt_num j = attempt"

definition sql_fenced :: "int \<Rightarrow> JobSetStateParams \<Rightarrow> sqlJob \<Rightarrow> bool" where
  "sql_fenced n p j \<longleftrightarrow> sj_id j = n \<and> sj_state j = JobStateRunning \<and>
     (sp_ExpectedWorkerID p = [] \<or> sj_worker_id j = Some (sp_ExpectedWorkerID p)) \<and>
     (sp_ExpectedAttempt p = 0 \<or> sj_attempt_num j = sp_ExpectedAttempt p)"

definition sql_yield :: "sqlJob \<Rightarrow> sqlJob" where
  "sql_yield j = (sql_release j)\<lparr>sj_attempt_num := sj_attempt_num j - 1\<rparr>"

text \<open>\<^verbatim>\<open>unique_key = CASE WHEN terminal AND unique_key NOT LIKE 'uf2_%' THEN NULL ELSE unique_key END\<close>\<close>

definition released_key :: "'s sql \<Rightarrow> bool \<Rightarrow> string option \<Rightarrow> string option" where
  "released_key c ended key = (case key of None \<Rightarrow> None | Some k \<Rightarrow> if ended \<and> \<not> sq_permanent c k then None else Some k)"

definition sql_main :: "'s sql \<Rightarrow> gotime \<Rightarrow> JobSetStateParams \<Rightarrow> sqlJob \<Rightarrow> sqlJob" where
  "sql_main c now p j =
     (let ended = terminal (sp_State p); retries = (sp_State p = JobStateRetryable)
      in j\<lparr>sj_state := (if retries then JobStateAvailable else sp_State p), sj_worker_id := None, sj_lease_expires_at := None,
          sj_finalized_at := (if ended then Some (sq_time c now) else sj_finalized_at j),
          sj_run_at := (if retries \<and> \<not> IsZero (sp_RetryAt p) then sq_time c (sp_RetryAt p) else sj_run_at j),
          sj_unique_key := released_key c ended (sj_unique_key j)\<rparr>)"

definition sql_append :: "AttemptError list \<Rightarrow> sqlJob \<Rightarrow> sqlJob" where
  "sql_append es j = j\<lparr>sj_errors := sj_errors j @ es\<rparr>"

definition sql_cancel :: "'s sql \<Rightarrow> gotime \<Rightarrow> sqlJob \<Rightarrow> sqlJob" where
  "sql_cancel c now j = j\<lparr>sj_state := JobStateCancelled, sj_finalized_at := Some (sq_time c now), sj_unique_key := released_key c True (sj_unique_key j)\<rparr>"

definition sql_waits :: "int \<Rightarrow> sqlJob \<Rightarrow> bool" where
  "sql_waits n j \<longleftrightarrow> sj_id j = n \<and> sj_state j \<in> {JobStateAvailable, JobStateScheduled}"

definition no_queue :: "string \<Rightarrow> goerr" where
  "no_queue name = wrap_sentinel ErrNotFound (''queue '' @ go_quote name)"

definition not_cancellable :: "string \<Rightarrow> goerr" where
  "not_cancellable jid = wrap_sentinel ErrConflict (''job '' @ go_quote jid @ '' cannot be cancelled in its current state'')"

text \<open>The row of a new job; the identifier is the database's.\<close>

definition sql_new_row :: "'s sql \<Rightarrow> gotime \<Rightarrow> JobInsertParams \<Rightarrow> sqlJob" where
  "sql_new_row c now p =
     (let runAt = (if IsZero (ip_RunAt p) then now else ip_RunAt p)
      in \<lparr>sj_id = 0, sj_queue = ip_Queue p, sj_kind = ip_Kind p, sj_args = sq_json c (ip_Args p),
          sj_state = (if now < runAt then JobStateScheduled else JobStateAvailable), sj_priority = ip_Priority p,
          sj_run_at = sq_time c runAt, sj_created_at = sq_time c now, sj_attempted_at = None, sj_started_at = None,
          sj_lease_expires_at = None, sj_finalized_at = None, sj_attempt_num = 0, sj_max_retry = ip_MaxRetry p,
          sj_timeout_ms = Milliseconds (ip_Timeout p), sj_unique_key = (if ip_UniqueKey p = [] then None else Some (ip_UniqueKey p)),
          sj_worker_id = None, sj_tags = ip_Tags p, sj_errors = [], sj_pipeline_id = ip_PipelineID p\<rparr>)"

end
