(* ===== verification/Pgx.thy ===== *)
theory Pgx
  imports Sql
begin

text \<open>
  The executor of \<^verbatim>\<open>driver/pgxv5/executor.go\<close>, one definition per function, over the statements of \<open>Sql\<close>.
\<close>

definition pgx_Capabilities :: Capabilities where
  "pgx_Capabilities = \<lparr>NativeTx = True, ListenNotify = True, ChangeStreams = False, SkipLocked = True, UniqueJobs = True,
     AdvisoryLocks = False, LinearizableLeases = True, LinearizableCAS = True, LifecycleTimestamps = True, BoundedFetch = True,
     StrictFetchOrdering = True\<rparr>"

section \<open>Scanning\<close>

definition pgx_scanJobRow :: "sqlJob \<Rightarrow> JobRow" where
  "pgx_scanJobRow j = \<lparr>ID = Itoa (sj_id j), Queue = sj_queue j, Kind = sj_kind j, Args = sj_args j, State = sj_state j,
     Priority = sj_priority j, RunAt = sj_run_at j, CreatedAt = sj_created_at j, AttemptedAt = sj_attempted_at j,
     StartedAt = sj_started_at j, LeaseExpiresAt = sj_lease_expires_at j, FinalizedAt = sj_finalized_at j,
     AttemptNum = sj_attempt_num j, MaxRetry = sj_max_retry j, Timeout = wrap64 (sj_timeout_ms j * Millisecond),
     Tags = sj_tags j, Errors = sj_errors j,
     UniqueKey = (case sj_unique_key j of None \<Rightarrow> [] | Some k \<Rightarrow> k), WorkerID = (case sj_worker_id j of None \<Rightarrow> [] | Some w \<Rightarrow> w),
     PipelineID = sj_pipeline_id j\<rparr>"

definition pgx_scanJobRows :: "sqlJob list res \<Rightarrow> JobRow list res" where
  "pgx_scanJobRows r = (case r of Inl e \<Rightarrow> Inl e | Inr js \<Rightarrow> Inr (map pgx_scanJobRow js))"

definition pgx_scanQueueRow :: "sqlQueue \<Rightarrow> QueueRow" where
  "pgx_scanQueueRow q = \<lparr>qr_Name = sq_name q, qr_Paused = sq_paused q, qr_CreatedAt = sq_created_at q, qr_UpdatedAt = sq_updated_at q\<rparr>"

definition encodeError :: "gotime \<Rightarrow> JobSetStateParams \<Rightarrow> AttemptError list" where
  "encodeError now p = (case sp_Err p of
      None \<Rightarrow> []
    | Some e \<Rightarrow> [\<lparr>ae_At = now, ae_Attempt = sp_Attempt p, ae_Error = e, ae_Trace = (case sp_Trace p of None \<Rightarrow> [] | Some t \<Rightarrow> t)\<rparr>])"

definition isNoRows :: "goerr \<Rightarrow> bool" where
  "isNoRows e \<longleftrightarrow> error_text e = ''no rows in result set''"

section \<open>Insertion and lookup\<close>

definition pgx_findUniqueJob :: "'s sql \<Rightarrow> string \<Rightarrow> 's \<Rightarrow> JobRow res" where
  "pgx_findUniqueJob c key s =
     (case query_row c (tb_select (sq_jobs c) (\<lambda>j. sj_unique_key j = Some key) unordered (Some 1) s) of
        Inl e \<Rightarrow> Inl e | Inr j \<Rightarrow> Inr (pgx_scanJobRow j))"

text \<open>\<open>others\<close> happens between the insertion and the lookup of the job that holds the key.\<close>

definition pgx_insert_one :: "'s sql \<Rightarrow> ('s \<Rightarrow> 's) \<Rightarrow> gotime \<Rightarrow> JobInsertParams \<Rightarrow> 's \<Rightarrow> 's \<times> JobInsertResult res" where
  "pgx_insert_one c others now p s =
     (let duplicate = (\<lambda>s1. (others s1, case pgx_findUniqueJob c (ip_UniqueKey p) (others s1) of
            Inl e \<Rightarrow> Inl e | Inr row \<Rightarrow> Inr \<lparr>ir_Job = Some row, ir_UniqueSkip = True\<rparr>))
      in case tb_insert_new (sq_jobs c) (sql_new_row c now p) s of
           (s1, Inl e) \<Rightarrow> if isNoRows e then duplicate s1 else (s1, Inl (wrap_prefix ''insert job'' e))
         | (s1, Inr None) \<Rightarrow> duplicate s1
         | (s1, Inr (Some j)) \<Rightarrow> (s1, Inr \<lparr>ir_Job = Some (pgx_scanJobRow j), ir_UniqueSkip = False\<rparr>))"

fun pgx_insert_loop :: "'s sql \<Rightarrow> (nat \<Rightarrow> 's \<Rightarrow> 's) \<Rightarrow> gotime \<Rightarrow> JobInsertParams list \<Rightarrow> 's \<Rightarrow> 's \<times> JobInsertResult list res" where
  "pgx_insert_loop c others now [] s = (s, Inr [])"
| "pgx_insert_loop c others now (p # ps) s =
     (case pgx_insert_one c (others (length ps)) now p s of
        (s1, Inl e) \<Rightarrow> (s1, Inl e)
      | (s1, Inr r) \<Rightarrow>
          (case pgx_insert_loop c others now ps s1 of
             (s2, Inl e) \<Rightarrow> (s2, Inl e)
           | (s2, Inr rs) \<Rightarrow> (s2, Inr (r # rs))))"

definition pgx_jobInsertMany :: "'s sql \<Rightarrow> (nat \<Rightarrow> 's \<Rightarrow> 's) \<Rightarrow> gotime \<Rightarrow> JobInsertParams list \<Rightarrow> 's \<Rightarrow> 's \<times> JobInsertResult list res" where
  "pgx_jobInsertMany c others now ps s = pgx_insert_loop c others now ps s"

definition pgx_jobGetByID :: "'s sql \<Rightarrow> string \<Rightarrow> 's \<Rightarrow> JobRow res" where
  "pgx_jobGetByID c jid s =
     (case ParseInt jid of
        None \<Rightarrow> Inl (bad_id jid)
      | Some n \<Rightarrow>
          (case query_row c (tb_select (sq_jobs c) (\<lambda>j. sj_id j = n) unordered None s) of
             Inl e \<Rightarrow> Inl (if e = sq_no_rows c then not_found_job jid else e)
           | Inr j \<Rightarrow> Inr (pgx_scanJobRow j)))"

definition pgx_list_cursor :: "string \<Rightarrow> (gotime \<times> int) option res" where
  "pgx_list_cursor cursor =
     (if cursor = [] then Inr None
      else (case DecodeJobCursor cursor of
          Inl e \<Rightarrow> Inl e
        | Inr (cursorAt, cursorID) \<Rightarrow>
            (case ParseInt cursorID of
               None \<Rightarrow> Inl (wrap_sentinel ErrInvalidCursor ''invalid postgres job id'')
             | Some n \<Rightarrow> Inr (Some (cursorAt, n)))))"

definition pgx_jobList :: "'s sql \<Rightarrow> JobListParams \<Rightarrow> 's \<Rightarrow> JobRow list res" where
  "pgx_jobList c p s =
     (case pgx_list_cursor (jl_Cursor p) of
        Inl e \<Rightarrow> Inl e
      | Inr cursor \<Rightarrow> pgx_scanJobRows (tb_select (sq_jobs c) (sql_listed c p cursor) sql_list_less (Some (sql_limit (jl_Limit p))) s))"

definition pgx_queueStats :: "'s sql \<Rightarrow> string \<Rightarrow> 's \<Rightarrow> QueueStats res" where
  "pgx_queueStats c queue s =
     (case sq_group_states c queue s of
        Inl e \<Rightarrow> Inl e
      | Inr groups \<Rightarrow>
          Inr (fold (\<lambda>(st, n) stats. stats\<lparr>qs_States := gput st n (qs_States stats), qs_Total := qs_Total stats + n\<rparr>)
            groups \<lparr>qs_Queue = queue, qs_States = [], qs_Total = 0\<rparr>))"

section \<open>Claims\<close>

definition pgx_jobFetchBatch :: "'s sql \<Rightarrow> gotime \<Rightarrow> FetchParams \<Rightarrow> 's \<Rightarrow> 's \<times> JobRow list res" where
  "pgx_jobFetchBatch c now p s =
     (let limit = (if fp_Limit p \<le> 0 then 1 else fp_Limit p)
      in case tb_claim (sq_jobs c) (sql_due c (fp_Queue p) now) sql_fetch_less limit (sql_claim c now (fp_LeaseDuration p) (fp_WorkerID p)) s of
           (s1, Inl e) \<Rightarrow> (s1, Inl (wrap_prefix ''fetch batch'' e))
         | (s1, Inr js) \<Rightarrow> (s1, pgx_scanJobRows (Inr js)))"

definition pgx_jobRescueStuck :: "'s sql \<Rightarrow> JobRescueParams \<Rightarrow> 's \<Rightarrow> 's \<times> int res" where
  "pgx_jobRescueStuck c p s =
     (case tb_update (sq_jobs c) (sql_stuck c p) sql_release s of
        (s1, Inl e) \<Rightarrow> (s1, Inl (wrap_prefix ''rescue stuck jobs'' e))
      | (s1, Inr n) \<Rightarrow> (s1, Inr n))"

text \<open>The identifier goes to the database as text, which converts it.\<close>

definition pgx_jobHeartbeat :: "'s sql \<Rightarrow> JobHeartbeatParams \<Rightarrow> 's \<Rightarrow> 's \<times> bool res" where
  "pgx_jobHeartbeat c p s =
     (let until = (if IsZero (hp_LeaseExpiresAt p) then hp_At p else hp_LeaseExpiresAt p)
      in case sq_number c (hp_ID p) of
           Inl e \<Rightarrow> (s, Inl e)
         | Inr n \<Rightarrow>
             (case tb_update (sq_jobs c) (sql_claimed n (hp_WorkerID p) (hp_Attempt p)) (\<lambda>j. j\<lparr>sj_lease_expires_at := Some (sq_time c until)\<rparr>) s of
                (s1, Inl e) \<Rightarrow> (s1, Inl e)
              | (s1, Inr affected) \<Rightarrow> (s1, Inr (affected > 0))))"

definition pgx_jobMarkStarted :: "'s sql \<Rightarrow> JobMarkStartedParams \<Rightarrow> 's \<Rightarrow> 's \<times> bool res" where
  "pgx_jobMarkStarted c p s =
     (case sq_number c (ms_ID p) of
        Inl e \<Rightarrow> (s, Inl e)
      | Inr n \<Rightarrow>
          (case tb_update (sq_jobs c) (sql_claimed n (ms_WorkerID p) (ms_Attempt p)) (\<lambda>j. j\<lparr>sj_started_at := Some (sq_time c (ms_At p))\<rparr>) s of
             (s1, Inl e) \<Rightarrow> (s1, Inl e)
           | (s1, Inr affected) \<Rightarrow> (s1, Inr (affected = 1))))"

definition stale_if_none :: "string \<Rightarrow> 's \<times> int res \<Rightarrow> 's \<times> goerr option" where
  "stale_if_none jid r = (case r of (s1, Inl e) \<Rightarrow> (s1, Some e) | (s1, Inr affected) \<Rightarrow> (s1, if affected = 0 then Some (stale_claim jid) else None))"

text \<open>The clock is read once for the error, \<open>clk 0\<close>, and once for the end, \<open>clk 1\<close>.\<close>

definition pgx_jobSetStateIfRunning :: "'s sql \<Rightarrow> (nat \<Rightarrow> gotime) \<Rightarrow> JobSetStateParams \<Rightarrow> 's \<Rightarrow> 's \<times> goerr option" where
  "pgx_jobSetStateIfRunning c clk p s =
     (case ParseInt (sp_ID p) of
        None \<Rightarrow> (s, Some (bad_id (sp_ID p)))
      | Some n \<Rightarrow>
          if sp_Yield p then stale_if_none (sp_ID p) (tb_update (sq_jobs c) (sql_fenced n p) sql_yield s)
          else stale_if_none (sp_ID p)
            (tb_update (sq_jobs c) (sql_fenced n p) (\<lambda>j. sql_append (encodeError (clk 0) p) (sql_main c (clk 1) p j)) s))"

section \<open>Administration\<close>

definition pgx_jobCancel :: "'s sql \<Rightarrow> ('s \<Rightarrow> 's) \<Rightarrow> gotime \<Rightarrow> string \<Rightarrow> 's \<Rightarrow> 's \<times> goerr option" where
  "pgx_jobCancel c others now jid s =
     (case ParseInt jid of
        None \<Rightarrow> (s, Some (bad_id jid))
      | Some n \<Rightarrow>
          (case tb_update (sq_jobs c) (sql_waits n) (sql_cancel c now) s of
             (s1, Inl e) \<Rightarrow> (s1, Some e)
           | (s1, Inr affected) \<Rightarrow>
               if affected = 0 then
                 (others s1, case pgx_jobGetByID c jid (others s1) of Inl e \<Rightarrow> Some e | Inr _ \<Rightarrow> Some (not_cancellable jid))
               else (s1, None)))"

definition pgx_jobDelete :: "'s sql \<Rightarrow> string \<Rightarrow> 's \<Rightarrow> 's \<times> goerr option" where
  "pgx_jobDelete c jid s =
     (case ParseInt jid of
        None \<Rightarrow> (s, Some (bad_id jid))
      | Some n \<Rightarrow>
          (case tb_delete (sq_jobs c) (\<lambda>j. sj_id j = n) s of
             (s1, Inl e) \<Rightarrow> (s1, Some e)
           | (s1, Inr affected) \<Rightarrow> (s1, if affected = 0 then Some (not_found_job jid) else None)))"

definition pgx_jobReschedule :: "'s sql \<Rightarrow> RescheduleParams \<Rightarrow> 's \<Rightarrow> 's \<times> goerr option" where
  "pgx_jobReschedule c p s =
     (case ParseInt (rs_ID p) of
        None \<Rightarrow> (s, Some (bad_id (rs_ID p)))
      | Some n \<Rightarrow>
          (case tb_update (sq_jobs c) (\<lambda>j. sj_id j = n) (\<lambda>j. j\<lparr>sj_state := JobStateScheduled, sj_run_at := sq_time c (rs_RunAt p)\<rparr>) s of
             (s1, Inl e) \<Rightarrow> (s1, Some e)
           | (s1, Inr affected) \<Rightarrow> (s1, if affected = 0 then Some (not_found_job (rs_ID p)) else None)))"

definition pgx_queueGet :: "'s sql \<Rightarrow> string \<Rightarrow> 's \<Rightarrow> QueueRow res" where
  "pgx_queueGet c name s =
     (case query_row c (tb_select (sq_queues c) (\<lambda>q. sq_name q = name) unordered None s) of
        Inl e \<Rightarrow> Inl (if e = sq_no_rows c then no_queue name else e)
      | Inr q \<Rightarrow> Inr (pgx_scanQueueRow q))"

definition pgx_queueSetPaused :: "'s sql \<Rightarrow> gotime \<Rightarrow> string \<Rightarrow> bool \<Rightarrow> 's \<Rightarrow> 's \<times> goerr option" where
  "pgx_queueSetPaused c now name paused s =
     (case tb_upsert (sq_queues c) \<lparr>sq_name = name, sq_paused = paused, sq_created_at = sq_time c now, sq_updated_at = sq_time c now\<rparr>
        (\<lambda>_. True) (\<lambda>q. q\<lparr>sq_paused := paused, sq_updated_at := sq_time c now\<rparr>) s of
        (s1, Inl e) \<Rightarrow> (s1, Some e)
      | (s1, Inr _) \<Rightarrow> (s1, None))"

definition pgx_queueList :: "'s sql \<Rightarrow> QueueListParams \<Rightarrow> 's \<Rightarrow> QueueRow list res" where
  "pgx_queueList c p s =
     (case (if ql_Cursor p = [] then Inr None else (case DecodeQueueCursor (ql_Cursor p) of Inl e \<Rightarrow> Inl e | Inr n \<Rightarrow> Inr (Some n))) of
        Inl e \<Rightarrow> Inl e
      | Inr cursor \<Rightarrow>
          (case tb_select (sq_queues c) (\<lambda>q. case cursor of None \<Rightarrow> True | Some n \<Rightarrow> n < sq_name q) (\<lambda>a b. sq_name a < sq_name b)
             (Some (sql_limit (ql_Limit p))) s of
             Inl e \<Rightarrow> Inl e
           | Inr qs \<Rightarrow> Inr (map pgx_scanQueueRow qs)))"

section \<open>Coordination\<close>

definition pgx_leaderAttemptElect :: "'s sql \<Rightarrow> gotime \<Rightarrow> LeaderElectParams \<Rightarrow> 's \<Rightarrow> 's \<times> bool res" where
  "pgx_leaderAttemptElect c now p s =
     (let until = sq_time c (now + le_TTL p)
      in case tb_upsert (sq_leaders c) \<lparr>sl_name = le_Name p, sl_worker_id = le_WorkerID p, sl_expires_at = until\<rparr>
           (\<lambda>l. sl_expires_at l \<le> sq_time c now \<or> sl_worker_id l = le_WorkerID p)
           (\<lambda>l. l\<lparr>sl_worker_id := le_WorkerID p, sl_expires_at := until\<rparr>) s of
           (s1, Inl e) \<Rightarrow> (s1, Inl e)
         | (s1, Inr affected) \<Rightarrow> (s1, Inr (affected > 0)))"

definition pgx_leaderResign :: "'s sql \<Rightarrow> LeaderResignParams \<Rightarrow> 's \<Rightarrow> 's \<times> goerr option" where
  "pgx_leaderResign c p s =
     (case tb_delete (sq_leaders c) (\<lambda>l. sl_name l = lr_Name p \<and> sl_worker_id l = lr_WorkerID p) s of
        (s1, Inl e) \<Rightarrow> (s1, Some e)
      | (s1, Inr _) \<Rightarrow> (s1, None))"

definition pgx_scheduleCursorGetOrCreate :: "'s sql \<Rightarrow> ('s \<Rightarrow> 's) \<Rightarrow> ScheduleCursorCreateParams \<Rightarrow> 's \<Rightarrow> 's \<times> ScheduleCursorResult res" where
  "pgx_scheduleCursorGetOrCreate c others p s =
     (case tb_insert_new (sq_cursors c) \<lparr>sc_id = cc_ID p, sc_cursor_at = sq_time c (cc_InitialAt p)\<rparr> s of
        (s1, Inl e) \<Rightarrow> (s1, Inl e)
      | (s1, Inr inserted) \<Rightarrow>
          (others s1, case query_row c (tb_select (sq_cursors c) (\<lambda>d. sc_id d = cc_ID p) unordered None (others s1)) of
             Inl e \<Rightarrow> Inl e
           | Inr d \<Rightarrow> Inr \<lparr>cr_At = sc_cursor_at d, cr_Created = (inserted \<noteq> None)\<rparr>))"

definition pgx_scheduleCursorAdvance :: "'s sql \<Rightarrow> ScheduleCursorAdvanceParams \<Rightarrow> 's \<Rightarrow> 's \<times> bool res" where
  "pgx_scheduleCursorAdvance c p s =
     (case tb_update (sq_cursors c) (\<lambda>d. sc_id d = ca_ID p \<and> sc_cursor_at d = sq_time c (ca_Expected p))
        (\<lambda>d. d\<lparr>sc_cursor_at := sq_time c (ca_Next p)\<rparr>) s of
        (s1, Inl e) \<Rightarrow> (s1, Inl e)
      | (s1, Inr affected) \<Rightarrow> (s1, Inr (affected = 1)))"

end
