(* ===== verification/Stdlib_Driver.thy ===== *)
theory Stdlib_Driver
  imports Sql
begin

text \<open>
  The executor of \<^verbatim>\<open>driver/stdlib/executor.go\<close> over \<^verbatim>\<open>database/sql\<close>, for its three dialects. An executor
  without a transaction sends every statement on its own: what other clients do between two statements of an
  operation is an argument.
\<close>

section \<open>Dialects\<close>

datatype Dialect = Postgres | MySQL | SQLite

text \<open>Question marks become numbered placeholders for Postgres.\<close>

fun numbered :: "nat \<Rightarrow> string \<Rightarrow> string" where
  "numbered n [] = []"
| "numbered n (ch # cs) = (if ch = CHR ''?'' then CHR ''$'' # nat_to_dec (Suc n) @ numbered (Suc n) cs else ch # numbered n cs)"

definition dialect_q :: "Dialect \<Rightarrow> string \<Rightarrow> string" where
  "dialect_q d query = (if d \<noteq> Postgres then query else numbered 0 query)"

definition supportsSkipLocked :: "Dialect \<Rightarrow> bool" where
  "supportsSkipLocked d \<longleftrightarrow> d = Postgres \<or> d = MySQL"

definition repeatIN :: "nat \<Rightarrow> string" where
  "repeatIN n = (if n = 1 then ''?'' else ''?'' @ concat (replicate (n - 1) '', ?''))"

definition Dialect_String :: "Dialect \<Rightarrow> string" where
  "Dialect_String d = (case d of Postgres \<Rightarrow> ''postgres'' | MySQL \<Rightarrow> ''mysql'' | SQLite \<Rightarrow> ''sqlite'')"

definition std_Capabilities :: "Dialect \<Rightarrow> Capabilities" where
  "std_Capabilities d = \<lparr>NativeTx = True, ListenNotify = False, ChangeStreams = False, SkipLocked = supportsSkipLocked d,
     UniqueJobs = True, AdvisoryLocks = False, LinearizableLeases = True, LinearizableCAS = True, LifecycleTimestamps = True,
     BoundedFetch = True, StrictFetchOrdering = True\<rparr>"

section \<open>Scanning\<close>

definition std_scanJobRow :: "sqlJob \<Rightarrow> JobRow" where
  "std_scanJobRow j = \<lparr>ID = Itoa (sj_id j), Queue = sj_queue j, Kind = sj_kind j, Args = sj_args j, State = sj_state j,
     Priority = sj_priority j, RunAt = sj_run_at j, CreatedAt = sj_created_at j, AttemptedAt = sj_attempted_at j,
     StartedAt = sj_started_at j, LeaseExpiresAt = sj_lease_expires_at j, FinalizedAt = sj_finalized_at j,
     AttemptNum = sj_attempt_num j, MaxRetry = sj_max_retry j, Timeout = wrap64 (sj_timeout_ms j * Millisecond),
     Tags = sj_tags j, Errors = sj_errors j,
     UniqueKey = (case sj_unique_key j of None \<Rightarrow> [] | Some k \<Rightarrow> k), WorkerID = (case sj_worker_id j of None \<Rightarrow> [] | Some w \<Rightarrow> w),
     PipelineID = sj_pipeline_id j\<rparr>"

definition std_scanJobRows :: "sqlJob list res \<Rightarrow> JobRow list res" where
  "std_scanJobRows r = (case r of Inl e \<Rightarrow> Inl e | Inr js \<Rightarrow> Inr (map std_scanJobRow js))"

definition std_scanQueueRow :: "sqlQueue \<Rightarrow> QueueRow" where
  "std_scanQueueRow q = \<lparr>qr_Name = sq_name q, qr_Paused = sq_paused q, qr_CreatedAt = sq_created_at q, qr_UpdatedAt = sq_updated_at q\<rparr>"

section \<open>Lookup\<close>

definition std_findUniqueJob :: "'s sql \<Rightarrow> string \<Rightarrow> 's \<Rightarrow> JobRow option res" where
  "std_findUniqueJob c key s =
     (case query_row c (tb_select (sq_jobs c) (\<lambda>j. sj_unique_key j = Some key) unordered (Some 1) s) of
        Inl e \<Rightarrow> if e = sq_no_rows c then Inr None else Inl e
      | Inr j \<Rightarrow> Inr (Some (std_scanJobRow j)))"

text \<open>The identifier goes to the database as text, which converts it.\<close>

definition std_jobGetByID :: "'s sql \<Rightarrow> string \<Rightarrow> 's \<Rightarrow> JobRow res" where
  "std_jobGetByID c jid s =
     (case sq_number c jid of
        Inl e \<Rightarrow> Inl e
      | Inr n \<Rightarrow>
          (case query_row c (tb_select (sq_jobs c) (\<lambda>j. sj_id j = n) unordered None s) of
             Inl e \<Rightarrow> Inl (if e = sq_no_rows c then not_found_job jid else e)
           | Inr j \<Rightarrow> Inr (std_scanJobRow j)))"

definition std_list_cursor :: "'s sql \<Rightarrow> string \<Rightarrow> (gotime \<times> int) option res" where
  "std_list_cursor c cursor =
     (if cursor = [] then Inr None
      else (case DecodeJobCursor cursor of
          Inl e \<Rightarrow> Inl e
        | Inr (cursorAt, cursorID) \<Rightarrow> (case sq_number c cursorID of Inl e \<Rightarrow> Inl e | Inr n \<Rightarrow> Inr (Some (cursorAt, n)))))"

definition std_jobList :: "'s sql \<Rightarrow> JobListParams \<Rightarrow> 's \<Rightarrow> JobRow list res" where
  "std_jobList c p s =
     (case std_list_cursor c (jl_Cursor p) of
        Inl e \<Rightarrow> Inl e
      | Inr cursor \<Rightarrow> std_scanJobRows (tb_select (sq_jobs c) (sql_listed c p cursor) sql_list_less (Some (sql_limit (jl_Limit p))) s))"

definition std_queueStats :: "'s sql \<Rightarrow> string \<Rightarrow> 's \<Rightarrow> QueueStats res" where
  "std_queueStats c queue s =
     (case sq_group_states c queue s of
        Inl e \<Rightarrow> Inl e
      | Inr groups \<Rightarrow>
          Inr (fold (\<lambda>(st, n) stats. stats\<lparr>qs_States := gput st n (qs_States stats), qs_Total := qs_Total stats + n\<rparr>)
            groups \<lparr>qs_Queue = queue, qs_States = [], qs_Total = 0\<rparr>))"

section \<open>Insertion\<close>

text \<open>
  \<open>others 0\<close> happens before the insertion, \<open>others 1\<close> before the lookup after it. Nil arguments are an empty
  document.
\<close>

definition std_new_row :: "'s sql \<Rightarrow> gotime \<Rightarrow> JobInsertParams \<Rightarrow> sqlJob" where
  "std_new_row c now p = sql_new_row c now (p\<lparr>ip_Args := (if ip_Args p = [] then ''{}'' else ip_Args p)\<rparr>)"

definition std_skip :: "JobRow option \<Rightarrow> JobInsertResult" where
  "std_skip existing = \<lparr>ir_Job = existing, ir_UniqueSkip = True\<rparr>"

definition std_inserted :: "'s sql \<Rightarrow> sqlJob \<Rightarrow> 's \<Rightarrow> 's \<times> JobInsertResult res" where
  "std_inserted c j s = (s, case std_jobGetByID c (Itoa (sj_id j)) s of Inl e \<Rightarrow> Inl e | Inr row \<Rightarrow> Inr \<lparr>ir_Job = Some row, ir_UniqueSkip = False\<rparr>)"

definition insert_postgres :: "'s sql \<Rightarrow> ('s \<Rightarrow> 's) \<Rightarrow> gotime \<Rightarrow> JobInsertParams \<Rightarrow> 's \<Rightarrow> 's \<times> JobInsertResult res" where
  "insert_postgres c others now p s =
     (case tb_insert_new (sq_jobs c) (std_new_row c now p) s of
        (s1, Inl e) \<Rightarrow> (s1, Inl (wrap_prefix ''insert job'' e))
      | (s1, Inr None) \<Rightarrow>
          if ip_UniqueKey p \<noteq> [] then
            (others s1, case std_findUniqueJob c (ip_UniqueKey p) (others s1) of Inl e \<Rightarrow> Inl e | Inr existing \<Rightarrow> Inr (std_skip existing))
          else (s1, Inl (wrap_prefix ''insert job'' (sq_no_rows c)))
      | (s1, Inr (Some j)) \<Rightarrow> std_inserted c j (others s1))"

definition insert_plain :: "'s sql \<Rightarrow> ('s \<Rightarrow> 's) \<Rightarrow> gotime \<Rightarrow> JobInsertParams \<Rightarrow> 's \<Rightarrow> 's \<times> JobInsertResult res" where
  "insert_plain c others now p s =
     (case tb_insert (sq_jobs c) (std_new_row c now p) s of
        (s1, Inl e) \<Rightarrow>
          if ip_UniqueKey p \<noteq> [] then
            (others s1, case std_findUniqueJob c (ip_UniqueKey p) (others s1) of
               Inr (Some existing) \<Rightarrow> Inr (std_skip (Some existing)) | _ \<Rightarrow> Inl (wrap_prefix ''insert job'' e))
          else (s1, Inl (wrap_prefix ''insert job'' e))
      | (s1, Inr j) \<Rightarrow> std_inserted c j (others s1))"

definition std_insert_one :: "Dialect \<Rightarrow> 's sql \<Rightarrow> (nat \<Rightarrow> 's \<Rightarrow> 's) \<Rightarrow> gotime \<Rightarrow> JobInsertParams \<Rightarrow> 's \<Rightarrow> 's \<times> JobInsertResult res" where
  "std_insert_one d c others now p s =
     (let insert = (if d = Postgres then insert_postgres else insert_plain) c (others 1) now p
      in if ip_UniqueKey p = [] then insert s
         else (case std_findUniqueJob c (ip_UniqueKey p) s of
             Inl e \<Rightarrow> (s, Inl e)
           | Inr (Some existing) \<Rightarrow> (s, Inr (std_skip (Some existing)))
           | Inr None \<Rightarrow> insert (others 0 s)))"

fun std_insert_loop :: "Dialect \<Rightarrow> 's sql \<Rightarrow> (nat \<Rightarrow> nat \<Rightarrow> 's \<Rightarrow> 's) \<Rightarrow> gotime \<Rightarrow> JobInsertParams list \<Rightarrow> 's \<Rightarrow> 's \<times> JobInsertResult list res" where
  "std_insert_loop d c others now [] s = (s, Inr [])"
| "std_insert_loop d c others now (p # ps) s =
     (case std_insert_one d c (others (length ps)) now p s of
        (s1, Inl e) \<Rightarrow> (s1, Inl e)
      | (s1, Inr r) \<Rightarrow>
          (case std_insert_loop d c others now ps s1 of
             (s2, Inl e) \<Rightarrow> (s2, Inl e)
           | (s2, Inr rs) \<Rightarrow> (s2, Inr (r # rs))))"

definition std_jobInsertMany :: "Dialect \<Rightarrow> 's sql \<Rightarrow> (nat \<Rightarrow> nat \<Rightarrow> 's \<Rightarrow> 's) \<Rightarrow> gotime \<Rightarrow> JobInsertParams list \<Rightarrow> 's \<Rightarrow> 's \<times> JobInsertResult list res" where
  "std_jobInsertMany d c others now ps s = std_insert_loop d c others now ps s"

section \<open>Claims\<close>

definition claimJobs :: "'s sql \<Rightarrow> ('s \<Rightarrow> 's) \<Rightarrow> gotime \<Rightarrow> int list \<Rightarrow> string \<Rightarrow> duration \<Rightarrow> 's \<Rightarrow> 's \<times> JobRow list res" where
  "claimJobs c others now ids workerID leaseDuration s =
     (case tb_update (sq_jobs c) (\<lambda>j. sj_id j \<in> set ids) (sql_claim c now leaseDuration workerID) s of
        (s1, Inl e) \<Rightarrow> (s1, Inl (wrap_prefix ''claim jobs'' e))
      | (s1, Inr _) \<Rightarrow> (others s1, std_scanJobRows (tb_select (sq_jobs c) (\<lambda>j. sj_id j \<in> set ids) unordered None (others s1))))"

text \<open>
  The locks of \<^verbatim>\<open>FOR UPDATE SKIP LOCKED\<close> end with the statement when there is no transaction around it, so
  that the selection is the same for all dialects, up to rows that are locked at this moment.
\<close>

definition select_due :: "'s sql \<Rightarrow> gotime \<Rightarrow> FetchParams \<Rightarrow> 's \<Rightarrow> int list res" where
  "select_due c now p s =
     (case tb_select (sq_jobs c) (sql_due c (fp_Queue p) now) sql_fetch_less (Some (fp_Limit p)) s of
        Inl e \<Rightarrow> Inl e
      | Inr js \<Rightarrow> Inr (map sj_id js))"

definition claim_selected :: "'s sql \<Rightarrow> (nat \<Rightarrow> 's \<Rightarrow> 's) \<Rightarrow> gotime \<Rightarrow> FetchParams \<Rightarrow> int list \<Rightarrow> 's \<Rightarrow> 's \<times> JobRow list res" where
  "claim_selected c others now p ids s =
     (if ids = [] then (s, Inr []) else claimJobs c (others 1) now ids (fp_WorkerID p) (fp_LeaseDuration p) (others 0 s))"

definition jobFetchSkipLocked :: "'s sql \<Rightarrow> (nat \<Rightarrow> 's \<Rightarrow> 's) \<Rightarrow> gotime \<Rightarrow> FetchParams \<Rightarrow> 's \<Rightarrow> 's \<times> JobRow list res" where
  "jobFetchSkipLocked c others now p s =
     (case select_due c now p s of Inl e \<Rightarrow> (s, Inl (wrap_prefix ''fetch ids'' e)) | Inr ids \<Rightarrow> claim_selected c others now p ids s)"

definition jobFetchSQLite :: "'s sql \<Rightarrow> (nat \<Rightarrow> 's \<Rightarrow> 's) \<Rightarrow> gotime \<Rightarrow> FetchParams \<Rightarrow> 's \<Rightarrow> 's \<times> JobRow list res" where
  "jobFetchSQLite c others now p s =
     (case select_due c now p s of Inl e \<Rightarrow> (s, Inl e) | Inr ids \<Rightarrow> claim_selected c others now p ids s)"

definition std_jobFetchBatch :: "Dialect \<Rightarrow> 's sql \<Rightarrow> (nat \<Rightarrow> 's \<Rightarrow> 's) \<Rightarrow> gotime \<Rightarrow> FetchParams \<Rightarrow> 's \<Rightarrow> 's \<times> JobRow list res" where
  "std_jobFetchBatch d c others now p s =
     (let p1 = (if fp_Limit p \<le> 0 then p\<lparr>fp_Limit := 1\<rparr> else p)
      in if supportsSkipLocked d then jobFetchSkipLocked c others now p1 s else jobFetchSQLite c others now p1 s)"

definition std_jobRescueStuck :: "'s sql \<Rightarrow> JobRescueParams \<Rightarrow> 's \<Rightarrow> 's \<times> int res" where
  "std_jobRescueStuck c p s =
     (case tb_update (sq_jobs c) (sql_stuck c p) sql_release s of
        (s1, Inl e) \<Rightarrow> (s1, Inl (wrap_prefix ''rescue stuck jobs'' e))
      | (s1, Inr n) \<Rightarrow> (s1, Inr n))"

definition std_jobHeartbeat :: "'s sql \<Rightarrow> JobHeartbeatParams \<Rightarrow> 's \<Rightarrow> 's \<times> bool res" where
  "std_jobHeartbeat c p s =
     (let until = (if IsZero (hp_LeaseExpiresAt p) then hp_At p else hp_LeaseExpiresAt p)
      in case sq_number c (hp_ID p) of
           Inl e \<Rightarrow> (s, Inl e)
         | Inr n \<Rightarrow>
             (case tb_update (sq_jobs c) (sql_claimed n (hp_WorkerID p) (hp_Attempt p)) (\<lambda>j. j\<lparr>sj_lease_expires_at := Some (sq_time c until)\<rparr>) s of
                (s1, Inl e) \<Rightarrow> (s1, Inl e)
              | (s1, Inr affected) \<Rightarrow> (s1, Inr (affected > 0))))"

definition std_jobMarkStarted :: "'s sql \<Rightarrow> JobMarkStartedParams \<Rightarrow> 's \<Rightarrow> 's \<times> bool res" where
  "std_jobMarkStarted c p s =
     (case sq_number c (ms_ID p) of
        Inl e \<Rightarrow> (s, Inl e)
      | Inr n \<Rightarrow>
          (case tb_update (sq_jobs c) (sql_claimed n (ms_WorkerID p) (ms_Attempt p)) (\<lambda>j. j\<lparr>sj_started_at := Some (sq_time c (ms_At p))\<rparr>) s of
             (s1, Inl e) \<Rightarrow> (s1, Inl e)
           | (s1, Inr affected) \<Rightarrow> (s1, Inr (affected = 1))))"

definition staleClaimIfNoRows :: "string \<Rightarrow> 's \<times> int res \<Rightarrow> 's \<times> goerr option" where
  "staleClaimIfNoRows jid r = (case r of (s1, Inl e) \<Rightarrow> (s1, Some e) | (s1, Inr affected) \<Rightarrow> (s1, if affected = 0 then Some (stale_claim jid) else None))"

definition std_attempt_error :: "gotime \<Rightarrow> JobSetStateParams \<Rightarrow> AttemptError option" where
  "std_attempt_error now p = map_option (\<lambda>e. \<lparr>ae_At = now, ae_Attempt = sp_Attempt p, ae_Error = e,
     ae_Trace = (case sp_Trace p of None \<Rightarrow> [] | Some t \<Rightarrow> t)\<rparr>) (sp_Err p)"

text \<open>
  One statement for Postgres; for the other dialects the error is appended first and the state set in a second
  statement. The clock is read for the end and then for the error: \<open>clk 1\<close> and \<open>clk 0\<close>.
\<close>

definition set_state_postgres :: "'s sql \<Rightarrow> (nat \<Rightarrow> gotime) \<Rightarrow> JobSetStateParams \<Rightarrow> int \<Rightarrow> 's \<Rightarrow> 's \<times> goerr option" where
  "set_state_postgres c clk p n s =
     staleClaimIfNoRows (sp_ID p) (tb_update (sq_jobs c) (sql_fenced n p)
       (\<lambda>j. sql_append (case std_attempt_error (clk 0) p of None \<Rightarrow> [] | Some e \<Rightarrow> [e]) (sql_main c (clk 1) p j)) s)"

definition set_state_plain :: "'s sql \<Rightarrow> ('s \<Rightarrow> 's) \<Rightarrow> (nat \<Rightarrow> gotime) \<Rightarrow> JobSetStateParams \<Rightarrow> int \<Rightarrow> 's \<Rightarrow> 's \<times> goerr option" where
  "set_state_plain c others clk p n s =
     (let main = (\<lambda>s1. staleClaimIfNoRows (sp_ID p) (tb_update (sq_jobs c) (sql_fenced n p) (sql_main c (clk 1) p) s1))
      in case std_attempt_error (clk 0) p of
           None \<Rightarrow> main s
         | Some e \<Rightarrow>
             (case tb_update (sq_jobs c) (sql_fenced n p) (sql_append [e]) s of
                (s1, Inl x) \<Rightarrow> (s1, Some x)
              | (s1, Inr _) \<Rightarrow> main (others s1)))"

definition std_jobSetStateIfRunning :: "Dialect \<Rightarrow> 's sql \<Rightarrow> ('s \<Rightarrow> 's) \<Rightarrow> (nat \<Rightarrow> gotime) \<Rightarrow> JobSetStateParams \<Rightarrow> 's \<Rightarrow> 's \<times> goerr option" where
  "std_jobSetStateIfRunning d c others clk p s =
     (case sq_number c (sp_ID p) of
        Inl e \<Rightarrow> (s, Some e)
      | Inr n \<Rightarrow>
          if sp_Yield p then staleClaimIfNoRows (sp_ID p) (tb_update (sq_jobs c) (sql_fenced n p) sql_yield s)
          else if d = Postgres then set_state_postgres c clk p n s
          else set_state_plain c others clk p n s)"

section \<open>Administration\<close>

definition std_jobCancel :: "'s sql \<Rightarrow> ('s \<Rightarrow> 's) \<Rightarrow> gotime \<Rightarrow> string \<Rightarrow> 's \<Rightarrow> 's \<times> goerr option" where
  "std_jobCancel c others now jid s =
     (case sq_number c jid of
        Inl e \<Rightarrow> (s, Some e)
      | Inr n \<Rightarrow>
          (case tb_update (sq_jobs c) (sql_waits n) (sql_cancel c now) s of
             (s1, Inl e) \<Rightarrow> (s1, Some e)
           | (s1, Inr affected) \<Rightarrow>
               if affected = 0 then
                 (others s1, case std_jobGetByID c jid (others s1) of Inl e \<Rightarrow> Some e | Inr _ \<Rightarrow> Some (not_cancellable jid))
               else (s1, None)))"

definition std_jobDelete :: "'s sql \<Rightarrow> string \<Rightarrow> 's \<Rightarrow> 's \<times> goerr option" where
  "std_jobDelete c jid s =
     (case sq_number c jid of
        Inl e \<Rightarrow> (s, Some e)
      | Inr n \<Rightarrow>
          (case tb_delete (sq_jobs c) (\<lambda>j. sj_id j = n) s of
             (s1, Inl e) \<Rightarrow> (s1, Some e)
           | (s1, Inr affected) \<Rightarrow> (s1, if affected = 0 then Some (not_found_job jid) else None)))"

definition std_jobReschedule :: "'s sql \<Rightarrow> RescheduleParams \<Rightarrow> 's \<Rightarrow> 's \<times> goerr option" where
  "std_jobReschedule c p s =
     (case sq_number c (rs_ID p) of
        Inl e \<Rightarrow> (s, Some e)
      | Inr n \<Rightarrow>
          (case tb_update (sq_jobs c) (\<lambda>j. sj_id j = n) (\<lambda>j. j\<lparr>sj_state := JobStateScheduled, sj_run_at := sq_time c (rs_RunAt p)\<rparr>) s of
             (s1, Inl e) \<Rightarrow> (s1, Some e)
           | (s1, Inr affected) \<Rightarrow> (s1, if affected = 0 then Some (not_found_job (rs_ID p)) else None)))"

definition std_queueGet :: "'s sql \<Rightarrow> string \<Rightarrow> 's \<Rightarrow> QueueRow res" where
  "std_queueGet c name s =
     (case query_row c (tb_select (sq_queues c) (\<lambda>q. sq_name q = name) unordered None s) of
        Inl e \<Rightarrow> Inl (if e = sq_no_rows c then no_queue name else e)
      | Inr q \<Rightarrow> Inr (std_scanQueueRow q))"

definition std_queueSetPaused :: "'s sql \<Rightarrow> gotime \<Rightarrow> string \<Rightarrow> bool \<Rightarrow> 's \<Rightarrow> 's \<times> goerr option" where
  "std_queueSetPaused c now name paused s =
     (case tb_upsert (sq_queues c) \<lparr>sq_name = name, sq_paused = paused, sq_created_at = sq_time c now, sq_updated_at = sq_time c now\<rparr>
        (\<lambda>_. True) (\<lambda>q. q\<lparr>sq_paused := paused, sq_updated_at := sq_time c now\<rparr>) s of
        (s1, Inl e) \<Rightarrow> (s1, Some e)
      | (s1, Inr _) \<Rightarrow> (s1, None))"

definition std_queueList :: "'s sql \<Rightarrow> QueueListParams \<Rightarrow> 's \<Rightarrow> QueueRow list res" where
  "std_queueList c p s =
     (case (if ql_Cursor p = [] then Inr None else (case DecodeQueueCursor (ql_Cursor p) of Inl e \<Rightarrow> Inl e | Inr n \<Rightarrow> Inr (Some n))) of
        Inl e \<Rightarrow> Inl e
      | Inr cursor \<Rightarrow>
          (case tb_select (sq_queues c) (\<lambda>q. case cursor of None \<Rightarrow> True | Some n \<Rightarrow> n < sq_name q) (\<lambda>a b. sq_name a < sq_name b)
             (Some (sql_limit (ql_Limit p))) s of
             Inl e \<Rightarrow> Inl e
           | Inr qs \<Rightarrow> Inr (map std_scanQueueRow qs)))"

section \<open>Coordination\<close>

definition std_elect_update :: "'s sql \<Rightarrow> gotime \<Rightarrow> LeaderElectParams \<Rightarrow> 's \<Rightarrow> 's \<times> bool res" where
  "std_elect_update c now p s =
     (case tb_update (sq_leaders c) (\<lambda>l. sl_name l = le_Name p \<and> (sl_expires_at l \<le> sq_time c now \<or> sl_worker_id l = le_WorkerID p))
        (\<lambda>l. l\<lparr>sl_worker_id := le_WorkerID p, sl_expires_at := sq_time c (now + le_TTL p)\<rparr>) s of
        (s1, Inl e) \<Rightarrow> (s1, Inl e)
      | (s1, Inr affected) \<Rightarrow> (s1, Inr (affected > 0)))"

text \<open>\<open>others\<close> happens between a failed insertion and the lookup that tells why.\<close>

definition std_elect_insert :: "'s sql \<Rightarrow> ('s \<Rightarrow> 's) \<Rightarrow> gotime \<Rightarrow> LeaderElectParams \<Rightarrow> 's \<Rightarrow> 's \<times> bool res" where
  "std_elect_insert c others now p s =
     (case tb_insert (sq_leaders c) \<lparr>sl_name = le_Name p, sl_worker_id = le_WorkerID p, sl_expires_at = sq_time c (now + le_TTL p)\<rparr> s of
        (s1, Inr _) \<Rightarrow> (s1, Inr True)
      | (s1, Inl e) \<Rightarrow>
          (others s1, case query_row c (tb_select (sq_leaders c) (\<lambda>l. sl_name l = le_Name p) unordered None (others s1)) of
             Inl _ \<Rightarrow> Inl e | Inr _ \<Rightarrow> Inr False))"

definition std_leaderAttemptElect :: "'s sql \<Rightarrow> (nat \<Rightarrow> 's \<Rightarrow> 's) \<Rightarrow> gotime \<Rightarrow> LeaderElectParams \<Rightarrow> 's \<Rightarrow> 's \<times> bool res" where
  "std_leaderAttemptElect c others now p s =
     (case std_elect_update c now p s of
        (s1, Inl e) \<Rightarrow> (s1, Inl e)
      | (s1, Inr True) \<Rightarrow> (s1, Inr True)
      | (s1, Inr False) \<Rightarrow> std_elect_insert c (others 1) now p (others 0 s1))"

definition std_leaderResign :: "'s sql \<Rightarrow> LeaderResignParams \<Rightarrow> 's \<Rightarrow> 's \<times> goerr option" where
  "std_leaderResign c p s =
     (case tb_delete (sq_leaders c) (\<lambda>l. sl_name l = lr_Name p \<and> sl_worker_id l = lr_WorkerID p) s of
        (s1, Inl e) \<Rightarrow> (s1, Some e)
      | (s1, Inr _) \<Rightarrow> (s1, None))"

definition std_scheduleCursorGetOrCreate :: "'s sql \<Rightarrow> ('s \<Rightarrow> 's) \<Rightarrow> ScheduleCursorCreateParams \<Rightarrow> 's \<Rightarrow> 's \<times> ScheduleCursorResult res" where
  "std_scheduleCursorGetOrCreate c others p s =
     (case tb_insert_new (sq_cursors c) \<lparr>sc_id = cc_ID p, sc_cursor_at = sq_time c (cc_InitialAt p)\<rparr> s of
        (s1, Inl e) \<Rightarrow> (s1, Inl e)
      | (s1, Inr inserted) \<Rightarrow>
          (others s1, case query_row c (tb_select (sq_cursors c) (\<lambda>d. sc_id d = cc_ID p) unordered None (others s1)) of
             Inl e \<Rightarrow> Inl e
           | Inr d \<Rightarrow> Inr \<lparr>cr_At = sc_cursor_at d, cr_Created = (inserted \<noteq> None)\<rparr>))"

definition std_scheduleCursorAdvance :: "'s sql \<Rightarrow> ScheduleCursorAdvanceParams \<Rightarrow> 's \<Rightarrow> 's \<times> bool res" where
  "std_scheduleCursorAdvance c p s =
     (case tb_update (sq_cursors c) (\<lambda>d. sc_id d = ca_ID p \<and> sc_cursor_at d = sq_time c (ca_Expected p))
        (\<lambda>d. d\<lparr>sc_cursor_at := sq_time c (ca_Next p)\<rparr>) s of
        (s1, Inl e) \<Rightarrow> (s1, Inl e)
      | (s1, Inr affected) \<Rightarrow> (s1, Inr (affected = 1)))"

end
