(* ===== verification/Sql_Service.thy ===== *)
theory Sql_Service
  imports Pgx Stdlib_Driver Lease_Commands Local_Store Worker_Process
begin

text \<open>
  What SQL databases document about single statements, as the locale \<open>sql_table\<close> for one table and
  \<open>sql_service\<close> for the database of the drivers; a database in memory is the instance. A statement acts on
  the rows as they are when it is executed, as a whole, or fails; one that fails may have acted, since a
  connection can break before the answer. Leases over both drivers are exclusive.
\<close>

section \<open>The service\<close>

definition updated :: "('r \<Rightarrow> bool) \<Rightarrow> ('r \<Rightarrow> 'r) \<Rightarrow> ('k \<Rightarrow> 'r option) \<Rightarrow> 'k \<Rightarrow> 'r option" where
  "updated f u rows k = map_option (\<lambda>r. if f r then u r else r) (rows k)"

lemma updated_none: "(\<And>k r. rows k = Some r \<Longrightarrow> \<not> f r) \<Longrightarrow> updated f u rows = rows"
proof
  fix k assume "\<And>k r. rows k = Some r \<Longrightarrow> \<not> f r"
  then show "updated f u rows k = rows k" by (cases "rows k") (auto simp: updated_def)
qed

lemma updated_one:
  assumes "rows k = Some x" "f x" "\<And>k' r. rows k' = Some r \<Longrightarrow> f r \<Longrightarrow> k' = k"
  shows "updated f u rows = rows(k \<mapsto> u x)"
proof
  fix k'
  have "\<not> f r" if "k' \<noteq> k" "rows k' = Some r" for r using assms(3) that by blast
  then show "updated f u rows k' = (rows(k \<mapsto> u x)) k'"
    using assms(1,2) by (cases "k' = k"; cases "rows k'") (simp_all add: updated_def)
qed

text \<open>The rows affected are those that match, or those among them that change.\<close>

definition updates :: "('r \<Rightarrow> bool) \<Rightarrow> ('r \<Rightarrow> 'r) \<Rightarrow> ('k \<Rightarrow> 'r option) \<Rightarrow> ('k \<Rightarrow> 'r option) \<Rightarrow> int \<Rightarrow> bool" where
  "updates f u rows rows' n \<longleftrightarrow> rows' = updated f u rows \<and>
     int (card {k. \<exists>r. rows k = Some r \<and> f r \<and> u r \<noteq> r}) \<le> n \<and> n \<le> int (card {k. \<exists>r. rows k = Some r \<and> f r})"

text \<open>An insertion that updates the row with the key instead, if there is one and it satisfies the condition.\<close>

definition upserts :: "'k \<Rightarrow> 'r \<Rightarrow> ('r \<Rightarrow> bool) \<Rightarrow> ('r \<Rightarrow> 'r) \<Rightarrow> ('k \<Rightarrow> 'r option) \<Rightarrow> ('k \<Rightarrow> 'r option) \<Rightarrow> int \<Rightarrow> bool" where
  "upserts k r f u rows rows' n \<longleftrightarrow>
     (case rows k of
        None \<Rightarrow> rows' = rows(k \<mapsto> r) \<and> n > 0
      | Some x \<Rightarrow> if f x then rows' = rows(k \<mapsto> u x) \<and> n > 0 else rows' = rows \<and> n = 0)"

text \<open>
  A claim updates distinct rows that satisfy the condition, at most as many as asked for, and returns them as they are then,
  in any order; it may pass over rows that others have locked.
\<close>

definition claims_rows :: "('r \<Rightarrow> bool) \<Rightarrow> int \<Rightarrow> ('r \<Rightarrow> 'r) \<Rightarrow> ('k \<Rightarrow> 'r option) \<Rightarrow> ('k \<Rightarrow> 'r option) \<Rightarrow> 'k list \<Rightarrow> 'r list \<Rightarrow> bool" where
  "claims_rows f n u rows rows' ks rs \<longleftrightarrow>
     distinct ks \<and> int (length ks) \<le> n \<and> (\<forall>k\<in>set ks. \<exists>r. rows k = Some r \<and> f r) \<and>
     rows' = (\<lambda>k. if k \<in> set ks then map_option u (rows k) else rows k) \<and> map Some rs = map rows' ks"

text \<open>What a deletion leaves.\<close>

definition remaining :: "('r \<Rightarrow> bool) \<Rightarrow> ('k \<Rightarrow> 'r option) \<Rightarrow> 'k \<Rightarrow> 'r option" where
  "remaining f rows k = (case rows k of None \<Rightarrow> None | Some r \<Rightarrow> if f r then None else Some r)"

locale sql_table =
  fixes tb :: "('r, 's) table" and ident :: "'r \<Rightarrow> 'k" and inserted :: "'r \<Rightarrow> 'r \<Rightarrow> bool" and rows :: "'s \<Rightarrow> 'k \<Rightarrow> 'r option"
  assumes keyed: "rows s k = Some r \<Longrightarrow> ident r = k"
    and select: "tb_select tb f lt most s = Inr rs \<Longrightarrow> r \<in> set rs \<Longrightarrow> rows s (ident r) = Some r \<and> f r"
    and insert: "tb_insert tb r s = (s', Inr r') \<Longrightarrow> inserted r r' \<and> rows s (ident r') = None \<and> rows s' = (rows s)(ident r' \<mapsto> r')"
    and insert_fails: "tb_insert tb r s = (s', Inl e) \<Longrightarrow>
      rows s' = rows s \<or> (\<exists>r'. inserted r r' \<and> rows s (ident r') = None \<and> rows s' = (rows s)(ident r' \<mapsto> r'))"
    and upsert: "tb_upsert tb r f u s = (s', Inr n) \<Longrightarrow> upserts (ident r) r f u (rows s) (rows s') n"
    and upsert_fails: "tb_upsert tb r f u s = (s', Inl e) \<Longrightarrow> rows s' = rows s \<or> (\<exists>n. upserts (ident r) r f u (rows s) (rows s') n)"
    and update: "tb_update tb f u s = (s', Inr n) \<Longrightarrow> updates f u (rows s) (rows s') n"
    and update_fails: "tb_update tb f u s = (s', Inl e) \<Longrightarrow> rows s' = rows s \<or> rows s' = updated f u (rows s)"
    and claim: "n \<ge> 0 \<Longrightarrow> tb_claim tb f lt n u s = (s', Inr rs) \<Longrightarrow> \<exists>ks. claims_rows f n u (rows s) (rows s') ks rs"
    and claim_fails: "n \<ge> 0 \<Longrightarrow> tb_claim tb f lt n u s = (s', Inl e) \<Longrightarrow>
      rows s' = rows s \<or> (\<exists>ks rs. claims_rows f n u (rows s) (rows s') ks rs)"
    and delete: "tb_delete tb f s = (s', Inr n) \<Longrightarrow> rows s' = remaining f (rows s)"
    and delete_fails: "tb_delete tb f s = (s', Inl e) \<Longrightarrow> rows s' = rows s \<or> rows s' = remaining f (rows s)"
begin

text \<open>An update whose condition fixes the key.\<close>

lemma update_at:
  assumes "tb_update tb f u s = (s', r)" "\<forall>x. f x \<longrightarrow> ident x = k"
  shows "rows s' = rows s \<and> isl r \<or> rows s' = rows s \<and> (\<forall>n. r = Inr n \<longrightarrow> n = 0) \<and> (\<forall>x. rows s k = Some x \<longrightarrow> \<not> f x) \<or>
    (\<exists>x. rows s k = Some x \<and> f x \<and> rows s' = (rows s)(k \<mapsto> u x) \<and> (\<forall>n. r = Inr n \<longrightarrow> n \<le> 1 \<and> (u x \<noteq> x \<longrightarrow> n = 1)))"
proof (cases "rows s' = rows s \<and> isl r")
  case False
  have up: "rows s' = updated f u (rows s)"
  proof (cases r)
    case (Inl e)
    with False assms(1) update_fails [of f u s s' e] show ?thesis by simp
  next
    case (Inr n)
    with assms(1) update [of f u s s' n] show ?thesis by (simp add: updates_def)
  qed
  have at: "k' = k" if "rows s k' = Some x" "f x" for k' x using keyed [OF that(1)] assms(2) that(2) by simp
  show ?thesis
  proof (cases "\<exists>x. rows s k = Some x \<and> f x")
    case True
    then obtain x where x: "rows s k = Some x" "f x" by blast
    have "rows s' = (rows s)(k \<mapsto> u x)" unfolding up using updated_one [of "rows s" k x f u] x at by blast
    moreover have "n \<le> 1 \<and> (u x \<noteq> x \<longrightarrow> n = 1)" if n: "r = Inr n" for n
    proof -
      have m: "{k'. \<exists>r. rows s k' = Some r \<and> f r} = {k}" using x at by blast
      have ch: "{k'. \<exists>r. rows s k' = Some r \<and> f r \<and> u r \<noteq> r} = {k'. k' = k \<and> u x \<noteq> x}"
      proof (intro set_eqI iffI)
        fix k' assume "k' \<in> {k'. \<exists>r. rows s k' = Some r \<and> f r \<and> u r \<noteq> r}"
        then obtain y where y: "rows s k' = Some y" "f y" "u y \<noteq> y" by blast
        with x at [OF y(1,2)] show "k' \<in> {k'. k' = k \<and> u x \<noteq> x}" by simp
      qed (use x in blast)
      from update [of f u s s' n] assms(1) n have "updates f u (rows s) (rows s') n" by simp
      then show ?thesis unfolding updates_def m ch by (cases "u x = x") simp_all
    qed
    ultimately show ?thesis using x by blast
  next
    case none: False
    have "updated f u (rows s) = rows s" using none at by (intro updated_none) blast
    moreover have "n = 0" if n: "r = Inr n" for n
    proof -
      have m: "{k'. \<exists>r. rows s k' = Some r \<and> f r} = {}" "{k'. \<exists>r. rows s k' = Some r \<and> f r \<and> u r \<noteq> r} = {}"
        using none at by blast+
      from update [of f u s s' n] assms(1) n have "updates f u (rows s) (rows s') n" by simp
      then show ?thesis unfolding updates_def m by simp
    qed
    ultimately show ?thesis using none up by auto
  qed
qed simp

end

text \<open>A job gets its identifier when it is inserted, the other rows are inserted as they are.\<close>

definition gets_number :: "sqlJob \<Rightarrow> sqlJob \<Rightarrow> bool" where
  "gets_number j j' \<longleftrightarrow> j' = j\<lparr>sj_id := sj_id j'\<rparr>"

locale sql_service =
  jobs: sql_table "sq_jobs c" sj_id gets_number job_rows +
  leaders: sql_table "sq_leaders c" sl_name "(=)" leader_rows
  for c :: "'s sql" and job_rows :: "'s \<Rightarrow> int \<Rightarrow> sqlJob option" and leader_rows :: "'s \<Rightarrow> string \<Rightarrow> sqlLeader option" +
  assumes instants: "t \<le> t' \<Longrightarrow> sq_time c t \<le> sq_time c t'"

section \<open>An instance of the laws\<close>

text \<open>A database in memory, with lists for tables (\<open>Local_Store\<close>); \<open>clash\<close> says which rows a table cannot hold together.\<close>

record sql_db =
  sdb_jobs :: "sqlJob list"
  sdb_queues :: "sqlQueue list"
  sdb_leaders :: "sqlLeader list"
  sdb_cursors :: "sqlCursor list"
  sdb_next :: int

definition violated :: goerr where "violated = Errorf ''UNIQUE constraint failed''"

definition sql_keeps_keys :: "('r \<Rightarrow> 'k) \<Rightarrow> ('r \<Rightarrow> bool) \<Rightarrow> ('r \<Rightarrow> 'r) \<Rightarrow> 'r list \<Rightarrow> bool" where
  "sql_keeps_keys ident f u rs = list_all (\<lambda>r. f r \<longrightarrow> ident (u r) = ident r) rs"

definition sql_insert :: "('s \<Rightarrow> 'r list) \<Rightarrow> ('r list \<Rightarrow> 's \<Rightarrow> 's) \<Rightarrow> ('r \<Rightarrow> 'k) \<Rightarrow> ('r \<Rightarrow> 'r \<Rightarrow> bool) \<Rightarrow> ('s \<Rightarrow> 'r \<Rightarrow> 's \<times> 'r) \<Rightarrow>
    'r \<Rightarrow> 's \<Rightarrow> 's \<times> 'r option" where
  "sql_insert get put ident clash assign r s =
     (case assign s r of (s1, r') \<Rightarrow>
        if lget ident (get s) (ident r') = None \<and> \<not> list_ex (clash r') (get s) then (put (r' # get s) s1, Some r') else (s, None))"

definition sql_upsert :: "('s \<Rightarrow> 'r list) \<Rightarrow> ('r list \<Rightarrow> 's \<Rightarrow> 's) \<Rightarrow> ('r \<Rightarrow> 'k) \<Rightarrow> 'r \<Rightarrow> ('r \<Rightarrow> bool) \<Rightarrow> ('r \<Rightarrow> 'r) \<Rightarrow> 's \<Rightarrow> 's \<times> int res" where
  "sql_upsert get put ident r f u s =
     (case lget ident (get s) (ident r) of
        None \<Rightarrow> (put (r # get s) s, Inr 1)
      | Some x \<Rightarrow>
          if \<not> f x then (s, Inr 0)
          else if ident (u x) = ident x then (put (lput ident (u x) (get s)) s, Inr 1) else (s, Inl violated))"

definition sql_update :: "('s \<Rightarrow> 'r list) \<Rightarrow> ('r list \<Rightarrow> 's \<Rightarrow> 's) \<Rightarrow> ('r \<Rightarrow> 'k) \<Rightarrow> ('r \<Rightarrow> bool) \<Rightarrow> ('r \<Rightarrow> 'r) \<Rightarrow> 's \<Rightarrow> 's \<times> int res" where
  "sql_update get put ident f u s =
     (if sql_keeps_keys ident f u (get s)
      then (put (map (\<lambda>r. if f r then u r else r) (get s)) s, Inr (int (card (set (lmatch ident f (get s))))))
      else (s, Inl violated))"

definition sql_claims :: "('s \<Rightarrow> 'r list) \<Rightarrow> ('r list \<Rightarrow> 's \<Rightarrow> 's) \<Rightarrow> ('r \<Rightarrow> 'k) \<Rightarrow> ('r \<Rightarrow> bool) \<Rightarrow> ('r \<Rightarrow> 'r \<Rightarrow> bool) \<Rightarrow> int \<Rightarrow> ('r \<Rightarrow> 'r) \<Rightarrow> 's \<Rightarrow> 's \<times> 'r list res" where
  "sql_claims get put ident f lt n u s =
     (let js = take (nat n) (sort_slice lt (remdups (lmatch ident f (get s)))); ks = map ident js
      in if sql_keeps_keys ident (\<lambda>_. True) u (get s)
         then (put (map (\<lambda>r. if ident r \<in> set ks then u r else r) (get s)) s, Inr (map u js)) else (s, Inl violated))"

definition sql_deletes :: "('s \<Rightarrow> 'r list) \<Rightarrow> ('r list \<Rightarrow> 's \<Rightarrow> 's) \<Rightarrow> ('r \<Rightarrow> 'k) \<Rightarrow> ('r \<Rightarrow> bool) \<Rightarrow> 's \<Rightarrow> 's \<times> int res" where
  "sql_deletes get put ident f s =
     (let ks = ident ` set (lmatch ident f (get s)) in (put (filter (\<lambda>r. ident r \<notin> ks) (get s)) s, Inr (int (card ks))))"

definition local_table :: "('s \<Rightarrow> 'r list) \<Rightarrow> ('r list \<Rightarrow> 's \<Rightarrow> 's) \<Rightarrow> ('r \<Rightarrow> 'k) \<Rightarrow> ('r \<Rightarrow> 'r \<Rightarrow> bool) \<Rightarrow> ('s \<Rightarrow> 'r \<Rightarrow> 's \<times> 'r) \<Rightarrow> ('r, 's) table" where
  "local_table get put ident clash assign = \<lparr>
     tb_select = (\<lambda>f lt most s. let rs = sort_slice lt (lmatch ident f (get s)) in Inr (case most of None \<Rightarrow> rs | Some n \<Rightarrow> take (nat n) rs)),
     tb_insert = (\<lambda>r s. case sql_insert get put ident clash assign r s of (s1, None) \<Rightarrow> (s1, Inl violated) | (s1, Some r') \<Rightarrow> (s1, Inr r')),
     tb_insert_new = (\<lambda>r s. case sql_insert get put ident clash assign r s of (s1, x) \<Rightarrow> (s1, Inr x)),
     tb_upsert = sql_upsert get put ident,
     tb_update = sql_update get put ident,
     tb_claim = sql_claims get put ident,
     tb_delete = sql_deletes get put ident\<rparr>"

lemma local_update:
  assumes lens: "\<And>g s. get (put g s) = g" and "sql_update get put ident f u s = (s', Inr n)"
  shows "updates f u (lget ident (get s)) (lget ident (get s')) n"
proof -
  let ?rows = "lget ident (get s)"
  from assms(2) have s': "s' = put (map (\<lambda>r. if f r then u r else r) (get s)) s" "n = int (card (set (lmatch ident f (get s))))"
    and keys: "\<forall>r\<in>set (get s). ident (if f r then u r else r) = ident r"
    by (auto simp: sql_update_def sql_keeps_keys_def list_all_iff split: if_splits)
  have "lget ident (get s') = updated f u ?rows" using lget_map [OF keys] by (simp add: s' lens updated_def fun_eq_iff)
  moreover have card: "n = int (card {k. \<exists>r. ?rows k = Some r \<and> f r})"
    unfolding s'(2) set_lmatch_keys [of ident f "get s", symmetric] by (simp add: card_image inj_lmatch)
  moreover have "card {k. \<exists>r. ?rows k = Some r \<and> f r \<and> u r \<noteq> r} \<le> card {k. \<exists>r. ?rows k = Some r \<and> f r}"
    using finite_imageI [OF finite_set [of "lmatch ident f (get s)"], of ident] unfolding set_lmatch_keys by (rule card_mono) blast
  ultimately show ?thesis by (simp add: updates_def)
qed

lemma local_claim:
  assumes lens: "\<And>g s. get (put g s) = g" and "n \<ge> 0" "sql_claims get put ident f lt n u s = (s', Inr rs)"
  shows "\<exists>ks. claims_rows f n u (lget ident (get s)) (lget ident (get s')) ks rs"
proof -
  let ?rows = "lget ident (get s)"
  define js where "js = take (nat n) (sort_slice lt (remdups (lmatch ident f (get s))))"
  define g where "g r = (if ident r \<in> set (map ident js) then u r else r)" for r
  from assms(3) have s': "s' = put (map g (get s)) s" "rs = map u js" and keys: "\<forall>r\<in>set (get s). ident (u r) = ident r"
    by (auto simp: sql_claims_def js_def g_def [abs_def] Let_def sql_keeps_keys_def list_all_iff split: if_splits)
  have sub: "set js \<subseteq> set (lmatch ident f (get s))"
    using set_take_subset [of "nat n" "sort_slice lt (remdups (lmatch ident f (get s)))"] by (simp add: js_def set_sort_slice_any)
  have at: "?rows (ident j) = Some j \<and> f j" if "j \<in> set js" for j using sub that by (auto simp: lmatch_iff)
  have rows': "lget ident (get s') k = (if k \<in> set (map ident js) then map_option u (?rows k) else ?rows k)" for k
  proof -
    have "lget ident (get s') k = map_option g (?rows k)" using lget_map [of "get s" ident g] keys by (simp add: s' lens g_def)
    then show ?thesis using lget_keyed [of ident "get s" k] by (cases "?rows k") (auto simp: g_def)
  qed
  have "distinct js" by (simp add: js_def distinct_sort_slice_any)
  then have "distinct (map ident js)" using inj_on_subset [OF inj_lmatch sub] by (simp add: distinct_map)
  moreover have "int (length js) \<le> n" using assms(2) by (simp add: js_def)
  moreover have "map Some rs = map (lget ident (get s')) (map ident js)" using at by (simp add: s'(2) rows')
  ultimately have "claims_rows f n u ?rows (lget ident (get s')) (map ident js) rs"
    unfolding claims_rows_def using at rows' by (auto simp: fun_eq_iff)
  then show ?thesis by blast
qed

lemma local_upsert:
  assumes lens: "\<And>g s. get (put g s) = g" and "sql_upsert get put ident r f u s = (s', Inr n)"
  shows "upserts (ident r) r f u (lget ident (get s)) (lget ident (get s')) n"
proof (cases "lget ident (get s) (ident r)")
  case None
  with assms(2) show ?thesis by (auto simp: sql_upsert_def upserts_def lens lget_insert)
next
  case (Some x)
  with assms(2) lget_keyed [OF Some] show ?thesis
    by (auto simp: sql_upsert_def upserts_def lens lget_put split: if_splits)
qed

lemma local_delete:
  assumes lens: "\<And>g s. get (put g s) = g" and "sql_deletes get put ident f s = (s', r)"
  shows "lget ident (get s') = remaining f (lget ident (get s))"
proof
  fix k
  from assms have "get s' = filter (\<lambda>r. ident r \<notin> {k. \<exists>d. lget ident (get s) k = Some d \<and> f d}) (get s)"
    by (auto simp: sql_deletes_def Let_def set_lmatch_keys)
  then show "lget ident (get s') k = remaining f (lget ident (get s)) k"
    using lget_filter_map [of ident "\<lambda>k. k \<notin> {k. \<exists>d. lget ident (get s) k = Some d \<and> f d}" "get s" k]
    by (cases "lget ident (get s) k") (simp_all add: remaining_def)
qed

lemma local_table_laws:
  assumes lens: "\<And>g s. get (put g s) = g" and new: "\<And>s r. inserted r (snd (assign s r))"
  shows "sql_table (local_table get put ident clash assign) ident inserted (\<lambda>s. lget ident (get s))"
proof unfold_locales
  let ?t = "local_table get put ident clash assign" and ?rows = "\<lambda>s. lget ident (get s)"
  fix s s' k r r' f u lt n e rs most
  show "ident r = k" if "?rows s k = Some r" using lget_keyed [OF that] by simp
  show "?rows s (ident r) = Some r \<and> f r" if "tb_select ?t f lt most s = Inr rs" "r \<in> set rs"
  proof -
    have "r \<in> set (sort_slice lt (lmatch ident f (get s)))"
      using that by (auto simp: local_table_def Let_def split: option.splits dest: in_set_takeD)
    then show ?thesis by (simp add: set_sort_slice_any lmatch_iff)
  qed
  show "inserted r r' \<and> ?rows s (ident r') = None \<and> ?rows s' = (?rows s)(ident r' \<mapsto> r')" if "tb_insert ?t r s = (s', Inr r')"
    using that new [of r s] by (auto simp: local_table_def sql_insert_def lens lget_insert split: prod.splits if_splits option.splits)
  show "?rows s' = ?rows s \<or> (\<exists>r'. inserted r r' \<and> ?rows s (ident r') = None \<and> ?rows s' = (?rows s)(ident r' \<mapsto> r'))"
    if "tb_insert ?t r s = (s', Inl e)"
    using that by (auto simp: local_table_def sql_insert_def split: prod.splits if_splits option.splits)
  show "upserts (ident r) r f u (?rows s) (?rows s') n" if "tb_upsert ?t r f u s = (s', Inr n)"
    using that local_upsert [of get put, OF lens] by (simp add: local_table_def)
  show "?rows s' = ?rows s \<or> (\<exists>n. upserts (ident r) r f u (?rows s) (?rows s') n)" if "tb_upsert ?t r f u s = (s', Inl e)"
    using that by (auto simp: local_table_def sql_upsert_def split: option.splits if_splits)
  show "updates f u (?rows s) (?rows s') n" if "tb_update ?t f u s = (s', Inr n)"
    using that local_update [of get put, OF lens] by (simp add: local_table_def)
  show "?rows s' = ?rows s \<or> ?rows s' = updated f u (?rows s)" if "tb_update ?t f u s = (s', Inl e)"
    using that by (auto simp: local_table_def sql_update_def split: if_splits)
  show "\<exists>ks. claims_rows f n u (?rows s) (?rows s') ks rs" if "n \<ge> 0" "tb_claim ?t f lt n u s = (s', Inr rs)"
    using that local_claim [of get put, OF lens] by (simp add: local_table_def)
  show "?rows s' = ?rows s \<or> (\<exists>ks rs. claims_rows f n u (?rows s) (?rows s') ks rs)" if "n \<ge> 0" "tb_claim ?t f lt n u s = (s', Inl e)"
    using that by (auto simp: local_table_def sql_claims_def Let_def split: if_splits)
  show "?rows s' = remaining f (?rows s)" if "tb_delete ?t f s = (s', Inr n)"
    using that local_delete [of get put, OF lens] by (simp add: local_table_def)
  show "?rows s' = ?rows s \<or> ?rows s' = remaining f (?rows s)" if "tb_delete ?t f s = (s', Inl e)"
    using that by (simp add: local_table_def sql_deletes_def Let_def)
qed

definition same_unique_key :: "sqlJob \<Rightarrow> sqlJob \<Rightarrow> bool" where
  "same_unique_key a b \<longleftrightarrow> sj_unique_key a \<noteq> None \<and> sj_unique_key a = sj_unique_key b"

text \<open>An underscore of a pattern stands for any character.\<close>

definition like_permanent :: "string \<Rightarrow> bool" where
  "like_permanent key \<longleftrightarrow> HasPrefix key ''uf2'' \<and> length key \<ge> 4"

definition never :: "'r \<Rightarrow> 'r \<Rightarrow> bool" where "never a b \<longleftrightarrow> False"

definition sql_groups :: "string \<Rightarrow> sql_db \<Rightarrow> (JobState \<times> int) list res" where
  "sql_groups queue s =
     (let states = map sj_state (lmatch sj_id (\<lambda>j. sj_queue j = queue) (sdb_jobs s))
      in Inr (map (\<lambda>st. (st, int (count_list states st))) (remdups states)))"

text \<open>Instants are whole microseconds.\<close>

definition local_sql :: "sql_db sql" where
  "local_sql = \<lparr>
     sq_jobs = local_table sdb_jobs (\<lambda>g s. s\<lparr>sdb_jobs := g\<rparr>) sj_id same_unique_key (\<lambda>s j. (s\<lparr>sdb_next := sdb_next s + 1\<rparr>, j\<lparr>sj_id := sdb_next s\<rparr>)),
     sq_queues = local_table sdb_queues (\<lambda>g s. s\<lparr>sdb_queues := g\<rparr>) sq_name never Pair,
     sq_leaders = local_table sdb_leaders (\<lambda>g s. s\<lparr>sdb_leaders := g\<rparr>) sl_name never Pair,
     sq_cursors = local_table sdb_cursors (\<lambda>g s. s\<lparr>sdb_cursors := g\<rparr>) sc_id never Pair,
     sq_group_states = sql_groups,
     sq_time = (\<lambda>t. 1000 * (t div 1000)),
     sq_json = (\<lambda>t. t),
     sq_number = (\<lambda>t. case ParseInt t of None \<Rightarrow> Inl (Errorf ''invalid input syntax for type bigint'') | Some n \<Rightarrow> Inr n),
     sq_permanent = like_permanent,
     sq_no_rows = Errorf ''no rows in result set''\<rparr>"

abbreviation sql_jobs_of :: "sql_db \<Rightarrow> int \<Rightarrow> sqlJob option" where
  "sql_jobs_of \<equiv> \<lambda>s. lget sj_id (sdb_jobs s)"

abbreviation sql_leaders_of :: "sql_db \<Rightarrow> string \<Rightarrow> sqlLeader option" where
  "sql_leaders_of \<equiv> \<lambda>s. lget sl_name (sdb_leaders s)"

interpretation local_sq: sql_service local_sql sql_jobs_of sql_leaders_of
proof (intro sql_service.intro sql_service_axioms.intro)
  show "sql_table (sq_jobs local_sql) sj_id gets_number sql_jobs_of"
    by (simp add: local_sql_def) (rule local_table_laws; simp add: gets_number_def)
  show "sql_table (sq_leaders local_sql) sl_name (=) sql_leaders_of"
    by (simp add: local_sql_def) (rule local_table_laws; simp)
  show "sq_time local_sql t \<le> sq_time local_sql t'" if "t \<le> t'" for t t' using that by (simp add: local_sql_def zdiv_mono1)
qed

definition empty_sql :: sql_db where
  "empty_sql = \<lparr>sdb_jobs = [], sdb_queues = [], sdb_leaders = [], sdb_cursors = [], sdb_next = 1\<rparr>"

section \<open>Leases exclude each other\<close>

definition sql_lease :: "(string \<Rightarrow> sqlLeader option) \<Rightarrow> string \<Rightarrow> (string \<times> gotime) option" where
  "sql_lease stored_rows name = map_option (\<lambda>l. (sl_worker_id l, sl_expires_at l)) (stored_rows name)"

text \<open>What does not touch a lease.\<close>

definition spares_lease :: "('s \<Rightarrow> string \<Rightarrow> sqlLeader option) \<Rightarrow> ('s \<Rightarrow> 's) \<Rightarrow> bool" where
  "spares_lease leader_rows f \<longleftrightarrow> (\<forall>s. leader_rows (f s) = leader_rows s)"

context sql_service
begin

abbreviation lease_in :: "string \<Rightarrow> 's \<Rightarrow> (string \<times> gotime) option" where
  "lease_in name s \<equiv> sql_lease (leader_rows s) name"

lemma upsert_takes:
  assumes "pgx_leaderAttemptElect c t \<lparr>le_Name = name, le_WorkerID = w, le_TTL = ttl\<rparr> s = (s', r)"
  shows "takes_lease (sq_time c) t w ttl (lease_in name s) (lease_in name s') r"
proof -
  define row where "row = \<lparr>sl_name = name, sl_worker_id = w, sl_expires_at = sq_time c (t + ttl)\<rparr>"
  define f where "f l \<longleftrightarrow> sl_expires_at l \<le> sq_time c t \<or> sl_worker_id l = w" for l :: sqlLeader
  define u where "u l = l\<lparr>sl_worker_id := w, sl_expires_at := sq_time c (t + ttl)\<rparr>" for l :: sqlLeader
  obtain x where x: "tb_upsert (sq_leaders c) row f u s = (s', x)" "r = map_sum id (\<lambda>n. n > 0) x"
    using assms by (auto simp: pgx_leaderAttemptElect_def Let_def row_def f_def [abs_def] u_def [abs_def] split: prod.splits sum.splits)
  have ups: "takes_lease (sq_time c) t w ttl (lease_in name s) (lease_in name s') (Inr (n > 0)) \<and> (isl r \<longrightarrow> takes_lease (sq_time c) t w ttl (lease_in name s) (lease_in name s') r)"
    if "upserts name row f u (leader_rows s) (leader_rows s') n" for n
    using that unfolding upserts_def takes_lease_def sql_lease_def
    by (auto simp: row_def f_def u_def split: option.splits if_splits)
  show ?thesis
  proof (cases x)
    case (Inl e)
    with leaders.upsert_fails [of row f u s s' e] x ups show ?thesis by (auto simp: row_def takes_lease_def sql_lease_def)
  next
    case (Inr n)
    with leaders.upsert [of row f u s s' n] x ups [of n] show ?thesis by (simp add: row_def)
  qed
qed

lemma update_takes:
  assumes "std_elect_update c t \<lparr>le_Name = name, le_WorkerID = w, le_TTL = ttl\<rparr> s = (s', r)"
  shows "takes_lease (sq_time c) t w ttl (lease_in name s) (lease_in name s') r"
proof -
  define f where "f l \<longleftrightarrow> sl_name l = name \<and> (sl_expires_at l \<le> sq_time c t \<or> sl_worker_id l = w)" for l :: sqlLeader
  define u where "u l = l\<lparr>sl_worker_id := w, sl_expires_at := sq_time c (t + ttl)\<rparr>" for l :: sqlLeader
  obtain x where x: "tb_update (sq_leaders c) f u s = (s', x)" "r = map_sum id (\<lambda>n. n > 0) x"
    using assms by (auto simp: std_elect_update_def f_def [abs_def] u_def [abs_def] split: prod.splits sum.splits)
  have named: "\<forall>l. f l \<longrightarrow> sl_name l = name" by (simp add: f_def)
  note at = leaders.update_at [of f u s s' x name, OF x(1) named]
  have u: "sl_worker_id (u l) = w" "sl_expires_at (u l) = sq_time c (t + ttl)" for l by (simp_all add: u_def)
  from at show ?thesis
  proof (elim disjE exE conjE)
    fix l assume l: "leader_rows s name = Some l" "f l" "leader_rows s' = (leader_rows s)(name \<mapsto> u l)"
      and n: "\<forall>n. x = Inr n \<longrightarrow> n \<le> 1 \<and> (u l \<noteq> l \<longrightarrow> n = 1)"
    show ?thesis
    proof (cases "r = Inr False")
      case True
      then have "u l = l" using n x(2) by (cases x) auto
      with l True show ?thesis by (simp add: takes_lease_def sql_lease_def)
    qed (use l in \<open>auto simp: takes_lease_def sql_lease_def u f_def\<close>)
  qed (cases x; simp add: takes_lease_def sql_lease_def x(2))+
qed

lemma insert_takes:
  assumes "spares_lease leader_rows others" "std_elect_insert c others t \<lparr>le_Name = name, le_WorkerID = w, le_TTL = ttl\<rparr> s = (s', r)"
  shows "takes_lease (sq_time c) t w ttl (lease_in name s) (lease_in name s') r"
proof -
  define row where "row = \<lparr>sl_name = name, sl_worker_id = w, sl_expires_at = sq_time c (t + ttl)\<rparr>"
  obtain s1 x where x: "tb_insert (sq_leaders c) row s = (s1, x)" by fastforce
  have r: "leader_rows s' = leader_rows s1" "r = Inr True \<longleftrightarrow> \<not> isl x"
    using assms x by (auto simp: std_elect_insert_def spares_lease_def row_def split: sum.splits)
  show ?thesis
    using leaders.insert [of row s s1] leaders.insert_fails [of row s s1] x r unfolding takes_lease_def sql_lease_def
    by (cases x) (auto simp: row_def)
qed

lemma resign_leaves:
  assumes "std_leaderResign c \<lparr>lr_Name = name, lr_WorkerID = w\<rparr> s = (s', err)"
  shows "lease_in name s' = lease_in name s \<or> lease_in name s' = None \<and> (\<exists>e. lease_in name s = Some (w, e))"
proof -
  define f where "f l \<longleftrightarrow> sl_name l = name \<and> sl_worker_id l = w" for l :: sqlLeader
  obtain x where x: "tb_delete (sq_leaders c) f s = (s', x)"
    using assms by (auto simp: std_leaderResign_def f_def [abs_def] split: prod.splits sum.splits)
  then have "leader_rows s' = leader_rows s \<or> leader_rows s' = remaining f (leader_rows s)"
    using leaders.delete [of f s s'] leaders.delete_fails [of f s s'] by (cases x) auto
  then show ?thesis by (cases "leader_rows s name") (auto simp: remaining_def sql_lease_def f_def split: if_splits)
qed

lemma pgx_resign: "pgx_leaderResign c = std_leaderResign c"
  by (simp add: fun_eq_iff pgx_leaderResign_def std_leaderResign_def)

lemma sql_lease_laws:
  assumes "take_it \<in> {pgx_leaderAttemptElect c, std_elect_update c}"
    and "create \<in> {pgx_leaderAttemptElect c, std_elect_insert c others}" "spares_lease leader_rows others"
    and "resign \<in> {pgx_leaderResign c, std_leaderResign c}"
  shows "lease_commands take_it create resign (sq_time c) lease_in"
proof unfold_locales
  have resign: "resign = std_leaderResign c" using assms(4) pgx_resign by auto
  fix t t' name w ttl s s' r err
  show "takes_lease (sq_time c) t w ttl (lease_in name s) (lease_in name s') r"
    if "take_it t \<lparr>le_Name = name, le_WorkerID = w, le_TTL = ttl\<rparr> s = (s', r)" using that assms(1) upsert_takes update_takes by auto
  show "takes_lease (sq_time c) t w ttl (lease_in name s) (lease_in name s') r"
    if "create t \<lparr>le_Name = name, le_WorkerID = w, le_TTL = ttl\<rparr> s = (s', r)"
    using that assms(2) upsert_takes insert_takes [OF assms(3)] by auto
  show "lease_in name s' = lease_in name s \<or> lease_in name s' = None \<and> (\<exists>e. lease_in name s = Some (w, e))"
    if "resign \<lparr>lr_Name = name, lr_WorkerID = w\<rparr> s = (s', err)" using that resign resign_leaves by simp
  show "sq_time c t \<le> sq_time c t'" if "t \<le> t'" using instants [OF that] .
qed

end

end
