(* ===== verification/Sql_Properties.thy ===== *)
theory Sql_Properties
  imports Sql_Service
begin

text \<open>
  Leases, batches and outcomes over SQL databases, for every database that satisfies the laws of \<open>sql_service\<close>:
  leases exclude each other whichever driver takes them, batches of the pgx driver are exclusive while
  those of the \<^verbatim>\<open>database/sql\<close> driver are not, and outcomes are one fenced update in every dialect.
\<close>

section \<open>Leases\<close>


text \<open>Workers of both drivers on one database, and a takeover.\<close>

definition sql_elections :: "sql_db command_event list" where
  "sql_elections = [TakeLease 1000000 ''a'' 5000000, TakeLease 1500000 ''b'' 5000000, CreateLease 1500000 ''b'' 5000000,
     CommandElse (\<lambda>s. s\<lparr>sdb_next := 7\<rparr>), TakeLease 6500000 ''b'' 5000000, DropLease ''a'']"


section \<open>Batches\<close>


definition sql_new_job :: JobInsertParams where
  "sql_new_job = \<lparr>ip_Queue = ''q'', ip_Kind = ''k'', ip_Args = ''{}'', ip_Priority = 0, ip_RunAt = 0, ip_UniqueKey = ''u'', ip_MaxRetry = 3,
     ip_Timeout = 0, ip_Tags = [], ip_PipelineID = []\<rparr>"

definition sql_filled :: sql_db where
  "sql_filled = fst (pgx_jobInsertMany local_sql (\<lambda>_ s. s) 1000000 [sql_new_job, sql_new_job\<lparr>ip_UniqueKey := [], ip_Priority := 5\<rparr>] empty_sql)"

definition sql_fetch :: "string \<Rightarrow> FetchParams" where
  "sql_fetch worker = \<lparr>fp_Queue = ''q'', fp_Limit = 5, fp_WorkerID = worker, fp_LeaseDuration = 4000000\<rparr>"




section \<open>Outcomes\<close>

text \<open>What an outcome makes of the row of its claim.\<close>

definition sql_outcome :: "'s sql \<Rightarrow> (nat \<Rightarrow> gotime) \<Rightarrow> JobSetStateParams \<Rightarrow> sqlJob \<Rightarrow> sqlJob" where
  "sql_outcome c clk p j = (if sp_Yield p then sql_yield j else sql_append (encodeError (clk 0) p) (sql_main c (clk 1) p j))"

text \<open>The calls of the two drivers, the second in each of its dialects.\<close>

definition sql_set_state :: "Dialect option \<Rightarrow> 's sql \<Rightarrow> ('s \<Rightarrow> 's) \<Rightarrow> (nat \<Rightarrow> gotime) \<Rightarrow> JobSetStateParams \<Rightarrow> 's \<Rightarrow> 's \<times> goerr option" where
  "sql_set_state d c others clk p s =
     (case d of None \<Rightarrow> pgx_jobSetStateIfRunning c clk p s | Some d \<Rightarrow> std_jobSetStateIfRunning d c others clk p s)"

lemma encode_attempt: "encodeError now p = (case std_attempt_error now p of None \<Rightarrow> [] | Some e \<Rightarrow> [e])"
  by (simp add: encodeError_def std_attempt_error_def split: option.splits)

lemma stale_same: "staleClaimIfNoRows = stale_if_none"
  by (simp add: fun_eq_iff staleClaimIfNoRows_def stale_if_none_def)

lemma outcome_changes: "sj_state j = JobStateRunning \<Longrightarrow> sp_State p \<noteq> JobStateRunning \<Longrightarrow> sql_outcome c clk p j \<noteq> j"
  "sj_state j = JobStateRunning \<Longrightarrow> sp_State p \<noteq> JobStateRunning \<Longrightarrow> sql_main c now p j \<noteq> j"
proof -
  assume h: "sj_state j = JobStateRunning" "sp_State p \<noteq> JobStateRunning"
  have "sj_state (sql_outcome c clk p j) \<noteq> JobStateRunning" "sj_state (sql_main c now p j) \<noteq> JobStateRunning"
    using h by (simp_all add: sql_outcome_def sql_yield_def sql_release_def sql_append_def sql_main_def Let_def)
  with h show "sql_outcome c clk p j \<noteq> j" "sql_main c now p j \<noteq> j" by auto
qed

text \<open>Appending an error keeps the fence and commutes with the rest of the outcome.\<close>

lemma append_then_main:
  "sql_fenced n p (sql_append es j) = sql_fenced n p j" "sql_main c now p (sql_append es j) = sql_append es (sql_main c now p j)"
  by (simp_all add: sql_fenced_def sql_append_def sql_main_def Let_def)

context sql_service
begin

lemma fenced_update:
  assumes "stale_if_none jid (tb_update (sq_jobs c) (sql_fenced n p) u s) = (s', err)" "\<And>j. sql_fenced n p j \<Longrightarrow> u j \<noteq> j"
  shows "(err = None \<longrightarrow> (\<exists>j. job_rows s n = Some j \<and> sql_fenced n p j \<and> job_rows s' = (job_rows s)(n \<mapsto> u j))) \<and>
    ((\<forall>j. job_rows s n = Some j \<longrightarrow> \<not> sql_fenced n p j) \<longrightarrow> err \<noteq> None \<and> job_rows s' = job_rows s)"
proof -
  obtain r where r: "tb_update (sq_jobs c) (sql_fenced n p) u s = (s', r)" using assms(1) by (auto simp: stale_if_none_def split: prod.splits sum.splits)
  have err: "err = (case r of Inl e \<Rightarrow> Some e | Inr m \<Rightarrow> if m = 0 then Some (stale_claim jid) else None)"
    using assms(1) r by (auto simp: stale_if_none_def split: sum.splits)
  have "\<forall>j. sql_fenced n p j \<longrightarrow> sj_id j = n" by (simp add: sql_fenced_def)
  from jobs.update_at [OF r this] assms(2) err show ?thesis by (cases r) auto
qed

lemma plain_update:
  assumes "set_state_plain c (\<lambda>s. s) clk p n s = (s', err)" "\<not> sp_Yield p" "sp_State p \<noteq> JobStateRunning"
  shows "(err = None \<longrightarrow> (\<exists>j. job_rows s n = Some j \<and> sql_fenced n p j \<and> job_rows s' = (job_rows s)(n \<mapsto> sql_outcome c clk p j))) \<and>
    ((\<forall>j. job_rows s n = Some j \<longrightarrow> \<not> sql_fenced n p j) \<longrightarrow> err \<noteq> None \<and> job_rows s' = job_rows s)"
proof -
  have changes: "sql_main c (clk 1) p j \<noteq> j" if "sql_fenced n p j" for j using outcome_changes(2) [of j p] that assms(3) by (simp add: sql_fenced_def)
  note main = fenced_update [OF _ changes]
  show ?thesis
  proof (cases "std_attempt_error (clk 0) p")
    case None
    then have "sql_outcome c clk p = sql_main c (clk 1) p" using assms(2) by (simp add: fun_eq_iff sql_outcome_def encode_attempt sql_append_def)
    with main assms(1) None show ?thesis by (simp add: set_state_plain_def stale_same)
  next
    case (Some e)
    then have out: "sql_outcome c clk p j = sql_main c (clk 1) p (sql_append [e] j)" for j
      using assms(2) by (simp add: sql_outcome_def encode_attempt append_then_main)
    obtain s1 r where r: "tb_update (sq_jobs c) (sql_fenced n p) (sql_append [e]) s = (s1, r)" by fastforce
    have "\<forall>j. sql_fenced n p j \<longrightarrow> sj_id j = n" by (simp add: sql_fenced_def)
    note first = jobs.update_at [OF r this]
    show ?thesis
    proof (cases r)
      case (Inl x)
      with Some r assms(1) have "s' = s1" "err \<noteq> None" by (auto simp: set_state_plain_def)
      with first show ?thesis by auto
    next
      case (Inr m)
      with Some r assms(1) have second: "stale_if_none (sp_ID p) (tb_update (sq_jobs c) (sql_fenced n p) (sql_main c (clk 1) p) s1) = (s', err)"
        by (simp add: set_state_plain_def stale_same)
      from first Inr consider (none) "job_rows s1 = job_rows s" "\<forall>j. job_rows s n = Some j \<longrightarrow> \<not> sql_fenced n p j"
        | (one) j where "job_rows s n = Some j" "sql_fenced n p j" "job_rows s1 = (job_rows s)(n \<mapsto> sql_append [e] j)" by auto
      then show ?thesis
      proof cases
        case none
        with main [OF second] show ?thesis by auto
      next
        case one
        with main [OF second] show ?thesis by (auto simp: append_then_main out)
      qed
    qed
  qed
qed

lemma outcome_one_update:
  assumes "ParseInt (sp_ID p) = Some n" "sq_number c (sp_ID p) = Inr n"
    and "sp_State p \<noteq> JobStateRunning" "sql_set_state d c (\<lambda>s. s) clk p s = (s', err)"
  shows "(err = None \<longrightarrow> (\<exists>j. job_rows s n = Some j \<and> sql_fenced n p j \<and> job_rows s' = (job_rows s)(n \<mapsto> sql_outcome c clk p j))) \<and>
    ((\<forall>j. job_rows s n = Some j \<longrightarrow> \<not> sql_fenced n p j) \<longrightarrow> err \<noteq> None \<and> job_rows s' = job_rows s)"
proof (cases "\<not> sp_Yield p \<and> d \<noteq> None \<and> d \<noteq> Some Postgres")
  case True
  with assms(2,4) have "set_state_plain c (\<lambda>s. s) clk p n s = (s', err)" by (auto simp: sql_set_state_def std_jobSetStateIfRunning_def split: if_splits)
  from plain_update [OF this] True assms(3) show ?thesis by simp
next
  case False
  have changes: "sql_outcome c clk p j \<noteq> j" if "sql_fenced n p j" for j using outcome_changes(1) [of j p] that assms(3) by (simp add: sql_fenced_def)
  have "stale_if_none (sp_ID p) (tb_update (sq_jobs c) (sql_fenced n p) (sql_outcome c clk p) s) = (s', err)"
    using False assms(1,2,4) by (cases "sp_Yield p"; cases d)
      (auto simp: sql_set_state_def pgx_jobSetStateIfRunning_def std_jobSetStateIfRunning_def set_state_postgres_def stale_same
        sql_outcome_def [abs_def] encode_attempt)
  from fenced_update [OF this changes] show ?thesis by simp
qed

end


text \<open>An attempt that fails and is retried, and the same outcome after a rescue.\<close>

definition sql_running :: sql_db where
  "sql_running = fst (pgx_jobFetchBatch local_sql 3000000 (sql_fetch ''w'') sql_filled)"

definition sql_rescued :: sql_db where
  "sql_rescued = fst (std_jobRescueStuck local_sql \<lparr>rp_Queue = ''q'', rp_At = 8000000, rp_Before = 0\<rparr> sql_running)"

definition sql_failed :: JobSetStateParams where
  "sql_failed = blank_state\<lparr>sp_ID := ''1'', sp_State := JobStateRetryable, sp_Err := Some ''boom'', sp_Attempt := 1, sp_RetryAt := 9000000,
     sp_ExpectedWorkerID := ''w'', sp_ExpectedAttempt := 1\<rparr>"

lemma sql_failed_ids: "ParseInt (sp_ID sql_failed) = Some 1" "sq_number local_sql (sp_ID sql_failed) = Inr 1" "sp_State sql_failed \<noteq> JobStateRunning"
  by code_simp+


text \<open>The outcome of a row, read by the driver, and the in-memory driver's.\<close>

lemma scanned_outcome:
  assumes "sp_Attempt p = sj_attempt_num j" "sq_time c (clk 1) = clk 1" "sq_time c (sp_RetryAt p) = sp_RetryAt p"
    and "sp_State p = JobStateRetryable \<longrightarrow> \<not> IsZero (sp_RetryAt p)"
  shows "pgx_scanJobRow (sql_outcome c clk p j) = (set_state_row clk p (pgx_scanJobRow j))
    \<lparr>StartedAt := if sp_Yield p then None else sj_started_at j,
     UniqueKey := (case released_key c (\<not> sp_Yield p \<and> terminal (sp_State p)) (sj_unique_key j) of None \<Rightarrow> [] | Some k \<Rightarrow> k)\<rparr>"
proof (cases "sp_Yield p")
  case True
  then show ?thesis by (simp add: sql_outcome_def set_state_row_def pgx_scanJobRow_def sql_yield_def sql_release_def released_key_def split: option.splits)
next
  case False
  with assms show ?thesis
    by (cases "sp_Err p") (auto simp: sql_outcome_def set_state_row_def pgx_scanJobRow_def sql_main_def sql_append_def encodeError_def terminal_def Let_def)
qed


definition sql_mem :: mem where
  "sql_mem = mem_New\<lparr>jobs := [(''1'', case sql_jobs_of sql_running 1 of Some j \<Rightarrow> pgx_scanJobRow j)]\<rparr>"


end
