(* ===== verification/Sql_Schema.thy ===== *)
theory Sql_Schema
  imports Stdlib_Driver
begin

text \<open>
  Transactions and migrations of the SQL drivers: nested transactions of \<^verbatim>\<open>driver/stdlib/executor.go\<close>, \<^verbatim>\<open>Migrate\<close> of
  \<^verbatim>\<open>driver/stdlib/stdlib.go\<close> and \<^verbatim>\<open>driver/pgxv5/pgxv5.go\<close>. The connection is a parameter, the records \<open>txconn\<close> and
  \<open>schema\<close> of the statements that are sent.
\<close>

section \<open>Nested transactions\<close>

text \<open>
  A transaction of the database, with the statements for savepoints; all savepoints of the driver have
  one name. An executor of a transaction is the transaction itself or one of its savepoints.
\<close>

record 't txconn =
  tc_savepoint :: "'t \<Rightarrow> 't \<times> goerr option"
  tc_release :: "'t \<Rightarrow> 't \<times> goerr option"
  tc_rollback_to :: "'t \<Rightarrow> 't \<times> goerr option"
  tc_commit :: "'t \<Rightarrow> 't \<times> goerr option"
  tc_rollback :: "'t \<Rightarrow> 't \<times> goerr option"

datatype tx_executor = TxExecutor | SavepointExecutor

definition tx_Begin :: "Dialect \<Rightarrow> 't txconn \<Rightarrow> tx_executor \<Rightarrow> 't \<Rightarrow> 't \<times> tx_executor res" where
  "tx_Begin d c h t =
     (if d = Postgres then
        (case tc_savepoint c t of (t1, Some e) \<Rightarrow> (t1, Inl e) | (t1, None) \<Rightarrow> (t1, Inr SavepointExecutor))
      else (t, Inr TxExecutor))"

definition tx_Commit :: "'t txconn \<Rightarrow> tx_executor \<Rightarrow> 't \<Rightarrow> 't \<times> goerr option" where
  "tx_Commit c h t = (case h of TxExecutor \<Rightarrow> tc_commit c t | SavepointExecutor \<Rightarrow> tc_release c t)"

definition tx_Rollback :: "'t txconn \<Rightarrow> tx_executor \<Rightarrow> 't \<Rightarrow> 't \<times> goerr option" where
  "tx_Rollback c h t = (case h of TxExecutor \<Rightarrow> tc_rollback c t | SavepointExecutor \<Rightarrow> tc_rollback_to c t)"

section \<open>Migrations\<close>

record 's schema =
  sm_lock :: "'s \<Rightarrow> 's \<times> int option res"
  sm_unlock :: "'s \<Rightarrow> 's"
  sm_busy_timeout :: "'s \<Rightarrow> 's \<times> goerr option"
  sm_create_journal :: "'s \<Rightarrow> 's \<times> goerr option"
  sm_applied :: "string \<Rightarrow> 's \<Rightarrow> int res"
  sm_begin :: "'s \<Rightarrow> 's \<times> goerr option"
  sm_exec :: "string \<Rightarrow> 's \<Rightarrow> 's \<times> goerr option"
  sm_record :: "string \<Rightarrow> 's \<Rightarrow> 's \<times> goerr option"
  sm_commit :: "'s \<Rightarrow> 's \<times> goerr option"
  sm_rollback :: "'s \<Rightarrow> 's"

fun split_on :: "char \<Rightarrow> string \<Rightarrow> string list" where
  "split_on sep [] = [[]]"
| "split_on sep (ch # cs) =
     (if ch = sep then [] # split_on sep cs
      else (case split_on sep cs of [] \<Rightarrow> [[ch]] | p # ps \<Rightarrow> (ch # p) # ps))"

text \<open>The migrations are ASCII text.\<close>

definition ascii_space :: "char \<Rightarrow> bool" where
  "ascii_space ch \<longleftrightarrow> of_char ch \<in> {9::nat, 10, 11, 12, 13, 32}"

definition TrimSpace :: "string \<Rightarrow> string" where
  "TrimSpace s = rev (dropWhile ascii_space (rev (dropWhile ascii_space s)))"

definition splitStatements :: "string \<Rightarrow> string list" where
  "splitStatements text = filter (\<lambda>s. s \<noteq> []) (map TrimSpace (split_on (CHR '';'') text))"

definition HasSuffix :: "string \<Rightarrow> string \<Rightarrow> bool" where
  "HasSuffix s suffix \<longleftrightarrow> HasPrefix (rev s) (rev suffix)"

definition sql_file :: "string \<times> string \<Rightarrow> bool" where
  "sql_file f \<longleftrightarrow> HasSuffix (fst f) ''.sql''"

fun run_statements :: "'s schema \<Rightarrow> string list \<Rightarrow> 's \<Rightarrow> 's \<times> goerr option" where
  "run_statements m [] s = (s, None)"
| "run_statements m (stmt # stmts) s =
     (case sm_exec m stmt s of (s1, Some e) \<Rightarrow> (s1, Some e) | (s1, None) \<Rightarrow> run_statements m stmts s1)"

text \<open>A migration in the transaction that is open (SQLite), and in one of its own.\<close>

definition apply_open :: "'s schema \<Rightarrow> string \<Rightarrow> string list \<Rightarrow> 's \<Rightarrow> 's \<times> goerr option" where
  "apply_open m version stmts s =
     (case run_statements m stmts s of (s1, Some e) \<Rightarrow> (s1, Some e) | (s1, None) \<Rightarrow> sm_record m version s1)"

definition apply_tx :: "'s schema \<Rightarrow> string \<Rightarrow> string list \<Rightarrow> 's \<Rightarrow> 's \<times> goerr option" where
  "apply_tx m version stmts s =
     (case sm_begin m s of
        (s1, Some e) \<Rightarrow> (s1, Some (wrap_prefix (''begin migration '' @ version) e))
      | (s1, None) \<Rightarrow>
          (case run_statements m stmts s1 of
             (s2, Some e) \<Rightarrow> (sm_rollback m s2, Some (wrap_prefix (''apply migration '' @ version) e))
           | (s2, None) \<Rightarrow>
               (case sm_record m version s2 of
                  (s3, Some e) \<Rightarrow> (sm_rollback m s3, Some (wrap_prefix (''record migration '' @ version) e))
                | (s3, None) \<Rightarrow>
                    (case sm_commit m s3 of
                       (s4, Some e) \<Rightarrow> (s4, Some (wrap_prefix (''commit migration '' @ version) e))
                     | (s4, None) \<Rightarrow> (s4, None)))))"

text \<open>The files of the directory in order, and what happens with one of them.\<close>

fun migrate_files :: "'s schema \<Rightarrow> (string \<Rightarrow> string \<Rightarrow> 's \<Rightarrow> 's \<times> goerr option) \<Rightarrow> (string \<times> string) list \<Rightarrow> 's \<Rightarrow> 's \<times> goerr option" where
  "migrate_files m apply_it [] s = (s, None)"
| "migrate_files m apply_it (f # fs) s =
     (if \<not> sql_file f then migrate_files m apply_it fs s
      else (case sm_applied m (fst f) s of
          Inl e \<Rightarrow> (s, Some (wrap_prefix (''check migration '' @ fst f) e))
        | Inr applied \<Rightarrow>
            if applied > 0 then migrate_files m apply_it fs s
            else (case apply_it (fst f) (snd f) s of
                (s1, Some e) \<Rightarrow> (s1, Some e)
              | (s1, None) \<Rightarrow> migrate_files m apply_it fs s1)))"

definition migrateWith :: "Dialect \<Rightarrow> 's schema \<Rightarrow> (string \<times> string) list \<Rightarrow> (string \<Rightarrow> string list \<Rightarrow> 's \<Rightarrow> 's \<times> goerr option) \<Rightarrow> 's \<Rightarrow> 's \<times> goerr option" where
  "migrateWith d m files apply_it s =
     (case sm_create_journal m s of
        (s1, Some e) \<Rightarrow> (s1, Some (wrap_prefix (''create migration journal for '' @ Dialect_String d) e))
      | (s1, None) \<Rightarrow> migrate_files m (\<lambda>version text. apply_it version (splitStatements text)) files s1)"

definition acquireMigrationLock :: "Dialect \<Rightarrow> 's schema \<Rightarrow> 's \<Rightarrow> 's \<times> goerr option" where
  "acquireMigrationLock d m s =
     (case d of
        SQLite \<Rightarrow> (s, None)
      | Postgres \<Rightarrow> (case sm_lock m s of (s1, Inl e) \<Rightarrow> (s1, Some (wrap_prefix ''acquire postgres migration lock'' e)) | (s1, Inr _) \<Rightarrow> (s1, None))
      | MySQL \<Rightarrow>
          (case sm_lock m s of
             (s1, Inl e) \<Rightarrow> (s1, Some (wrap_prefix ''acquire mysql migration lock'' e))
           | (s1, Inr got) \<Rightarrow> (s1, if got \<noteq> Some 1 then Some (Errorf ''acquire mysql migration lock: timed out'') else None)))"

definition std_Migrate :: "Dialect \<Rightarrow> 's schema \<Rightarrow> (string \<times> string) list \<Rightarrow> 's \<Rightarrow> 's \<times> goerr option" where
  "std_Migrate d m files s =
     (if d = SQLite then
        (case sm_busy_timeout m s of
           (s1, Some e) \<Rightarrow> (s1, Some (wrap_prefix ''configure sqlite migration lock'' e))
         | (s1, None) \<Rightarrow>
             (case sm_begin m s1 of
                (s2, Some e) \<Rightarrow> (s2, Some (wrap_prefix ''acquire sqlite migration lock'' e))
              | (s2, None) \<Rightarrow>
                  (case migrateWith d m files (apply_open m) s2 of
                     (s3, Some e) \<Rightarrow> (sm_rollback m s3, Some e)
                   | (s3, None) \<Rightarrow>
                       (case sm_commit m s3 of
                          (s4, Some e) \<Rightarrow> (s4, Some (wrap_prefix ''commit sqlite migrations'' e))
                        | (s4, None) \<Rightarrow> (s4, None)))))
      else
        (case acquireMigrationLock d m s of
           (s1, Some e) \<Rightarrow> (s1, Some e)
         | (s1, None) \<Rightarrow> (case migrateWith d m files (apply_tx m) s1 of (s2, err) \<Rightarrow> (sm_unlock m s2, err))))"

text \<open>The pgx driver sends a file as one statement.\<close>

definition pgx_Migrate :: "'s schema \<Rightarrow> (string \<times> string) list \<Rightarrow> 's \<Rightarrow> 's \<times> goerr option" where
  "pgx_Migrate m files s =
     (case sm_lock m s of
        (s1, Inl e) \<Rightarrow> (s1, Some (wrap_prefix ''acquire migration lock'' e))
      | (s1, Inr _) \<Rightarrow>
          (case sm_create_journal m s1 of
             (s2, Some e) \<Rightarrow> (sm_unlock m s2, Some (wrap_prefix ''create migration journal'' e))
           | (s2, None) \<Rightarrow>
               (case migrate_files m (\<lambda>version text. apply_tx m version [text]) files s2 of (s3, err) \<Rightarrow> (sm_unlock m s3, err))))"

section \<open>Savepoints\<close>

text \<open>
  A transaction as SQL databases document it: savepoints are copies of the state, most recent first; rolling back to one
  keeps it, releasing one forgets it. A commit makes the state the database's.
\<close>

record 's local_tx =
  lt_database :: 's
  lt_state :: 's
  lt_saves :: "'s list"

definition no_savepoint :: goerr where "no_savepoint = Errorf ''savepoint does not exist''"

definition local_conn :: "'s local_tx txconn" where
  "local_conn = \<lparr>
     tc_savepoint = (\<lambda>t. (t\<lparr>lt_saves := lt_state t # lt_saves t\<rparr>, None)),
     tc_release = (\<lambda>t. case lt_saves t of [] \<Rightarrow> (t, Some no_savepoint) | _ # xs \<Rightarrow> (t\<lparr>lt_saves := xs\<rparr>, None)),
     tc_rollback_to = (\<lambda>t. case lt_saves t of [] \<Rightarrow> (t, Some no_savepoint) | x # _ \<Rightarrow> (t\<lparr>lt_state := x\<rparr>, None)),
     tc_commit = (\<lambda>t. (t\<lparr>lt_database := lt_state t, lt_saves := []\<rparr>, None)),
     tc_rollback = (\<lambda>t. (t\<lparr>lt_state := lt_database t, lt_saves := []\<rparr>, None))\<rparr>"

definition work :: "'a \<Rightarrow> 'a list local_tx \<Rightarrow> 'a list local_tx" where
  "work x t = t\<lparr>lt_state := x # lt_state t\<rparr>"

text \<open>
  Nested transactions of the \<^verbatim>\<open>database/sql\<close> driver roll back too little or too much. On Postgres all savepoints have
  one name and a rollback keeps its savepoint: after the rollback of an inner transaction, the rollback of
  the one around it goes back to the inner savepoint only, and its own work is committed. On MySQL and SQLite a nested
  transaction is the transaction itself: its rollback also discards the work before it, its commit
  ends the whole.
\<close>

theorem nested_rollback_misses_work:
  "let t0 = \<lparr>lt_database = [], lt_state = [1::nat], lt_saves = []\<rparr>;
       (t1, a) = tx_Begin Postgres local_conn TxExecutor t0;
       (t2, b) = tx_Begin Postgres local_conn SavepointExecutor (work 2 t1);
       (t3, e3) = tx_Rollback local_conn SavepointExecutor (work 3 t2);
       (t4, e4) = tx_Rollback local_conn SavepointExecutor t3;
       (t5, e5) = tx_Commit local_conn TxExecutor t4
   in a = Inr SavepointExecutor \<and> b = Inr SavepointExecutor \<and> (e3, e4, e5) = (None, None, None) \<and> lt_database t5 = [2, 1] \<and>
      list_all (\<lambda>d. let (u1, h) = tx_Begin d local_conn TxExecutor t0 in
        h = Inr TxExecutor \<and> lt_state (fst (tx_Rollback local_conn TxExecutor (work 2 u1))) = [] \<and>
        lt_database (fst (tx_Commit local_conn TxExecutor (work 2 u1))) = [2, 1]) [MySQL, SQLite]"
  by code_simp

text \<open>One nested transaction on Postgres whose own work leaves the savepoints alone is undone exactly.\<close>

lemma nested_rollback_once:
  assumes "tx_Begin Postgres local_conn h t = (t1, Inr h1)" "lt_saves (f t1) = lt_saves t1"
  shows "\<exists>t2. tx_Rollback local_conn h1 (f t1) = (t2, None) \<and> lt_state t2 = lt_state t"
  using assms by (auto simp: tx_Begin_def tx_Rollback_def local_conn_def)

section \<open>Migrations are applied once, in order\<close>

text \<open>The versions still to be applied, in order.\<close>

definition pending_versions :: "(string \<times> string) list \<Rightarrow> string set \<Rightarrow> string list" where
  "pending_versions fs versions = filter (\<lambda>v. v \<notin> versions) (map fst (filter sql_file fs))"

text \<open>
  What a database promises about the journal of a migration: \<open>recorded\<close> are the versions in the journal as the connection sees it,
  \<open>kept\<close> those that a rollback leaves. Statements of a migration do not touch the journal; a commit that
  fails may have acted.
\<close>

locale migration_journal =
  fixes m :: "'s schema" and recorded :: "'s \<Rightarrow> string set" and kept :: "'s \<Rightarrow> string set"
  assumes lock: "sm_lock m s = (s', l) \<Longrightarrow> recorded s' = recorded s" and unlock: "recorded (sm_unlock m s) = recorded s"
    and busy: "sm_busy_timeout m s = (s', err) \<Longrightarrow> recorded s' = recorded s"
    and create: "sm_create_journal m s = (s', err) \<Longrightarrow> recorded s' = recorded s \<and> kept s' = kept s"
    and applied: "sm_applied m v s = Inr n \<Longrightarrow> n > 0 \<longleftrightarrow> v \<in> recorded s"
    and start: "sm_begin m s = (s', err) \<Longrightarrow> recorded s' = recorded s \<and> (err = None \<longrightarrow> kept s' = recorded s)"
    and exec: "sm_exec m stmt s = (s', err) \<Longrightarrow> recorded s' = recorded s \<and> kept s' = kept s"
    and record_version: "sm_record m v s = (s', None) \<Longrightarrow> recorded s' = insert v (recorded s) \<and> kept s' = kept s"
    and record_fails: "sm_record m v s = (s', Some e) \<Longrightarrow> recorded s' \<in> {recorded s, insert v (recorded s)} \<and> kept s' = kept s"
    and commit: "sm_commit m s = (s', None) \<Longrightarrow> recorded s' = recorded s"
    and commit_fails: "sm_commit m s = (s', Some e) \<Longrightarrow> recorded s' \<in> {recorded s, kept s}"
    and rollback: "recorded (sm_rollback m s) = kept s"
begin

lemma statements: "run_statements m stmts s = (s', err) \<Longrightarrow> recorded s' = recorded s \<and> kept s' = kept s"
proof (induction stmts arbitrary: s)
  case (Cons stmt stmts)
  obtain s1 e1 where "sm_exec m stmt s = (s1, e1)" by fastforce
  with Cons exec [of stmt s s1 e1] show ?case by (cases e1) auto
qed simp

lemma apply_tx_records:
  assumes "apply_tx m v stmts s = (s', err)"
  shows "(err = None \<longrightarrow> recorded s' = insert v (recorded s)) \<and> recorded s' \<in> {recorded s, insert v (recorded s)}"
proof -
  obtain s1 e1 where b: "sm_begin m s = (s1, e1)" by fastforce
  obtain s2 e2 where r: "run_statements m stmts s1 = (s2, e2)" by fastforce
  obtain s3 e3 where j: "sm_record m v s2 = (s3, e3)" by fastforce
  obtain s4 e4 where c: "sm_commit m s3 = (s4, e4)" by fastforce
  note b' = start [OF b] and r' = statements [OF r]
  consider "e1 \<noteq> None" | "e1 = None" "e2 \<noteq> None" | "e1 = None" "e2 = None" "e3 \<noteq> None" | "e1 = None" "e2 = None" "e3 = None" by blast
  then show ?thesis
  proof cases
    case 4
    then have out: "s' = s4 \<and> (err = None \<longleftrightarrow> e4 = None)" using assms b r j c by (cases e4) (auto simp: apply_tx_def)
    have s3: "recorded s3 = insert v (recorded s) \<and> kept s3 = recorded s" using 4 record_version [of v s2 s3] j b' r' by simp
    show ?thesis
    proof (cases e4)
      case None
      with out s3 commit [of s3 s4] c show ?thesis by simp
    next
      case (Some e)
      with out s3 commit_fails [of s3 s4 e] c show ?thesis by auto
    qed
  next
    case 3
    then show ?thesis using assms b r j record_fails [of v s2 s3] rollback b' r' by (auto simp: apply_tx_def)
  qed (use assms b r rollback b' r' in \<open>auto simp: apply_tx_def\<close>)
qed

lemma migrate_files_records:
  assumes step: "\<And>v text s s' err. apply_it v text s = (s', err) \<Longrightarrow>
      (err = None \<longrightarrow> recorded s' = insert v (recorded s)) \<and> recorded s' \<in> {recorded s, insert v (recorded s)}"
    and "distinct (map fst fs)" "migrate_files m apply_it fs s = (s', err)"
  shows "\<exists>k\<le>length (pending_versions fs (recorded s)). recorded s' = recorded s \<union> set (take k (pending_versions fs (recorded s))) \<and> (err = None \<longrightarrow> k = length (pending_versions fs (recorded s)))"
  using assms(2,3)
proof (induction fs arbitrary: s)
  case (Cons f fs)
  show ?case
  proof (cases "sql_file f \<and> fst f \<notin> recorded s")
    case False
    then have p: "pending_versions (f # fs) (recorded s) = pending_versions fs (recorded s)" by (auto simp: pending_versions_def)
    show ?thesis
    proof (cases "\<exists>e. sql_file f \<and> sm_applied m (fst f) s = Inl e")
      case True
      then have "s' = s" "err \<noteq> None" using Cons.prems by auto
      then show ?thesis by (intro exI [of _ 0]) auto
    next
      case ok: False
      have "migrate_files m apply_it fs s = (s', err)"
        using Cons.prems False ok applied [of "fst f" s] by (cases "sm_applied m (fst f) s") (auto split: if_splits)
      with Cons p show ?thesis by simp
    qed
  next
    case True
    then have p: "pending_versions (f # fs) (recorded s) = fst f # pending_versions fs (recorded s)" by (simp add: pending_versions_def)
    show ?thesis
    proof (cases "sm_applied m (fst f) s")
      case (Inl e)
      then have "s' = s" "err \<noteq> None" using Cons.prems True by auto
      then show ?thesis by (intro exI [of _ 0]) auto
    next
      case (Inr n)
      then have n: "\<not> n > 0" using applied [of "fst f" s n] True by simp
      obtain s1 e1 where a: "apply_it (fst f) (snd f) s = (s1, e1)" by fastforce
      note st = step [OF a]
      show ?thesis
      proof (cases e1)
        case (Some e)
        then have "s' = s1" "err \<noteq> None" using Cons.prems True Inr n a by auto
        moreover have "recorded s1 = recorded s \<union> set (take 0 (pending_versions (f # fs) (recorded s))) \<or> recorded s1 = recorded s \<union> set (take 1 (pending_versions (f # fs) (recorded s)))"
          using st p by auto
        ultimately show ?thesis using p by (metis le_add1 length_Cons plus_1_eq_Suc zero_le)
      next
        case None
        then have "migrate_files m apply_it fs s1 = (s', err)" using Cons.prems True Inr n a by simp
        with Cons.IH Cons.prems(1) obtain k where k: "k \<le> length (pending_versions fs (recorded s1))" "recorded s' = recorded s1 \<union> set (take k (pending_versions fs (recorded s1)))"
          "err = None \<longrightarrow> k = length (pending_versions fs (recorded s1))" by auto
        have "recorded s1 = insert (fst f) (recorded s)" using st None by simp
        moreover from this have "pending_versions fs (recorded s1) = pending_versions fs (recorded s)"
          using Cons.prems(1) by (auto simp: pending_versions_def intro!: filter_cong)
        ultimately show ?thesis using k p by (intro exI [of _ "Suc k"]) auto
      qed
    qed
  qed
qed (simp add: pending_versions_def)

lemma apply_open_records:
  assumes "apply_open m v stmts s = (s', err)"
  shows "((err = None \<longrightarrow> recorded s' = insert v (recorded s)) \<and> recorded s' \<in> {recorded s, insert v (recorded s)}) \<and> kept s' = kept s"
proof -
  obtain s1 e1 where r: "run_statements m stmts s = (s1, e1)" by fastforce
  show ?thesis
  proof (cases e1)
    case None
    then have "sm_record m v s1 = (s', err)" using assms r by (simp add: apply_open_def)
    with record_version [of v s1 s'] record_fails [of v s1 s'] statements [OF r] show ?thesis by (cases err) auto
  next
    case (Some e)
    then show ?thesis using assms r statements [OF r] by (auto simp: apply_open_def)
  qed
qed

lemma migrate_files_keeps:
  assumes "\<And>v text s s' err. apply_it v text s = (s', err) \<Longrightarrow> kept s' = kept s" "migrate_files m apply_it fs s = (s', err)"
  shows "kept s' = kept s"
  using assms(2)
proof (induction fs arbitrary: s)
  case (Cons f fs)
  obtain s1 e1 where a: "apply_it (fst f) (snd f) s = (s1, e1)" by fastforce
  consider "s' = s" | "migrate_files m apply_it fs s = (s', err)" | "s' = s1" | "migrate_files m apply_it fs s1 = (s', err)"
    using Cons.prems a by (cases "sm_applied m (fst f) s"; cases e1) (auto split: if_splits)
  then show ?case using Cons.IH assms(1) [OF a] by cases auto
qed simp

lemma tx_files:
  assumes "distinct (map fst fs)" "migrate_files m (\<lambda>v text. apply_tx m v (stmts text)) fs s = (s', err)"
  shows "\<exists>k\<le>length (pending_versions fs (recorded s)). recorded s' = recorded s \<union> set (take k (pending_versions fs (recorded s))) \<and>
    (err = None \<longrightarrow> k = length (pending_versions fs (recorded s)))"
  by (rule migrate_files_records [OF apply_tx_records assms])

lemma migrateWith_tx:
  assumes "distinct (map fst fs)" "migrateWith d m fs (apply_tx m) s = (s', err)"
  shows "\<exists>k\<le>length (pending_versions fs (recorded s)). recorded s' = recorded s \<union> set (take k (pending_versions fs (recorded s))) \<and>
    (err = None \<longrightarrow> k = length (pending_versions fs (recorded s)))"
proof -
  obtain s1 e1 where c: "sm_create_journal m s = (s1, e1)" by fastforce
  show ?thesis
  proof (cases e1)
    case None
    then show ?thesis using assms c create [OF c] tx_files [OF assms(1), of splitStatements s1 s' err] by (simp add: migrateWith_def)
  next
    case (Some e)
    then have "recorded s' = recorded s" "err \<noteq> None" using assms(2) c create [OF c] by (auto simp: migrateWith_def)
    then show ?thesis by (intro exI [of _ 0]) auto
  qed
qed

lemma migrateWith_open:
  assumes "distinct (map fst fs)" "migrateWith d m fs (apply_open m) s = (s', err)"
  shows "kept s' = kept s \<and> (err = None \<longrightarrow> recorded s' = recorded s \<union> set (pending_versions fs (recorded s)))"
proof -
  obtain s1 e1 where c: "sm_create_journal m s = (s1, e1)" by fastforce
  show ?thesis
  proof (cases e1)
    case None
    then have f: "migrate_files m (\<lambda>v text. apply_open m v (splitStatements text)) fs s1 = (s', err)" using assms(2) c by (simp add: migrateWith_def)
    have "kept s' = kept s1" using migrate_files_keeps [OF _ f] apply_open_records by blast
    moreover have "err = None \<longrightarrow> recorded s' = recorded s1 \<union> set (pending_versions fs (recorded s1))"
      using migrate_files_records [OF conjunct1 [OF apply_open_records] assms(1) f] by auto
    ultimately show ?thesis using create [OF c] by simp
  next
    case (Some e)
    then show ?thesis using assms(2) c create [OF c] by (auto simp: migrateWith_def)
  qed
qed

lemma locked: "acquireMigrationLock d m s = (s', err) \<Longrightarrow> recorded s' = recorded s"
  using lock by (cases d) (auto simp: acquireMigrationLock_def split: prod.splits sum.splits)

lemma std_Migrate_tx:
  assumes "distinct (map fst fs)" "d \<noteq> SQLite" "std_Migrate d m fs s = (s', err)"
  shows "\<exists>k\<le>length (pending_versions fs (recorded s)). recorded s' = recorded s \<union> set (take k (pending_versions fs (recorded s))) \<and>
    (err = None \<longrightarrow> k = length (pending_versions fs (recorded s)))"
proof -
  obtain s1 e1 where l: "acquireMigrationLock d m s = (s1, e1)" by fastforce
  obtain s2 e2 where w: "migrateWith d m fs (apply_tx m) s1 = (s2, e2)" by fastforce
  show ?thesis
  proof (cases e1)
    case None
    then have "s' = sm_unlock m s2" "err = e2" using assms(2,3) l w by (simp_all add: std_Migrate_def)
    with migrateWith_tx [OF assms(1) w] locked [OF l] unlock show ?thesis by simp
  next
    case (Some e)
    then have "recorded s' = recorded s" "err \<noteq> None" using assms(2,3) l locked [OF l] by (auto simp: std_Migrate_def)
    then show ?thesis by (intro exI [of _ 0]) auto
  qed
qed

lemma pgx_Migrate_tx:
  assumes "distinct (map fst fs)" "pgx_Migrate m fs s = (s', err)"
  shows "\<exists>k\<le>length (pending_versions fs (recorded s)). recorded s' = recorded s \<union> set (take k (pending_versions fs (recorded s))) \<and>
    (err = None \<longrightarrow> k = length (pending_versions fs (recorded s)))"
proof -
  obtain s1 r where l: "sm_lock m s = (s1, r)" by fastforce
  obtain s2 e2 where c: "sm_create_journal m s1 = (s2, e2)" by fastforce
  obtain s3 e3 where f: "migrate_files m (\<lambda>version text. apply_tx m version [text]) fs s2 = (s3, e3)" by fastforce
  show ?thesis
  proof (cases "isl r \<or> e2 \<noteq> None")
    case True
    then have "recorded s' = recorded s" "err \<noteq> None"
      using assms(2) l c lock [OF l] create [OF c] unlock by (cases r; cases e2; auto simp: pgx_Migrate_def)+
    then show ?thesis by (intro exI [of _ 0]) auto
  next
    case False
    then have "s' = sm_unlock m s3" "err = e3" using assms(2) l c f by (cases r; simp add: pgx_Migrate_def)+
    with tx_files [OF assms(1), of "\<lambda>text. [text]" s2 s3 e3] f lock [OF l] create [OF c] unlock show ?thesis by simp
  qed
qed

lemma std_Migrate_sqlite:
  assumes "distinct (map fst fs)" "std_Migrate SQLite m fs s = (s', err)"
  shows "recorded s' = recorded s \<and> (err = None \<longrightarrow> pending_versions fs (recorded s) = []) \<or> recorded s' = recorded s \<union> set (pending_versions fs (recorded s))"
proof -
  obtain s1 e1 where b: "sm_busy_timeout m s = (s1, e1)" by fastforce
  obtain s2 e2 where t: "sm_begin m s1 = (s2, e2)" by fastforce
  obtain s3 e3 where w: "migrateWith SQLite m fs (apply_open m) s2 = (s3, e3)" by fastforce
  obtain s4 e4 where c: "sm_commit m s3 = (s4, e4)" by fastforce
  note b' = busy [OF b] and t' = start [OF t] and w' = migrateWith_open [OF assms(1) w]
  consider "e1 \<noteq> None" | "e1 = None" "e2 \<noteq> None" | "e1 = None" "e2 = None" "e3 \<noteq> None" | "e1 = None" "e2 = None" "e3 = None" by blast
  then show ?thesis
  proof cases
    case 1
    then have "s' = s1" "err \<noteq> None" using assms(2) b by (auto simp: std_Migrate_def)
    with b' show ?thesis by blast
  next
    case 2
    then have "s' = s2" "err \<noteq> None" using assms(2) b t by (auto simp: std_Migrate_def)
    with b' t' show ?thesis by blast
  next
    case 3
    then have "s' = sm_rollback m s3" "err \<noteq> None" using assms(2) b t w by (auto simp: std_Migrate_def)
    with 3 rollback [of s3] w' t' b' show ?thesis by (metis (no_types))
  next
    case 4
    then have out: "s' = s4 \<and> (err = None \<longleftrightarrow> e4 = None)" using assms(2) b t w c by (cases e4) (auto simp: std_Migrate_def)
    have r: "recorded s3 = recorded s \<union> set (pending_versions fs (recorded s))" "kept s3 = recorded s" using 4 w' t' b' by simp_all
    show ?thesis
    proof (cases e4)
      case None
      with out r commit [of s3 s4] c show ?thesis by simp
    next
      case (Some e)
      with out r commit_fails [of s3 s4 e] c show ?thesis by auto
    qed
  qed
qed

end

text \<open>
  Claim C28: migrations are applied in order, each once. A run of \<^verbatim>\<open>Migrate\<close> of the pgx driver, or of the \<^verbatim>\<open>database/sql\<close> driver on Postgres or MySQL,
  adds to the journal the first of the versions that it lacks, in the order of the files, all of them if it
  succeeds; a run after a failure goes on with the next, and one after a success applies none. On SQLite, where all
  are in one transaction, a run adds all that are missing or none.
\<close>

theorem migrations_apply_in_order:
  assumes "migration_journal m recorded kept" "distinct (map fst fs)"
    and "run \<in> {pgx_Migrate m fs, std_Migrate Postgres m fs, std_Migrate MySQL m fs}" "run s = (s', err)" "std_Migrate SQLite m fs s = (s'', err')"
  shows "(\<exists>k\<le>length (pending_versions fs (recorded s)). recorded s' = recorded s \<union> set (take k (pending_versions fs (recorded s))) \<and>
      (err = None \<longrightarrow> k = length (pending_versions fs (recorded s)) \<and> pending_versions fs (recorded s') = [])) \<and>
    (recorded s'' = recorded s \<and> (err' = None \<longrightarrow> pending_versions fs (recorded s) = []) \<or> recorded s'' = recorded s \<union> set (pending_versions fs (recorded s)))"
proof -
  have "\<exists>k\<le>length (pending_versions fs (recorded s)). recorded s' = recorded s \<union> set (take k (pending_versions fs (recorded s))) \<and>
      (err = None \<longrightarrow> k = length (pending_versions fs (recorded s)))"
  proof -
    consider "run = pgx_Migrate m fs" | d where "d \<noteq> SQLite" "run = std_Migrate d m fs" using assms(3) by auto
    then show ?thesis
    proof cases
      case 1
      with assms(4) show ?thesis by (simp add: migration_journal.pgx_Migrate_tx [OF assms(1,2)])
    next
      case (2 d)
      with assms(4) show ?thesis by (simp add: migration_journal.std_Migrate_tx [OF assms(1,2), of d])
    qed
  qed
  moreover have "pending_versions fs (recorded s \<union> set (pending_versions fs (recorded s))) = []" by (auto simp: pending_versions_def filter_empty_conv)
  ultimately show ?thesis using migration_journal.std_Migrate_sqlite [OF assms(1,2,5)] by auto
qed

section \<open>An instance\<close>

text \<open>A schema in memory: the journal, its copy at the start of the transaction, and the statements executed; one text is no statement.\<close>

record local_schema =
  ls_journal :: "string list"
  ls_saved :: "string list"
  ls_log :: "string list"

definition local_migrations :: "local_schema schema" where
  "local_migrations = \<lparr>
     sm_lock = (\<lambda>s. (s, Inr (Some 1))), sm_unlock = (\<lambda>s. s), sm_busy_timeout = (\<lambda>s. (s, None)), sm_create_journal = (\<lambda>s. (s, None)),
     sm_applied = (\<lambda>v s. Inr (if v \<in> set (ls_journal s) then 1 else 0)),
     sm_begin = (\<lambda>s. (s\<lparr>ls_saved := ls_journal s\<rparr>, None)),
     sm_exec = (\<lambda>stmt s. if stmt = ''BROKEN'' then (s, Some (Errorf ''syntax error'')) else (s\<lparr>ls_log := ls_log s @ [stmt]\<rparr>, None)),
     sm_record = (\<lambda>v s. (s\<lparr>ls_journal := v # ls_journal s\<rparr>, None)),
     sm_commit = (\<lambda>s. (s, None)),
     sm_rollback = (\<lambda>s. s\<lparr>ls_journal := ls_saved s\<rparr>)\<rparr>"

interpretation local_sm: migration_journal local_migrations "\<lambda>s. set (ls_journal s)" "\<lambda>s. set (ls_saved s)"
  by unfold_locales (auto simp: local_migrations_def split: if_splits)

definition schema_files :: "(string \<times> string) list" where
  "schema_files = [(''001.sql'', ''CREATE A; CREATE B;''), (''README'', ''x''), (''002.sql'', ''BROKEN''), (''003.sql'', ''CREATE C'')]"

definition empty_schema :: local_schema where "empty_schema = \<lparr>ls_journal = [], ls_saved = [], ls_log = []\<rparr>"

theorem migrations_apply_in_order_witness:
  "\<exists>s' err. std_Migrate MySQL local_migrations schema_files empty_schema = (s', err) \<and> err \<noteq> None \<and> ls_journal s' = [''001.sql''] \<and>
     ls_log s' = [''CREATE A'', ''CREATE B''] \<and> (\<exists>k\<le>3. set (ls_journal s') = set (take k [''001.sql'', ''002.sql'', ''003.sql''])) \<and>
     ls_journal (fst (std_Migrate SQLite local_migrations schema_files empty_schema)) = []"
proof -
  obtain s' err where r: "std_Migrate MySQL local_migrations schema_files empty_schema = (s', err)" by fastforce
  obtain s'' err' where q: "std_Migrate SQLite local_migrations schema_files empty_schema = (s'', err')" by fastforce
  have v: "case std_Migrate MySQL local_migrations schema_files empty_schema of (s', err) \<Rightarrow>
     err \<noteq> None \<and> ls_journal s' = [''001.sql''] \<and> ls_log s' = [''CREATE A'', ''CREATE B'']" by code_simp
  have w: "ls_journal (fst (std_Migrate SQLite local_migrations schema_files empty_schema)) = []" by code_simp
  have d: "distinct (map fst schema_files)" by code_simp
  have p: "pending_versions schema_files (set (ls_journal empty_schema)) = [''001.sql'', ''002.sql'', ''003.sql'']" by code_simp
  have e: "set (ls_journal empty_schema) = {}" by code_simp
  have i: "std_Migrate MySQL local_migrations schema_files \<in> {pgx_Migrate local_migrations schema_files,
      std_Migrate Postgres local_migrations schema_files, std_Migrate MySQL local_migrations schema_files}" by blast
  have "\<exists>k\<le>3. set (ls_journal s') = set (take k [''001.sql'', ''002.sql'', ''003.sql''])"
    using conjunct1 [OF migrations_apply_in_order [OF local_sm.migration_journal_axioms d i r q]] unfolding p unfolding e
    by (elim exE conjE) (simp only: list.size Un_empty_left numeral_3_eq_3 add_0_right add_Suc_right, blast)
  with r v w show ?thesis by simp
qed

end
