(* ===== verification/Pgx_Listener.thy ===== *)
theory Pgx_Listener
  imports Memory_Driver
begin

text \<open>
  The listener of \<^verbatim>\<open>driver/pgxv5/listener.go\<close>: subscriptions with a connection and a goroutine each. A subscription is
  its position in \<open>pl_started\<close>; \<open>pl_subs\<close> is the map that the mutex guards. The steps are those that hold the
  mutex, the sending of a notification and the end of a receive loop, which may come at any time: its
  context ends when it is cancelled, when the caller's context ends, or its connection breaks. Names of queues are valid UTF-8.
\<close>

record pg_subscription =
  su_queue :: string
  su_cancelled :: bool
  su_running :: bool
  su_pending :: nat
  su_closed :: bool

record pg_listener =
  pl_subs :: "(string, nat) gmap"
  pl_started :: "pg_subscription list"

definition pg_channel :: "string \<Rightarrow> string" where
  "pg_channel queue = ''goncordia:'' @ queue"

fun escape_quotes :: "string \<Rightarrow> string" where
  "escape_quotes [] = []"
| "escape_quotes (ch # cs) = (if ch = CHR 0x22 then [CHR 0x22, CHR 0x22] else [ch]) @ escape_quotes cs"

definition pgQuoteIdentifier :: "string \<Rightarrow> string" where
  "pgQuoteIdentifier s = [CHR 0x22] @ escape_quotes s @ [CHR 0x22]"

definition cancel_sub :: "nat \<Rightarrow> pg_listener \<Rightarrow> pg_listener" where
  "cancel_sub i l = (if i < length (pl_started l) then l\<lparr>pl_started := (pl_started l)[i := (pl_started l ! i)\<lparr>su_cancelled := True\<rparr>]\<rparr> else l)"

definition cancel_at :: "string \<Rightarrow> pg_listener \<Rightarrow> pg_listener" where
  "cancel_at queue l = (case gget (pl_subs l) queue of None \<Rightarrow> l | Some i \<Rightarrow> cancel_sub i l)"

text \<open>\<open>acquired\<close> and \<open>listening\<close> are the answers of the pool and of \<^verbatim>\<open>LISTEN\<close>.\<close>

definition pg_Listen :: "goerr option \<Rightarrow> goerr option \<Rightarrow> string \<Rightarrow> pg_listener \<Rightarrow> pg_listener \<times> nat res" where
  "pg_Listen acquired listening queue l =
     (case acquired of
        Some e \<Rightarrow> (l, Inl (wrap_prefix ''acquire connection for LISTEN'' e))
      | None \<Rightarrow>
          (case listening of
             Some e \<Rightarrow> (l, Inl (wrap_prefix (''LISTEN '' @ pg_channel queue) e))
           | None \<Rightarrow>
               let n = length (pl_started l);
                   l1 = cancel_at queue l
               in (l1\<lparr>pl_subs := gput queue n (pl_subs l1),
                      pl_started := pl_started l1 @ [\<lparr>su_queue = queue, su_cancelled = False, su_running = True, su_pending = 0, su_closed = False\<rparr>]\<rparr>, Inr n)))"

definition pg_notify :: "nat \<Rightarrow> pg_listener \<Rightarrow> pg_listener" where
  "pg_notify i l =
     (let s = pl_started l ! i
      in if i < length (pl_started l) \<and> su_running s \<and> su_pending s < 32
         then l\<lparr>pl_started := (pl_started l)[i := s\<lparr>su_pending := Suc (su_pending s)\<rparr>]\<rparr> else l)"

text \<open>The deferred calls of a receive loop.\<close>

definition pg_loop_ends :: "nat \<Rightarrow> pg_listener \<Rightarrow> pg_listener" where
  "pg_loop_ends i l =
     (let s = pl_started l ! i
      in if i < length (pl_started l) \<and> su_running s
         then l\<lparr>pl_subs := (if gget (pl_subs l) (su_queue s) = Some i then gdel (su_queue s) (pl_subs l) else pl_subs l),
                pl_started := (pl_started l)[i := s\<lparr>su_running := False, su_closed := True\<rparr>]\<rparr>
         else l)"

definition pg_Unlisten :: "string \<Rightarrow> pg_listener \<Rightarrow> pg_listener" where
  "pg_Unlisten queue l = (cancel_at queue l)\<lparr>pl_subs := gdel queue (pl_subs l)\<rparr>"

definition pg_Close :: "pg_listener \<Rightarrow> pg_listener" where
  "pg_Close l = (fold cancel_sub (gvals (pl_subs l)) l)\<lparr>pl_subs := []\<rparr>"

section \<open>No subscription is lost\<close>

inductive pg_step :: "pg_listener \<Rightarrow> pg_listener \<Rightarrow> bool" where
  listen: "pg_step l (fst (pg_Listen acquired listening queue l))"
| notify: "pg_step l (pg_notify i l)"
| loop_ends: "pg_step l (pg_loop_ends i l)"
| unlisten: "pg_step l (pg_Unlisten queue l)"
| close: "pg_step l (pg_Close l)"

inductive_cases pg_step_cases: "pg_step l l'"

definition pg_new :: pg_listener where "pg_new = \<lparr>pl_subs = [], pl_started = []\<rparr>"

text \<open>A loop that nobody has told to end is the one registered for its queue.\<close>

definition pg_inv :: "pg_listener \<Rightarrow> bool" where
  "pg_inv l \<longleftrightarrow>
     (\<forall>q i. gget (pl_subs l) q = Some i \<longrightarrow> i < length (pl_started l) \<and> su_queue (pl_started l ! i) = q) \<and>
     (\<forall>i<length (pl_started l). let s = pl_started l ! i in
        (su_running s \<and> \<not> su_cancelled s \<longrightarrow> gget (pl_subs l) (su_queue s) = Some i) \<and> su_closed s = (\<not> su_running s) \<and> su_pending s \<le> 32)"

lemma cancel_sub_simps [simp]:
  "pl_subs (cancel_sub i l) = pl_subs l" "length (pl_started (cancel_sub i l)) = length (pl_started l)"
  "k < length (pl_started l) \<Longrightarrow> pl_started (cancel_sub i l) ! k = (if k = i then (pl_started l ! k)\<lparr>su_cancelled := True\<rparr> else pl_started l ! k)"
  by (auto simp: cancel_sub_def nth_list_update)

lemma pg_inv_sub: "pg_inv l \<Longrightarrow> gget (pl_subs l) q = Some i \<Longrightarrow> i < length (pl_started l) \<and> su_queue (pl_started l ! i) = q"
  unfolding pg_inv_def by blast

lemma pg_inv_loop: "pg_inv l \<Longrightarrow> i < length (pl_started l) \<Longrightarrow> su_running (pl_started l ! i) \<Longrightarrow> \<not> su_cancelled (pl_started l ! i) \<Longrightarrow>
    gget (pl_subs l) (su_queue (pl_started l ! i)) = Some i"
  unfolding pg_inv_def Let_def by blast

lemma pg_inv_channel: "pg_inv l \<Longrightarrow> i < length (pl_started l) \<Longrightarrow>
    su_closed (pl_started l ! i) = (\<not> su_running (pl_started l ! i)) \<and> su_pending (pl_started l ! i) \<le> 32"
  unfolding pg_inv_def Let_def by blast

lemma pg_invI:
  assumes "\<And>q i. gget (pl_subs l) q = Some i \<Longrightarrow> i < length (pl_started l) \<and> su_queue (pl_started l ! i) = q"
    and "\<And>i. i < length (pl_started l) \<Longrightarrow> su_running (pl_started l ! i) \<Longrightarrow> \<not> su_cancelled (pl_started l ! i) \<Longrightarrow>
      gget (pl_subs l) (su_queue (pl_started l ! i)) = Some i"
    and "\<And>i. i < length (pl_started l) \<Longrightarrow>
      su_closed (pl_started l ! i) = (\<not> su_running (pl_started l ! i)) \<and> su_pending (pl_started l ! i) \<le> 32"
  shows "pg_inv l"
  unfolding pg_inv_def Let_def using assms by blast

lemma pg_inv_cancel:
  assumes "pg_inv l"
  shows "pg_inv (cancel_sub i l)"
proof (rule pg_invI)
  fix q k assume "gget (pl_subs (cancel_sub i l)) q = Some k"
  with pg_inv_sub [OF assms, of q k] show "k < length (pl_started (cancel_sub i l)) \<and> su_queue (pl_started (cancel_sub i l) ! k) = q" by (cases "k = i") simp_all
next
  fix k assume k: "k < length (pl_started (cancel_sub i l))"
  show "gget (pl_subs (cancel_sub i l)) (su_queue (pl_started (cancel_sub i l) ! k)) = Some k"
    if "su_running (pl_started (cancel_sub i l) ! k)" "\<not> su_cancelled (pl_started (cancel_sub i l) ! k)"
    using that k pg_inv_loop [OF assms, of k] by (cases "k = i") simp_all
  show "su_closed (pl_started (cancel_sub i l) ! k) = (\<not> su_running (pl_started (cancel_sub i l) ! k)) \<and> su_pending (pl_started (cancel_sub i l) ! k) \<le> 32"
    using k pg_inv_channel [OF assms, of k] by (cases "k = i") simp_all
qed

lemma cancel_at_simps [simp]: "pl_subs (cancel_at q l) = pl_subs l" "length (pl_started (cancel_at q l)) = length (pl_started l)"
  by (auto simp: cancel_at_def split: option.splits)

lemma pg_inv_cancel_at: "pg_inv l \<Longrightarrow> pg_inv (cancel_at q l)"
  by (auto simp: cancel_at_def pg_inv_cancel split: option.splits)

lemma cancel_at_nth: "k < length (pl_started l) \<Longrightarrow>
    pl_started (cancel_at q l) ! k = (if gget (pl_subs l) q = Some k then (pl_started l ! k)\<lparr>su_cancelled := True\<rparr> else pl_started l ! k)"
  by (auto simp: cancel_at_def split: option.splits)

lemma cancel_at_cancels:
  assumes "pg_inv l" "i < length (pl_started l)" "su_queue (pl_started l ! i) = q" "su_running (pl_started l ! i)"
  shows "su_cancelled (pl_started (cancel_at q l) ! i)"
  using pg_inv_loop [OF assms(1,2,4)] assms(2,3) by (cases "su_cancelled (pl_started l ! i)") (simp_all add: cancel_at_nth)

lemma pg_inv_Listen:
  assumes "pg_inv l"
  shows "pg_inv (fst (pg_Listen acquired listening queue l))"
proof (cases "acquired = None \<and> listening = None")
  case True
  let ?n = "length (pl_started l)" and ?c = "cancel_at queue l"
  define l' where "l' = fst (pg_Listen acquired listening queue l)"
  have subs: "pl_subs l' = gput queue ?n (pl_subs l)" and len: "length (pl_started l') = Suc ?n"
    and new: "pl_started l' ! ?n = \<lparr>su_queue = queue, su_cancelled = False, su_running = True, su_pending = 0, su_closed = False\<rparr>"
    and old: "\<And>k. k < ?n \<Longrightarrow> pl_started l' ! k = pl_started ?c ! k"
    using True by (simp_all add: l'_def pg_Listen_def Let_def nth_append)
  have "pg_inv l'"
  proof (rule pg_invI)
    fix q k assume k: "gget (pl_subs l') q = Some k"
    show "k < length (pl_started l') \<and> su_queue (pl_started l' ! k) = q"
    proof (cases "q = queue")
      case False
      with k subs have "gget (pl_subs l) q = Some k" by (simp add: gmap_simps)
      from pg_inv_sub [OF assms this] show ?thesis by (simp add: len old cancel_at_nth)
    qed (use k subs new len in \<open>simp add: gmap_simps\<close>)
  next
    fix k assume k: "k < length (pl_started l')"
    show "gget (pl_subs l') (su_queue (pl_started l' ! k)) = Some k"
      if run: "su_running (pl_started l' ! k)" "\<not> su_cancelled (pl_started l' ! k)"
    proof (cases "k = ?n")
      case False
      then have kn: "k < ?n" using k len by simp
      then have run': "su_running (pl_started l ! k)" "\<not> su_cancelled (pl_started ?c ! k)" using run old [OF kn] by (auto simp: cancel_at_nth split: if_splits)
      then have q: "su_queue (pl_started l ! k) \<noteq> queue" using cancel_at_cancels [OF assms kn] by blast
      have "\<not> su_cancelled (pl_started l ! k)" using run'(2) kn by (auto simp: cancel_at_nth split: if_splits)
      from pg_inv_loop [OF assms kn run'(1) this] q show ?thesis by (simp add: old [OF kn] cancel_at_nth [OF kn] subs gmap_simps)
    qed (use new subs in \<open>simp add: gmap_simps\<close>)
    show "su_closed (pl_started l' ! k) = (\<not> su_running (pl_started l' ! k)) \<and> su_pending (pl_started l' ! k) \<le> 32"
    proof (cases "k = ?n")
      case False
      then have kn: "k < ?n" using k len by simp
      from pg_inv_channel [OF assms kn] show ?thesis by (simp add: old [OF kn] cancel_at_nth [OF kn])
    qed (simp add: new)
  qed
  then show ?thesis by (simp add: l'_def)
qed (use assms in \<open>auto simp: pg_Listen_def split: option.splits\<close>)

lemma pg_inv_notify:
  assumes "pg_inv l"
  shows "pg_inv (pg_notify i l)"
proof (cases "i < length (pl_started l) \<and> su_running (pl_started l ! i) \<and> su_pending (pl_started l ! i) < 32")
  case True
  then have l': "pg_notify i l = l\<lparr>pl_started := (pl_started l)[i := (pl_started l ! i)\<lparr>su_pending := Suc (su_pending (pl_started l ! i))\<rparr>]\<rparr>"
    by (simp add: pg_notify_def Let_def)
  show ?thesis unfolding l'
  proof (rule pg_invI, goal_cases)
    case (1 q k)
    with pg_inv_sub [OF assms, of q k] show ?case by (cases "k = i") simp_all
  next
    case (2 k)
    with pg_inv_loop [OF assms, of k] show ?case by (cases "k = i") simp_all
  next
    case (3 k)
    with pg_inv_channel [OF assms, of k] True show ?case by (cases "k = i") simp_all
  qed
next
  case False
  then have "pg_notify i l = l" by (auto simp: pg_notify_def Let_def)
  with assms show ?thesis by simp
qed

lemma pg_inv_loop_ends:
  assumes "pg_inv l"
  shows "pg_inv (pg_loop_ends i l)"
proof (cases "i < length (pl_started l) \<and> su_running (pl_started l ! i)")
  case True
  let ?q = "su_queue (pl_started l ! i)"
  define subs where "subs = (if gget (pl_subs l) ?q = Some i then gdel ?q (pl_subs l) else pl_subs l)"
  have l': "pg_loop_ends i l = l\<lparr>pl_subs := subs, pl_started := (pl_started l)[i := (pl_started l ! i)\<lparr>su_running := False, su_closed := True\<rparr>]\<rparr>"
    using True by (simp add: pg_loop_ends_def subs_def Let_def)
  have sub: "gget (pl_subs l) q = Some k" if "gget subs q = Some k" for q k using that by (auto simp: subs_def gmap_simps split: if_splits)
  have keep: "gget subs q = Some k" if "gget (pl_subs l) q = Some k" "k \<noteq> i" for q k
    using that pg_inv_sub [OF assms that(1)] by (auto simp: subs_def gmap_simps)
  show ?thesis unfolding l'
  proof (rule pg_invI, goal_cases)
    case (1 q k)
    then have "gget subs q = Some k" by simp
    from pg_inv_sub [OF assms sub [OF this]] show ?case by (cases "k = i") simp_all
  next
    case (2 k)
    then have "k \<noteq> i" using True by auto
    with 2 pg_inv_loop [OF assms, of k] keep show ?case by simp
  next
    case (3 k)
    with pg_inv_channel [OF assms, of k] True show ?case by (cases "k = i") simp_all
  qed
next
  case False
  then have "pg_loop_ends i l = l" by (auto simp: pg_loop_ends_def Let_def)
  with assms show ?thesis by simp
qed

text \<open>Subscriptions that are taken out of the map are told to end.\<close>

lemma pg_inv_removed:
  assumes "pg_inv l" "pg_inv l'" "length (pl_started l'') = length (pl_started l')" "\<And>k. k < length (pl_started l') \<Longrightarrow> pl_started l'' ! k = pl_started l' ! k"
    and "\<And>q k. gget (pl_subs l'') q = Some k \<Longrightarrow> gget (pl_subs l') q = Some k"
    and "\<And>k. k < length (pl_started l') \<Longrightarrow> su_running (pl_started l' ! k) \<Longrightarrow> \<not> su_cancelled (pl_started l' ! k) \<Longrightarrow>
      gget (pl_subs l'') (su_queue (pl_started l' ! k)) = Some k"
  shows "pg_inv l''"
proof (rule pg_invI)
  fix q k assume "gget (pl_subs l'') q = Some k"
  from pg_inv_sub [OF assms(2) assms(5) [OF this]] show "k < length (pl_started l'') \<and> su_queue (pl_started l'' ! k) = q" by (simp add: assms(3,4))
next
  fix k assume k: "k < length (pl_started l'')"
  then show "gget (pl_subs l'') (su_queue (pl_started l'' ! k)) = Some k" if "su_running (pl_started l'' ! k)" "\<not> su_cancelled (pl_started l'' ! k)"
    using that assms(6) [of k] by (simp add: assms(3,4))
  show "su_closed (pl_started l'' ! k) = (\<not> su_running (pl_started l'' ! k)) \<and> su_pending (pl_started l'' ! k) \<le> 32"
    using k pg_inv_channel [OF assms(2), of k] by (simp add: assms(3,4))
qed

lemma pg_inv_Unlisten:
  assumes "pg_inv l"
  shows "pg_inv (pg_Unlisten queue l)"
proof (rule pg_inv_removed [OF assms pg_inv_cancel_at [OF assms, of queue]])
  show "length (pl_started (pg_Unlisten queue l)) = length (pl_started (cancel_at queue l))" by (simp add: pg_Unlisten_def)
  fix k show "pl_started (pg_Unlisten queue l) ! k = pl_started (cancel_at queue l) ! k" by (simp add: pg_Unlisten_def)
  show "gget (pl_subs (cancel_at queue l)) q = Some k" if "gget (pl_subs (pg_Unlisten queue l)) q = Some k" for q
    using that by (simp add: pg_Unlisten_def gmap_simps split: if_splits)
  assume k: "k < length (pl_started (cancel_at queue l))" and run: "su_running (pl_started (cancel_at queue l) ! k)" "\<not> su_cancelled (pl_started (cancel_at queue l) ! k)"
  have "su_queue (pl_started (cancel_at queue l) ! k) \<noteq> queue"
    using run k cancel_at_cancels [OF assms, of k queue] by (auto simp: cancel_at_nth split: if_splits)
  with pg_inv_loop [OF pg_inv_cancel_at [OF assms] k run]
  show "gget (pl_subs (pg_Unlisten queue l)) (su_queue (pl_started (cancel_at queue l) ! k)) = Some k" by (simp add: pg_Unlisten_def gmap_simps)
qed

lemma fold_cancel:
  "pl_subs (fold cancel_sub is l) = pl_subs l" "length (pl_started (fold cancel_sub is l)) = length (pl_started l)"
  "k < length (pl_started l) \<Longrightarrow> pl_started (fold cancel_sub is l) ! k = (if k \<in> set is then (pl_started l ! k)\<lparr>su_cancelled := True\<rparr> else pl_started l ! k)"
  by (induction "is" arbitrary: l) auto

lemma pg_inv_fold_cancel: "pg_inv l \<Longrightarrow> pg_inv (fold cancel_sub is l)"
  by (induction "is" arbitrary: l) (simp_all add: pg_inv_cancel)

lemma close_cancels:
  assumes "pg_inv l" "i < length (pl_started l)" "su_running (pl_started (pg_Close l) ! i)"
  shows "su_cancelled (pl_started (pg_Close l) ! i)"
proof (cases "su_cancelled (pl_started l ! i)")
  case False
  moreover have "su_running (pl_started l ! i)" using assms(2,3) by (simp add: pg_Close_def fold_cancel split: if_splits)
  ultimately have "gget (pl_subs l) (su_queue (pl_started l ! i)) = Some i" using pg_inv_loop [OF assms(1,2)] by simp
  then have "i \<in> set (gvals (pl_subs l))" by (force dest: map_of_SomeD)
  then show ?thesis using assms(2) by (simp add: pg_Close_def fold_cancel)
qed (use assms(2) in \<open>simp add: pg_Close_def fold_cancel\<close>)

lemma pg_inv_Close:
  assumes "pg_inv l"
  shows "pg_inv (pg_Close l)"
proof (rule pg_inv_removed [OF assms pg_inv_fold_cancel [OF assms, of "gvals (pl_subs l)"]])
  let ?l = "fold cancel_sub (gvals (pl_subs l)) l"
  show "length (pl_started (pg_Close l)) = length (pl_started ?l)" by (simp add: pg_Close_def)
  fix k show same: "pl_started (pg_Close l) ! k = pl_started ?l ! k" by (simp add: pg_Close_def)
  show "gget (pl_subs ?l) q = Some k" if "gget (pl_subs (pg_Close l)) q = Some k" for q using that by (simp add: pg_Close_def)
  assume "k < length (pl_started ?l)" "su_running (pl_started ?l ! k)" "\<not> su_cancelled (pl_started ?l ! k)"
  with close_cancels [OF assms, of k] same show "gget (pl_subs (pg_Close l)) (su_queue (pl_started ?l ! k)) = Some k" by (simp add: fold_cancel)
qed

lemma pg_inv_step: "pg_step l l' \<Longrightarrow> pg_inv l \<Longrightarrow> pg_inv l'"
  by (erule pg_step_cases) (simp_all add: pg_inv_Listen pg_inv_notify pg_inv_loop_ends pg_inv_Unlisten pg_inv_Close)

lemma pg_inv_reachable:
  assumes "pg_step\<^sup>*\<^sup>* pg_new l"
  shows "pg_inv l"
  using assms
proof (induction rule: rtranclp_induct)
  case base
  show ?case by (simp add: pg_inv_def pg_new_def)
next
  case (step l l')
  then show ?case by (rule_tac pg_inv_step)
qed

text \<open>
  The listener of the pgx driver loses no connection. In every state that it reaches, whatever subscriptions,
  replacements, notifications, broken connections and closings there were, a receive loop that holds a connection and that
  nobody has told to end is the one registered for its queue, so that a later \<^verbatim>\<open>Listen\<close>, \<^verbatim>\<open>Unlisten\<close> or \<^verbatim>\<open>Close\<close> ends it; once the listener is
  closed, every loop that is left has been told to end. A channel holds at most 32 notifications and
  is closed exactly when its loop is over.
\<close>

theorem pgx_listener_loses_no_loop:
  assumes "pg_step\<^sup>*\<^sup>* pg_new l" "i < length (pl_started l)"
  shows "(su_running (pl_started l ! i) \<and> \<not> su_cancelled (pl_started l ! i) \<longrightarrow> gget (pl_subs l) (su_queue (pl_started l ! i)) = Some i) \<and>
    (su_running (pl_started (pg_Close l) ! i) \<longrightarrow> su_cancelled (pl_started (pg_Close l) ! i)) \<and>
    su_closed (pl_started l ! i) = (\<not> su_running (pl_started l ! i)) \<and> su_pending (pl_started l ! i) \<le> 32"
proof -
  note inv = pg_inv_reachable [OF assms(1)]
  show ?thesis using pg_inv_loop [OF inv assms(2)] pg_inv_channel [OF inv assms(2)] close_cancels [OF inv assms(2)] by simp
qed

definition pg_sample :: pg_listener where
  "pg_sample = pg_notify 1 (pg_loop_ends 0 (fst (pg_Listen None None ''q'' (fst (pg_Listen None None ''q'' pg_new)))))"

theorem pgx_listener_loses_no_loop_witness:
  "gget (pl_subs pg_sample) ''q'' = Some 1 \<and> su_closed (pl_started pg_sample ! 0) \<and> su_cancelled (pl_started (pg_Close pg_sample) ! 1)"
proof -
  note more = rtranclp.rtrancl_into_rtrancl [where r = pg_step]
  have "pg_step\<^sup>*\<^sup>* pg_new pg_sample" unfolding pg_sample_def
    by (rule more [OF more [OF more [OF more [OF rtranclp.rtrancl_refl listen] listen] loop_ends] notify])
  note reach = pgx_listener_loses_no_loop [OF this]
  have r: "su_running (pl_started (pg_Close pg_sample) ! 1)" "su_running (pl_started pg_sample ! 1) \<and> \<not> su_cancelled (pl_started pg_sample ! 1)"
    "su_queue (pl_started pg_sample ! 1) = ''q''" "1 < length (pl_started pg_sample)" "su_closed (pl_started pg_sample ! 0)" by code_simp+
  from reach [OF r(4)] r show ?thesis by simp
qed

section \<open>Quoting\<close>

text \<open>How the database reads a quoted identifier: doubled quotes are one, a single one ends it.\<close>

fun read_quoted :: "string \<Rightarrow> (string \<times> string) option" where
  "read_quoted [] = None"
| "read_quoted (ch # cs) =
     (if ch \<noteq> CHR 0x22 then map_option (\<lambda>(name, rest). (ch # name, rest)) (read_quoted cs)
      else (case cs of
          [] \<Rightarrow> Some ([], [])
        | ch2 # cs2 \<Rightarrow> if ch2 = CHR 0x22 then map_option (\<lambda>(name, rest). (CHR 0x22 # name, rest)) (read_quoted cs2) else Some ([], cs)))"

text \<open>
  A quoted channel is read back as the channel, whatever the name of the queue: the database takes the identifier
  that the driver quotes for exactly this name and nothing of it for further SQL.
\<close>

theorem pgQuoteIdentifier_reads_back: "\<exists>body. pgQuoteIdentifier s = CHR 0x22 # body \<and> read_quoted body = Some (s, [])"
proof -
  have "read_quoted (escape_quotes s @ [CHR 0x22]) = Some (s, [])" by (induction s) auto
  then show ?thesis by (simp add: pgQuoteIdentifier_def)
qed

end
