(* ===== verification/Redis.thy ===== *)
theory Redis
  imports Sql
begin

text \<open>
  The executor of \<^verbatim>\<open>driver/redis/executor.go\<close>. The server is a parameter: the record \<open>redis\<close> of the commands that the
  driver and its Lua scripts send, typed by the keys that they use. A script is one step of the server. Calls
  of the client are numbered; the record \<open>renv\<close> says what others do before each of them and whether it
  is answered. Documents are the values that are encoded, a number or text that the encoding leaves out
  being zero or empty, so that instants at the Unix epoch count as absent; scores are whole
  numbers, which floats hold exactly up to \<open>2 ^ 53\<close>, that is for priorities below 7000.
\<close>

section \<open>Documents and keys\<close>

record redisAttemptErr =
  re_AtMs :: int
  re_Attempt :: int
  re_Message :: string
  re_Trace :: string

record redisJob =
  rx_ID :: string
  rx_Queue :: string
  rx_Kind :: string
  rx_Args :: string
  rx_State :: JobState
  rx_Priority :: int
  rx_RunAtMs :: int
  rx_CreatedAtMs :: int
  rx_AttemptedAtMs :: int
  rx_StartedAtMs :: int
  rx_LeaseExpiresAtMs :: int
  rx_FinalizedAtMs :: int
  rx_AttemptNum :: int
  rx_MaxRetry :: int
  rx_TimeoutMs :: int
  rx_UniqueKey :: string
  rx_WorkerID :: string
  rx_Tags :: "string list"
  rx_Errors :: "redisAttemptErr list"
  rx_PipelineID :: string

text \<open>The sorted sets: ready and scheduled jobs of a queue, all jobs by creation.\<close>

datatype zset = Avail string | Sched string | JobsIndex

definition UnixMilli :: "gotime \<Rightarrow> int" where
  "UnixMilli t = (t - unix_epoch) div Millisecond"

definition of_millis :: "int \<Rightarrow> gotime" where
  "of_millis ms = unix_epoch + ms * Millisecond"

definition opt_millis :: "int \<Rightarrow> gotime option" where
  "opt_millis ms = (if ms \<noteq> 0 then Some (of_millis ms) else None)"

definition priorityScore :: "int \<Rightarrow> int \<Rightarrow> int" where
  "priorityScore priority ms = ms - priority * 1000000000000"

definition redis_jobToRow :: "redisJob \<Rightarrow> JobRow" where
  "redis_jobToRow j = \<lparr>ID = rx_ID j, Queue = rx_Queue j, Kind = rx_Kind j, Args = rx_Args j, State = rx_State j,
     Priority = rx_Priority j, RunAt = of_millis (rx_RunAtMs j), CreatedAt = of_millis (rx_CreatedAtMs j),
     AttemptedAt = opt_millis (rx_AttemptedAtMs j), StartedAt = opt_millis (rx_StartedAtMs j),
     LeaseExpiresAt = opt_millis (rx_LeaseExpiresAtMs j), FinalizedAt = opt_millis (rx_FinalizedAtMs j),
     AttemptNum = rx_AttemptNum j, MaxRetry = rx_MaxRetry j, Timeout = wrap64 (rx_TimeoutMs j * Millisecond), Tags = rx_Tags j,
     Errors = map (\<lambda>e. \<lparr>ae_At = of_millis (re_AtMs e), ae_Attempt = re_Attempt e, ae_Error = re_Message e, ae_Trace = re_Trace e\<rparr>) (rx_Errors j),
     UniqueKey = rx_UniqueKey j, WorkerID = rx_WorkerID j, PipelineID = rx_PipelineID j\<rparr>"

definition redis_Capabilities :: Capabilities where
  "redis_Capabilities = \<lparr>NativeTx = False, ListenNotify = True, ChangeStreams = False, SkipLocked = False, UniqueJobs = True,
     AdvisoryLocks = False, LinearizableLeases = True, LinearizableCAS = True, LifecycleTimestamps = True, BoundedFetch = True,
     StrictFetchOrdering = False\<rparr>"

section \<open>The server and the connection\<close>

record 's redis =
  rd_get :: "string \<Rightarrow> 's \<Rightarrow> redisJob option"
  rd_set :: "string \<Rightarrow> redisJob \<Rightarrow> 's \<Rightarrow> 's"
  rd_del :: "string \<Rightarrow> 's \<Rightarrow> 's"
  rd_uniq_exists :: "string \<Rightarrow> 's \<Rightarrow> bool"
  rd_uniq_set :: "string \<Rightarrow> string \<Rightarrow> 's \<Rightarrow> 's"
  rd_uniq_del :: "string \<Rightarrow> 's \<Rightarrow> 's"
  rd_zadd :: "zset \<Rightarrow> int \<Rightarrow> string \<Rightarrow> 's \<Rightarrow> 's"
  rd_zrem :: "zset \<Rightarrow> string \<Rightarrow> 's \<Rightarrow> 's"
  rd_zpopmin :: "zset \<Rightarrow> 's \<Rightarrow> 's \<times> string option"
  rd_zrangebyscore :: "zset \<Rightarrow> int \<Rightarrow> nat \<Rightarrow> 's \<Rightarrow> string list"
  rd_zrevrange :: "zset \<Rightarrow> 's \<Rightarrow> string list"
  rd_run_set :: "string \<Rightarrow> string \<Rightarrow> int \<Rightarrow> 's \<Rightarrow> 's"
  rd_run_del :: "string \<Rightarrow> string \<Rightarrow> 's \<Rightarrow> 's"
  rd_run_get :: "string \<Rightarrow> string \<Rightarrow> 's \<Rightarrow> int option"
  rd_run_keys :: "string \<Rightarrow> 's \<Rightarrow> string list"
  rd_queue_add :: "string \<Rightarrow> 's \<Rightarrow> 's"
  rd_queue_names :: "'s \<Rightarrow> string list"
  rd_meta :: "string \<Rightarrow> 's \<Rightarrow> (string, string) gmap"
  rd_meta_set :: "string \<Rightarrow> string \<Rightarrow> string \<Rightarrow> 's \<Rightarrow> 's"
  rd_meta_setnx :: "string \<Rightarrow> string \<Rightarrow> string \<Rightarrow> 's \<Rightarrow> 's"
  rd_publish :: "string \<Rightarrow> 's \<Rightarrow> 's"
  rd_leader_setnx :: "string \<Rightarrow> string \<Rightarrow> duration \<Rightarrow> 's \<Rightarrow> 's \<times> bool"
  rd_leader_get :: "string \<Rightarrow> 's \<Rightarrow> string option"
  rd_leader_expire :: "string \<Rightarrow> duration \<Rightarrow> 's \<Rightarrow> 's"
  rd_leader_del :: "string \<Rightarrow> 's \<Rightarrow> 's"
  rd_cursor_setnx :: "string \<Rightarrow> string \<Rightarrow> 's \<Rightarrow> 's \<times> bool"
  rd_cursor_get :: "string \<Rightarrow> 's \<Rightarrow> string option"
  rd_cursor_set :: "string \<Rightarrow> string \<Rightarrow> 's \<Rightarrow> 's"

text \<open>A call is answered, is lost before it acts, or acts without an answer; a watched key may be touched.\<close>

datatype link = Answered | LostCall goerr | Unanswered goerr | Touched

record 's renv =
  rv_link :: "nat \<Rightarrow> link"
  rv_others :: "nat \<Rightarrow> 's \<Rightarrow> 's"

definition send :: "'s renv \<Rightarrow> nat \<Rightarrow> ('s \<Rightarrow> 's \<times> 'a) \<Rightarrow> 's \<Rightarrow> 's \<times> 'a res" where
  "send env n f s =
     (let s1 = rv_others env n s
      in case rv_link env n of
           LostCall e \<Rightarrow> (s1, Inl e)
         | Unanswered e \<Rightarrow> (fst (f s1), Inl e)
         | _ \<Rightarrow> (fst (f s1), Inr (snd (f s1))))"

definition ask :: "'s renv \<Rightarrow> nat \<Rightarrow> ('s \<Rightarrow> 'a) \<Rightarrow> 's \<Rightarrow> 's \<times> 'a res" where
  "ask env n g = send env n (\<lambda>s. (s, g s))"

text \<open>The commands of a pipeline are sent together; those of others may come between them.\<close>

fun run_pipe :: "'s renv \<Rightarrow> nat \<Rightarrow> ('s \<Rightarrow> 's) list \<Rightarrow> 's \<Rightarrow> 's" where
  "run_pipe env n [] s = s"
| "run_pipe env n (f # fs) s = run_pipe env (Suc n) fs (f (rv_others env n s))"

definition pipeline :: "'s renv \<Rightarrow> nat \<Rightarrow> ('s \<Rightarrow> 's) list \<Rightarrow> 's \<Rightarrow> 's \<times> goerr option" where
  "pipeline env n fs s =
     (case rv_link env n of
        LostCall e \<Rightarrow> (s, Some e)
      | Unanswered e \<Rightarrow> (run_pipe env n fs s, Some e)
      | _ \<Rightarrow> (run_pipe env n fs s, None))"

section \<open>Scripts\<close>

definition insertJobScript :: "'s redis \<Rightarrow> bool \<Rightarrow> redisJob \<Rightarrow> zset \<Rightarrow> int \<Rightarrow> int \<Rightarrow> 's \<Rightarrow> 's \<times> int" where
  "insertJobScript c has_unique job ready score now_ms s =
     (if has_unique \<and> rd_uniq_exists c (rx_UniqueKey job) s then (s, 0)
      else
        let s1 = (if has_unique then rd_uniq_set c (rx_UniqueKey job) (rx_ID job) s else s);
            s2 = rd_zadd c JobsIndex (rx_CreatedAtMs job) (rx_ID job) (rd_zadd c ready score (rx_ID job) (rd_set c (rx_ID job) job s1));
            q = rx_Queue job;
            s3 = rd_meta_setnx c q ''paused'' ''0'' (rd_queue_add c q s2);
            s4 = rd_meta_setnx c q ''updated_at_ms'' (Itoa now_ms) (rd_meta_setnx c q ''created_at_ms'' (Itoa now_ms) s3)
        in (rd_publish c q s4, 1))"

definition promote_due :: "'s redis \<Rightarrow> string \<Rightarrow> string \<Rightarrow> 's \<Rightarrow> 's" where
  "promote_due c q jid s =
     (case rd_get c jid s of
        None \<Rightarrow> s
      | Some job \<Rightarrow> rd_zadd c (Avail q) (priorityScore (rx_Priority job) (rx_RunAtMs job)) jid (rd_zrem c (Sched q) jid s))"

definition redis_claim :: "int \<Rightarrow> string \<Rightarrow> int \<Rightarrow> redisJob \<Rightarrow> redisJob" where
  "redis_claim now_ms worker lease_ms job = job\<lparr>rx_State := JobStateRunning, rx_AttemptedAtMs := now_ms, rx_StartedAtMs := 0,
     rx_LeaseExpiresAtMs := (if lease_ms > 0 then now_ms + lease_ms else 0), rx_AttemptNum := rx_AttemptNum job + 1, rx_WorkerID := worker\<rparr>"

definition fetchOneScript :: "'s redis \<Rightarrow> string \<Rightarrow> int \<Rightarrow> string \<Rightarrow> int \<Rightarrow> 's \<Rightarrow> 's \<times> redisJob option" where
  "fetchOneScript c q now_ms worker lease_ms s =
     (let s1 = fold (promote_due c q) (rd_zrangebyscore c (Sched q) now_ms 1024 s) s
      in case rd_zpopmin c (Avail q) s1 of
           (s2, None) \<Rightarrow> (s2, None)
         | (s2, Some jid) \<Rightarrow>
             (case rd_get c jid s2 of
                None \<Rightarrow> (s2, None)
              | Some job \<Rightarrow>
                  let job' = redis_claim now_ms worker lease_ms job;
                      mark = (if rx_LeaseExpiresAtMs job' \<noteq> 0 then rx_LeaseExpiresAtMs job' else now_ms)
                  in (rd_run_set c q jid mark (rd_set c jid job' s2), Some job')))"

definition rescueOneScript :: "'s redis \<Rightarrow> string \<Rightarrow> string \<Rightarrow> int \<Rightarrow> int \<Rightarrow> 's \<Rightarrow> 's \<times> int" where
  "rescueOneScript c q jid at_ms before_ms s =
     (case rd_get c jid s of
        None \<Rightarrow> (rd_run_del c q jid s, 0)
      | Some job \<Rightarrow>
          if rx_State job \<noteq> JobStateRunning then (rd_run_del c q jid s, 0)
          else if (if rx_LeaseExpiresAtMs job \<noteq> 0 then rx_LeaseExpiresAtMs job > at_ms
                   else (case rd_run_get c q jid s of None \<Rightarrow> True | Some attempted \<Rightarrow> attempted > before_ms)) then (s, 0)
          else
            let job' = job\<lparr>rx_State := JobStateAvailable, rx_AttemptedAtMs := 0, rx_StartedAtMs := 0, rx_LeaseExpiresAtMs := 0, rx_WorkerID := []\<rparr>
            in (rd_zadd c (Avail q) (priorityScore (rx_Priority job) (rx_RunAtMs job)) jid (rd_run_del c q jid (rd_set c jid job' s)), 1))"

definition redis_claimed :: "string \<Rightarrow> int \<Rightarrow> redisJob \<Rightarrow> bool" where
  "redis_claimed worker attempt job \<longleftrightarrow> rx_State job = JobStateRunning \<and> rx_WorkerID job = worker \<and> rx_AttemptNum job = attempt"

definition heartbeatScript :: "'s redis \<Rightarrow> string \<Rightarrow> string \<Rightarrow> string \<Rightarrow> int \<Rightarrow> int \<Rightarrow> 's \<Rightarrow> 's \<times> int" where
  "heartbeatScript c q jid worker attempt lease_ms s =
     (case rd_get c jid s of
        None \<Rightarrow> (s, 0)
      | Some job \<Rightarrow>
          if redis_claimed worker attempt job
          then (rd_run_set c q jid lease_ms (rd_set c jid (job\<lparr>rx_LeaseExpiresAtMs := lease_ms\<rparr>) s), 1) else (s, 0))"

definition markStartedScript :: "'s redis \<Rightarrow> string \<Rightarrow> string \<Rightarrow> int \<Rightarrow> int \<Rightarrow> 's \<Rightarrow> 's \<times> int" where
  "markStartedScript c jid worker attempt at_ms s =
     (case rd_get c jid s of
        None \<Rightarrow> (s, 0)
      | Some job \<Rightarrow> if redis_claimed worker attempt job then (rd_set c jid (job\<lparr>rx_StartedAtMs := at_ms\<rparr>) s, 1) else (s, 0))"

section \<open>Operations\<close>

definition redis_new_job :: "gotime \<Rightarrow> string \<Rightarrow> JobInsertParams \<Rightarrow> redisJob" where
  "redis_new_job now jid p =
     (let runAt = (if IsZero (ip_RunAt p) then now else ip_RunAt p)
      in \<lparr>rx_ID = jid, rx_Queue = ip_Queue p, rx_Kind = ip_Kind p, rx_Args = ip_Args p,
          rx_State = (if now < runAt then JobStateScheduled else JobStateAvailable), rx_Priority = ip_Priority p,
          rx_RunAtMs = UnixMilli runAt, rx_CreatedAtMs = UnixMilli now, rx_AttemptedAtMs = 0, rx_StartedAtMs = 0,
          rx_LeaseExpiresAtMs = 0, rx_FinalizedAtMs = 0, rx_AttemptNum = 0, rx_MaxRetry = ip_MaxRetry p,
          rx_TimeoutMs = Milliseconds (ip_Timeout p), rx_UniqueKey = ip_UniqueKey p, rx_WorkerID = [], rx_Tags = ip_Tags p, rx_Errors = [],
          rx_PipelineID = ip_PipelineID p\<rparr>)"

definition redis_insert_one :: "'s redis \<Rightarrow> 's renv \<Rightarrow> gotime \<Rightarrow> nat \<Rightarrow> string \<Rightarrow> JobInsertParams \<Rightarrow> 's \<Rightarrow> 's \<times> JobInsertResult res" where
  "redis_insert_one c env now n jid p s =
     (let job = redis_new_job now jid p;
          (ready, score) = (if rx_State job = JobStateScheduled then (Sched (ip_Queue p), rx_RunAtMs job)
            else (Avail (ip_Queue p), priorityScore (ip_Priority p) (rx_RunAtMs job)))
      in case send env n (insertJobScript c (ip_UniqueKey p \<noteq> []) job ready score (UnixMilli now)) s of
           (s1, Inl e) \<Rightarrow> (s1, Inl (wrap_prefix ''insert job'' e))
         | (s1, Inr inserted) \<Rightarrow>
             (s1, Inr (if inserted = 0 then \<lparr>ir_Job = None, ir_UniqueSkip = True\<rparr> else \<lparr>ir_Job = Some (redis_jobToRow job), ir_UniqueSkip = False\<rparr>)))"

text \<open>\<open>ids\<close> are the random identifiers of the new jobs.\<close>

fun redis_insert_loop :: "'s redis \<Rightarrow> 's renv \<Rightarrow> gotime \<Rightarrow> (nat \<Rightarrow> string) \<Rightarrow> nat \<Rightarrow> JobInsertParams list \<Rightarrow> 's \<Rightarrow> 's \<times> JobInsertResult list res" where
  "redis_insert_loop c env now ids n [] s = (s, Inr [])"
| "redis_insert_loop c env now ids n (p # ps) s =
     (case redis_insert_one c env now n (ids n) p s of
        (s1, Inl e) \<Rightarrow> (s1, Inl e)
      | (s1, Inr r) \<Rightarrow>
          (case redis_insert_loop c env now ids (Suc n) ps s1 of
             (s2, Inl e) \<Rightarrow> (s2, Inl e)
           | (s2, Inr rs) \<Rightarrow> (s2, Inr (r # rs))))"

definition redis_jobInsertMany :: "'s redis \<Rightarrow> 's renv \<Rightarrow> gotime \<Rightarrow> (nat \<Rightarrow> string) \<Rightarrow> JobInsertParams list \<Rightarrow> 's \<Rightarrow> 's \<times> JobInsertResult list res" where
  "redis_jobInsertMany c env now ids ps s = redis_insert_loop c env now ids 0 ps s"

text \<open>The document of a job, at the call \<open>n\<close>.\<close>

definition redis_load :: "'s redis \<Rightarrow> 's renv \<Rightarrow> nat \<Rightarrow> string \<Rightarrow> 's \<Rightarrow> 's \<times> redisJob res" where
  "redis_load c env n jid s =
     (case ask env n (rd_get c jid) s of
        (s1, Inl e) \<Rightarrow> (s1, Inl e)
      | (s1, Inr None) \<Rightarrow> (s1, Inl (not_found_job jid))
      | (s1, Inr (Some job)) \<Rightarrow> (s1, Inr job))"

definition redis_jobGetByID :: "'s redis \<Rightarrow> 's renv \<Rightarrow> string \<Rightarrow> 's \<Rightarrow> 's \<times> JobRow res" where
  "redis_jobGetByID c env jid s =
     (case redis_load c env 0 jid s of (s1, Inl e) \<Rightarrow> (s1, Inl e) | (s1, Inr job) \<Rightarrow> (s1, Inr (redis_jobToRow job)))"

text \<open>Every job of the index is read by a call; those that are gone are taken out of it, those that cannot be read are passed over.\<close>

fun scan_loop :: "'s redis \<Rightarrow> 's renv \<Rightarrow> (redisJob \<Rightarrow> bool) \<Rightarrow> nat \<Rightarrow> string list \<Rightarrow> 's \<Rightarrow> 's \<times> JobRow list" where
  "scan_loop c env wanted n [] s = (s, [])"
| "scan_loop c env wanted n (jid # ids) s =
     (case ask env n (rd_get c jid) s of
        (s1, Inl e) \<Rightarrow> scan_loop c env wanted (n + 2) ids s1
      | (s1, Inr None) \<Rightarrow> scan_loop c env wanted (n + 2) ids (fst (send env (n + 1) (\<lambda>s. (rd_zrem c JobsIndex jid s, ())) s1))
      | (s1, Inr (Some job)) \<Rightarrow>
          (case scan_loop c env wanted (n + 2) ids s1 of
             (s2, rows) \<Rightarrow> (s2, if wanted job then redis_jobToRow job # rows else rows)))"

definition redis_wanted :: "JobListParams \<Rightarrow> (gotime \<times> string) option \<Rightarrow> redisJob \<Rightarrow> bool" where
  "redis_wanted p cursor job \<longleftrightarrow>
     (jl_Queue p = [] \<or> rx_Queue job = jl_Queue p) \<and> (jl_State p = NoState \<or> rx_State job = jl_State p) \<and>
     (jl_Kind p = [] \<or> rx_Kind job = jl_Kind p) \<and>
     (case cursor of None \<Rightarrow> True | Some (cursorAt, cursorID) \<Rightarrow> JobFollowsCursor (redis_jobToRow job) cursorAt cursorID)"

definition redis_row_less :: "JobRow \<Rightarrow> JobRow \<Rightarrow> bool" where
  "redis_row_less a b = (if CreatedAt a \<noteq> CreatedAt b then CreatedAt a > CreatedAt b else ID a > ID b)"

definition scanJobs :: "'s redis \<Rightarrow> 's renv \<Rightarrow> JobListParams \<Rightarrow> 's \<Rightarrow> 's \<times> JobRow list res" where
  "scanJobs c env p s =
     (case (if jl_Cursor p = [] then Inr None else (case DecodeJobCursor (jl_Cursor p) of Inl e \<Rightarrow> Inl e | Inr x \<Rightarrow> Inr (Some x))) of
        Inl e \<Rightarrow> (s, Inl e)
      | Inr cursor \<Rightarrow>
          (case ask env 0 (rd_zrevrange c JobsIndex) s of
             (s1, Inl e) \<Rightarrow> (s1, Inl e)
           | (s1, Inr ids) \<Rightarrow>
               (case scan_loop c env (redis_wanted p cursor) 1 ids s1 of (s2, rows) \<Rightarrow> (s2, Inr (sort_slice redis_row_less rows)))))"

definition redis_jobList :: "'s redis \<Rightarrow> 's renv \<Rightarrow> JobListParams \<Rightarrow> 's \<Rightarrow> 's \<times> JobRow list res" where
  "redis_jobList c env p s =
     (case scanJobs c env p s of (s1, Inl e) \<Rightarrow> (s1, Inl e) | (s1, Inr rows) \<Rightarrow> (s1, Inr (take (nat (sql_limit (jl_Limit p))) rows)))"

definition redis_queueStats :: "'s redis \<Rightarrow> 's renv \<Rightarrow> string \<Rightarrow> 's \<Rightarrow> 's \<times> QueueStats res" where
  "redis_queueStats c env queue s =
     (case scanJobs c env \<lparr>jl_Queue = queue, jl_State = NoState, jl_Kind = [], jl_Limit = 0, jl_Cursor = []\<rparr> s of
        (s1, Inl e) \<Rightarrow> (s1, Inl e)
      | (s1, Inr rows) \<Rightarrow> (s1, Inr (CountQueueStats queue rows)))"

definition isQueuePaused :: "'s redis \<Rightarrow> string \<Rightarrow> 's \<Rightarrow> bool" where
  "isQueuePaused c name s \<longleftrightarrow> gget (rd_meta c name s) ''paused'' = Some ''1''"

fun redis_fetch_loop :: "'s redis \<Rightarrow> 's renv \<Rightarrow> int \<Rightarrow> FetchParams \<Rightarrow> nat \<Rightarrow> nat \<Rightarrow> 's \<Rightarrow> 's \<times> JobRow list \<times> goerr option" where
  "redis_fetch_loop c env now_ms p i 0 s = (s, [], None)"
| "redis_fetch_loop c env now_ms p i (Suc n) s =
     (case send env i (fetchOneScript c (fp_Queue p) now_ms (fp_WorkerID p) (Milliseconds (fp_LeaseDuration p))) s of
        (s1, Inl e) \<Rightarrow> (s1, [], Some (wrap_prefix ''claim job'' e))
      | (s1, Inr None) \<Rightarrow> (s1, [], None)
      | (s1, Inr (Some job)) \<Rightarrow>
          (case redis_fetch_loop c env now_ms p (Suc i) n s1 of (s2, rows, err) \<Rightarrow> (s2, redis_jobToRow job # rows, err)))"

definition redis_jobFetchBatch :: "'s redis \<Rightarrow> 's renv \<Rightarrow> gotime \<Rightarrow> FetchParams \<Rightarrow> 's \<Rightarrow> 's \<times> JobRow list \<times> goerr option" where
  "redis_jobFetchBatch c env now p s =
     (case ask env 0 (isQueuePaused c (fp_Queue p)) s of
        (s1, Inl e) \<Rightarrow> (s1, [], Some e)
      | (s1, Inr paused) \<Rightarrow> if paused then (s1, [], None) else redis_fetch_loop c env (UnixMilli now) p 1 (nat (fp_Limit p)) s1)"

fun rescue_ids :: "'s redis \<Rightarrow> 's renv \<Rightarrow> JobRescueParams \<Rightarrow> nat \<Rightarrow> string list \<Rightarrow> int \<Rightarrow> 's \<Rightarrow> 's \<times> int \<times> goerr option" where
  "rescue_ids c env p n [] rescued s = (s, rescued, None)"
| "rescue_ids c env p n (jid # ids) rescued s =
     (case send env n (rescueOneScript c (rp_Queue p) jid (UnixMilli (rp_At p)) (UnixMilli (rp_Before p))) s of
        (s1, Inl e) \<Rightarrow> (s1, rescued, Some e)
      | (s1, Inr k) \<Rightarrow> rescue_ids c env p (Suc n) ids (rescued + k) s1)"

definition redis_JobRescueStuck :: "'s redis \<Rightarrow> 's renv \<Rightarrow> JobRescueParams \<Rightarrow> 's \<Rightarrow> 's \<times> int \<times> goerr option" where
  "redis_JobRescueStuck c env p s =
     (case ask env 0 (rd_run_keys c (rp_Queue p)) s of
        (s1, Inl e) \<Rightarrow> (s1, 0, Some e)
      | (s1, Inr ids) \<Rightarrow> rescue_ids c env p 1 ids 0 s1)"

definition redis_JobHeartbeat :: "'s redis \<Rightarrow> 's renv \<Rightarrow> JobHeartbeatParams \<Rightarrow> 's \<Rightarrow> 's \<times> bool res" where
  "redis_JobHeartbeat c env p s =
     (case redis_load c env 0 (hp_ID p) s of
        (s1, Inl e) \<Rightarrow> (s1, Inl e)
      | (s1, Inr job) \<Rightarrow>
          let until = (if IsZero (hp_LeaseExpiresAt p) then hp_At p else hp_LeaseExpiresAt p)
          in case send env 1 (heartbeatScript c (rx_Queue job) (hp_ID p) (hp_WorkerID p) (hp_Attempt p) (UnixMilli until)) s1 of
               (s2, Inl e) \<Rightarrow> (s2, Inl e)
             | (s2, Inr renewed) \<Rightarrow> (s2, Inr (renewed = 1)))"

definition redis_JobMarkStarted :: "'s redis \<Rightarrow> 's renv \<Rightarrow> JobMarkStartedParams \<Rightarrow> 's \<Rightarrow> 's \<times> bool res" where
  "redis_JobMarkStarted c env p s =
     (case send env 0 (markStartedScript c (ms_ID p) (ms_WorkerID p) (ms_Attempt p) (UnixMilli (ms_At p))) s of
        (s1, Inl e) \<Rightarrow> (s1, Inl e)
      | (s1, Inr marked) \<Rightarrow> (s1, Inr (marked = 1)))"

section \<open>Outcomes\<close>

definition redis_outcome :: "gotime \<Rightarrow> JobSetStateParams \<Rightarrow> redisJob \<Rightarrow> redisJob" where
  "redis_outcome now p job =
     (if sp_Yield p then
        job\<lparr>rx_State := JobStateAvailable, rx_AttemptNum := rx_AttemptNum job - 1, rx_AttemptedAtMs := 0, rx_StartedAtMs := 0,
            rx_LeaseExpiresAtMs := 0, rx_WorkerID := []\<rparr>
      else
        let errs = (case sp_Err p of
              None \<Rightarrow> []
            | Some e \<Rightarrow> [\<lparr>re_AtMs = UnixMilli now, re_Attempt = rx_AttemptNum job, re_Message = e, re_Trace = (case sp_Trace p of None \<Rightarrow> [] | Some t \<Rightarrow> t)\<rparr>]);
            j1 = job\<lparr>rx_Errors := rx_Errors job @ errs, rx_WorkerID := [], rx_LeaseExpiresAtMs := 0\<rparr>
        in if sp_State p = JobStateRetryable
           then j1\<lparr>rx_State := JobStateAvailable, rx_RunAtMs := UnixMilli (if IsZero (sp_RetryAt p) then now else sp_RetryAt p)\<rparr>
           else j1\<lparr>rx_State := sp_State p, rx_FinalizedAtMs := UnixMilli now\<rparr>)"

definition redis_exec :: "'s redis \<Rightarrow> gotime \<Rightarrow> JobSetStateParams \<Rightarrow> redisJob \<Rightarrow> 's \<Rightarrow> 's" where
  "redis_exec c now p job' s =
     (let jid = sp_ID p; q = rx_Queue job';
          s1 = rd_set c jid job' (rd_run_del c q jid s)
      in if sp_Yield p then rd_zadd c (Avail q) (priorityScore (rx_Priority job') (rx_RunAtMs job')) jid s1
         else if sp_State p = JobStateRetryable then
           (if now < of_millis (rx_RunAtMs job') then rd_zadd c (Sched q) (rx_RunAtMs job') jid s1
            else rd_zadd c (Avail q) (priorityScore (rx_Priority job') (rx_RunAtMs job')) jid s1)
         else if rx_UniqueKey job' \<noteq> [] \<and> \<not> IsPermanentUniqueKey (rx_UniqueKey job') then rd_uniq_del c (rx_UniqueKey job') s1
         else s1)"

text \<open>
  \<^verbatim>\<open>WATCH\<close>, at most eight times: the commands are executed together if nobody has written the watched key since it was
  read. The clock is read in every round.
\<close>

definition watched_exec :: "'s redis \<Rightarrow> 's renv \<Rightarrow> nat \<Rightarrow> gotime \<Rightarrow> JobSetStateParams \<Rightarrow> redisJob \<Rightarrow> 's \<Rightarrow> 's \<times> bool" where
  "watched_exec c env n now p job s =
     (if rv_link env n = Touched \<or> rd_get c (sp_ID p) s \<noteq> Some job then (s, False)
      else (redis_exec c now p (redis_outcome now p job) s, True))"

fun set_state_tries :: "'s redis \<Rightarrow> 's renv \<Rightarrow> (nat \<Rightarrow> gotime) \<Rightarrow> JobSetStateParams \<Rightarrow> nat \<Rightarrow> nat \<Rightarrow> 's \<Rightarrow> 's \<times> goerr option" where
  "set_state_tries c env clk p n 0 s = (s, Some (Errorf (''set state for job '' @ sp_ID p @ '': too much concurrent contention'')))"
| "set_state_tries c env clk p n (Suc k) s =
     (case ask env n (rd_get c (sp_ID p)) s of
        (s1, Inl e) \<Rightarrow> (s1, Some e)
      | (s1, Inr None) \<Rightarrow> (s1, Some (stale_claim (sp_ID p)))
      | (s1, Inr (Some job)) \<Rightarrow>
          if rx_State job \<noteq> JobStateRunning \<or> \<not> MatchesClaim p (rx_WorkerID job) (rx_AttemptNum job)
          then (s1, Some (stale_claim (sp_ID p)))
          else (case send env (Suc n) (watched_exec c env (Suc n) (clk n) p job) s1 of
              (s2, Inl e) \<Rightarrow> (s2, Some e)
            | (s2, Inr done) \<Rightarrow> if done then (s2, None) else set_state_tries c env clk p (n + 2) k s2))"

definition redis_jobSetStateIfRunning :: "'s redis \<Rightarrow> 's renv \<Rightarrow> (nat \<Rightarrow> gotime) \<Rightarrow> JobSetStateParams \<Rightarrow> 's \<Rightarrow> 's \<times> goerr option" where
  "redis_jobSetStateIfRunning c env clk p s = set_state_tries c env clk p 0 8 s"

section \<open>Administration\<close>

definition redis_jobCancel :: "'s redis \<Rightarrow> 's renv \<Rightarrow> gotime \<Rightarrow> string \<Rightarrow> 's \<Rightarrow> 's \<times> goerr option" where
  "redis_jobCancel c env now jid s =
     (case redis_load c env 0 jid s of
        (s1, Inl e) \<Rightarrow> (s1, Some e)
      | (s1, Inr job) \<Rightarrow>
          if rx_State job \<noteq> JobStateAvailable \<and> rx_State job \<noteq> JobStateScheduled
          then (s1, Some (wrap_sentinel ErrConflict (''job '' @ go_quote jid @ '' is in state '' @ job_state_text (rx_State job) @
            '', can only cancel available/scheduled'')))
          else
            let job' = job\<lparr>rx_State := JobStateCancelled, rx_FinalizedAtMs := UnixMilli now\<rparr>;
                s2 = (if rx_UniqueKey job \<noteq> [] \<and> \<not> IsPermanentUniqueKey (rx_UniqueKey job)
                  then fst (send env 1 (\<lambda>s. (rd_uniq_del c (rx_UniqueKey job) s, ())) s1) else s1)
            in pipeline env 2 [rd_zrem c (Avail (rx_Queue job)) jid, rd_zrem c (Sched (rx_Queue job)) jid, rd_set c jid job'] s2)"

definition redis_jobDelete :: "'s redis \<Rightarrow> 's renv \<Rightarrow> string \<Rightarrow> 's \<Rightarrow> 's \<times> goerr option" where
  "redis_jobDelete c env jid s =
     (case redis_load c env 0 jid s of
        (s1, Inl e) \<Rightarrow> (s1, Some e)
      | (s1, Inr job) \<Rightarrow>
          pipeline env 1 ([rd_del c jid, rd_zrem c (Avail (rx_Queue job)) jid, rd_zrem c (Sched (rx_Queue job)) jid, rd_run_del c (rx_Queue job) jid,
            rd_zrem c JobsIndex jid] @ (if rx_UniqueKey job \<noteq> [] then [rd_uniq_del c (rx_UniqueKey job)] else [])) s1)"

definition redis_jobReschedule :: "'s redis \<Rightarrow> 's renv \<Rightarrow> RescheduleParams \<Rightarrow> 's \<Rightarrow> 's \<times> goerr option" where
  "redis_jobReschedule c env p s =
     (case redis_load c env 0 (rs_ID p) s of
        (s1, Inl e) \<Rightarrow> (s1, Some e)
      | (s1, Inr job) \<Rightarrow>
          let ms = UnixMilli (rs_RunAt p); job' = job\<lparr>rx_RunAtMs := ms, rx_State := JobStateScheduled\<rparr>
          in pipeline env 1 [rd_zrem c (Avail (rx_Queue job)) (rs_ID p), rd_zadd c (Sched (rx_Queue job)) ms (rs_ID p), rd_set c (rs_ID p) job'] s1)"

definition parseInt64 :: "string option \<Rightarrow> int" where
  "parseInt64 s = (case s of None \<Rightarrow> 0 | Some t \<Rightarrow> (case ParseInt t of None \<Rightarrow> 0 | Some v \<Rightarrow> v))"

definition parseQueueRow :: "string \<Rightarrow> (string, string) gmap \<Rightarrow> QueueRow" where
  "parseQueueRow name vals =
     (let created = parseInt64 (gget vals ''created_at_ms''); updated = parseInt64 (gget vals ''updated_at_ms'')
      in \<lparr>qr_Name = name, qr_Paused = (gget vals ''paused'' = Some ''1''), qr_CreatedAt = (if created \<noteq> 0 then of_millis created else 0),
          qr_UpdatedAt = (if updated \<noteq> 0 then of_millis updated else 0)\<rparr>)"

definition redis_queueGet :: "'s redis \<Rightarrow> 's renv \<Rightarrow> string \<Rightarrow> 's \<Rightarrow> 's \<times> QueueRow res" where
  "redis_queueGet c env name s =
     (case ask env 0 (rd_meta c name) s of
        (s1, Inl e) \<Rightarrow> (s1, Inl e)
      | (s1, Inr vals) \<Rightarrow> (s1, if vals = [] then Inl (no_queue name) else Inr (parseQueueRow name vals)))"

definition redis_queueSetPaused :: "'s redis \<Rightarrow> 's renv \<Rightarrow> gotime \<Rightarrow> string \<Rightarrow> bool \<Rightarrow> 's \<Rightarrow> 's \<times> goerr option" where
  "redis_queueSetPaused c env now name paused s =
     (let ms = Itoa (UnixMilli now)
      in pipeline env 0 [rd_queue_add c name, rd_meta_setnx c name ''created_at_ms'' ms,
           \<lambda>s. rd_meta_set c name ''updated_at_ms'' ms (rd_meta_set c name ''paused'' (if paused then ''1'' else ''0'') s)] s)"

fun queue_rows :: "'s redis \<Rightarrow> 's renv \<Rightarrow> string \<Rightarrow> nat \<Rightarrow> string list \<Rightarrow> 's \<Rightarrow> 's \<times> QueueRow list" where
  "queue_rows c env cursor n [] s = (s, [])"
| "queue_rows c env cursor n (name # names) s =
     (if name \<le> cursor then queue_rows c env cursor n names s
      else (case ask env n (rd_meta c name) s of
          (s1, Inl e) \<Rightarrow> queue_rows c env cursor (Suc n) names s1
        | (s1, Inr vals) \<Rightarrow>
            (case queue_rows c env cursor (Suc n) names s1 of
               (s2, rows) \<Rightarrow> (s2, if vals = [] then rows else parseQueueRow name vals # rows))))"

definition redis_queueList :: "'s redis \<Rightarrow> 's renv \<Rightarrow> QueueListParams \<Rightarrow> 's \<Rightarrow> 's \<times> QueueRow list res" where
  "redis_queueList c env p s =
     (case (if ql_Cursor p = [] then Inr [] else DecodeQueueCursor (ql_Cursor p)) of
        Inl e \<Rightarrow> (s, Inl e)
      | Inr cursor \<Rightarrow>
          (case ask env 0 (rd_queue_names c) s of
             (s1, Inl e) \<Rightarrow> (s1, Inl e)
           | (s1, Inr names) \<Rightarrow>
               (case queue_rows c env cursor 1 names s1 of
                  (s2, rows) \<Rightarrow> (s2, Inr (take (nat (sql_limit (ql_Limit p))) (sort_slice (\<lambda>a b. qr_Name a < qr_Name b) rows))))))"

section \<open>Coordination\<close>

definition redis_leaderAttemptElect :: "'s redis \<Rightarrow> 's renv \<Rightarrow> LeaderElectParams \<Rightarrow> 's \<Rightarrow> 's \<times> bool res" where
  "redis_leaderAttemptElect c env p s =
     (case send env 0 (rd_leader_setnx c (le_Name p) (le_WorkerID p) (le_TTL p)) s of
        (s1, Inl e) \<Rightarrow> (s1, Inl e)
      | (s1, Inr set_it) \<Rightarrow>
          if set_it then (s1, Inr True)
          else (case ask env 1 (rd_leader_get c (le_Name p)) s1 of
              (s2, Inl e) \<Rightarrow> (s2, Inl e)
            | (s2, Inr None) \<Rightarrow> (s2, Inr False)
            | (s2, Inr (Some current)) \<Rightarrow>
                if current = le_WorkerID p
                then (fst (send env 2 (\<lambda>s. (rd_leader_expire c (le_Name p) (le_TTL p) s, ())) s2), Inr True)
                else (s2, Inr False)))"

definition resignLeaderScript :: "'s redis \<Rightarrow> string \<Rightarrow> string \<Rightarrow> 's \<Rightarrow> 's \<times> int" where
  "resignLeaderScript c name worker s = (if rd_leader_get c name s = Some worker then (rd_leader_del c name s, 1) else (s, 0))"

definition redis_leaderResign :: "'s redis \<Rightarrow> 's renv \<Rightarrow> LeaderResignParams \<Rightarrow> 's \<Rightarrow> 's \<times> goerr option" where
  "redis_leaderResign c env p s =
     (case send env 0 (resignLeaderScript c (lr_Name p) (lr_WorkerID p)) s of (s1, Inl e) \<Rightarrow> (s1, Some e) | (s1, Inr _) \<Rightarrow> (s1, None))"

definition advanceCursorScript :: "'s redis \<Rightarrow> string \<Rightarrow> string \<Rightarrow> string \<Rightarrow> 's \<Rightarrow> 's \<times> int" where
  "advanceCursorScript c name expected new s =
     (if rd_cursor_get c name s \<noteq> Some expected then (s, 0) else (rd_cursor_set c name new s, 1))"

definition redis_nil :: goerr where "redis_nil = Errorf ''redis: nil''"

definition redis_scheduleCursorGetOrCreate :: "'s redis \<Rightarrow> 's renv \<Rightarrow> ScheduleCursorCreateParams \<Rightarrow> 's \<Rightarrow> 's \<times> ScheduleCursorResult res" where
  "redis_scheduleCursorGetOrCreate c env p s =
     (case send env 0 (rd_cursor_setnx c (cc_ID p) (Itoa (UnixNano (cc_InitialAt p)))) s of
        (s1, Inl e) \<Rightarrow> (s1, Inl e)
      | (s1, Inr created) \<Rightarrow>
          (case ask env 1 (rd_cursor_get c (cc_ID p)) s1 of
             (s2, Inl e) \<Rightarrow> (s2, Inl e)
           | (s2, Inr None) \<Rightarrow> (s2, Inl redis_nil)
           | (s2, Inr (Some text)) \<Rightarrow>
               (s2, case ParseInt text of
                  None \<Rightarrow> Inl (wrap_prefix ''parse schedule cursor'' (Errorf (''strconv.ParseInt: parsing '' @ go_quote text @ '': invalid syntax'')))
                | Some nanos \<Rightarrow> Inr \<lparr>cr_At = unix_epoch + nanos, cr_Created = created\<rparr>)))"

definition redis_scheduleCursorAdvance :: "'s redis \<Rightarrow> 's renv \<Rightarrow> ScheduleCursorAdvanceParams \<Rightarrow> 's \<Rightarrow> 's \<times> bool res" where
  "redis_scheduleCursorAdvance c env p s =
     (case send env 0 (advanceCursorScript c (ca_ID p) (Itoa (UnixNano (ca_Expected p))) (Itoa (UnixNano (ca_Next p)))) s of
        (s1, Inl e) \<Rightarrow> (s1, Inl e)
      | (s1, Inr result) \<Rightarrow> (s1, Inr (result = 1)))"

end
