(* ===== verification/Redis_Properties.thy ===== *)
theory Redis_Properties
  imports Redis Worker_Process
begin

text \<open>
  Claims, outcomes and leases over Redis. What the server documents about its commands is the locale \<open>redis_server\<close>; a server in
  memory is the instance. Batches are exclusive because a script is one step and takes the job out of the
  sorted set; outcomes are fenced by \<^verbatim>\<open>WATCH\<close>; cancellations and renewals of leases are not.
\<close>

section \<open>The server\<close>

text \<open>\<open>members z s\<close> are the elements of a sorted set.\<close>

locale redis_server =
  fixes c :: "'s redis" and members :: "zset \<Rightarrow> 's \<Rightarrow> string set"
  assumes get_set: "rd_get c k (rd_set c k' j s) = (if k = k' then Some j else rd_get c k s)"
    and get_zadd: "rd_get c k (rd_zadd c z x i s) = rd_get c k s" and get_zrem: "rd_get c k (rd_zrem c z i s) = rd_get c k s"
    and get_zpopmin: "rd_get c k (fst (rd_zpopmin c z s)) = rd_get c k s"
    and get_run_set: "rd_get c k (rd_run_set c q i x s) = rd_get c k s" and get_run_del: "rd_get c k (rd_run_del c q i s) = rd_get c k s"
    and get_uniq_del: "rd_get c k (rd_uniq_del c u s) = rd_get c k s"
    and members_set: "members z (rd_set c i j s) = members z s" and members_run_set: "members z (rd_run_set c q i x s) = members z s"
    and members_zadd: "members z (rd_zadd c z' x i s) = (if z = z' then insert i (members z s) else members z s)"
    and members_zrem: "members z (rd_zrem c z' i s) = (if z = z' then members z s - {i} else members z s)"
    and zpopmin_none: "rd_zpopmin c z s = (s', None) \<Longrightarrow> members z' s' = members z' s"
    and zpopmin_some: "rd_zpopmin c z s = (s', Some i) \<Longrightarrow>
      i \<in> members z s \<and> members z' s' = (if z' = z then members z s - {i} else members z' s)"
    and zrange: "set (rd_zrangebyscore c z x n s) \<subseteq> members z s \<and> distinct (rd_zrangebyscore c z x n s)"
begin

lemmas get_simps = get_set get_zadd get_zrem get_zpopmin get_run_set get_run_del get_uniq_del
lemmas members_simps = members_set members_run_set members_zadd members_zrem

end

text \<open>A job waits in at most one sorted set of the queues, and not while it is running; documents are under their identifiers.\<close>

definition waiting_once :: "'s redis \<Rightarrow> (zset \<Rightarrow> 's \<Rightarrow> string set) \<Rightarrow> 's \<Rightarrow> bool" where
  "waiting_once c members s \<longleftrightarrow>
     (\<forall>z z' i. z \<noteq> JobsIndex \<longrightarrow> z' \<noteq> JobsIndex \<longrightarrow> i \<in> members z s \<longrightarrow> i \<in> members z' s \<longrightarrow> z = z') \<and>
     (\<forall>z i j. z \<noteq> JobsIndex \<longrightarrow> i \<in> members z s \<longrightarrow> rd_get c i s = Some j \<longrightarrow> rx_State j \<noteq> JobStateRunning) \<and>
     (\<forall>i j. rd_get c i s = Some j \<longrightarrow> rx_ID j = i)"

text \<open>What others do while a batch is fetched: they keep this, and the documents of running jobs.\<close>

definition redis_polite :: "'s redis \<Rightarrow> (zset \<Rightarrow> 's \<Rightarrow> string set) \<Rightarrow> ('s \<Rightarrow> 's) \<Rightarrow> bool" where
  "redis_polite c members f \<longleftrightarrow> (\<forall>s. waiting_once c members s \<longrightarrow> waiting_once c members (f s) \<and>
     (\<forall>k j. rd_get c k s = Some j \<longrightarrow> rx_State j = JobStateRunning \<longrightarrow> rd_get c k (f s) = Some j))"

context redis_server
begin

abbreviation tidy :: "'s \<Rightarrow> bool" where "tidy \<equiv> waiting_once c members"

lemma tidy_sets: "tidy s \<Longrightarrow> z \<noteq> JobsIndex \<Longrightarrow> z' \<noteq> JobsIndex \<Longrightarrow> i \<in> members z s \<Longrightarrow> i \<in> members z' s \<Longrightarrow> z = z'"
  unfolding waiting_once_def by blast

lemma tidy_state: "tidy s \<Longrightarrow> z \<noteq> JobsIndex \<Longrightarrow> i \<in> members z s \<Longrightarrow> rd_get c i s = Some j \<Longrightarrow> rx_State j \<noteq> JobStateRunning"
  unfolding waiting_once_def by blast

lemma tidy_filed: "tidy s \<Longrightarrow> rd_get c i s = Some j \<Longrightarrow> rx_ID j = i"
  unfolding waiting_once_def by blast

lemma tidyI:
  assumes "\<And>z z' i. z \<noteq> JobsIndex \<Longrightarrow> z' \<noteq> JobsIndex \<Longrightarrow> i \<in> members z s \<Longrightarrow> i \<in> members z' s \<Longrightarrow> z = z'"
    and "\<And>z i j. z \<noteq> JobsIndex \<Longrightarrow> i \<in> members z s \<Longrightarrow> rd_get c i s = Some j \<Longrightarrow> rx_State j \<noteq> JobStateRunning"
    and "\<And>i j. rd_get c i s = Some j \<Longrightarrow> rx_ID j = i"
  shows "tidy s"
  unfolding waiting_once_def using assms by blast

lemma promote_get: "rd_get c k (promote_due c q i s) = rd_get c k s"
  by (auto simp: promote_due_def get_simps split: option.splits)

lemma promote_members:
  assumes "i \<in> members (Sched q) s"
  shows "members z (promote_due c q i s) = (case rd_get c i s of None \<Rightarrow> members z s
    | Some j \<Rightarrow> if z = Avail q then insert i (members z s) else if z = Sched q then members z s - {i} else members z s)"
  by (auto simp: promote_due_def members_simps split: option.splits)

lemma promote_tidy:
  assumes "tidy s" "i \<in> members (Sched q) s"
  shows "tidy (promote_due c q i s)"
proof (cases "rd_get c i s")
  case None
  then show ?thesis using assms(1) by (simp add: promote_due_def)
next
  case (Some j)
  have mem: "k \<in> members z (promote_due c q i s) \<longleftrightarrow> (if k = i \<and> z = Avail q then True else if k = i \<and> z = Sched q then False else k \<in> members z s)" for k z
    using promote_members [OF assms(2), of z] Some by auto
  have only: "z = Sched q" if "i \<in> members z s" "z \<noteq> JobsIndex" for z using tidy_sets [OF assms(1) that(2) _ that(1) assms(2)] by simp
  show ?thesis
  proof (rule tidyI)
    fix z z' k assume h: "z \<noteq> JobsIndex" "z' \<noteq> JobsIndex" "k \<in> members z (promote_due c q i s)" "k \<in> members z' (promote_due c q i s)"
    show "z = z'"
    proof (cases "k = i")
      case True
      have "y = Avail q" if "y \<noteq> JobsIndex" "k \<in> members y (promote_due c q i s)" for y
        using that only [of y] True by (auto simp: mem split: if_splits)
      with h show ?thesis by blast
    next
      case False
      with h tidy_sets [OF assms(1) h(1,2)] show ?thesis by (simp add: mem)
    qed
  next
    fix z k j' assume h: "z \<noteq> JobsIndex" "k \<in> members z (promote_due c q i s)" "rd_get c k (promote_due c q i s) = Some j'"
    then have "k \<in> members z s \<or> k \<in> members (Sched q) s" using assms(2) by (auto simp: mem split: if_splits)
    with tidy_state [OF assms(1)] h show "rx_State j' \<noteq> JobStateRunning" by (auto simp: promote_get)
  next
    fix k j' assume "rd_get c k (promote_due c q i s) = Some j'"
    then show "rx_ID j' = k" using tidy_filed [OF assms(1)] by (simp add: promote_get)
  qed
qed

lemma promote_all:
  assumes "tidy s" "set ids \<subseteq> members (Sched q) s" "distinct ids"
  shows "tidy (fold (promote_due c q) ids s) \<and> (\<forall>k. rd_get c k (fold (promote_due c q) ids s) = rd_get c k s)"
  using assms
proof (induction ids arbitrary: s)
  case (Cons i ids)
  have "k \<in> members (Sched q) (promote_due c q i s)" if "k \<in> set ids" for k
    using that Cons.prems(2,3) promote_members [of i q s "Sched q"] by (auto split: option.splits)
  then have "set ids \<subseteq> members (Sched q) (promote_due c q i s)" by blast
  from Cons.IH [OF promote_tidy [OF Cons.prems(1)] this] Cons.prems show ?case by (simp add: promote_get)
qed simp

text \<open>A fetch by one script: the job it returns was not running and is stored as returned.\<close>

lemma fetch_one:
  assumes "tidy s" "fetchOneScript c q now_ms w lease_ms s = (s', r)"
  shows "tidy s' \<and> (\<forall>k j. rd_get c k s = Some j \<longrightarrow> rx_State j = JobStateRunning \<longrightarrow> rd_get c k s' = Some j) \<and>
    (\<forall>job'. r = Some job' \<longrightarrow> (\<exists>i job. rd_get c i s = Some job \<and> rx_ID job = i \<and> rx_State job \<noteq> JobStateRunning \<and>
      job' = redis_claim now_ms w lease_ms job \<and> rd_get c i s' = Some job'))"
proof -
  define s1 where "s1 = fold (promote_due c q) (rd_zrangebyscore c (Sched q) now_ms 1024 s) s"
  have s1: "tidy s1" "\<And>k. rd_get c k s1 = rd_get c k s"
    using promote_all [OF assms(1), of "rd_zrangebyscore c (Sched q) now_ms 1024 s" q] zrange by (auto simp: s1_def)
  obtain s2 p where pop: "rd_zpopmin c (Avail q) s1 = (s2, p)" by fastforce
  have get2: "rd_get c k s2 = rd_get c k s" for k using get_zpopmin [of k "Avail q" s1] pop s1(2) by simp
  show ?thesis
  proof (cases p)
    case None
    then have out: "s' = s2" "r = None" using assms(2) pop by (simp_all add: fetchOneScript_def s1_def [symmetric] Let_def)
    have "members z s2 = members z s1" for z using zpopmin_none pop None by blast
    then have "tidy s2" using s1 get2 unfolding waiting_once_def by simp
    with out get2 show ?thesis by simp
  next
    case (Some i)
    have popped: "i \<in> members (Avail q) s1" "members z s2 = (if z = Avail q then members z s1 - {i} else members z s1)" for z
      using zpopmin_some [OF pop [unfolded Some], of z] by auto
    have gone: "i \<notin> members z s2" if "z \<noteq> JobsIndex" for z
    proof (cases "z = Avail q")
      case False
      then have "i \<notin> members z s1" using tidy_sets [OF s1(1) that _ _ popped(1)] by blast
      with False popped(2) [of z] show ?thesis by simp
    qed (simp add: popped(2))
    have sub: "k \<in> members z s1" if "k \<in> members z s2" for k z using that popped(2) [of z] by (auto split: if_splits)
    show ?thesis
    proof (cases "rd_get c i s")
      case none: None
      then have out: "s' = s2" "r = None" using assms(2) pop Some get2 by (simp_all add: fetchOneScript_def s1_def [symmetric] Let_def)
      have "tidy s2"
      proof (rule tidyI)
        show "\<And>z z' k. z \<noteq> JobsIndex \<Longrightarrow> z' \<noteq> JobsIndex \<Longrightarrow> k \<in> members z s2 \<Longrightarrow> k \<in> members z' s2 \<Longrightarrow> z = z'" using tidy_sets [OF s1(1)] sub by blast
        show "\<And>z k j. z \<noteq> JobsIndex \<Longrightarrow> k \<in> members z s2 \<Longrightarrow> rd_get c k s2 = Some j \<Longrightarrow> rx_State j \<noteq> JobStateRunning"
          using tidy_state [OF s1(1)] sub get2 s1(2) by metis
        show "\<And>k j. rd_get c k s2 = Some j \<Longrightarrow> rx_ID j = k" using tidy_filed [OF assms(1)] get2 by metis
      qed
      with out get2 show ?thesis by simp
    next
      case job: (Some job)
      define job' where "job' = redis_claim now_ms w lease_ms job"
      define mark where "mark = (if rx_LeaseExpiresAtMs job' \<noteq> 0 then rx_LeaseExpiresAtMs job' else now_ms)"
      have out: "s' = rd_run_set c q i mark (rd_set c i job' s2)" "r = Some job'"
        using assms(2) pop Some job get2 by (auto simp: fetchOneScript_def s1_def [symmetric] Let_def job'_def mark_def)
      have get': "rd_get c k s' = (if k = i then Some job' else rd_get c k s)" for k by (simp add: out(1) get_simps get2)
      have mem': "members z s' = members z s2" for z by (simp add: out(1) members_simps)
      have waits: "rx_State job \<noteq> JobStateRunning" using tidy_state [OF s1(1) _ popped(1)] job s1(2) by simp
      have filed: "rx_ID job = i" using tidy_filed [OF assms(1) job] .
      have "tidy s'"
      proof (rule tidyI)
        show "\<And>z z' k. z \<noteq> JobsIndex \<Longrightarrow> z' \<noteq> JobsIndex \<Longrightarrow> k \<in> members z s' \<Longrightarrow> k \<in> members z' s' \<Longrightarrow> z = z'"
          using tidy_sets [OF s1(1)] sub mem' by blast
        fix z k j assume "z \<noteq> JobsIndex" "k \<in> members z s'" "rd_get c k s' = Some j"
        then show "rx_State j \<noteq> JobStateRunning" using gone [of z] sub [of k z] mem' get' [of k] s1(2) tidy_state [OF s1(1), of z k j] by (auto split: if_splits)
      next
        fix k j assume "rd_get c k s' = Some j"
        then show "rx_ID j = k" using get' [of k] filed tidy_filed [OF assms(1), of k j] by (auto simp: job'_def redis_claim_def split: if_splits)
      qed
      moreover have "rd_get c k s' = Some j" if "rd_get c k s = Some j" "rx_State j = JobStateRunning" for k j
        using that get' [of k] job waits by (auto split: if_splits)
      moreover have "rd_get c i s' = Some job'" using get' by simp
      ultimately show ?thesis using job filed waits out(2) job'_def by blast
    qed
  qed
qed

definition redis_fresh_claim :: "FetchParams \<Rightarrow> 's \<Rightarrow> 's \<Rightarrow> JobRow \<Rightarrow> bool" where
  "redis_fresh_claim p s s' row \<longleftrightarrow> (\<forall>j. rd_get c (ID row) s = Some j \<longrightarrow> rx_State j \<noteq> JobStateRunning) \<and>
     (\<exists>j. rd_get c (ID row) s' = Some j \<and> row = redis_jobToRow j \<and> rx_State j = JobStateRunning \<and> rx_WorkerID j = fp_WorkerID p)"

lemma send_cases:
  obtains (lost) e where "send env n f s = (rv_others env n s, Inl e)" | (silent) e where "send env n f s = (fst (f (rv_others env n s)), Inl e)"
    | (answered) "send env n f s = (fst (f (rv_others env n s)), Inr (snd (f (rv_others env n s))))"
  by (cases "rv_link env n") (auto simp: send_def Let_def)

lemma fetch_loop_fresh:
  assumes "\<And>n. redis_polite c members (rv_others env n)" "tidy s" "redis_fetch_loop c env now_ms p i n s = (s', rows, err)"
  shows "tidy s' \<and> (\<forall>k j. rd_get c k s = Some j \<longrightarrow> rx_State j = JobStateRunning \<longrightarrow> rd_get c k s' = Some j) \<and>
    distinct (map ID rows) \<and> length rows \<le> n \<and> (\<forall>row\<in>set rows. redis_fresh_claim p s s' row)"
  using assms(2,3)
proof (induction n arbitrary: i s rows)
  case (Suc n)
  define f where "f = fetchOneScript c (fp_Queue p) now_ms (fp_WorkerID p) (Milliseconds (fp_LeaseDuration p))"
  define t where "t = rv_others env i s"
  have t: "tidy t" "\<And>k j. rd_get c k s = Some j \<Longrightarrow> rx_State j = JobStateRunning \<Longrightarrow> rd_get c k t = Some j"
    using assms(1) [of i] Suc.prems(1) by (auto simp: redis_polite_def t_def)
  obtain s1 r where one: "f t = (s1, r)" by fastforce
  note fetched = fetch_one [OF t(1) one [unfolded f_def]]
  show ?case
  proof (cases "\<exists>job. send env i f s = (s1, Inr (Some job))")
    case False
    then have "(s' = t \<or> s' = s1) \<and> rows = []"
      using Suc.prems(2) one unfolding redis_fetch_loop.simps f_def [symmetric]
      by (cases rule: send_cases [where env = env and n = i and f = f and s = s]) (auto simp: t_def [symmetric] split: option.splits)
    with t fetched show ?thesis by auto
  next
    case True
    then obtain job where job: "send env i f s = (s1, Inr (Some job))" by blast
    then have r: "r = Some job" using one by (cases rule: send_cases [where env = env and n = i and f = f and s = s]) (auto simp: t_def [symmetric])
    obtain rest where rest: "redis_fetch_loop c env now_ms p (Suc i) n s1 = (s', rest, err)" and rows: "rows = redis_jobToRow job # rest"
      using Suc.prems(2) job unfolding redis_fetch_loop.simps f_def [symmetric] by (auto split: prod.splits)
    from fetched r obtain k old where k: "rd_get c k t = Some old" "rx_ID old = k" "rx_State old \<noteq> JobStateRunning" "rd_get c k s1 = Some job"
      "job = redis_claim now_ms (fp_WorkerID p) (Milliseconds (fp_LeaseDuration p)) old" by blast
    have claimed: "rx_ID job = k" "rx_State job = JobStateRunning" "rx_WorkerID job = fp_WorkerID p" using k by (simp_all add: redis_claim_def)
    have keep: "\<And>k j. rd_get c k s = Some j \<Longrightarrow> rx_State j = JobStateRunning \<Longrightarrow> rd_get c k s1 = Some j" using t(2) fetched by blast
    have tidy1: "tidy s1" using fetched by blast
    note IH = Suc.IH [OF tidy1 rest]
    have ids: "ID (redis_jobToRow job) = k" using claimed by (simp add: redis_jobToRow_def)
    have new: "rx_State j \<noteq> JobStateRunning" if "rd_get c k s = Some j" for j using that t(2) k(1,3) by fastforce
    have kept: "rd_get c k s' = Some job" using IH k(4) claimed(2) by blast
    have "redis_fresh_claim p s s' (redis_jobToRow job)" unfolding redis_fresh_claim_def ids using new kept claimed by blast
    moreover have "\<forall>row\<in>set rest. redis_fresh_claim p s s' row \<and> ID row \<noteq> k"
    proof
      fix row assume row: "row \<in> set rest"
      have fr: "redis_fresh_claim p s1 s' row" using IH row by blast
      then have "ID row \<noteq> k" using k(4) claimed(2) unfolding redis_fresh_claim_def by blast
      moreover have "redis_fresh_claim p s s' row" using fr keep unfolding redis_fresh_claim_def by blast
      ultimately show "redis_fresh_claim p s s' row \<and> ID row \<noteq> k" by blast
    qed
    ultimately have fresh: "\<forall>row\<in>set rows. redis_fresh_claim p s s' row" "ID (redis_jobToRow job) \<notin> set (map ID rest)" using rows ids by auto
    have "\<forall>k j. rd_get c k s = Some j \<longrightarrow> rx_State j = JobStateRunning \<longrightarrow> rd_get c k s' = Some j" using IH keep by blast
    with fresh IH rows show ?thesis by simp
  qed
qed simp

end

text \<open>
  Claim C25: a batch over Redis holds every job once and takes it from nobody. From a state in which a job waits in at
  most one sorted set and not while it runs, whatever others do that keeps this between the scripts of a
  fetch, and even if a script is lost or its answer is, the jobs that are returned are different, at most as many as asked for,
  none of them was running before, each is stored as a claim of this worker exactly as it is returned,
  and the state is one of this kind again.
\<close>

theorem redis_fetch_claims_once:
  assumes "redis_server c members" "\<forall>n. redis_polite c members (rv_others env n)" "waiting_once c members s"
    and "redis_jobFetchBatch c env now p s = (s', rows, err)"
  shows "waiting_once c members s' \<and> distinct (map ID rows) \<and> length rows \<le> nat (fp_Limit p) \<and>
    (\<forall>row\<in>set rows. (\<forall>j. rd_get c (ID row) s = Some j \<longrightarrow> rx_State j \<noteq> JobStateRunning) \<and>
      (\<exists>j. rd_get c (ID row) s' = Some j \<and> row = redis_jobToRow j \<and> rx_State j = JobStateRunning \<and> rx_WorkerID j = fp_WorkerID p))"
proof -
  define t where "t = rv_others env 0 s"
  have t: "waiting_once c members t" "\<And>k j. rd_get c k s = Some j \<Longrightarrow> rx_State j = JobStateRunning \<Longrightarrow> rd_get c k t = Some j"
    using assms(2,3) by (auto simp: redis_polite_def t_def)
  consider "s' = t" "rows = []" | "redis_fetch_loop c env (UnixMilli now) p 1 (nat (fp_Limit p)) t = (s', rows, err)"
    using assms(4) by (cases "rv_link env 0") (auto simp: redis_jobFetchBatch_def ask_def send_def Let_def t_def [symmetric] split: if_splits)
  then show ?thesis
  proof cases
    case 1
    with t show ?thesis by simp
  next
    case 2
    have all: "redis_polite c members (rv_others env n)" for n using assms(2) by blast
    note loop = redis_server.fetch_loop_fresh [OF assms(1) all t(1) 2, unfolded redis_server.redis_fresh_claim_def [OF assms(1)]]
    have "\<forall>j. rd_get c (ID row) s = Some j \<longrightarrow> rx_State j \<noteq> JobStateRunning" if "row \<in> set rows" for row
      using loop that t(2) by blast
    with loop show ?thesis by blast
  qed
qed

section \<open>Outcomes are fenced\<close>

context redis_server
begin

lemma exec_get: "rd_get c k (redis_exec c now p job' s) = (if k = sp_ID p then Some job' else rd_get c k s)"
  by (simp add: redis_exec_def Let_def get_simps)

definition stored_outcome :: "JobSetStateParams \<Rightarrow> 's \<Rightarrow> bool" where
  "stored_outcome p s' \<longleftrightarrow> (\<exists>s1 job now. rd_get c (sp_ID p) s1 = Some job \<and> rx_State job = JobStateRunning \<and>
     MatchesClaim p (rx_WorkerID job) (rx_AttemptNum job) \<and> s' = redis_exec c now p (redis_outcome now p job) s1)"

lemma tries_stored: "set_state_tries c env clk p n k s = (s', None) \<Longrightarrow> stored_outcome p s'"
proof (induction k arbitrary: n s)
  case (Suc k)
  obtain s1 r where r: "ask env n (rd_get c (sp_ID p)) s = (s1, r)" by fastforce
  obtain job where job: "r = Inr (Some job)" "rx_State job = JobStateRunning" "MatchesClaim p (rx_WorkerID job) (rx_AttemptNum job)"
    using Suc.prems r by (auto split: sum.splits option.splits if_splits)
  obtain s2 x where x: "send env (Suc n) (watched_exec c env (Suc n) (clk n) p job) s1 = (s2, x)" by fastforce
  have next_round: "set_state_tries c env clk p n (Suc k) s = (case x of Inl e \<Rightarrow> (s2, Some e) | Inr b \<Rightarrow> if b then (s2, None) else set_state_tries c env clk p (n + 2) k s2)"
    using r job x by simp
  consider "x = Inr True" "s' = s2" | "set_state_tries c env clk p (n + 2) k s2 = (s', None)"
  proof (cases x)
    case (Inr b)
    with next_round Suc.prems that show thesis by (cases b) simp_all
  qed (use next_round Suc.prems in simp)
  then show ?case
  proof cases
    case 1
    let ?t = "rv_others env (Suc n) s1"
    have "fst (watched_exec c env (Suc n) (clk n) p job ?t) = s2" "snd (watched_exec c env (Suc n) (clk n) p job ?t)"
      using x 1(1) by (auto simp: send_def Let_def split: link.splits)
    then have "rd_get c (sp_ID p) ?t = Some job" "s2 = redis_exec c (clk n) p (redis_outcome (clk n) p job) ?t"
      by (auto simp: watched_exec_def split: if_splits)
    with job 1 show ?thesis unfolding stored_outcome_def by blast
  qed (rule Suc.IH)
qed simp

lemma tries_stale:
  assumes "\<And>n. rv_others env n = id" "\<forall>j. rd_get c (sp_ID p) s = Some j \<longrightarrow> rx_State j \<noteq> JobStateRunning \<or> \<not> MatchesClaim p (rx_WorkerID j) (rx_AttemptNum j)"
  shows "fst (set_state_tries c env clk p n (Suc k) s) = s \<and> snd (set_state_tries c env clk p n (Suc k) s) \<noteq> None"
  using assms by (cases "rd_get c (sp_ID p) s"; cases "rv_link env n") (simp_all add: ask_def send_def Let_def)

end

text \<open>
  An outcome over Redis is stored only under the claim that it belongs to. Of a call that succeeds, however often it had to begin
  again, the job was running under the expected worker and attempt when the commands were executed, and they made its
  document, and no other, the outcome; a call without the claim that nobody disturbs fails and changes nothing.
\<close>

theorem redis_outcome_is_fenced:
  assumes "redis_server c members" "redis_jobSetStateIfRunning c env clk p s = (s', err)"
  shows "(err = None \<longrightarrow> (\<exists>s1 job now. rd_get c (sp_ID p) s1 = Some job \<and> rx_State job = JobStateRunning \<and>
      MatchesClaim p (rx_WorkerID job) (rx_AttemptNum job) \<and>
      (\<forall>k. rd_get c k s' = (if k = sp_ID p then Some (redis_outcome now p job) else rd_get c k s1)))) \<and>
    ((\<forall>n. rv_others env n = id) \<and> (\<forall>j. rd_get c (sp_ID p) s = Some j \<longrightarrow> rx_State j \<noteq> JobStateRunning \<or> \<not> MatchesClaim p (rx_WorkerID j) (rx_AttemptNum j)) \<longrightarrow>
      err \<noteq> None \<and> s' = s)"
proof -
  have run: "set_state_tries c env clk p 0 (Suc 7) s = (s', err)" using assms(2) by (simp only: redis_jobSetStateIfRunning_def) (simp add: numeral_eq_Suc)
  have "\<exists>s1 job now. rd_get c (sp_ID p) s1 = Some job \<and> rx_State job = JobStateRunning \<and> MatchesClaim p (rx_WorkerID job) (rx_AttemptNum job) \<and>
      (\<forall>k. rd_get c k s' = (if k = sp_ID p then Some (redis_outcome now p job) else rd_get c k s1))" if "err = None"
  proof -
    from redis_server.tries_stored [OF assms(1) run [unfolded that]]
    obtain s1 job now where o: "rd_get c (sp_ID p) s1 = Some job" "rx_State job = JobStateRunning" "MatchesClaim p (rx_WorkerID job) (rx_AttemptNum job)"
      "s' = redis_exec c now p (redis_outcome now p job) s1" unfolding redis_server.stored_outcome_def [OF assms(1)] by blast
    with redis_server.exec_get [OF assms(1), of _ now p "redis_outcome now p job" s1] show ?thesis by auto
  qed
  moreover have "err \<noteq> None \<and> s' = s" if "\<forall>n. rv_others env n = id"
    "\<forall>j. rd_get c (sp_ID p) s = Some j \<longrightarrow> rx_State j \<noteq> JobStateRunning \<or> \<not> MatchesClaim p (rx_WorkerID j) (rx_AttemptNum j)"
    using redis_server.tries_stale [OF assms(1), of env p s clk 0 7] that run by simp
  ultimately show ?thesis by blast
qed

section \<open>An instance\<close>

text \<open>A server in memory with its own clock, by which leases run out.\<close>

record redis_db =
  db_docs :: "(string, redisJob) gmap"
  db_keys :: "(string, string) gmap"
  db_zsets :: "(zset, (string \<times> int) list) gmap"
  db_running :: "(string, (string, int) gmap) gmap"
  db_names :: "string list"
  db_meta :: "(string, (string, string) gmap) gmap"
  db_leases :: "(string, string \<times> int) gmap"
  db_time :: int
  db_positions :: "(string, string) gmap"

definition zget :: "zset \<Rightarrow> redis_db \<Rightarrow> (string \<times> int) list" where
  "zget z s = (case gget (db_zsets s) z of None \<Rightarrow> [] | Some xs \<Rightarrow> xs)"

definition zput :: "zset \<Rightarrow> (string \<times> int) list \<Rightarrow> redis_db \<Rightarrow> redis_db" where
  "zput z xs s = s\<lparr>db_zsets := gput z xs (db_zsets s)\<rparr>"

definition score_less :: "string \<times> int \<Rightarrow> string \<times> int \<Rightarrow> bool" where
  "score_less a b \<longleftrightarrow> (if snd a \<noteq> snd b then snd a < snd b else fst a < fst b)"

definition hget :: "string \<Rightarrow> (string, (string, 'v) gmap) gmap \<Rightarrow> (string, 'v) gmap" where
  "hget k m = (case gget m k of None \<Rightarrow> [] | Some h \<Rightarrow> h)"

definition live_lease :: "string \<Rightarrow> redis_db \<Rightarrow> string option" where
  "live_lease name s = (case gget (db_leases s) name of None \<Rightarrow> None | Some (w, e) \<Rightarrow> if db_time s < e then Some w else None)"

definition local_redis :: "redis_db redis" where
  "local_redis = \<lparr>
     rd_get = (\<lambda>k s. gget (db_docs s) k), rd_set = (\<lambda>k j s. s\<lparr>db_docs := gput k j (db_docs s)\<rparr>), rd_del = (\<lambda>k s. s\<lparr>db_docs := gdel k (db_docs s)\<rparr>),
     rd_uniq_exists = (\<lambda>k s. gget (db_keys s) k \<noteq> None), rd_uniq_set = (\<lambda>k i s. s\<lparr>db_keys := gput k i (db_keys s)\<rparr>),
     rd_uniq_del = (\<lambda>k s. s\<lparr>db_keys := gdel k (db_keys s)\<rparr>),
     rd_zadd = (\<lambda>z x i s. zput z ((i, x) # filter (\<lambda>e. fst e \<noteq> i) (zget z s)) s),
     rd_zrem = (\<lambda>z i s. zput z (filter (\<lambda>e. fst e \<noteq> i) (zget z s)) s),
     rd_zpopmin = (\<lambda>z s. case sort_slice score_less (zget z s) of [] \<Rightarrow> (s, None)
       | e # _ \<Rightarrow> (zput z (filter (\<lambda>x. fst x \<noteq> fst e) (zget z s)) s, Some (fst e))),
     rd_zrangebyscore = (\<lambda>z x n s. take n (remdups (map fst (filter (\<lambda>e. snd e \<le> x) (sort_slice score_less (zget z s)))))),
     rd_zrevrange = (\<lambda>z s. rev (map fst (sort_slice score_less (zget z s)))),
     rd_run_set = (\<lambda>q i x s. s\<lparr>db_running := gput q (gput i x (hget q (db_running s))) (db_running s)\<rparr>),
     rd_run_del = (\<lambda>q i s. s\<lparr>db_running := gput q (gdel i (hget q (db_running s))) (db_running s)\<rparr>),
     rd_run_get = (\<lambda>q i s. gget (hget q (db_running s)) i), rd_run_keys = (\<lambda>q s. gkeys (hget q (db_running s))),
     rd_queue_add = (\<lambda>q s. s\<lparr>db_names := (if q \<in> set (db_names s) then db_names s else q # db_names s)\<rparr>), rd_queue_names = db_names,
     rd_meta = (\<lambda>q s. hget q (db_meta s)),
     rd_meta_set = (\<lambda>q f v s. s\<lparr>db_meta := gput q (gput f v (hget q (db_meta s))) (db_meta s)\<rparr>),
     rd_meta_setnx = (\<lambda>q f v s. if gget (hget q (db_meta s)) f \<noteq> None then s else s\<lparr>db_meta := gput q (gput f v (hget q (db_meta s))) (db_meta s)\<rparr>),
     rd_publish = (\<lambda>q s. s),
     rd_leader_setnx = (\<lambda>n w ttl s. if live_lease n s \<noteq> None then (s, False) else (s\<lparr>db_leases := gput n (w, db_time s + ttl) (db_leases s)\<rparr>, True)),
     rd_leader_get = live_lease,
     rd_leader_expire = (\<lambda>n ttl s. case live_lease n s of None \<Rightarrow> s | Some w \<Rightarrow> s\<lparr>db_leases := gput n (w, db_time s + ttl) (db_leases s)\<rparr>),
     rd_leader_del = (\<lambda>n s. s\<lparr>db_leases := gdel n (db_leases s)\<rparr>),
     rd_cursor_setnx = (\<lambda>k v s. if gget (db_positions s) k \<noteq> None then (s, False) else (s\<lparr>db_positions := gput k v (db_positions s)\<rparr>, True)),
     rd_cursor_get = (\<lambda>k s. gget (db_positions s) k), rd_cursor_set = (\<lambda>k v s. s\<lparr>db_positions := gput k v (db_positions s)\<rparr>)\<rparr>"

definition empty_redis :: redis_db where
  "empty_redis = \<lparr>db_docs = [], db_keys = [], db_zsets = [], db_running = [], db_names = [], db_meta = [], db_leases = [], db_time = 0, db_positions = []\<rparr>"

definition quiet_link :: "'s renv" where
  "quiet_link = \<lparr>rv_link = (\<lambda>_. Answered), rv_others = (\<lambda>_ s. s)\<rparr>"

definition redis_params :: JobInsertParams where
  "redis_params = \<lparr>ip_Queue = ''q'', ip_Kind = ''k'', ip_Args = ''{}'', ip_Priority = 0, ip_RunAt = 0, ip_UniqueKey = [], ip_MaxRetry = 3,
     ip_Timeout = 0, ip_Tags = [], ip_PipelineID = []\<rparr>"

definition redis_filled :: redis_db where
  "redis_filled = fst (redis_jobInsertMany local_redis quiet_link (unix_epoch + Millisecond) (\<lambda>n. nat_to_dec n) [redis_params, redis_params\<lparr>ip_Priority := 5\<rparr>] empty_redis)"

definition redis_fetch :: FetchParams where
  "redis_fetch = \<lparr>fp_Queue = ''q'', fp_Limit = 5, fp_WorkerID = ''w'', fp_LeaseDuration = 7 * Millisecond\<rparr>"

abbreviation local_members :: "zset \<Rightarrow> redis_db \<Rightarrow> string set" where
  "local_members \<equiv> \<lambda>z s. fst ` set (zget z s)"

lemma zget_simps:
  "zget z (zput z' xs s) = (if z = z' then xs else zget z s)"
  "zget z (s\<lparr>db_docs := a\<rparr>) = zget z s" "zget z (s\<lparr>db_running := b\<rparr>) = zget z s"
  by (simp_all add: zget_def zput_def gmap_simps)

lemma docs_zput [simp]: "db_docs (zput z xs s) = db_docs s"
  by (simp add: zput_def)

lemma score_order: "slice_order score_less (\<lambda>e. (snd e, fst e))"
  by unfold_locales (auto simp: score_less_def less_prod_def)

interpretation local_rd: redis_server local_redis local_members
proof unfold_locales
  fix z z' s s' i
  show "local_members z' s' = local_members z' s" if "rd_zpopmin local_redis z s = (s', None)"
    using that by (auto simp: local_redis_def split: list.splits)
  show "i \<in> local_members z s \<and> local_members z' s' = (if z' = z then local_members z s - {i} else local_members z' s)"
    if "rd_zpopmin local_redis z s = (s', Some i)"
  proof -
    from that obtain e es where e: "sort_slice score_less (zget z s) = e # es" "i = fst e" "s' = zput z (filter (\<lambda>x. fst x \<noteq> i) (zget z s)) s"
      by (auto simp: local_redis_def split: list.splits)
    have "e \<in> set (zget z s)" using slice_order.set_sort_slice [OF score_order, of "zget z s"] e(1) by auto
    with e show ?thesis by (auto simp: zget_simps image_iff)
  qed
next
  fix z x n s
  show "set (rd_zrangebyscore local_redis z x n s) \<subseteq> local_members z s \<and> distinct (rd_zrangebyscore local_redis z x n s)"
    using slice_order.set_sort_slice [OF score_order, of "zget z s"] set_take_subset [of n]
    by (fastforce simp: local_redis_def)
qed (auto simp: local_redis_def gmap_simps zget_simps split: list.splits)

lemma quiet_polite: "redis_polite c members (rv_others quiet_link n)"
  by (simp add: redis_polite_def quiet_link_def)

lemma filled_waits: "waiting_once local_redis local_members redis_filled"
proof -
  have keys: "set (gkeys (db_zsets redis_filled)) = {JobsIndex, Avail ''q''}" by code_simp
  have docs: "list_all (\<lambda>(k, j). rx_State j = JobStateAvailable \<and> rx_ID j = k) (db_docs redis_filled)" by code_simp
  have only: "z = Avail ''q''" if "z \<noteq> JobsIndex" "i \<in> local_members z redis_filled" for z i
  proof -
    have "gget (db_zsets redis_filled) z \<noteq> None" using that(2) by (cases "gget (db_zsets redis_filled) z") (simp_all add: zget_def)
    then have "z \<in> set (gkeys (db_zsets redis_filled))" by (force dest: map_of_SomeD)
    with keys that(1) show ?thesis by auto
  qed
  have doc: "rx_State j = JobStateAvailable \<and> rx_ID j = k" if "rd_get local_redis k redis_filled = Some j" for k j
    using docs that by (auto simp: local_redis_def list_all_iff dest!: map_of_SomeD)
  show ?thesis
  proof (rule local_rd.tidyI)
    show "\<And>z z' i. z \<noteq> JobsIndex \<Longrightarrow> z' \<noteq> JobsIndex \<Longrightarrow> i \<in> local_members z redis_filled \<Longrightarrow> i \<in> local_members z' redis_filled \<Longrightarrow> z = z'"
      using only by metis
    show "\<And>z i j. z \<noteq> JobsIndex \<Longrightarrow> i \<in> local_members z redis_filled \<Longrightarrow> rd_get local_redis i redis_filled = Some j \<Longrightarrow> rx_State j \<noteq> JobStateRunning"
      using doc by simp
    show "\<And>i j. rd_get local_redis i redis_filled = Some j \<Longrightarrow> rx_ID j = i" using doc by simp
  qed
qed

theorem redis_fetch_claims_once_witness:
  "\<exists>s' rows. redis_jobFetchBatch local_redis quiet_link (unix_epoch + 2 * Millisecond) redis_fetch redis_filled = (s', rows, None) \<and>
     map ID rows = [''1'', ''0''] \<and> distinct (map ID rows) \<and> waiting_once local_redis local_members s'"
proof -
  obtain s' rows err where r: "redis_jobFetchBatch local_redis quiet_link (unix_epoch + 2 * Millisecond) redis_fetch redis_filled = (s', rows, err)"
    using prod_cases3 by blast
  have v: "case redis_jobFetchBatch local_redis quiet_link (unix_epoch + 2 * Millisecond) redis_fetch redis_filled of (s', rows, err) \<Rightarrow>
      map ID rows = [''1'', ''0''] \<and> err = None" by code_simp
  have p: "\<forall>n. redis_polite local_redis local_members (rv_others quiet_link n)" using quiet_polite by blast
  from redis_fetch_claims_once [OF local_rd.redis_server_axioms p filled_waits r] v r show ?thesis by simp
qed

definition redis_done :: JobSetStateParams where
  "redis_done = blank_state\<lparr>sp_ID := ''0'', sp_State := JobStateCompleted, sp_ExpectedWorkerID := ''w'', sp_ExpectedAttempt := 1\<rparr>"

theorem redis_outcome_is_fenced_witness:
  "snd (redis_jobSetStateIfRunning local_redis quiet_link (\<lambda>_. unix_epoch) redis_done
     (fst (redis_jobFetchBatch local_redis quiet_link (unix_epoch + 2 * Millisecond) redis_fetch redis_filled))) = None \<and>
   snd (redis_jobSetStateIfRunning local_redis quiet_link (\<lambda>_. unix_epoch) redis_done redis_filled) \<noteq> None \<and>
   fst (redis_jobSetStateIfRunning local_redis quiet_link (\<lambda>_. unix_epoch) redis_done redis_filled) = redis_filled"
proof -
  have ok: "snd (redis_jobSetStateIfRunning local_redis quiet_link (\<lambda>_. unix_epoch) redis_done
     (fst (redis_jobFetchBatch local_redis quiet_link (unix_epoch + 2 * Millisecond) redis_fetch redis_filled))) = None" by code_simp
  have "case rd_get local_redis (sp_ID redis_done) redis_filled of None \<Rightarrow> False | Some j \<Rightarrow> rx_State j \<noteq> JobStateRunning" by code_simp
  then have w: "\<forall>j. rd_get local_redis (sp_ID redis_done) redis_filled = Some j \<longrightarrow>
      rx_State j \<noteq> JobStateRunning \<or> \<not> MatchesClaim redis_done (rx_WorkerID j) (rx_AttemptNum j)" by auto
  have q: "\<forall>n. rv_others quiet_link n = (id :: redis_db \<Rightarrow> redis_db)" by (simp add: quiet_link_def fun_eq_iff)
  from redis_outcome_is_fenced [OF local_rd.redis_server_axioms prod.collapse [symmetric],
      where env = quiet_link and clk = "\<lambda>_. unix_epoch" and p = redis_done and s = redis_filled] w q ok
  show ?thesis by blast
qed

section \<open>Leases and cancellations\<close>

text \<open>
  A renewal over Redis can make two leaders. \<^verbatim>\<open>leaderAttemptElect\<close> reads the owner and sends \<^verbatim>\<open>EXPIRE\<close> in another
  call: when the lease runs out in between and another worker takes it, the renewal extends the lease of that worker and
  reports success, so that both count as elected for a whole term, although the driver says that its leases are linearizable.
\<close>

theorem redis_renewal_makes_two_leaders:
  "let elect = (\<lambda>env w s. redis_leaderAttemptElect local_redis env \<lparr>le_Name = ''n'', le_WorkerID = w, le_TTL = 10\<rparr> s);
       (s1, a1) = elect quiet_link ''a'' empty_redis;
       takeover = (\<lambda>s. elect quiet_link ''b'' (s\<lparr>db_time := 11\<rparr>));
       (s2, a2) = elect (quiet_link\<lparr>rv_others := (\<lambda>n s. if n = 2 then fst (takeover s) else s)\<rparr>) ''a'' (s1\<lparr>db_time := 9\<rparr>)
   in LinearizableLeases redis_Capabilities \<and> a1 = Inr True \<and> snd (takeover (s1\<lparr>db_time := 9\<rparr>)) = Inr True \<and> a2 = Inr True \<and> db_time s2 = 11 \<and> live_lease ''n'' s2 = Some ''b''"
  by code_simp

text \<open>
  A cancellation over Redis can overwrite a claim. \<^verbatim>\<open>jobCancel\<close> reads the job and writes the cancelled document in another
  call: when a worker claims the job in between, the call reports success, the job is stored as cancelled while its
  handler runs, and the outcome of the handler is refused.
\<close>

theorem redis_cancel_overwrites_claim:
  "let fetch = (\<lambda>s. fst (redis_jobFetchBatch local_redis quiet_link (unix_epoch + 2 * Millisecond) redis_fetch s));
       env = quiet_link\<lparr>rv_others := (\<lambda>n s. if n = 2 then fetch s else s)\<rparr>;
       (s1, err) = redis_jobCancel local_redis env (unix_epoch + 2 * Millisecond) ''0'' redis_filled;
       outcome = redis_jobSetStateIfRunning local_redis quiet_link (\<lambda>_. unix_epoch + 3 * Millisecond)
         (blank_state\<lparr>sp_ID := ''0'', sp_State := JobStateCompleted, sp_ExpectedWorkerID := ''w'', sp_ExpectedAttempt := 1\<rparr>) s1
   in err = None \<and> map_option rx_State (gget (db_docs (fetch redis_filled)) ''0'') = Some JobStateRunning \<and>
      map_option rx_State (gget (db_docs s1) ''0'') = Some JobStateCancelled \<and> snd outcome \<noteq> None"
  by code_simp

end
