(* ===== verification/Spec2Isabelle.thy ===== *)
theory Spec2Isabelle
  imports Clock Retry Worker_Loop Worker_Pipeline Cron_Properties Admin Firestore_Properties Mongo_Properties Mongo_Limits Sql_Properties Sql_Schema Pgx_Listener Redis_Properties
begin

text \<open>
  A verification library for goncordia, a job queue written in Go.

  \<^bold>\<open>The program.\<close> A client builds rows from typed arguments and inserts them into a store through a
  driver (\<^verbatim>\<open>client.go\<close>, \<^verbatim>\<open>admission.go\<close>). Worker pools (\<^verbatim>\<open>worker.go\<close>) claim rows, wait for pipelines,
  limits and rate permits, run the handler that a registry (\<^verbatim>\<open>core/registry.go\<close>) finds for the kind of
  the job, and store the outcome under the claim; a retry policy (\<^verbatim>\<open>core/retry.go\<close>) says when a failed
  attempt is repeated. A cron scheduler (\<^verbatim>\<open>cron.go\<close>) enqueues periodic jobs under a lease, and a
  maintenance service (\<^verbatim>\<open>maintenance.go\<close>) prunes and changes rows in bulk; an HTTP handler
  (\<^verbatim>\<open>admin/admin.go\<close>) lists and changes queues and jobs. All of them only see the driver contract
  (\<^verbatim>\<open>driver/driver.go\<close>); the drivers that are part of the model are the in-memory one
  (\<^verbatim>\<open>driver/memory/memory.go\<close>) and those over Cloud Firestore (\<^verbatim>\<open>driver/firestore\<close>), MongoDB
  (\<^verbatim>\<open>driver/mongodb\<close>), PostgreSQL with pgx (\<^verbatim>\<open>driver/pgxv5\<close>), \<^verbatim>\<open>database/sql\<close> (\<^verbatim>\<open>driver/stdlib\<close>) and Redis
  (\<^verbatim>\<open>driver/redis\<close>).

  \<^bold>\<open>Theories, in the order of dependence.\<close>

  \<^item> \<open>Prelude\<close>: Go maps as association lists (\<open>gget\<close>, \<open>gput\<close>, \<open>gdel\<close>), instants and durations as
    integers with the saturating subtraction of Go, decimal text, insertion sort with the laws of
    a strict order as a locale, and the collections \<open>gmap_simps\<close> and \<open>inv_intros\<close>.
  \<^item> \<open>Go_Errors\<close>: error values as trees with \<^verbatim>\<open>errors.Is\<close> and \<^verbatim>\<open>errors.As\<close> as searches.
  \<^item> \<open>Clock\<close>: the manual clock of \<^verbatim>\<open>clock/clock.go\<close> with its timers, tickers and deadlines.
  \<^item> \<open>Driver_Types\<close>: the records of \<^verbatim>\<open>driver/driver.go\<close>.
  \<^item> \<open>Memory_Driver\<close>, \<open>Memory_Invariant\<close>, \<open>Memory_Properties\<close>: the in-memory driver, one function per
    method on the record \<open>mem\<close>; the invariant \<open>mem_inv\<close> and the uniqueness of keys, kept by every
    operation; fetch order, fencing of rescued claims, finality of finished rows.
  \<^item> \<open>Store_Interfaces\<close>: leases and compare-and-swap cursors as locales with their laws, the safety
    theorems proved in them, and the interpretations on the in-memory driver.
  \<^item> \<open>Float64\<close>, \<open>Retry\<close>: IEEE binary64 values as scaled integers with rounding, and the retry
    policies that compute with them.
  \<^item> \<open>Rate_Limit\<close>: the distributed limiter over any cursor store; bounds for both modes, and the
    refinement of the fixed window to an abstract counter.
  \<^item> \<open>Json\<close>, \<open>Sha256\<close>, \<open>Pagination\<close>: the JSON text, base64 and digest the program uses, job and queue
    cursors, and listing by pages.
  \<^item> \<open>Registry\<close>, \<open>Client\<close>: payload envelopes, upcasting and dispatch; options, unique keys, the
    enqueue operations and queue-depth admission.
  \<^item> \<open>Worker_Process\<close>, \<open>Worker_Config\<close>, \<open>Worker_Rate\<close>, \<open>Worker_Dispatch\<close>, \<open>Worker_Pool\<close>,
    \<open>Worker_Pipeline\<close>: one attempt and its outcome; validation and defaults; local and shared rate
    permits; the dispatcher and the goroutine of a job as a step function over its phases; the
    transition system of a pool with its accounting invariant; the order of pipelines.
  \<^item> \<open>Worker_Leases\<close>, \<open>Worker_Loop\<close>: the lease of a distributed pipeline and the heartbeats of a claim;
    worker identities, the main loop, subscriptions and their removal.
  \<^item> \<open>Cron\<close>, \<open>Cron_Properties\<close>: schedules, ticks and durable catch-up; the transition system of the
    ticks of several schedulers over one store.
  \<^item> \<open>Maintenance\<close>: retention, bulk actions, dead letters.
  \<^item> \<open>Admin\<close>: requests and responses as records, routing, authorization, confirmation, the listings
    and actions over any admin driver, and the instance on the in-memory driver.
  \<^item> \<open>Firestore\<close>, \<open>Firestore_Service\<close>, \<open>Firestore_Properties\<close>: the Firestore driver over the record
    \<open>firestore\<close> of the calls of the service; the locale \<open>firestore_service\<close> with what the service
    documents of them, and its interpretation on a local store that repeats transactions; leases,
    unique keys, and the agreement with the in-memory driver.
  \<^item> \<open>Lease_Commands\<close>, \<open>Local_Store\<close>: elections as single commands of a database, with their exclusion proved
    in the locale \<open>lease_commands\<close>; tables in memory for the instances.
  \<^item> \<open>Mongo\<close>, \<open>Mongo_Service\<close>, \<open>Mongo_Properties\<close>, \<open>Mongo_Limits\<close>: the MongoDB driver over the record
    \<open>mongo\<close> of collections with the commands that the driver sends; the locale \<open>mongo_service\<close>, four times
    \<open>mongo_collection\<close>, with what the server documents of a command, and its interpretation on a
    local database; leases whose election takes two commands, batches and their agreement with
    the in-memory driver, fenced outcomes; the limiter over dates in milliseconds.
  \<^item> \<open>Sql\<close>, \<open>Pgx\<close>, \<open>Stdlib_Driver\<close>, \<open>Sql_Service\<close>, \<open>Sql_Properties\<close>: the two SQL drivers over the record \<open>sql\<close> of tables with
    the kinds of statements that they send, clauses as predicates and functions on rows; the
    locale \<open>sql_service\<close>, with \<open>sql_table\<close> for a table, and its interpretation on a database in memory; leases
    across drivers, batches, outcomes in every dialect and their agreement with the in-memory driver.
  \<^item> \<open>Sql_Schema\<close>, \<open>Pgx_Listener\<close>: nested transactions and migrations, the latter over the locale \<open>migration_journal\<close>; the
    subscriptions of the pgx listener as a transition system, the quoting of channels.
  \<^item> \<open>Redis\<close>, \<open>Redis_Properties\<close>: the Redis driver and its Lua scripts over the record \<open>redis\<close> of the commands that they send;
    the locale \<open>redis_server\<close> and its interpretation on a server in memory; exclusive batches, fenced outcomes,
    and what happens between the calls of renewals and cancellations.

  \<^bold>\<open>Conventions.\<close> A struct is a record whose fields carry a short prefix, an error is a value of
  \<open>goerr\<close>, \<open>'a res\<close> is \<open>goerr + 'a\<close>. Readings of the clock, results of the context, random values and
  the calls of user code (handlers, middleware, admission) are arguments. A mutex makes a method
  one step; where the code releases it between two calls, other steps may come between them, and
  the theorems quantify over what they do. Instants are nanoseconds since the zero time; integers
  of 64 bits that the code lets wrap (sequence numbers, shifts in backoff, multiplied durations)
  are written with their wrap-around.

  \<^bold>\<open>Loops.\<close> Loops over slices are structural recursion. The scan for missed occurrences has the bound
  of 100000 that the code has. The dispatch loop ends by a measure on free slots and misses, and
  \<open>dispatch_is_work_conserving\<close> shows that it returns a result. The loops of the rate limiter, the permit wait
  and retention have no bound in the code: they are \<open>partial_function (option)\<close> or take the list of
  rounds that happen, and \<open>gcra_acquire\<close>, \<open>local_permit_takes_one_wait\<close> and
  \<open>prune_removes_exactly_expired\<close> show that they end.

  \<^bold>\<open>What the theorems show.\<close> For the store: at most one job reserves a unique key, claims are
  exclusive, ordered and fenced, finished rows stay. For the limiters: how many permits can be
  granted, whatever the interleaving. For pools: the limits on pending jobs, handlers, queues, kinds
  and keys hold in every reachable state, dispatch leaves no slot idle without a reason, jobs of a
  pipeline go one at a time while no wait is abandoned, and across pools while their leases last; a
  claim with timely heartbeats is not rescued, and a pool leaves no subscription behind. For cron: every occurrence that the cursor
  passes has exactly one job. For the admin handler: a request changes the store only by the command
  that it names, is authorized for and confirms, and shows redacted rows. For Firestore: exclusive
  leases, one job per key, and outcomes that the in-memory driver has too, however often a
  transaction is repeated. For MongoDB: exclusive leases and claims under any interleaving of commands,
  the batches of the in-memory driver, fenced outcomes. For the SQL drivers: exclusive leases, also between
  drivers, outcomes that are one fenced update in every dialect and agree with the in-memory driver,
  exclusive batches of pgx, migrations in order and each once, listeners that lose no connection. For Redis:
  exclusive batches and fenced outcomes; renewals of leases and cancellations are not fenced. For clients and codecs: round trips and unambiguous keys. The
  theorems of kind error state behaviour that departs from a comment or from an invariant.

  \<^bold>\<open>Assumptions.\<close> The Firestore service is not part of the sources. A transaction commits the writes
  of one run of its callback on the documents that this run has read, or fails and changes nothing;
  earlier runs of the callback may have set the variables that it captures. Queries only return
  stored documents. Neither is a MongoDB server: a command acts on one document as a whole, or
  fails after it has acted or without; an update reports how many documents it matched and how many it
  changed; dates are whole milliseconds. Nor is an SQL database: a statement acts on the rows as they are when it is executed, as a
  whole, or fails after it has acted or without; the count of an update lies between the rows that it
  changes and those that match; instants are stored with a resolution that keeps their order. Row
  locks end with the transaction, that of a single statement being its own. Nor is a Redis server: a script or a
  transaction is one step, the commands of a pipeline are not; a call is lost before it acts, or acts and its answer is lost;
  scores of sorted sets are exact.

  \<^bold>\<open>Not modelled.\<close> The other drivers of external services send text to servers that are not part of
  the sources; transactions, index creation and change streams of MongoDB; the SQL of the migrations, and operations
  of the SQL drivers inside a transaction, where they are those outside with nothing in between; the JSON of documents
  in Redis, the backfill of its index and its listener; OpenTelemetry spans, benchmarks, conformance tests and test helpers. The calendar of cron
  expressions belongs to a third-party package and is a parameter.
\<close>

end
